(* ===== verification/Prelude.thy ===== *)
theory Prelude
  imports Complex_Main "HOL-Library.Word" "HOL-Library.Monad_Syntax" "HOL-Library.Multiset"
    "HOL-Library.Signed_Division"
begin

text \<open>
  Shared vocabulary of the NVMain development: the machine types of
  \<^verbatim>\<open>include/NVMTypes.h\<close>, the theorem collections the component theories
  extend, and generic lemmas on words, lists and options.

  \<^verbatim>\<open>ncycle_t\<close> and \<^verbatim>\<open>ncounter_t\<close> are \<^verbatim>\<open>uint64_t\<close>: they are
  64-bit words here, so every addition wraps as it does in the simulator.
  \<^verbatim>\<open>double\<close> and \<^verbatim>\<open>float\<close> values are rational numbers: rounding is
  not modelled.
\<close>

unbundle bit_operations_syntax

type_synonym uint8 = "8 word"
type_synonym uint32 = "32 word"
type_synonym uint64 = "64 word"
type_synonym ncycle_t = "64 word"
type_synonym ncounter_t = "64 word"
type_synonym ncycles_t = "64 word"

text \<open>The collections: \<open>nvm_defs\<close> unfolds the small accessors of a component,
  \<open>nvm_inv\<close> holds the preservation lemmas of invariants.\<close>

named_theorems nvm_defs "definitions of small operations, unfolded by simp"
named_theorems nvm_inv "preservation of component invariants"

subsection \<open>Words as bounded numbers\<close>

lemma unat_uint64_lt: "unat (w :: uint64) < 2 ^ 64"
  using unsigned_less [where 'a = nat, of w] by simp

lemma word_of_nat_unat: "of_nat (unat w) = w"
  by (simp add: word_eq_iff_unsigned [where 'a = nat] unsigned_of_nat)

lemma word_less_top_iff: "(w :: 'a :: len word) < - 1 \<longleftrightarrow> w \<noteq> - 1"
  by (simp add: word_order.not_eq_extremum)

lemma unat_add_no_overflow:
  fixes a b :: "'a :: len word"
  assumes "unat a + unat b < 2 ^ LENGTH('a)"
  shows "unat (a + b) = unat a + unat b"
  using assms by (simp add: unat_word_ariths)

lemma plus_one_greater: "(w :: 'a :: len word) \<noteq> - 1 \<Longrightarrow> w < w + 1"
  using word_less_top_iff [of w] by unat_arith

lemma le_add_no_overflow:
  fixes a b :: "'a :: len word"
  assumes "unat a + unat b < 2 ^ LENGTH('a)"
  shows "a \<le> a + b"
  using assms by (simp add: word_le_nat_alt unat_add_no_overflow)

lemma of_nat_inj_64:
  assumes "(of_nat i :: uint64) = of_nat j" and "i < 2 ^ 64" and "j < 2 ^ 64"
  shows "i = j"
proof -
  have "unat (of_nat n :: uint64) = n" if "n < 2 ^ 64" for n
    using that by (simp add: unat_of_nat)
  with assms show ?thesis by metis
qed

lemma mixed_radix_inj:
  fixes l l' r r' w :: nat
  assumes "l * w + r = l' * w + r'" and "r < w" and "r' < w"
  shows "l = l' \<and> r = r'"
proof -
  have "(x * w + y) div w = x \<and> (x * w + y) mod w = y" if "y < w" for x y
    using that by simp
  from this [OF assms(2), of l] this [OF assms(3), of l'] assms(1) show ?thesis by metis
qed

lemma unat_mult_no_overflow:
  fixes a b :: "'a :: len word"
  assumes "unat a * unat b < 2 ^ LENGTH('a)"
  shows "unat (a * b) = unat a * unat b"
  using assms by (simp add: unat_word_ariths)

lemma mixed_radix_less: "(i :: nat) < m \<Longrightarrow> j < n \<Longrightarrow> i * n + j < m * n"
proof -
  assume "i < m" "j < n"
  then have "i * n + j < i * n + n" by simp
  also have "\<dots> = (i + 1) * n" by simp
  also have "\<dots> \<le> m * n" using \<open>i < m\<close> by (intro mult_le_mono1) simp
  finally show ?thesis .
qed

lemma mixed_radix_iff: "(r :: nat) < w \<Longrightarrow> r' < w \<Longrightarrow> l * w + r = l' * w + r' \<longleftrightarrow> l = l' \<and> r = r'"
  using mixed_radix_inj by blast

lemma unat_mixed_radix:
  fixes i j n :: uint64
  assumes "unat i < m" and "unat j < unat n" and "m * unat n < 2 ^ 64"
  shows "unat (i * n + j) = unat i * unat n + unat j" and "unat i * unat n + unat j < m * unat n"
proof -
  show less: "unat i * unat n + unat j < m * unat n"
    using assms(1,2) by (rule mixed_radix_less)
  then have "unat (i * n) = unat i * unat n"
    using assms(3) by (intro unat_mult_no_overflow) simp
  then show "unat (i * n + j) = unat i * unat n + unat j"
    using less assms(3) by (subst unat_add_no_overflow) simp_all
qed

lemma word_mod_less: "(n :: uint64) \<noteq> 0 \<Longrightarrow> x mod n < n"
  by (simp add: word_less_nat_alt unat_mod_distrib unat_gt_0)

subsection \<open>Options and lists\<close>

lemma bind_SomeE: "Option.bind m f = Some x \<Longrightarrow> (\<And>y. m = Some y \<Longrightarrow> f y = Some x \<Longrightarrow> thesis) \<Longrightarrow> thesis"
  by (auto simp: bind_eq_Some_conv)

lemma distinct_map_subset:
  assumes "inj_on f A" and "set xs \<subseteq> A" and "distinct xs"
  shows "set (map f xs) \<subseteq> f ` A \<and> distinct (map f xs)"
  using assms by (auto simp: distinct_map intro: inj_on_subset)

lemma filter_id_conv_all: "(\<forall>x \<in> set xs. P x) \<Longrightarrow> filter P xs = xs"
  by (simp add: filter_id_conv)

lemma sorted_wrt_insert_middle:
  assumes "sorted_wrt R (xs @ ys)" and "\<forall>x \<in> set xs. R x e" and "\<forall>y \<in> set ys. R e y"
  shows "sorted_wrt R (xs @ e # ys)"
  using assms by (auto simp: sorted_wrt_append)

lemma upto_int_upt: "[int a..int b - 1] = map int [a..<b]"
  by (rule nth_equalityI) (simp_all add: nth_upto)

lemma sum_list_of_bool: "(\<Sum>x\<leftarrow>xs. of_bool (P x)) = length (filter P xs)"
  by (induction xs) auto

subsection \<open>Results of fallible computations\<close>

text \<open>\<open>returns m P\<close>: if the computation returns, its result satisfies \<open>P\<close>. The rules of
  the collection \<open>returns_intro\<close> follow the structure of a body in the option monad.\<close>

definition returns :: "'a option \<Rightarrow> ('a \<Rightarrow> bool) \<Rightarrow> bool" where
  "returns m P \<longleftrightarrow> (\<forall>x. m = Some x \<longrightarrow> P x)"

named_theorems returns_intro "rules that decompose a computation in the option monad"

lemma returns_Some [simp]: "returns (Some x) P = P x"
  by (simp add: returns_def)

lemmas returns_SomeI [returns_intro] = returns_Some [THEN iffD2]

lemma returns_None [simp, returns_intro]: "returns None P"
  by (simp add: returns_def)

lemma returns_bind [returns_intro]: "(\<And>x. m = Some x \<Longrightarrow> returns (f x) P) \<Longrightarrow> returns (Option.bind m f) P"
  by (auto simp: returns_def bind_eq_Some_conv)

lemma returns_if [returns_intro]:
  "(b \<Longrightarrow> returns x P) \<Longrightarrow> (\<not> b \<Longrightarrow> returns y P) \<Longrightarrow> returns (if b then x else y) P"
  by simp

lemma returns_option [returns_intro]:
  "(m = None \<Longrightarrow> returns x P) \<Longrightarrow> (\<And>v. m = Some v \<Longrightarrow> returns (f v) P)
     \<Longrightarrow> returns (case m of None \<Rightarrow> x | Some v \<Rightarrow> f v) P"
  by (cases m) simp_all

lemma returns_prod [returns_intro]:
  "(\<And>a b. m = (a, b) \<Longrightarrow> returns (f a b) P) \<Longrightarrow> returns (case m of (a, b) \<Rightarrow> f a b) P"
  by (cases m) simp

lemma returns_mono: "returns m P \<Longrightarrow> (\<And>x. P x \<Longrightarrow> Q x) \<Longrightarrow> returns m Q"
  by (auto simp: returns_def)

lemma returnsD: "returns m P \<Longrightarrow> m = Some x \<Longrightarrow> P x"
  by (simp add: returns_def)

lemma returns_bind_cut: "returns m P \<Longrightarrow> (\<And>x. P x \<Longrightarrow> m = Some x \<Longrightarrow> returns (f x) Q) \<Longrightarrow> returns (Option.bind m f) Q"
  by (auto simp: returns_def bind_eq_Some_conv)

text \<open>Rewriting a body so that every branch is a chain of calls.\<close>

lemma bind_if: "Option.bind (if b then m else n) f = (if b then Option.bind m f else Option.bind n f)"
  by simp

lemma bind_case_prod: "Option.bind (case x of (a, b) \<Rightarrow> g a b) f = (case x of (a, b) \<Rightarrow> Option.bind (g a b) f)"
  by (cases x) simp

lemma bind_case_option:
  "Option.bind (case m of None \<Rightarrow> x | Some v \<Rightarrow> g v) f = (case m of None \<Rightarrow> Option.bind x f | Some v \<Rightarrow> Option.bind (g v) f)"
  by (cases m) simp_all

lemmas chain_simps = Option.bind_assoc Option.bind.bind_lunit bind_if bind_case_prod bind_case_option prod.case Let_def

lemma returns_conj: "returns m P \<Longrightarrow> returns m Q \<Longrightarrow> (\<And>x. P x \<Longrightarrow> Q x \<Longrightarrow> R x) \<Longrightarrow> returns m R"
  by (simp add: returns_def)

text \<open>\<open>succeeds m P\<close>: the computation returns a result that satisfies \<open>P\<close>.\<close>

definition succeeds :: "'a option \<Rightarrow> ('a \<Rightarrow> bool) \<Rightarrow> bool" where
  "succeeds m P \<longleftrightarrow> (\<exists>x. m = Some x \<and> P x)"

lemma succeeds_Some [simp]: "succeeds (Some x) P = P x"
  by (simp add: succeeds_def)

lemma succeeds_bind: "succeeds m P \<Longrightarrow> (\<And>x. P x \<Longrightarrow> m = Some x \<Longrightarrow> succeeds (f x) Q) \<Longrightarrow> succeeds (Option.bind m f) Q"
  by (auto simp: succeeds_def)

lemma succeeds_if: "(b \<Longrightarrow> succeeds m P) \<Longrightarrow> (\<not> b \<Longrightarrow> succeeds n P) \<Longrightarrow> succeeds (if b then m else n) P"
  by simp

lemma succeeds_mono: "succeeds m P \<Longrightarrow> (\<And>x. P x \<Longrightarrow> Q x) \<Longrightarrow> succeeds m Q"
  by (auto simp: succeeds_def)

lemma succeedsI: "m = Some x \<Longrightarrow> returns m P \<Longrightarrow> succeeds m P"
  by (simp add: succeeds_def)

lemma succeeds_prod: "(\<And>a b. x = (a, b) \<Longrightarrow> succeeds (f a b) P) \<Longrightarrow> succeeds (case x of (a, b) \<Rightarrow> f a b) P"
  by (cases x) simp

end
