(* ===== verification/NVM_Types.thy ===== *)
theory NVM_Types
  imports Prelude
begin

text \<open>
  The data that travels through the memory system: operation types and request flags
  (\<^verbatim>\<open>include/NVMainRequest.h\<close>), addresses (\<^verbatim>\<open>include/NVMAddress.cpp\<close>), data
  blocks (\<^verbatim>\<open>include/NVMDataBlock.cpp\<close>), failure reasons
  (\<^verbatim>\<open>include/FailReasons.h\<close>) and the request object with its assignment
  operator. A pointer to an object of the simulator is a natural number, a pointer that
  may be null an option of one.

  A data block carries the bytes of its heap buffer, so that an access past the buffer is
  a visible failure (\<open>None\<close>) rather than an arbitrary byte.
\<close>

subsection \<open>Enumerations\<close>

datatype OpType =
    NOP | ACTIVATE | READ | READ_PRECHARGE | WRITE | WRITE_PRECHARGE | PRECHARGE
  | PRECHARGE_ALL | POWERDOWN_PDA | POWERDOWN_PDPF | POWERDOWN_PDPS | POWERUP | REFRESH
  | BUS_READ | BUS_WRITE | CACHED_READ | CACHED_WRITE

datatype MemRequestStatus =
  MEM_REQUEST_INCOMPLETE | MEM_REQUEST_COMPLETE | MEM_REQUEST_RETRY | MEM_REQUEST_NUM

datatype NVMAccessType = UNKNOWN_ACCESS | SUPERVISOR_ACCESS | USER_ACCESS

datatype BulkCommand =
    CMD_NOP | CMD_PRE | CMD_READPRE | CMD_READ2PRE | CMD_READ3PRE | CMD_READ4PRE
  | CMD_WRITEPRE | CMD_WRITE2PRE | CMD_WRITE3PRE | CMD_WRITE4PRE | CMD_ACTREADPRE
  | CMD_ACTREAD2PRE | CMD_ACTREAD3PRE | CMD_ACTREAD4PRE | CMD_ACTWRITEPRE
  | CMD_ACTWRITE2PRE | CMD_ACTWRITE3PRE | CMD_ACTWRITE4PRE | CMD_PU_ACT_READ_PRE_PDPF
  | CMD_PU_ACT_WRITE_PRE_PDPF | CMD_ACT_READ_PRE_PDPF | CMD_ACT_WRITE_PRE_PDPF
  | CMD_READ_PRE_PDPF | CMD_WRITE_PRE_PDPF | CMD_PRE_PDPF | CMD_PDPF
  | CMD_PU_ACT_READ_PRE | CMD_PU_ACT_WRITE_PRE

datatype FailReasons =
    UNKNOWN_FAILURE | OPEN_REFRESH_WAITING | CLOSED_REFRESH_WAITING | REFRESH_OPEN_FAILURE
  | SUBARRAY_TIMING | BANK_TIMING | RANK_TIMING | UNSUPPORTED_COMMAND

text \<open>\<^verbatim>\<open>NVMainRequest::NVMainRequestFlags\<close>, the bits of \<open>flags\<close>.\<close>

definition FLAG_LAST_REQUEST :: uint64 where "FLAG_LAST_REQUEST = 1"
definition FLAG_IS_READ :: uint64 where "FLAG_IS_READ = 2"
definition FLAG_IS_WRITE :: uint64 where "FLAG_IS_WRITE = 4"
definition FLAG_CANCELLED :: uint64 where "FLAG_CANCELLED = 8"
definition FLAG_PAUSED :: uint64 where "FLAG_PAUSED = 16"
definition FLAG_FORCED :: uint64 where "FLAG_FORCED = 32"
definition FLAG_PRIORITY :: uint64 where "FLAG_PRIORITY = 64"
definition FLAG_ISSUED :: uint64 where "FLAG_ISSUED = 128"

lemmas flag_defs [nvm_defs] =
  FLAG_LAST_REQUEST_def FLAG_IS_READ_def FLAG_IS_WRITE_def FLAG_CANCELLED_def
  FLAG_PAUSED_def FLAG_FORCED_def FLAG_PRIORITY_def FLAG_ISSUED_def

text \<open>\<open>has_flag fl f\<close> is the C++ test \<^verbatim>\<open>fl & f\<close>, \<open>set_flag\<close> is
  \<^verbatim>\<open>fl |= f\<close> and \<open>clear_flag\<close> is \<^verbatim>\<open>fl &= ~f\<close>.\<close>

abbreviation has_flag :: "uint64 \<Rightarrow> uint64 \<Rightarrow> bool" where
  "has_flag fl f \<equiv> fl AND f \<noteq> 0"

abbreviation set_flag :: "uint64 \<Rightarrow> uint64 \<Rightarrow> uint64" where
  "set_flag fl f \<equiv> fl OR f"

abbreviation clear_flag :: "uint64 \<Rightarrow> uint64 \<Rightarrow> uint64" where
  "clear_flag fl f \<equiv> fl AND NOT f"

subsection \<open>Addresses\<close>

record NVMAddress =
  translated :: bool
  hasPhysicalAddress :: bool
  physicalAddress :: uint64
  subarray :: uint64
  row :: uint64
  col :: uint64
  bank :: uint64
  rank :: uint64
  channel :: uint64
  bitAddr :: uint64

text \<open>The default constructor. \<open>bitAddr\<close> is not initialised in C++; it is 0 here and
  no operation of the model reads it before it is set.\<close>

definition NVMAddress_new :: NVMAddress where
  "NVMAddress_new = \<lparr>translated = False, hasPhysicalAddress = False, physicalAddress = 0,
     subarray = 0, row = 0, col = 0, bank = 0, rank = 0, channel = 0, bitAddr = 0\<rparr>"

definition SetTranslatedAddress ::
  "uint64 \<Rightarrow> uint64 \<Rightarrow> uint64 \<Rightarrow> uint64 \<Rightarrow> uint64 \<Rightarrow> uint64 \<Rightarrow> NVMAddress \<Rightarrow> NVMAddress" where
  "SetTranslatedAddress addrRow addrCol addrBank addrRank addrChannel addrSA a =
     a\<lparr>translated := True, row := addrRow, col := addrCol, bank := addrBank,
       rank := addrRank, channel := addrChannel, subarray := addrSA\<rparr>"

definition SetPhysicalAddress :: "uint64 \<Rightarrow> NVMAddress \<Rightarrow> NVMAddress" where
  "SetPhysicalAddress pAddress a = a\<lparr>hasPhysicalAddress := True, physicalAddress := pAddress\<rparr>"

definition SetBitAddress :: "uint8 \<Rightarrow> NVMAddress \<Rightarrow> NVMAddress" where
  "SetBitAddress b a = a\<lparr>bitAddr := ucast b\<rparr>"

text \<open>The out-parameters of \<^verbatim>\<open>GetTranslatedAddress\<close>, as a tuple in the order of
  its arguments.\<close>

definition GetTranslatedAddress ::
  "NVMAddress \<Rightarrow> uint64 \<times> uint64 \<times> uint64 \<times> uint64 \<times> uint64 \<times> uint64" where
  "GetTranslatedAddress a = (row a, col a, bank a, rank a, channel a, subarray a)"

lemmas address_defs [nvm_defs] =
  SetTranslatedAddress_def SetPhysicalAddress_def SetBitAddress_def GetTranslatedAddress_def

subsection \<open>Data blocks\<close>

record NVMDataBlock =
  rawData :: "uint8 list option"
  isValid :: bool
  block_size :: uint64

definition NVMDataBlock_new :: NVMDataBlock where
  "NVMDataBlock_new = \<lparr>rawData = None, isValid = False, block_size = 0\<rparr>"

text \<open>\<open>fresh\<close> gives the uninitialised bytes \<^verbatim>\<open>new uint8_t[s]\<close> returns; \<open>None\<close>
  is the failed assertion that the block has no buffer yet.\<close>

definition SetSize :: "(nat \<Rightarrow> uint8) \<Rightarrow> uint64 \<Rightarrow> NVMDataBlock \<Rightarrow> NVMDataBlock option" where
  "SetSize fresh s d =
     (if rawData d \<noteq> None then None
      else Some (d\<lparr>rawData := Some (map fresh [0..<unat s]), block_size := s, isValid := True\<rparr>))"

text \<open>\<open>None\<close> is a read outside the heap buffer.\<close>

definition GetByte :: "NVMDataBlock \<Rightarrow> uint64 \<Rightarrow> uint8 option" where
  "GetByte d byte =
     (if isValid d \<and> byte \<le> block_size d
      then (case rawData d of
              None \<Rightarrow> None
            | Some bs \<Rightarrow> if unat byte < length bs then Some (bs ! unat byte) else None)
      else Some 0)"

text \<open>\<open>None\<close> is the failed assertion, or a write outside the heap buffer.\<close>

definition SetByte :: "uint64 \<Rightarrow> uint8 \<Rightarrow> NVMDataBlock \<Rightarrow> NVMDataBlock option" where
  "SetByte byte v d =
     (if byte \<le> block_size d
      then (case rawData d of
              None \<Rightarrow> None
            | Some bs \<Rightarrow>
                if unat byte < length bs then Some (d\<lparr>rawData := Some (bs[unat byte := v])\<rparr>)
                else None)
      else None)"

text \<open>The assignment operator: \<^verbatim>\<open>memcpy\<close> of the source's size into the buffer the
  block already has, or into a new one of that size.\<close>

definition DataBlock_assign :: "NVMDataBlock \<Rightarrow> NVMDataBlock \<Rightarrow> NVMDataBlock option" where
  "DataBlock_assign m d =
     (case rawData m of
        None \<Rightarrow> Some (d\<lparr>isValid := isValid m, block_size := block_size m\<rparr>)
      | Some src \<Rightarrow>
          (let n = unat (block_size m);
               dst = (case rawData d of None \<Rightarrow> replicate n 0 | Some bs \<Rightarrow> bs)
           in if n \<le> length src \<and> n \<le> length dst
              then Some (d\<lparr>rawData := Some (take n src @ drop n dst),
                          isValid := isValid m, block_size := block_size m\<rparr>)
              else None))"

text \<open>The invariant the class keeps: a valid block has a buffer of exactly its size.\<close>

definition block_ok :: "NVMDataBlock \<Rightarrow> bool" where
  "block_ok d \<longleftrightarrow>
     (case rawData d of None \<Rightarrow> \<not> isValid d \<and> block_size d = 0
      | Some bs \<Rightarrow> length bs = unat (block_size d))"

lemma block_ok_new [simp]: "block_ok NVMDataBlock_new"
  by (simp add: block_ok_def NVMDataBlock_new_def)

lemma block_ok_SetSize [nvm_inv]: "SetSize fresh s d = Some d' \<Longrightarrow> block_ok d'"
  by (auto simp: SetSize_def block_ok_def split: if_splits)

lemma block_ok_SetByte [nvm_inv]: "block_ok d \<Longrightarrow> SetByte i v d = Some d' \<Longrightarrow> block_ok d'"
  by (auto simp: SetByte_def block_ok_def split: if_splits option.splits)

lemma GetByte_in_range:
  assumes "block_ok d" and "isValid d" and "i < block_size d"
  shows "GetByte d i = Some (the (rawData d) ! unat i)"
  using assms by (auto simp: GetByte_def block_ok_def word_less_nat_alt word_le_nat_alt split: option.splits)

lemma SetByte_in_range:
  assumes "block_ok d" and "rawData d = Some bs" and "i < block_size d"
  shows "SetByte i v d = Some (d\<lparr>rawData := Some (bs[unat i := v])\<rparr>)"
  using assms by (auto simp: SetByte_def block_ok_def word_less_nat_alt word_le_nat_alt)

subsection \<open>Requests\<close>

record NVMainRequest =
  address :: NVMAddress
  req_type :: OpType
  bulkCmd :: BulkCommand
  threadId :: uint64
  req_data :: NVMDataBlock
  oldData :: NVMDataBlock
  status :: MemRequestStatus
  access :: NVMAccessType
  tag :: int
  reqInfo :: "nat option"
  flags :: uint64
  isPrefetch :: bool
  pfTrigger :: NVMAddress
  programCounter :: uint64
  burstCount :: ncounter_t
  owner :: "nat option"
  arrivalCycle :: ncycle_t
  queueCycle :: ncycle_t
  issueCycle :: ncycle_t
  completionCycle :: ncycle_t
  writeProgress :: ncycle_t
  cancellations :: ncycle_t

text \<open>The constructor; \<open>status\<close> and \<open>access\<close>, which it leaves uninitialised, take
  their first enumerator.\<close>

definition NVMainRequest_new :: NVMainRequest where
  "NVMainRequest_new = \<lparr>address = NVMAddress_new, req_type = NOP, bulkCmd = CMD_NOP,
     threadId = 0, req_data = NVMDataBlock_new, oldData = NVMDataBlock_new,
     status = MEM_REQUEST_INCOMPLETE, access = UNKNOWN_ACCESS, tag = 0, reqInfo = None,
     flags = 0, isPrefetch = False, pfTrigger = NVMAddress_new, programCounter = 0,
     burstCount = 1, owner = None, arrivalCycle = 0, queueCycle = 0, issueCycle = 0,
     completionCycle = 0, writeProgress = 0, cancellations = 0\<rparr>"

text \<open>\<open>Request_assign m r\<close> is \<^verbatim>\<open>r = m\<close>. The operator does not copy
  \<open>flags\<close>, \<open>burstCount\<close>, \<open>writeProgress\<close> and \<open>cancellations\<close>.\<close>

definition Request_assign :: "NVMainRequest \<Rightarrow> NVMainRequest \<Rightarrow> NVMainRequest option" where
  "Request_assign m r = do {
     d \<leftarrow> DataBlock_assign (req_data m) (req_data r);
     od \<leftarrow> DataBlock_assign (oldData m) (oldData r);
     Some (r\<lparr>address := address m, req_type := req_type m, bulkCmd := bulkCmd m,
       threadId := threadId m, req_data := d, oldData := od, status := status m,
       access := access m, tag := tag m, reqInfo := reqInfo m, isPrefetch := isPrefetch m,
       pfTrigger := pfTrigger m, programCounter := programCounter m, owner := owner m,
       arrivalCycle := arrivalCycle m, queueCycle := queueCycle m,
       issueCycle := issueCycle m, completionCycle := completionCycle m\<rparr>)
   }"

definition request_ok :: "NVMainRequest \<Rightarrow> bool" where
  "request_ok r \<longleftrightarrow> block_ok (req_data r) \<and> block_ok (oldData r)"

lemma DataBlock_assign_fresh:
  "block_ok m \<Longrightarrow> DataBlock_assign m NVMDataBlock_new = Some m"
  by (cases m) (auto simp: DataBlock_assign_def NVMDataBlock_new_def block_ok_def Let_def
      split: option.splits)

text \<open>Copying into a new request always succeeds and resets exactly four fields.\<close>

lemma Request_assign_fresh:
  assumes "request_ok m"
  shows "Request_assign m NVMainRequest_new =
    Some (m\<lparr>flags := 0, burstCount := 1, writeProgress := 0, cancellations := 0\<rparr>)"
  using assms
  by (cases m) (simp add: Request_assign_def request_ok_def NVMainRequest_new_def
      DataBlock_assign_fresh)

text \<open>The bounds checks of \<^verbatim>\<open>GetByte\<close> and \<^verbatim>\<open>SetByte\<close> let the index equal to
  the size through: the access is one past the end of the buffer.\<close>

lemma byte_access_one_past_end:
  assumes "block_ok d" and "isValid d"
  shows "GetByte d (block_size d) = None" and "SetByte (block_size d) v d = None"
  using assms by (auto simp: GetByte_def SetByte_def block_ok_def split: option.splits)

end
