(* ===== verification/Address_Translation.thy ===== *)
theory Address_Translation
  imports NVM_Types
begin

text \<open>
  Physical addresses to memory coordinates and back:
  \<^verbatim>\<open>mlog2\<close> of \<^verbatim>\<open>include/NVMHelpers.cpp\<close>, \<^verbatim>\<open>src/TranslationMethod.cpp\<close>
  (bit widths, partition order, the mapping-scheme parser) and
  \<^verbatim>\<open>src/AddressTranslator.cpp\<close> (\<^verbatim>\<open>Translate\<close>,
  \<^verbatim>\<open>ReverseTranslate\<close>). The arrays indexed by \<^verbatim>\<open>MemoryPartition\<close> are
  functions on that type. A result \<open>None\<close> is undefined behaviour of the C++ code (a
  write through \<^verbatim>\<open>partitions[MEM_UNKNOWN]\<close>, a negative shift, an overrun of the
  16-byte scheme buffer) or \<^verbatim>\<open>exit(1)\<close>. A shift count of 64 or more, undefined in
  C++, shifts everything out.
\<close>

subsection \<open>Integer logarithm\<close>

function mlog2_loop :: "int \<Rightarrow> nat \<Rightarrow> int" where
  "mlog2_loop retVal newNum =
     (if newNum \<noteq> 0 then mlog2_loop (retVal + 1) (drop_bit 1 newNum) else retVal)"
  by pat_completeness auto
termination
  by (relation "measure snd") (auto simp: drop_bit_eq_div)

declare mlog2_loop.simps [simp del]

definition mlog2 :: "int \<Rightarrow> int" where
  "mlog2 num = (if num < 2 then 0 else mlog2_loop (- 1) (nat num))"

subsection \<open>Translation methods\<close>

datatype MemoryPartition =
  MEM_ROW | MEM_COL | MEM_BANK | MEM_RANK | MEM_CHANNEL | MEM_SUBARRAY | MEM_UNKNOWN

record TranslationMethod =
  bitWidths :: "MemoryPartition \<Rightarrow> uint32"
  count :: "MemoryPartition \<Rightarrow> uint64"
  order :: "MemoryPartition \<Rightarrow> int"

definition SetBitWidths ::
  "uint32 \<Rightarrow> uint32 \<Rightarrow> uint32 \<Rightarrow> uint32 \<Rightarrow> uint32 \<Rightarrow> uint32 \<Rightarrow> TranslationMethod \<Rightarrow> TranslationMethod" where
  "SetBitWidths rowBits colBits bankBits rankBits channelBits subarrayBits m =
     m\<lparr>bitWidths := (bitWidths m)(MEM_ROW := rowBits, MEM_COL := colBits, MEM_BANK := bankBits,
        MEM_RANK := rankBits, MEM_CHANNEL := channelBits, MEM_SUBARRAY := subarrayBits)\<rparr>"

text \<open>Orders that are not unique only produce a message.\<close>

definition SetOrder ::
  "int \<Rightarrow> int \<Rightarrow> int \<Rightarrow> int \<Rightarrow> int \<Rightarrow> int \<Rightarrow> TranslationMethod \<Rightarrow> TranslationMethod" where
  "SetOrder r c b rk ch sa m =
     m\<lparr>order := (order m)(MEM_ROW := r - 1, MEM_COL := c - 1, MEM_BANK := b - 1,
        MEM_RANK := rk - 1, MEM_CHANNEL := ch - 1, MEM_SUBARRAY := sa - 1)\<rparr>"

definition SetCount ::
  "uint64 \<Rightarrow> uint64 \<Rightarrow> uint64 \<Rightarrow> uint64 \<Rightarrow> uint64 \<Rightarrow> uint64 \<Rightarrow> TranslationMethod \<Rightarrow> TranslationMethod" where
  "SetCount rows cols banks ranks channels subarrays m =
     m\<lparr>count := (count m)(MEM_ROW := rows, MEM_COL := cols, MEM_BANK := banks,
        MEM_RANK := ranks, MEM_CHANNEL := channels, MEM_SUBARRAY := subarrays)\<rparr>"

definition GetBitWidths ::
  "TranslationMethod \<Rightarrow> uint32 \<times> uint32 \<times> uint32 \<times> uint32 \<times> uint32 \<times> uint32" where
  "GetBitWidths m = (bitWidths m MEM_ROW, bitWidths m MEM_COL, bitWidths m MEM_BANK,
     bitWidths m MEM_RANK, bitWidths m MEM_CHANNEL, bitWidths m MEM_SUBARRAY)"

definition GetOrder :: "TranslationMethod \<Rightarrow> int \<times> int \<times> int \<times> int \<times> int \<times> int" where
  "GetOrder m = (order m MEM_ROW, order m MEM_COL, order m MEM_BANK,
     order m MEM_RANK, order m MEM_CHANNEL, order m MEM_SUBARRAY)"

definition GetCount ::
  "TranslationMethod \<Rightarrow> uint64 \<times> uint64 \<times> uint64 \<times> uint64 \<times> uint64 \<times> uint64" where
  "GetCount m = (count m MEM_ROW, count m MEM_COL, count m MEM_BANK,
     count m MEM_RANK, count m MEM_CHANNEL, count m MEM_SUBARRAY)"

text \<open>The constructor: 10, 8, 3, 1, 1 and 6 bits in the order channel, rank, row, bank,
  subarray, column from the most to the least significant. \<open>m\<close> is the storage it is
  constructed in, whose \<open>count\<close> it leaves alone.\<close>

definition TranslationMethod_new :: "TranslationMethod \<Rightarrow> TranslationMethod" where
  "TranslationMethod_new m = SetOrder 4 1 3 5 6 2 (SetBitWidths 10 8 3 1 1 6 m)"

subsection \<open>The address mapping scheme\<close>

text \<open>\<^verbatim>\<open>strtok_r\<close>: the maximal runs of characters other than the delimiter.\<close>

fun split_on :: "char \<Rightarrow> string \<Rightarrow> string list" where
  "split_on d [] = [[]]"
| "split_on d (c # cs) =
     (if c = d then [] # split_on d cs
      else (case split_on d cs of [] \<Rightarrow> [[c]] | t # ts \<Rightarrow> (c # t) # ts))"

definition strtok_all :: "char \<Rightarrow> string \<Rightarrow> string list" where
  "strtok_all d s = filter (\<lambda>t. t \<noteq> []) (split_on d s)"

definition scheme_partition :: "string \<Rightarrow> MemoryPartition option" where
  "scheme_partition tok =
     (if tok = ''R'' then Some MEM_ROW
      else if tok = ''C'' then Some MEM_COL
      else if tok = ''BK'' then Some MEM_BANK
      else if tok = ''RK'' then Some MEM_RANK
      else if tok = ''CH'' then Some MEM_CHANNEL
      else if tok = ''SA'' then Some MEM_SUBARRAY
      else None)"

text \<open>One token: the partition it names takes the current order; the current order is
  decremented for every token, also for one that is not recognised.\<close>

fun scheme_step :: "string \<Rightarrow> (MemoryPartition \<Rightarrow> int) \<times> int \<Rightarrow> (MemoryPartition \<Rightarrow> int) \<times> int" where
  "scheme_step tok (ord, currentOrder) =
     ((case scheme_partition tok of None \<Rightarrow> ord | Some p \<Rightarrow> ord(p := currentOrder)),
      currentOrder - 1)"

text \<open>A partition still at 0 after the tokens is given the next order.\<close>

fun scheme_fill :: "MemoryPartition \<Rightarrow> (MemoryPartition \<Rightarrow> int) \<times> int \<Rightarrow> (MemoryPartition \<Rightarrow> int) \<times> int" where
  "scheme_fill p (ord, currentOrder) =
     (if ord p = 0 then (ord(p := currentOrder), currentOrder - 1) else (ord, currentOrder))"

definition scheme_orders :: "string list \<Rightarrow> MemoryPartition \<Rightarrow> int" where
  "scheme_orders toks =
     fst (fold scheme_fill [MEM_SUBARRAY, MEM_CHANNEL, MEM_RANK, MEM_BANK, MEM_ROW, MEM_COL]
           (fold scheme_step toks ((\<lambda>_. 0), 6)))"

definition SetAddressMappingScheme :: "string \<Rightarrow> TranslationMethod \<Rightarrow> TranslationMethod option" where
  "SetAddressMappingScheme scheme m =
     (if length scheme < 16
      then (let ord = scheme_orders (strtok_all CHR '':'' scheme)
            in Some (SetOrder (ord MEM_ROW) (ord MEM_COL) (ord MEM_BANK) (ord MEM_RANK)
                       (ord MEM_CHANNEL) (ord MEM_SUBARRAY) m))
      else None)"

subsection \<open>The address translator\<close>

datatype TranslationField =
  NO_FIELD | ROW_FIELD | COL_FIELD | BANK_FIELD | RANK_FIELD | CHANNEL_FIELD | SUBARRAY_FIELD

record AddressTranslator =
  translationMethod :: "TranslationMethod option"
  defaultField :: TranslationField
  busWidth :: int
  burstLength :: int
  lowColBits :: int

definition AddressTranslator_new :: AddressTranslator where
  "AddressTranslator_new =
     \<lparr>translationMethod = None, defaultField = NO_FIELD, busWidth = 64, burstLength = 8, lowColBits = 0\<rparr>"

definition SetTranslationMethod :: "TranslationMethod option \<Rightarrow> AddressTranslator \<Rightarrow> AddressTranslator" where
  "SetTranslationMethod m t = t\<lparr>translationMethod := m\<rparr>"

definition SetBusWidth :: "int \<Rightarrow> AddressTranslator \<Rightarrow> AddressTranslator" where
  "SetBusWidth bits t = t\<lparr>busWidth := bits\<rparr>"

definition SetBurstLength :: "int \<Rightarrow> AddressTranslator \<Rightarrow> AddressTranslator" where
  "SetBurstLength beat t = t\<lparr>burstLength := beat\<rparr>"

definition SetDefaultField :: "TranslationField \<Rightarrow> AddressTranslator \<Rightarrow> AddressTranslator" where
  "SetDefaultField f t = t\<lparr>defaultField := f\<rparr>"

definition FindOrder :: "TranslationMethod \<Rightarrow> int \<Rightarrow> MemoryPartition" where
  "FindOrder m ord =
     (case GetOrder m of (rowOrder, colOrder, bankOrder, rankOrder, channelOrder, subarrayOrder) \<Rightarrow>
        if rowOrder = ord then MEM_ROW
        else if colOrder = ord then MEM_COL
        else if bankOrder = ord then MEM_BANK
        else if rankOrder = ord then MEM_RANK
        else if channelOrder = ord then MEM_CHANNEL
        else if subarrayOrder = ord then MEM_SUBARRAY
        else MEM_UNKNOWN)"

definition Divide :: "TranslationMethod \<Rightarrow> uint64 \<Rightarrow> MemoryPartition \<Rightarrow> uint64" where
  "Divide m partSize part =
     (case GetBitWidths m of (rowBits, colBits, bankBits, rankBits, channelBits, subarrayBits) \<Rightarrow>
        if part = MEM_ROW then drop_bit (unat rowBits) partSize
        else if part = MEM_COL then drop_bit (unat colBits) partSize
        else if part = MEM_BANK then drop_bit (unat bankBits) partSize
        else if part = MEM_RANK then drop_bit (unat rankBits) partSize
        else if part = MEM_CHANNEL then drop_bit (unat channelBits) partSize
        else if part = MEM_SUBARRAY then drop_bit (unat subarrayBits) partSize
        else partSize)"

definition Modulo :: "TranslationMethod \<Rightarrow> uint64 \<Rightarrow> MemoryPartition \<Rightarrow> uint64" where
  "Modulo m partialAddr part =
     (case GetBitWidths m of (rowBits, colBits, bankBits, rankBits, channelBits, subarrayBits) \<Rightarrow>
        let moduloSize =
          (if part = MEM_ROW then push_bit (unat rowBits) 1
           else if part = MEM_COL then push_bit (unat colBits) 1
           else if part = MEM_BANK then push_bit (unat bankBits) 1
           else if part = MEM_RANK then push_bit (unat rankBits) 1
           else if part = MEM_CHANNEL then push_bit (unat channelBits) 1
           else if part = MEM_SUBARRAY then push_bit (unat subarrayBits) 1
           else 1)
        in partialAddr mod moduloSize)"

text \<open>The number of address bits below the partitions, split as in the code; \<open>None\<close> where
  \<open>lowColBits\<close> would be negative.\<close>

definition offset_bits :: "AddressTranslator \<Rightarrow> (int \<times> int) option" where
  "offset_bits t =
     (let busOffsetBits = mlog2 (busWidth t sdiv 8);
          burstBits = mlog2 ((busWidth t * burstLength t) sdiv 8);
          low = burstBits - busOffsetBits
      in if low < 0 then None else Some (busOffsetBits, low))"

text \<open>The loop of \<^verbatim>\<open>Translate\<close> over the orders \<open>is\<close>; \<open>outs\<close> are the
  out-parameters, indexed by partition.\<close>

fun translate_loop ::
  "TranslationMethod \<Rightarrow> int list \<Rightarrow> uint64 \<Rightarrow> (MemoryPartition \<Rightarrow> uint64)
     \<Rightarrow> (MemoryPartition \<Rightarrow> uint64) option" where
  "translate_loop m [] refAddress outs = Some outs"
| "translate_loop m (i # is) refAddress outs =
     (let part = FindOrder m i
      in if part = MEM_UNKNOWN then None
         else translate_loop m is (Divide m refAddress part)
                (outs(part := Modulo m refAddress part)))"

definition Translate ::
  "AddressTranslator \<Rightarrow> uint64 \<Rightarrow> (MemoryPartition \<Rightarrow> uint64)
     \<Rightarrow> (AddressTranslator \<times> (MemoryPartition \<Rightarrow> uint64)) option" where
  "Translate t addr outs =
     (case translationMethod t of
        None \<Rightarrow> Some (t, outs)
      | Some m \<Rightarrow> do {
          (busOffsetBits, low) \<leftarrow> offset_bits t;
          let refAddress = drop_bit (nat low) (drop_bit (nat busOffsetBits) addr);
          outs' \<leftarrow> translate_loop m [0, 1, 2, 3, 4, 5] refAddress outs;
          Some (t\<lparr>lowColBits := low\<rparr>, outs')
        })"

fun reverse_loop ::
  "TranslationMethod \<Rightarrow> (MemoryPartition \<Rightarrow> uint64) \<Rightarrow> int list \<Rightarrow> uint64 \<Rightarrow> uint64 \<Rightarrow> uint64" where
  "reverse_loop m f [] unitAddr phyAddr = phyAddr"
| "reverse_loop m f (i # is) unitAddr phyAddr =
     (case FindOrder m i of
        MEM_UNKNOWN \<Rightarrow> reverse_loop m f is unitAddr phyAddr
      | part \<Rightarrow> reverse_loop m f is (push_bit (unat (bitWidths m part)) unitAddr)
                 (phyAddr + f part * unitAddr))"

definition ReverseTranslate ::
  "AddressTranslator \<Rightarrow> (MemoryPartition \<Rightarrow> uint64) \<Rightarrow> (AddressTranslator \<times> uint64) option" where
  "ReverseTranslate t f = do {
     m \<leftarrow> translationMethod t;
     (busOffsetBits, low) \<leftarrow> offset_bits t;
     let unitAddr = push_bit (nat low) (push_bit (nat busOffsetBits) 1);
     Some (t\<lparr>lowColBits := low\<rparr>, reverse_loop m f [0, 1, 2, 3, 4, 5] unitAddr 0)
   }"

text \<open>The single-field overloads. The six locals of \<^verbatim>\<open>Translate( address )\<close> are
  uninitialised (\<open>outs\<close>) when there is no method.\<close>

definition select_field :: "TranslationField \<Rightarrow> (MemoryPartition \<Rightarrow> uint64) \<Rightarrow> uint64" where
  "select_field fld f =
     (case fld of
        ROW_FIELD \<Rightarrow> f MEM_ROW | COL_FIELD \<Rightarrow> f MEM_COL | BANK_FIELD \<Rightarrow> f MEM_BANK
      | RANK_FIELD \<Rightarrow> f MEM_RANK | CHANNEL_FIELD \<Rightarrow> f MEM_CHANNEL
      | SUBARRAY_FIELD \<Rightarrow> f MEM_SUBARRAY | NO_FIELD \<Rightarrow> 0)"

definition Translate_address ::
  "AddressTranslator \<Rightarrow> uint64 \<Rightarrow> (MemoryPartition \<Rightarrow> uint64) \<Rightarrow> (AddressTranslator \<times> uint64) option" where
  "Translate_address t addr outs = do {
     (t', f) \<leftarrow> Translate t addr outs;
     Some (t', select_field (defaultField t) f)
   }"

definition address_field :: "NVMAddress \<Rightarrow> MemoryPartition \<Rightarrow> uint64" where
  "address_field a p =
     (case p of MEM_ROW \<Rightarrow> row a | MEM_COL \<Rightarrow> col a | MEM_BANK \<Rightarrow> bank a | MEM_RANK \<Rightarrow> rank a
      | MEM_CHANNEL \<Rightarrow> channel a | MEM_SUBARRAY \<Rightarrow> subarray a | MEM_UNKNOWN \<Rightarrow> 0)"

definition Translate_request ::
  "AddressTranslator \<Rightarrow> NVMainRequest \<Rightarrow> (MemoryPartition \<Rightarrow> uint64) \<Rightarrow> (AddressTranslator \<times> uint64) option" where
  "Translate_request t req outs =
     (if translated (address req)
      then Some (t, select_field (defaultField t) (address_field (address req)))
      else Translate_address t (physicalAddress (address req)) outs)"


subsection \<open>The logarithm\<close>

lemma mlog2_loop_bounds:
  assumes "0 < n"
  shows "retVal < mlog2_loop retVal n
    \<and> 2 ^ nat (mlog2_loop retVal n - retVal - 1) \<le> n
    \<and> n < 2 ^ nat (mlog2_loop retVal n - retVal)"
  using assms
proof (induction retVal n rule: mlog2_loop.induct)
  case (1 retVal n)
  let ?h = "drop_bit 1 n" and ?r = "mlog2_loop retVal n"
  have r: "?r = mlog2_loop (retVal + 1) ?h"
    using "1.prems" by (simp add: mlog2_loop.simps [of retVal n])
  show ?case
  proof (cases "?h = 0")
    case True
    then have "?r = retVal + 1"
      by (simp add: r mlog2_loop.simps [of _ 0])
    moreover from True "1.prems" have "n = 1"
      by (simp add: drop_bit_eq_div)
    ultimately show ?thesis by simp
  next
    case False
    with "1.IH" "1.prems" have ih: "retVal + 1 < ?r"
      "2 ^ nat (?r - (retVal + 1) - 1) \<le> ?h" "?h < 2 ^ nat (?r - (retVal + 1))"
      by (simp_all add: r)
    have e: "nat (?r - retVal - 1) = Suc (nat (?r - (retVal + 1) - 1))"
      "nat (?r - retVal) = Suc (nat (?r - (retVal + 1)))"
      using ih(1) by linarith+
    have "2 * ?h \<le> n" "n < 2 * ?h + 2"
      by (simp_all add: drop_bit_eq_div)
    with ih show ?thesis
      unfolding e by (auto simp: Suc_le_eq)
  qed
qed

lemma mlog2_nonneg [simp]: "0 \<le> mlog2 n"
  using mlog2_loop_bounds [of "nat n" "- 1"] by (auto simp: mlog2_def)

lemma mlog2_correct:
  assumes "1 \<le> n"
  shows "2 ^ nat (mlog2 n) \<le> n \<and> n < 2 ^ (nat (mlog2 n) + 1)"
proof (cases "n < 2")
  case True
  with assms show ?thesis by (simp add: mlog2_def)
next
  case False
  let ?r = "mlog2_loop (- 1) (nat n)"
  have b: "- 1 < ?r" "2 ^ nat ?r \<le> nat n" "nat n < 2 ^ nat (?r + 1)"
    using mlog2_loop_bounds [of "nat n" "- 1"] False by auto
  have "nat (?r + 1) = nat ?r + 1"
    using b(1) by simp
  with b(3) have "nat n < 2 ^ (nat ?r + 1)"
    by simp
  with b(2) False have "int (2 ^ nat ?r) \<le> n" "n < int (2 ^ (nat ?r + 1))"
    by linarith+
  with False show ?thesis by (simp add: mlog2_def)
qed

lemma mlog2_mono:
  assumes "1 \<le> a" and "a \<le> b"
  shows "mlog2 a \<le> mlog2 b"
proof -
  have "(2 :: int) ^ nat (mlog2 a) < 2 ^ (nat (mlog2 b) + 1)"
    using mlog2_correct [of a] mlog2_correct [of b] assms by linarith
  then have "nat (mlog2 a) < nat (mlog2 b) + 1"
    by (rule power_less_imp_less_exp [rotated]) simp
  then show ?thesis
    using mlog2_nonneg [of a] mlog2_nonneg [of b] by linarith
qed

lemma offset_bits_Some:
  assumes "8 \<le> busWidth t" and "1 \<le> burstLength t"
  shows "\<exists>b l. offset_bits t = Some (b, l) \<and> 0 \<le> b \<and> 0 \<le> l"
proof -
  have "busWidth t div 8 \<le> (busWidth t * burstLength t) div 8"
    using assms by (intro zdiv_mono1) (auto simp: mult_le_cancel_left1)
  moreover have "1 \<le> busWidth t div 8"
    using assms by simp
  ultimately have "mlog2 (busWidth t div 8) \<le> mlog2 ((busWidth t * burstLength t) div 8)"
    by (intro mlog2_mono) auto
  moreover have "busWidth t sdiv 8 = busWidth t div 8"
    "(busWidth t * burstLength t) sdiv 8 = (busWidth t * burstLength t) div 8"
    using assms by (simp_all add: signed_divide_int_def)
  ultimately show ?thesis by (simp add: offset_bits_def Let_def)
qed

lemma offset_bits_nonneg:
  "offset_bits t = Some (b, l) \<Longrightarrow> 0 \<le> b \<and> 0 \<le> l"
  by (auto simp: offset_bits_def Let_def split: if_splits)

subsection \<open>Mixed-radix layouts\<close>

text \<open>The abstract specification: an address is a mixed-radix number whose digits are the
  partitions, least significant first, digit \<open>p\<close> in base \<open>2 ^ width p\<close>.\<close>

primrec encode :: "('p \<Rightarrow> nat) \<Rightarrow> 'p list \<Rightarrow> ('p \<Rightarrow> nat) \<Rightarrow> nat" where
  "encode width [] f = 0"
| "encode width (p # ps) f = f p + 2 ^ width p * encode width ps f"

primrec decode :: "('p \<Rightarrow> nat) \<Rightarrow> 'p list \<Rightarrow> nat \<Rightarrow> ('p \<Rightarrow> nat) \<Rightarrow> 'p \<Rightarrow> nat" where
  "decode width [] n g = g"
| "decode width (p # ps) n g = decode width ps (n div 2 ^ width p) (g(p := n mod 2 ^ width p))"

lemma decode_other: "p \<notin> set ps \<Longrightarrow> decode width ps n g p = g p"
  by (induction ps arbitrary: n g) auto

lemma encode_cong: "(\<And>p. p \<in> set ps \<Longrightarrow> f p = g p) \<Longrightarrow> encode width ps f = encode width ps g"
  by (induction ps) auto

lemma encode_bound:
  "(\<And>p. p \<in> set ps \<Longrightarrow> f p < 2 ^ width p) \<Longrightarrow> encode width ps f < 2 ^ sum_list (map width ps)"
proof (induction ps)
  case Nil
  then show ?case by simp
next
  case (Cons p ps)
  then have e: "Suc (encode width ps f) \<le> 2 ^ sum_list (map width ps)" and f: "f p < 2 ^ width p"
    by (auto simp: Suc_le_eq)
  have "encode width (p # ps) f < 2 ^ width p * Suc (encode width ps f)"
    using f by simp
  also have "\<dots> \<le> 2 ^ width p * 2 ^ sum_list (map width ps)"
    using e by (rule mult_le_mono2)
  finally show ?case by (simp add: power_add)
qed

text \<open>An address layout: distinct partitions that, with the bits below them, fit into 64
  bits. Both round trips are proved here, once for every layout.\<close>

locale address_layout =
  fixes width :: "'p \<Rightarrow> nat" and ps :: "'p list" and low :: nat
  assumes distinct_ps: "distinct ps"
    and fits: "low + sum_list (map width ps) \<le> 64"
begin

lemma decode_encode_gen:
  assumes "distinct qs" and "\<And>p. p \<in> set qs \<Longrightarrow> f p < 2 ^ width p" and "p \<in> set qs"
  shows "decode width qs (encode width qs f) g p = f p"
  using assms
proof (induction qs arbitrary: g)
  case Nil
  then show ?case by simp
next
  case (Cons q qs)
  then show ?case by (cases "p = q") (auto simp: decode_other)
qed

lemma encode_decode_gen:
  "distinct qs \<Longrightarrow> encode width qs (decode width qs n g) = n mod 2 ^ sum_list (map width qs)"
proof (induction qs arbitrary: n g)
  case Nil
  then show ?case by simp
next
  case (Cons q qs)
  then show ?case
    by (simp add: decode_other power_add mod_mult2_eq)
qed

lemma decode_encode:
  "(\<And>p. p \<in> set ps \<Longrightarrow> f p < 2 ^ width p) \<Longrightarrow> p \<in> set ps \<Longrightarrow> decode width ps (encode width ps f) g p = f p"
  by (rule decode_encode_gen [OF distinct_ps])

lemma encode_decode: "encode width ps (decode width ps n g) = n mod 2 ^ sum_list (map width ps)"
  by (rule encode_decode_gen [OF distinct_ps])

lemma shifted_encode_bound:
  assumes "\<And>p. p \<in> set ps \<Longrightarrow> f p < 2 ^ width p"
  shows "2 ^ low * encode width ps f < 2 ^ 64"
proof -
  have "2 ^ low * encode width ps f < 2 ^ low * 2 ^ sum_list (map width ps)"
    using encode_bound [of ps f width] assms by simp
  also have "\<dots> \<le> 2 ^ 64"
    using fits by (simp add: power_add [symmetric] power_increasing del: power_numeral)
  finally show ?thesis .
qed

end

subsection \<open>The order of the partitions\<close>

definition partitions :: "MemoryPartition list" where
  "partitions = [MEM_ROW, MEM_COL, MEM_BANK, MEM_RANK, MEM_CHANNEL, MEM_SUBARRAY]"

text \<open>A method is usable when its orders are a permutation of 0 to 5.\<close>

definition orders_ok :: "TranslationMethod \<Rightarrow> bool" where
  "orders_ok m \<longleftrightarrow> distinct (map (order m) partitions) \<and> (\<forall>p \<in> set partitions. 0 \<le> order m p \<and> order m p \<le> 5)"

definition widths :: "TranslationMethod \<Rightarrow> MemoryPartition \<Rightarrow> nat" where
  "widths m p = unat (bitWidths m p)"

text \<open>The partitions from the least to the most significant.\<close>

definition layout :: "TranslationMethod \<Rightarrow> MemoryPartition list" where
  "layout m = map (FindOrder m) [0, 1, 2, 3, 4, 5]"

lemma in_partitions_iff [simp]: "p \<in> set partitions \<longleftrightarrow> p \<noteq> MEM_UNKNOWN"
  by (cases p) (simp_all add: partitions_def)

lemma FindOrder_order:
  assumes "orders_ok m" and "p \<noteq> MEM_UNKNOWN"
  shows "FindOrder m (order m p) = p"
  using assms by (cases p) (auto simp: orders_ok_def partitions_def FindOrder_def GetOrder_def)

lemma FindOrder_known_order:
  "FindOrder m i \<noteq> MEM_UNKNOWN \<Longrightarrow> order m (FindOrder m i) = i"
  by (auto simp: FindOrder_def GetOrder_def split: if_splits)

lemma order_image:
  assumes "orders_ok m"
  shows "order m ` set partitions = {0..5}"
proof (rule card_subset_eq)
  show "finite {0..5 :: int}" by simp
  show "order m ` set partitions \<subseteq> {0..5}"
    using assms by (auto simp: orders_ok_def)
  have "card (order m ` set partitions) = length (map (order m) partitions)"
    using assms distinct_card [of "map (order m) partitions"] by (simp add: orders_ok_def)
  also have "\<dots> = card {0..5 :: int}"
    by (simp add: partitions_def)
  finally show "card (order m ` set partitions) = card {0..5 :: int}" .
qed

lemma FindOrder_known:
  assumes "orders_ok m" and "0 \<le> i" and "i \<le> 5"
  shows "FindOrder m i \<noteq> MEM_UNKNOWN"
proof -
  have "i \<in> order m ` set partitions"
    using assms by (simp add: order_image)
  then obtain p where "p \<noteq> MEM_UNKNOWN" "order m p = i"
    by (auto simp del: in_partitions_iff) (auto simp: partitions_def)
  with assms(1) show ?thesis by (auto simp: FindOrder_order)
qed

lemma set_layout:
  assumes "orders_ok m"
  shows "set (layout m) = set partitions"
proof
  show "set (layout m) \<subseteq> set partitions"
    using FindOrder_known [OF assms] by (auto simp: layout_def)
  show "set partitions \<subseteq> set (layout m)"
  proof
    fix p assume p: "p \<in> set partitions"
    with assms have "0 \<le> order m p" "order m p \<le> 5"
      by (auto simp: orders_ok_def)
    then have "order m p \<in> {0, 1, 2, 3, 4, 5}"
      by (simp, arith)
    moreover from p assms have "FindOrder m (order m p) = p"
      by (simp add: FindOrder_order)
    ultimately show "p \<in> set (layout m)"
      by (auto simp: layout_def)
  qed
qed

lemma distinct_layout: "orders_ok m \<Longrightarrow> distinct (layout m)"
  by (rule card_distinct) (simp add: set_layout, simp add: layout_def partitions_def)

lemma sum_widths_layout:
  fixes w :: "MemoryPartition \<Rightarrow> nat"
  assumes "orders_ok m"
  shows "sum_list (map w (layout m)) = sum_list (map w partitions)"
proof -
  have "mset (layout m) = mset partitions"
    using assms distinct_layout set_layout
    by (intro set_eq_iff_mset_eq_distinct [THEN iffD1]) (auto simp: partitions_def)
  then have "mset (map w (layout m)) = mset (map w partitions)"
    by simp
  then show ?thesis
    using sum_mset_sum_list [of "map w (layout m)"] sum_mset_sum_list [of "map w partitions"] by simp
qed

subsection \<open>The loops compute the layout\<close>

lemma unat_drop_bit_div: "unat (drop_bit n x) = unat x div 2 ^ n"
  by (simp only: unat_drop_bit_eq) (simp only: drop_bit_eq_div)

lemma unat_Divide:
  "part \<noteq> MEM_UNKNOWN \<Longrightarrow> unat (Divide m x part) = unat x div 2 ^ widths m part"
  by (cases part) (simp_all add: Divide_def GetBitWidths_def widths_def unat_drop_bit_div)

lemma unat_mod_push_bit:
  "unat (x mod push_bit n 1 :: uint64) = unat x mod 2 ^ n"
proof (cases "n < 64")
  case True
  then have "(2 :: nat) ^ n < 2 ^ 64"
    by (simp del: power_numeral)
  moreover have "push_bit n 1 = (of_nat (2 ^ n) :: uint64)"
    by simp
  ultimately have "unat (push_bit n 1 :: uint64) = 2 ^ n"
    using True by (simp add: unsigned_of_nat take_bit_nat_eq_self del: of_nat_power push_bit_of_1)
  then show ?thesis by (simp add: unat_mod_distrib)
next
  case False
  then have "push_bit n 1 = (0 :: uint64)"
    by (simp add: push_bit_eq_mult)
  moreover have "unat x < 2 ^ n"
    using unat_uint64_lt [of x] power_increasing [of 64 n "2 :: nat"] False by linarith
  ultimately show ?thesis by (simp del: push_bit_of_1)
qed

lemma unat_Modulo:
  "part \<noteq> MEM_UNKNOWN \<Longrightarrow> unat (Modulo m x part) = unat x mod 2 ^ widths m part"
  by (cases part) (simp_all add: Modulo_def GetBitWidths_def widths_def unat_mod_push_bit del: push_bit_of_1)

lemma translate_loop_decode:
  assumes "\<And>i. i \<in> set is \<Longrightarrow> FindOrder m i \<noteq> MEM_UNKNOWN"
  shows "\<exists>f. translate_loop m is x outs = Some f
    \<and> (\<lambda>p. unat (f p)) = decode (widths m) (map (FindOrder m) is) (unat x) (\<lambda>p. unat (outs p))"
  using assms
proof (induction "is" arbitrary: x outs)
  case Nil
  then show ?case by simp
next
  case (Cons i "is")
  let ?p = "FindOrder m i"
  have p: "?p \<noteq> MEM_UNKNOWN"
    using Cons.prems by simp
  have known: "\<And>j. j \<in> set is \<Longrightarrow> FindOrder m j \<noteq> MEM_UNKNOWN"
    using Cons.prems by simp
  from Cons.IH [OF known, of "Divide m x ?p" "outs(?p := Modulo m x ?p)"] obtain f
    where f: "translate_loop m is (Divide m x ?p) (outs(?p := Modulo m x ?p)) = Some f"
    and d: "(\<lambda>q. unat (f q)) = decode (widths m) (map (FindOrder m) is) (unat (Divide m x ?p))
              (\<lambda>q. unat ((outs(?p := Modulo m x ?p)) q))"
    by blast
  have "(\<lambda>q. unat ((outs(?p := Modulo m x ?p)) q)) = (\<lambda>q. unat (outs q))(?p := unat (Modulo m x ?p))"
    by auto
  with f d p show ?case
    by (simp add: Let_def unat_Divide unat_Modulo)
qed

lemma reverse_loop_encode:
  assumes "\<And>i. i \<in> set is \<Longrightarrow> FindOrder m i \<noteq> MEM_UNKNOWN"
  shows "reverse_loop m f is u a =
    a + u * of_nat (encode (widths m) (map (FindOrder m) is) (\<lambda>p. unat (f p)))"
  using assms
proof (induction "is" arbitrary: u a)
  case Nil
  then show ?case by simp
next
  case (Cons i "is")
  let ?p = "FindOrder m i"
  have "reverse_loop m f (i # is) u a =
      reverse_loop m f is (push_bit (unat (bitWidths m ?p)) u) (a + f ?p * u)"
    using Cons.prems [of i] by (cases ?p) simp_all
  also have "\<dots> = a + f ?p * u + push_bit (unat (bitWidths m ?p)) u *
      of_nat (encode (widths m) (map (FindOrder m) is) (\<lambda>p. unat (f p)))"
    using Cons by simp
  finally show ?case
    by (simp add: push_bit_eq_mult widths_def [of m ?p] algebra_simps)
qed

subsection \<open>Translation and its inverse\<close>

text \<open>The bits below the partitions and the condition that the whole address fits.\<close>

definition translator_ok :: "AddressTranslator \<Rightarrow> bool" where
  "translator_ok t \<longleftrightarrow>
     (case translationMethod t of None \<Rightarrow> False
      | Some m \<Rightarrow> orders_ok m \<and> 8 \<le> busWidth t \<and> 1 \<le> burstLength t
          \<and> (case offset_bits t of None \<Rightarrow> False
             | Some (b, l) \<Rightarrow> nat b + nat l + sum_list (map (widths m) partitions) \<le> 64))"

lemma translator_okE:
  assumes "translator_ok t"
  obtains m b l where "translationMethod t = Some m" and "orders_ok m" and "offset_bits t = Some (b, l)"
    and "address_layout (widths m) (layout m) (nat b + nat l)"
  using assms that
  by (fastforce simp: translator_ok_def address_layout_def distinct_layout sum_widths_layout
      split: option.splits prod.splits)

lemma layout_known:
  "orders_ok m \<Longrightarrow> i \<in> set [0, 1, 2, 3, 4, 5] \<Longrightarrow> FindOrder m i \<noteq> MEM_UNKNOWN"
  by (rule FindOrder_known) auto

lemma Translate_decode:
  assumes "translationMethod t = Some m" and "orders_ok m" and "offset_bits t = Some (b, l)"
  shows "\<exists>f. Translate t a outs = Some (t\<lparr>lowColBits := l\<rparr>, f)
    \<and> (\<lambda>p. unat (f p)) = decode (widths m) (layout m) (unat a div 2 ^ (nat b + nat l)) (\<lambda>p. unat (outs p))"
proof -
  let ?x = "drop_bit (nat l) (drop_bit (nat b) a)"
  from translate_loop_decode [where x = ?x and outs = outs, OF layout_known [OF assms(2)]]
  obtain f where "translate_loop m [0, 1, 2, 3, 4, 5] ?x outs = Some f"
    and "(\<lambda>p. unat (f p)) = decode (widths m) (layout m) (unat ?x) (\<lambda>p. unat (outs p))"
    unfolding layout_def by blast
  moreover have "unat ?x = unat a div 2 ^ (nat b + nat l)"
    by (simp only: unat_drop_bit_div power_add div_mult2_eq)
  ultimately show ?thesis
    using assms by (simp add: Translate_def)
qed

lemma ReverseTranslate_encode:
  assumes "translationMethod t = Some m" and "orders_ok m" and "offset_bits t = Some (b, l)"
  shows "ReverseTranslate t f = Some (t\<lparr>lowColBits := l\<rparr>,
    of_nat (2 ^ (nat b + nat l) * encode (widths m) (layout m) (\<lambda>p. unat (f p))))"
  using assms reverse_loop_encode [of "[0, 1, 2, 3, 4, 5]" m f, OF layout_known [OF assms(2)]]
  by (simp add: ReverseTranslate_def layout_def push_bit_eq_mult power_add mult.commute
      del: reverse_loop.simps)

lemma offset_bits_lowColBits [simp]: "offset_bits (t\<lparr>lowColBits := l\<rparr>) = offset_bits t"
  by (simp add: offset_bits_def)

lemma decode_bound:
  "distinct ps \<Longrightarrow> p \<in> set ps \<Longrightarrow> decode width ps n g p < 2 ^ width p"
  by (induction ps arbitrary: n g) (auto simp: decode_other)

subsection \<open>Parsing the mapping scheme\<close>

text \<open>After any number of tokens and fill steps, the partitions that have an order are
  numbered without gaps from 6 down.\<close>

fun scheme_inv :: "(MemoryPartition \<Rightarrow> int) \<times> int \<Rightarrow> bool" where
  "scheme_inv (ord, cur) \<longleftrightarrow> 0 \<le> cur \<and> cur \<le> 6
     \<and> bij_betw ord {p. p \<noteq> MEM_UNKNOWN \<and> ord p \<noteq> 0} {cur + 1..6}"

lemma UNIV_partitions: "{p. p \<noteq> MEM_UNKNOWN} = set partitions"
  by auto

lemma card_partitions: "card (set partitions) = 6"
  by (simp add: partitions_def)

lemma scheme_inv_assign:
  assumes inv: "scheme_inv (ord, cur)" and p: "p \<noteq> MEM_UNKNOWN" "ord p = 0"
  shows "1 \<le> cur \<and> scheme_inv (ord(p := cur), cur - 1)"
proof -
  let ?A = "{q. q \<noteq> MEM_UNKNOWN \<and> ord q \<noteq> 0}"
  have bij: "bij_betw ord ?A {cur + 1..6}" and cur: "0 \<le> cur" "cur \<le> 6"
    using inv by simp_all
  have "?A \<subseteq> set partitions - {p}"
    using p(2) by force
  moreover have "p \<in> set partitions"
    using p(1) by simp
  ultimately have sub: "?A \<subset> set partitions"
    by blast
  then have "card ?A < 6"
    using psubset_card_mono [OF _ sub] by (simp add: card_partitions)
  moreover have "card ?A = nat (6 - cur)"
    using bij_betw_same_card [OF bij] by simp
  ultimately have c1: "1 \<le> cur"
    by linarith
  have eqA: "{q. q \<noteq> MEM_UNKNOWN \<and> (ord(p := cur)) q \<noteq> 0} = insert p ?A"
    using p c1 by auto
  have eqI: "{cur - 1 + 1..6} = insert cur {cur + 1..6}"
    using cur by auto
  have "bij_betw (ord(p := cur)) ?A {cur + 1..6}"
    by (subst bij_betw_cong [of ?A _ ord]) (use p bij in auto)
  then have "bij_betw (ord(p := cur)) (insert p ?A) (insert cur {cur + 1..6})"
    using p notIn_Un_bij_betw [of p ?A "ord(p := cur)" "{cur + 1..6}"] by simp
  with c1 cur show ?thesis
    unfolding scheme_inv.simps eqA eqI by simp
qed

lemma scheme_partition_inj:
  "scheme_partition s = Some p \<Longrightarrow> scheme_partition t = Some p \<Longrightarrow> s = t"
  by (auto simp: scheme_partition_def split: if_splits)

lemma scheme_partition_known: "scheme_partition s = Some p \<Longrightarrow> p \<noteq> MEM_UNKNOWN"
  by (auto simp: scheme_partition_def split: if_splits)

lemma scheme_tokens:
  assumes "scheme_inv (ord, cur)" and "distinct toks"
    and "\<And>t. t \<in> set toks \<Longrightarrow> \<exists>p. scheme_partition t = Some p \<and> ord p = 0"
    and "fold scheme_step toks (ord, cur) = (ord', cur')"
  shows "scheme_inv (ord', cur')
    \<and> (\<forall>i < length toks. ord' (the (scheme_partition (toks ! i))) = cur - int i
         \<and> ord' (the (scheme_partition (toks ! i))) \<noteq> 0)
    \<and> (\<forall>p. ord p \<noteq> 0 \<longrightarrow> ord' p = ord p)"
  using assms
proof (induction toks arbitrary: ord cur)
  case Nil
  then show ?case by simp
next
  case (Cons t toks)
  obtain p where p: "scheme_partition t = Some p" "ord p = 0"
    using Cons.prems(3) by auto
  have step: "1 \<le> cur" "scheme_inv (ord(p := cur), cur - 1)"
    using scheme_inv_assign [OF Cons.prems(1) scheme_partition_known [OF p(1)] p(2)] by auto
  have fresh: "\<exists>q. scheme_partition u = Some q \<and> (ord(p := cur)) q = 0" if u: "u \<in> set toks" for u
  proof -
    obtain q where "scheme_partition u = Some q" "ord q = 0"
      using Cons.prems(3) [of u] u by auto
    moreover from this have "q \<noteq> p"
      using scheme_partition_inj [OF p(1)] Cons.prems(2) u by auto
    ultimately show ?thesis by auto
  qed
  have d: "distinct toks"
    using Cons.prems(2) by simp
  have "fold scheme_step toks (ord(p := cur), cur - 1) = (ord', cur')"
    using Cons.prems(4) p by simp
  note ih = Cons.IH [OF step(2) d fresh this]
  have keep: "ord' q = (ord(p := cur)) q" if "(ord(p := cur)) q \<noteq> 0" for q
    using ih [THEN conjunct2, THEN conjunct2] that by simp
  have op: "ord' p = cur"
    using keep [of p] step(1) by simp
  have "ord' (the (scheme_partition ((t # toks) ! i))) = cur - int i
      \<and> ord' (the (scheme_partition ((t # toks) ! i))) \<noteq> 0" if "i < length (t # toks)" for i
  proof (cases i)
    case 0
    with op p(1) step(1) show ?thesis by simp
  next
    case (Suc k)
    let ?q = "the (scheme_partition (toks ! k))"
    have "ord' ?q = cur - 1 - int k" "ord' ?q \<noteq> 0"
      using ih [THEN conjunct2, THEN conjunct1] that Suc by auto
    with Suc show ?thesis by simp
  qed
  moreover have "ord' q = ord q" if "ord q \<noteq> 0" for q
    using keep [of q] that p(2) by (cases "q = p") auto
  ultimately show ?case
    using ih [THEN conjunct1] by blast
qed

lemma scheme_fills:
  assumes "scheme_inv (ord, cur)" and "\<And>p. p \<in> set ps \<Longrightarrow> p \<noteq> MEM_UNKNOWN"
    and "fold scheme_fill ps (ord, cur) = (ord', cur')"
  shows "scheme_inv (ord', cur') \<and> (\<forall>p \<in> set ps. ord' p \<noteq> 0) \<and> (\<forall>p. ord p \<noteq> 0 \<longrightarrow> ord' p = ord p)"
  using assms
proof (induction ps arbitrary: ord cur)
  case Nil
  then show ?case by simp
next
  case (Cons p ps)
  have ps: "\<And>q. q \<in> set ps \<Longrightarrow> q \<noteq> MEM_UNKNOWN"
    using Cons.prems(2) by simp
  show ?case
  proof (cases "ord p = 0")
    case True
    have step: "1 \<le> cur" "scheme_inv (ord(p := cur), cur - 1)"
      using scheme_inv_assign [OF Cons.prems(1) _ True] Cons.prems(2) by auto
    have "fold scheme_fill ps (ord(p := cur), cur - 1) = (ord', cur')"
      using Cons.prems(3) True by simp
    note ih = Cons.IH [OF step(2) ps this]
    have keep: "ord' q = (ord(p := cur)) q" if "(ord(p := cur)) q \<noteq> 0" for q
      using ih [THEN conjunct2, THEN conjunct2] that by simp
    have "ord' p = cur"
      using keep [of p] step(1) by simp
    moreover have "ord' q = ord q" if "ord q \<noteq> 0" for q
      using keep [of q] that True by (cases "q = p") auto
    ultimately show ?thesis
      using ih [THEN conjunct1] ih [THEN conjunct2, THEN conjunct1] step(1)
      by (auto simp del: scheme_inv.simps)
  next
    case False
    then have "fold scheme_fill ps (ord, cur) = (ord', cur')"
      using Cons.prems(3) by simp
    from Cons.IH [OF Cons.prems(1) ps this] False show ?thesis
      by (auto simp del: scheme_inv.simps)
  qed
qed

lemma scheme_inv_complete:
  assumes inv: "scheme_inv (ord, cur)" and all: "\<forall>p \<in> set partitions. ord p \<noteq> 0"
  shows "inj_on ord (set partitions) \<and> ord ` set partitions = {1..6}"
proof -
  have A: "{p. p \<noteq> MEM_UNKNOWN \<and> ord p \<noteq> 0} = set partitions"
    using all by auto
  have bij: "bij_betw ord (set partitions) {cur + 1..6}"
    using inv by (simp add: A)
  then have "card {cur + 1..6} = 6"
    using bij_betw_same_card card_partitions by metis
  then have "cur = 0"
    using inv by simp
  with bij show ?thesis by (simp add: bij_betw_def)
qed

subsection \<open>The default translator\<close>

definition zero_method :: TranslationMethod where
  "zero_method = \<lparr>bitWidths = (\<lambda>_. 0), count = (\<lambda>_. 0), order = (\<lambda>_. 0)\<rparr>"

definition default_translator :: AddressTranslator where
  "default_translator = SetTranslationMethod (Some (TranslationMethod_new zero_method)) AddressTranslator_new"

lemma orders_ok_default: "orders_ok (TranslationMethod_new m)"
  by (simp add: orders_ok_def partitions_def TranslationMethod_new_def SetOrder_def)

lemma layout_default:
  "layout (TranslationMethod_new m) = [MEM_COL, MEM_SUBARRAY, MEM_BANK, MEM_ROW, MEM_RANK, MEM_CHANNEL]"
  by (simp add: layout_def FindOrder_def GetOrder_def TranslationMethod_new_def SetOrder_def)

lemma offset_bits_default: "offset_bits default_translator = Some (3, 3)"
  by (simp add: offset_bits_def default_translator_def AddressTranslator_new_def
      SetTranslationMethod_def mlog2_def mlog2_loop.simps drop_bit_eq_div signed_divide_int_def)

lemma widths_default [simp]:
  "widths (TranslationMethod_new m) MEM_ROW = 10" "widths (TranslationMethod_new m) MEM_COL = 8"
  "widths (TranslationMethod_new m) MEM_BANK = 3" "widths (TranslationMethod_new m) MEM_RANK = 1"
  "widths (TranslationMethod_new m) MEM_CHANNEL = 1" "widths (TranslationMethod_new m) MEM_SUBARRAY = 6"
  by (simp_all add: widths_def TranslationMethod_new_def SetOrder_def SetBitWidths_def)

interpretation default_layout:
  address_layout "widths (TranslationMethod_new m)" "layout (TranslationMethod_new m)" 6 for m
  by unfold_locales (simp_all add: layout_default widths_default)

lemma translator_ok_default: "translator_ok default_translator"
  using default_layout.fits [of zero_method] offset_bits_default
  by (simp add: translator_ok_def orders_ok_default sum_widths_layout
      default_translator_def AddressTranslator_new_def SetTranslationMethod_def)

subsection \<open>Properties of address translation\<close>

text \<open>C7: For a translator whose orders are a permutation and whose fields fit into 64
  bits, translating a reverse-translated set of in-range coordinates gives the coordinates
  back: no two coordinate tuples share a physical address.\<close>

theorem translate_reverse:
  assumes ok: "translator_ok t" and m: "translationMethod t = Some m"
    and range: "\<And>p. p \<noteq> MEM_UNKNOWN \<Longrightarrow> unat (f p) < 2 ^ widths m p"
  shows "\<exists>t' a t'' g. ReverseTranslate t f = Some (t', a) \<and> Translate t' a outs = Some (t'', g)
    \<and> (\<forall>p. p \<noteq> MEM_UNKNOWN \<longrightarrow> g p = f p)"
proof -
  obtain b l where o: "orders_ok m" "offset_bits t = Some (b, l)"
    and lay: "address_layout (widths m) (layout m) (nat b + nat l)"
    using translator_okE [OF ok] m by (metis option.inject)
  let ?L = "nat b + nat l" and ?e = "encode (widths m) (layout m) (\<lambda>p. unat (f p))"
  let ?a = "of_nat (2 ^ ?L * ?e) :: uint64" and ?t = "t\<lparr>lowColBits := l\<rparr>"
  have in_range: "\<And>p. p \<in> set (layout m) \<Longrightarrow> unat (f p) < 2 ^ widths m p"
    using range o(1) by (simp add: set_layout)
  have "unat ?a = 2 ^ ?L * ?e"
    using address_layout.shifted_encode_bound [OF lay in_range]
    by (simp add: unsigned_of_nat take_bit_nat_eq_self del: of_nat_mult of_nat_power)
  then have dv: "unat ?a div 2 ^ ?L = ?e" by simp
  obtain g where g: "Translate ?t ?a outs = Some (?t, g)"
    and dec: "(\<lambda>p. unat (g p)) = decode (widths m) (layout m) ?e (\<lambda>p. unat (outs p))"
    using Translate_decode [of ?t m b l ?a outs] m o dv by auto
  have "g p = f p" if p: "p \<noteq> MEM_UNKNOWN" for p
  proof -
    have "unat (g p) = decode (widths m) (layout m) ?e (\<lambda>p. unat (outs p)) p"
      using dec by metis
    also have "\<dots> = unat (f p)"
      using p o(1) by (intro address_layout.decode_encode [OF lay in_range]) (simp_all add: set_layout)
    finally show ?thesis by (rule unsigned_word_eqI)
  qed
  with g ReverseTranslate_encode [OF m o, of f] show ?thesis by blast
qed

theorem translate_reverse_witness:
  "\<exists>t' a t'' g. ReverseTranslate default_translator (\<lambda>p. if p = MEM_ROW then 5 else 1) = Some (t', a)
     \<and> Translate t' a (\<lambda>_. 0) = Some (t'', g) \<and> g MEM_ROW = 5 \<and> g MEM_BANK = 1"
proof -
  let ?f = "\<lambda>p. if p = MEM_ROW then 5 else 1 :: uint64"
  have m: "translationMethod default_translator = Some (TranslationMethod_new zero_method)"
    by (simp add: default_translator_def SetTranslationMethod_def)
  have "unat (?f p) < 2 ^ widths (TranslationMethod_new zero_method) p" if "p \<noteq> MEM_UNKNOWN" for p
    using that by (cases p) simp_all
  from translate_reverse [OF translator_ok_default m this, where outs = "\<lambda>_. 0"]
  show ?thesis by fastforce
qed

text \<open>C12: Translating any address below the size of the memory and reverse-translating
  the result gives the address with its burst-offset bits cleared.\<close>

theorem reverse_translate:
  assumes ok: "translator_ok t" and m: "translationMethod t = Some m" and off: "offset_bits t = Some (b, l)"
    and a: "unat a < 2 ^ (nat b + nat l + sum_list (map (widths m) partitions))"
  shows "\<exists>t' f t''. Translate t a outs = Some (t', f)
    \<and> (\<forall>p. p \<noteq> MEM_UNKNOWN \<longrightarrow> unat (f p) < 2 ^ widths m p)
    \<and> ReverseTranslate t' f
        = Some (t'', push_bit (nat b + nat l) (drop_bit (nat b + nat l) a))"
proof -
  let ?L = "nat b + nat l" and ?t = "t\<lparr>lowColBits := l\<rparr>"
  let ?x = "unat a div 2 ^ ?L" and ?outs = "\<lambda>p. unat (outs p)"
  have o: "orders_ok m" and lay: "address_layout (widths m) (layout m) ?L"
    using translator_okE [OF ok] m off by fastforce+
  obtain f where f: "Translate t a outs = Some (?t, f)"
    and dec: "(\<lambda>p. unat (f p)) = decode (widths m) (layout m) ?x ?outs"
    using Translate_decode [OF m o off] by blast
  have "?x < 2 ^ sum_list (map (widths m) partitions)"
    using a by (simp add: power_add less_mult_imp_div_less mult.commute)
  then have enc: "encode (widths m) (layout m) (\<lambda>p. unat (f p)) = ?x"
    unfolding dec using address_layout.encode_decode [OF lay, of ?x ?outs]
    by (simp add: sum_widths_layout [OF o])
  have "drop_bit ?L a = of_nat ?x"
    unfolding unat_drop_bit_div [symmetric] by (rule sym, rule word_of_nat_unat)
  then have "push_bit ?L (drop_bit ?L a) = of_nat (2 ^ ?L * ?x)"
    by (simp add: push_bit_eq_mult mult.commute)
  with enc ReverseTranslate_encode [of ?t m b l f] m o off
  have rev: "ReverseTranslate ?t f = Some (?t, push_bit ?L (drop_bit ?L a))"
    by simp
  have "unat (f p) < 2 ^ widths m p" if "p \<noteq> MEM_UNKNOWN" for p
    using decode_bound [OF distinct_layout [OF o], of p "widths m" ?x ?outs] that set_layout [OF o] dec
    by (metis in_partitions_iff)
  with f rev show ?thesis by blast
qed

theorem reverse_translate_witness:
  "\<exists>t' f t''. Translate default_translator 123456 (\<lambda>_. 0) = Some (t', f)
     \<and> ReverseTranslate t' f = Some (t'', 123456)"
proof -
  have m: "translationMethod default_translator = Some (TranslationMethod_new zero_method)"
    by (simp add: default_translator_def SetTranslationMethod_def)
  have "unat (123456 :: uint64) < 2 ^ (nat 3 + nat 3 +
      sum_list (map (widths (TranslationMethod_new zero_method)) partitions))"
    by (simp add: partitions_def)
  from reverse_translate [OF translator_ok_default m offset_bits_default this, where outs = "\<lambda>_. 0"]
  show ?thesis by (simp add: drop_bit_eq_div push_bit_eq_mult) blast
qed

lemma scheme_orders_complete:
  assumes dist: "distinct toks" and known: "\<forall>tok \<in> set toks. scheme_partition tok \<noteq> None"
  shows "inj_on (scheme_orders toks) (set partitions)" and "scheme_orders toks ` set partitions = {1..6}"
    and "i < length toks \<Longrightarrow> scheme_orders toks (the (scheme_partition (toks ! i))) = 6 - int i"
proof -
  obtain ord1 cur1 where t: "fold scheme_step toks ((\<lambda>_. 0), 6) = (ord1, cur1)"
    by fastforce
  have "scheme_inv ((\<lambda>_. 0), 6)"
    by (simp add: bij_betw_def)
  note toks = scheme_tokens [OF this dist _ t]
  have "\<exists>p. scheme_partition tok = Some p" if "tok \<in> set toks" for tok
    using known that by auto
  with toks have inv1: "scheme_inv (ord1, cur1)"
    and pos1: "\<forall>i < length toks. ord1 (the (scheme_partition (toks ! i))) = 6 - int i
      \<and> ord1 (the (scheme_partition (toks ! i))) \<noteq> 0"
    by blast+
  let ?fills = "[MEM_SUBARRAY, MEM_CHANNEL, MEM_RANK, MEM_BANK, MEM_ROW, MEM_COL]"
  obtain ord2 cur2 where f: "fold scheme_fill ?fills (ord1, cur1) = (ord2, cur2)"
    by fastforce
  have "\<And>p. p \<in> set ?fills \<Longrightarrow> p \<noteq> MEM_UNKNOWN"
    by auto
  from scheme_fills [OF inv1 this f]
  have inv2: "scheme_inv (ord2, cur2)" and nz: "\<forall>p \<in> set partitions. ord2 p \<noteq> 0"
    and keep: "\<forall>p. ord1 p \<noteq> 0 \<longrightarrow> ord2 p = ord1 p"
    by (simp_all add: partitions_def del: scheme_inv.simps)
  have eq: "scheme_orders toks = ord2"
    by (simp only: scheme_orders_def t f fst_conv)
  from scheme_inv_complete [OF inv2 nz]
  show "inj_on (scheme_orders toks) (set partitions)" "scheme_orders toks ` set partitions = {1..6}"
    by (auto simp: eq)
  show "scheme_orders toks (the (scheme_partition (toks ! i))) = 6 - int i" if "i < length toks"
    using pos1 keep that by (metis eq)
qed

text \<open>C16: A scheme of distinct, recognised partition names that fits the parser's buffer
  gives a usable method, whether or not it names all six partitions: the orders are a
  permutation, and the named partitions are laid out from the most significant position
  down in the order in which the scheme names them.\<close>

theorem mapping_scheme_orders:
  assumes len: "length scheme < 16"
    and dist: "distinct (strtok_all CHR '':'' scheme)"
    and known: "\<forall>tok \<in> set (strtok_all CHR '':'' scheme). scheme_partition tok \<noteq> None"
  shows "\<exists>m'. SetAddressMappingScheme scheme m = Some m' \<and> orders_ok m'
    \<and> (\<forall>i < length (strtok_all CHR '':'' scheme).
         order m' (the (scheme_partition (strtok_all CHR '':'' scheme ! i))) = 5 - int i)"
proof -
  let ?toks = "strtok_all CHR '':'' scheme"
  let ?ord = "scheme_orders ?toks"
  note complete = scheme_orders_complete [OF dist known]
  let ?m = "SetOrder (?ord MEM_ROW) (?ord MEM_COL) (?ord MEM_BANK) (?ord MEM_RANK)
    (?ord MEM_CHANNEL) (?ord MEM_SUBARRAY) m"
  have ord: "order ?m p = ?ord p - 1" if "p \<noteq> MEM_UNKNOWN" for p
    using that by (cases p) (simp_all add: SetOrder_def)
  have "inj_on (order ?m) (set partitions)"
    using complete(1) by (auto simp: inj_on_def ord)
  moreover have "0 \<le> order ?m p \<and> order ?m p \<le> 5" if "p \<noteq> MEM_UNKNOWN" for p
  proof -
    have "?ord p \<in> {1..6}"
      using complete(2) that by (metis image_eqI in_partitions_iff)
    with that show ?thesis by (simp add: ord)
  qed
  moreover have "distinct partitions"
    by (simp add: partitions_def)
  ultimately have "orders_ok ?m"
    by (simp add: orders_ok_def distinct_map)
  moreover have "order ?m (the (scheme_partition (?toks ! i))) = 5 - int i" if "i < length ?toks" for i
  proof -
    have "the (scheme_partition (?toks ! i)) \<noteq> MEM_UNKNOWN"
      using known that scheme_partition_known [of "?toks ! i"] by (metis nth_mem option.collapse)
    with complete(3) [OF that] show ?thesis by (simp add: ord)
  qed
  ultimately show ?thesis
    using len by (simp add: SetAddressMappingScheme_def Let_def)
qed

theorem mapping_scheme_orders_witness:
  "\<exists>m'. SetAddressMappingScheme ''R:RK:BK:CH:C'' zero_method = Some m' \<and> orders_ok m'
     \<and> order m' MEM_ROW = 5"
proof -
  have toks: "strtok_all CHR '':'' ''R:RK:BK:CH:C'' = [''R'', ''RK'', ''BK'', ''CH'', ''C'']"
    by (simp add: strtok_all_def)
  have "\<exists>m'. SetAddressMappingScheme ''R:RK:BK:CH:C'' zero_method = Some m' \<and> orders_ok m'
    \<and> (\<forall>i < length (strtok_all CHR '':'' ''R:RK:BK:CH:C'').
         order m' (the (scheme_partition (strtok_all CHR '':'' ''R:RK:BK:CH:C'' ! i))) = 5 - int i)"
    by (rule mapping_scheme_orders) (simp_all add: toks scheme_partition_def)
  then show ?thesis
    unfolding toks by (fastforce simp: scheme_partition_def)
qed

text \<open>C17: The loop of \<^verbatim>\<open>mlog2\<close> computes the floor of the binary logarithm: the
  powers of two that do not exceed a positive \<open>n\<close> are exactly those with exponent at most
  the result.\<close>

theorem mlog2_floor_log:
  assumes "1 \<le> n"
  shows "(2 ^ k \<le> n) = (int k \<le> mlog2 n)"
proof
  assume "2 ^ k \<le> n"
  then have "(2 :: int) ^ k < 2 ^ (nat (mlog2 n) + 1)"
    using mlog2_correct [OF assms] by linarith
  then have "k < nat (mlog2 n) + 1"
    by (rule power_less_imp_less_exp [rotated]) simp
  then show "int k \<le> mlog2 n"
    using mlog2_nonneg [of n] by linarith
next
  assume "int k \<le> mlog2 n"
  then have "(2 :: int) ^ k \<le> 2 ^ nat (mlog2 n)"
    by (intro power_increasing) auto
  then show "2 ^ k \<le> n"
    using mlog2_correct [OF assms] by linarith
qed

theorem mlog2_floor_log_witness: "(2 ^ 6 \<le> (100 :: int)) = (int 6 \<le> mlog2 100)"
  using mlog2_floor_log [of 100 6] by simp

end
