(* ===== verification/Ordered_Map.thy ===== *)
theory Ordered_Map
  imports Prelude
begin

text \<open>
  \<^verbatim>\<open>std::map\<close> as the simulator uses it: a list of bindings in strictly ascending key
  order, so that \<^verbatim>\<open>begin()\<close> is the least key. The interface the clients rely on
  is the locale \<open>ordered_map\<close>, interpreted below on the list operations.
\<close>

fun om_insert :: "'k :: linorder \<Rightarrow> 'v \<Rightarrow> ('k \<times> 'v) list \<Rightarrow> ('k \<times> 'v) list" where
  "om_insert k v [] = [(k, v)]"
| "om_insert k v ((k', v') # m) =
     (if k < k' then (k, v) # (k', v') # m
      else if k = k' then (k, v) # m
      else (k', v') # om_insert k v m)"

definition om_erase :: "'k \<Rightarrow> ('k \<times> 'v) list \<Rightarrow> ('k \<times> 'v) list" where
  "om_erase k m = filter (\<lambda>b. fst b \<noteq> k) m"

definition om_first :: "('k \<times> 'v) list \<Rightarrow> ('k \<times> 'v) option" where
  "om_first m = (case m of [] \<Rightarrow> None | b # _ \<Rightarrow> Some b)"

definition om_ok :: "('k :: linorder \<times> 'v) list \<Rightarrow> bool" where
  "om_ok m \<longleftrightarrow> sorted_wrt (<) (map fst m)"

locale ordered_map =
  fixes lookup :: "'m \<Rightarrow> 'k :: linorder \<Rightarrow> 'v option"
    and update :: "'k \<Rightarrow> 'v \<Rightarrow> 'm \<Rightarrow> 'm"
    and erase :: "'k \<Rightarrow> 'm \<Rightarrow> 'm"
    and first :: "'m \<Rightarrow> ('k \<times> 'v) option"
    and ok :: "'m \<Rightarrow> bool"
  assumes ok_update: "ok m \<Longrightarrow> ok (update k v m)"
    and ok_erase: "ok m \<Longrightarrow> ok (erase k m)"
    and lookup_update: "ok m \<Longrightarrow> lookup (update k v m) = (lookup m)(k \<mapsto> v)"
    and lookup_erase: "ok m \<Longrightarrow> lookup (erase k m) = (lookup m)(k := None)"
    and first_None: "ok m \<Longrightarrow> first m = None \<longleftrightarrow> lookup m = Map.empty"
    and first_lookup: "ok m \<Longrightarrow> first m = Some (k, v) \<Longrightarrow> lookup m k = Some v"
    and first_least: "ok m \<Longrightarrow> first m = Some (k, v) \<Longrightarrow> lookup m k' = Some v' \<Longrightarrow> k \<le> k'"
begin

text \<open>The first binding is determined by the contents: the least key and its value.\<close>

lemma first_eqI:
  assumes m: "ok m" and l: "lookup m k = Some v"
    and least: "\<And>k' v'. lookup m k' = Some v' \<Longrightarrow> k \<le> k'"
  shows "first m = Some (k, v)"
proof -
  have "first m \<noteq> None"
    using m l by (simp add: first_None) (metis option.distinct(1))
  then obtain k0 v0 where f: "first m = Some (k0, v0)"
    by fastforce
  have "lookup m k0 = Some v0" and "k0 \<le> k"
    using first_lookup [OF m f] first_least [OF m f l] by auto
  with least have "k0 = k" by force
  with f l \<open>lookup m k0 = Some v0\<close> show ?thesis by simp
qed

lemma first_update_less:
  assumes m: "ok m" and less: "\<And>k' v'. first m = Some (k', v') \<Longrightarrow> k \<le> k'"
  shows "first (update k v m) = Some (k, v)"
proof (rule first_eqI)
  show "ok (update k v m)" by (rule ok_update [OF m])
  show "lookup (update k v m) k = Some v" by (simp add: lookup_update [OF m])
  fix k' v' assume l: "lookup (update k v m) k' = Some v'"
  show "k \<le> k'"
  proof (cases "k' = k")
    case False
    with l have l': "lookup m k' = Some v'"
      by (simp add: lookup_update [OF m])
    then have "first m \<noteq> None"
      using m by (simp add: first_None) (metis option.distinct(1))
    then obtain k0 v0 where f: "first m = Some (k0, v0)" by fastforce
    from less [OF f] first_least [OF m f l'] show ?thesis by simp
  qed simp
qed

lemma first_update_greater:
  assumes m: "ok m" and f: "first m = Some (k0, v0)" and less: "k0 < k"
  shows "first (update k v m) = Some (k0, v0)"
proof (rule first_eqI)
  show "ok (update k v m)" by (rule ok_update [OF m])
  show "lookup (update k v m) k0 = Some v0"
    using less by (auto simp: lookup_update [OF m] first_lookup [OF m f])
  fix k' v' assume "lookup (update k v m) k' = Some v'"
  then show "k0 \<le> k'"
    using less first_least [OF m f] by (simp add: lookup_update [OF m] split: if_splits)
qed

text \<open>After the first binding is erased, every key left is greater.\<close>

lemma first_erase_greater:
  assumes m: "ok m" and f: "first m = Some (k, v)" and f': "first (erase k m) = Some (k', v')"
  shows "k < k'"
proof -
  have "lookup (erase k m) k' = Some v'"
    by (rule first_lookup [OF ok_erase [OF m] f'])
  then have "lookup m k' = Some v'" and "k' \<noteq> k"
    by (auto simp: lookup_erase [OF m] split: if_splits)
  with first_least [OF m f] show ?thesis by force
qed

end

lemma map_of_om_insert: "map_of (om_insert k v m) = (map_of m)(k \<mapsto> v)" if "om_ok m"
  using that
proof (induction k v m rule: om_insert.induct)
  case (2 k v k' v' m)
  have "map_of m k = None" if "k < k'"
  proof -
    have "k \<notin> fst ` set m"
      using "2.prems" that by (auto simp: om_ok_def)
    then show ?thesis by (simp add: map_of_eq_None_iff)
  qed
  moreover have "om_ok m"
    using "2.prems" by (simp add: om_ok_def)
  ultimately show ?case
    using "2.IH" by (auto simp: fun_eq_iff)
qed auto

lemma set_om_insert: "set (om_insert k v m) \<subseteq> insert (k, v) (set m)"
  by (induction k v m rule: om_insert.induct) auto

lemma keys_om_insert: "fst ` set (om_insert k v m) = insert k (fst ` set m)"
  by (induction k v m rule: om_insert.induct) auto

lemma om_ok_Cons: "om_ok (b # m) \<longleftrightarrow> (\<forall>k \<in> fst ` set m. fst b < k) \<and> om_ok m"
  by (simp add: om_ok_def)

lemma om_ok_insert: "om_ok m \<Longrightarrow> om_ok (om_insert k v m)"
proof (induction k v m rule: om_insert.induct)
  case (2 k v k' v' m)
  then show ?case
    by (simp add: om_ok_Cons keys_om_insert) force
qed (simp add: om_ok_def)

lemma map_of_om_erase: "map_of (om_erase k m) = (map_of m)(k := None)"
  by (induction m) (auto simp: om_erase_def)

lemma om_ok_erase: "om_ok m \<Longrightarrow> om_ok (om_erase k m)"
  by (induction m) (auto simp: om_ok_def om_erase_def)

lemma om_ok_distinct: "om_ok m \<Longrightarrow> distinct (map fst m)"
  unfolding om_ok_def by (simp add: strict_sorted_iff)

interpretation om: ordered_map map_of om_insert om_erase om_first om_ok
proof unfold_locales
  fix m :: "('a \<times> 'b) list" and k v k' v'
  assume ok: "om_ok m"
  show "om_ok (om_insert k v m)" by (rule om_ok_insert [OF ok])
  show "om_ok (om_erase k m)" by (rule om_ok_erase [OF ok])
  show "map_of (om_insert k v m) = (map_of m)(k \<mapsto> v)" by (rule map_of_om_insert [OF ok])
  show "map_of (om_erase k m) = (map_of m)(k := None)" by (rule map_of_om_erase)
  show "om_first m = None \<longleftrightarrow> map_of m = Map.empty"
    by (cases m) (auto simp: om_first_def fun_eq_iff)
  show "om_first m = Some (k, v) \<Longrightarrow> map_of m k = Some v"
    by (cases m) (auto simp: om_first_def)
  show "om_first m = Some (k, v) \<Longrightarrow> map_of m k' = Some v' \<Longrightarrow> k \<le> k'"
    using ok by (cases m) (fastforce simp: om_first_def om_ok_def dest: map_of_SomeD split: if_splits)+
qed

text \<open>Two ordered maps with the same contents are the same list.\<close>

lemma om_ext:
  "om_ok m \<Longrightarrow> om_ok m' \<Longrightarrow> map_of m = map_of m' \<Longrightarrow> m = m'"
proof (induction m arbitrary: m')
  case Nil
  then show ?case by simp
next
  case (Cons b m)
  obtain k v where b: "b = (k, v)" by (cases b)
  have "om_first (b # m) = Some (k, v)"
    by (simp add: om_first_def b)
  moreover have "om_first m' = Some (k, v)"
  proof (rule om.first_eqI [OF Cons.prems(2)])
    show "map_of m' k = Some v"
      unfolding Cons.prems(3) [symmetric] by (simp add: b)
    fix k' v' assume "map_of m' k' = Some v'"
    then have "map_of (b # m) k' = Some v'"
      unfolding Cons.prems(3) .
    with om.first_least [OF Cons.prems(1)] calculation show "k \<le> k'" by blast
  qed
  ultimately obtain n where m': "m' = b # n"
    by (cases m') (auto simp: om_first_def b)
  have "map_of m k = None" "map_of n k = None"
    using Cons.prems(1,2) by (auto simp: m' b om_ok_Cons map_of_eq_None_iff)
  moreover have "(map_of m)(k \<mapsto> v) = (map_of n)(k \<mapsto> v)"
    using Cons.prems(3) by (simp add: m' b fun_upd_def)
  ultimately have "map_of m = map_of n"
    by (metis fun_upd_triv fun_upd_upd)
  with Cons.IH [of n] Cons.prems(1,2) show ?case
    by (simp add: m' om_ok_Cons)
qed

end
