(* ===== verification/Event_Queue.thy ===== *)
theory Event_Queue
  imports NVM_Types Ordered_Map
begin

text \<open>
  The event queue that drives the simulation (\<^verbatim>\<open>src/EventQueue.h\<close>,
  \<^verbatim>\<open>src/EventQueue.cpp\<close>). Events and objects are heap objects in C++, so an
  event carries the identity of its allocation (\<open>ev_id\<close>), which is what
  \<^verbatim>\<open>RemoveEvent\<close> compares and what an iterator into an event list denotes. Hooks,
  objects and callbacks are natural numbers.

  \<^verbatim>\<open>Process\<close> calls back into the simulated memory system, which may insert and remove
  events, also into the list being iterated. The system is a parameter: a handler that takes
  the call and the pair of queue and system state and returns the new pair, \<open>None\<close> being
  a failed assertion. The loops are \<open>partial_function\<close>s in the option monad: \<open>None\<close>
  is also non-termination, an iterator whose list node is gone, or a failed assertion of the
  queue itself. The field \<open>freed\<close> records the events \<^verbatim>\<open>Process\<close> has deleted
  while their list nodes are still linked; no operation reads it.
\<close>

datatype EventType =
  EventUnknown | EventCycle | EventIdle | EventRequest | EventResponse | EventCallback

record Event =
  ev_id :: nat
  ev_type :: EventType
  recipient :: "nat option"
  ev_request :: "nat option"
  ev_data :: "nat option"
  ev_cycle :: ncycle_t
  priority :: int
  callback :: nat

definition Event_new :: "nat \<Rightarrow> Event" where
  "Event_new i = \<lparr>ev_id = i, ev_type = EventUnknown, recipient = None, ev_request = None,
     ev_data = None, ev_cycle = 0, priority = 0, callback = 0\<rparr>"

record EventQueue =
  nextEventCycle :: ncycle_t
  lastEventCycle :: ncycle_t
  currentCycle :: ncycle_t
  eventMap :: "(ncycle_t \<times> Event list) list"
  freed :: "nat list"

definition EventQueue_new :: EventQueue where
  "EventQueue_new = \<lparr>nextEventCycle = - 1, lastEventCycle = 0, currentCycle = 0, eventMap = [],
     freed = []\<rparr>"

subsection \<open>Inserting, removing and finding events\<close>

text \<open>The search for an object's hook in the child list of its parent, as
  \<^verbatim>\<open>Event::SetRecipient\<close> and the overloads taking an object do it: pairs of a hook and
  the object behind it. \<open>None\<close> is the failed assertion.\<close>

fun find_hook :: "(nat \<times> nat) list \<Rightarrow> nat \<Rightarrow> nat option" where
  "find_hook [] r = None"
| "find_hook ((hook, trampoline) # children) r =
     (if trampoline = r then Some hook else find_hook children r)"

text \<open>Insertion before the first event of a greater priority value, else at the end.\<close>

fun insert_by_priority :: "Event \<Rightarrow> int \<Rightarrow> Event list \<Rightarrow> Event list" where
  "insert_by_priority e prio [] = [e]"
| "insert_by_priority e prio (x # xs) =
     (if priority x > prio then e # x # xs else x # insert_by_priority e prio xs)"

definition InsertEvent_at :: "Event \<Rightarrow> ncycle_t \<Rightarrow> int \<Rightarrow> EventQueue \<Rightarrow> EventQueue" where
  "InsertEvent_at event when prio q =
     (let e = event\<lparr>ev_cycle := when\<rparr>;
          nextC = (if when < nextEventCycle q then when else nextEventCycle q);
          evs = (case map_of (eventMap q) when of
                   None \<Rightarrow> [e] | Some l \<Rightarrow> insert_by_priority e prio l)
      in q\<lparr>nextEventCycle := nextC, eventMap := om_insert when evs (eventMap q)\<rparr>)"

text \<open>The overload that creates the event; \<open>i\<close> is the new allocation. The priority is
  used for the position but not stored in the event.\<close>

definition InsertEvent ::
  "nat \<Rightarrow> EventType \<Rightarrow> nat option \<Rightarrow> nat option \<Rightarrow> ncycle_t \<Rightarrow> nat option \<Rightarrow> int
     \<Rightarrow> EventQueue \<Rightarrow> EventQueue" where
  "InsertEvent i type hook req when data prio q =
     InsertEvent_at ((Event_new i)\<lparr>ev_type := type, recipient := hook, ev_request := req,
       ev_cycle := when, ev_data := data\<rparr>) when prio q"

definition InsertEvent_object ::
  "nat \<Rightarrow> EventType \<Rightarrow> (nat \<times> nat) list \<Rightarrow> nat \<Rightarrow> nat option \<Rightarrow> ncycle_t \<Rightarrow> nat option \<Rightarrow> int
     \<Rightarrow> EventQueue \<Rightarrow> EventQueue option" where
  "InsertEvent_object i type children obj req when data prio q = do {
     hook \<leftarrow> find_hook children obj;
     Some (InsertEvent i type (Some hook) req when data prio q)
   }"

definition InsertCallback ::
  "nat \<Rightarrow> (nat \<times> nat) list \<Rightarrow> nat \<Rightarrow> nat \<Rightarrow> ncycle_t \<Rightarrow> nat option \<Rightarrow> int \<Rightarrow> EventQueue
     \<Rightarrow> EventQueue option" where
  "InsertCallback i children obj meth when data prio q = do {
     hook \<leftarrow> find_hook children obj;
     Some (InsertEvent_at ((Event_new i)\<lparr>ev_type := EventCallback, recipient := Some hook,
       ev_data := data, ev_cycle := when, priority := prio, callback := meth\<rparr>) when prio q)
   }"

fun remove_event :: "nat \<Rightarrow> Event list \<Rightarrow> Event list" where
  "remove_event i [] = []"
| "remove_event i (x # xs) = (if ev_id x = i then xs else x # remove_event i xs)"

definition next_key :: "(ncycle_t \<times> 'a) list \<Rightarrow> ncycle_t" where
  "next_key m = (case om_first m of None \<Rightarrow> - 1 | Some (k, _) \<Rightarrow> k)"

definition RemoveEvent :: "nat \<Rightarrow> ncycle_t \<Rightarrow> EventQueue \<Rightarrow> bool \<times> EventQueue" where
  "RemoveEvent i when q =
     (case map_of (eventMap q) when of
        None \<Rightarrow> (False, q)
      | Some l \<Rightarrow>
          (let rv = (\<exists>x \<in> set l. ev_id x = i);
               l' = remove_event i l;
               m = (if \<not> rv then eventMap q
                    else if l' = [] then om_erase when (eventMap q)
                    else om_insert when l' (eventMap q))
           in (rv, q\<lparr>eventMap := m, nextEventCycle := next_key m\<rparr>)))"

text \<open>\<^verbatim>\<open>FindEvent\<close> keeps the last match, \<^verbatim>\<open>FindCallback\<close> returns the first.\<close>

definition FindEvent ::
  "EventType \<Rightarrow> nat option \<Rightarrow> nat option \<Rightarrow> ncycle_t \<Rightarrow> EventQueue \<Rightarrow> Event option" where
  "FindEvent type hook req when q =
     (case map_of (eventMap q) when of
        None \<Rightarrow> None
      | Some l \<Rightarrow> fold (\<lambda>x rv. if ev_type x = type \<and> recipient x = hook \<and> ev_request x = req
                            then Some x else rv) l None)"

definition FindEvent_object ::
  "EventType \<Rightarrow> (nat \<times> nat) list \<Rightarrow> nat \<Rightarrow> nat option \<Rightarrow> ncycle_t \<Rightarrow> EventQueue \<Rightarrow> Event option option" where
  "FindEvent_object type children obj req when q = do {
     hook \<leftarrow> find_hook children obj;
     Some (FindEvent type (Some hook) req when q)
   }"

definition FindCallback ::
  "(nat \<Rightarrow> nat) \<Rightarrow> nat \<Rightarrow> nat \<Rightarrow> ncycle_t \<Rightarrow> nat option \<Rightarrow> int \<Rightarrow> EventQueue \<Rightarrow> Event option" where
  "FindCallback trampoline obj meth when data prio q =
     (case map_of (eventMap q) when of
        None \<Rightarrow> None
      | Some l \<Rightarrow> find (\<lambda>x. map_option trampoline (recipient x) = Some obj \<and> callback x = meth
                         \<and> ev_data x = data \<and> priority x = prio) l)"

definition SetCurrentCycle :: "ncycle_t \<Rightarrow> EventQueue \<Rightarrow> EventQueue" where
  "SetCurrentCycle c q = q\<lparr>currentCycle := c\<rparr>"

subsection \<open>Processing\<close>

text \<open>What an event asks of its recipient: \<^verbatim>\<open>Cycle\<close> with the cycles since the last
  processed event, \<^verbatim>\<open>RequestComplete\<close>, or a callback. The other types do nothing.\<close>

datatype event_call =
    CallCycle "nat option" ncycle_t
  | CallRequestComplete "nat option" "nat option"
  | CallCallback "nat option" nat "nat option"

definition call_of :: "EventQueue \<Rightarrow> Event \<Rightarrow> event_call option" where
  "call_of q e =
     (case ev_type e of
        EventCycle \<Rightarrow> Some (CallCycle (recipient e) (nextEventCycle q - lastEventCycle q))
      | EventResponse \<Rightarrow> Some (CallRequestComplete (recipient e) (ev_request e))
      | EventCallback \<Rightarrow> Some (CallCallback (recipient e) (callback e) (ev_data e))
      | _ \<Rightarrow> None)"

type_synonym 'w handler = "event_call \<Rightarrow> EventQueue \<times> 'w \<Rightarrow> (EventQueue \<times> 'w) option"

text \<open>Delivering one event and deleting it.\<close>

definition deliver :: "'w handler \<Rightarrow> Event \<Rightarrow> EventQueue \<times> 'w \<Rightarrow> (EventQueue \<times> 'w) option" where
  "deliver h e s = do {
     (q', w') \<leftarrow> (case call_of (fst s) e of None \<Rightarrow> Some s | Some c \<Rightarrow> h c s);
     Some (q'\<lparr>freed := ev_id e # freed q'\<rparr>, w')
   }"

text \<open>The iterator after the node of event \<open>i\<close>: \<open>None\<close> when that node is not in the
  list, \<open>Some None\<close> for \<^verbatim>\<open>end()\<close>.\<close>

fun iter_next :: "nat \<Rightarrow> Event list \<Rightarrow> nat option option" where
  "iter_next i [] = None"
| "iter_next i (x # xs) =
     (if ev_id x = i then Some (case xs of [] \<Rightarrow> None | y # _ \<Rightarrow> Some (ev_id y))
      else iter_next i xs)"

definition find_event :: "nat \<Rightarrow> Event list \<Rightarrow> Event option" where
  "find_event i l = find (\<lambda>x. ev_id x = i) l"

text \<open>The loop over the list at cycle \<open>k\<close>, which is re-read after each delivery.\<close>

partial_function (option) process_loop ::
  "'w handler \<Rightarrow> ncycle_t \<Rightarrow> nat option \<Rightarrow> EventQueue \<times> 'w \<Rightarrow> (EventQueue \<times> 'w) option" where
  "process_loop h k it s =
     (case it of
        None \<Rightarrow> Some s
      | Some i \<Rightarrow> do {
          l \<leftarrow> map_of (eventMap (fst s)) k;
          e \<leftarrow> find_event i l;
          s' \<leftarrow> deliver h e s;
          l' \<leftarrow> map_of (eventMap (fst s')) k;
          it' \<leftarrow> iter_next i l';
          process_loop h k it' s'
        })"

text \<open>The members are read again after the loop: \<^verbatim>\<open>eventMap.erase( nextEventCycle )\<close>
  uses the value the handlers left.\<close>

definition Process :: "'w handler \<Rightarrow> EventQueue \<times> 'w \<Rightarrow> (EventQueue \<times> 'w) option" where
  "Process h s = do {
     l \<leftarrow> map_of (eventMap (fst s)) (nextEventCycle (fst s));
     (q', w') \<leftarrow> process_loop h (nextEventCycle (fst s))
                  (case l of [] \<Rightarrow> None | e # _ \<Rightarrow> Some (ev_id e)) s;
     let m = om_erase (nextEventCycle q') (eventMap q');
     Some (q'\<lparr>eventMap := m, lastEventCycle := nextEventCycle q', nextEventCycle := next_key m\<rparr>, w')
   }"

definition Loop :: "'w handler \<Rightarrow> EventQueue \<times> 'w \<Rightarrow> (EventQueue \<times> 'w) option" where
  "Loop h s = do {
     (q', w') \<leftarrow> (if nextEventCycle (fst s) = currentCycle (fst s) then Process h s else Some s);
     Some (q'\<lparr>currentCycle := currentCycle q' + 1\<rparr>, w')
   }"

partial_function (option) loop_while ::
  "'w handler \<Rightarrow> ncycle_t \<Rightarrow> EventQueue \<times> 'w \<Rightarrow> (EventQueue \<times> 'w) option" where
  "loop_while h stepCycles s =
     (if stepCycles = 0 then Some s
      else if nextEventCycle (fst s) > currentCycle (fst s) + stepCycles
      then Some ((fst s)\<lparr>currentCycle := currentCycle (fst s) + stepCycles\<rparr>, snd s)
      else (let currentSteps = nextEventCycle (fst s) - currentCycle (fst s)
            in Option.bind
                 (Process h ((fst s)\<lparr>currentCycle := currentCycle (fst s) + currentSteps\<rparr>, snd s))
                 (\<lambda>s'. loop_while h (stepCycles - currentSteps) s')))"

definition Loop_steps :: "'w handler \<Rightarrow> ncycle_t \<Rightarrow> EventQueue \<times> 'w \<Rightarrow> (EventQueue \<times> 'w) option" where
  "Loop_steps h steps s =
     (if steps = 0 \<and> nextEventCycle (fst s) = currentCycle (fst s) then Process h s
      else loop_while h steps s)"

subsection \<open>The queue invariant\<close>

text \<open>The map is ordered, no list in it is empty, every event carries the cycle it is filed
  under, and \<open>nextEventCycle\<close> is the least key (the greatest 64-bit value when there is
  none).\<close>

definition queue_ok :: "EventQueue \<Rightarrow> bool" where
  "queue_ok q \<longleftrightarrow> om_ok (eventMap q) \<and> nextEventCycle q = next_key (eventMap q)
     \<and> (\<forall>k l. map_of (eventMap q) k = Some l \<longrightarrow> l \<noteq> [] \<and> (\<forall>e \<in> set l. ev_cycle e = k))"

text \<open>The abstract queue: the events of each cycle, in the order they will be delivered.\<close>

definition events_at :: "EventQueue \<Rightarrow> ncycle_t \<Rightarrow> Event list" where
  "events_at q k = (case map_of (eventMap q) k of None \<Rightarrow> [] | Some l \<Rightarrow> l)"

lemma events_at_clock [simp]:
  "events_at (q\<lparr>currentCycle := c\<rparr>) = events_at q" "events_at (q\<lparr>freed := f\<rparr>) = events_at q"
  by (simp_all add: events_at_def fun_eq_iff)

lemma queue_ok_new [simp]: "queue_ok EventQueue_new"
  by (simp add: queue_ok_def EventQueue_new_def om_ok_def next_key_def om_first_def)

lemma next_key_insert:
  assumes "om_ok m"
  shows "next_key (om_insert k v m) = min k (next_key m)"
proof (cases "om_first m")
  case None
  then have "om_first (om_insert k v m) = Some (k, v)"
    by (intro om.first_update_less assms) auto
  with None show ?thesis by (simp add: next_key_def min_def)
next
  case (Some b)
  obtain k0 v0 where b: "om_first m = Some (k0, v0)"
    using Some by (cases b) auto
  show ?thesis
  proof (cases "k \<le> k0")
    case True
    then have "om_first (om_insert k v m) = Some (k, v)"
      using b by (intro om.first_update_less assms) auto
    with b True show ?thesis by (simp add: next_key_def min_def)
  next
    case False
    then have "om_first (om_insert k v m) = Some (k0, v0)"
      by (intro om.first_update_greater [OF assms b]) auto
    with b False show ?thesis by (simp add: next_key_def min_def)
  qed
qed

lemma set_insert_by_priority [simp]: "set (insert_by_priority e prio l) = insert e (set l)"
  by (induction l) auto

lemma mset_insert_by_priority: "mset (insert_by_priority e prio l) = add_mset e (mset l)"
  by (induction l) auto

lemma insert_by_priority_neq_Nil [simp]: "insert_by_priority e prio l \<noteq> []"
  by (cases l) auto

lemma map_of_InsertEvent_at:
  assumes "queue_ok q"
  shows "map_of (eventMap (InsertEvent_at e when prio q)) = (map_of (eventMap q))
    (when \<mapsto> insert_by_priority (e\<lparr>ev_cycle := when\<rparr>) prio (events_at q when))"
proof -
  have "om_ok (eventMap q)"
    using assms by (simp add: queue_ok_def)
  then show ?thesis
    by (cases "map_of (eventMap q) when")
      (simp_all add: InsertEvent_at_def Let_def map_of_om_insert events_at_def)
qed

lemma next_InsertEvent_at:
  "nextEventCycle (InsertEvent_at e when prio q) = min when (nextEventCycle q)"
  by (auto simp: InsertEvent_at_def Let_def min_def)

lemma queue_ok_InsertEvent_at [nvm_inv]:
  assumes q: "queue_ok q"
  shows "queue_ok (InsertEvent_at e when prio q)"
proof -
  have om: "om_ok (eventMap q)" and nxt: "nextEventCycle q = next_key (eventMap q)"
    using q by (auto simp: queue_ok_def)
  have "nextEventCycle (InsertEvent_at e when prio q) = min when (nextEventCycle q)"
    by (rule next_InsertEvent_at)
  moreover have "next_key (eventMap (InsertEvent_at e when prio q)) = min when (nextEventCycle q)"
    by (simp add: InsertEvent_at_def Let_def next_key_insert [OF om] nxt)
  moreover have "om_ok (eventMap (InsertEvent_at e when prio q))"
    using om by (simp add: InsertEvent_at_def Let_def om_ok_insert)
  moreover have "\<forall>e' \<in> set (events_at q when). ev_cycle e' = when"
    using q by (cases "map_of (eventMap q) when") (simp_all add: queue_ok_def events_at_def)
  ultimately show ?thesis
    using q by (auto simp: queue_ok_def map_of_InsertEvent_at [OF q])
qed

lemma queue_ok_InsertEvent [nvm_inv]: "queue_ok q \<Longrightarrow> queue_ok (InsertEvent i ty hk rq when dt prio q)"
  by (simp add: InsertEvent_def queue_ok_InsertEvent_at)

lemma set_remove_event: "set (remove_event i l) \<subseteq> set l"
  by (induction l) auto

lemma RemoveEvent_ok [nvm_inv]:
  assumes "queue_ok q"
  shows "queue_ok (snd (RemoveEvent i when q))"
proof (cases "map_of (eventMap q) when")
  case None
  with assms show ?thesis by (simp add: RemoveEvent_def)
next
  case (Some l)
  have om: "om_ok (eventMap q)"
    using assms by (simp add: queue_ok_def)
  have l: "\<forall>e \<in> set (remove_event i l). ev_cycle e = when"
    using assms Some set_remove_event [of i l] by (fastforce simp: queue_ok_def)
  show ?thesis
    using assms Some l om
    by (auto simp: RemoveEvent_def queue_ok_def Let_def om_ok_insert om_ok_erase
        map_of_om_insert map_of_om_erase split: if_splits)
qed

lemma events_at_InsertEvent_at:
  "queue_ok q \<Longrightarrow> events_at (InsertEvent_at e when prio q) = (events_at q)
     (when := insert_by_priority (e\<lparr>ev_cycle := when\<rparr>) prio (events_at q when))"
  by (rule ext) (simp add: events_at_def [of "InsertEvent_at e when prio q"] map_of_InsertEvent_at events_at_def)

lemma events_at_RemoveEvent:
  assumes "queue_ok q"
  shows "events_at (snd (RemoveEvent i when q)) = (events_at q)(when := remove_event i (events_at q when))"
proof -
  have om: "om_ok (eventMap q)"
    using assms by (simp add: queue_ok_def)
  have none: "(\<forall>x \<in> set l. ev_id x \<noteq> i) \<Longrightarrow> remove_event i l = l" for l
    by (induction l) auto
  show ?thesis
    using none
    by (auto simp: fun_eq_iff RemoveEvent_def Let_def events_at_def map_of_om_insert [OF om]
        map_of_om_erase split: option.splits)
qed

lemma fst_RemoveEvent:
  "fst (RemoveEvent i when q) \<longleftrightarrow> (\<exists>e \<in> set (events_at q when). ev_id e = i)"
  by (auto simp: RemoveEvent_def events_at_def Let_def split: option.splits)

subsection \<open>Handlers that only schedule into the future\<close>

text \<open>Event identities come from an allocator whose next value is \<open>n\<close>: within a list
  they differ, and all are below \<open>n\<close>.\<close>

definition ids_below :: "nat \<Rightarrow> EventQueue \<Rightarrow> bool" where
  "ids_below n q \<longleftrightarrow> (\<forall>k l. map_of (eventMap q) k = Some l \<longrightarrow>
     distinct (map ev_id l) \<and> (\<forall>e \<in> set l. ev_id e < n))"

definition queue_good :: "nat \<Rightarrow> EventQueue \<Rightarrow> bool" where
  "queue_good n q \<longleftrightarrow> queue_ok q \<and> ids_below n q"

lemma distinct_insert_by_priority:
  "ev_id e \<notin> ev_id ` set l \<Longrightarrow> distinct (map ev_id l) \<Longrightarrow> distinct (map ev_id (insert_by_priority e prio l))"
  by (induction l) auto

lemma queue_good_ids: "queue_good n q \<Longrightarrow> e \<in> set (events_at q k) \<Longrightarrow> ev_id e < n"
  by (cases "map_of (eventMap q) k") (auto simp: queue_good_def ids_below_def events_at_def)

lemma queue_good_InsertEvent_fresh:
  assumes "queue_good n q" and "\<And>k. ev_id e \<notin> ev_id ` set (events_at q k)" and "ev_id e < m" and "n \<le> m"
  shows "queue_good m (InsertEvent_at e t prio q)"
proof -
  have q: "queue_ok q" and ids: "ids_below n q"
    using assms(1) by (auto simp: queue_good_def)
  have old: "distinct (map ev_id (events_at q t)) \<and> (\<forall>x \<in> set (events_at q t). ev_id x < n)"
    using ids by (cases "map_of (eventMap q) t") (simp_all add: ids_below_def events_at_def)
  have "ev_id (e\<lparr>ev_cycle := t\<rparr>) \<notin> ev_id ` set (events_at q t)"
    using assms(2) [of t] by simp
  from distinct_insert_by_priority [OF this] old ids assms(3,4)
  have "ids_below m (InsertEvent_at e t prio q)"
    by (fastforce simp: ids_below_def map_of_InsertEvent_at [OF q])
  with queue_ok_InsertEvent_at [OF q] show ?thesis
    by (simp add: queue_good_def)
qed

lemma queue_good_InsertEvent_at [nvm_inv]:
  assumes "queue_good n q" and "ev_id e = n"
  shows "queue_good (Suc n) (InsertEvent_at e when prio q)"
  using assms queue_good_ids [OF assms(1)] by (intro queue_good_InsertEvent_fresh [OF assms(1)]) (fastforce, simp_all)

lemma queue_good_mono: "queue_good n q \<Longrightarrow> n \<le> n' \<Longrightarrow> queue_good n' q"
  by (fastforce simp: queue_good_def ids_below_def)

lemma queue_good_same_map:
  "eventMap q' = eventMap q \<Longrightarrow> nextEventCycle q' = nextEventCycle q \<Longrightarrow> queue_good n q' = queue_good n q"
  by (simp add: queue_good_def queue_ok_def ids_below_def)

text \<open>The sequence of deliveries \<^verbatim>\<open>Process\<close> is meant to make.\<close>

primrec deliver_all :: "'w handler \<Rightarrow> Event list \<Rightarrow> EventQueue \<times> 'w \<Rightarrow> (EventQueue \<times> 'w) option" where
  "deliver_all h [] s = Some s"
| "deliver_all h (e # es) s = Option.bind (deliver h e s) (deliver_all h es)"

text \<open>The timetable of what is still to be delivered when \<open>es\<close> is left of the current cycle.\<close>

definition due :: "EventQueue \<Rightarrow> Event list \<Rightarrow> ncycle_t \<Rightarrow> Event list" where
  "due q es k = (if k < currentCycle q then [] else if k = currentCycle q then es else events_at q k)"

lemma due_cong:
  "currentCycle q' = currentCycle q \<Longrightarrow> (\<And>k. currentCycle q < k \<Longrightarrow> map_of (eventMap q') k = map_of (eventMap q) k)
     \<Longrightarrow> due q' es = due q es"
  by (auto simp: due_def events_at_def fun_eq_iff)

text \<open>The contract between the queue and the memory system: up to the cycle \<open>horizon\<close>, a
  callback for an event that is due returns, keeps the queue invariant and the system's own (a
  statement about the system and the events still to come), does not move the clock and leaves
  the events of the current and of earlier cycles alone.\<close>

locale timed_handler =
  fixes h :: "'w handler" and sys_ok :: "(ncycle_t \<Rightarrow> Event list) \<Rightarrow> 'w \<Rightarrow> bool"
    and alloc :: "'w \<Rightarrow> nat" and horizon :: ncycle_t
  assumes handler_step:
    "queue_good (alloc w) q \<Longrightarrow> sys_ok (due q (e # es)) w \<Longrightarrow> currentCycle q \<le> horizon \<Longrightarrow> call_of q e = Some c \<Longrightarrow>
     \<exists>q' w'. h c (q, w) = Some (q', w') \<and> queue_good (alloc w') q' \<and> sys_ok (due q' es) w'
       \<and> currentCycle q' = currentCycle q
       \<and> (\<forall>k \<le> currentCycle q. map_of (eventMap q') k = map_of (eventMap q) k)"
    and skip_step: "sys_ok (due q (e # es)) w \<Longrightarrow> call_of q e = None \<Longrightarrow> sys_ok (due q es) w"
begin

lemma deliver_step:
  assumes "queue_good (alloc w) q" and "sys_ok (due q (e # es)) w" and "currentCycle q \<le> horizon"
  shows "\<exists>q' w'. deliver h e (q, w) = Some (q', w') \<and> queue_good (alloc w') q' \<and> sys_ok (due q' es) w'
    \<and> currentCycle q' = currentCycle q
    \<and> (\<forall>k \<le> currentCycle q. map_of (eventMap q') k = map_of (eventMap q) k)"
proof (cases "call_of q e")
  case None
  with assms skip_step [OF assms(2)] show ?thesis
    by (simp add: deliver_def queue_good_same_map [of "q\<lparr>freed := _\<rparr>"] due_cong [of "q\<lparr>freed := _\<rparr>" q])
next
  case (Some c)
  obtain q' w' where "h c (q, w) = Some (q', w')" "queue_good (alloc w') q'" "sys_ok (due q' es) w'"
    "currentCycle q' = currentCycle q"
    "\<forall>k \<le> currentCycle q. map_of (eventMap q') k = map_of (eventMap q) k"
    using handler_step [OF assms Some] by blast
  with Some show ?thesis
    by (simp add: deliver_def queue_good_same_map [of "q'\<lparr>freed := _\<rparr>"] due_cong [of "q'\<lparr>freed := _\<rparr>" q'])
qed

lemma deliver_all_step:
  assumes "queue_good (alloc w) q" and "sys_ok (due q es) w" and "currentCycle q \<le> horizon"
  shows "\<exists>q' w'. deliver_all h es (q, w) = Some (q', w') \<and> queue_good (alloc w') q' \<and> sys_ok (due q' []) w'
    \<and> currentCycle q' = currentCycle q
    \<and> (\<forall>k \<le> currentCycle q. map_of (eventMap q') k = map_of (eventMap q) k)"
  using assms
proof (induction es arbitrary: q w)
  case Nil
  then show ?case by simp
next
  case (Cons e es)
  obtain q1 w1 where d: "deliver h e (q, w) = Some (q1, w1)" and s1: "queue_good (alloc w1) q1" "sys_ok (due q1 es) w1"
    "currentCycle q1 = currentCycle q"
    "\<forall>k \<le> currentCycle q. map_of (eventMap q1) k = map_of (eventMap q) k"
    using deliver_step [OF Cons.prems] by blast
  from Cons.IH [OF s1(1,2)] s1(3) Cons.prems(3) obtain q2 w2
    where "deliver_all h es (q1, w1) = Some (q2, w2)" "queue_good (alloc w2) q2" "sys_ok (due q2 []) w2"
      "currentCycle q2 = currentCycle q1"
      "\<forall>k \<le> currentCycle q1. map_of (eventMap q2) k = map_of (eventMap q1) k"
    by auto
  with d s1 show ?case by simp
qed

text \<open>The iteration delivers exactly the rest of the list, in order.\<close>

lemma process_loop_deliver_all:
  assumes "queue_good (alloc w) q" and "sys_ok (due q l2) w" and "currentCycle q \<le> horizon"
    and "map_of (eventMap q) (currentCycle q) = Some (l1 @ l2)"
    and "distinct (map ev_id (l1 @ l2))"
  shows "process_loop h (currentCycle q) (case l2 of [] \<Rightarrow> None | e # _ \<Rightarrow> Some (ev_id e)) (q, w)
    = deliver_all h l2 (q, w)"
  using assms
proof (induction l2 arbitrary: l1 q w)
  case Nil
  then show ?case by (simp add: process_loop.simps)
next
  case (Cons e l2)
  let ?l = "l1 @ e # l2"
  have fe: "find_event (ev_id e) ?l = Some e"
  proof -
    have "find_event (ev_id e) (xs @ e # ys) = Some e" if "ev_id e \<notin> ev_id ` set xs" for xs ys
      using that by (induction xs) (auto simp: find_event_def)
    then show ?thesis using Cons.prems(5) by auto
  qed
  have it: "iter_next (ev_id e) ?l = Some (case l2 of [] \<Rightarrow> None | y # _ \<Rightarrow> Some (ev_id y))"
  proof -
    have "iter_next (ev_id e) (xs @ e # l2) = Some (case l2 of [] \<Rightarrow> None | y # _ \<Rightarrow> Some (ev_id y))"
      if "ev_id e \<notin> ev_id ` set xs" for xs
      using that by (induction xs) auto
    then show ?thesis using Cons.prems(5) by auto
  qed
  obtain q1 w1 where d: "deliver h e (q, w) = Some (q1, w1)" and s1: "queue_good (alloc w1) q1" "sys_ok (due q1 l2) w1"
    "currentCycle q1 = currentCycle q"
    "\<forall>k \<le> currentCycle q. map_of (eventMap q1) k = map_of (eventMap q) k"
    using deliver_step [OF Cons.prems(1-3)] by blast
  have l': "map_of (eventMap q1) (currentCycle q) = Some ?l"
    using s1(4) Cons.prems(4) by simp
  then have "process_loop h (currentCycle q1)
      (case l2 of [] \<Rightarrow> None | y # _ \<Rightarrow> Some (ev_id y)) (q1, w1) = deliver_all h l2 (q1, w1)"
    using Cons.IH [OF s1(1,2), of "l1 @ [e]"] s1(3) Cons.prems(3,5) by simp
  with Cons.prems(4) fe d l' it s1(3) show ?case
    by (simp add: process_loop.simps [of h "currentCycle q" "Some (ev_id e)"])
qed

lemma Process_delivers:
  assumes q: "queue_good (alloc w) q" "sys_ok (events_at q) w" "currentCycle q \<le> horizon"
    and now: "nextEventCycle q = currentCycle q" "map_of (eventMap q) (currentCycle q) = Some l"
  shows "\<exists>q1 w1 q'. deliver_all h l (q, w) = Some (q1, w1) \<and> Process h (q, w) = Some (q', w1)
    \<and> queue_good (alloc w1) q' \<and> sys_ok (events_at q') w1 \<and> currentCycle q' = currentCycle q
    \<and> lastEventCycle q' = currentCycle q
    \<and> map_of (eventMap q') = (map_of (eventMap q1))(currentCycle q := None)
    \<and> (\<forall>k \<le> currentCycle q. map_of (eventMap q') k = None)"
proof -
  let ?k = "currentCycle q"
  have om: "om_ok (eventMap q)" and ids: "distinct (map ev_id l)"
    using q(1) now(2) by (auto simp: queue_good_def queue_ok_def ids_below_def)
  have first: "om_first (eventMap q) = Some (?k, l)"
  proof -
    obtain v where f: "om_first (eventMap q) = Some (?k, v)"
      using q(1) now om.first_None [OF om]
      by (cases "om_first (eventMap q)") (auto simp: queue_good_def queue_ok_def next_key_def)
    with om.first_lookup [OF om f] now(2) show ?thesis by simp
  qed
  have low: "map_of (eventMap q) k = None" if "k < ?k" for k
    using om.first_least [OF om first] that by (cases "map_of (eventMap q) k") force+
  then have "due q l = events_at q"
    using now(2) by (auto simp: due_def events_at_def fun_eq_iff)
  then have ok: "sys_ok (due q l) w"
    using q(2) by simp
  obtain q1 w1 where d: "deliver_all h l (q, w) = Some (q1, w1)" and s1: "queue_good (alloc w1) q1" "sys_ok (due q1 []) w1"
    "currentCycle q1 = ?k" "\<forall>k \<le> ?k. map_of (eventMap q1) k = map_of (eventMap q) k"
    using deliver_all_step [OF q(1) ok q(3)] by blast
  have om1: "om_ok (eventMap q1)"
    using s1(1) by (simp add: queue_good_def queue_ok_def)
  have "om_first (eventMap q1) = Some (?k, l)"
  proof (rule om.first_eqI [OF om1])
    show "map_of (eventMap q1) ?k = Some l"
      using s1(4) now(2) by simp
    fix k' v' assume "map_of (eventMap q1) k' = Some v'"
    then show "?k \<le> k'"
      using s1(4) low [of k'] by (metis not_le option.distinct(1) order.strict_implies_order)
  qed
  then have next1: "nextEventCycle q1 = ?k"
    using s1(1) by (simp add: queue_good_def queue_ok_def next_key_def)
  have "process_loop h ?k (case l of [] \<Rightarrow> None | e # _ \<Rightarrow> Some (ev_id e)) (q, w) = Some (q1, w1)"
    using process_loop_deliver_all [OF q(1) ok q(3), of "[]"] now(2) ids d by simp
  then have "Process h (q, w) = Some (q1\<lparr>eventMap := om_erase ?k (eventMap q1),
      lastEventCycle := ?k, nextEventCycle := next_key (om_erase ?k (eventMap q1))\<rparr>, w1)"
    using now next1 by (simp add: Process_def Let_def)
  moreover have "map_of (om_erase ?k (eventMap q1)) k = None" if "k \<le> ?k" for k
    using s1(4) low [of k] that by (auto simp: map_of_om_erase)
  moreover have "events_at (q1\<lparr>eventMap := om_erase ?k (eventMap q1), lastEventCycle := l', nextEventCycle := n'\<rparr>) = due q1 []" for l' n'
    using s1(3,4) low by (auto simp: events_at_def due_def map_of_om_erase fun_eq_iff)
  ultimately show ?thesis
    using d s1 om1 by (auto simp: queue_good_def queue_ok_def ids_below_def om_ok_erase map_of_om_erase)
qed

end

lemma next_lookup:
  assumes "queue_ok q" and "nextEventCycle q \<noteq> - 1"
  shows "\<exists>l. map_of (eventMap q) (nextEventCycle q) = Some l"
proof -
  have om: "om_ok (eventMap q)" and n: "nextEventCycle q = next_key (eventMap q)"
    using assms(1) by (auto simp: queue_ok_def)
  then obtain k l where f: "om_first (eventMap q) = Some (k, l)"
    using assms(2) by (cases "om_first (eventMap q)") (auto simp: next_key_def)
  with n om.first_lookup [OF om f] show ?thesis
    by (simp add: next_key_def)
qed

lemma next_after_empty:
  assumes "queue_ok q" and "\<forall>k \<le> c. map_of (eventMap q) k = None" and "c \<noteq> - 1"
  shows "c < nextEventCycle q"
proof (cases "nextEventCycle q = - 1")
  case True
  with assms(3) show ?thesis by (simp add: word_less_top_iff)
next
  case False
  with next_lookup [OF assms(1)] assms(2) show ?thesis
    by (metis not_le option.distinct(1))
qed

text \<open>Arithmetic of one step of the loop, without overflow.\<close>

lemma step_arith:
  fixes cur nxt steps :: ncycle_t
  assumes "cur \<le> nxt" and "nxt \<le> cur + steps" and "unat cur + unat steps < 2 ^ 64 - 1"
  shows "unat nxt + unat (steps - (nxt - cur)) < 2 ^ 64 - 1"
    and "nxt + (steps - (nxt - cur)) = cur + steps"
    and "unat (steps - (nxt - cur)) = unat steps - (unat nxt - unat cur)"
proof -
  have s: "unat (cur + steps) = unat cur + unat steps"
    using assms(3) by (intro unat_add_no_overflow) simp
  have d: "unat (nxt - cur) = unat nxt - unat cur"
    by (rule unat_sub [OF assms(1)])
  have le: "unat cur \<le> unat nxt" "unat nxt \<le> unat cur + unat steps"
    using assms(1,2) s by (auto simp: word_le_nat_alt)
  then have "nxt - cur \<le> steps"
    by (simp add: word_le_nat_alt d)
  from unat_sub [OF this] show r: "unat (steps - (nxt - cur)) = unat steps - (unat nxt - unat cur)"
    by (simp add: d)
  show "unat nxt + unat (steps - (nxt - cur)) < 2 ^ 64 - 1"
    using r le assms(3) by linarith
  show "nxt + (steps - (nxt - cur)) = cur + steps"
    by simp
qed

context timed_handler
begin

lemma loop_while_reaches:
  assumes "queue_good (alloc w) q" and "sys_ok (events_at q) w" and "currentCycle q \<le> nextEventCycle q"
    and "unat (currentCycle q) + unat steps < 2 ^ 64 - 1" and "currentCycle q + steps \<le> horizon"
  shows "\<exists>q' w'. loop_while h steps (q, w) = Some (q', w') \<and> queue_good (alloc w') q' \<and> sys_ok (events_at q') w'
    \<and> currentCycle q' = currentCycle q + steps
    \<and> (if steps = 0 then q' = q \<and> w' = w else currentCycle q' < nextEventCycle q')"
  using assms
proof (induction "unat steps + (if nextEventCycle q = currentCycle q then 1 else 0)"
    arbitrary: q w steps rule: less_induct)
  case less
  let ?cur = "currentCycle q" and ?nxt = "nextEventCycle q"
  have bound: "unat (?cur + steps) = unat ?cur + unat steps"
    using less.prems(4) by (intro unat_add_no_overflow) simp
  consider "steps = 0" | "steps \<noteq> 0" "?cur + steps < ?nxt" | "steps \<noteq> 0" "?nxt \<le> ?cur + steps"
    by fastforce
  then show ?case
  proof cases
    case 1
    with less.prems show ?thesis by (simp add: loop_while.simps)
  next
    case 2
    with less.prems show ?thesis
      by (simp add: loop_while.simps queue_good_same_map [of "q\<lparr>currentCycle := _\<rparr>"])
  next
    case 3
    let ?q1 = "q\<lparr>currentCycle := ?nxt\<rparr>" and ?steps = "steps - (?nxt - ?cur)"
    note ar = step_arith [OF less.prems(3) 3(2) less.prems(4)]
    have nm: "?nxt \<noteq> - 1"
    proof
      assume "?nxt = - 1"
      then have "?cur + steps = - 1"
        using 3(2) by (simp add: word_order.extremum_unique)
      then have "unat (?cur + steps) = 2 ^ 64 - 1"
        by (simp add: unsigned_minus_1_eq_mask mask_eq_exp_minus_1)
      with bound less.prems(4) show False by simp
    qed
    have good1: "queue_good (alloc w) ?q1"
      using less.prems(1) by (simp add: queue_good_same_map [of ?q1])
    have hor: "currentCycle ?q1 \<le> horizon"
      using 3(2) less.prems(5) by simp
    have ok1: "sys_ok (events_at ?q1) w"
      using less.prems(2) by simp
    obtain l where l: "map_of (eventMap ?q1) (currentCycle ?q1) = Some l"
      using next_lookup [of q] less.prems(1) nm by (auto simp: queue_good_def)
    obtain q2 w2 where P: "Process h (?q1, w) = Some (q2, w2)" and s2: "queue_good (alloc w2) q2"
      "sys_ok (events_at q2) w2" "currentCycle q2 = ?nxt" "\<forall>k \<le> ?nxt. map_of (eventMap q2) k = None"
      using Process_delivers [OF good1 ok1 hor _ l] by auto
    have gt: "currentCycle q2 < nextEventCycle q2"
      using next_after_empty [of q2 ?nxt] s2 nm by (simp add: queue_good_def)
    have "unat ?steps + (if nextEventCycle q2 = currentCycle q2 then 1 else 0)
        < unat steps + (if ?nxt = ?cur then 1 else 0)"
    proof (cases "?nxt = ?cur")
      case False
      then have "unat ?cur < unat ?nxt"
        using less.prems(3) by (simp add: word_less_nat_alt [symmetric])
      moreover have "unat steps \<noteq> 0"
        using 3(1) by (simp add: unat_eq_0)
      moreover have "nextEventCycle q2 \<noteq> currentCycle q2"
        using gt by auto
      ultimately show ?thesis
        using ar(3) False by simp
    qed (use gt in auto)
    from less.hyps [OF this s2(1,2) order.strict_implies_order [OF gt]] ar(1,2) s2(3) less.prems(5)
    obtain q' w' where r: "loop_while h ?steps (q2, w2) = Some (q', w')" "queue_good (alloc w') q'"
      "sys_ok (events_at q') w'" "currentCycle q' = ?cur + steps"
      "if ?steps = 0 then q' = q2 \<and> w' = w2 else currentCycle q' < nextEventCycle q'"
      by auto
    have "loop_while h steps (q, w) = Some (q', w')"
      using 3(1) leD [OF 3(2)] P r(1) by (subst loop_while.simps) (simp add: Let_def)
    moreover have "currentCycle q' < nextEventCycle q'"
      using r(5) gt by (auto split: if_splits)
    ultimately show ?thesis
      using r 3(1) by auto
  qed
qed

lemma Loop_steps_reaches:
  assumes q: "queue_good (alloc w) q" "sys_ok (events_at q) w" and le: "currentCycle q \<le> nextEventCycle q"
    and small: "unat (currentCycle q) + unat steps < 2 ^ 64 - 1"
    and hor: "currentCycle q + steps \<le> horizon"
  shows "\<exists>q' w'. Loop_steps h steps (q, w) = Some (q', w') \<and> queue_good (alloc w') q' \<and> sys_ok (events_at q') w'
    \<and> currentCycle q' = currentCycle q + steps \<and> currentCycle q' < nextEventCycle q'"
proof (cases "steps = 0 \<and> nextEventCycle q = currentCycle q")
  case True
  have nm: "currentCycle q \<noteq> - 1"
    using small by (auto simp: unsigned_minus_1_eq_mask mask_eq_exp_minus_1)
  then obtain l where l: "map_of (eventMap q) (currentCycle q) = Some l"
    using next_lookup [of q] q(1) True by (auto simp: queue_good_def)
  obtain q' w' where "Process h (q, w) = Some (q', w')" "queue_good (alloc w') q'" "sys_ok (events_at q') w'"
    "currentCycle q' = currentCycle q" "\<forall>k \<le> currentCycle q. map_of (eventMap q') k = None"
    using Process_delivers [OF q _ _ l] hor True by auto
  with True nm next_after_empty [of q' "currentCycle q"] show ?thesis
    by (simp add: Loop_steps_def queue_good_def)
next
  case False
  with loop_while_reaches [OF q le small hor] le show ?thesis
    by (auto simp: Loop_steps_def split: if_splits)
qed

end

lemma before_next_empty:
  assumes "queue_ok q" and "k < nextEventCycle q"
  shows "events_at q k = []"
proof (cases "map_of (eventMap q) k")
  case None
  then show ?thesis by (simp add: events_at_def)
next
  case (Some l)
  have om: "om_ok (eventMap q)" and n: "nextEventCycle q = next_key (eventMap q)"
    using assms(1) by (auto simp: queue_ok_def)
  from Some obtain k0 l0 where f: "om_first (eventMap q) = Some (k0, l0)"
    using om.first_None [OF om] by (cases "om_first (eventMap q)") auto
  with om.first_least [OF om f Some] n assms(2) show ?thesis
    by (simp add: next_key_def)
qed

subsection \<open>Properties of the event queue\<close>

text \<open>C13: Inserting an event into a well-formed queue files it under its cycle, behind every
  event of that cycle whose priority value is not greater and before the others, touches no
  other cycle, keeps the invariant, and leaves \<open>nextEventCycle\<close> the least pending cycle.\<close>

theorem insert_event_timetable:
  assumes q: "queue_ok q" and srt: "sorted (map priority (events_at q when))"
  shows "queue_ok (InsertEvent_at e when prio q)
    \<and> nextEventCycle (InsertEvent_at e when prio q) = min when (nextEventCycle q)
    \<and> events_at (InsertEvent_at e when prio q) = (events_at q)(when :=
        filter (\<lambda>x. priority x \<le> prio) (events_at q when) @ [e\<lparr>ev_cycle := when\<rparr>]
        @ filter (\<lambda>x. prio < priority x) (events_at q when))"
proof -
  have "insert_by_priority e' prio l = filter (\<lambda>x. priority x \<le> prio) l @ [e'] @ filter (\<lambda>x. prio < priority x) l"
    if "sorted (map priority l)" for e' l
    using that
  proof (induction l)
    case (Cons x l)
    show ?case
    proof (cases "prio < priority x")
      case True
      then have "\<forall>y \<in> set l. prio < priority y"
        using Cons.prems by auto
      with True show ?thesis by (simp add: filter_id_conv filter_empty_conv not_le)
    next
      case False
      with Cons show ?thesis by simp
    qed
  qed simp
  from this [OF srt] show ?thesis
    using q by (simp add: queue_ok_InsertEvent_at events_at_InsertEvent_at next_InsertEvent_at)
qed

theorem insert_event_timetable_witness:
  "events_at (InsertEvent_at (Event_new 3) 20 0 EventQueue_new) 20 = [(Event_new 3)\<lparr>ev_cycle := 20\<rparr>]"
proof -
  have "events_at EventQueue_new 20 = []"
    by (simp add: events_at_def EventQueue_new_def)
  then show ?thesis
    using insert_event_timetable [OF queue_ok_new, of 20 "Event_new 3" 0] by simp
qed

text \<open>C18: Removing an event that was just inserted restores the queue exactly, whatever was
  pending: this is the step with which a paused or cancelled write takes back its completion
  event.\<close>

theorem insert_remove_roundtrip:
  assumes q: "queue_ok q" and fresh: "\<forall>x \<in> set (events_at q when). ev_id x \<noteq> ev_id e"
  shows "RemoveEvent (ev_id e) when (InsertEvent_at e when prio q) = (True, q)"
proof -
  let ?q = "InsertEvent_at e when prio q" and ?e = "e\<lparr>ev_cycle := when\<rparr>"
  have rem: "remove_event (ev_id e) (insert_by_priority ?e prio l) = l" if "\<forall>x \<in> set l. ev_id x \<noteq> ev_id e" for l
    using that by (induction l) auto
  have ok: "queue_ok ?q" "queue_ok (snd (RemoveEvent (ev_id e) when ?q))"
    using q by (auto intro: nvm_inv)
  have "events_at (snd (RemoveEvent (ev_id e) when ?q)) = events_at q"
    using rem [OF fresh] by (simp add: events_at_RemoveEvent [OF ok(1)] events_at_InsertEvent_at [OF q])
  then have "map_of (eventMap (snd (RemoveEvent (ev_id e) when ?q))) k = map_of (eventMap q) k" for k
    using ok(2) q by (auto simp: events_at_def queue_ok_def fun_eq_iff split: option.splits) (metis option.exhaust)+
  then have m: "eventMap (snd (RemoveEvent (ev_id e) when ?q)) = eventMap q"
    using ok(2) q by (intro om_ext) (auto simp: queue_ok_def)
  then have "nextEventCycle (snd (RemoveEvent (ev_id e) when ?q)) = nextEventCycle q"
    using ok(2) q by (simp add: queue_ok_def)
  moreover have "fst (RemoveEvent (ev_id e) when ?q)"
    by (simp add: fst_RemoveEvent events_at_InsertEvent_at [OF q])
  moreover have "lastEventCycle (snd (RemoveEvent i when ?q)) = lastEventCycle q"
    "currentCycle (snd (RemoveEvent i when ?q)) = currentCycle q"
    "freed (snd (RemoveEvent i when ?q)) = freed q" for i
    by (simp_all add: RemoveEvent_def InsertEvent_at_def Let_def split: option.splits)
  ultimately show ?thesis
    using m by (intro prod_eqI) (simp_all)
qed

theorem insert_remove_roundtrip_witness:
  "RemoveEvent 3 20 (InsertEvent_at (Event_new 3) 20 0 EventQueue_new) = (True, EventQueue_new)"
proof -
  have "\<forall>x \<in> set (events_at EventQueue_new 20). ev_id x \<noteq> ev_id (Event_new 3)"
    by (simp add: events_at_def EventQueue_new_def)
  from insert_remove_roundtrip [OF queue_ok_new this, of 0] show ?thesis
    by (simp add: Event_new_def)
qed

text \<open>C8: For every memory system that honours the scheduling contract,
  \<^verbatim>\<open>Loop( steps )\<close> terminates and returns with the clock advanced by exactly
  \<open>steps\<close>, the queue well formed, and no event left at or before the new current cycle.\<close>

theorem loop_reaches_target:
  assumes h: "timed_handler h sys_ok alloc horizon"
    and q: "queue_good (alloc w) q" "sys_ok (events_at q) w" and le: "currentCycle q \<le> nextEventCycle q"
    and small: "unat (currentCycle q) + unat steps < 2 ^ 64 - 1"
    and hor: "currentCycle q + steps \<le> horizon"
  shows "\<exists>q' w'. Loop_steps h steps (q, w) = Some (q', w') \<and> queue_ok q' \<and> sys_ok (events_at q') w'
    \<and> currentCycle q' = currentCycle q + steps
    \<and> (\<forall>k \<le> currentCycle q + steps. events_at q' k = [])"
proof -
  obtain q' w' where r: "Loop_steps h steps (q, w) = Some (q', w')" "queue_ok q'" "sys_ok (events_at q') w'"
    "currentCycle q' = currentCycle q + steps" "currentCycle q' < nextEventCycle q'"
    using timed_handler.Loop_steps_reaches [OF h q le small hor] by (auto simp: queue_good_def)
  moreover have "events_at q' k = []" if "k \<le> currentCycle q + steps" for k
    using before_next_empty [OF r(2), of k] that r(4,5) by simp
  ultimately show ?thesis by blast
qed

theorem loop_reaches_target_witness:
  "\<exists>q' w'. Loop_steps (\<lambda>c s. Some s) 9 (InsertEvent_at (Event_new 3) 5 0 EventQueue_new, ()) = Some (q', w')
     \<and> currentCycle q' = 9 \<and> events_at q' 5 = []"
proof -
  let ?q = "InsertEvent_at (Event_new 3) 5 0 EventQueue_new"
  have h: "timed_handler (\<lambda>c s. Some s) (\<lambda>_ _. True) (\<lambda>_ :: unit. 4) 1000"
    by unfold_locales auto
  have "queue_good 3 EventQueue_new"
    by (simp add: queue_good_def ids_below_def) (simp add: EventQueue_new_def)
  then have "queue_good (Suc 3) ?q"
    by (rule queue_good_InsertEvent_at) (simp add: Event_new_def)
  then have q: "queue_good 4 ?q"
    by simp
  have c: "currentCycle ?q = 0" "nextEventCycle ?q = 5"
    by (simp_all add: InsertEvent_at_def EventQueue_new_def)
  show ?thesis
    using loop_reaches_target [OF h, where w = "()" and q = ?q and steps = 9] q c by fastforce
qed

subsection \<open>Limits of the priority order\<close>

text \<open>The overload that creates the event uses the priority for the position and leaves 0 in
  the event, so a later callback of a smaller priority value is filed behind it: here the
  controller's transaction-queue event (30) comes before a refresh callback (20).\<close>

lemma insert_event_forgets_priority:
  "map_option (\<lambda>q. map ev_id (events_at q 5))
     (InsertCallback 2 [(1, 1)] 1 0 5 None 20 (InsertEvent 1 EventCycle (Some 1) None 5 None 30 EventQueue_new))
   = Some [1, 2]"
  "map_option (\<lambda>q. map ev_id (events_at q 5))
     (Option.bind (InsertCallback 1 [(1, 1)] 1 0 5 None 30 EventQueue_new)
        (InsertCallback 2 [(1, 1)] 1 0 5 None 20))
   = Some [2, 1]"
  by (simp_all add: InsertCallback_def InsertEvent_def InsertEvent_at_def EventQueue_new_def
      events_at_def Event_new_def)

text \<open>A handler that schedules an event at the cycle being processed, with a smaller priority
  value than the event it handles: the event lands before the iterator, is never delivered,
  and is dropped with the list.\<close>

definition schedule_once :: "nat handler" where
  "schedule_once c s =
     (if snd s = 0 then Some (InsertEvent_at ((Event_new 9)\<lparr>ev_type := EventCycle\<rparr>) (currentCycle (fst s)) (- 10) (fst s), 1)
      else Some (fst s, Suc (snd s)))"

lemma process_drops_earlier_priority:
  "map_option (\<lambda>(q, n). (n, eventMap q, freed q))
     (Loop schedule_once (InsertEvent_at ((Event_new 3)\<lparr>ev_type := EventCycle\<rparr>) 0 0 EventQueue_new, 0))
   = Some (1, [], [3])"
  by (simp add: Loop_def Process_def process_loop.simps deliver_def schedule_once_def call_of_def
      InsertEvent_at_def EventQueue_new_def Event_new_def find_event_def next_key_def om_erase_def
      om_first_def word_less_top_iff)

end
