(* ===== verification/Memory_World.thy ===== *)
theory Memory_World
  imports Event_Queue
begin

text \<open>
  What the modules of the memory system share: the event queue, the heap of request objects,
  and the simulator interface that remembers the data of every address
  (\<^verbatim>\<open>src/SimInterface.cpp\<close>).

  A request is named by the number of its allocation; \<open>heap\<close> maps the live ones to their
  contents, so that using a deleted request is \<open>None\<close>. Events take their identities from
  the same counter. \<open>rng\<close> counts the random numbers drawn so far. Every operation returns
  \<open>None\<close> for a failed assertion or an undefined access.
\<close>

subsection \<open>Simulator interface\<close>

record SimInterface =
  memoryData :: "uint64 \<rightharpoonup> NVMDataBlock"
  accessCounts :: "uint64 \<rightharpoonup> uint32"

definition SimInterface_new :: SimInterface where
  "SimInterface_new = \<lparr>memoryData = Map.empty, accessCounts = Map.empty\<rparr>"

text \<open>The function assigns its pointer parameter, not the block it points to: the caller's
  block comes back as it was.\<close>

definition GetDataAtAddress :: "uint64 \<Rightarrow> NVMDataBlock \<Rightarrow> SimInterface \<Rightarrow> bool \<times> NVMDataBlock" where
  "GetDataAtAddress addr data si = (if memoryData si addr = None then (False, data) else (True, data))"

definition SetDataAtAddress :: "uint64 \<Rightarrow> NVMDataBlock \<Rightarrow> SimInterface \<Rightarrow> SimInterface option" where
  "SetDataAtAddress addr data si =
     (case accessCounts si addr of
        None \<Rightarrow> do {
          newData \<leftarrow> DataBlock_assign data NVMDataBlock_new;
          Some (si\<lparr>memoryData := (memoryData si)(addr \<mapsto> newData), accessCounts := (accessCounts si)(addr \<mapsto> 0)\<rparr>)
        }
      | Some n \<Rightarrow> do {
          old \<leftarrow> memoryData si addr;
          newData \<leftarrow> DataBlock_assign data old;
          Some (si\<lparr>memoryData := (memoryData si)(addr \<mapsto> newData), accessCounts := (accessCounts si)(addr \<mapsto> n + 1)\<rparr>)
        })"

definition sim_ok :: "SimInterface \<Rightarrow> bool" where
  "sim_ok si \<longleftrightarrow> dom (memoryData si) = dom (accessCounts si) \<and> (\<forall>a d. memoryData si a = Some d \<longrightarrow> block_ok d)"

subsection \<open>The shared state\<close>

record World =
  evq :: EventQueue
  heap :: "nat \<rightharpoonup> NVMainRequest"
  next_ref :: nat
  rng :: nat
  sim :: "SimInterface option"

definition World_new :: World where
  "World_new = \<lparr>evq = EventQueue_new, heap = Map.empty, next_ref = 0, rng = 0, sim = None\<rparr>"

abbreviation now :: "World \<Rightarrow> ncycle_t" where
  "now w \<equiv> currentCycle (evq w)"

definition update_request :: "nat \<Rightarrow> (NVMainRequest \<Rightarrow> NVMainRequest) \<Rightarrow> World \<Rightarrow> World option" where
  "update_request r f w = do {
     req \<leftarrow> heap w r;
     Some (w\<lparr>heap := (heap w)(r \<mapsto> f req)\<rparr>)
   }"

text \<open>\<^verbatim>\<open>new NVMainRequest\<close> followed by the assignment \<^verbatim>\<open>*copy = *request\<close>; \<open>f\<close> is what
  the caller then sets in the copy.\<close>

definition copy_request :: "nat \<Rightarrow> (NVMainRequest \<Rightarrow> NVMainRequest) \<Rightarrow> World \<Rightarrow> (nat \<times> World) option" where
  "copy_request r f w = do {
     req \<leftarrow> heap w r;
     copy \<leftarrow> Request_assign req NVMainRequest_new;
     Some (next_ref w, w\<lparr>heap := (heap w)(next_ref w \<mapsto> f copy), next_ref := Suc (next_ref w)\<rparr>)
   }"

definition delete_request :: "nat \<Rightarrow> World \<Rightarrow> World option" where
  "delete_request r w = (case heap w r of None \<Rightarrow> None | Some _ \<Rightarrow> Some (w\<lparr>heap := (heap w)(r := None)\<rparr>))"

text \<open>\<^verbatim>\<open>GetEventQueue( )->InsertEvent( EventResponse, this, req, when )\<close> for the object
  \<open>obj\<close> among the children of its parent.\<close>

definition insert_response :: "(nat \<times> nat) list \<Rightarrow> nat \<Rightarrow> nat \<Rightarrow> ncycle_t \<Rightarrow> World \<Rightarrow> World option" where
  "insert_response children obj r when w = do {
     q \<leftarrow> InsertEvent_object (next_ref w) EventResponse children obj (Some r) when None 0 (evq w);
     Some (w\<lparr>evq := q, next_ref := Suc (next_ref w)\<rparr>)
   }"

subsection \<open>Invariant of the shared state\<close>

text \<open>The queue is well formed, its events and the live requests were allocated, and the
  requests carry proper data blocks.\<close>

definition world_ok :: "World \<Rightarrow> bool" where
  "world_ok w \<longleftrightarrow> queue_good (next_ref w) (evq w)
     \<and> (\<forall>r req. heap w r = Some req \<longrightarrow> r < next_ref w \<and> request_ok req)"

lemma world_ok_new [simp]: "world_ok World_new"
  by (simp add: world_ok_def World_new_def queue_good_def ids_below_def) (simp add: EventQueue_new_def)

lemma world_ok_heap: "world_ok w \<Longrightarrow> heap w r = Some req \<Longrightarrow> r < next_ref w \<and> request_ok req"
  by (simp add: world_ok_def)

lemma update_request_ok [nvm_inv]:
  assumes "world_ok w" and "update_request r f w = Some w'" and "\<And>req. request_ok req \<Longrightarrow> request_ok (f req)"
  shows "world_ok w'"
  using assms by (auto simp: world_ok_def update_request_def bind_eq_Some_conv split: if_splits)

lemma delete_request_ok [nvm_inv]:
  assumes "world_ok w" and "delete_request r w = Some w'"
  shows "world_ok w'"
  using assms by (auto simp: world_ok_def delete_request_def split: option.splits if_splits)

lemma copy_request_fresh:
  assumes "world_ok w" and "heap w r = Some req"
  shows "copy_request r f w = Some (next_ref w,
    w\<lparr>heap := (heap w)(next_ref w \<mapsto> f (req\<lparr>flags := 0, burstCount := 1, writeProgress := 0, cancellations := 0\<rparr>)),
      next_ref := Suc (next_ref w)\<rparr>)"
  using assms world_ok_heap [OF assms] by (simp add: copy_request_def Request_assign_fresh)

lemma copy_request_ok [nvm_inv]:
  assumes "world_ok w" and "copy_request r f w = Some (c, w')" and "\<And>req. request_ok req \<Longrightarrow> request_ok (f req)"
  shows "world_ok w'"
proof -
  obtain req where req: "heap w r = Some req"
    using assms(2) by (auto simp: copy_request_def bind_eq_Some_conv)
  have "request_ok (f (req\<lparr>flags := 0, burstCount := 1, writeProgress := 0, cancellations := 0\<rparr>))"
    using world_ok_heap [OF assms(1) req] by (intro assms(3)) (simp add: request_ok_def)
  moreover have "queue_good (Suc (next_ref w)) (evq w)"
    using assms(1) queue_good_mono [of "next_ref w" "evq w" "Suc (next_ref w)"] by (simp add: world_ok_def)
  ultimately show ?thesis
    using assms(1,2) by (auto simp: copy_request_fresh [OF assms(1) req] world_ok_def less_Suc_eq split: if_splits)
qed

lemma insert_response_ok [nvm_inv]:
  assumes "world_ok w" and "insert_response children obj r when w = Some w'"
  shows "world_ok w'"
proof -
  obtain hook where w': "w' = w\<lparr>evq := InsertEvent (next_ref w) EventResponse (Some hook) (Some r) when None 0 (evq w),
      next_ref := Suc (next_ref w)\<rparr>"
    using assms(2) by (auto simp: insert_response_def InsertEvent_object_def bind_eq_Some_conv)
  have "queue_good (Suc (next_ref w)) (evq w')"
    using assms(1) unfolding w' InsertEvent_def
    by (auto simp: world_ok_def Event_new_def intro!: queue_good_InsertEvent_at)
  then show ?thesis
    using assms(1) by (auto simp: w' world_ok_def less_SucI)
qed

lemma insert_response_Some:
  "find_hook children obj = Some hook \<Longrightarrow> insert_response children obj r when w =
     Some (w\<lparr>evq := InsertEvent (next_ref w) EventResponse (Some hook) (Some r) when None 0 (evq w),
       next_ref := Suc (next_ref w)\<rparr>)"
  by (simp add: insert_response_def InsertEvent_object_def)

lemma insert_response_fields:
  assumes "insert_response children obj r when w = Some w'"
  shows "heap w' = heap w" "now w' = now w" "rng w' = rng w" "sim w' = sim w" "next_ref w' = Suc (next_ref w)"
  using assms by (auto simp: insert_response_def InsertEvent_object_def InsertEvent_def InsertEvent_at_def Let_def bind_eq_Some_conv)

text \<open>An event scheduled for a later cycle leaves the events up to now alone.\<close>

lemma insert_response_future:
  assumes "world_ok w" and "insert_response children obj r when w = Some w'" and "k < when"
  shows "map_of (eventMap (evq w')) k = map_of (eventMap (evq w)) k"
  using assms
  by (auto simp: insert_response_def InsertEvent_object_def InsertEvent_def bind_eq_Some_conv world_ok_def
      queue_good_def map_of_InsertEvent_at)

subsection \<open>Frames and steps\<close>

text \<open>The part of a request that scheduling reads.\<close>

definition req_core :: "NVMainRequest \<Rightarrow> OpType \<times> NVMAddress \<times> ncounter_t \<times> nat option" where
  "req_core r = (req_type r, address r, burstCount r, owner r)"

definition world_frame :: "World \<Rightarrow> World \<Rightarrow> bool" where
  "world_frame w w' \<longleftrightarrow> evq w' = evq w \<and> next_ref w \<le> next_ref w'
     \<and> (\<forall>r < next_ref w. map_option req_core (heap w' r) = map_option req_core (heap w r))"

lemma world_frame_refl [simp]: "world_frame w w"
  by (simp add: world_frame_def)

lemma world_frame_trans: "world_frame w w' \<Longrightarrow> world_frame w' w'' \<Longrightarrow> world_frame w w''"
  by (auto simp: world_frame_def)

lemma world_frame_upd [simp]:
  "world_frame w (w'\<lparr>rng := n\<rparr>) \<longleftrightarrow> world_frame w w'"
  "world_frame w (w'\<lparr>sim := si\<rparr>) \<longleftrightarrow> world_frame w w'"
  by (simp_all add: world_frame_def)

lemma world_ok_upd [simp]:
  "world_ok (w\<lparr>rng := n\<rparr>) = world_ok w"
  "world_ok (w\<lparr>sim := si\<rparr>) = world_ok w"
  by (simp_all add: world_ok_def)

lemma update_request_frame:
  assumes "world_ok w" and "update_request r f w = Some w'" and "\<And>req. req_core (f req) = req_core req"
    and "\<And>req. request_ok req \<Longrightarrow> request_ok (f req)"
  shows "world_frame w w' \<and> world_ok w'"
  using assms(2,3) update_request_ok [OF assms(1,2,4)]
  by (auto simp: world_frame_def update_request_def bind_eq_Some_conv)

lemma copy_request_frame:
  assumes "world_ok w" and "copy_request r f w = Some (c, w')" and "\<And>req. request_ok req \<Longrightarrow> request_ok (f req)"
  shows "world_frame w w' \<and> world_ok w'"
  using assms(2) copy_request_ok [OF assms(1,2,3)]
  by (auto simp: world_frame_def copy_request_def bind_eq_Some_conv)

lemma set_heap_frame:
  assumes "world_ok w" and "heap w r = Some req" and "req_core req' = req_core req" and "request_ok req'"
  shows "world_frame w (w\<lparr>heap := (heap w)(r \<mapsto> req')\<rparr>) \<and> world_ok (w\<lparr>heap := (heap w)(r \<mapsto> req')\<rparr>)"
  using assms by (auto simp: world_frame_def world_ok_def)

text \<open>The event an insertion adds.\<close>

definition response_event :: "nat \<Rightarrow> nat \<Rightarrow> nat \<Rightarrow> ncycle_t \<Rightarrow> Event" where
  "response_event i hook r t = (Event_new i)\<lparr>ev_type := EventResponse, recipient := Some hook, ev_request := Some r, ev_cycle := t\<rparr>"

lemma response_event_sel [simp]:
  "ev_id (response_event i hook r t) = i" "ev_request (response_event i hook r t) = Some r"
  "ev_type (response_event i hook r t) = EventResponse" "recipient (response_event i hook r t) = Some hook"
  "ev_cycle (response_event i hook r t) = t" "ev_data (response_event i hook r t) = None"
  "priority (response_event i hook r t) = 0" "(response_event i hook r t)\<lparr>ev_cycle := t'\<rparr> = response_event i hook r t'"
  by (simp_all add: response_event_def Event_new_def)

lemma insert_response_events:
  assumes "insert_response ch obj r t w = Some w'" and "world_ok w"
  obtains hook where "find_hook ch obj = Some hook"
    and "events_at (evq w') = (events_at (evq w))
      (t := insert_by_priority (response_event (next_ref w) hook r t) 0 (events_at (evq w) t))"
proof -
  obtain hook where h: "find_hook ch obj = Some hook"
    and q: "evq w' = InsertEvent_at (response_event (next_ref w) hook r t) t 0 (evq w)"
    using assms(1)
    by (auto simp: insert_response_def InsertEvent_object_def InsertEvent_def bind_eq_Some_conv response_event_def Event_new_def)
  show ?thesis
    using assms(2) by (intro that [OF h]) (simp add: q events_at_InsertEvent_at world_ok_def queue_good_def)
qed

text \<open>A command may schedule events, allocate requests and set owners and flags; it keeps the
  clock and what scheduling reads of the requests there were.\<close>

definition req_kind :: "NVMainRequest \<Rightarrow> OpType \<times> NVMAddress \<times> ncounter_t" where
  "req_kind r = (req_type r, address r, burstCount r)"

definition world_step :: "World \<Rightarrow> World \<Rightarrow> bool" where
  "world_step w w' \<longleftrightarrow> now w' = now w \<and> next_ref w \<le> next_ref w' \<and> world_ok w'
     \<and> (\<forall>r < next_ref w. map_option req_kind (heap w' r) = map_option req_kind (heap w r))"

lemma world_step_refl: "world_ok w \<Longrightarrow> world_step w w"
  by (simp add: world_step_def)

lemma world_step_trans: "world_step a b \<Longrightarrow> world_step b c \<Longrightarrow> world_step a c"
  by (auto simp: world_step_def)

lemma world_stepD: "world_step w w' \<Longrightarrow> world_ok w' \<and> now w' = now w"
  by (simp add: world_step_def)

lemma world_frame_step:
  assumes "world_frame w w'" and "world_ok w'"
  shows "world_step w w'"
proof -
  have "map_option req_kind (heap w' r) = map_option req_kind (heap w r)" if "r < next_ref w" for r
  proof -
    have "map_option req_core (heap w' r) = map_option req_core (heap w r)"
      using assms(1) that by (simp add: world_frame_def)
    then show ?thesis
      by (auto simp: req_core_def req_kind_def map_option_case split: option.splits)
  qed
  then show ?thesis
    using assms by (simp add: world_step_def world_frame_def)
qed

lemma update_request_step:
  assumes "update_request r f w = Some w'" and "world_step a w" and "\<And>req. req_kind (f req) = req_kind req"
    and "\<And>req. request_ok req \<Longrightarrow> request_ok (f req)"
  shows "world_step a w'"
proof -
  have "world_step w w'"
    using assms(1,3) update_request_ok [OF _ assms(1) assms(4)] world_stepD [OF assms(2)]
    by (auto simp: world_step_def update_request_def bind_eq_Some_conv)
  with assms(2) show ?thesis by (rule world_step_trans)
qed

lemma copy_request_step:
  assumes "copy_request r f w = Some (c, w')" and "world_step a w" and "\<And>req. request_ok req \<Longrightarrow> request_ok (f req)"
  shows "world_step a w'"
  using assms world_stepD [OF assms(2)] copy_request_frame [OF _ assms(1) assms(3)]
  by (blast intro: world_step_trans world_frame_step)

lemma insert_response_step:
  assumes "insert_response ch obj r t w = Some w'" and "world_step a w"
  shows "world_step a w'"
proof -
  have "world_step w w'"
    using insert_response_fields [OF assms(1)] insert_response_ok [OF _ assms(1)] world_stepD [OF assms(2)]
    by (simp add: world_step_def)
  with assms(2) show ?thesis by (rule world_step_trans)
qed

lemma upd_simps [simp]:
  "request_ok (req\<lparr>flags := f\<rparr>) = request_ok req" "req_kind (req\<lparr>flags := f\<rparr>) = req_kind req"
  "request_ok (req\<lparr>owner := o'\<rparr>) = request_ok req" "req_kind (req\<lparr>owner := o'\<rparr>) = req_kind req"
  "request_ok (req\<lparr>writeProgress := t\<rparr>) = request_ok req" "req_kind (req\<lparr>writeProgress := t\<rparr>) = req_kind req"
  "request_ok (req\<lparr>cancellations := n\<rparr>) = request_ok req" "req_kind (req\<lparr>cancellations := n\<rparr>) = req_kind req"
  "request_ok (req\<lparr>req_type := ty\<rparr>) = request_ok req"
  by (simp_all add: request_ok_def req_kind_def)

lemmas world_steps = update_request_step copy_request_step insert_response_step

lemma RemoveEvent_step:
  assumes "world_step a w"
  shows "world_step a (w\<lparr>evq := snd (RemoveEvent i t (evq w))\<rparr>)"
proof -
  have "ids_below n (snd (RemoveEvent i t q))" if "queue_good n q" for n q
  proof -
    have om: "om_ok (eventMap q)"
      using that by (simp add: queue_good_def queue_ok_def)
    have sub: "distinct (map ev_id l) \<Longrightarrow> distinct (map ev_id (remove_event i l))" for l
      using set_remove_event [of i] by (induction l) auto
    show ?thesis
      using that set_remove_event [of i] sub
      by (fastforce simp: RemoveEvent_def Let_def queue_good_def ids_below_def map_of_om_insert [OF om]
          map_of_om_erase split: option.splits if_splits)
  qed
  moreover have "currentCycle (snd (RemoveEvent i t q)) = currentCycle q" for q
    by (simp add: RemoveEvent_def Let_def split: option.splits)
  ultimately show ?thesis
    using assms RemoveEvent_ok by (auto simp: world_step_def world_ok_def queue_good_def)
qed

subsection \<open>Operations that cannot fail\<close>

lemma world_step_live:
  assumes "world_step w0 w" and "world_ok w0" and "heap w0 r = Some req0"
  shows "\<exists>req. heap w r = Some req \<and> req_kind req = req_kind req0"
proof -
  have "map_option req_kind (heap w r) = map_option req_kind (heap w0 r)"
    using assms(1) world_ok_heap [OF assms(2,3)] by (simp add: world_step_def)
  then show ?thesis
    using assms(3) by (auto simp: map_option_case split: option.splits)
qed

text \<open>Steps that also leave the remembered data alone.\<close>

definition quiet_step :: "World \<Rightarrow> World \<Rightarrow> bool" where
  "quiet_step w w' \<longleftrightarrow> world_step w w' \<and> sim w' = sim w"

lemma quiet_step_refl: "world_ok w \<Longrightarrow> quiet_step w w"
  by (simp add: quiet_step_def world_step_refl)

lemma update_request_succeeds:
  assumes "quiet_step w0 w" and "world_ok w0" and "heap w0 r = Some req0" and "\<And>req. req_kind (f req) = req_kind req"
    and "\<And>req. request_ok req \<Longrightarrow> request_ok (f req)"
  shows "succeeds (update_request r f w) (quiet_step w0)"
proof -
  have s: "world_step w0 w" "sim w = sim w0"
    using assms(1) by (auto simp: quiet_step_def)
  obtain req where "heap w r = Some req"
    using world_step_live [OF s(1) assms(2,3)] by blast
  then have u: "update_request r f w = Some (w\<lparr>heap := (heap w)(r \<mapsto> f req)\<rparr>)"
    by (simp add: update_request_def)
  with update_request_step [OF u s(1) assms(4,5)] s(2) show ?thesis
    by (simp add: quiet_step_def)
qed

lemma copy_request_succeeds:
  assumes "quiet_step w0 w" and "world_ok w0" and "heap w0 r = Some req0"
    and "\<And>req. request_ok req \<Longrightarrow> request_ok (f req)"
  shows "succeeds (copy_request r f w) (\<lambda>x. quiet_step w0 (snd x))"
proof -
  have s: "world_step w0 w" "sim w = sim w0"
    using assms(1) by (auto simp: quiet_step_def)
  obtain req where req: "heap w r = Some req"
    using world_step_live [OF s(1) assms(2,3)] by blast
  from world_stepD [OF s(1)] have c: "copy_request r f w = Some (next_ref w,
    w\<lparr>heap := (heap w)(next_ref w \<mapsto> f (req\<lparr>flags := 0, burstCount := 1, writeProgress := 0, cancellations := 0\<rparr>)),
      next_ref := Suc (next_ref w)\<rparr>)"
    using copy_request_fresh [OF _ req] by blast
  with copy_request_step [OF c s(1) assms(4)] s(2) show ?thesis
    by (simp add: quiet_step_def)
qed

lemma insert_response_succeeds:
  assumes "quiet_step w0 w" and "find_hook ch obj \<noteq> None"
  shows "succeeds (insert_response ch obj r t w) (quiet_step w0)"
proof -
  obtain hook where "find_hook ch obj = Some hook"
    using assms(2) by auto
  from insert_response_Some [OF this, of r t w] insert_response_step [of ch obj r t w _ w0] assms(1) show ?thesis
    by (simp add: quiet_step_def)
qed

lemma SetDataAtAddress_fresh:
  assumes "sim_ok si" and "memoryData si addr = None" and "block_ok d"
  shows "SetDataAtAddress addr d si \<noteq> None"
proof -
  have "accessCounts si addr = None"
    using assms(1,2) by (auto simp: sim_ok_def)
  with assms(3) show ?thesis
    by (simp add: SetDataAtAddress_def DataBlock_assign_fresh)
qed

end
