(* ===== verification/Params.thy ===== *)
theory Params
  imports NVM_Types
begin

text \<open>
  The parameters of a memory system (\<^verbatim>\<open>src/Params.h\<close>) with the defaults of
  the constructor (\<^verbatim>\<open>src/Params.cpp\<close>): the fields the modelled components
  read. The one C++ class is a chain of record extensions (geometry, timing, energy, modes).
  String-valued switches that the code only compares with literals stay strings.
\<close>

datatype ProgramMode = ProgramMode_SRMS | ProgramMode_SSMR

datatype PauseMode = PauseMode_Normal | PauseMode_IIWC | PauseMode_Optimal

record Params_geometry =
  BusWidth :: ncounter_t
  DeviceWidth :: ncounter_t
  CLK :: ncounter_t
  RATE :: ncounter_t
  CPUFreq :: ncounter_t
  ROWS :: ncounter_t
  COLS :: ncounter_t
  CHANNELS :: ncounter_t
  RANKS :: ncounter_t
  BANKS :: ncounter_t
  RAW :: ncounter_t
  MATHeight :: ncounter_t
  RBSize :: ncounter_t

record Params_timing = Params_geometry +
  tAL :: ncycle_t
  tBURST :: ncycle_t
  tCAS :: ncycle_t
  tCCD :: ncycle_t
  tCMD :: ncycle_t
  tCWD :: ncycle_t
  tRAW :: ncycle_t
  tOST :: ncycle_t
  tPD :: ncycle_t
  tRAS :: ncycle_t
  tRCD :: ncycle_t
  tRDB :: ncycle_t
  tREFW :: ncycle_t
  tRFC :: ncycle_t
  tRP :: ncycle_t
  tRRDR :: ncycle_t
  tRRDW :: ncycle_t
  tPPD :: ncycle_t
  tRTP :: ncycle_t
  tRTRS :: ncycle_t
  tWP :: ncycle_t
  tWR :: ncycle_t
  tWTR :: ncycle_t
  tXP :: ncycle_t
  tXPDLL :: ncycle_t
  tXS :: ncycle_t
  tXSDLL :: ncycle_t
  tRDPDEN :: ncycle_t
  tWRPDEN :: ncycle_t
  tWRAPDEN :: ncycle_t
  tWP0 :: ncycle_t
  tWP1 :: ncycle_t

record Params_energy = Params_timing +
  EIDD0 :: rat
  EIDD1 :: rat
  EIDD2P0 :: rat
  EIDD2P1 :: rat
  EIDD2N :: rat
  EIDD3P :: rat
  EIDD3N :: rat
  EIDD4R :: rat
  EIDD4W :: rat
  EIDD5B :: rat
  EIDD6 :: rat
  Eopenrd :: rat
  Erd :: rat
  Eref :: rat
  Ewr :: rat
  Ewrpb :: rat
  Eactstdby :: rat
  Eprestdby :: rat
  Epda :: rat
  Epdpf :: rat
  Epdps :: rat
  Voltage :: rat
  Ereset :: rat
  Eset :: rat

record Params = Params_energy +
  EnergyModel :: string
  UseLowPower :: bool
  PowerDownMode :: string
  RefreshRows :: ncounter_t
  UseRefresh :: bool
  StaggerRefresh :: bool
  UsePrecharge :: bool
  OffChipLatency :: ncounter_t
  ClosePage :: ncycle_t
  ScheduleScheme :: int
  HighWaterMark :: int
  LowWaterMark :: int
  DelayedRefreshThreshold :: ncounter_t
  AddressMappingScheme :: string
  BanksPerRefresh :: ncounter_t
  programMode :: ProgramMode
  MLCLevels :: ncounter_t
  WPVariance :: ncounter_t
  UniformWrites :: bool
  WriteAllBits :: bool
  nWP00 :: ncycle_t
  nWP01 :: ncycle_t
  nWP10 :: ncycle_t
  nWP11 :: ncycle_t
  WPMaxVariance :: ncycle_t
  WritePausing :: bool
  PauseThreshold :: rat
  MaxCancellations :: ncounter_t
  pauseMode :: PauseMode
  InitPD :: bool
  DeadlockTimer :: ncycle_t
  Rtt_nom :: int
  Rtt_wr :: int
  Rtt_cont :: int
  Vddq :: rat
  Vssq :: rat
  RanksPerDIMM :: int

definition Params_new :: Params where
  "Params_new = \<lparr>BusWidth = 64, DeviceWidth = 8, CLK = 666, RATE = 2, CPUFreq = 2000, ROWS = 65536, COLS = 32,
     CHANNELS = 2, RANKS = 2, BANKS = 8, RAW = 4, MATHeight = 65536, RBSize = 32,
     tAL = 0, tBURST = 4, tCAS = 10, tCCD = 4, tCMD = 1, tCWD = 7, tRAW = 20, tOST = 1, tPD = 6,
     tRAS = 24, tRCD = 9, tRDB = 2, tREFW = 42666667, tRFC = 107, tRP = 9, tRRDR = 5, tRRDW = 5, tPPD = 0, tRTP = 5,
     tRTRS = 1, tWP = 0, tWR = 10, tWTR = 5, tXP = 6, tXPDLL = 17, tXS = 5, tXSDLL = 512, tRDPDEN = 24, tWRPDEN = 19, tWRAPDEN = 22,
     tWP0 = 40, tWP1 = 60,
     EIDD0 = 85, EIDD1 = 54, EIDD2P0 = 30, EIDD2P1 = 30, EIDD2N = 37, EIDD3P = 35, EIDD3N = 40, EIDD4R = 160, EIDD4W = 165, EIDD5B = 200, EIDD6 = 12,
     Eopenrd = 1081080 / 1000000, Erd = 3405401 / 1000000, Eref = 38558533 / 1000000,
     Ewr = 1023750 / 1000000, Ewrpb = (1023750 / 1000000) / 512,
     Eactstdby = 90090 / 1000000, Eprestdby = 83333 / 1000000, Epda = 0, Epdpf = 0, Epdps = 0, Voltage = 15 / 10, Ereset = 54331 / 1000000,
     Eset = 101581 / 1000000,
     EnergyModel = ''current'', UseLowPower = True, PowerDownMode = ''FASTEXIT'', RefreshRows = 4, UseRefresh = True,
     StaggerRefresh = False, UsePrecharge = True, OffChipLatency = 10, ClosePage = 1, ScheduleScheme = 1, HighWaterMark = 32,
     LowWaterMark = 16, DelayedRefreshThreshold = 1, AddressMappingScheme = ''R:SA:RK:BK:CH:C'', BanksPerRefresh = 8,
     programMode = ProgramMode_SRMS, MLCLevels = 1, WPVariance = 1, UniformWrites = True,
     WriteAllBits = True, nWP00 = 0, nWP01 = 7, nWP10 = 5, nWP11 = 1, WPMaxVariance = 2,
     WritePausing = False, PauseThreshold = 4 / 10, MaxCancellations = 4,
     pauseMode = PauseMode_Normal, InitPD = False, DeadlockTimer = 10000000,
     Rtt_nom = 30, Rtt_wr = 60, Rtt_cont = 75, Vddq = 15 / 10, Vssq = 0, RanksPerDIMM = 1\<rparr>"

end
