(* ===== verification/Endurance.thy ===== *)
theory Endurance
  imports Params Ordered_Map
begin

text \<open>
  Wear of the memory cells (\<^verbatim>\<open>src/EnduranceModel.cpp\<close> and the row, word, byte
  and bit models under \<^verbatim>\<open>Endurance/\<close>). The map \<open>life\<close> holds the remaining
  writes of each key. A new key draws its life from the configured distribution, which is a
  parameter here: a state \<open>'g\<close> of the generator and a function \<open>draw\<close> that returns
  the next endurance. The results of the models are 64-bit: \<open>- 1\<close> is the error, 0 no
  extra latency.
\<close>

record EnduranceModel =
  life :: "(uint64 \<times> uint64) list"
  granularity :: uint64

definition EnduranceModel_new :: EnduranceModel where
  "EnduranceModel_new = \<lparr>life = [], granularity = 0\<rparr>"

definition SetGranularity :: "uint64 \<Rightarrow> EnduranceModel \<Rightarrow> EnduranceModel" where
  "SetGranularity bits m = m\<lparr>granularity := bits\<rparr>"

definition GetWorstLife :: "EnduranceModel \<Rightarrow> uint64" where
  "GetWorstLife m = fold (\<lambda>(k, v) least. if v < least then v else least) (life m) (- 1)"

definition GetAverageLife :: "EnduranceModel \<Rightarrow> uint64" where
  "GetAverageLife m =
     (let total = fold (\<lambda>(k, v) t. t + v) (life m) 0
      in if length (life m) \<noteq> 0 then total div of_nat (length (life m)) else 0)"

definition DecrementLife ::
  "('g \<Rightarrow> uint64 \<times> 'g) \<Rightarrow> uint64 \<Rightarrow> EnduranceModel \<times> 'g \<Rightarrow> bool \<times> (EnduranceModel \<times> 'g)" where
  "DecrementLife draw addr s =
     (let m = fst s
      in case map_of (life m) addr of
           None \<Rightarrow> (let (v, g) = draw (snd s)
                    in (True, m\<lparr>life := om_insert addr v (life m)\<rparr>, g))
         | Some v \<Rightarrow> if v \<noteq> 0 then (True, m\<lparr>life := om_insert addr (v - 1) (life m)\<rparr>, snd s)
                     else (False, s))"

definition IsDead :: "EnduranceModel \<Rightarrow> uint64 \<Rightarrow> bool" where
  "IsDead m addr = (map_of (life m) addr = Some 0)"

subsection \<open>Row model\<close>

definition RowModel_Read :: "EnduranceModel \<Rightarrow> NVMainRequest \<Rightarrow> ncycles_t" where
  "RowModel_Read m r = (if IsDead m (row (address r)) then - (0 + 1) else 0)"

definition RowModel_Write ::
  "('g \<Rightarrow> uint64 \<times> 'g) \<Rightarrow> NVMainRequest \<Rightarrow> EnduranceModel \<times> 'g \<Rightarrow> ncycles_t \<times> (EnduranceModel \<times> 'g)" where
  "RowModel_Write draw r s =
     (let (ok, s') = DecrementLife draw (row (address r)) s in (if ok then 0 else - 1, s'))"

subsection \<open>Word model\<close>

text \<open>Bytes of one memory word and of a row.\<close>

definition wordSize_of :: "('a) Params_timing_scheme \<Rightarrow> uint64" where
  "wordSize_of p = (BusWidth p * (tBURST p * RATE p)) div 8"

definition rowSize_of :: "('a) Params_timing_scheme \<Rightarrow> uint64" where
  "rowSize_of p = COLS p * wordSize_of p"

text \<open>\<open>None\<close> is the division by zero.\<close>

definition word_key :: "('a) Params_timing_scheme \<Rightarrow> NVMAddress \<Rightarrow> uint64 option" where
  "word_key p a =
     (if wordSize_of p = 0 then None
      else Some (row a * (rowSize_of p div wordSize_of p) + col a))"

definition WordModel_Read :: "('a) Params_timing_scheme \<Rightarrow> EnduranceModel \<Rightarrow> NVMainRequest \<Rightarrow> ncycles_t option" where
  "WordModel_Read p m r = do {
     k \<leftarrow> word_key p (address r);
     Some (if IsDead m k then - (0 + 1) else 0)
   }"

definition WordModel_Write ::
  "('a) Params_timing_scheme \<Rightarrow> ('g \<Rightarrow> uint64 \<times> 'g) \<Rightarrow> NVMainRequest \<Rightarrow> EnduranceModel \<times> 'g
     \<Rightarrow> (ncycles_t \<times> (EnduranceModel \<times> 'g)) option" where
  "WordModel_Write p draw r s = do {
     k \<leftarrow> word_key p (address r);
     let (ok, s') = DecrementLife draw k s;
     Some (if ok then 0 else - 1, s')
   }"

subsection \<open>Byte model\<close>

text \<open>The loop runs from \<^verbatim>\<open>(int)wordSize - 1\<close> down to 0: the cast keeps the low
  32 bits, read as a signed number.\<close>

definition byte_indices :: "('a) Params_timing_scheme \<Rightarrow> nat list" where
  "byte_indices p = rev [0..<nat (sint (ucast (wordSize_of p) :: 32 word))]"

definition byte_key :: "('a) Params_timing_scheme \<Rightarrow> NVMAddress \<Rightarrow> nat \<Rightarrow> uint64" where
  "byte_key p a i = row a * (rowSize_of p div 8) + col a * wordSize_of p + of_nat i"

definition ByteModel_Read :: "('a) Params_timing_scheme \<Rightarrow> EnduranceModel \<Rightarrow> NVMainRequest \<Rightarrow> ncycles_t" where
  "ByteModel_Read p m r =
     (if \<exists>i \<in> set (byte_indices p). IsDead m (byte_key p (address r) i) then - (0 + 1) else 0)"

text \<open>The bytes whose stored and new value differ, in the order of a list of indices;
  \<open>None\<close> when an access leaves a buffer.\<close>

fun changed_bytes :: "nat list \<Rightarrow> NVMDataBlock \<Rightarrow> NVMDataBlock \<Rightarrow> (nat \<times> uint8 \<times> uint8) list option" where
  "changed_bytes [] old new = Some []"
| "changed_bytes (i # is) old new = do {
     oldByte \<leftarrow> GetByte old (of_nat i);
     newByte \<leftarrow> GetByte new (of_nat i);
     rest \<leftarrow> changed_bytes is old new;
     Some (if oldByte = newByte then rest else (i, oldByte, newByte) # rest)
   }"

text \<open>\<^verbatim>\<open>if( !DecrementLife( wordkey ) ) rv = -1;\<close> for a sequence of keys.\<close>

fun decrement_all ::
  "('g \<Rightarrow> uint64 \<times> 'g) \<Rightarrow> uint64 list \<Rightarrow> ncycles_t \<times> (EnduranceModel \<times> 'g)
     \<Rightarrow> ncycles_t \<times> (EnduranceModel \<times> 'g)" where
  "decrement_all draw [] (rv, s) = (rv, s)"
| "decrement_all draw (k # ks) (rv, s) =
     (let (ok, s') = DecrementLife draw k s in decrement_all draw ks (if ok then rv else - 1, s'))"

definition ByteModel_Write ::
  "('a) Params_timing_scheme \<Rightarrow> ('g \<Rightarrow> uint64 \<times> 'g) \<Rightarrow> NVMainRequest \<Rightarrow> NVMDataBlock
     \<Rightarrow> EnduranceModel \<times> 'g \<Rightarrow> (ncycles_t \<times> (EnduranceModel \<times> 'g)) option" where
  "ByteModel_Write p draw r old s = do {
     ch \<leftarrow> changed_bytes (byte_indices p) old (req_data r);
     Some (decrement_all draw (map (\<lambda>(i, _). byte_key p (address r) i) ch) (0, s))
   }"

subsection \<open>Bit model\<close>

definition bit_key :: "('a) Params_timing_scheme \<Rightarrow> NVMAddress \<Rightarrow> nat \<times> nat \<Rightarrow> uint64" where
  "bit_key p a ij = row a * (rowSize_of p * 8) + col a * wordSize_of p * 8
     + of_nat (fst ij) * 8 + of_nat (snd ij)"

definition bit_indices :: "('a) Params_timing_scheme \<Rightarrow> (nat \<times> nat) list" where
  "bit_indices p = List.product [0..<unat (wordSize_of p)] [0..<8]"

definition BitModel_Read :: "('a) Params_timing_scheme \<Rightarrow> EnduranceModel \<Rightarrow> NVMainRequest \<Rightarrow> ncycles_t" where
  "BitModel_Read p m r =
     (if \<exists>ij \<in> set (bit_indices p). IsDead m (bit_key p (address r) ij) then - (0 + 1) else 0)"

text \<open>The bits of a changed byte that differ.\<close>

definition changed_bits :: "nat \<times> uint8 \<times> uint8 \<Rightarrow> (nat \<times> nat) list" where
  "changed_bits c = (case c of (i, old, new) \<Rightarrow>
     map (Pair i) (filter (\<lambda>j. drop_bit j old AND 1 \<noteq> drop_bit j new AND 1) [0..<8]))"

definition BitModel_Write ::
  "('a) Params_timing_scheme \<Rightarrow> ('g \<Rightarrow> uint64 \<times> 'g) \<Rightarrow> NVMainRequest \<Rightarrow> NVMDataBlock
     \<Rightarrow> EnduranceModel \<times> 'g \<Rightarrow> (ncycles_t \<times> (EnduranceModel \<times> 'g)) option" where
  "BitModel_Write p draw r old s = do {
     ch \<leftarrow> changed_bytes [0..<unat (wordSize_of p)] old (req_data r);
     Some (decrement_all draw (map (bit_key p (address r)) (concat (map changed_bits ch))) (0, s))
   }"

subsection \<open>One decrement and a sequence of them\<close>

text \<open>The abstract wear state: the remaining life of every key that was ever written.\<close>

definition lives :: "EnduranceModel \<times> 'g \<Rightarrow> uint64 \<Rightarrow> uint64 option" where
  "lives s = map_of (life (fst s))"

definition wear_ok :: "EnduranceModel \<times> 'g \<Rightarrow> bool" where
  "wear_ok s = om_ok (life (fst s))"

text \<open>\<open>n\<close> writes of the same request with a model's write operation; the results in order.\<close>

primrec wr_repeat ::
  "('s \<Rightarrow> (ncycles_t \<times> 's) option) \<Rightarrow> nat \<Rightarrow> 's \<Rightarrow> (ncycles_t list \<times> 's) option" where
  "wr_repeat w 0 s = Some ([], s)"
| "wr_repeat w (Suc n) s = do {
     (rv, s1) \<leftarrow> w s;
     (rvs, s2) \<leftarrow> wr_repeat w n s1;
     Some (rv # rvs, s2)
   }"

lemma wear_ok_new [simp]: "wear_ok (EnduranceModel_new, g)"
  by (simp add: wear_ok_def EnduranceModel_new_def om_ok_def)

lemma DecrementLife_cases:
  assumes "wear_ok s" and d: "DecrementLife draw k s = (ok, s')"
  shows "wear_ok s'" and "ok \<longleftrightarrow> lives s k \<noteq> Some 0"
    and "j \<noteq> k \<Longrightarrow> lives s' j = lives s j"
    and "lives s k = Some v \<Longrightarrow> lives s' k = Some (if v = 0 then 0 else v - 1)"
    and "lives s k = None \<Longrightarrow> lives s' k = Some (fst (draw (snd s))) \<and> snd s' = snd (draw (snd s))"
  using assms
  by (auto simp: DecrementLife_def Let_def lives_def wear_ok_def map_of_om_insert om_ok_insert
      split: option.splits if_splits prod.splits)

lemma decrement_all_spec:
  assumes "wear_ok s" and "distinct ks" and "decrement_all draw ks (rv, s) = (rv', s')"
  shows "wear_ok s'" and "rv' = (if \<exists>k \<in> set ks. lives s k = Some 0 then - 1 else rv)"
    and "j \<notin> set ks \<Longrightarrow> lives s' j = lives s j"
    and "j \<in> set ks \<Longrightarrow> lives s j = Some v \<Longrightarrow> lives s' j = Some (if v = 0 then 0 else v - 1)"
    and "j \<in> set ks \<Longrightarrow> lives s' j \<noteq> None"
  using assms
proof (atomize (full), induction ks arbitrary: s rv)
  case Nil
  then show ?case by simp
next
  case (Cons k ks)
  obtain ok s1 where d: "DecrementLife draw k s = (ok, s1)"
    by (cases "DecrementLife draw k s")
  note step = DecrementLife_cases [OF Cons.prems(1) d]
  have rest: "decrement_all draw ks (if ok then rv else - 1, s1) = (rv', s')"
    using Cons.prems(3) d by simp
  have k: "lives s1 k \<noteq> None"
    using step(4,5) by (cases "lives s k") auto
  from Cons.IH [OF step(1) _ rest] Cons.prems(2) have
    ih: "wear_ok s'" "rv' = (if \<exists>j \<in> set ks. lives s1 j = Some 0 then - 1 else if ok then rv else - 1)"
    "j \<notin> set ks \<Longrightarrow> lives s' j = lives s1 j"
    "j \<in> set ks \<Longrightarrow> lives s1 j = Some v \<Longrightarrow> lives s' j = Some (if v = 0 then 0 else v - 1)"
    "j \<in> set ks \<Longrightarrow> lives s' j \<noteq> None"
    by simp_all
  have same: "lives s1 j = lives s j" if "j \<in> set ks" for j
    using that Cons.prems(2) step(3) [of j] by auto
  have "rv' = (if \<exists>j \<in> set (k # ks). lives s j = Some 0 then - 1 else rv)"
    using ih(2) same step(2) by (simp split: if_splits)
  with ih same step(3,4) k Cons.prems(2) show ?case
    by auto
qed

subsection \<open>The contract of a wear model\<close>

text \<open>A wear model maps every write to the keys it wears (\<open>touched\<close>), a subset of the
  cells a read of that address checks. Everything about lifetimes follows from this.\<close>

locale wear_model =
  fixes draw :: "'g \<Rightarrow> uint64 \<times> 'g"
    and wr :: "'r \<Rightarrow> EnduranceModel \<times> 'g \<Rightarrow> (ncycles_t \<times> (EnduranceModel \<times> 'g)) option"
    and rd :: "'r \<Rightarrow> EnduranceModel \<Rightarrow> ncycles_t option"
    and touched :: "'r \<Rightarrow> uint64 list option"
    and cells :: "'r \<Rightarrow> uint64 set"
    and valid :: "'r \<Rightarrow> bool"
  assumes wr_touched: "wr r s = map_option (\<lambda>ks. decrement_all draw ks (0, s)) (touched r)"
    and rd_cells: "valid r \<Longrightarrow> rd r m = Some (if \<exists>k \<in> cells r. IsDead m k then - 1 else 0)"
    and touched_cells: "touched r = Some ks \<Longrightarrow> valid r \<and> set ks \<subseteq> cells r \<and> distinct ks"
begin

lemma wr_Some:
  assumes "wr r s = Some (rv, s')"
  obtains ks where "touched r = Some ks" and "decrement_all draw ks (0, s) = (rv, s')" and "distinct ks"
    and "set ks \<subseteq> cells r"
  using assms touched_cells by (auto simp: wr_touched)

text \<open>A write fails exactly when it needs a dead cell.\<close>

lemma wr_fails_iff:
  assumes "wear_ok s" and "wr r s = Some (rv, s')" and "touched r = Some ks"
  shows "rv = (if \<exists>k \<in> set ks. IsDead (fst s) k then - 1 else 0)"
  using assms decrement_all_spec(2) [OF assms(1), of ks draw 0 rv s'] touched_cells [OF assms(3)]
  by (auto simp: wr_touched IsDead_def lives_def)

text \<open>A write is invisible at an address with other cells.\<close>

lemma wr_isolated:
  assumes s: "wear_ok s" and w: "wr r s = Some (rv, s')" and dis: "cells r \<inter> cells r' = {}"
    and r': "valid r'"
  shows "rd r' (fst s') = rd r' (fst s)" and "k \<in> cells r' \<Longrightarrow> lives s' k = lives s k"
proof -
  obtain ks where ks: "decrement_all draw ks (0, s) = (rv, s')" "distinct ks" "set ks \<subseteq> cells r"
    using wr_Some [OF w] by metis
  have same: "lives s' k = lives s k" if "k \<in> cells r'" for k
    using decrement_all_spec(3) [OF s ks(2,1), of k] ks(3) dis that by auto
  then have "IsDead (fst s') k = IsDead (fst s) k" if "k \<in> cells r'" for k
    using that by (simp add: IsDead_def lives_def)
  then show "rd r' (fst s') = rd r' (fst s)"
    by (auto simp: rd_cells [OF r'])
  show "k \<in> cells r' \<Longrightarrow> lives s' k = lives s k"
    by (rule same)
qed

lemma wr_repeat_wears:
  assumes "wear_ok s" and "touched r = Some ks" and "k \<in> set ks" and "lives s k = Some v"
  shows "\<exists>rvs s'. wr_repeat (wr r) n s = Some (rvs, s') \<and> wear_ok s' \<and> length rvs = n
    \<and> lives s' k = Some (of_nat (unat v - n))"
  using assms
proof (induction n arbitrary: s v)
  case 0
  then show ?case by (simp add: word_of_nat_unat)
next
  case (Suc n)
  obtain rv s1 where d: "decrement_all draw ks (0, s) = (rv, s1)"
    by (cases "decrement_all draw ks (0, s)")
  have ks: "distinct ks"
    using touched_cells Suc.prems(2) by blast
  note spec = decrement_all_spec [OF Suc.prems(1) ks d]
  let ?v = "if v = 0 then 0 else v - 1"
  have "lives s1 k = Some ?v"
    using spec(4) Suc.prems(3,4) by simp
  from Suc.IH [OF spec(1) Suc.prems(2,3) this] obtain rvs s'
    where r: "wr_repeat (wr r) n s1 = Some (rvs, s')" "wear_ok s'" "length rvs = n"
      "lives s' k = Some (of_nat (unat ?v - n))"
    by blast
  have "unat ?v - n = unat v - Suc n"
    by (simp add: unat_minus_one)
  moreover have "wr r s = Some (rv, s1)"
    using d Suc.prems(2) by (simp add: wr_touched)
  ultimately show ?case
    using r by simp
qed

text \<open>A request that wears a single cell: a cell written for the first time draws its
  endurance \<open>e\<close> and then serves \<open>e\<close> more writes.\<close>

lemma single_cell_results:
  assumes "wear_ok s" and "touched r = Some [k]" and "lives s k = Some v"
  shows "\<exists>s'. wr_repeat (wr r) n s = Some (map (\<lambda>i. if i < unat v then 0 else - 1) [0..<n], s')
    \<and> wear_ok s' \<and> lives s' k = Some (of_nat (unat v - n))"
  using assms
proof (induction n arbitrary: s v)
  case 0
  then show ?case by (simp add: word_of_nat_unat)
next
  case (Suc n)
  obtain rv s1 where d: "decrement_all draw [k] (0, s) = (rv, s1)"
    by (cases "decrement_all draw [k] (0, s)")
  have dk: "distinct [k]" by simp
  note spec = decrement_all_spec [OF Suc.prems(1) dk d]
  let ?v = "if v = 0 then 0 else v - 1"
  have w: "wr r s = Some (rv, s1)" and rv: "rv = (if 0 < unat v then 0 else - 1)"
    using d Suc.prems spec(2) by (simp_all add: wr_touched unat_gt_0)
  have v: "unat ?v = unat v - 1"
    by (simp add: unat_minus_one)
  have "lives s1 k = Some ?v"
    using spec(4) [of k v] Suc.prems(3) by simp
  from Suc.IH [OF spec(1) Suc.prems(2) this] obtain s' where
    r: "wr_repeat (wr r) n s1 = Some (map (\<lambda>i. if i < unat ?v then 0 else - 1) [0..<n], s')"
    "wear_ok s'" "lives s' k = Some (of_nat (unat ?v - n))"
    by blast
  have "map (\<lambda>i. if i < unat v then 0 else - 1) [0..<Suc n]
      = rv # map (\<lambda>i. if i < unat ?v then 0 else (- 1 :: ncycles_t)) [0..<n]"
    unfolding v rv map_upt_Suc by auto
  with w r v show ?case
    by simp
qed

lemma single_cell_worn:
  assumes s: "wear_ok s" and k: "touched r = Some [k]" "cells r = {k}" and v: "lives s k = Some v"
  shows "\<exists>s'. wr_repeat (wr r) n s = Some (map (\<lambda>i. if i < unat v then 0 else - 1) [0..<n], s')
    \<and> lives s' k = Some (of_nat (unat v - n)) \<and> rd r (fst s') = Some (if unat v \<le> n then - 1 else 0)"
proof -
  obtain s' where r: "wr_repeat (wr r) n s = Some (map (\<lambda>i. if i < unat v then 0 else - 1) [0..<n], s')"
    "lives s' k = Some (of_nat (unat v - n))"
    using single_cell_results [OF s k(1) v] by blast
  have "(of_nat (unat v - n) :: uint64) = 0 \<longleftrightarrow> unat v \<le> n"
    using unat_uint64_lt [of v] of_nat_inj_64 [of "unat v - n" 0] by auto
  then have "rd r (fst s') = Some (if unat v \<le> n then - 1 else 0)"
    using rd_cells [of r] touched_cells [OF k(1)] k(2) r(2) by (auto simp: IsDead_def lives_def)
  with r show ?thesis by blast
qed

lemma single_cell_lifetime:
  assumes s: "wear_ok s" and k: "touched r = Some [k]" "cells r = {k}" and new: "lives s k = None"
    and e: "fst (draw (snd s)) = e"
  shows "\<exists>s'. wr_repeat (wr r) n s = Some (map (\<lambda>i. if i \<le> unat e then 0 else - 1) [0..<n], s')
    \<and> (0 < n \<longrightarrow> rd r (fst s') = Some (if unat e < n then - 1 else 0))"
proof (cases n)
  case (Suc m)
  obtain rv s1 where d: "decrement_all draw [k] (0, s) = (rv, s1)"
    by (cases "decrement_all draw [k] (0, s)")
  have d': "DecrementLife draw k s = (True, s1)" "rv = 0"
    using d DecrementLife_cases(2) [OF s, of draw k] new by (auto split: prod.splits if_splits)
  have w: "wr r s = Some (0, s1)"
    using d d'(2) k(1) by (simp add: wr_touched)
  have "wear_ok s1" "lives s1 k = Some e"
    using DecrementLife_cases(1,5) [OF s d'(1)] new e by auto
  from single_cell_results [OF this(1) k(1) this(2), of m] obtain s' where
    r: "wr_repeat (wr r) m s1 = Some (map (\<lambda>i. if i < unat e then 0 else - 1) [0..<m], s')"
    "lives s' k = Some (of_nat (unat e - m))"
    by blast
  have "(of_nat (unat e - m) :: uint64) = 0 \<longleftrightarrow> unat e \<le> m"
    using unat_uint64_lt [of e] of_nat_inj_64 [of "unat e - m" 0] by auto
  then have "rd r (fst s') = Some (if unat e < n then - 1 else 0)"
    using rd_cells [of r] touched_cells [OF k(1)] k(2) r(2) Suc by (auto simp: IsDead_def lives_def)
  moreover have "map (\<lambda>i. if i \<le> unat e then 0 else - 1) [0..<n]
      = 0 # map (\<lambda>i. if i < unat e then 0 else (- 1 :: ncycles_t)) [0..<m]"
    unfolding Suc map_upt_Suc by auto
  ultimately show ?thesis
    using w r(1) Suc by simp
qed simp

end

subsection \<open>The four models honour the contract\<close>

type_synonym wear_request = "NVMainRequest \<times> NVMDataBlock"

definition bit_touched :: "('a) Params_timing_scheme \<Rightarrow> wear_request \<Rightarrow> uint64 list option" where
  "bit_touched p r = map_option (\<lambda>ch. map (bit_key p (address (fst r))) (concat (map changed_bits ch)))
     (changed_bytes [0..<unat (wordSize_of p)] (snd r) (req_data (fst r)))"

definition byte_touched :: "('a) Params_timing_scheme \<Rightarrow> wear_request \<Rightarrow> uint64 list option" where
  "byte_touched p r = map_option (\<lambda>ch. map (\<lambda>(i, _). byte_key p (address (fst r)) i) ch)
     (changed_bytes (byte_indices p) (snd r) (req_data (fst r)))"

definition bit_cells :: "('a) Params_timing_scheme \<Rightarrow> NVMAddress \<Rightarrow> uint64 set" where
  "bit_cells p a = bit_key p a ` set (bit_indices p)"

definition byte_cells :: "('a) Params_timing_scheme \<Rightarrow> NVMAddress \<Rightarrow> uint64 set" where
  "byte_cells p a = byte_key p a ` set (byte_indices p)"

lemma changed_bytes_indices:
  "changed_bytes is old new = Some ch \<Longrightarrow> distinct is \<Longrightarrow>
     distinct (map fst ch) \<and> fst ` set ch \<subseteq> set is"
proof (induction "is" arbitrary: ch)
  case (Cons i "is")
  then obtain ob nb rest where "changed_bytes is old new = Some rest"
    "ch = (if ob = nb then rest else (i, ob, nb) # rest)"
    by (auto simp: bind_eq_Some_conv)
  with Cons show ?case by auto
qed simp

lemma wordSize_bound: "unat (wordSize_of p) < 2 ^ 61"
proof -
  have "unat (wordSize_of p) = unat (BusWidth p * (tBURST p * RATE p)) div 8"
    by (simp add: wordSize_of_def unat_div_distrib)
  then show ?thesis
    using unat_uint64_lt [of "BusWidth p * (tBURST p * RATE p)"] by (simp add: less_mult_imp_div_less)
qed

lemma bit_key_offset:
  "bit_key p a (i, j) = row a * (rowSize_of p * 8) + col a * wordSize_of p * 8 + of_nat (8 * i + j)"
  by (simp add: bit_key_def algebra_simps)

lemma bit_key_inj: "inj_on (bit_key p a) (set (bit_indices p))"
proof (rule inj_onI, clarsimp simp: bit_indices_def bit_key_offset simp del: of_nat_add of_nat_mult)
  fix i j i' j'
  assume b: "i < unat (wordSize_of p)" "j < 8" "i' < unat (wordSize_of p)" "j' < 8"
    and eq: "(of_nat (8 * i + j) :: uint64) = of_nat (8 * i' + j')"
  have "8 * i + j < 2 ^ 64" "8 * i' + j' < 2 ^ 64"
    using b wordSize_bound [of p] by simp_all
  from of_nat_inj_64 [OF eq this] have "8 * i + j = 8 * i' + j'" .
  with b(2,4) show "i = i' \<and> j = j'"
    by presburger
qed

lemma byte_key_inj: "inj_on (byte_key p a) (set (byte_indices p))"
proof (rule inj_onI)
  fix i i' assume "i \<in> set (byte_indices p)" "i' \<in> set (byte_indices p)"
    and eq: "byte_key p a i = byte_key p a i'"
  moreover have "nat (sint (ucast (wordSize_of p) :: 32 word)) < 2 ^ 64"
    using sint_lt [of "ucast (wordSize_of p) :: 32 word"] by simp
  ultimately have "i < 2 ^ 64" "i' < 2 ^ 64"
    by (auto simp: byte_indices_def)
  moreover have "(of_nat i :: uint64) = of_nat i'"
    using eq by (simp add: byte_key_def)
  ultimately show "i = i'"
    by (intro of_nat_inj_64)
qed

lemma changed_bits_range: "distinct (changed_bits c)" "set (changed_bits c) \<subseteq> {fst c} \<times> {0..<8}"
  by (auto simp: changed_bits_def distinct_map inj_on_def split: prod.splits)

lemma changed_bits_concat:
  "distinct (map fst ch) \<Longrightarrow> fst ` set ch \<subseteq> {0..<n} \<Longrightarrow>
     distinct (concat (map changed_bits ch))
     \<and> set (concat (map changed_bits ch)) \<subseteq> set (List.product [0..<n] [0..<8])"
proof (induction ch)
  case (Cons c ch)
  have "x \<notin> set (changed_bits c')" if "x \<in> set (changed_bits c)" "c' \<in> set ch" for x c'
    using that changed_bits_range(2) [of c] changed_bits_range(2) [of c'] Cons.prems(1) by fastforce
  then have "set (changed_bits c) \<inter> set (concat (map changed_bits ch)) = {}"
    by auto
  with Cons changed_bits_range [of c] show ?case
    by auto
qed simp

interpretation row_wear: wear_model draw "\<lambda>r s. Some (RowModel_Write draw (fst r) s)"
  "\<lambda>r m. Some (RowModel_Read m (fst r))" "\<lambda>r. Some [row (address (fst r))]" "\<lambda>r. {row (address (fst r))}" "\<lambda>r. True"
  for draw :: "'g \<Rightarrow> uint64 \<times> 'g"
  by unfold_locales
    (auto simp: RowModel_Write_def RowModel_Read_def split: prod.splits)

interpretation word_wear: wear_model draw "\<lambda>r. WordModel_Write p draw (fst r)"
  "\<lambda>r m. WordModel_Read p m (fst r)" "\<lambda>r. map_option (\<lambda>k. [k]) (word_key p (address (fst r)))"
  "\<lambda>r. set_option (word_key p (address (fst r)))" "\<lambda>r. wordSize_of p \<noteq> 0"
  for draw :: "'g \<Rightarrow> uint64 \<times> 'g" and p :: "('a) Params_timing_scheme"
  by unfold_locales
    (auto simp: WordModel_Write_def WordModel_Read_def word_key_def bind_eq_Some_conv fun_eq_iff
      split: prod.splits option.splits bind_splits)

interpretation byte_wear: wear_model draw "\<lambda>r. ByteModel_Write p draw (fst r) (snd r)"
  "\<lambda>r m. Some (ByteModel_Read p m (fst r))" "byte_touched p" "\<lambda>r. byte_cells p (address (fst r))"
  "\<lambda>r. True"
  for draw :: "'g \<Rightarrow> uint64 \<times> 'g" and p :: "('a) Params_timing_scheme"
proof (unfold_locales, goal_cases)
  case (1 r s)
  show ?case
    by (cases "changed_bytes (byte_indices p) (snd r) (req_data (fst r))")
      (simp_all add: ByteModel_Write_def byte_touched_def)
next
  case (2 r m)
  show ?case
    by (simp add: ByteModel_Read_def byte_cells_def)
next
  case (3 r ks)
  then obtain ch where ch: "changed_bytes (byte_indices p) (snd r) (req_data (fst r)) = Some ch"
    and ks: "ks = map (byte_key p (address (fst r))) (map fst ch)"
    by (auto simp: byte_touched_def split_def comp_def)
  have "distinct (byte_indices p)"
    by (simp add: byte_indices_def)
  from changed_bytes_indices [OF ch this]
  have "distinct (map fst ch)" "set (map fst ch) \<subseteq> set (byte_indices p)"
    by simp_all
  from distinct_map_subset [OF byte_key_inj this(2,1)] show ?case
    unfolding ks byte_cells_def by blast
qed

interpretation bit_wear: wear_model draw "\<lambda>r. BitModel_Write p draw (fst r) (snd r)"
  "\<lambda>r m. Some (BitModel_Read p m (fst r))" "bit_touched p" "\<lambda>r. bit_cells p (address (fst r))"
  "\<lambda>r. True"
  for draw :: "'g \<Rightarrow> uint64 \<times> 'g" and p :: "('a) Params_timing_scheme"
proof (unfold_locales, goal_cases)
  case (1 r s)
  show ?case
    by (cases "changed_bytes [0..<unat (wordSize_of p)] (snd r) (req_data (fst r))")
      (simp_all add: BitModel_Write_def bit_touched_def)
next
  case (2 r m)
  show ?case
    by (simp add: BitModel_Read_def bit_cells_def)
next
  case (3 r ks)
  then obtain ch where ch: "changed_bytes [0..<unat (wordSize_of p)] (snd r) (req_data (fst r)) = Some ch"
    and ks: "ks = map (bit_key p (address (fst r))) (concat (map changed_bits ch))"
    by (auto simp: bit_touched_def)
  note idx = changed_bytes_indices [OF ch distinct_upt]
  have "distinct (concat (map changed_bits ch))" "set (concat (map changed_bits ch)) \<subseteq> set (bit_indices p)"
    using changed_bits_concat [of ch "unat (wordSize_of p)"] idx by (simp_all add: bit_indices_def)
  from distinct_map_subset [OF bit_key_inj this(2,1)] show ?case
    unfolding ks bit_cells_def by blast
qed

subsection \<open>Keys of different addresses\<close>

text \<open>An address whose column exists and whose row fits into the 64-bit key space.\<close>

definition in_memory :: "('a) Params_timing_scheme \<Rightarrow> NVMAddress \<Rightarrow> bool" where
  "in_memory p a \<longleftrightarrow> unat (col a) < unat (COLS p)
     \<and> (unat (row a) + 1) * (unat (COLS p) * (8 * unat (wordSize_of p))) \<le> 2 ^ 64"

abbreviation line_of :: "('a) Params_timing_scheme \<Rightarrow> NVMAddress \<Rightarrow> nat" where
  "line_of p a \<equiv> unat (row a) * unat (COLS p) + unat (col a)"

lemma line_of_bound:
  assumes "in_memory p a"
  shows "(line_of p a + 1) * (8 * unat (wordSize_of p)) \<le> 2 ^ 64"
proof -
  have "line_of p a + 1 \<le> (unat (row a) + 1) * unat (COLS p)"
    using assms by (simp add: in_memory_def)
  then have "(line_of p a + 1) * (8 * unat (wordSize_of p))
      \<le> (unat (row a) + 1) * unat (COLS p) * (8 * unat (wordSize_of p))"
    by (rule mult_le_mono1)
  also have "\<dots> = (unat (row a) + 1) * (unat (COLS p) * (8 * unat (wordSize_of p)))"
    by (rule mult.assoc)
  also have "\<dots> \<le> 2 ^ 64"
    using assms unfolding in_memory_def by blast
  finally show ?thesis .
qed

lemma line_of_inj:
  assumes "in_memory p a" and "in_memory p a'" and "line_of p a = line_of p a'"
  shows "row a = row a' \<and> col a = col a'"
proof -
  have "unat (col a) < unat (COLS p)" "unat (col a') < unat (COLS p)"
    using assms(1,2) by (auto simp: in_memory_def)
  from mixed_radix_inj [OF assms(3) this] have "unat (row a) = unat (row a')" "unat (col a) = unat (col a')"
    by blast+
  then show ?thesis
    by (simp add: unsigned_word_eqI)
qed

lemma bit_key_nat:
  "bit_key p a (i, j) = of_nat (line_of p a * (8 * unat (wordSize_of p)) + (8 * i + j))"
  by (simp add: bit_key_def rowSize_of_def word_of_nat_unat algebra_simps)

lemma bit_cells_disjoint:
  assumes a: "in_memory p a" "in_memory p a'" and ne: "(row a, col a) \<noteq> (row a', col a')"
  shows "bit_cells p a \<inter> bit_cells p a' = {}"
proof -
  let ?w = "8 * unat (wordSize_of p)"
  have False if k: "k \<in> bit_cells p a" "k \<in> bit_cells p a'" for k
  proof -
    obtain i j i' j' where b: "i < unat (wordSize_of p)" "j < 8" "i' < unat (wordSize_of p)" "j' < 8"
      and k: "k = bit_key p a (i, j)" "k = bit_key p a' (i', j')"
      using k by (auto simp: bit_cells_def bit_indices_def)
    have off: "8 * i + j < ?w" "8 * i' + j' < ?w"
      using b by linarith+
    have "line_of p a * ?w + (8 * i + j) < 2 ^ 64" "line_of p a' * ?w + (8 * i' + j') < 2 ^ 64"
      using line_of_bound [OF a(1)] line_of_bound [OF a(2)] off unfolding add_mult_distrib by linarith+
    then have "line_of p a * ?w + (8 * i + j) = line_of p a' * ?w + (8 * i' + j')"
      using k unfolding bit_key_nat by (intro of_nat_inj_64) (simp_all del: of_nat_add of_nat_mult)
    from mixed_radix_inj [OF this off] have "line_of p a = line_of p a'"
      by blast
    with line_of_inj [OF a] ne show False by simp
  qed
  then show ?thesis by blast
qed

lemma set_changed_bytes:
  "changed_bytes is old new = Some ch \<Longrightarrow> (i, ob, nb) \<in> set ch \<longleftrightarrow>
     i \<in> set is \<and> GetByte old (of_nat i) = Some ob \<and> GetByte new (of_nat i) = Some nb \<and> ob \<noteq> nb"
  by (induction "is" arbitrary: ch) (auto simp: bind_eq_Some_conv split: if_splits)

lemma changed_bits_iff:
  "(i', j) \<in> set (changed_bits (i, ob, nb)) \<longleftrightarrow> i' = i \<and> j < 8 \<and> bit ob j \<noteq> bit nb j"
  by (auto simp: changed_bits_def and_one_eq mod_2_eq_odd bit_iff_odd_drop_bit image_iff)

lemma bit_touched_iff:
  assumes t: "bit_touched p (r, old) = Some ks" and ij: "i < unat (wordSize_of p)" "j < 8"
    and g: "GetByte old (of_nat i) = Some ob" "GetByte (req_data r) (of_nat i) = Some nb"
  shows "bit_key p (address r) (i, j) \<in> set ks \<longleftrightarrow> bit ob j \<noteq> bit nb j"
proof -
  obtain ch where ch: "changed_bytes [0..<unat (wordSize_of p)] old (req_data r) = Some ch"
    and ks: "ks = map (bit_key p (address r)) (concat (map changed_bits ch))"
    using t by (auto simp: bit_touched_def)
  have "set (concat (map changed_bits ch)) \<subseteq> set (bit_indices p)"
    using changed_bits_concat [of ch] changed_bytes_indices [OF ch] by (simp add: bit_indices_def)
  then have "bit_key p (address r) (i, j) \<in> set ks \<longleftrightarrow> (i, j) \<in> set (concat (map changed_bits ch))"
    using bit_key_inj [of p "address r"] ij unfolding ks set_map
    by (subst inj_on_image_mem_iff) (auto simp: bit_indices_def)
  also have "\<dots> \<longleftrightarrow> (\<exists>ob nb. (i, ob, nb) \<in> set ch \<and> bit ob j \<noteq> bit nb j)"
    using ij(2) by (auto simp: changed_bits_iff Bex_def)
  also have "\<dots> \<longleftrightarrow> bit ob j \<noteq> bit nb j"
    using set_changed_bytes [OF ch] g ij(1) by auto
  finally show ?thesis .
qed

subsection \<open>Properties of the endurance models\<close>

text \<open>C19: In the bit model, a write takes one unit of life from exactly those bits of the
  addressed word whose stored and new value differ, leaves a dead bit at 0, and reports the
  error exactly when a bit it has to change is already dead.\<close>

theorem bit_model_wear:
  assumes s: "wear_ok s" and w: "BitModel_Write p draw r old s = Some (rv, s')"
    and ij: "i < unat (wordSize_of p)" "j < 8"
    and g: "GetByte old (of_nat i) = Some ob" "GetByte (req_data r) (of_nat i) = Some nb"
    and v: "lives s (bit_key p (address r) (i, j)) = Some v"
  shows "lives s' (bit_key p (address r) (i, j)) =
      Some (if bit ob j \<noteq> bit nb j \<and> v \<noteq> 0 then v - 1 else v)
    \<and> (rv = - 1 \<longleftrightarrow> (\<exists>k \<in> set (the (bit_touched p (r, old))). IsDead (fst s) k))"
proof -
  obtain ks where ks: "bit_touched p (r, old) = Some ks" "decrement_all draw ks (0, s) = (rv, s')" "distinct ks"
    using bit_wear.wr_Some [of p draw "(r, old)" s rv s'] w by auto
  note spec = decrement_all_spec [OF s ks(3,2)]
  have "rv = - 1 \<longleftrightarrow> (\<exists>k \<in> set ks. IsDead (fst s) k)"
    using bit_wear.wr_fails_iff [OF s, of p draw "(r, old)" rv s' ks] w ks(1) by auto
  then show ?thesis
    using spec(3,4) v bit_touched_iff [OF ks(1) ij g] ks(1) by auto
qed

theorem bit_model_wear_witness:
  "\<exists>s'. BitModel_Write (Params_new\<lparr>BusWidth := 8, tBURST := 1, RATE := 1\<rparr>) (\<lambda>g. (100, g))
        (NVMainRequest_new\<lparr>req_data := \<lparr>rawData = Some [5], isValid = True, block_size = 1\<rparr>\<rparr>)
        \<lparr>rawData = Some [4], isValid = True, block_size = 1\<rparr>
        (\<lparr>life = [(0, 7)], granularity = 1\<rparr>, ()) = Some (0, s') \<and> lives s' 0 = Some 6"
proof -
  let ?p = "Params_new\<lparr>BusWidth := 8, tBURST := 1, RATE := 1\<rparr>"
  let ?r = "NVMainRequest_new\<lparr>req_data := \<lparr>rawData = Some [5], isValid = True, block_size = 1\<rparr>\<rparr>"
  let ?old = "\<lparr>rawData = Some [4 :: uint8], isValid = True, block_size = 1\<rparr>"
  let ?s = "(\<lparr>life = [(0, 7)], granularity = 1\<rparr>, ())"
  have ws: "wordSize_of ?p = 1"
    by (simp add: wordSize_of_def Params_new_def)
  have upt8: "[0..<8] = [0, 1, 2, 3, 4, 5, 6, 7]"
    by (simp add: upt_rec)
  obtain s' where w: "BitModel_Write ?p (\<lambda>g. (100, g)) ?r ?old ?s = Some (0, s')"
    by (simp add: BitModel_Write_def ws GetByte_def changed_bits_def upt8 drop_bit_eq_div and_one_eq
        bit_key_def NVMainRequest_new_def NVMAddress_new_def DecrementLife_def)
  have ok: "wear_ok ?s"
    by (simp add: wear_ok_def om_ok_def)
  have key: "bit_key ?p (address NVMainRequest_new) (0, 0) = 0"
    by (simp add: bit_key_def NVMainRequest_new_def NVMAddress_new_def)
  have "lives s' 0 = Some (if bit (4 :: uint8) 0 \<noteq> bit (5 :: uint8) 0 \<and> (7 :: uint64) \<noteq> 0 then 7 - 1 else 7)"
    using bit_model_wear [OF ok w, of 0 0 4 5 7] by (simp add: ws GetByte_def key lives_def)
  then show ?thesis
    using w by simp
qed

text \<open>C20: In the bit model, writes to one row and column never change the lives of the bits,
  or the outcome of a read, at another row and column of the memory.\<close>

theorem bit_model_isolation:
  assumes "wear_ok s" and "BitModel_Write p draw r old s = Some (rv, s')"
    and "in_memory p (address r)" and "in_memory p (address r')"
    and "(row (address r), col (address r)) \<noteq> (row (address r'), col (address r'))"
  shows "BitModel_Read p (fst s') r' = BitModel_Read p (fst s) r'
    \<and> (\<forall>ij \<in> set (bit_indices p). lives s' (bit_key p (address r') ij) = lives s (bit_key p (address r') ij))"
  using bit_wear.wr_isolated [OF assms(1), of p draw "(r, old)" rv s' "(r', old)"] assms(2)
    bit_cells_disjoint [OF assms(3-5)] by (simp add: bit_cells_def)

theorem bit_model_isolation_witness:
  "BitModel_Read (Params_new\<lparr>BusWidth := 8, tBURST := 1, RATE := 1\<rparr>)
     (fst (snd (the (BitModel_Write (Params_new\<lparr>BusWidth := 8, tBURST := 1, RATE := 1\<rparr>) (\<lambda>g. (0, g))
        (NVMainRequest_new\<lparr>req_data := \<lparr>rawData = Some [5], isValid = True, block_size = 1\<rparr>\<rparr>)
        NVMDataBlock_new (EnduranceModel_new, ())))))
     (NVMainRequest_new\<lparr>address := NVMAddress_new\<lparr>col := 1\<rparr>\<rparr>) = 0"
proof -
  let ?p = "Params_new\<lparr>BusWidth := 8, tBURST := 1, RATE := 1\<rparr>"
  let ?r = "NVMainRequest_new\<lparr>req_data := \<lparr>rawData = Some [5 :: uint8], isValid = True, block_size = 1\<rparr>\<rparr>"
  let ?r' = "NVMainRequest_new\<lparr>address := NVMAddress_new\<lparr>col := 1\<rparr>\<rparr>"
  have ws: "wordSize_of ?p = 1"
    by (simp add: wordSize_of_def Params_new_def)
  have c: "COLS ?p = 32"
    by (simp add: Params_new_def)
  have "BitModel_Write ?p (\<lambda>g. (0, g)) ?r NVMDataBlock_new (EnduranceModel_new, ()) \<noteq> None"
    by (simp add: BitModel_Write_def ws GetByte_def NVMDataBlock_new_def)
  then obtain rv s' where w: "BitModel_Write ?p (\<lambda>g. (0, g)) ?r NVMDataBlock_new (EnduranceModel_new, ()) = Some (rv, s')"
    by auto
  have m: "in_memory ?p (address ?r)" "in_memory ?p (address ?r')"
    by (simp_all add: in_memory_def ws c NVMainRequest_new_def NVMAddress_new_def)
  have ne: "(row (address ?r), col (address ?r)) \<noteq> (row (address ?r'), col (address ?r'))"
    by (simp add: NVMainRequest_new_def NVMAddress_new_def)
  have "BitModel_Read ?p EnduranceModel_new ?r' = 0"
    by (simp add: BitModel_Read_def IsDead_def EnduranceModel_new_def)
  with bit_model_isolation [OF wear_ok_new w m ne] w show ?thesis
    by simp
qed

text \<open>C21: In the word model, a word that has been written before and has \<open>v\<close> lives left takes
  exactly \<open>v\<close> more writes: they succeed, every later one reports the error, and a read of the
  word reports the error from the write that uses the last life on, not before.\<close>

theorem word_model_lifetime:
  assumes "wear_ok s" and "word_key p (address r) = Some k" and "lives s k = Some v"
  shows "\<exists>s'. wr_repeat (WordModel_Write p draw r) n s = Some (map (\<lambda>i. if i < unat v then 0 else - 1) [0..<n], s')
    \<and> lives s' k = Some (of_nat (unat v - n)) \<and> WordModel_Read p (fst s') r = Some (if unat v \<le> n then - 1 else 0)"
  using word_wear.single_cell_worn [OF assms(1), of p "(r, NVMDataBlock_new)" k v draw n] assms
  by simp

theorem word_model_lifetime_witness:
  "\<exists>s'. wr_repeat (WordModel_Write Params_new (\<lambda>g. (2, g)) NVMainRequest_new) 3
      (snd (DecrementLife (\<lambda>g. (2, g)) 0 (EnduranceModel_new, ()))) = Some ([0, 0, - 1], s')
    \<and> WordModel_Read Params_new (fst s') NVMainRequest_new = Some (- 1)"
proof -
  let ?s = "snd (DecrementLife (\<lambda>g. (2 :: uint64, g)) 0 (EnduranceModel_new, ()))"
  have k: "word_key Params_new (address NVMainRequest_new) = Some 0"
    by (simp add: word_key_def wordSize_of_def rowSize_of_def Params_new_def NVMainRequest_new_def NVMAddress_new_def)
  obtain ok s1 where d: "DecrementLife (\<lambda>g. (2 :: uint64, g)) 0 (EnduranceModel_new, ()) = (ok, s1)"
    by (cases "DecrementLife (\<lambda>g. (2 :: uint64, g)) 0 (EnduranceModel_new, ())")
  have new: "lives (EnduranceModel_new, ()) 0 = None"
    by (simp add: lives_def EnduranceModel_new_def)
  have s1: "wear_ok s1" "lives s1 0 = Some 2"
    using DecrementLife_cases(1,5) [OF wear_ok_new d] new by auto
  have upt3: "[0..<3] = [0, 1, 2 :: nat]"
    by (simp add: upt_rec)
  show ?thesis
    using word_model_lifetime [OF s1(1) k s1(2), of "\<lambda>g. (2, g)" 3] by (auto simp: upt3 d)
qed

text \<open>The first write only draws the endurance \<open>e\<close> of the word: it takes no life, so that a new
  word takes \<open>e + 1\<close> writes.\<close>

lemma word_model_first_write_free:
  assumes "wear_ok s" and "word_key p (address r) = Some k" and "lives s k = None"
    and "fst (draw (snd s)) = e" and "0 < n"
  shows "\<exists>s'. wr_repeat (WordModel_Write p draw r) n s = Some (map (\<lambda>i. if i \<le> unat e then 0 else - 1) [0..<n], s')
    \<and> WordModel_Read p (fst s') r = Some (if unat e < n then - 1 else 0)"
  using word_wear.single_cell_lifetime [OF assms(1), of p "(r, NVMDataBlock_new)" k draw e n] assms
  by simp

subsection \<open>Keys of the byte model\<close>

text \<open>The byte model multiplies the row by an eighth of the row size, which is already in
  bytes: with the default parameters byte 0 of column 4 in row 0 and byte 0 of column 0 in
  row 1 share a key, so wearing out the one kills the other.\<close>

lemma byte_model_keys_collide:
  "in_memory Params_new (NVMAddress_new\<lparr>col := 4\<rparr>)" "in_memory Params_new (NVMAddress_new\<lparr>row := 1\<rparr>)"
  "byte_key Params_new (NVMAddress_new\<lparr>col := 4\<rparr>) 0 = byte_key Params_new (NVMAddress_new\<lparr>row := 1\<rparr>) 0"
  by (simp_all add: in_memory_def byte_key_def wordSize_of_def rowSize_of_def Params_new_def NVMAddress_new_def)

end
