(* ===== verification/Flip_N_Write.thy ===== *)
theory Flip_N_Write
  imports Endurance
begin

text \<open>
  The Flip-N-Write data encoder (\<^verbatim>\<open>DataEncoders/FlipNWrite/FlipNWrite.cpp\<close>): a
  word is cut into partitions of \<open>fpSize\<close> bits, and a partition in which more than half of
  the bits would change is stored inverted and remembered in \<open>flippedAddresses\<close>.

  \<open>None\<close> stands for a division by a zero granularity, a signed overflow of the bit index,
  an access outside a data buffer, or an index outside the array \<^verbatim>\<open>modifyCount\<close>.
  Conversions follow C++: \<^verbatim>\<open>(int)\<close> of a 64-bit value keeps the low 32 bits read as
  a signed number, an \<^verbatim>\<open>int\<close> operand of 64-bit arithmetic is sign-extended.
\<close>

record FlipNWrite =
  flippedAddresses :: "uint64 set"
  bitsFlipped :: uint64
  bitCompareSwapWrites :: uint64
  flipNWriteReduction :: rat
  fpSize :: int

definition FlipNWrite_new :: "int \<Rightarrow> FlipNWrite" where
  "FlipNWrite_new granularityValue = \<lparr>flippedAddresses = {}, bitsFlipped = 0, bitCompareSwapWrites = 0,
     flipNWriteReduction = 0, fpSize = (if granularityValue = - 1 then 32 else granularityValue)\<rparr>"

definition to_int :: "uint64 \<Rightarrow> int" where
  "to_int w = sint (ucast w :: 32 word)"

text \<open>The inner loop of \<^verbatim>\<open>InvertData\<close> over the bits of byte \<open>i\<close>.\<close>

fun invert_bits :: "uint64 \<Rightarrow> uint64 \<Rightarrow> int \<Rightarrow> nat list \<Rightarrow> uint8 \<times> uint8 \<Rightarrow> uint8 \<times> uint8" where
  "invert_bits startBit endBit i [] (shiftByte, newByte) = (shiftByte, newByte)"
| "invert_bits startBit endBit i (j # js) (shiftByte, newByte) =
     (let currentBit = of_int (i * 8 + int j)
      in if currentBit < startBit \<or> currentBit \<ge> endBit
         then invert_bits startBit endBit i js (drop_bit 1 shiftByte, newByte)
         else invert_bits startBit endBit i js
                (drop_bit 1 shiftByte,
                 if shiftByte AND 1 = 0 then newByte OR push_bit (7 - j) 1 else newByte))"

definition invert_byte :: "uint64 \<Rightarrow> uint64 \<Rightarrow> int \<Rightarrow> uint8 \<Rightarrow> uint8" where
  "invert_byte startBit endBit i originalByte = snd (invert_bits startBit endBit i [0..<8] (originalByte, 0))"

fun invert_loop :: "uint64 \<Rightarrow> uint64 \<Rightarrow> int list \<Rightarrow> NVMDataBlock \<Rightarrow> NVMDataBlock option" where
  "invert_loop startBit endBit [] d = Some d"
| "invert_loop startBit endBit (i # is) d = do {
     originalByte \<leftarrow> GetByte d (of_int i);
     d' \<leftarrow> (if i * 8 + 7 < 2 ^ 31 then SetByte (of_int i) (invert_byte startBit endBit i originalByte) d else None);
     invert_loop startBit endBit is d'
   }"

definition InvertData :: "uint64 \<Rightarrow> uint64 \<Rightarrow> NVMDataBlock \<Rightarrow> NVMDataBlock option" where
  "InvertData startBit endBit d =
     invert_loop startBit endBit [to_int (startBit div 8)..to_int ((endBit - 1) div 8)] d"

definition FlipNWrite_Read :: "NVMainRequest \<Rightarrow> ncycle_t" where
  "FlipNWrite_Read r = 0"

text \<open>\<open>i\<close>-th partition of a word; partitions per row and per word.\<close>

definition rowPartitions :: "('a) Params_timing_scheme \<Rightarrow> FlipNWrite \<Rightarrow> uint64" where
  "rowPartitions p f = (rowSize_of p * 8) div of_int (fpSize f)"

definition flipPartitions :: "('a) Params_timing_scheme \<Rightarrow> FlipNWrite \<Rightarrow> uint64" where
  "flipPartitions p f = (wordSize_of p * 8) div of_int (fpSize f)"

definition partition_addr :: "('a) Params_timing_scheme \<Rightarrow> FlipNWrite \<Rightarrow> NVMAddress \<Rightarrow> nat \<Rightarrow> uint64" where
  "partition_addr p f a i = row a * rowPartitions p f + col a * flipPartitions p f + of_nat i"

definition invert_partition :: "FlipNWrite \<Rightarrow> nat \<Rightarrow> NVMDataBlock \<Rightarrow> NVMDataBlock option" where
  "invert_partition f i = InvertData (of_nat i * of_int (fpSize f)) ((of_nat i + 1) * of_int (fpSize f))"

text \<open>The first loop: what the memory holds is the old data with the flipped partitions
  inverted.\<close>

fun stored_loop ::
  "('a) Params_timing_scheme \<Rightarrow> FlipNWrite \<Rightarrow> NVMAddress \<Rightarrow> nat list \<Rightarrow> NVMDataBlock \<Rightarrow> NVMDataBlock option" where
  "stored_loop p f a [] d = Some d"
| "stored_loop p f a (i # is) d = do {
     d' \<leftarrow> (if partition_addr p f a i \<in> flippedAddresses f then invert_partition f i d else Some d);
     stored_loop p f a is d'
   }"

text \<open>The second loop: \<^verbatim>\<open>modifyCount[(int)(currentBit/fpSize)]++\<close>.\<close>

definition count_bit :: "FlipNWrite \<Rightarrow> uint64 \<Rightarrow> int list \<Rightarrow> int list option" where
  "count_bit f currentBit modifyCount =
     (let k = to_int (currentBit div of_int (fpSize f))
      in if 0 \<le> k \<and> nat k < length modifyCount
         then Some (modifyCount[nat k := modifyCount ! nat k + 1]) else None)"

fun count_byte ::
  "FlipNWrite \<Rightarrow> uint8 \<Rightarrow> uint8 \<Rightarrow> nat list \<Rightarrow> uint64 \<times> int list \<Rightarrow> (uint64 \<times> int list) option" where
  "count_byte f oldByte newByte [] (currentBit, modifyCount) = Some (currentBit, modifyCount)"
| "count_byte f oldByte newByte (j # js) (currentBit, modifyCount) = do {
     mc \<leftarrow> (if drop_bit j oldByte AND 1 \<noteq> drop_bit j newByte AND 1
            then count_bit f currentBit modifyCount else Some modifyCount);
     count_byte f oldByte newByte js (currentBit + 1, mc)
   }"

fun count_loop ::
  "FlipNWrite \<Rightarrow> NVMDataBlock \<Rightarrow> NVMDataBlock \<Rightarrow> nat list \<Rightarrow> uint64 \<times> int list \<Rightarrow> (uint64 \<times> int list) option" where
  "count_loop f old new [] s = Some s"
| "count_loop f old new (i # is) s = do {
     oldByte \<leftarrow> GetByte old (of_nat i);
     newByte \<leftarrow> GetByte new (of_nat i);
     s' \<leftarrow> (if oldByte = newByte then Some (fst s + 8, snd s) else count_byte f oldByte newByte [0..<8] s);
     count_loop f old new is s'
   }"

text \<open>The third loop: invert the partitions with too many changes, and mark them.\<close>

fun flip_loop ::
  "('a) Params_timing_scheme \<Rightarrow> NVMAddress \<Rightarrow> int list \<Rightarrow> nat list \<Rightarrow> FlipNWrite \<times> NVMDataBlock
     \<Rightarrow> (FlipNWrite \<times> NVMDataBlock) option" where
  "flip_loop p a modifyCount [] s = Some s"
| "flip_loop p a modifyCount (i # is) (f, d) =
     (let mc = modifyCount ! i;
          curAddr = partition_addr p f a i;
          f1 = f\<lparr>bitCompareSwapWrites := bitCompareSwapWrites f + of_int mc\<rparr>
      in if mc > fpSize f sdiv 2
         then do {
           d' \<leftarrow> invert_partition f i d;
           flip_loop p a modifyCount is
             (f1\<lparr>bitsFlipped := bitsFlipped f + of_int (fpSize f - mc),
                flippedAddresses := insert curAddr (flippedAddresses f)\<rparr>, d')
         }
         else flip_loop p a modifyCount is
                (f1\<lparr>flippedAddresses := flippedAddresses f - {curAddr},
                   bitsFlipped := bitsFlipped f + of_int mc\<rparr>, d))"

definition FlipNWrite_Write ::
  "('a) Params_timing_scheme \<Rightarrow> NVMainRequest \<Rightarrow> FlipNWrite \<Rightarrow> (ncycle_t \<times> NVMainRequest \<times> FlipNWrite) option" where
  "FlipNWrite_Write p r f =
     (if fpSize f = 0 then None
      else do {
        let parts = [0..<unat (flipPartitions p f)];
        old \<leftarrow> stored_loop p f (address r) parts (oldData r);
        (_, modifyCount) \<leftarrow> count_loop f old (req_data r) [0..<unat (wordSize_of p)]
                               (0, replicate (length parts) 0);
        (f', new) \<leftarrow> flip_loop p (address r) modifyCount parts (f, req_data r);
        Some (0, r\<lparr>oldData := old, req_data := new\<rparr>, f')
      })"

definition CalculateStats_FlipNWrite :: "FlipNWrite \<Rightarrow> FlipNWrite" where
  "CalculateStats_FlipNWrite f = f\<lparr>flipNWriteReduction :=
     (if bitCompareSwapWrites f \<noteq> 0
      then (of_nat (unat (bitsFlipped f)) / of_nat (unat (bitCompareSwapWrites f))) * 100
      else 100)\<rparr>"

subsection \<open>Inverting whole bytes\<close>

text \<open>What \<^verbatim>\<open>InvertData\<close> does to a byte that lies in the range: it complements the
  bits and also reverses their order.\<close>

definition mirror :: "uint8 \<Rightarrow> uint8" where
  "mirror b = invert_byte 0 8 0 b"

lemma invert_bits_full:
  assumes "\<forall>j < 8. \<not> (of_int (i * 8 + int j) < s \<or> of_int (i * 8 + int j) \<ge> e)" and "m \<le> 8"
  shows "bit (snd (invert_bits s e i [m..<8] (drop_bit m b, nb))) k
    \<longleftrightarrow> bit nb k \<or> (k < 8 \<and> m \<le> 7 - k \<and> \<not> bit b (7 - k))"
  using assms(2)
proof (induction "8 - m" arbitrary: m nb)
  case 0
  then have "m = 8" by simp
  then show ?case by auto
next
  case (Suc n)
  then have m: "m < 8" by simp
  let ?nb = "if drop_bit m b AND 1 = 0 then nb OR push_bit (7 - m) 1 else nb"
  have "bit (snd (invert_bits s e i [m..<8] (drop_bit m b, nb))) k
      = bit (snd (invert_bits s e i [Suc m..<8] (drop_bit (Suc m) b, ?nb))) k"
    using assms(1) m by (simp add: upt_conv_Cons [OF m] Let_def drop_bit_Suc drop_bit_half)
  also have "\<dots> \<longleftrightarrow> bit ?nb k \<or> (k < 8 \<and> Suc m \<le> 7 - k \<and> \<not> bit b (7 - k))"
    using Suc by (intro Suc.hyps) auto
  also have "\<dots> \<longleftrightarrow> bit nb k \<or> (k < 8 \<and> m \<le> 7 - k \<and> \<not> bit b (7 - k))"
  proof -
    have "drop_bit m b AND 1 = 0 \<longleftrightarrow> \<not> bit b m"
      by (simp add: and_one_eq mod_2_eq_odd bit_iff_odd_drop_bit)
    moreover have "bit (push_bit (7 - m) 1 :: uint8) k \<longleftrightarrow> k = 7 - m"
      using m by (auto simp: bit_simps)
    moreover have "k = 7 - m \<longleftrightarrow> k < 8 \<and> m = 7 - k"
      using m by auto
    ultimately show ?thesis
      using m by (auto simp: bit_or_iff le_eq_less_or_eq Suc_le_eq)
  qed
  finally show ?case .
qed

lemma bit_invert_byte:
  assumes "\<forall>j < 8. \<not> (of_int (i * 8 + int j) < s \<or> of_int (i * 8 + int j) \<ge> e)"
  shows "bit (invert_byte s e i b) k \<longleftrightarrow> k < 8 \<and> \<not> bit b (7 - k)"
  using invert_bits_full [OF assms, of 0 b 0 k] by (simp add: invert_byte_def)

lemma bit_mirror: "bit (mirror b) k \<longleftrightarrow> k < 8 \<and> \<not> bit b (7 - k)"
proof -
  have "(of_int (int j) :: uint64) < 8" if "j < 8" for j
    using that by (simp add: word_less_nat_alt unat_of_nat)
  then show ?thesis
    unfolding mirror_def by (intro bit_invert_byte) (auto simp: not_le)
qed

lemma mirror_mirror [simp]: "mirror (mirror b) = b"
  by (rule bit_word_eqI) (auto simp: bit_mirror)

lemma invert_byte_mirror:
  assumes "s \<le> of_nat (8 * i)" and "of_nat (8 * i + 7) < e" and "8 * i + 7 < 2 ^ 31"
  shows "invert_byte s e (int i) b = mirror b"
proof (rule bit_word_eqI)
  fix k
  have "\<not> (of_int (int i * 8 + int j) < s \<or> of_int (int i * 8 + int j) \<ge> e)" if "j < 8" for j
  proof -
    have c: "of_int (int i * 8 + int j) = (of_nat (8 * i + j) :: uint64)"
      by (simp add: mult.commute)
    have "unat (of_nat n :: uint64) = n" if "n < 2 ^ 31" for n
      using that by (simp add: unat_of_nat)
    then have "(of_nat (8 * i) :: uint64) \<le> of_nat (8 * i + j)" "(of_nat (8 * i + j) :: uint64) \<le> of_nat (8 * i + 7)"
      using that assms(3) by (simp_all add: word_le_nat_alt del: of_nat_add of_nat_mult)
    with assms(1,2) show ?thesis
      unfolding c by (meson not_le order.trans order.strict_trans1)
  qed
  then show "bit (invert_byte s e (int i) b) k = bit (mirror b) k"
    by (simp add: bit_invert_byte bit_mirror)
qed

subsection \<open>Inverting byte-aligned ranges of a block\<close>

definition flip_bytes :: "(nat \<Rightarrow> bool) \<Rightarrow> uint8 list \<Rightarrow> uint8 list" where
  "flip_bytes P bs = map (\<lambda>k. if P k then mirror (bs ! k) else bs ! k) [0..<length bs]"

lemma flip_bytes_simps [simp]:
  "length (flip_bytes P bs) = length bs"
  "k < length bs \<Longrightarrow> flip_bytes P bs ! k = (if P k then mirror (bs ! k) else bs ! k)"
  by (simp_all add: flip_bytes_def)

lemma flip_bytes_none: "(\<And>k. k < length bs \<Longrightarrow> \<not> P k) \<Longrightarrow> flip_bytes P bs = bs"
  by (rule nth_equalityI) auto

lemma flip_bytes_flip_bytes: "flip_bytes P (flip_bytes Q bs) = flip_bytes (\<lambda>k. P k \<noteq> Q k) bs"
  by (rule nth_equalityI) auto

lemma flip_bytes_cong: "(\<And>k. k < length bs \<Longrightarrow> P k = Q k) \<Longrightarrow> flip_bytes P bs = flip_bytes Q bs"
  by (simp add: flip_bytes_def)

text \<open>A valid block whose buffer holds the bytes \<open>bs\<close>, short enough for the bit index.\<close>

definition holds_bytes :: "NVMDataBlock \<Rightarrow> uint8 list \<Rightarrow> bool" where
  "holds_bytes d bs \<longleftrightarrow> isValid d \<and> rawData d = Some bs \<and> unat (block_size d) = length bs \<and> 8 * length bs < 2 ^ 31"

lemma holds_bytes_access:
  assumes "holds_bytes d bs" and "i < length bs"
  shows "GetByte d (of_nat i) = Some (bs ! i)"
    and "SetByte (of_nat i) v d = Some (d\<lparr>rawData := Some (bs[i := v])\<rparr>)"
    and "holds_bytes (d\<lparr>rawData := Some (bs[i := v])\<rparr>) (bs[i := v])"
proof -
  have u: "unat (of_nat i :: uint64) = i"
    using assms by (simp add: unat_of_nat holds_bytes_def)
  then have "(of_nat i :: uint64) \<le> block_size d"
    using assms by (simp add: word_le_nat_alt holds_bytes_def)
  then show "GetByte d (of_nat i) = Some (bs ! i)"
    "SetByte (of_nat i) v d = Some (d\<lparr>rawData := Some (bs[i := v])\<rparr>)"
    using assms u by (auto simp: holds_bytes_def GetByte_def SetByte_def)
  show "holds_bytes (d\<lparr>rawData := Some (bs[i := v])\<rparr>) (bs[i := v])"
    using assms(1) by (simp add: holds_bytes_def)
qed

lemma invert_loop_aligned:
  assumes "holds_bytes d bs" and "b \<le> length bs" and "a \<le> k" and "k \<le> b"
    and "s = of_nat (8 * a)" and "e = of_nat (8 * b)"
  shows "invert_loop s e (map int [k..<b]) d = Some (d\<lparr>rawData := Some (flip_bytes (\<lambda>j. k \<le> j \<and> j < b) bs)\<rparr>)"
  using assms
proof (induction "b - k" arbitrary: k d bs)
  case 0
  then have "k = b" by simp
  with 0 show ?case
    by (simp add: flip_bytes_none holds_bytes_def)
next
  case (Suc n)
  then have k: "k < b" by simp
  have small: "8 * b < 2 ^ 31"
    using Suc.prems(1,2) by (simp add: holds_bytes_def)
  have u: "unat (of_nat m :: uint64) = m" if "m < 2 ^ 31" for m
    using that by (simp add: unat_of_nat)
  have "s \<le> of_nat (8 * k)" "of_nat (8 * k + 7) < e"
    using Suc.prems k small
    by (simp_all add: word_le_nat_alt word_less_nat_alt u del: of_nat_add of_nat_mult)
  from invert_byte_mirror [OF this] k small
  have inv: "invert_byte s e (int k) (bs ! k) = mirror (bs ! k)"
    by simp
  let ?bs = "bs[k := mirror (bs ! k)]"
  note acc = holds_bytes_access [OF Suc.prems(1), of k]
  have "invert_loop s e (map int [k..<b]) d
      = invert_loop s e (map int [Suc k..<b]) (d\<lparr>rawData := Some ?bs\<rparr>)"
    using k small acc(1,2) Suc.prems(2) inv by (simp add: upt_conv_Cons)
  also have "\<dots> = Some (d\<lparr>rawData := Some (flip_bytes (\<lambda>j. Suc k \<le> j \<and> j < b) ?bs)\<rparr>)"
    using Suc k acc(3) by (subst Suc.hyps(1)) auto
  also have "flip_bytes (\<lambda>j. Suc k \<le> j \<and> j < b) ?bs = flip_bytes (\<lambda>j. k \<le> j \<and> j < b) bs"
    using k Suc.prems(2) by (intro nth_equalityI) (auto simp: nth_list_update)
  finally show ?case .
qed

lemma to_int_small:
  assumes "unat w < 2 ^ 31"
  shows "to_int w = int (unat w)"
proof -
  have "int (unat w) < int (2 ^ 31)"
    using assms by (simp only: of_nat_less_iff)
  then have lt: "uint w < 2 ^ 31"
    by simp
  then have "uint (ucast w :: 32 word) = uint w"
    by (simp add: unsigned_ucast_eq take_bit_int_eq_self)
  moreover have "- (2 ^ 31) \<le> uint w"
    by (rule order_trans [of _ 0]) simp_all
  then have "signed_take_bit 31 (uint w) = uint w"
    using lt by (rule signed_take_bit_int_eq_self)
  ultimately show ?thesis
    by (simp add: to_int_def sint_uint)
qed

lemma InvertData_aligned:
  assumes "holds_bytes d bs" and "a < b" and "b \<le> length bs"
  shows "InvertData (of_nat (8 * a)) (of_nat (8 * b)) d
    = Some (d\<lparr>rawData := Some (flip_bytes (\<lambda>j. a \<le> j \<and> j < b) bs)\<rparr>)"
proof -
  have small: "8 * b < 2 ^ 31"
    using assms(1,3) by (simp add: holds_bytes_def)
  have u: "unat (of_nat m :: uint64) = m" if "m < 2 ^ 31" for m
    using that by (simp add: unat_of_nat)
  have start: "unat (of_nat (8 * a) div 8 :: uint64) = a"
    using assms(2) small by (simp add: unat_div_distrib u del: of_nat_mult)
  have one: "(1 :: uint64) \<le> of_nat (8 * b)"
    using assms(2) small by (simp add: word_le_nat_alt u del: of_nat_mult)
  have "unat ((of_nat (8 * b) - 1) div 8 :: uint64) = (8 * b - 1) div 8"
    using small by (simp add: unat_div_distrib unat_sub [OF one] u del: of_nat_mult)
  then have stop: "unat ((of_nat (8 * b) - 1) div 8 :: uint64) = b - 1"
    using assms(2) by simp
  have "[to_int (of_nat (8 * a) div 8)..to_int ((of_nat (8 * b) - 1) div 8)] = map int [a..<b]"
    using assms(2) small
    by (simp add: to_int_small start stop of_nat_diff upto_int_upt del: of_nat_mult)
  then show ?thesis
    using invert_loop_aligned [OF assms(1,3), of a a] assms(2) by (simp add: InvertData_def del: of_nat_mult)
qed

subsection \<open>The loops over partitions\<close>

text \<open>A granularity of \<open>B\<close> whole bytes that divides the word into \<open>n\<close> partitions.\<close>

definition byte_granular :: "('a) Params_timing_scheme \<Rightarrow> FlipNWrite \<Rightarrow> nat \<Rightarrow> nat \<Rightarrow> bool" where
  "byte_granular p f B n \<longleftrightarrow> 0 < B \<and> 8 * B < 2 ^ 31 \<and> fpSize f = int (8 * B) \<and> unat (flipPartitions p f) = n
     \<and> unat (wordSize_of p) = n * B"

lemma partition_range: "0 < B \<Longrightarrow> i * B \<le> j \<and> j < (i + 1) * B \<longleftrightarrow> j div B = (i :: nat)"
  by (simp only: less_eq_div_iff_mult_less_eq [symmetric] div_less_iff_less_mult [symmetric]) arith

lemma invert_partition_bytes:
  assumes "holds_bytes d bs" and "fpSize f = int (8 * B)" and "0 < B" and "(i + 1) * B \<le> length bs"
  shows "invert_partition f i d = Some (d\<lparr>rawData := Some (flip_bytes (\<lambda>j. j div B = i) bs)\<rparr>)"
proof -
  have "InvertData (of_nat (8 * (i * B))) (of_nat (8 * ((i + 1) * B))) d
      = Some (d\<lparr>rawData := Some (flip_bytes (\<lambda>j. i * B \<le> j \<and> j < (i + 1) * B) bs)\<rparr>)"
    using assms by (intro InvertData_aligned) auto
  then show ?thesis
    using assms(2) unfolding partition_range [OF assms(3)]
    by (simp add: invert_partition_def algebra_simps)
qed

lemma holds_bytes_flip: "holds_bytes d bs \<Longrightarrow> holds_bytes (d\<lparr>rawData := Some (flip_bytes P bs)\<rparr>) (flip_bytes P bs)"
  by (simp add: holds_bytes_def)

lemma holds_bytes_same: "holds_bytes d bs \<Longrightarrow> d\<lparr>rawData := Some bs\<rparr> = d"
  by (simp add: holds_bytes_def)

lemma stored_loop_bytes:
  assumes "holds_bytes d bs" and "fpSize f = int (8 * B)" and "0 < B" and "distinct is"
    and "\<forall>i \<in> set is. (i + 1) * B \<le> length bs"
  shows "stored_loop p f a is d = Some (d\<lparr>rawData := Some
    (flip_bytes (\<lambda>j. j div B \<in> set is \<and> partition_addr p f a (j div B) \<in> flippedAddresses f) bs)\<rparr>)"
  using assms
proof (induction "is" arbitrary: d bs)
  case Nil
  then show ?case by (simp add: flip_bytes_none holds_bytes_same)
next
  case (Cons i "is")
  let ?in = "\<lambda>i. partition_addr p f a i \<in> flippedAddresses f"
  let ?bs = "flip_bytes (\<lambda>j. ?in i \<and> j div B = i) bs"
  have "(if ?in i then invert_partition f i d else Some d) = Some (d\<lparr>rawData := Some ?bs\<rparr>)"
    using invert_partition_bytes [OF Cons.prems(1-3), of i] Cons.prems(1,5)
    by (simp add: flip_bytes_none holds_bytes_same)
  then have "stored_loop p f a (i # is) d = stored_loop p f a is (d\<lparr>rawData := Some ?bs\<rparr>)"
    by simp
  also have "\<dots> = Some (d\<lparr>rawData := Some (flip_bytes (\<lambda>j. j div B \<in> set is \<and> ?in (j div B)) ?bs)\<rparr>)"
    using Cons.prems by (subst Cons.IH [OF holds_bytes_flip]) auto
  also have "flip_bytes (\<lambda>j. j div B \<in> set is \<and> ?in (j div B)) ?bs
      = flip_bytes (\<lambda>j. j div B \<in> set (i # is) \<and> ?in (j div B)) bs"
    unfolding flip_bytes_flip_bytes using Cons.prems(4) by (intro flip_bytes_cong) auto
  finally show ?case .
qed

text \<open>What the third loop leaves: the partitions over the threshold inverted and marked, the
  others unmarked, and the two counters advanced.\<close>

definition over_half :: "FlipNWrite \<Rightarrow> int list \<Rightarrow> nat \<Rightarrow> bool" where
  "over_half f mc i \<longleftrightarrow> mc ! i > fpSize f sdiv 2"

lemma partition_addr_cong: "fpSize f' = fpSize f \<Longrightarrow> partition_addr p f' a i = partition_addr p f a i"
  by (simp add: partition_addr_def rowPartitions_def flipPartitions_def)

lemma partition_addr_inj: "i < 2 ^ 64 \<Longrightarrow> j < 2 ^ 64 \<Longrightarrow> partition_addr p f a i = partition_addr p f a j \<Longrightarrow> i = j"
  by (rule of_nat_inj_64) (simp_all add: partition_addr_def)

lemma flip_loop_bytes:
  assumes "holds_bytes d bs" and "fpSize f = int (8 * B)" and "0 < B" and "distinct is"
    and "\<forall>i \<in> set is. (i + 1) * B \<le> length bs"
  shows "\<exists>f'. flip_loop p a mc is (f, d) = Some (f', d\<lparr>rawData := Some
      (flip_bytes (\<lambda>j. j div B \<in> set is \<and> over_half f mc (j div B)) bs)\<rparr>)
    \<and> fpSize f' = fpSize f
    \<and> bitCompareSwapWrites f' = bitCompareSwapWrites f + (\<Sum>i\<leftarrow>is. of_int (mc ! i))
    \<and> bitsFlipped f' = bitsFlipped f
        + (\<Sum>i\<leftarrow>is. of_int (if over_half f mc i then fpSize f - mc ! i else mc ! i))
    \<and> flippedAddresses f' = flippedAddresses f - partition_addr p f a ` {i \<in> set is. \<not> over_half f mc i}
        \<union> partition_addr p f a ` {i \<in> set is. over_half f mc i}"
  using assms
proof (induction "is" arbitrary: d bs f)
  case Nil
  then show ?case by (simp add: flip_bytes_none holds_bytes_same)
next
  case (Cons i "is")
  let ?o = "over_half f mc"
  let ?A = "partition_addr p f a"
  let ?bs = "flip_bytes (\<lambda>j. ?o i \<and> j div B = i) bs"
  define f1 where "f1 = f\<lparr>bitCompareSwapWrites := bitCompareSwapWrites f + of_int (mc ! i),
    bitsFlipped := bitsFlipped f + of_int (if ?o i then fpSize f - mc ! i else mc ! i),
    flippedAddresses := (if ?o i then insert (?A i) (flippedAddresses f) else flippedAddresses f - {?A i})\<rparr>"
  have fp: "fpSize f1 = fpSize f" by (simp add: f1_def)
  have same: "partition_addr p f1 a = ?A" "over_half f1 mc = ?o"
    using partition_addr_cong [OF fp] by (auto simp: over_half_def fun_eq_iff fp)
  have "flip_loop p a mc (i # is) (f, d) = flip_loop p a mc is (f1, d\<lparr>rawData := Some ?bs\<rparr>)"
    using invert_partition_bytes [OF Cons.prems(1-3), of i] Cons.prems(1,5)
    by (cases "?o i"; cases f) (simp_all add: Let_def f1_def over_half_def flip_bytes_none holds_bytes_same)
  moreover obtain f' where f': "flip_loop p a mc is (f1, d\<lparr>rawData := Some ?bs\<rparr>)
      = Some (f', d\<lparr>rawData := Some (flip_bytes (\<lambda>j. j div B \<in> set is \<and> ?o (j div B)) ?bs)\<rparr>)"
    "fpSize f' = fpSize f"
    "bitCompareSwapWrites f' = bitCompareSwapWrites f1 + (\<Sum>i\<leftarrow>is. of_int (mc ! i))"
    "bitsFlipped f' = bitsFlipped f1 + (\<Sum>i\<leftarrow>is. of_int (if ?o i then fpSize f - mc ! i else mc ! i))"
    "flippedAddresses f' = flippedAddresses f1 - ?A ` {i \<in> set is. \<not> ?o i} \<union> ?A ` {i \<in> set is. ?o i}"
    using Cons.IH [OF holds_bytes_flip, of d bs f1 "\<lambda>j. ?o i \<and> j div B = i", unfolded same fp] Cons.prems
    by auto
  moreover have "flip_bytes (\<lambda>j. j div B \<in> set is \<and> ?o (j div B)) ?bs
      = flip_bytes (\<lambda>j. j div B \<in> set (i # is) \<and> ?o (j div B)) bs"
    unfolding flip_bytes_flip_bytes using Cons.prems(4) by (intro flip_bytes_cong) auto
  moreover have "k < 2 ^ 64" if "k \<in> set (i # is)" for k
  proof -
    have "k * B < length bs"
      using Cons.prems(3,5) that by fastforce
    then have "k < length bs"
      using Cons.prems(3) by (metis One_nat_def Suc_leI le_less_trans mult_le_mono2 nat_mult_1_right)
    then show ?thesis
      using Cons.prems(1) by (simp add: holds_bytes_def)
  qed
  then have "\<forall>k \<in> set is. ?A k \<noteq> ?A i"
    using Cons.prems(4) partition_addr_inj [of _ i p f a] by auto
  then have "flippedAddresses f1 - ?A ` {i \<in> set is. \<not> ?o i} \<union> ?A ` {i \<in> set is. ?o i}
      = flippedAddresses f - ?A ` {k \<in> set (i # is). \<not> ?o k} \<union> ?A ` {k \<in> set (i # is). ?o k}"
    by (cases "?o i") (auto simp: f1_def)
  ultimately show ?case
    by (simp add: f1_def add.assoc)
qed

subsection \<open>Counting the changed bits\<close>

definition diff_bits :: "uint8 \<Rightarrow> uint8 \<Rightarrow> nat list \<Rightarrow> int" where
  "diff_bits ob nb js = int (length (filter (\<lambda>j. bit ob j \<noteq> bit nb j) js))"

abbreviation hamming8 :: "uint8 \<Rightarrow> uint8 \<Rightarrow> int" where
  "hamming8 ob nb \<equiv> diff_bits ob nb [0..<8]"

text \<open>The bits that differ in partition \<open>k\<close>, counted over the bytes from \<open>i\<close> to \<open>w\<close>.\<close>

definition diff_between :: "nat \<Rightarrow> uint8 list \<Rightarrow> uint8 list \<Rightarrow> nat \<Rightarrow> nat \<Rightarrow> nat \<Rightarrow> int" where
  "diff_between B old new k i w = (\<Sum>j\<leftarrow>filter (\<lambda>j. j div B = k) [i..<w]. hamming8 (old ! j) (new ! j))"

lemma count_bit_at:
  assumes "fpSize f = int (8 * B)" and "8 * B < 2 ^ 31" and "m < 8" and "8 * i + m < 2 ^ 31" and "i div B < length mc"
  shows "count_bit f (of_nat (8 * i + m)) mc = Some (mc[i div B := mc ! (i div B) + 1])"
proof -
  have u: "unat (of_nat k :: uint64) = k" if "k < 2 ^ 31" for k
    using that by (simp add: unat_of_nat)
  have d: "(8 * i + m) div (8 * B) = i div B"
    using assms(3) by (simp add: div_mult2_eq)
  have fp: "of_int (fpSize f) = (of_nat (8 * B) :: uint64)"
    using assms(1) by (simp only: of_int_of_nat_eq)
  have q: "unat (of_nat (8 * i + m) div of_int (fpSize f) :: uint64) = i div B"
    unfolding fp using u [OF assms(2)] u [OF assms(4)] d
    by (simp add: unat_div_distrib del: of_nat_add of_nat_mult)
  have "i div B < 2 ^ 31"
    using assms(4) div_le_dividend [of i B] by linarith
  with q have "to_int (of_nat (8 * i + m) div of_int (fpSize f)) = int (i div B)"
    by (simp add: to_int_small del: of_nat_add of_nat_mult)
  with assms(5) show ?thesis
    unfolding count_bit_def Let_def by simp
qed

lemma count_byte_at:
  assumes "fpSize f = int (8 * B)" and "8 * B < 2 ^ 31" and "8 * i + 7 < 2 ^ 31" and "i div B < length mc" and "m \<le> 8"
  shows "count_byte f ob nb [m..<8] (of_nat (8 * i + m), mc)
    = Some (of_nat (8 * (i + 1)), mc[i div B := mc ! (i div B) + diff_bits ob nb [m..<8]])"
  using assms(4,5)
proof (induction "8 - m" arbitrary: m mc)
  case 0
  then have "m = 8" by simp
  then show ?case by (simp add: diff_bits_def)
next
  case (Suc n)
  then have m: "m < 8" by simp
  have bits: "drop_bit m ob AND 1 \<noteq> drop_bit m nb AND 1 \<longleftrightarrow> bit ob m \<noteq> bit nb m"
    by (simp add: and_one_eq mod_2_eq_odd bit_iff_odd_drop_bit)
  let ?mc = "if bit ob m \<noteq> bit nb m then mc[i div B := mc ! (i div B) + 1] else mc"
  have "count_bit f (of_nat (8 * i + m)) mc = Some (mc[i div B := mc ! (i div B) + 1])"
    using assms(1,2,3) m Suc.prems(1) by (intro count_bit_at) auto
  then have "count_byte f ob nb [m..<8] (of_nat (8 * i + m), mc)
      = count_byte f ob nb [Suc m..<8] (of_nat (8 * i + Suc m), ?mc)"
    by (simp add: upt_conv_Cons [OF m] bits add.commute [of 1])
  also have "\<dots> = Some (of_nat (8 * (i + 1)), ?mc[i div B := ?mc ! (i div B) + diff_bits ob nb [Suc m..<8]])"
    using Suc m by (intro Suc.hyps(1)) auto
  also have "?mc[i div B := ?mc ! (i div B) + diff_bits ob nb [Suc m..<8]]
      = mc[i div B := mc ! (i div B) + diff_bits ob nb [m..<8]]"
    using Suc.prems(1) by (simp add: upt_conv_Cons [OF m] diff_bits_def add.assoc)
  finally show ?case .
qed

lemma count_loop_diff:
  assumes f: "fpSize f = int (8 * B)" "8 * B < 2 ^ 31" and B: "0 < B" "w \<le> n * B"
    and d: "holds_bytes old obs" "holds_bytes new nbs" "w \<le> length obs" "w \<le> length nbs"
    and "i \<le> w" and "length mc = n"
  shows "\<exists>mc'. count_loop f old new [i..<w] (of_nat (8 * i), mc) = Some (of_nat (8 * w), mc')
    \<and> length mc' = n \<and> (\<forall>k < n. mc' ! k = mc ! k + diff_between B obs nbs k i w)"
  using assms(9,10)
proof (induction "w - i" arbitrary: i mc)
  case 0
  then have "i = w" by simp
  then show ?case using 0 by (simp add: diff_between_def)
next
  case (Suc x)
  then have i: "i < w" by simp
  have k: "i div B < n"
    using i B by (simp add: less_mult_imp_div_less)
  have small: "8 * i + 7 < 2 ^ 31"
    using i d(1,3) by (simp add: holds_bytes_def)
  let ?mc = "mc[i div B := mc ! (i div B) + hamming8 (obs ! i) (nbs ! i)]"
  have g: "GetByte old (of_nat i) = Some (obs ! i)" "GetByte new (of_nat i) = Some (nbs ! i)"
    using holds_bytes_access(1) [OF d(1)] holds_bytes_access(1) [OF d(2)] i d(3,4) by auto
  have "(if obs ! i = nbs ! i then Some (of_nat (8 * i) + 8, mc)
      else count_byte f (obs ! i) (nbs ! i) [0..<8] (of_nat (8 * i), mc)) = Some (of_nat (8 * (i + 1)), ?mc)"
    using count_byte_at [OF f small, of mc 0 "obs ! i" "nbs ! i"] k Suc.prems(2)
    by (simp add: diff_bits_def)
  with g have "count_loop f old new [i..<w] (of_nat (8 * i), mc)
      = count_loop f old new [Suc i..<w] (of_nat (8 * Suc i), ?mc)"
    by (simp add: upt_conv_Cons [OF i] add.commute [of 8] del: of_nat_mult split: if_splits)
  moreover obtain mc' where "count_loop f old new [Suc i..<w] (of_nat (8 * Suc i), ?mc) = Some (of_nat (8 * w), mc')"
    "length mc' = n" "\<forall>k < n. mc' ! k = ?mc ! k + diff_between B obs nbs k (Suc i) w"
  proof -
    have "x = w - Suc i"
      using Suc.hyps(2) by simp
    from Suc.hyps(1) [OF this, of ?mc] i Suc.prems(2) show ?thesis
      using that by (metis Suc_leI length_list_update)
  qed
  moreover have "?mc ! k + diff_between B obs nbs k (Suc i) w = mc ! k + diff_between B obs nbs k i w" if "k < n" for k
    using that Suc.prems(2) by (simp add: diff_between_def upt_conv_Cons [OF i] nth_list_update)
  ultimately show ?case by auto
qed

lemma partitions_fit: "n * B \<le> len \<Longrightarrow> \<forall>i \<in> set [0..<n]. (i + 1) * B \<le> len"
proof
  fix i assume "n * B \<le> len" and "i \<in> set [0..<n]"
  moreover from this(2) have "(i + 1) * B \<le> n * B"
    by (intro mult_le_mono1) simp
  ultimately show "(i + 1) * B \<le> len"
    by (meson order_trans)
qed

lemma FlipNWrite_Write_run:
  assumes g: "byte_granular p f B n" and old: "holds_bytes (oldData r) obs" "n * B \<le> length obs"
    and new: "holds_bytes (req_data r) nbs" "n * B \<le> length nbs"
  defines "sbs \<equiv> flip_bytes (\<lambda>j. j div B < n \<and> partition_addr p f (address r) (j div B) \<in> flippedAddresses f) obs"
  obtains mc f' where "length mc = n" and "\<forall>k < n. mc ! k = diff_between B sbs nbs k 0 (n * B)"
    and "FlipNWrite_Write p r f = Some (0, r\<lparr>oldData := (oldData r)\<lparr>rawData := Some sbs\<rparr>,
      req_data := (req_data r)\<lparr>rawData := Some (flip_bytes (\<lambda>j. j div B < n \<and> over_half f mc (j div B)) nbs)\<rparr>\<rparr>, f')"
    and "fpSize f' = fpSize f"
    and "bitCompareSwapWrites f' = bitCompareSwapWrites f + (\<Sum>i\<leftarrow>[0..<n]. of_int (mc ! i))"
    and "bitsFlipped f' = bitsFlipped f
        + (\<Sum>i\<leftarrow>[0..<n]. of_int (if over_half f mc i then fpSize f - mc ! i else mc ! i))"
    and "\<And>i. i < n \<Longrightarrow> partition_addr p f (address r) i \<in> flippedAddresses f' \<longleftrightarrow> over_half f mc i"
proof -
  let ?A = "partition_addr p f (address r)"
  have B: "0 < B" "8 * B < 2 ^ 31" and fp: "fpSize f = int (8 * B)" and n: "unat (flipPartitions p f) = n"
    and ws: "unat (wordSize_of p) = n * B"
    using g by (auto simp: byte_granular_def)
  note part = partitions_fit [OF old(2)] partitions_fit [OF new(2)]
  have st: "stored_loop p f (address r) [0..<n] (oldData r) = Some ((oldData r)\<lparr>rawData := Some sbs\<rparr>)"
    using stored_loop_bytes [OF old(1) fp B(1) distinct_upt part(1)] by (simp add: sbs_def)
  have h: "holds_bytes ((oldData r)\<lparr>rawData := Some sbs\<rparr>) sbs" "n * B \<le> length sbs"
    using old by (auto simp: sbs_def intro: holds_bytes_flip)
  obtain mc where mc: "count_loop f ((oldData r)\<lparr>rawData := Some sbs\<rparr>) (req_data r) [0..<n * B] (0, replicate n 0)
      = Some (of_nat (8 * (n * B)), mc)" "length mc = n" "\<forall>k < n. mc ! k = diff_between B sbs nbs k 0 (n * B)"
    using count_loop_diff [OF fp B(2,1) order.refl h(1) new(1) h(2) new(2), of 0 "replicate n 0"] by auto
  obtain f' where f': "flip_loop p (address r) mc [0..<n] (f, req_data r) = Some (f', (req_data r)\<lparr>rawData := Some
      (flip_bytes (\<lambda>j. j div B < n \<and> over_half f mc (j div B)) nbs)\<rparr>)" "fpSize f' = fpSize f"
    "bitCompareSwapWrites f' = bitCompareSwapWrites f + (\<Sum>i\<leftarrow>[0..<n]. of_int (mc ! i))"
    "bitsFlipped f' = bitsFlipped f + (\<Sum>i\<leftarrow>[0..<n]. of_int (if over_half f mc i then fpSize f - mc ! i else mc ! i))"
    "flippedAddresses f' = flippedAddresses f - ?A ` {i \<in> set [0..<n]. \<not> over_half f mc i}
      \<union> ?A ` {i \<in> set [0..<n]. over_half f mc i}"
    using flip_loop_bytes [OF new(1) fp B(1) distinct_upt part(2), of p "address r" mc] by auto
  have "n < 2 ^ 64"
    using n unat_uint64_lt [of "flipPartitions p f"] by simp
  then have "i < n \<Longrightarrow> j < n \<Longrightarrow> ?A i = ?A j \<Longrightarrow> i = j" for i j
    by (intro partition_addr_inj [of i j p f "address r"]) simp_all
  then have mark: "?A i \<in> flippedAddresses f' \<longleftrightarrow> over_half f mc i" if "i < n" for i
    using that unfolding f'(5) by auto
  have "FlipNWrite_Write p r f = Some (0, r\<lparr>oldData := (oldData r)\<lparr>rawData := Some sbs\<rparr>,
      req_data := (req_data r)\<lparr>rawData := Some (flip_bytes (\<lambda>j. j div B < n \<and> over_half f mc (j div B)) nbs)\<rparr>\<rparr>, f')"
    using B(1) fp by (simp add: FlipNWrite_Write_def n ws st mc(1) f'(1) Let_def)
  then show ?thesis
    using that mc(2,3) f'(2,3,4) mark by blast
qed

subsection \<open>Properties of the encoder\<close>

text \<open>C11: With a granularity of whole bytes that divides the word, the encoder never fails,
  and what it stores decodes to the data of the request: inverting the marked partitions of
  the stored word gives back the word that was written.\<close>

theorem flip_n_write_decodes:
  assumes "byte_granular p f B n" and "holds_bytes (oldData r) obs" and "n * B \<le> length obs"
    and "holds_bytes (req_data r) nbs" and "n * B \<le> length nbs"
  shows "\<exists>r' f'. FlipNWrite_Write p r f = Some (0, r', f')
    \<and> stored_loop p f' (address r) [0..<n] (req_data r') = Some (req_data r)"
proof (rule FlipNWrite_Write_run [OF assms], goal_cases)
  case (1 mc f')
  let ?sbs = "flip_bytes (\<lambda>j. j div B < n \<and> over_half f mc (j div B)) nbs"
  have fp: "fpSize f' = int (8 * B)" and B: "0 < B"
    using assms(1) 1(4) by (auto simp: byte_granular_def)
  have len: "n * B \<le> length ?sbs"
    using assms(5) by simp
  note st = stored_loop_bytes [OF holds_bytes_flip [OF assms(4)] fp B distinct_upt partitions_fit [OF len], of p "address r"]
  have "flip_bytes (\<lambda>j. j div B \<in> set [0..<n] \<and> partition_addr p f' (address r) (j div B) \<in> flippedAddresses f') ?sbs = nbs"
    unfolding flip_bytes_flip_bytes using 1(7) by (intro flip_bytes_none) (auto simp: partition_addr_cong [OF 1(4)])
  with st have "stored_loop p f' (address r) [0..<n] ((req_data r)\<lparr>rawData := Some ?sbs\<rparr>) = Some (req_data r)"
    using holds_bytes_same [OF assms(4)] by simp
  with 1(3) show ?case by simp
qed

text \<open>A one-byte word over a stored byte, with a granularity of one byte.\<close>

definition byte_params :: Params where
  "byte_params = Params_new\<lparr>BusWidth := 8, tBURST := 1, RATE := 1\<rparr>"

definition byte_request :: "uint8 \<Rightarrow> uint8 \<Rightarrow> NVMainRequest" where
  "byte_request old new = NVMainRequest_new
     \<lparr>oldData := \<lparr>rawData = Some [old], isValid = True, block_size = 1\<rparr>,
      req_data := \<lparr>rawData = Some [new], isValid = True, block_size = 1\<rparr>\<rparr>"

lemma byte_request_ok:
  "byte_granular byte_params (FlipNWrite_new 8) 1 1"
  "holds_bytes (oldData (byte_request old new)) [old]" "holds_bytes (req_data (byte_request old new)) [new]"
  by (simp_all add: byte_granular_def byte_params_def FlipNWrite_new_def flipPartitions_def wordSize_of_def
      Params_new_def holds_bytes_def byte_request_def)

theorem flip_n_write_decodes_witness:
  "\<exists>r' f'. FlipNWrite_Write byte_params (byte_request 1 254) (FlipNWrite_new 8) = Some (0, r', f')
     \<and> stored_loop byte_params f' (address (byte_request 1 254)) [0..<1] (req_data r') = Some (req_data (byte_request 1 254))"
  by (rule flip_n_write_decodes [OF byte_request_ok(1,2) _ byte_request_ok(3)]) simp_all

text \<open>C22: The statistics of one write: the compare-and-write count grows by the number of bits
  in which the stored and the new word differ, and the Flip-N-Write count grows, for each
  partition, by the smaller of the bits that differ and the bits that agree.\<close>

theorem flip_n_write_cost:
  assumes "byte_granular p f B n" and "holds_bytes (oldData r) obs" and "n * B \<le> length obs"
    and "holds_bytes (req_data r) nbs" and "n * B \<le> length nbs"
  shows "\<exists>r' f' sbs. FlipNWrite_Write p r f = Some (0, r', f') \<and> rawData (oldData r') = Some sbs
    \<and> bitCompareSwapWrites f' = bitCompareSwapWrites f
        + (\<Sum>k\<leftarrow>[0..<n]. of_int (diff_between B sbs nbs k 0 (n * B)))
    \<and> bitsFlipped f' = bitsFlipped f
        + (\<Sum>k\<leftarrow>[0..<n]. of_int (min (diff_between B sbs nbs k 0 (n * B))
                                  (fpSize f - diff_between B sbs nbs k 0 (n * B))))"
proof (rule FlipNWrite_Write_run [OF assms], goal_cases)
  case (1 mc f')
  let ?sbs = "flip_bytes (\<lambda>j. j div B < n \<and> partition_addr p f (address r) (j div B) \<in> flippedAddresses f) obs"
  let ?d = "\<lambda>k. diff_between B ?sbs nbs k 0 (n * B)"
  have "(if over_half f mc i then fpSize f - mc ! i else mc ! i) = min (?d i) (fpSize f - ?d i)" if "i < n" for i
    using assms(1) 1(2) that by (auto simp: over_half_def byte_granular_def signed_divide_int_def min_def)
  then have "(\<Sum>i\<leftarrow>[0..<n]. of_int (if over_half f mc i then fpSize f - mc ! i else mc ! i) :: uint64)
      = (\<Sum>k\<leftarrow>[0..<n]. of_int (min (?d k) (fpSize f - ?d k)))"
    by (intro arg_cong [of _ _ sum_list] map_cong) simp_all
  moreover have "(\<Sum>i\<leftarrow>[0..<n]. of_int (mc ! i) :: uint64) = (\<Sum>k\<leftarrow>[0..<n]. of_int (?d k))"
    using 1(2) by (intro arg_cong [of _ _ sum_list] map_cong) simp_all
  ultimately show ?case
    using 1(3,5,6) by simp
qed

theorem flip_n_write_cost_witness:
  "\<exists>r' f' sbs. FlipNWrite_Write byte_params (byte_request 0 7) (FlipNWrite_new 8) = Some (0, r', f')
     \<and> rawData (oldData r') = Some sbs \<and> bitCompareSwapWrites f' = of_int (diff_between 1 sbs [7] 0 0 1)"
  using flip_n_write_cost [OF byte_request_ok(1,2) _ byte_request_ok(3), of 0 7]
  by (auto simp: FlipNWrite_new_def)

text \<open>The inversion also reverses the bits of each byte, so the stored word can differ from the
  old one in more bits than were counted: writing \<open>0xF0\<close> over \<open>0x0F\<close> inverts it
  to \<open>0xF0\<close> again, all eight cells change, and the count of flipped bits stays 0.\<close>

lemma invert_reverses_bits: "mirror 0xF0 = 0xF0"
  by (rule bit_word_eqI) (auto simp: bit_mirror less_Suc_eq numeral_eq_Suc bit_Suc)

end
