(* ===== verification/Cell_Counting.thy ===== *)
theory Cell_Counting
  imports NVM_Types
begin

text \<open>
  The counters \<^verbatim>\<open>SubArray\<close> uses to price a write by its data
  (\<^verbatim>\<open>src/SubArray.cpp\<close>): the number of ones of a 32-bit word by parallel
  addition, the number of two-bit cells with a given value, and their sums over a data
  buffer. \<open>None\<close> is a failed assertion or a read past the buffer.
\<close>

definition Count32MLC1 :: "uint32 \<Rightarrow> ncounter_t" where
  "Count32MLC1 data =
     (let count = data;
          count = count - (drop_bit 1 count AND 0x55555555);
          count = (count AND 0x33333333) + (drop_bit 2 count AND 0x33333333);
          count = drop_bit 24 (((count + drop_bit 4 count) AND 0x0f0f0f0f) * 0x01010101)
      in ucast count)"

definition Count32MLC2 :: "uint8 \<Rightarrow> uint32 \<Rightarrow> ncounter_t option" where
  "Count32MLC2 value data =
     (let data = (if value = 0 then data XOR 0xFFFFFFFF
                  else if value = 1 then data XOR 0xAAAAAAAA
                  else if value = 2 then data XOR 0x55555555 else data)
      in if value < 4
         then Some (Count32MLC1 ((data AND 0x55555555) AND drop_bit 1 (data AND 0xAAAAAAAA)))
         else None)"

text \<open>The loops over \<open>words\<close> words of a buffer.\<close>

primrec count_words :: "(uint32 \<Rightarrow> ncounter_t option) \<Rightarrow> uint32 list \<Rightarrow> nat \<Rightarrow> ncounter_t option" where
  "count_words cnt data 0 = Some 0"
| "count_words cnt data (Suc i) = do {
     n \<leftarrow> count_words cnt data i;
     d \<leftarrow> (if i < length data then Some (data ! i) else None);
     c \<leftarrow> cnt d;
     Some (n + c)
   }"

definition CountBitsMLC2 :: "uint8 \<Rightarrow> uint32 list \<Rightarrow> ncounter_t \<Rightarrow> ncounter_t option" where
  "CountBitsMLC2 value data words = count_words (Count32MLC2 value) data (unat words)"

definition CountBitsMLC1 :: "uint8 \<Rightarrow> uint32 list \<Rightarrow> ncounter_t \<Rightarrow> ncounter_t option" where
  "CountBitsMLC1 value data words = do {
     count \<leftarrow> count_words (\<lambda>d. Some (Count32MLC1 d)) data (unat words);
     Some (if value = 1 then count else words * 32 - count)
   }"

text \<open>\<^verbatim>\<open>reinterpret_cast<uint32_t*>\<close> of a byte buffer on a little-endian host; bytes
  that do not fill a word are left out.\<close>

fun words_of_bytes :: "uint8 list \<Rightarrow> uint32 list" where
  "words_of_bytes (b0 # b1 # b2 # b3 # bs) =
     (ucast b0 OR push_bit 8 (ucast b1) OR push_bit 16 (ucast b2) OR push_bit 24 (ucast b3)) # words_of_bytes bs"
| "words_of_bytes bs = []"

subsection \<open>Numbers by their hexadecimal digits\<close>

text \<open>Little-endian hexadecimal digits.\<close>

primrec hex :: "nat list \<Rightarrow> nat" where
  "hex [] = 0"
| "hex (d # ds) = d + 16 * hex ds"

lemma and_16: "l < 16 \<Longrightarrow> m < 16 \<Longrightarrow> (l + 16 * h) AND (m + 16 * n) = (l AND m) + 16 * (h AND n :: nat)"
proof -
  assume "l < 16" "m < 16"
  then have lm: "take_bit 4 l = l" "take_bit 4 m = m"
    by (simp_all add: take_bit_nat_eq_self_iff)
  have c: "x + 16 * y = (push_bit 4 y OR x)" if "take_bit 4 x = x" for x y :: nat
  proof -
    have "push_bit 4 y AND x = 0"
      by (subst that [symmetric]) (rule bit_eqI, auto simp: bit_simps)
    from disjunctive_add_eq_or [OF this] have "push_bit 4 y + x = (push_bit 4 y OR x)" .
    then show ?thesis by (simp add: push_bit_eq_mult ac_simps)
  qed
  have t: "take_bit 4 (l AND m) = l AND m"
    using lm by simp
  have low: "bit l i \<Longrightarrow> i < 4" "bit m i \<Longrightarrow> i < 4" for i
    using lm by (metis bit_take_bit_iff)+
  show ?thesis
    unfolding c [OF lm(1)] c [OF lm(2)] c [OF t]
    by (rule bit_eqI) (auto simp: bit_simps dest: low)
qed

lemma hex_and:
  assumes "length ms = length ds" and "\<forall>d \<in> set ds. d < 16" and "\<forall>m \<in> set ms. m < 16"
  shows "hex ds AND hex ms = hex (map2 (AND) ds ms)"
  using assms by (induction ms ds rule: list_induct2) (simp_all add: and_16)

lemma hex_bound: "\<forall>d \<in> set ds. d < 16 \<Longrightarrow> hex ds < 16 ^ length ds"
  by (induction ds) auto

primrec digits :: "nat \<Rightarrow> nat \<Rightarrow> nat list" where
  "digits 0 n = []"
| "digits (Suc k) n = n mod 16 # digits k (n div 16)"

lemma hex_digits: "n < 16 ^ k \<Longrightarrow> hex (digits k n) = n"
  by (induction k arbitrary: n) (auto simp: less_mult_imp_div_less)

lemma digits_props: "length (digits k n) = k" "\<forall>d \<in> set (digits k n). d < 16"
  by (induction k arbitrary: n) auto

lemma hex_double: "hex (map ((*) 2) ds) = 2 * hex ds" "hex (map ((*) 4) ds) = 4 * hex ds"
  by (induction ds) auto

lemma less_16_cases:
  "d < (16 :: nat) \<Longrightarrow> d = 0 \<or> d = 1 \<or> d = 2 \<or> d = 3 \<or> d = 4 \<or> d = 5 \<or> d = 6 \<or> d = 7
     \<or> d = 8 \<or> d = 9 \<or> d = 10 \<or> d = 11 \<or> d = 12 \<or> d = 13 \<or> d = 14 \<or> d = 15"
  by presburger

lemma nibble_masks:
  assumes "d < (16 :: nat)"
  shows "d AND 10 = 2 * (d div 2 mod 2 + 4 * (d div 8))" "d AND 3 = d mod 4" "d AND 12 = 4 * (d div 4)"
    "d AND 15 = d" "d AND 0 = 0"
  using less_16_cases [OF assms] by auto

lemma hex_map_diff:
  "\<forall>d \<in> set ds. g d \<le> f d \<Longrightarrow> hex (map f ds) - hex (map g ds) = hex (map (\<lambda>d. f d - g d) ds)
     \<and> hex (map g ds) \<le> hex (map f ds)"
proof (induction ds)
  case (Cons d ds)
  then have "hex (map f ds) - hex (map g ds) = hex (map (\<lambda>d. f d - g d) ds)"
    "hex (map g ds) \<le> hex (map f ds)" "g d \<le> f d"
    by auto
  then show ?case by (simp; linarith)
qed simp

lemma hex_map_add: "hex (map f ds) + hex (map g ds) = hex (map (\<lambda>d. f d + g d) ds)"
  by (induction ds) auto

lemma hex_map_and:
  assumes "\<forall>d \<in> set ds. f d < 16" and "m < 16"
  shows "hex (map f ds) AND hex (replicate (length ds) m) = hex (map (\<lambda>d. f d AND m) ds)"
proof -
  have "map2 (AND) (map f ds) (replicate (length ds) m) = map (\<lambda>d. f d AND m) ds"
    by (induction ds) auto
  then show ?thesis
    using assms by (subst hex_and) auto
qed

text \<open>The ones of a number below its \<open>n\<close>-th bit.\<close>

definition ones :: "nat \<Rightarrow> nat \<Rightarrow> nat" where
  "ones n x = length (filter (bit x) [0..<n])"

lemma ones_split: "ones (m + n) x = ones m (x mod 2 ^ m) + ones n (x div 2 ^ m)"
proof -
  have "[0..<m + n] = [0..<m] @ map (\<lambda>i. i + m) [0..<n]"
    using upt_add_eq_append [of 0 m n] by (simp add: map_add_upt add.commute)
  moreover have "filter (bit x) [0..<m] = filter (bit (x mod 2 ^ m)) [0..<m]"
    by (rule filter_cong) (auto simp: bit_take_bit_iff simp flip: take_bit_eq_mod)
  moreover have "length (filter (bit x) (map (\<lambda>i. i + m) [0..<n])) = length (filter (bit (x div 2 ^ m)) [0..<n])"
    by (simp add: filter_map comp_def bit_drop_bit_eq add.commute flip: drop_bit_eq_div)
  ultimately show ?thesis
    by (simp add: ones_def)
qed

lemma ones_digits: "ones (4 * k) x = (\<Sum>d\<leftarrow>digits k x. ones 4 d)"
proof (induction k arbitrary: x)
  case (Suc k)
  have "ones (4 * Suc k) x = ones 4 (x mod 2 ^ 4) + ones (4 * k) (x div 2 ^ 4)"
    using ones_split [of 4 "4 * k" x] by simp
  with Suc show ?case by simp
qed (simp add: ones_def)

text \<open>The ones of one digit, as the first two steps compute them.\<close>

definition pairs :: "nat \<Rightarrow> nat" where
  "pairs d = d - (d div 2 mod 2 + 4 * (d div 8))"

lemma nibble_ones:
  assumes "d < 16"
  shows "d div 2 mod 2 + 4 * (d div 8) \<le> d" "pairs d < 16" "pairs d mod 4 + pairs d div 4 = ones 4 d" "ones 4 d \<le> 4"
proof -
  have "[0..<4] = [0, 1, 2, 3 :: nat]"
    by (simp add: upt_rec)
  with less_16_cases [OF assms] show "d div 2 mod 2 + 4 * (d div 8) \<le> d" "pairs d < 16"
    "pairs d mod 4 + pairs d div 4 = ones 4 d" "ones 4 d \<le> 4"
    by (auto simp: ones_def pairs_def bit_0)
qed

lemma byte_sum:
  assumes "s0 \<le> (8 :: nat)" "s1 \<le> 8" "s2 \<le> 8" "s3 \<le> 8"
  shows "(s0 + 256 * s1 + 65536 * s2 + 16777216 * s3) * 16843009 mod 4294967296 div 16777216 = s0 + s1 + s2 + s3"
proof -
  define L where "L = s0 + 256 * (s0 + s1) + 65536 * (s0 + s1 + s2)"
  define K where "K = s1 + s2 + s3 + 256 * (s2 + s3) + 65536 * s3"
  have L: "L < 16777216"
    using assms unfolding L_def by simp
  have "(s0 + 256 * s1 + 65536 * s2 + 16777216 * s3) * 16843009
      = L + 16777216 * (s0 + s1 + s2 + s3) + 4294967296 * K"
    unfolding L_def K_def by algebra
  also have "\<dots> mod 4294967296 = L + 16777216 * (s0 + s1 + s2 + s3)"
    using L assms by (simp only: mod_mult_self2) simp
  also have "\<dots> div 16777216 = s0 + s1 + s2 + s3"
    using L by (simp only: div_mult_self2 div_less)
  finally show ?thesis .
qed

lemma replicate_8: "replicate 8 m = [m, m, m, m, m, m, m, m]"
  by (simp add: numeral_eq_Suc)

text \<open>The three steps on the digits of the word.\<close>

lemma popcount_step1:
  assumes ds: "\<forall>d \<in> set ds. d < 16" "length ds = 8" and x: "unat (x :: uint32) = hex ds"
  shows "unat (x - (drop_bit 1 x AND 0x55555555)) = hex (map pairs ds)"
proof -
  let ?h = "\<lambda>d. d div 2 mod 2 + 4 * (d div 8 :: nat)"
  have "hex ds AND hex (replicate 8 10) = hex (map (\<lambda>d. 2 * ?h d) ds)"
    using hex_map_and [of ds id 10] ds nibble_masks(1) by (simp cong: map_cong)
  also have "\<dots> = 2 * hex (map ?h ds)"
    using hex_double(1) [of "map ?h ds"] by (simp add: comp_def)
  finally have "drop_bit 1 (hex ds AND hex (replicate 8 10)) = hex (map ?h ds)"
    by (simp add: drop_bit_eq_div)
  moreover have "hex (replicate 8 10) = 0xAAAAAAAA"
    by (simp add: replicate_8)
  ultimately have m: "unat (drop_bit 1 x AND 0x55555555) = hex (map ?h ds)"
    by (simp add: unsigned_and_eq unat_drop_bit_eq x)
  have "\<forall>d \<in> set ds. ?h d \<le> id d"
    using ds(1) nibble_ones(1) by simp
  from hex_map_diff [OF this] have d: "hex ds - hex (map ?h ds) = hex (map pairs ds)" "hex (map ?h ds) \<le> hex ds"
    by (simp_all add: pairs_def [abs_def])
  then show ?thesis
    using m x by (subst unat_sub) (simp_all add: word_le_nat_alt)
qed

lemma popcount_step2:
  assumes ds: "\<forall>d \<in> set ds. d < 16" "length ds = 8" and x: "unat (x :: uint32) = hex (map pairs ds)"
  shows "unat ((x AND 0x33333333) + (drop_bit 2 x AND 0x33333333)) = hex (map (ones 4) ds)"
proof -
  have p: "\<forall>d \<in> set ds. pairs d < 16"
    using ds(1) nibble_ones(2) by blast
  have masks: "hex (replicate 8 3) = 0x33333333" "hex (replicate 8 12) = 0xCCCCCCCC"
    by (simp_all add: replicate_8)
  have lo: "unat (x AND 0x33333333) = hex (map (\<lambda>d. pairs d mod 4) ds)"
    using hex_map_and [OF p, of 3] p nibble_masks(2) ds(2) masks(1)
    by (simp add: unsigned_and_eq x cong: map_cong)
  have "hex (map pairs ds) AND hex (replicate 8 12) = 4 * hex (map (\<lambda>d. pairs d div 4) ds)"
    using hex_map_and [OF p, of 12] p nibble_masks(3) ds(2) hex_double(2) [of "map (\<lambda>d. pairs d div 4) ds"]
    by (simp add: comp_def cong: map_cong)
  then have "drop_bit 2 (hex (map pairs ds) AND 0xCCCCCCCC) = hex (map (\<lambda>d. pairs d div 4) ds)"
    by (simp add: masks(2) drop_bit_eq_div)
  then have hi: "unat (drop_bit 2 x AND 0x33333333) = hex (map (\<lambda>d. pairs d div 4) ds)"
    by (simp add: unsigned_and_eq unat_drop_bit_eq x)
  have sum: "hex (map (\<lambda>d. pairs d mod 4) ds) + hex (map (\<lambda>d. pairs d div 4) ds) = hex (map (ones 4) ds)"
    unfolding hex_map_add using ds(1) nibble_ones(3) by (simp cong: map_cong)
  have "\<forall>d \<in> set (map (ones 4) ds). d < 16"
    using ds(1) nibble_ones(4) by fastforce
  from hex_bound [OF this] have "hex (map (ones 4) ds) < 2 ^ 32"
    using ds(2) by simp
  with lo hi sum show ?thesis
    by (subst unat_add_no_overflow) simp_all
qed

lemma popcount_step3:
  assumes r: "\<forall>d \<in> set rs. d \<le> 4" "length rs = 8" and x: "unat (x :: uint32) = hex rs"
  shows "unat (drop_bit 24 (((x + drop_bit 4 x) AND 0x0f0f0f0f) * 0x01010101)) = sum_list rs"
proof -
  obtain r0 r1 r2 r3 r4 r5 r6 r7 where rs: "rs = [r0, r1, r2, r3, r4, r5, r6, r7]"
    using r(2) by (auto simp: numeral_eq_Suc length_Suc_conv)
  have b: "r0 \<le> 4" "r1 \<le> 4" "r2 \<le> 4" "r3 \<le> 4" "r4 \<le> 4" "r5 \<le> 4" "r6 \<le> 4" "r7 \<le> 4"
    using r(1) by (simp_all add: rs)
  have "unat (drop_bit 4 x) = drop_bit 4 (hex rs)"
    by (simp only: unat_drop_bit_eq x)
  also have "\<dots> = hex [r1, r2, r3, r4, r5, r6, r7]"
    using b by (simp add: rs drop_bit_eq_div)
  finally have sh: "unat (drop_bit 4 x) = hex [r1, r2, r3, r4, r5, r6, r7]" .
  have "unat (x + drop_bit 4 x) = hex [r0 + r1, r1 + r2, r2 + r3, r3 + r4, r4 + r5, r5 + r6, r6 + r7, r7]"
    using b by (subst unat_add_no_overflow) (simp_all add: sh x rs del: drop_bit_numeral_bit0 drop_bit_numeral_bit1)
  moreover have "hex [r0 + r1, r1 + r2, r2 + r3, r3 + r4, r4 + r5, r5 + r6, r6 + r7, r7] AND hex [15, 0, 15, 0, 15, 0, 15, 0]
      = hex [r0 + r1, 0, r2 + r3, 0, r4 + r5, 0, r6 + r7, 0]"
    using b by (subst hex_and) (simp_all add: nibble_masks(4))
  ultimately have m: "unat ((x + drop_bit 4 x) AND 0x0f0f0f0f) = hex [r0 + r1, 0, r2 + r3, 0, r4 + r5, 0, r6 + r7, 0]"
    by (simp add: unsigned_and_eq)
  then have "unat (((x + drop_bit 4 x) AND 0x0f0f0f0f) * 0x01010101)
      = (r0 + r1 + 256 * (r2 + r3) + 65536 * (r4 + r5) + 16777216 * (r6 + r7)) * 16843009 mod 4294967296"
    by (simp add: unat_word_ariths add.assoc)
  with byte_sum [of "r0 + r1" "r2 + r3" "r4 + r5" "r6 + r7"] b show ?thesis
    unfolding unat_drop_bit_eq by (simp add: drop_bit_eq_div rs)
qed

lemma Count32MLC1_ones: "Count32MLC1 x = of_nat (ones 32 (unat x))"
proof -
  let ?ds = "digits 8 (unat x)"
  have x: "unat x = hex ?ds"
    using unsigned_less [where 'a = nat, of x] by (simp add: hex_digits)
  note ds = digits_props(2,1) [of 8 "unat x"]
  note s1 = popcount_step1 [OF ds x]
  note s2 = popcount_step2 [OF ds s1]
  have "\<forall>d \<in> set (map (ones 4) ?ds). d \<le> 4"
    using ds(1) nibble_ones(4) by auto
  note s3 = popcount_step3 [OF this _ s2]
  have "sum_list (map (ones 4) ?ds) = ones 32 (unat x)" "length (map (ones 4) ?ds) = 8"
    using ones_digits [of 8 "unat x"] ds(2) by simp_all
  moreover have "ucast w = (of_nat (unat w) :: uint64)" for w :: uint32
    by simp
  ultimately show ?thesis
    using s3 unfolding Count32MLC1_def Let_def by metis
qed

subsection \<open>Two-bit cells\<close>

text \<open>The value of the \<open>k\<close>-th two-bit cell.\<close>

definition cell2 :: "uint32 \<Rightarrow> nat \<Rightarrow> nat" where
  "cell2 d k = of_bool (bit d (2 * k)) + 2 * of_bool (bit d (2 * k + 1))"

lemma cell2_less: "cell2 d k < 4"
  by (simp add: cell2_def)

lemma ones_pairs: "ones (2 * n) x = (\<Sum>k\<leftarrow>[0..<n]. of_bool (bit x (2 * k)) + of_bool (bit x (2 * k + 1)))"
  by (induction n) (simp_all add: ones_def)

lemma less_16_ball: "(\<And>k. k \<in> set [0..<16] \<Longrightarrow> P k) \<Longrightarrow> k < 16 \<Longrightarrow> P k"
  by auto

lemma upt_16: "[0..<16] = [0, 1, 2, 3, 4, 5, 6, 7, 8, 9, 10, 11, 12, 13, 14, 15 :: nat]"
  by (simp add: upt_rec)

lemma mask_bits:
  assumes "k < 16"
  shows "bit (0x55555555 :: uint32) (2 * k)" "\<not> bit (0x55555555 :: uint32) (2 * k + 1)"
    "\<not> bit (0xAAAAAAAA :: uint32) (2 * k)" "bit (0xAAAAAAAA :: uint32) (2 * k + 1)"
    "bit (0xFFFFFFFF :: uint32) (2 * k)" "bit (0xFFFFFFFF :: uint32) (2 * k + 1)"
  using less_16_cases [OF assms] by auto

lemma Count32MLC2_cells:
  assumes "v < 4"
  shows "Count32MLC2 v d = Some (of_nat (length (filter (\<lambda>k. cell2 d k = unat v) [0..<16])))"
proof -
  let ?d = "if v = 0 then d XOR 0xFFFFFFFF else if v = 1 then d XOR 0xAAAAAAAA
    else if v = 2 then d XOR 0x55555555 else d"
  let ?c = "(?d AND 0x55555555) AND drop_bit 1 (?d AND 0xAAAAAAAA)"
  have v: "v = 0 \<or> v = 1 \<or> v = 2 \<or> v = 3"
  proof -
    have "unat v < 4"
      using assms by (simp add: word_less_nat_alt)
    then have n4: "unat v = 0 \<or> unat v = 1 \<or> unat v = 2 \<or> unat v = 3"
      by linarith
    have eq: "v = of_nat n" if "unat v = n" for n
      by (simp only: that [symmetric] word_of_nat_unat)
    from n4 show ?thesis
      by (elim disjE) (drule eq, simp)+
  qed
  have even: "bit ?c (2 * k) \<longleftrightarrow> cell2 d k = unat v" and odd: "\<not> bit ?c (2 * k + 1)" if "k < 16" for k
    using v mask_bits [OF that] that
    by (elim disjE; simp add: bit_and_iff bit_xor_iff bit_drop_bit_eq cell2_def)+
  have "ones 32 (unat ?c) = (\<Sum>k\<leftarrow>[0..<16]. of_bool (bit ?c (2 * k)) + of_bool (bit ?c (2 * k + 1)))"
    using ones_pairs [of 16 "unat ?c"] by (simp add: bit_unsigned_iff)
  also have "\<dots> = (\<Sum>k\<leftarrow>[0..<16]. of_bool (cell2 d k = unat v))"
    using even odd by (intro arg_cong [of _ _ sum_list] map_cong) auto
  also have "\<dots> = length (filter (\<lambda>k. cell2 d k = unat v) [0..<16])"
    by (rule sum_list_of_bool)
  finally show ?thesis
    using assms by (simp add: Count32MLC2_def Let_def Count32MLC1_ones)
qed

lemma filter_partition4:
  assumes "\<forall>x \<in> set xs. f x < (4 :: nat)"
  shows "length (filter (\<lambda>x. f x = 0) xs) + length (filter (\<lambda>x. f x = 1) xs)
    + length (filter (\<lambda>x. f x = 2) xs) + length (filter (\<lambda>x. f x = 3) xs) = length xs"
  using assms by (induction xs) auto

lemma count_words_sum:
  assumes "\<And>d. cnt d = Some (g d)" and "n \<le> length data"
  shows "count_words cnt data n = Some (\<Sum>d\<leftarrow>take n data. g d)"
  using assms(2) by (induction n) (simp_all add: assms(1) take_Suc_conv_app_nth)

lemma sum_list_add4:
  fixes f0 f1 f2 f3 :: "'a \<Rightarrow> ncounter_t"
  assumes "\<And>x. f0 x + f1 x + f2 x + f3 x = c"
  shows "(\<Sum>x\<leftarrow>xs. f0 x) + (\<Sum>x\<leftarrow>xs. f1 x) + (\<Sum>x\<leftarrow>xs. f2 x) + (\<Sum>x\<leftarrow>xs. f3 x) = of_nat (length xs) * c"
proof (induction xs)
  case (Cons x xs)
  have "(\<Sum>x\<leftarrow>x # xs. f0 x) + (\<Sum>x\<leftarrow>x # xs. f1 x) + (\<Sum>x\<leftarrow>x # xs. f2 x) + (\<Sum>x\<leftarrow>x # xs. f3 x)
      = (f0 x + f1 x + f2 x + f3 x) + ((\<Sum>x\<leftarrow>xs. f0 x) + (\<Sum>x\<leftarrow>xs. f1 x) + (\<Sum>x\<leftarrow>xs. f2 x) + (\<Sum>x\<leftarrow>xs. f3 x))"
    by (simp add: algebra_simps)
  with Cons assms [of x] show ?case
    by (simp add: algebra_simps)
qed simp

lemma words_of_bytes_length: "length (words_of_bytes bs) = length bs div 4"
  by (induction bs rule: words_of_bytes.induct) auto

lemma mlc2_counts:
  assumes "unat words \<le> length data"
  shows "\<exists>c0 c1 c2 c3. CountBitsMLC2 0 data words = Some c0 \<and> CountBitsMLC2 1 data words = Some c1
      \<and> CountBitsMLC2 2 data words = Some c2 \<and> CountBitsMLC2 3 data words = Some c3
      \<and> c0 + c1 + c2 + c3 = words * 16"
proof -
  let ?g = "\<lambda>v d. of_nat (length (filter (\<lambda>k. cell2 d k = v) [0..<16])) :: ncounter_t"
  have c: "CountBitsMLC2 v data words = Some (\<Sum>d\<leftarrow>take (unat words) data. ?g (unat v) d)" if "v < 4" for v
    unfolding CountBitsMLC2_def by (intro count_words_sum Count32MLC2_cells [OF that] assms)
  have "?g 0 d + ?g 1 d + ?g 2 d + ?g 3 d = 16" for d
  proof -
    have "length (filter (\<lambda>k. cell2 d k = 0) [0..<16]) + length (filter (\<lambda>k. cell2 d k = 1) [0..<16])
        + length (filter (\<lambda>k. cell2 d k = 2) [0..<16]) + length (filter (\<lambda>k. cell2 d k = 3) [0..<16]) = 16"
      using filter_partition4 [of "[0..<16]" "cell2 d"] cell2_less by simp
    from arg_cong [OF this, of "of_nat :: nat \<Rightarrow> ncounter_t"] show ?thesis by simp
  qed
  note sum = sum_list_add4 [of "?g 0" "?g 1" "?g 2" "?g 3" 16 "take (unat words) data", OF this]
  have "of_nat (length (take (unat words) data)) = words"
    using assms by (simp add: min_absorb2)
  then have "(\<Sum>d\<leftarrow>take (unat words) data. ?g 0 d) + (\<Sum>d\<leftarrow>take (unat words) data. ?g 1 d)
      + (\<Sum>d\<leftarrow>take (unat words) data. ?g 2 d) + (\<Sum>d\<leftarrow>take (unat words) data. ?g 3 d) = words * 16"
    using sum by simp
  then show ?thesis
    using c [of 0] c [of 1] c [of 2] c [of 3] by simp
qed

lemma mlc1_counts:
  assumes "unat words \<le> length data"
  shows "\<exists>c0 c1. CountBitsMLC1 0 data words = Some c0 \<and> CountBitsMLC1 1 data words = Some c1 \<and> c0 + c1 = words * 32"
proof -
  have "CountBitsMLC1 v data words = Some (let n = (\<Sum>d\<leftarrow>take (unat words) data. Count32MLC1 d)
      in if v = 1 then n else words * 32 - n)" for v
    unfolding CountBitsMLC1_def using count_words_sum [of "\<lambda>d. Some (Count32MLC1 d)" Count32MLC1, OF _ assms]
    by (simp add: Let_def)
  then show ?thesis
    by (auto simp: Let_def)
qed

subsection \<open>Properties of the counters\<close>

text \<open>C23: The parallel-addition routine \<^verbatim>\<open>Count32MLC1\<close> returns, for every 32-bit
  word, the number of its bits that are 1.\<close>

theorem count32_is_popcount: "Count32MLC1 data = of_nat (length (filter (bit data) [0..<32]))"
proof -
  have "filter (bit (unat data)) [0..<32] = filter (bit data) [0..<32]"
    by (rule filter_cong) (auto simp: bit_unsigned_iff)
  then show ?thesis
    by (simp add: Count32MLC1_ones ones_def)
qed

text \<open>C24: Over a buffer that holds at least \<open>words\<close> words, the counts of the four values
  of a two-bit cell are defined and add up to the number of cells, and the counts of zeros and
  ones add up to the number of bits.\<close>

theorem cell_counts_complete:
  assumes "unat words \<le> length data"
  shows "(\<exists>c0 c1 c2 c3. CountBitsMLC2 0 data words = Some c0 \<and> CountBitsMLC2 1 data words = Some c1
      \<and> CountBitsMLC2 2 data words = Some c2 \<and> CountBitsMLC2 3 data words = Some c3
      \<and> c0 + c1 + c2 + c3 = words * 16)
    \<and> (\<exists>c0 c1. CountBitsMLC1 0 data words = Some c0 \<and> CountBitsMLC1 1 data words = Some c1
      \<and> c0 + c1 = words * 32)"
  using mlc2_counts [OF assms] mlc1_counts [OF assms] by blast

theorem cell_counts_complete_witness:
  "\<exists>c0 c1 c2 c3. CountBitsMLC2 0 [0x1234ABCD] 1 = Some c0 \<and> CountBitsMLC2 1 [0x1234ABCD] 1 = Some c1
     \<and> CountBitsMLC2 2 [0x1234ABCD] 1 = Some c2 \<and> CountBitsMLC2 3 [0x1234ABCD] 1 = Some c3
     \<and> c0 + c1 + c2 + c3 = 16"
  using cell_counts_complete [of 1 "[0x1234ABCD]"] by simp

end
