(* ===== verification/Sub_Array.thy ===== *)
theory Sub_Array
  imports Memory_World Endurance Flip_N_Write Cell_Counting
begin

text \<open>
  The subarray (\<^verbatim>\<open>src/SubArray.h\<close>, \<^verbatim>\<open>src/SubArray.cpp\<close>): the end point of
  every command. It keeps the earliest cycle of each kind of command, the open row, the state
  machine closed / open / precharging / refreshing, and the write in progress with what is
  needed to pause or cancel it. Commands schedule their completion in the event queue;
  \<^verbatim>\<open>RequestComplete\<close> is what the queue calls back.

  An operation takes the shared state and the subarray and returns them with the C++ result;
  \<open>None\<close> is a failed assertion, a dereferenced null pointer or an access outside a
  buffer. The environment holds what the object does not change: its parameters, its own
  identity, the children of its parent (for the search of its hook) and the two random
  sources (\<^verbatim>\<open>rand()\<close> behind the endurance distribution and behind the pulse count of
  multi-level cells), read by the index of the draw.

  The statistics are one nested record. \<^verbatim>\<open>double\<close> and \<^verbatim>\<open>float\<close> fields are
  rationals with \<open>x / 0 = 0\<close>; the one comparison of such a quotient that decides
  anything (\<^verbatim>\<open>writePercent\<close>) treats the zero divisor explicitly, as IEEE arithmetic does.
  Error messages and the text of the histograms are not modelled, nor are the members no
  operation reads (\<^verbatim>\<open>psInterval\<close>, \<^verbatim>\<open>MATWidth\<close>, \<^verbatim>\<open>lastOperation\<close>,
  \<^verbatim>\<open>idleTimer\<close>, the four \<^verbatim>\<open>numXXWrites\<close>).
\<close>

datatype SubArrayState =
  SUBARRAY_UNKNOWN | SUBARRAY_OPEN | SUBARRAY_CLOSED | SUBARRAY_PRECHARGING | SUBARRAY_REFRESHING

datatype WriteMode = WRITE_BACK | WRITE_THROUGH | DELAYED_WRITE

datatype EnduranceKind = NullModel | RowModel | WordModel | ByteModel | BitModel

datatype Encoder = DefaultEncoder | FlipEncoder FlipNWrite

record SubArrayEnv =
  prm :: Params
  self :: nat
  siblings :: "(nat \<times> nat) list"
  endurance_draw :: "nat \<Rightarrow> uint64"
  pulse_draw :: "nat \<Rightarrow> uint64 \<Rightarrow> uint64 \<Rightarrow> uint64"

record SubArrayStats =
  dataCycles :: ncounter_t
  worstCaseWrite :: ncycle_t
  averageWriteTime :: rat
  measuredWriteTimes :: ncounter_t
  averagePausesPerRequest :: rat
  measuredPauses :: ncounter_t
  averagePausedRequestProgress :: rat
  measuredProgresses :: ncounter_t
  cancelledWrites :: ncounter_t
  cancelledWriteTime :: ncounter_t
  pausedWrites :: ncounter_t
  actWaits :: ncounter_t
  actWaitTotal :: ncounter_t
  actWaitAverage :: rat
  subArrayEnergy :: rat
  activeEnergy :: rat
  burstEnergy :: rat
  writeEnergy :: rat
  refreshEnergy :: rat
  worstCaseEndurance :: uint64
  averageEndurance :: uint64
  reads :: ncounter_t
  writes :: ncounter_t
  activates :: ncounter_t
  precharges :: ncounter_t
  refreshes :: ncounter_t
  mlcTimingMap :: "(uint64 \<times> uint64) list"
  cancelCountMap :: "(uint64 \<times> uint64) list"
  wpPauseMap :: "(rat \<times> uint64) list"
  wpCancelMap :: "(rat \<times> uint64) list"

definition SubArrayStats_new :: SubArrayStats where
  "SubArrayStats_new = \<lparr>dataCycles = 0, worstCaseWrite = 0, averageWriteTime = 0, measuredWriteTimes = 0,
     averagePausesPerRequest = 0, measuredPauses = 0, averagePausedRequestProgress = 0,
     measuredProgresses = 0, cancelledWrites = 0, cancelledWriteTime = 0, pausedWrites = 0,
     actWaits = 0, actWaitTotal = 0, actWaitAverage = 0, subArrayEnergy = 0, activeEnergy = 0,
     burstEnergy = 0, writeEnergy = 0, refreshEnergy = 0, worstCaseEndurance = 0, averageEndurance = 0,
     reads = 0, writes = 0, activates = 0, precharges = 0, refreshes = 0,
     mlcTimingMap = [], cancelCountMap = [], wpPauseMap = [], wpCancelMap = []\<rparr>"

record SubArray =
  state :: SubArrayState
  nextCommand :: BulkCommand
  lastActivate :: ncycle_t
  nextActivate :: ncycle_t
  nextPrecharge :: ncycle_t
  nextRead :: ncycle_t
  nextWrite :: ncycle_t
  nextPowerDown :: ncycle_t
  writeCycle :: bool
  writeBackRequests :: "nat list"
  isWriting :: bool
  writeEnd :: ncycle_t
  writeStart :: ncycle_t
  writeIterationStarts :: "ncycle_t list"
  writeRequest :: "nat option"
  writeEvent :: "nat option"
  writeEventTime :: ncycle_t
  writeMode :: WriteMode
  nextActivatePreWrite :: ncycle_t
  nextPrechargePreWrite :: ncycle_t
  nextReadPreWrite :: ncycle_t
  nextWritePreWrite :: ncycle_t
  nextPowerDownPreWrite :: ncycle_t
  averageWriteIterations :: ncounter_t
  openRow :: ncounter_t
  dataEncoder :: "Encoder option"
  endrModel :: "(EnduranceKind \<times> EnduranceModel) option"
  stats :: SubArrayStats

definition SubArray_new :: SubArray where
  "SubArray_new = \<lparr>state = SUBARRAY_CLOSED, nextCommand = CMD_NOP, lastActivate = 0, nextActivate = 0,
     nextPrecharge = 0, nextRead = 0, nextWrite = 0, nextPowerDown = 0, writeCycle = False,
     writeBackRequests = [], isWriting = False, writeEnd = 0, writeStart = 0,
     writeIterationStarts = [], writeRequest = None, writeEvent = None, writeEventTime = 0,
     writeMode = WRITE_THROUGH, nextActivatePreWrite = 0, nextPrechargePreWrite = 0,
     nextReadPreWrite = 0, nextWritePreWrite = 0, nextPowerDownPreWrite = 0,
     averageWriteIterations = 1, openRow = 0, dataEncoder = None, endrModel = None,
     stats = SubArrayStats_new\<rparr>"

text \<open>\<open>wm\<close> is the value of the configuration key \<^verbatim>\<open>WriteMode\<close>, if any; \<open>enc\<close> and \<open>endr\<close>
  are what the factories return.\<close>

definition SubArray_SetConfig ::
  "Params \<Rightarrow> string option \<Rightarrow> bool \<Rightarrow> Encoder option \<Rightarrow> (EnduranceKind \<times> EnduranceModel) option
     \<Rightarrow> SubArray \<Rightarrow> SubArray" where
  "SubArray_SetConfig p wm createChildren enc endr s =
     (let s1 = (case wm of
                  None \<Rightarrow> s
                | Some m \<Rightarrow> s\<lparr>writeMode := (if m = ''WriteThrough'' then WRITE_THROUGH
                                             else if m = ''WriteBack'' then WRITE_BACK else WRITE_THROUGH)\<rparr>);
          totalWritePulses = nWP00 p + nWP01 p + nWP10 p + nWP11 p;
          s2 = s1\<lparr>averageWriteIterations := (totalWritePulses + 2) div 4\<rparr>
      in if createChildren then s2\<lparr>endrModel := endr, dataEncoder := enc\<rparr> else s2)"

type_synonym sub_state = "World \<times> SubArray"

subsection \<open>Statistics and small helpers\<close>

definition rat_of :: "uint64 \<Rightarrow> rat" where
  "rat_of w = of_nat (unat w)"

definition upd_stats :: "(SubArrayStats \<Rightarrow> SubArrayStats) \<Rightarrow> SubArray \<Rightarrow> SubArray" where
  "upd_stats f s = s\<lparr>stats := f (stats s)\<rparr>"

text \<open>\<^verbatim>\<open>if( m.count( k ) ) m[k]++; else m[k] = first;\<close>\<close>

definition bump :: "uint64 \<Rightarrow> 'k :: linorder \<Rightarrow> ('k \<times> uint64) list \<Rightarrow> ('k \<times> uint64) list" where
  "bump first k m = om_insert k (case map_of m k of None \<Rightarrow> first | Some n \<Rightarrow> n + 1) m"

text \<open>A running average over \<open>n\<close> samples.\<close>

definition running_avg :: "rat \<Rightarrow> ncounter_t \<Rightarrow> rat \<Rightarrow> rat" where
  "running_avg avg n x = (avg * rat_of n + x) / (rat_of n + 1)"

definition record_write_time :: "ncycle_t \<Rightarrow> SubArray \<Rightarrow> SubArray" where
  "record_write_time t = upd_stats (\<lambda>st. st\<lparr>averageWriteTime := running_avg (averageWriteTime st) (measuredWriteTimes st) (rat_of t),
     measuredWriteTimes := measuredWriteTimes st + 1\<rparr>)"

definition activate_energy :: "Params \<Rightarrow> rat" where
  "activate_energy p =
     (if EnergyModel p = ''current''
      then (EIDD0 p * rat_of (tRAS p + tRP p) - (EIDD3N p * rat_of (tRAS p) + EIDD2N p * rat_of (tRP p))) / rat_of (BANKS p)
      else Erd p)"

definition burst_energy :: "Params \<Rightarrow> rat \<Rightarrow> rat" where
  "burst_energy p e = ((e - EIDD3N p) * rat_of (tBURST p)) / rat_of (BANKS p)"

text \<open>\<^verbatim>\<open>MAX( p->tBURST, p->tCCD )\<close>, the cycles between two bursts.\<close>

abbreviation burst_gap :: "Params \<Rightarrow> ncycle_t" where
  "burst_gap p \<equiv> max (tBURST p) (tCCD p)"

subsection \<open>Pausing and cancelling a write\<close>

text \<open>The last iteration start that is not after the current cycle, \<open>writeStart\<close> if there is
  none; the set is iterated in ascending order.\<close>

fun last_iteration_start :: "ncycle_t \<Rightarrow> ncycle_t list \<Rightarrow> ncycle_t \<Rightarrow> ncycle_t" where
  "last_iteration_start cur [] start = start"
| "last_iteration_start cur (i # is) start = (if i > cur then start else last_iteration_start cur is i)"

definition write_progress :: "Params \<Rightarrow> ncycle_t \<Rightarrow> SubArray \<Rightarrow> ncycle_t" where
  "write_progress p cur s =
     (if pauseMode p \<noteq> PauseMode_Optimal
      then writeEnd s - last_iteration_start cur (writeIterationStarts s) (writeStart s)
      else writeEnd s - cur)"

definition restore_timing :: "SubArray \<Rightarrow> SubArray" where
  "restore_timing s = s\<lparr>nextActivate := nextActivatePreWrite s, nextPrecharge := nextPrechargePreWrite s,
     nextWrite := nextWritePreWrite s, nextRead := nextReadPreWrite s, nextPowerDown := nextPowerDownPreWrite s\<rparr>"

text \<open>Removing a null event finds nothing; the next unused identity stands for it.\<close>

definition CheckWritePausing :: "SubArrayEnv \<Rightarrow> sub_state \<Rightarrow> sub_state option" where
  "CheckWritePausing env ws = (case ws of (w, s) \<Rightarrow>
     let p = prm env; cur = now w in
     if WritePausing p \<and> isWriting s then do {
       wr \<leftarrow> writeRequest s;
       let writeTimer = writeEnd s - writeStart s;
       let progress = write_progress p cur s;
       let writePercent = 1 - rat_of progress / rat_of writeTimer;
       let pause = (writeTimer \<noteq> 0 \<and> writePercent > PauseThreshold p);
       w1 \<leftarrow> update_request wr (\<lambda>req. req\<lparr>writeProgress := progress\<rparr>) w;
       let s1 = upd_stats (\<lambda>st. st\<lparr>averagePausedRequestProgress :=
                    running_avg (averagePausedRequestProgress st) (measuredProgresses st) writePercent,
                  measuredProgresses := measuredProgresses st + 1\<rparr>) s;
       (w2, s2) \<leftarrow> (if pause
          then do {
            w2 \<leftarrow> (if progress \<noteq> writeEnd s
                   then update_request wr (\<lambda>req. req\<lparr>flags := set_flag (flags req) FLAG_PAUSED\<rparr>) w1
                   else Some w1);
            Some (w2, upd_stats (\<lambda>st. st\<lparr>pausedWrites := (if progress \<noteq> writeEnd s then pausedWrites st + 1 else pausedWrites st),
                                       wpPauseMap := bump 1 writePercent (wpPauseMap st)\<rparr>) s1)
          }
          else do {
            w2 \<leftarrow> update_request wr (\<lambda>req.
                   let n = cancellations req + 1; fl = set_flag (flags req) FLAG_CANCELLED
                   in req\<lparr>cancellations := n,
                          flags := (if n \<ge> MaxCancellations p then set_flag fl FLAG_FORCED else fl)\<rparr>) w1;
            Some (w2, upd_stats (\<lambda>st. st\<lparr>cancelledWrites := cancelledWrites st + 1,
                                       cancelledWriteTime := cancelledWriteTime st + (cur - writeStart s),
                                       wpCancelMap := bump 1 writePercent (wpCancelMap st)\<rparr>) s1)
          });
       let q = snd (RemoveEvent (case writeEvent s of None \<Rightarrow> next_ref w2 | Some e \<Rightarrow> e) (writeEventTime s) (evq w2));
       w3 \<leftarrow> insert_response (siblings env) (self env) wr (cur + 1) (w2\<lparr>evq := q\<rparr>);
       Some (w3, restore_timing (s2\<lparr>writeEvent := None\<rparr>))
     }
     else Some (w, s))"

definition BetweenWriteIterations :: "sub_state \<Rightarrow> bool" where
  "BetweenWriteIterations ws = (isWriting (snd ws) \<and> now (fst ws) \<in> set (writeIterationStarts (snd ws)))"

subsection \<open>Write time and endurance\<close>

text \<open>A \<^verbatim>\<open>std::set\<close> of cycles is its ascending list.\<close>

abbreviation set_insert :: "ncycle_t \<Rightarrow> ncycle_t list \<Rightarrow> ncycle_t list" where
  "set_insert \<equiv> insort_insert"

definition charge_bits :: "Params \<Rightarrow> ncounter_t \<Rightarrow> ncounter_t \<Rightarrow> SubArray \<Rightarrow> SubArray" where
  "charge_bits p writeCount0 writeCount1 s =
     (if EnergyModel p \<noteq> ''current''
      then upd_stats (\<lambda>st. st\<lparr>subArrayEnergy := subArrayEnergy st + Ereset p * rat_of writeCount0 + Eset p * rat_of writeCount1,
                            writeEnergy := writeEnergy st + Ereset p * rat_of writeCount0 + Eset p * rat_of writeCount1\<rparr>) s
      else s)"

text \<open>The pulse count of a write that needs intermediate levels: the random sample clamped to
  the allowed deviation. The bounds are signed 64-bit values.\<close>

definition clamp_pulses :: "Params \<Rightarrow> ncycle_t \<Rightarrow> ncycle_t \<Rightarrow> ncycle_t" where
  "clamp_pulses p programPulseCount sample =
     (let maxPulseCount = WPMaxVariance p + programPulseCount;
          minPulseCount = (if sint (programPulseCount - WPMaxVariance p) < 0 then 0
                           else programPulseCount - WPMaxVariance p);
          n = (if sample > maxPulseCount then maxPulseCount else sample)
      in if n < minPulseCount then minPulseCount else n)"

text \<open>The pulse delays and pulse count of a two-bit write: the first pulse, the repeated one, the
  number of repetitions, and the draws used.\<close>

definition mlc2_pulses ::
  "SubArrayEnv \<Rightarrow> nat \<Rightarrow> ncounter_t \<Rightarrow> ncounter_t \<Rightarrow> ncounter_t \<Rightarrow> ncounter_t
     \<Rightarrow> (ncycle_t \<times> ncycle_t \<times> ncycle_t) \<times> nat" where
  "mlc2_pulses env n c00 c01 c10 c11 =
     (let p = prm env;
          delay00 = (if c00 = 0 then 0 else nWP00 p);
          delay01 = (if c01 = 0 then 0 else nWP01 p);
          delay10 = (if c10 = 0 then 0 else nWP10 p);
          delay11 = (if c11 = 0 then 0 else nWP11 p);
          programPulseCount = max (max delay00 delay01) (max delay10 delay11)
      in if c01 \<noteq> 0 \<or> c10 \<noteq> 0
         then (let pulses = clamp_pulses p programPulseCount (pulse_draw env n programPulseCount (WPVariance p))
               in (if programMode p = ProgramMode_SRMS then (tWP0 p, tWP1 p, pulses) else (tWP1 p, tWP0 p, pulses), Suc n))
         else if c00 \<noteq> 0 \<and> c11 = 0 then ((tWP0 p, 0, 0), n)
         else if c00 = 0 \<and> c11 \<noteq> 0 then ((tWP1 p, 0, 0), n)
         else ((max (tWP0 p) (tWP1 p), 0, 0), n))"

primrec iteration_starts :: "nat \<Rightarrow> ncycle_t \<Rightarrow> ncycle_t \<Rightarrow> ncycle_t list \<Rightarrow> ncycle_t list" where
  "iteration_starts 0 iterStart step l = l"
| "iteration_starts (Suc n) iterStart step l = iteration_starts n (iterStart + step) step (set_insert iterStart l)"

definition memoryWordSize :: "Params \<Rightarrow> uint32" where
  "memoryWordSize p = ucast (tBURST p * RATE p * BusWidth p)"

text \<open>\<open>words\<close> is the number of 32-bit words of a memory word, as a counter.\<close>

definition writeBytes32 :: "Params \<Rightarrow> ncounter_t" where
  "writeBytes32 p = ucast (memoryWordSize p div 32)"

definition WriteCellData :: "SubArrayEnv \<Rightarrow> nat \<Rightarrow> sub_state \<Rightarrow> (ncycle_t \<times> sub_state) option" where
  "WriteCellData env r ws = (case ws of (w, s0) \<Rightarrow> do {
     let p = prm env;
     let cur = now w;
     let words = writeBytes32 p;
     let s = s0\<lparr>writeIterationStarts := []\<rparr>;
     req \<leftarrow> heap w r;
     let raw = map_option words_of_bytes (rawData (req_data req));
     if UniformWrites p then do {
       let s1 = (if MLCLevels p > 1
                 then s\<lparr>writeIterationStarts :=
                        iteration_starts (unat (averageWriteIterations s)) cur (tWP p div averageWriteIterations s) []\<rparr>
                 else s);
       (c0, c1) \<leftarrow> (case raw of
          None \<Rightarrow> Some (256, 256)
        | Some data \<Rightarrow> do {
            c0 \<leftarrow> CountBitsMLC1 0 data words;
            c1 \<leftarrow> CountBitsMLC1 1 data words;
            Some (c0, c1)
          });
       Some (tWP p, (w, charge_bits p c0 c1 s1))
     }
     else (case raw of
        None \<Rightarrow> Some (tWP0 p, (w, s))
      | Some data \<Rightarrow>
          if MLCLevels p = 1 then do {
            c0 \<leftarrow> CountBitsMLC1 0 data words;
            c1 \<leftarrow> CountBitsMLC1 1 data words;
            Some (max (if c0 = 0 then 0 else tWP0 p) (if c1 = 0 then 0 else tWP1 p), (w, charge_bits p c0 c1 s))
          }
          else if MLCLevels p = 2 then do {
            c00 \<leftarrow> CountBitsMLC2 0 data words;
            c01 \<leftarrow> CountBitsMLC2 1 data words;
            c10 \<leftarrow> CountBitsMLC2 2 data words;
            c11 \<leftarrow> CountBitsMLC2 3 data words;
            if c00 + c01 + c10 + c11 = ucast (memoryWordSize p div 2) then do {
              let ((once, rep, pulses), n) = mlc2_pulses env (rng w) c00 c01 c10 c11;
              let maxDelay = once + pulses * rep;
              let s1 = s\<lparr>writeIterationStarts := iteration_starts (unat pulses) (cur + once) rep [cur]\<rparr>;
              Some (maxDelay, (w\<lparr>rng := n\<rparr>,
                upd_stats (\<lambda>st. st\<lparr>mlcTimingMap := bump 1 maxDelay (mlcTimingMap st),
                                 worstCaseWrite := (if maxDelay > worstCaseWrite st then maxDelay else worstCaseWrite st)\<rparr>) s1))
            }
            else None
          }
          else Some (0, (w, s)))
   })"

definition encoder_Write :: "SubArrayEnv \<Rightarrow> nat \<Rightarrow> sub_state \<Rightarrow> (ncycle_t \<times> sub_state) option" where
  "encoder_Write env r ws = (case ws of (w, s) \<Rightarrow>
     (case dataEncoder s of
        None \<Rightarrow> Some (0, (w, s))
      | Some DefaultEncoder \<Rightarrow> Some (0, (w, s))
      | Some (FlipEncoder f) \<Rightarrow> do {
          req \<leftarrow> heap w r;
          (lat, req', f') \<leftarrow> FlipNWrite_Write (prm env) req f;
          Some (lat, (w\<lparr>heap := (heap w)(r \<mapsto> req')\<rparr>, s\<lparr>dataEncoder := Some (FlipEncoder f')\<rparr>))
        }))"

definition encoder_Read :: "Encoder option \<Rightarrow> NVMainRequest \<Rightarrow> ncycles_t" where
  "encoder_Read enc req = (case enc of Some (FlipEncoder f) \<Rightarrow> FlipNWrite_Read req | _ \<Rightarrow> 0)"

definition endurance_Write ::
  "Params \<Rightarrow> (nat \<Rightarrow> uint64 \<times> nat) \<Rightarrow> EnduranceKind \<Rightarrow> NVMainRequest \<Rightarrow> NVMDataBlock \<Rightarrow> EnduranceModel \<times> nat
     \<Rightarrow> (ncycles_t \<times> (EnduranceModel \<times> nat)) option" where
  "endurance_Write p draw k req old ms =
     (case k of
        NullModel \<Rightarrow> Some (0, ms)
      | RowModel \<Rightarrow> Some (RowModel_Write draw req ms)
      | WordModel \<Rightarrow> WordModel_Write p draw req ms
      | ByteModel \<Rightarrow> ByteModel_Write p draw req old ms
      | BitModel \<Rightarrow> BitModel_Write p draw req old ms)"

fun zero_bytes :: "nat list \<Rightarrow> NVMDataBlock \<Rightarrow> NVMDataBlock option" where
  "zero_bytes [] d = Some d"
| "zero_bytes (i # is) d = Option.bind (SetByte (of_nat i) 0 d) (zero_bytes is)"

definition UpdateEndurance :: "SubArrayEnv \<Rightarrow> nat \<Rightarrow> sub_state \<Rightarrow> (ncycle_t \<times> sub_state) option" where
  "UpdateEndurance env r ws = (case ws of (w, s) \<Rightarrow>
     (case endrModel s of
        None \<Rightarrow> Some (0, ws)
      | Some (k, m) \<Rightarrow>
          if k = NullModel then Some (0, ws)
          else (case sim w of
             None \<Rightarrow> Some (0, ws)
           | Some si \<Rightarrow> do {
               req \<leftarrow> heap w r;
               let pa = physicalAddress (address req);
               old \<leftarrow> (if isValid (oldData req) then DataBlock_assign (oldData req) NVMDataBlock_new
                       else (let (found, od) = GetDataAtAddress pa NVMDataBlock_new si
                             in if found then Some od else zero_bytes [0..<unat (wordSize_of (prm env))] od));
               si' \<leftarrow> SetDataAtAddress pa (req_data req) si;
               (extra, m', n') \<leftarrow> endurance_Write (prm env) (\<lambda>n. (endurance_draw env n, Suc n)) k req old (m, rng w);
               Some (if sint extra < 0 then - extra - 1 else extra,
                     (w\<lparr>sim := Some si', rng := n'\<rparr>, s\<lparr>endrModel := Some (k, m')\<rparr>))
             })))"

subsection \<open>Commands\<close>

definition SubArray_Activate :: "SubArrayEnv \<Rightarrow> nat \<Rightarrow> sub_state \<Rightarrow> (bool \<times> sub_state) option" where
  "SubArray_Activate env r ws = do {
     let p = prm env;
     req \<leftarrow> heap (fst ws) r;
     let activateRow = row (address req);
     (w, s) \<leftarrow> CheckWritePausing env ws;
     let cur = now w;
     if nextActivate s > cur then Some (False, (w, s))
     else if UsePrecharge p \<and> state s \<noteq> SUBARRAY_CLOSED then Some (False, (w, s))
     else do {
       let s1 = s\<lparr>nextPrecharge := max (nextPrecharge s) (cur + max (tRCD p) (tRAS p)),
                  nextRead := max (nextRead s) (cur + tRCD p - tAL p),
                  nextWrite := max (nextWrite s) (cur + tRCD p - tAL p),
                  nextPowerDown := max (nextPowerDown s) (cur + max (tRCD p) (tRAS p))\<rparr>;
       w1 \<leftarrow> update_request r (\<lambda>req. req\<lparr>owner := Some (self env)\<rparr>) w;
       w2 \<leftarrow> insert_response (siblings env) (self env) r (cur + tRCD p) w1;
       let s2 = s1\<lparr>openRow := activateRow, state := SUBARRAY_OPEN, writeCycle := False, lastActivate := cur\<rparr>;
       Some (True, (w2, upd_stats (\<lambda>st. st\<lparr>subArrayEnergy := subArrayEnergy st + activate_energy p,
                                        activeEnergy := activeEnergy st + activate_energy p,
                                        activates := activates st + 1\<rparr>) s2))
     }
   }"

text \<open>The data the simulator interface remembers when a word is read that was never stored.\<close>

definition remember_read :: "NVMainRequest \<Rightarrow> sub_state \<Rightarrow> World option" where
  "remember_read req ws = (case ws of (w, s) \<Rightarrow>
     (case (sim w, endrModel s) of
        (Some si, Some _) \<Rightarrow>
          if fst (GetDataAtAddress (physicalAddress (address req)) NVMDataBlock_new si) then Some w
          else do {
            si' \<leftarrow> SetDataAtAddress (physicalAddress (address req)) (req_data req) si;
            Some (w\<lparr>sim := Some si'\<rparr>)
          }
      | _ \<Rightarrow> Some w))"

definition read_timing :: "Params \<Rightarrow> ncycle_t \<Rightarrow> NVMainRequest \<Rightarrow> ncycles_t \<Rightarrow> SubArray \<Rightarrow> SubArray" where
  "read_timing p cur req decLat s =
     (let bursts = burst_gap p * (burstCount req - 1);
          s1 = (if req_type req = READ_PRECHARGE
                then (let a = max (nextActivate s) (cur + bursts + tAL p + tRTP p + tRP p + decLat)
                      in s\<lparr>nextActivate := a, nextPrecharge := max (nextPrecharge s) a,
                           nextRead := max (nextRead s) a, nextWrite := max (nextWrite s) a\<rparr>)
                else s\<lparr>nextPrecharge := max (nextPrecharge s) (cur + bursts + tAL p + tBURST p + tRTP p - tCCD p + decLat),
                       nextRead := max (nextRead s) (cur + burst_gap p * burstCount req),
                       nextWrite := max (nextWrite s) (cur + bursts + tCAS p + tBURST p + tRTRS p - tCWD p + decLat)\<rparr>)
      in s1\<lparr>nextPowerDown := max (nextPowerDown s) (cur + bursts + tCAS p + tAL p + tBURST p + 1 + decLat)\<rparr>)"

definition SubArray_Read :: "SubArrayEnv \<Rightarrow> nat \<Rightarrow> sub_state \<Rightarrow> (bool \<times> sub_state) option" where
  "SubArray_Read env r ws = do {
     let p = prm env;
     (w, s) \<leftarrow> CheckWritePausing env ws;
     req \<leftarrow> heap w r;
     let cur = now w;
     if nextRead s > cur then Some (False, (w, s))
     else if state s \<noteq> SUBARRAY_OPEN then Some (False, (w, s))
     else if row (address req) \<noteq> openRow s then Some (False, (w, s))
     else do {
       let decLat = encoder_Read (dataEncoder s) req;
       let s1 = read_timing p cur req decLat s;
       w1 \<leftarrow> (if req_type req = READ_PRECHARGE
              then do {
                (pre, w1) \<leftarrow> copy_request r (\<lambda>c. c\<lparr>owner := Some (self env)\<rparr>) w;
                insert_response (siblings env) (self env) pre
                  (cur + tAL p + tRTP p + decLat + burst_gap p * (burstCount req - 1)) w1
              }
              else Some w);
       (bus, w2) \<leftarrow> copy_request r (\<lambda>c. c\<lparr>req_type := BUS_WRITE, owner := Some (self env)\<rparr>) w1;
       w3 \<leftarrow> insert_response (siblings env) (self env) bus (cur + tCAS p + decLat) w2;
       w4 \<leftarrow> insert_response (siblings env) (self env) r (cur + tCAS p + tBURST p + decLat) w3;
       let e = (if EnergyModel p = ''current'' then burst_energy p (EIDD4R p) else Eopenrd p);
       w5 \<leftarrow> remember_read req (w4, s1);
       Some (True, (w5, upd_stats (\<lambda>st. st\<lparr>subArrayEnergy := subArrayEnergy st + e, burstEnergy := burstEnergy st + e,
                                        reads := reads st + 1, dataCycles := dataCycles st + tBURST p\<rparr>) s1))
     }
   }"

text \<open>The bits of the stored word a write leaves unchanged; the buffer of the xor is as long as
  the new data.\<close>

fun xor_bytes :: "nat list \<Rightarrow> NVMDataBlock \<Rightarrow> NVMDataBlock \<Rightarrow> uint8 list option" where
  "xor_bytes [] new old = Some []"
| "xor_bytes (i # is) new old = do {
     a \<leftarrow> GetByte new (of_nat i);
     b \<leftarrow> GetByte old (of_nat i);
     rest \<leftarrow> xor_bytes is new old;
     Some ((a XOR b) # rest)
   }"

definition unchanged_bits :: "NVMainRequest \<Rightarrow> ncounter_t option" where
  "unchanged_bits req = do {
     let size = block_size (req_data req);
     bytes \<leftarrow> xor_bytes [0..<unat size] (req_data req) (oldData req);
     numChangedBits \<leftarrow> CountBitsMLC1 1 (words_of_bytes bytes) (size div 4);
     if size * 8 \<ge> numChangedBits then Some (size * 8 - numChangedBits) else None
   }"

definition write_timing :: "Params \<Rightarrow> ncycle_t \<Rightarrow> NVMainRequest \<Rightarrow> ncycle_t \<Rightarrow> SubArray \<Rightarrow> SubArray" where
  "write_timing p cur req writeTimer s =
     (let bursts = burst_gap p * (burstCount req - 1);
          s1 = (if req_type req = WRITE_PRECHARGE
                then (let a = max (nextActivate s) (cur + bursts + tAL p + tCWD p + tBURST p + writeTimer + tWR p + tRP p)
                      in s\<lparr>nextActivate := a, nextPrecharge := max (nextPrecharge s) a,
                           nextRead := max (nextRead s) a, nextWrite := max (nextWrite s) a\<rparr>)
                else s\<lparr>nextPrecharge := max (nextPrecharge s) (cur + bursts + tAL p + tCWD p + tBURST p + writeTimer + tWR p),
                       nextRead := max (nextRead s) (cur + bursts + tCWD p + tBURST p + tWTR p + writeTimer),
                       nextWrite := max (nextWrite s) (cur + burst_gap p * burstCount req + writeTimer)\<rparr>)
      in s1\<lparr>nextPowerDown := max (nextPowerDown s) (nextPrecharge s1)\<rparr>)"

definition save_timing :: "SubArray \<Rightarrow> SubArray" where
  "save_timing s = s\<lparr>nextActivatePreWrite := nextActivate s, nextPrechargePreWrite := nextPrecharge s,
     nextReadPreWrite := nextRead s, nextWritePreWrite := nextWrite s, nextPowerDownPreWrite := nextPowerDown s\<rparr>"

text \<open>The write time: the encoder and the endurance model run first in a write-through
  subarray; a paused write resumes with its remaining time, and a write into a row buffer that
  is already dirty takes none. The result is the time before the two latencies are added, the
  latencies, and the unchanged bits.\<close>

definition write_time ::
  "SubArrayEnv \<Rightarrow> nat \<Rightarrow> sub_state \<Rightarrow> (ncycle_t \<times> ncycle_t \<times> ncounter_t \<times> sub_state) option" where
  "write_time env r ws = do {
     let p = prm env;
     let through = (writeMode (snd ws) = WRITE_THROUGH);
     (encLat, ws1) \<leftarrow> (if through then encoder_Write env r ws else Some (0, ws));
     (endrLat, ws2) \<leftarrow> (if through then UpdateEndurance env r ws1 else Some (0, ws1));
     req \<leftarrow> heap (fst ws2) r;
     unchanged \<leftarrow> (if through \<and> \<not> WriteAllBits p then unchanged_bits req else Some 0);
     (t0, (w3, s3)) \<leftarrow> WriteCellData env r ws2;
     let paused = has_flag (flags req) FLAG_PAUSED;
     let t1 = (if paused then writeProgress req else t0);
     w4 \<leftarrow> update_request r (\<lambda>req. req\<lparr>flags := clear_flag (if paused then clear_flag (flags req) FLAG_PAUSED else flags req)
                                                         FLAG_CANCELLED\<rparr>) w3;
     if writeMode s3 = WRITE_BACK \<and> writeCycle s3
     then do {
       (c, w5) \<leftarrow> copy_request r (\<lambda>c. c) w4;
       Some (0, encLat + endrLat, unchanged, (w5, s3\<lparr>writeBackRequests := writeBackRequests s3 @ [c]\<rparr>))
     }
     else Some (t1, encLat + endrLat, unchanged, (w4, s3))
   }"

definition SubArray_Write :: "SubArrayEnv \<Rightarrow> nat \<Rightarrow> sub_state \<Rightarrow> (bool \<times> sub_state) option" where
  "SubArray_Write env r ws = do {
     let p = prm env;
     let cur = now (fst ws);
     req0 \<leftarrow> heap (fst ws) r;
     if nextWrite (snd ws) > cur then Some (False, ws)
     else if state (snd ws) \<noteq> SUBARRAY_OPEN then Some (False, ws)
     else if row (address req0) \<noteq> openRow (snd ws) then Some (False, ws)
     else do {
       (t, lat, unchanged, (w, s)) \<leftarrow> write_time env r ws;
       let through = (writeMode s = WRITE_THROUGH);
       w1 \<leftarrow> (if through then update_request r (\<lambda>req. req\<lparr>writeProgress := t\<rparr>) w else Some w);
       req \<leftarrow> heap w1 r;
       let writeTimer = (if through then t + lat else t);
       let s1 = save_timing s;
       let s2 = (if through then record_write_time writeTimer s1 else s1);
       let s3 = write_timing p cur req writeTimer s2;
       w2 \<leftarrow> (if req_type req = WRITE_PRECHARGE
              then do {
                (pre, w2) \<leftarrow> copy_request r (\<lambda>c. c\<lparr>owner := Some (self env)\<rparr>) w1;
                insert_response (siblings env) (self env) pre
                  (cur + burst_gap p * (burstCount req - 1) + tAL p + tCWD p + tBURST p + writeTimer + tWR p) w2
              }
              else Some w1);
       let evTime = cur + tCWD p + burst_gap p * burstCount req + writeTimer;
       hook \<leftarrow> find_hook (siblings env) (self env);
       let ev = next_ref w2;
       (bus, w3) \<leftarrow> copy_request r (\<lambda>c. c\<lparr>req_type := BUS_READ, owner := Some (self env)\<rparr>) (w2\<lparr>next_ref := Suc ev\<rparr>);
       w4 \<leftarrow> insert_response (siblings env) (self env) bus (cur + tCWD p) w3;
       let w5 = w4\<lparr>evq := InsertEvent_at ((Event_new ev)\<lparr>ev_type := EventResponse, recipient := Some hook,
                                             ev_request := Some r\<rparr>) evTime 0 (evq w4)\<rparr>;
       let s4 = s3\<lparr>isWriting := True, writeRequest := Some r, writeStart := cur, writeEnd := cur + writeTimer,
                   writeEventTime := evTime, writeEvent := Some ev, writeCycle := True\<rparr>;
       let e = (if EnergyModel p = ''current'' then burst_energy p (EIDD4W p) else Ewr p - Ewrpb p * rat_of unchanged);
       let b = (if EnergyModel p = ''current'' then burst_energy p (EIDD4W p) else Ewr p);
       Some (True, (w5, upd_stats (\<lambda>st. st\<lparr>subArrayEnergy := subArrayEnergy st + e, burstEnergy := burstEnergy st + b,
                                        writes := writes st + 1, dataCycles := dataCycles st + tBURST p\<rparr>) s4))
     }
   }"

text \<open>Writing back the dirty row buffer: encoder and endurance for every write that was kept.\<close>

fun write_back_loop :: "SubArrayEnv \<Rightarrow> nat list \<Rightarrow> ncycle_t \<times> sub_state \<Rightarrow> (ncycle_t \<times> sub_state) option" where
  "write_back_loop env [] acc = Some acc"
| "write_back_loop env (r # rs) (lat, ws) = do {
     (encLat, ws1) \<leftarrow> encoder_Write env r ws;
     (endrLat, ws2) \<leftarrow> UpdateEndurance env r ws1;
     write_back_loop env rs (lat + encLat + endrLat, ws2)
   }"

definition SubArray_Precharge :: "SubArrayEnv \<Rightarrow> nat \<Rightarrow> sub_state \<Rightarrow> (bool \<times> sub_state) option" where
  "SubArray_Precharge env r ws = do {
     let p = prm env;
     let cur = now (fst ws);
     if nextPrecharge (snd ws) > cur then Some (False, ws)
     else if state (snd ws) \<noteq> SUBARRAY_CLOSED \<and> state (snd ws) \<noteq> SUBARRAY_OPEN then Some (False, ws)
     else do {
       (writeTimer, (w, s)) \<leftarrow>
         (if writeMode (snd ws) = WRITE_BACK \<and> writeCycle (snd ws)
          then do {
            (t, ws1) \<leftarrow> WriteCellData env r ws;
            (lat, (w2, s2)) \<leftarrow> write_back_loop env (writeBackRequests (snd ws1)) (0, ws1);
            let writeTimer = max 1 (tRP p + t) + lat;
            Some (writeTimer, (w2, record_write_time writeTimer (s2\<lparr>writeBackRequests := []\<rparr>)))
          }
          else Some (max 1 (tRP p), ws));
       w1 \<leftarrow> update_request r (\<lambda>req. req\<lparr>owner := Some (self env)\<rparr>) w;
       w2 \<leftarrow> insert_response (siblings env) (self env) r (cur + writeTimer) w1;
       Some (True, (w2, s\<lparr>nextActivate := max (nextActivate s) (cur + writeTimer), state := SUBARRAY_PRECHARGING\<rparr>))
     }
   }"

definition SubArray_Refresh :: "SubArrayEnv \<Rightarrow> nat \<Rightarrow> sub_state \<Rightarrow> (bool \<times> sub_state) option" where
  "SubArray_Refresh env r ws = (case ws of (w, s) \<Rightarrow> do {
     let p = prm env;
     let cur = now w;
     if nextActivate s > cur then Some (False, ws)
     else if state s \<noteq> SUBARRAY_CLOSED \<and> UsePrecharge p then Some (False, ws)
     else do {
       w1 \<leftarrow> update_request r (\<lambda>req. req\<lparr>owner := Some (self env)\<rparr>) w;
       w2 \<leftarrow> insert_response (siblings env) (self env) r (cur + tRFC p) w1;
       let e = (if EnergyModel p = ''current'' then (EIDD5B p - EIDD3N p) * rat_of (tRFC p) / rat_of (BANKS p) else Eref p);
       Some (True, (w2, upd_stats (\<lambda>st. st\<lparr>subArrayEnergy := subArrayEnergy st + e, refreshEnergy := refreshEnergy st + e\<rparr>)
                          (s\<lparr>nextActivate := max (nextActivate s) (cur + tRFC p), state := SUBARRAY_REFRESHING\<rparr>)))
     }
   })"

subsection \<open>Dispatch and completion\<close>

definition SubArray_NextIssuable :: "SubArray \<Rightarrow> NVMainRequest \<Rightarrow> ncycle_t" where
  "SubArray_NextIssuable s req =
     (case req_type req of
        ACTIVATE \<Rightarrow> nextActivate s
      | READ \<Rightarrow> nextRead s
      | WRITE \<Rightarrow> nextWrite s
      | PRECHARGE \<Rightarrow> nextPrecharge s
      | _ \<Rightarrow> 0)"

text \<open>\<^verbatim>\<open>writeRequest->flags & FLAG_FORCED\<close>, evaluated only while a write that can be paused is
  in progress.\<close>

definition write_forced :: "Params \<Rightarrow> sub_state \<Rightarrow> bool option" where
  "write_forced p ws =
     (if WritePausing p \<and> isWriting (snd ws)
      then do { wr \<leftarrow> writeRequest (snd ws); req \<leftarrow> heap (fst ws) wr; Some (has_flag (flags req) FLAG_FORCED) }
      else Some False)"

text \<open>The result, the failure reason when the request is refused for one, and the subarray with
  its wait statistics.\<close>

definition SubArray_IsIssuable ::
  "SubArrayEnv \<Rightarrow> NVMainRequest \<Rightarrow> sub_state \<Rightarrow> (bool \<times> FailReasons option \<times> SubArray) option" where
  "SubArray_IsIssuable env req ws = (case ws of (w, s) \<Rightarrow>
     let p = prm env;
         cur = now w;
         answer = (\<lambda>blocked. if blocked then (False, Some SUBARRAY_TIMING, s) else (True, None, s))
     in if nextCommand s \<noteq> CMD_NOP then Some (False, None, s)
        else (case req_type req of
          ACTIVATE \<Rightarrow> do {
            blocked \<leftarrow> (if nextActivate s > cur \<or> (UsePrecharge p \<and> state s \<noteq> SUBARRAY_CLOSED) then Some True
                        else do {
                          forced \<leftarrow> write_forced p ws;
                          Some (forced \<or> (WritePausing p \<and> isWriting s \<and> \<not> has_flag (flags req) FLAG_PRIORITY))
                        });
            Some (if blocked
                  then (False, Some SUBARRAY_TIMING,
                        if nextActivate s > cur
                        then upd_stats (\<lambda>st. st\<lparr>actWaits := actWaits st + 1, actWaitTotal := actWaitTotal st + (nextActivate s - cur)\<rparr>) s
                        else s)
                  else (True, None, s))
          }
        | READ \<Rightarrow> do {
            blocked \<leftarrow> (if nextRead s > cur \<or> state s \<noteq> SUBARRAY_OPEN \<or> row (address req) \<noteq> openRow s then Some True
                        else write_forced p ws);
            Some (answer blocked)
          }
        | READ_PRECHARGE \<Rightarrow> do {
            blocked \<leftarrow> (if nextRead s > cur \<or> state s \<noteq> SUBARRAY_OPEN \<or> row (address req) \<noteq> openRow s then Some True
                        else write_forced p ws);
            Some (answer blocked)
          }
        | WRITE \<Rightarrow> Some (answer (nextWrite s > cur \<or> state s \<noteq> SUBARRAY_OPEN \<or> row (address req) \<noteq> openRow s))
        | WRITE_PRECHARGE \<Rightarrow> Some (answer (nextWrite s > cur \<or> state s \<noteq> SUBARRAY_OPEN \<or> row (address req) \<noteq> openRow s))
        | PRECHARGE \<Rightarrow> Some (answer (nextPrecharge s > cur \<or> (state s \<noteq> SUBARRAY_OPEN \<and> state s \<noteq> SUBARRAY_CLOSED)))
        | PRECHARGE_ALL \<Rightarrow> Some (answer (nextPrecharge s > cur \<or> (state s \<noteq> SUBARRAY_OPEN \<and> state s \<noteq> SUBARRAY_CLOSED)))
        | POWERDOWN_PDA \<Rightarrow> Some (answer (nextPowerDown s > cur \<or> isWriting s))
        | POWERDOWN_PDPF \<Rightarrow> Some (answer (nextPowerDown s > cur \<or> isWriting s))
        | POWERDOWN_PDPS \<Rightarrow> Some (answer (nextPowerDown s > cur \<or> isWriting s))
        | POWERUP \<Rightarrow> Some (True, None, s)
        | REFRESH \<Rightarrow> Some (answer (nextActivate s > cur \<or> (state s \<noteq> SUBARRAY_CLOSED \<and> UsePrecharge p)))
        | _ \<Rightarrow> Some (False, Some UNSUPPORTED_COMMAND, s)))"

definition SubArray_IssueCommand :: "SubArrayEnv \<Rightarrow> nat \<Rightarrow> sub_state \<Rightarrow> (bool \<times> sub_state) option" where
  "SubArray_IssueCommand env r ws = do {
     req \<leftarrow> heap (fst ws) r;
     (ok, _, s) \<leftarrow> SubArray_IsIssuable env req ws;
     let ws1 = (fst ws, s);
     if \<not> ok then Some (False, ws1)
     else (case req_type req of
        ACTIVATE \<Rightarrow> SubArray_Activate env r ws1
      | READ \<Rightarrow> SubArray_Read env r ws1
      | READ_PRECHARGE \<Rightarrow> SubArray_Read env r ws1
      | WRITE \<Rightarrow> SubArray_Write env r ws1
      | WRITE_PRECHARGE \<Rightarrow> SubArray_Write env r ws1
      | PRECHARGE \<Rightarrow> SubArray_Precharge env r ws1
      | PRECHARGE_ALL \<Rightarrow> SubArray_Precharge env r ws1
      | REFRESH \<Rightarrow> SubArray_Refresh env r ws1
      | _ \<Rightarrow> Some (True, ws1))
   }"

text \<open>\<open>parent\<close> is \<^verbatim>\<open>GetParent( )->RequestComplete\<close>, for requests the subarray does not own.
  The count of a new number of cancellations starts at 0, not 1.\<close>

definition SubArray_RequestComplete ::
  "SubArrayEnv \<Rightarrow> (nat \<Rightarrow> World \<Rightarrow> (bool \<times> World) option) \<Rightarrow> nat \<Rightarrow> sub_state \<Rightarrow> (bool \<times> sub_state) option" where
  "SubArray_RequestComplete env parent r ws = (case ws of (w, s) \<Rightarrow> do {
     let p = prm env;
     req \<leftarrow> heap w r;
     let s1 = (if req_type req = WRITE \<or> req_type req = WRITE_PRECHARGE
               then (let s0 = (if writeRequest s = Some r then s\<lparr>isWriting := False\<rparr> else s)
                     in if has_flag (flags req) FLAG_PAUSED \<or> has_flag (flags req) FLAG_CANCELLED then s0
                        else upd_stats (\<lambda>st. st\<lparr>
                               averagePausesPerRequest := running_avg (averagePausesPerRequest st) (measuredPauses st) (rat_of (cancellations req)),
                               measuredPauses := measuredPauses st + 1,
                               cancelCountMap := bump 0 (cancellations req) (cancelCountMap st)\<rparr>) s0)
               else s);
     if owner req = Some (self env)
     then (case req_type req of
        READ_PRECHARGE \<Rightarrow> do {
          w1 \<leftarrow> update_request r (\<lambda>req. req\<lparr>req_type := PRECHARGE\<rparr>) w;
          w2 \<leftarrow> insert_response (siblings env) (self env) r (now w + tRP p) w1;
          Some (True, (w2, s1\<lparr>state := SUBARRAY_PRECHARGING\<rparr>))
        }
      | WRITE_PRECHARGE \<Rightarrow> do {
          w1 \<leftarrow> update_request r (\<lambda>req. req\<lparr>req_type := PRECHARGE\<rparr>) w;
          w2 \<leftarrow> insert_response (siblings env) (self env) r (now w + tRP p) w1;
          Some (True, (w2, s1\<lparr>state := SUBARRAY_PRECHARGING\<rparr>))
        }
      | PRECHARGE \<Rightarrow> do {
          w1 \<leftarrow> delete_request r w;
          Some (True, (w1, upd_stats (\<lambda>st. st\<lparr>precharges := precharges st + 1\<rparr>) (s1\<lparr>state := SUBARRAY_CLOSED, openRow := ROWS p\<rparr>)))
        }
      | PRECHARGE_ALL \<Rightarrow> do {
          w1 \<leftarrow> delete_request r w;
          Some (True, (w1, upd_stats (\<lambda>st. st\<lparr>precharges := precharges st + 1\<rparr>) (s1\<lparr>state := SUBARRAY_CLOSED, openRow := ROWS p\<rparr>)))
        }
      | REFRESH \<Rightarrow> do {
          w1 \<leftarrow> delete_request r w;
          Some (True, (w1, upd_stats (\<lambda>st. st\<lparr>refreshes := refreshes st + 1\<rparr>)
             (if UsePrecharge p then s1\<lparr>state := SUBARRAY_CLOSED, openRow := ROWS p\<rparr> else s1\<lparr>state := SUBARRAY_OPEN\<rparr>)))
        }
      | _ \<Rightarrow> do {
          w1 \<leftarrow> delete_request r w;
          Some (True, (w1, s1))
        })
     else do {
       (rv, w1) \<leftarrow> parent r w;
       Some (rv, (w1, s1))
     }
   })"

definition SubArray_Idle :: "SubArray \<Rightarrow> bool" where
  "SubArray_Idle s = (state s = SUBARRAY_CLOSED \<or> state s = SUBARRAY_PRECHARGING)"

text \<open>\<open>None\<close> is the null endurance model.\<close>

definition SubArray_CalculateStats :: "SubArray \<Rightarrow> SubArray option" where
  "SubArray_CalculateStats s = do {
     (_, m) \<leftarrow> endrModel s;
     Some (upd_stats (\<lambda>st. st\<lparr>worstCaseEndurance := GetWorstLife m, averageEndurance := GetAverageLife m,
                            actWaitAverage := rat_of (actWaitTotal st) / rat_of (actWaits st)\<rparr>) s)
   }"

end
