(* ===== verification/Sub_Array_Rules.thy ===== *)
theory Sub_Array_Rules
  imports Sub_Array
begin

text \<open>
  Rules for the operations of the subarray: which fields the helpers leave alone, and what each
  command does to the shared state, whatever branch it takes. A command keeps the clock, the
  queue invariant, and the kind of every request there was (\<open>world_step\<close>); the encoder, the
  endurance model and the write-time computation also keep everything that decides which
  commands are accepted (\<open>sub_frame\<close>).
\<close>

subsection \<open>Frames\<close>

text \<open>What a step may not touch: the fields of the subarray that decide which commands it
  accepts.\<close>

definition same_control :: "SubArray \<Rightarrow> SubArray \<Rightarrow> bool" where
  "same_control s s' \<longleftrightarrow> state s' = state s \<and> openRow s' = openRow s \<and> nextCommand s' = nextCommand s
     \<and> nextActivate s' = nextActivate s \<and> nextPrecharge s' = nextPrecharge s \<and> nextRead s' = nextRead s
     \<and> nextWrite s' = nextWrite s \<and> nextPowerDown s' = nextPowerDown s \<and> writeMode s' = writeMode s
     \<and> isWriting s' = isWriting s \<and> writeRequest s' = writeRequest s \<and> writeCycle s' = writeCycle s"

definition sub_frame :: "sub_state \<Rightarrow> sub_state \<Rightarrow> bool" where
  "sub_frame ws ws' \<longleftrightarrow> same_control (snd ws) (snd ws') \<and> world_frame (fst ws) (fst ws') \<and> world_ok (fst ws')"

lemma same_control_refl [simp]: "same_control s s"
  by (simp add: same_control_def)

lemma same_control_trans: "same_control s s' \<Longrightarrow> same_control s' s'' \<Longrightarrow> same_control s s''"
  by (simp add: same_control_def)

lemma same_control_upd [simp]:
  "same_control s (upd_stats f s') \<longleftrightarrow> same_control s s'"
  "same_control s (s'\<lparr>writeIterationStarts := l\<rparr>) \<longleftrightarrow> same_control s s'"
  "same_control s (s'\<lparr>dataEncoder := e\<rparr>) \<longleftrightarrow> same_control s s'"
  "same_control s (s'\<lparr>endrModel := m\<rparr>) \<longleftrightarrow> same_control s s'"
  "same_control s (s'\<lparr>writeBackRequests := b\<rparr>) \<longleftrightarrow> same_control s s'"
  "same_control s (charge_bits p c0 c1 s') \<longleftrightarrow> same_control s s'"
  "same_control s (record_write_time t s') \<longleftrightarrow> same_control s s'"
  by (simp_all add: same_control_def upd_stats_def charge_bits_def record_write_time_def)

lemma sub_frame_refl: "world_ok (fst ws) \<Longrightarrow> sub_frame ws ws"
  by (simp add: sub_frame_def)

lemma sub_frame_trans: "sub_frame a b \<Longrightarrow> sub_frame b c \<Longrightarrow> sub_frame a c"
  by (auto simp: sub_frame_def intro: same_control_trans world_frame_trans)

subsection \<open>The encoder, the endurance model and the write time\<close>

lemma invert_loop_block: "invert_loop a b is d = Some d' \<Longrightarrow> block_ok d \<Longrightarrow> block_ok d'"
  by (induction "is" arbitrary: d)
    (auto simp: bind_eq_Some_conv split: if_splits dest: block_ok_SetByte)

lemma invert_partition_block: "invert_partition f i d = Some d' \<Longrightarrow> block_ok d \<Longrightarrow> block_ok d'"
  by (simp add: invert_partition_def InvertData_def invert_loop_block)

lemma stored_loop_block: "stored_loop p f a is d = Some d' \<Longrightarrow> block_ok d \<Longrightarrow> block_ok d'"
  by (induction p f a "is" d rule: stored_loop.induct)
    (auto simp: bind_eq_Some_conv split: if_splits dest: invert_partition_block)

lemma flip_loop_block: "flip_loop p a mc is fd = Some fd' \<Longrightarrow> block_ok (snd fd) \<Longrightarrow> block_ok (snd fd')"
proof (induction "is" arbitrary: fd)
  case (Cons i "is")
  then show ?case
    by (cases fd) (auto simp: bind_eq_Some_conv Let_def split: if_splits
        intro: Cons.IH dest: invert_partition_block)
qed simp

lemma FlipNWrite_Write_frame:
  assumes "FlipNWrite_Write p r f = Some (lat, r', f')" and "request_ok r"
  shows "req_core r' = req_core r \<and> request_ok r'"
  using assms
  by (auto simp: FlipNWrite_Write_def bind_eq_Some_conv Let_def req_core_def request_ok_def
      split: if_splits dest: stored_loop_block flip_loop_block)

lemma encoder_Write_frame:
  assumes "world_ok (fst ws)"
  shows "returns (encoder_Write env r ws) (\<lambda>x. sub_frame ws (snd x))"
proof -
  obtain w s where ws: "ws = (w, s)" by (cases ws)
  have "sub_frame ws (w\<lparr>heap := (heap w)(r \<mapsto> req')\<rparr>, s\<lparr>dataEncoder := e\<rparr>)"
    if "heap w r = Some req" "FlipNWrite_Write (prm env) req f = Some (lat, req', f')" for req req' lat f f' e
    using set_heap_frame [of w r req req'] FlipNWrite_Write_frame [OF that(2)] that(1) assms(1)
      world_ok_heap [of w r req] by (simp add: sub_frame_def ws)
  then show ?thesis
    using sub_frame_refl [OF assms] unfolding encoder_Write_def
    by (auto simp: ws split: option.split Encoder.split intro!: returns_intro)
qed

lemma UpdateEndurance_frame:
  assumes "world_ok (fst ws)"
  shows "returns (UpdateEndurance env r ws) (\<lambda>x. sub_frame ws (snd x))"
  using assms unfolding UpdateEndurance_def Let_def
  by (intro returns_intro) (auto simp: sub_frame_def)

lemma WriteCellData_frame:
  assumes "world_ok (fst ws)"
  shows "returns (WriteCellData env r ws) (\<lambda>x. sub_frame ws (snd x))"
  using assms unfolding WriteCellData_def Let_def
  by (intro returns_intro) (auto simp: sub_frame_def)

lemma sub_frame_step:
  assumes "m = Some (t, ws')" and "sub_frame a ws" and "world_ok (fst ws) \<Longrightarrow> returns m (\<lambda>x. sub_frame ws (snd x))"
  shows "sub_frame a ws'"
proof -
  have "world_ok (fst ws)"
    using assms(2) by (simp add: sub_frame_def)
  from returnsD [OF assms(3) [OF this] assms(1)] show ?thesis
    using sub_frame_trans [OF assms(2)] by simp
qed

lemmas sub_frame_steps =
  sub_frame_step [OF _ _ encoder_Write_frame] sub_frame_step [OF _ _ UpdateEndurance_frame]
  sub_frame_step [OF _ _ WriteCellData_frame]

lemma write_time_frame:
  assumes "world_ok (fst ws)"
  shows "returns (write_time env r ws) (\<lambda>(t, lat, un, ws'). sub_frame ws ws')"
proof -
  have upd: "sub_frame ws (w4, s3)"
    if "update_request r (\<lambda>req. req\<lparr>flags := f req\<rparr>) w3 = Some w4" "sub_frame ws (w3, s3)" for w3 s3 w4 f
    using that update_request_frame [of w3 r "\<lambda>req. req\<lparr>flags := f req\<rparr>" w4]
    by (auto simp: sub_frame_def req_core_def request_ok_def intro: world_frame_trans)
  have copy: "sub_frame ws (w5, s3\<lparr>writeBackRequests := b\<rparr>)"
    if "copy_request r (\<lambda>c. c) w4 = Some (c, w5)" "sub_frame ws (w4, s3)" for w4 s3 w5 b c
    using that copy_request_frame [of w4 r "\<lambda>c. c" c w5]
    by (auto simp: sub_frame_def intro: world_frame_trans)
  show ?thesis
    by (cases "writeMode (snd ws) = WRITE_THROUGH"; simp only: write_time_def Let_def if_True if_False
        Option.bind.bind_lunit prod.case simp_thms; intro returns_intro; (simp only: prod.case)?; (clarify)?;
        (erule copy upd sub_frame_steps | rule sub_frame_refl [OF assms])+)
qed

subsection \<open>Pausing keeps the row\<close>

lemma CheckWritePausing_idle: "\<not> (WritePausing (prm env) \<and> isWriting (snd ws)) \<Longrightarrow> CheckWritePausing env ws = Some ws"
  by (cases ws) (auto simp: CheckWritePausing_def Let_def)

lemma CheckWritePausing_spec:
  assumes "world_ok (fst ws)"
  shows "returns (CheckWritePausing env ws) (\<lambda>ws'. world_step (fst ws) (fst ws')
    \<and> state (snd ws') = state (snd ws) \<and> openRow (snd ws') = openRow (snd ws)
    \<and> nextCommand (snd ws') = nextCommand (snd ws) \<and> writeMode (snd ws') = writeMode (snd ws)
    \<and> isWriting (snd ws') = isWriting (snd ws) \<and> writeRequest (snd ws') = writeRequest (snd ws))"
  using assms unfolding CheckWritePausing_def Let_def
  by (intro returns_intro; (simp only: prod.case)?; (clarify)?)
    (auto simp: bind_eq_Some_conv Let_def restore_timing_def upd_stats_def world_step_refl
      split: if_splits prod.splits elim!: world_steps intro!: RemoveEvent_step)

subsection \<open>What the commands do to the shared state\<close>

lemma sub_proj [simp]:
  "state (upd_stats f s) = state s" "openRow (upd_stats f s) = openRow s" "nextCommand (upd_stats f s) = nextCommand s"
  "nextActivate (upd_stats f s) = nextActivate s" "nextPrecharge (upd_stats f s) = nextPrecharge s"
  "nextRead (upd_stats f s) = nextRead s" "nextWrite (upd_stats f s) = nextWrite s"
  "nextPowerDown (upd_stats f s) = nextPowerDown s" "isWriting (upd_stats f s) = isWriting s"
  "writeRequest (upd_stats f s) = writeRequest s" "writeMode (upd_stats f s) = writeMode s"
  "writeStart (upd_stats f s) = writeStart s" "writeEnd (upd_stats f s) = writeEnd s"
  by (simp_all add: upd_stats_def)

lemma CheckWritePausing_step:
  assumes "CheckWritePausing env ws = Some ws'" and "world_step a (fst ws)"
  shows "world_step a (fst ws')"
  using returnsD [OF CheckWritePausing_spec assms(1)] world_stepD [OF assms(2)] assms(2)
  by (blast intro: world_step_trans)

lemma remember_read_step:
  assumes "remember_read req ws = Some w'" and "world_step a (fst ws)"
  shows "world_step a w'"
  using assms by (cases ws) (auto simp: remember_read_def bind_eq_Some_conv world_step_def split: option.splits if_splits)

lemma sub_frame_world:
  assumes "sub_frame ws ws'" and "world_step a (fst ws)"
  shows "world_step a (fst ws')"
  using assms by (blast intro: world_step_trans world_frame_step dest: sub_frame_def [THEN iffD1])

lemma sub_frame_ok: "sub_frame ws ws' \<Longrightarrow> world_ok (fst ws')"
  by (simp add: sub_frame_def)

lemma write_back_loop_frame:
  "world_ok (fst (snd acc)) \<Longrightarrow> returns (write_back_loop env rs acc) (\<lambda>x. sub_frame (snd acc) (snd x))"
proof (induction rs arbitrary: acc)
  case Nil
  then show ?case by (simp add: sub_frame_refl)
next
  case (Cons r rs)
  obtain lat ws where acc: "acc = (lat, ws)" by (cases acc)
  have "returns (write_back_loop env rs (t, ws2)) (\<lambda>x. sub_frame ws (snd x))" if "sub_frame ws ws2" for t ws2
    using Cons.IH [of "(t, ws2)"] sub_frame_ok [OF that] by (auto intro: returns_mono sub_frame_trans [OF that])
  moreover have "sub_frame ws ws2"
    if "encoder_Write env r ws = Some (a, ws1)" "UpdateEndurance env r ws1 = Some (b, ws2)" for a b ws1 ws2
    using sub_frame_steps(2) [OF that(2) sub_frame_steps(1) [OF that(1) sub_frame_refl]] Cons.prems acc by simp
  ultimately show ?case
    by (simp only: acc write_back_loop.simps snd_conv) (auto intro!: returns_intro)
qed

lemma write_time_step:
  assumes "write_time env r ws = Some (t, lat, un, ws')" and "world_step a (fst ws)"
  shows "world_step a (fst ws')"
  using returnsD [OF write_time_frame assms(1)] world_stepD [OF assms(2)] sub_frame_world [OF _ assms(2)] by simp

lemma WriteCellData_step:
  assumes "WriteCellData env r ws = Some (t, ws')" and "world_step a (fst ws)"
  shows "world_step a (fst ws')"
  using returnsD [OF WriteCellData_frame assms(1)] world_stepD [OF assms(2)] sub_frame_world [OF _ assms(2)] by simp

lemma write_back_loop_step:
  assumes "write_back_loop env rs (t0, ws) = Some (t, ws')" and "world_step a (fst ws)"
  shows "world_step a (fst ws')"
  using returnsD [OF write_back_loop_frame assms(1)] world_stepD [OF assms(2)] sub_frame_world [OF _ assms(2)] by simp

lemmas command_steps = world_steps CheckWritePausing_step [where ws = "(w, s)" and ws' = "(w', s')" for w s w' s', simplified]
  remember_read_step [where ws = "(w, s)" for w s, simplified]
  write_time_step [where ws' = "(w', s')" for w' s', simplified]
  WriteCellData_step [where ws' = "(w', s')" for w' s', simplified]
  write_back_loop_step [where ws' = "(w', s')" for w' s', simplified]

lemma SubArray_Activate_world:
  assumes "world_ok (fst ws)"
  shows "returns (SubArray_Activate env r ws) (\<lambda>(ok, w', s'). world_step (fst ws) w')"
  using world_step_refl [OF assms]
  by (cases ws) (simp only: SubArray_Activate_def chain_simps fst_conv; intro returns_intro;
      (simp only: not_not prod.case)?; clarify?; (erule command_steps | assumption | simp)+)

lemma SubArray_Read_world:
  assumes "world_ok (fst ws)"
  shows "returns (SubArray_Read env r ws) (\<lambda>(ok, w', s'). world_step (fst ws) w')"
  using world_step_refl [OF assms]
  by (cases ws) (simp only: SubArray_Read_def chain_simps fst_conv; intro returns_intro;
      (simp only: not_not prod.case)?; clarify?; (erule command_steps | assumption | simp)+)

lemma SubArray_Precharge_world:
  assumes "world_ok (fst ws)"
  shows "returns (SubArray_Precharge env r ws) (\<lambda>(ok, w', s'). world_step (fst ws) w')"
  using world_step_refl [OF assms]
  by (cases ws) (simp only: SubArray_Precharge_def chain_simps fst_conv; intro returns_intro;
      (simp only: not_not prod.case)?; clarify?; (erule command_steps | assumption | simp)+)

lemma SubArray_Refresh_world:
  assumes "world_ok (fst ws)"
  shows "returns (SubArray_Refresh env r ws) (\<lambda>(ok, w', s'). world_step (fst ws) w')"
  using world_step_refl [OF assms]
  by (cases ws) (simp only: SubArray_Refresh_def chain_simps fst_conv; intro returns_intro;
      (simp only: not_not prod.case)?; clarify?; (erule command_steps | assumption | simp)+)

text \<open>A write reserves the identity of its completion event before the bus request and files it last.\<close>

lemma write_event_step:
  assumes ins: "insert_response ch obj bus t' w3 = Some w4"
    and copy: "copy_request r f (w2\<lparr>next_ref := Suc (next_ref w2)\<rparr>) = Some (bus, w3)"
    and f: "\<And>req. request_ok req \<Longrightarrow> request_ok (f req)" and step: "world_step a w2"
  shows "world_step a (w4\<lparr>evq := InsertEvent_at ((Event_new (next_ref w2))\<lparr>ev_type := EventResponse,
      recipient := h, ev_request := Some r\<rparr>) t 0 (evq w4)\<rparr>)"
proof -
  have w2: "world_step a (w2\<lparr>next_ref := Suc (next_ref w2)\<rparr>)"
    using step queue_good_mono [of "next_ref w2" "evq w2" "Suc (next_ref w2)"]
    by (auto simp: world_step_def world_ok_def less_SucI)
  have w3: "world_step a w3"
    by (rule copy_request_step [OF copy w2 f])
  have w4: "world_step a w4"
    by (rule insert_response_step [OF ins w3])
  have q3: "evq w3 = evq w2" "next_ref w3 = Suc (Suc (next_ref w2))"
    using copy by (auto simp: copy_request_def bind_eq_Some_conv)
  have old: "next_ref w2 \<notin> ev_id ` set (events_at (evq w2) k)" for k
    using step queue_good_ids [of "next_ref w2" "evq w2"] by (fastforce simp: world_step_def world_ok_def)
  obtain hook where "events_at (evq w4) = (events_at (evq w3))
      (t' := insert_by_priority (response_event (next_ref w3) hook bus t') 0 (events_at (evq w3) t'))"
    using insert_response_events [OF ins] world_stepD [OF w3] by blast
  with old have "next_ref w2 \<notin> ev_id ` set (events_at (evq w4) k)" for k
    by (simp add: q3)
  then have "queue_good (next_ref w4) (InsertEvent_at ((Event_new (next_ref w2))\<lparr>ev_type := EventResponse,
    recipient := h, ev_request := Some r\<rparr>) t 0 (evq w4))"
    using world_stepD [OF w4] insert_response_fields(5) [OF ins] q3
    by (intro queue_good_InsertEvent_fresh [of "next_ref w4"]) (auto simp: world_ok_def Event_new_def)
  with w4 show ?thesis
    by (auto simp: world_step_def world_ok_def InsertEvent_at_def Let_def)
qed

lemma SubArray_Write_world:
  assumes "world_ok (fst ws)"
  shows "returns (SubArray_Write env r ws) (\<lambda>(ok, w', s'). world_step (fst ws) w')"
  using world_step_refl [OF assms]
  by (cases ws) (simp only: SubArray_Write_def chain_simps fst_conv; intro returns_intro;
      (simp only: not_not prod.case)?; clarify?; (erule (1) write_event_step | erule command_steps | assumption | simp)+)

subsection \<open>What the commands do to the subarray\<close>

definition activate_effect :: "Params \<Rightarrow> ncycle_t \<Rightarrow> uint64 \<Rightarrow> SubArray \<Rightarrow> SubArray" where
  "activate_effect p cur activateRow s =
     s\<lparr>nextPrecharge := max (nextPrecharge s) (cur + max (tRCD p) (tRAS p)),
       nextRead := max (nextRead s) (cur + tRCD p - tAL p), nextWrite := max (nextWrite s) (cur + tRCD p - tAL p),
       nextPowerDown := max (nextPowerDown s) (cur + max (tRCD p) (tRAS p)),
       openRow := activateRow, state := SUBARRAY_OPEN, writeCycle := False, lastActivate := cur\<rparr>"

lemma SubArray_Activate_effect:
  "returns (SubArray_Activate env r ws) (\<lambda>(ok, w', s'). \<exists>w1 s1 req f.
     CheckWritePausing env ws = Some (w1, s1) \<and> heap (fst ws) r = Some req \<and>
     (if ok then nextActivate s1 \<le> now w1 \<and> (UsePrecharge (prm env) \<longrightarrow> state s1 = SUBARRAY_CLOSED)
        \<and> s' = upd_stats f (activate_effect (prm env) (now w1) (row (address req)) s1)
      else s' = s1))"
  unfolding SubArray_Activate_def activate_effect_def
  by (simp only: chain_simps; intro returns_intro; (simp only: not_not prod.case)?; fastforce simp: not_less)

lemma SubArray_Read_effect:
  "returns (SubArray_Read env r ws) (\<lambda>(ok, w', s'). \<exists>w1 s1 req f.
     CheckWritePausing env ws = Some (w1, s1) \<and> heap w1 r = Some req \<and>
     (if ok then nextRead s1 \<le> now w1 \<and> state s1 = SUBARRAY_OPEN \<and> row (address req) = openRow s1
        \<and> s' = upd_stats f (read_timing (prm env) (now w1) req (encoder_Read (dataEncoder s1) req) s1)
      else s' = s1))"
  unfolding SubArray_Read_def
  by (simp only: chain_simps; intro returns_intro; (simp only: not_not prod.case)?; fastforce simp: not_less)

text \<open>The row buffer is untouched by the write-time computation, so a write is the timing update on a
  subarray with the same control state.\<close>

lemma write_time_control:
  assumes "world_ok (fst ws)" and "write_time env r ws = Some (t, lat, un, (w, s))" and "heap (fst ws) r = Some req0"
  shows "same_control (snd ws) s \<and> now w = now (fst ws) \<and> (\<exists>req. heap w r = Some req \<and> req_core req = req_core req0)"
proof -
  have f: "sub_frame ws (w, s)"
    using returnsD [OF write_time_frame [OF assms(1)] assms(2)] by simp
  moreover have "r < next_ref (fst ws)"
    using world_ok_heap [OF assms(1,3)] by simp
  ultimately show ?thesis
    using assms(3) by (auto simp: sub_frame_def world_frame_def map_option_case split: option.splits)
qed

lemma write_timing_cong:
  assumes "same_control s s1" and "req_core req = req_core req'"
  shows "same_control (write_timing p cur req wt s) (write_timing p cur req' wt s1)"
  using assms by (auto simp: same_control_def write_timing_def req_core_def Let_def)

lemma save_timing_control [simp]: "same_control s (save_timing s') = same_control s s'"
  by (simp add: same_control_def save_timing_def)

definition write_effect :: "Params \<Rightarrow> ncycle_t \<Rightarrow> nat \<Rightarrow> NVMainRequest \<Rightarrow> SubArray \<Rightarrow> SubArray \<Rightarrow> bool" where
  "write_effect p cur r req s s' \<longleftrightarrow> isWriting s' \<and> writeRequest s' = Some r \<and> writeCycle s'
     \<and> same_control (write_timing p cur req (writeEnd s' - writeStart s') s)
         (s'\<lparr>isWriting := isWriting s, writeRequest := writeRequest s, writeCycle := writeCycle s\<rparr>)"

lemma write_effectI:
  assumes "same_control s s1" and "req_core req0 = req_core req"
  shows "write_effect p cur r req0 s (upd_stats f
    ((write_timing p cur req wt s1)\<lparr>isWriting := True, writeRequest := Some r, writeStart := cur, writeEnd := cur + wt,
      writeEventTime := t, writeEvent := e, writeCycle := True\<rparr>))"
  using write_timing_cong [OF assms, of p cur wt] assms(1)
  by (auto simp: write_effect_def same_control_def upd_stats_def write_timing_def Let_def)

lemma SubArray_Write_effect:
  assumes "world_ok (fst ws)"
  shows "returns (SubArray_Write env r ws) (\<lambda>(ok, w', s').
     if ok then \<exists>req. heap (fst ws) r = Some req
        \<and> nextWrite (snd ws) \<le> now (fst ws) \<and> state (snd ws) = SUBARRAY_OPEN \<and> row (address req) = openRow (snd ws)
        \<and> write_effect (prm env) (now (fst ws)) r req (snd ws) s'
     else (w', s') = ws)"
proof -
  have upd: "\<exists>req'. heap w1 r = Some req' \<and> req_core req' = req_core req"
    if "(if b then update_request r (\<lambda>req. req\<lparr>writeProgress := t\<rparr>) w else Some w) = Some w1" "heap w r = Some req"
    for b t w w1 req
    using that by (auto simp: update_request_def req_core_def bind_eq_Some_conv split: if_splits)
  have eff: "write_effect (prm env) (now (fst ws)) r req0 (snd ws) (upd_stats f
      ((write_timing (prm env) (now (fst ws)) req wt (if b then record_write_time t' (save_timing s) else save_timing s))
        \<lparr>isWriting := True, writeRequest := Some r, writeStart := now (fst ws), writeEnd := now (fst ws) + wt,
        writeEventTime := evt, writeEvent := e, writeCycle := True\<rparr>))"
    if "heap (fst ws) r = Some req0" "write_time env r ws = Some (t, lat, un, (w, s))"
      "(if b then update_request r (\<lambda>req. req\<lparr>writeProgress := t\<rparr>) w else Some w) = Some w1" "heap w1 r = Some req"
    for req0 req t lat un w s b w1 f wt t' evt e
  proof (rule write_effectI)
    note c = write_time_control [OF assms that(2,1)]
    show "same_control (snd ws) (if b then record_write_time t' (save_timing s) else save_timing s)"
      using c by simp
    show "req_core req0 = req_core req"
      using c upd [OF that(3)] that(4) by fastforce
  qed
  show ?thesis
    unfolding SubArray_Write_def
    by (simp only: Let_def; intro returns_intro; (simp only: not_not prod.case)?)
      (auto simp: not_less intro!: eff [where b = True, simplified] eff [where b = False, simplified])
qed

definition precharge_effect :: "ncycle_t \<Rightarrow> SubArray \<Rightarrow> SubArray \<Rightarrow> bool" where
  "precharge_effect t s s' \<longleftrightarrow> nextActivate s' = max (nextActivate s) t \<and> state s' = SUBARRAY_PRECHARGING
     \<and> same_control s (s'\<lparr>nextActivate := nextActivate s, state := state s\<rparr>)"

lemma precharge_effectI:
  "same_control s s1 \<Longrightarrow> precharge_effect t s (s1\<lparr>nextActivate := max (nextActivate s1) t, state := SUBARRAY_PRECHARGING\<rparr>)"
  by (simp add: precharge_effect_def same_control_def)

lemma SubArray_Precharge_effect:
  assumes "world_ok (fst ws)"
  shows "returns (SubArray_Precharge env r ws) (\<lambda>(ok, w', s').
     if ok then \<exists>wt. nextPrecharge (snd ws) \<le> now (fst ws) \<and> state (snd ws) \<in> {SUBARRAY_CLOSED, SUBARRAY_OPEN}
        \<and> (writeMode (snd ws) \<noteq> WRITE_BACK \<longrightarrow> wt = max 1 (tRP (prm env)))
        \<and> precharge_effect (now (fst ws) + wt) (snd ws) s'
     else (w', s') = ws)"
proof -
  have wback: "same_control (snd ws) s2"
    if "WriteCellData env r ws = Some (t, ws1)" "write_back_loop env rs (0, ws1) = Some (lat, (w2, s2))" for t ws1 rs lat w2 s2
  proof -
    have "sub_frame ws ws1"
      using returnsD [OF WriteCellData_frame [OF assms] that(1)] by simp
    moreover from this have "sub_frame ws1 (w2, s2)"
      using returnsD [OF write_back_loop_frame that(2)] sub_frame_ok by simp
    ultimately show ?thesis
      by (auto simp: sub_frame_def intro: same_control_trans)
  qed
  have weff: "\<exists>wt. precharge_effect (c + wt) (snd ws) ((record_write_time a (s2\<lparr>writeBackRequests := []\<rparr>))
      \<lparr>nextActivate := max (nextActivate (record_write_time a (s2\<lparr>writeBackRequests := []\<rparr>))) (c + b), state := SUBARRAY_PRECHARGING\<rparr>)"
    if "same_control (snd ws) s2" for s2 a b c
    using that by (intro exI [of _ b] precharge_effectI) simp
  show ?thesis
    unfolding SubArray_Precharge_def
    by (simp only: chain_simps; intro returns_intro; (simp only: not_not prod.case)?)
      (auto simp: not_less intro!: weff precharge_effectI intro: wback)
qed

lemma SubArray_Refresh_effect:
  "returns (SubArray_Refresh env r ws) (\<lambda>(ok, w', s').
     if ok then nextActivate (snd ws) \<le> now (fst ws) \<and> (UsePrecharge (prm env) \<longrightarrow> state (snd ws) = SUBARRAY_CLOSED)
        \<and> (\<exists>f. s' = upd_stats f ((snd ws)\<lparr>nextActivate := max (nextActivate (snd ws)) (now (fst ws) + tRFC (prm env)),
                  state := SUBARRAY_REFRESHING\<rparr>))
     else (w', s') = ws)"
  unfolding SubArray_Refresh_def
  by (simp only: chain_simps; intro returns_intro; (simp only: not_not prod.case)?; fastforce simp: not_less)

end
