(* ===== verification/Sub_Array_Timing.thy ===== *)
theory Sub_Array_Timing
  imports Sub_Array_Rules
begin

text \<open>
  Timing safety of the subarray: the table of distances a memory device requires between two
  commands (\<open>min_gap\<close>), runs of a subarray inside a memory system, and the proof that the
  accepted commands of every run keep those distances.
\<close>

subsection \<open>Minimum distances between commands\<close>

text \<open>The commands by the earliest-cycle field they are checked against.\<close>

datatype command_class = C_ACT | C_READ | C_WRITE | C_PRE | C_PD | C_NONE

fun class_of :: "OpType \<Rightarrow> command_class" where
  "class_of ACTIVATE = C_ACT"
| "class_of REFRESH = C_ACT"
| "class_of READ = C_READ"
| "class_of READ_PRECHARGE = C_READ"
| "class_of WRITE = C_WRITE"
| "class_of WRITE_PRECHARGE = C_WRITE"
| "class_of PRECHARGE = C_PRE"
| "class_of PRECHARGE_ALL = C_PRE"
| "class_of POWERDOWN_PDA = C_PD"
| "class_of POWERDOWN_PDPF = C_PD"
| "class_of POWERDOWN_PDPS = C_PD"
| "class_of _ = C_NONE"

fun earliest :: "SubArray \<Rightarrow> command_class \<Rightarrow> ncycle_t" where
  "earliest s C_ACT = nextActivate s"
| "earliest s C_READ = nextRead s"
| "earliest s C_WRITE = nextWrite s"
| "earliest s C_PRE = nextPrecharge s"
| "earliest s C_PD = nextPowerDown s"
| "earliest s C_NONE = 0"

text \<open>The specification: the distance a device requires from a command of a type, with its burst
  count and (for a write) its programming time, to a later command of a class.\<close>

fun min_gap :: "Params \<Rightarrow> OpType \<times> ncounter_t \<times> ncycle_t \<Rightarrow> command_class \<Rightarrow> ncycle_t option" where
  "min_gap p (ACTIVATE, b, wt) c =
     (case c of C_READ \<Rightarrow> Some (tRCD p - tAL p) | C_WRITE \<Rightarrow> Some (tRCD p - tAL p)
      | C_PRE \<Rightarrow> Some (max (tRCD p) (tRAS p)) | C_PD \<Rightarrow> Some (max (tRCD p) (tRAS p)) | _ \<Rightarrow> None)"
| "min_gap p (READ, b, wt) c =
     (let bursts = burst_gap p * (b - 1)
      in case c of C_READ \<Rightarrow> Some (burst_gap p * b) | C_WRITE \<Rightarrow> Some (bursts + tCAS p + tBURST p + tRTRS p - tCWD p)
         | C_PRE \<Rightarrow> Some (bursts + tAL p + tBURST p + tRTP p - tCCD p)
         | C_PD \<Rightarrow> Some (bursts + tCAS p + tAL p + tBURST p + 1) | _ \<Rightarrow> None)"
| "min_gap p (READ_PRECHARGE, b, wt) c =
     (let bursts = burst_gap p * (b - 1)
      in case c of C_NONE \<Rightarrow> None | C_PD \<Rightarrow> Some (bursts + tCAS p + tAL p + tBURST p + 1)
         | _ \<Rightarrow> Some (bursts + tAL p + tRTP p + tRP p))"
| "min_gap p (WRITE, b, wt) c =
     (let bursts = burst_gap p * (b - 1)
      in case c of C_READ \<Rightarrow> Some (bursts + tCWD p + tBURST p + tWTR p + wt) | C_WRITE \<Rightarrow> Some (burst_gap p * b + wt)
         | C_PRE \<Rightarrow> Some (bursts + tAL p + tCWD p + tBURST p + wt + tWR p)
         | C_PD \<Rightarrow> Some (bursts + tAL p + tCWD p + tBURST p + wt + tWR p) | _ \<Rightarrow> None)"
| "min_gap p (WRITE_PRECHARGE, b, wt) c =
     (if c = C_NONE then None
      else Some (burst_gap p * (b - 1) + tAL p + tCWD p + tBURST p + wt + tWR p + tRP p))"
| "min_gap p (PRECHARGE, b, wt) c = (if c = C_ACT then Some (max 1 (tRP p)) else None)"
| "min_gap p (PRECHARGE_ALL, b, wt) c = (if c = C_ACT then Some (max 1 (tRP p)) else None)"
| "min_gap p (REFRESH, b, wt) c = (if c = C_ACT then Some (tRFC p) else None)"
| "min_gap p _ c = None"

text \<open>An accepted command: its cycle, type, burst count and programming time.\<close>

type_synonym issued = "ncycle_t \<times> OpType \<times> ncounter_t \<times> ncycle_t"

text \<open>The comparison is the 64-bit one the code makes; where the sum does not overflow it is the
  distance in cycles.\<close>

definition spaced :: "Params \<Rightarrow> issued \<Rightarrow> issued \<Rightarrow> bool" where
  "spaced p e e' \<longleftrightarrow> fst e \<le> fst e' \<and> (\<forall>d. min_gap p (snd e) (class_of (fst (snd e'))) = Some d \<longrightarrow>
     fst e + d \<le> fst e' \<and> (unat (fst e) + unat d < 2 ^ 64 \<longrightarrow> unat (fst e) + unat d \<le> unat (fst e')))"

lemma spacedI:
  "fst e \<le> fst e' \<Longrightarrow> (\<And>d. min_gap p (snd e) (class_of (fst (snd e'))) = Some d \<Longrightarrow> fst e + d \<le> fst e') \<Longrightarrow> spaced p e e'"
  by (auto simp: spaced_def word_le_nat_alt unat_add_no_overflow)

subsection \<open>The earliest cycles only grow, and by the required distance\<close>

lemma earliest_control: "same_control s s' \<Longrightarrow> earliest s' = earliest s"
  by (rule ext, case_tac x) (auto simp: same_control_def)

lemma encoder_Read_0 [simp]: "encoder_Read enc req = 0"
  by (simp add: encoder_Read_def FlipNWrite_Read_def split: option.split Encoder.split)

definition advances :: "Params \<Rightarrow> ncycle_t \<Rightarrow> OpType \<times> ncounter_t \<times> ncycle_t \<Rightarrow> SubArray \<Rightarrow> SubArray \<Rightarrow> bool" where
  "advances p cur e s s' \<longleftrightarrow> (\<forall>c. earliest s c \<le> earliest s' c)
     \<and> (\<forall>c d. min_gap p e c = Some d \<longrightarrow> cur + d \<le> earliest s' c)"

lemma activate_advances: "advances p cur (ACTIVATE, b, wt) s (activate_effect p cur activateRow s)"
  unfolding advances_def
  by (intro conjI allI; case_tac c; simp add: activate_effect_def algebra_simps)

lemma read_advances:
  assumes "req_type req = ty" and "ty = READ \<or> ty = READ_PRECHARGE"
  shows "advances p cur (ty, burstCount req, wt) s (read_timing p cur req 0 s)"
  using assms unfolding advances_def
  by (intro conjI allI; case_tac c; auto simp: read_timing_def Let_def add_ac add_diff_eq le_max_iff_disj)

lemma write_advances:
  assumes "req_type req = ty" and "ty = WRITE \<or> ty = WRITE_PRECHARGE"
  shows "advances p cur (ty, burstCount req, wt) s (write_timing p cur req wt s)"
  using assms unfolding advances_def
  by (intro conjI allI; case_tac c; auto simp: write_timing_def Let_def add_ac add_diff_eq le_max_iff_disj)

subsection \<open>Accepted commands\<close>

lemma SubArray_IsIssuable_effect:
  "returns (SubArray_IsIssuable env req ws) (\<lambda>(ok, reason, s'). (\<exists>f. s' = upd_stats f (snd ws))
     \<and> (ok \<longrightarrow> nextCommand (snd ws) = CMD_NOP \<and> earliest (snd ws) (class_of (req_type req)) \<le> now (fst ws)))"
proof -
  have id: "\<exists>f. s = upd_stats f s" for s
    by (rule exI [of _ "\<lambda>x. x"]) (simp add: upd_stats_def)
  show ?thesis
    unfolding SubArray_IsIssuable_def
    by (cases ws; cases "req_type req"; simp only: Let_def chain_simps OpType.simps; intro returns_intro;
        auto simp: id not_less)
qed

text \<open>Dispatch: what holds of every command holds of \<^verbatim>\<open>IssueCommand\<close>.\<close>

lemma SubArray_IssueCommand_cases:
  assumes "heap w r = Some req" and "\<And>f ok. ok \<longrightarrow> class_of (req_type req) \<in> {C_NONE, C_PD} \<Longrightarrow> P (ok, w, upd_stats f s)"
    and "\<And>f. req_type req = ACTIVATE \<Longrightarrow> returns (SubArray_Activate env r (w, upd_stats f s)) P"
    and "\<And>f. class_of (req_type req) = C_READ \<Longrightarrow> returns (SubArray_Read env r (w, upd_stats f s)) P"
    and "\<And>f. class_of (req_type req) = C_WRITE \<Longrightarrow> returns (SubArray_Write env r (w, upd_stats f s)) P"
    and "\<And>f. class_of (req_type req) = C_PRE \<Longrightarrow> returns (SubArray_Precharge env r (w, upd_stats f s)) P"
    and "\<And>f. req_type req = REFRESH \<Longrightarrow> returns (SubArray_Refresh env r (w, upd_stats f s)) P"
  shows "returns (SubArray_IssueCommand env r (w, s)) P"
proof -
  have ask: "returns (SubArray_IsIssuable env req (w, s)) (\<lambda>x. \<exists>f. snd (snd x) = upd_stats f s)"
    by (rule returns_mono [OF SubArray_IsIssuable_effect]) auto
  show ?thesis
    unfolding SubArray_IssueCommand_def fst_conv Let_def assms(1) Option.bind.bind_lunit
  proof (rule returns_bind_cut [OF ask], clarify)
    fix ok :: bool and reason :: "FailReasons option" and s' f
    assume s': "snd (snd (ok, reason, s')) = upd_stats f s"
    show "returns (if \<not> ok then Some (False, w, s') else case req_type req of
        ACTIVATE \<Rightarrow> SubArray_Activate env r (w, s') | READ \<Rightarrow> SubArray_Read env r (w, s')
      | READ_PRECHARGE \<Rightarrow> SubArray_Read env r (w, s') | WRITE \<Rightarrow> SubArray_Write env r (w, s')
      | WRITE_PRECHARGE \<Rightarrow> SubArray_Write env r (w, s') | PRECHARGE \<Rightarrow> SubArray_Precharge env r (w, s')
      | PRECHARGE_ALL \<Rightarrow> SubArray_Precharge env r (w, s') | REFRESH \<Rightarrow> SubArray_Refresh env r (w, s')
      | _ \<Rightarrow> Some (True, w, s')) P"
      using s' assms(2-) by (cases ok; cases "req_type req") simp_all
  qed
qed

definition accepts :: "SubArrayEnv \<Rightarrow> nat \<Rightarrow> sub_state \<Rightarrow> bool \<times> sub_state \<Rightarrow> bool" where
  "accepts env r ws x \<longleftrightarrow> (case x of (ok, w', s') \<Rightarrow> world_step (fst ws) w' \<and> writeMode s' = writeMode (snd ws)
     \<and> (if ok then \<exists>req. heap (fst ws) r = Some req \<and> earliest (snd ws) (class_of (req_type req)) \<le> now (fst ws)
            \<and> advances (prm env) (now (fst ws)) (req_type req, burstCount req, writeEnd s' - writeStart s') (snd ws) s'
        else earliest s' = earliest (snd ws)))"

lemma earliest_upd [simp]: "earliest (upd_stats f s) = earliest s"
  by (rule earliest_control) simp

lemma advances_stats [simp]: "advances p cur e s (upd_stats f s') = advances p cur e s s'"
  by (simp add: advances_def)

lemma advances_same: "advances p cur e s s1 \<Longrightarrow> earliest s2 = earliest s1 \<Longrightarrow> advances p cur e s s2"
  by (simp add: advances_def)

lemma timing_writeMode [simp]:
  "writeMode (read_timing p cur req l s) = writeMode s" "writeMode (activate_effect p cur a s) = writeMode s"
  "writeMode (write_timing p cur req l s) = writeMode s"
  by (simp_all add: read_timing_def activate_effect_def write_timing_def Let_def)

lemma SubArray_Activate_accepts:
  assumes "world_ok (fst ws)" "\<not> (WritePausing (prm env) \<and> isWriting (snd ws))" "heap (fst ws) r = Some req" "req_type req = ACTIVATE"
  shows "returns (SubArray_Activate env r ws) (accepts env r ws)"
  using assms
  by (intro returns_conj [OF SubArray_Activate_world [OF assms(1)] SubArray_Activate_effect]; case_tac "fst x")
    (auto simp: accepts_def CheckWritePausing_idle activate_advances)

lemma SubArray_Read_accepts:
  assumes "world_ok (fst ws)" "\<not> (WritePausing (prm env) \<and> isWriting (snd ws))" "heap (fst ws) r = Some req"
    "req_type req = READ \<or> req_type req = READ_PRECHARGE"
  shows "returns (SubArray_Read env r ws) (accepts env r ws)"
  using assms
  by (intro returns_conj [OF SubArray_Read_world [OF assms(1)] SubArray_Read_effect]; case_tac "fst x")
    (auto simp: accepts_def CheckWritePausing_idle read_advances)

lemma write_effect_advances:
  assumes "write_effect p cur r req s s'" and "req_type req = ty" and "ty = WRITE \<or> ty = WRITE_PRECHARGE"
  shows "advances p cur (ty, burstCount req, writeEnd s' - writeStart s') s s' \<and> writeMode s' = writeMode s"
proof -
  have "earliest s' = earliest (write_timing p cur req (writeEnd s' - writeStart s') s)"
    using assms(1) by (intro ext, case_tac x) (auto simp: write_effect_def same_control_def)
  moreover have "writeMode s' = writeMode s"
    using assms(1) by (simp add: write_effect_def same_control_def)
  ultimately show ?thesis
    using assms(2,3) advances_same [OF write_advances] by blast
qed

lemma SubArray_Write_accepts:
  assumes "world_ok (fst ws)" "heap (fst ws) r = Some req" "req_type req = WRITE \<or> req_type req = WRITE_PRECHARGE"
  shows "returns (SubArray_Write env r ws) (accepts env r ws)"
  using assms
  by (intro returns_conj [OF SubArray_Write_world [OF assms(1)] SubArray_Write_effect [OF assms(1)]]; case_tac "fst x")
    (auto simp: accepts_def write_effect_advances)

lemma SubArray_Precharge_accepts:
  assumes "world_ok (fst ws)" "heap (fst ws) r = Some req" "req_type req = PRECHARGE \<or> req_type req = PRECHARGE_ALL"
    "writeMode (snd ws) \<noteq> WRITE_BACK"
  shows "returns (SubArray_Precharge env r ws) (accepts env r ws)"
proof -
  have mode: "writeMode s' = writeMode s" if "precharge_effect t s s'" for t s s'
    using that by (simp add: precharge_effect_def same_control_def)
  have eff: "advances p cur (ty, b, wt) s s'"
    if "precharge_effect (cur + max 1 (tRP p)) s s'" "ty = PRECHARGE \<or> ty = PRECHARGE_ALL" for p cur b wt s s' ty
  proof -
    have "earliest s c \<le> earliest s' c" for c
      using that(1) by (cases c) (auto simp: precharge_effect_def same_control_def)
    then show ?thesis
      using that by (auto simp: advances_def precharge_effect_def same_control_def split: if_splits)
  qed
  show ?thesis
    using assms
    by (intro returns_conj [OF SubArray_Precharge_world [OF assms(1)] SubArray_Precharge_effect [OF assms(1)]]; case_tac "fst x")
      (auto simp: accepts_def eff mode)
qed

lemma SubArray_Refresh_accepts:
  assumes "world_ok (fst ws)" "heap (fst ws) r = Some req" "req_type req = REFRESH"
  shows "returns (SubArray_Refresh env r ws) (accepts env r ws)"
proof -
  have eff: "advances p cur (REFRESH, b, wt) s (s\<lparr>nextActivate := max (nextActivate s) (cur + tRFC p), state := st\<rparr>)" for p cur b wt s st
    unfolding advances_def by (intro conjI allI; case_tac c) auto
  show ?thesis
    using assms
    by (intro returns_conj [OF SubArray_Refresh_world [OF assms(1)] SubArray_Refresh_effect]; case_tac "fst x")
      (auto simp: accepts_def eff)
qed

lemma accepts_stats: "accepts env r (w, upd_stats f s) x = accepts env r (w, s) x"
  by (simp add: accepts_def advances_def)

lemma SubArray_IssueCommand_accepts:
  assumes "world_ok (fst ws)" and "\<not> (WritePausing (prm env) \<and> isWriting (snd ws))" and "writeMode (snd ws) \<noteq> WRITE_BACK"
  shows "returns (SubArray_IssueCommand env r ws) (accepts env r ws)"
  unfolding SubArray_IssueCommand_def Let_def
proof (rule returns_bind, rule returns_bind, clarify, rule returns_if)
  fix req ok reason s
  assume req: "heap (fst ws) r = Some req" and issuable: "SubArray_IsIssuable env req ws = Some (ok, reason, s)"
  then obtain f where s: "s = upd_stats f (snd ws)"
    and ok: "ok \<Longrightarrow> earliest (snd ws) (class_of (req_type req)) \<le> now (fst ws)"
    using returnsD [OF SubArray_IsIssuable_effect] by fastforce
  have acc: "accepts env r (fst ws, s) = accepts env r ws"
    by (rule ext) (simp add: s accepts_stats)
  show "returns (Some (False, fst ws, s)) (accepts env r ws)"
    using assms(1) by (simp add: accepts_def s world_step_refl)
  assume "\<not> \<not> ok"
  then have e: "earliest (snd ws) (class_of (req_type req)) \<le> now (fst ws)"
    using ok by simp
  have other: "accepts env r (fst ws, s) (True, fst ws, s)"
    if "\<And>b wt c. min_gap (prm env) (req_type req, b, wt) c = None"
    using that assms(1) e req by (simp add: accepts_def s world_step_refl advances_def)
  show "returns (case req_type req of ACTIVATE \<Rightarrow> SubArray_Activate env r (fst ws, s)
      | READ \<Rightarrow> SubArray_Read env r (fst ws, s) | READ_PRECHARGE \<Rightarrow> SubArray_Read env r (fst ws, s)
      | WRITE \<Rightarrow> SubArray_Write env r (fst ws, s) | WRITE_PRECHARGE \<Rightarrow> SubArray_Write env r (fst ws, s)
      | PRECHARGE \<Rightarrow> SubArray_Precharge env r (fst ws, s) | PRECHARGE_ALL \<Rightarrow> SubArray_Precharge env r (fst ws, s)
      | REFRESH \<Rightarrow> SubArray_Refresh env r (fst ws, s) | _ \<Rightarrow> Some (True, fst ws, s)) (accepts env r ws)"
    unfolding acc [symmetric] using assms req
    by (cases "req_type req") (auto simp: s intro: other [unfolded s] SubArray_Activate_accepts SubArray_Read_accepts
        SubArray_Write_accepts SubArray_Precharge_accepts SubArray_Refresh_accepts)
qed

subsection \<open>Runs\<close>

text \<open>A run of one subarray inside a memory system: commands arrive, requests complete, and
  between those steps the rest of the system does anything to the queue and the requests that
  keeps them well formed and does not turn the clock back. The accepted commands are recorded.\<close>

inductive sub_run :: "SubArrayEnv \<Rightarrow> sub_state \<Rightarrow> issued list \<Rightarrow> sub_state \<Rightarrow> bool" for env ws0 where
  run_start: "sub_run env ws0 [] ws0"
| run_accepted:
    "sub_run env ws0 tr ws \<Longrightarrow> heap (fst ws) r = Some req \<Longrightarrow> SubArray_IssueCommand env r ws = Some (True, ws') \<Longrightarrow>
     sub_run env ws0 (tr @ [(now (fst ws), req_type req, burstCount req, writeEnd (snd ws') - writeStart (snd ws'))]) ws'"
| run_refused:
    "sub_run env ws0 tr ws \<Longrightarrow> SubArray_IssueCommand env r ws = Some (False, ws') \<Longrightarrow> sub_run env ws0 tr ws'"
| run_complete:
    "sub_run env ws0 tr ws \<Longrightarrow> SubArray_RequestComplete env parent r ws = Some (rv, ws') \<Longrightarrow>
     world_ok (fst ws') \<Longrightarrow> now (fst ws) \<le> now (fst ws') \<Longrightarrow> sub_run env ws0 tr ws'"
| run_system:
    "sub_run env ws0 tr (w, s) \<Longrightarrow> world_ok w' \<Longrightarrow> now w \<le> now w' \<Longrightarrow> sub_run env ws0 tr (w', s)"

definition timed_inv :: "Params \<Rightarrow> issued list \<Rightarrow> sub_state \<Rightarrow> bool" where
  "timed_inv p tr ws \<longleftrightarrow> world_ok (fst ws) \<and> writeMode (snd ws) \<noteq> WRITE_BACK \<and> sorted_wrt (spaced p) tr
     \<and> (\<forall>e \<in> set tr. fst e \<le> now (fst ws)
          \<and> (\<forall>c d. min_gap p (snd e) c = Some d \<longrightarrow> fst e + d \<le> earliest (snd ws) c))"

lemma timed_inv_accepted:
  assumes inv: "timed_inv (prm env) tr ws" and acc: "accepts env r ws (True, ws')" and req: "heap (fst ws) r = Some req"
  shows "timed_inv (prm env) (tr @ [(now (fst ws), req_type req, burstCount req, writeEnd (snd ws') - writeStart (snd ws'))]) ws'"
proof -
  let ?p = "prm env" and ?e = "(now (fst ws), req_type req, burstCount req, writeEnd (snd ws') - writeStart (snd ws'))"
  have w: "world_ok (fst ws')" "now (fst ws') = now (fst ws)" "writeMode (snd ws') = writeMode (snd ws)"
    and e: "earliest (snd ws) (class_of (req_type req)) \<le> now (fst ws)" and adv: "advances ?p (now (fst ws)) (snd ?e) (snd ws) (snd ws')"
    using acc req by (auto simp: accepts_def world_step_def split: prod.splits)
  have "spaced ?p e0 ?e" if "e0 \<in> set tr" for e0
    using inv that e by (intro spacedI) (auto simp: timed_inv_def intro: order_trans)
  moreover have "fst e0 + d \<le> earliest (snd ws') c" if "e0 \<in> set tr" "min_gap ?p (snd e0) c = Some d" for e0 c d
    using inv that adv order_trans [of _ "earliest (snd ws) c" "earliest (snd ws') c"]
    by (auto simp: timed_inv_def advances_def)
  ultimately show ?thesis
    using inv w adv by (auto simp: timed_inv_def sorted_wrt_append advances_def)
qed

lemma timed_inv_same:
  assumes "timed_inv p tr ws" and "world_ok (fst ws')" and "now (fst ws) \<le> now (fst ws')"
    and "earliest (snd ws') = earliest (snd ws)" and "writeMode (snd ws') = writeMode (snd ws)"
  shows "timed_inv p tr ws'"
  using assms by (auto simp: timed_inv_def intro: order_trans)

lemma SubArray_RequestComplete_timing:
  "returns (SubArray_RequestComplete env parent r ws) (\<lambda>(rv, ws').
     earliest (snd ws') = earliest (snd ws) \<and> writeMode (snd ws') = writeMode (snd ws))"
proof -
  have e: "earliest s' = earliest s"
    if "nextActivate s' = nextActivate s" "nextPrecharge s' = nextPrecharge s" "nextRead s' = nextRead s"
      "nextWrite s' = nextWrite s" "nextPowerDown s' = nextPowerDown s" for s s'
    using that by (intro ext, case_tac x) auto
  show ?thesis
    unfolding SubArray_RequestComplete_def
    by (cases ws) (simp only: Let_def prod.case; intro returns_intro;
        (simp only: prod.case OpType.case_distrib [of "\<lambda>m. returns m P" for P])?;
        auto intro!: e returns_intro split: OpType.splits)
qed

subsection \<open>Timing safety\<close>

text \<open>C5: In every run of a write-through subarray without write pausing, any two accepted
  commands keep the distance the device timing requires of the earlier one, for every pair of
  commands (activate to column access and to precharge, column access to column access and to
  precharge, implicit and explicit precharge and refresh to activate, power down), whatever
  happens in between.\<close>

theorem subarray_timing_safe:
  assumes "sub_run env ws0 tr ws" and "world_ok (fst ws0)" and "\<not> WritePausing (prm env)"
    and "writeMode (snd ws0) \<noteq> WRITE_BACK"
  shows "sorted_wrt (spaced (prm env)) tr"
proof -
  have "timed_inv (prm env) tr ws"
    using assms(1)
  proof induction
    case run_start
    show ?case using assms by (simp add: timed_inv_def)
  next
    case (run_accepted tr ws r req ws')
    then have "accepts env r ws (True, ws')"
      using returnsD [OF SubArray_IssueCommand_accepts] assms(3) by (auto simp: timed_inv_def)
    with run_accepted show ?case by (intro timed_inv_accepted)
  next
    case (run_refused tr ws r ws')
    then have "accepts env r ws (False, ws')"
      using returnsD [OF SubArray_IssueCommand_accepts] assms(3) by (auto simp: timed_inv_def)
    then have "world_ok (fst ws') \<and> now (fst ws') = now (fst ws) \<and> earliest (snd ws') = earliest (snd ws)
        \<and> writeMode (snd ws') = writeMode (snd ws)"
      by (cases ws') (simp add: accepts_def world_step_def)
    then show ?case
      by (intro timed_inv_same [OF run_refused.IH]) simp_all
  next
    case (run_complete tr ws parent r rv ws')
    with returnsD [OF SubArray_RequestComplete_timing run_complete.hyps(2)] show ?case
      by (intro timed_inv_same [OF run_complete.IH]) simp_all
  next
    case (run_system tr w s w')
    then show ?case by (intro timed_inv_same [OF run_system.IH]) simp_all
  qed
  then show ?thesis by (simp add: timed_inv_def)
qed

end
