(* ===== verification/Sub_Array_Progress.thy ===== *)
theory Sub_Array_Progress
  imports Sub_Array_Timing
begin

text \<open>
  Progress of the subarray: a command that \<^verbatim>\<open>IsIssuable\<close> accepts is carried out, without a
  failed assertion and without an access outside a buffer. What carrying out means is the
  specification \<open>sub_did\<close>: the state of the row buffer and the distances of the timing table.
\<close>

text \<open>What the environment of a subarray provides: its hook is registered, its requests and the
  remembered data are well formed, and no write that could be paused is under way.\<close>

definition sub_ready :: "SubArrayEnv \<Rightarrow> sub_state \<Rightarrow> bool" where
  "sub_ready env ws \<longleftrightarrow> world_ok (fst ws) \<and> find_hook (siblings env) (self env) \<noteq> None
     \<and> (\<forall>si. sim (fst ws) = Some si \<longrightarrow> sim_ok si) \<and> \<not> (WritePausing (prm env) \<and> isWriting (snd ws))"

lemma remember_read_succeeds:
  assumes "quiet_step w0 w" and "\<forall>si. sim w0 = Some si \<longrightarrow> sim_ok si" and "request_ok req"
  shows "succeeds (remember_read req (w, s)) (world_step w0)"
proof -
  have "SetDataAtAddress a (req_data req) si \<noteq> None" if "sim w = Some si" "memoryData si a = None" for si a
    using SetDataAtAddress_fresh [OF _ that(2)] assms that(1) by (auto simp: quiet_step_def request_ok_def)
  then have "\<exists>w'. remember_read req (w, s) = Some w'"
    by (fastforce simp: remember_read_def GetDataAtAddress_def bind_eq_Some_conv split: option.split)
  with assms(1) show ?thesis
    by (auto simp: succeeds_def quiet_step_def remember_read_step [of req "(w, s)" _ w0])
qed

lemma SubArray_Activate_succeeds:
  assumes "sub_ready env (w, s)" "heap w r = Some req" "nextActivate s \<le> now w"
    "UsePrecharge (prm env) \<longrightarrow> state s = SUBARRAY_CLOSED"
  shows "succeeds (SubArray_Activate env r (w, s)) fst"
proof -
  have r: "world_ok w" "find_hook (siblings env) (self env) \<noteq> None" "CheckWritePausing env (w, s) = Some (w, s)"
    using assms(1) by (auto simp: sub_ready_def intro!: CheckWritePausing_idle)
  note ops = succeeds_bind [OF update_request_succeeds [OF _ r(1) assms(2)]]
    succeeds_bind [OF insert_response_succeeds [OF _ r(2)]]
  show ?thesis
    using assms(3,4) quiet_step_refl [OF r(1)]
    by (simp only: SubArray_Activate_def chain_simps r(3) assms(2) fst_conv; intro succeeds_prod succeeds_if ops) auto
qed

lemma SubArray_Read_succeeds:
  assumes "sub_ready env (w, s)" "heap w r = Some req" "nextRead s \<le> now w"
    "state s = SUBARRAY_OPEN" "row (address req) = openRow s"
  shows "succeeds (SubArray_Read env r (w, s)) fst"
proof -
  have r: "world_ok w" "find_hook (siblings env) (self env) \<noteq> None" "CheckWritePausing env (w, s) = Some (w, s)"
      "\<forall>si. sim w = Some si \<longrightarrow> sim_ok si" "request_ok req"
    using assms(1,2) world_ok_heap by (auto simp: sub_ready_def intro!: CheckWritePausing_idle)
  note ops = succeeds_bind [OF copy_request_succeeds [OF _ r(1) assms(2)]]
    succeeds_bind [OF insert_response_succeeds [OF _ r(2)]] succeeds_bind [OF remember_read_succeeds [OF _ r(4,5)]]
  show ?thesis
    using assms(3-5) quiet_step_refl [OF r(1)]
    by (simp only: SubArray_Read_def chain_simps r(3) assms(2); intro succeeds_prod succeeds_if ops) auto
qed

lemma SubArray_Refresh_succeeds:
  assumes "sub_ready env (w, s)" "heap w r = Some req" "nextActivate s \<le> now w"
    "UsePrecharge (prm env) \<longrightarrow> state s = SUBARRAY_CLOSED"
  shows "succeeds (SubArray_Refresh env r (w, s)) fst"
proof -
  have r: "world_ok w" "find_hook (siblings env) (self env) \<noteq> None"
    using assms(1) by (auto simp: sub_ready_def)
  note ops = succeeds_bind [OF update_request_succeeds [OF _ r(1) assms(2)]]
    succeeds_bind [OF insert_response_succeeds [OF _ r(2)]]
  show ?thesis
    using assms(3,4) quiet_step_refl [OF r(1)]
    by (simp only: SubArray_Refresh_def chain_simps fst_conv; intro succeeds_prod succeeds_if ops) auto
qed

lemma SubArray_Precharge_succeeds:
  assumes "sub_ready env (w, s)" "heap w r = Some req" "nextPrecharge s \<le> now w"
    "state s = SUBARRAY_OPEN \<or> state s = SUBARRAY_CLOSED" "writeMode s \<noteq> WRITE_BACK"
  shows "succeeds (SubArray_Precharge env r (w, s)) fst"
proof -
  have r: "world_ok w" "find_hook (siblings env) (self env) \<noteq> None"
    using assms(1) by (auto simp: sub_ready_def)
  note ops = succeeds_bind [OF update_request_succeeds [OF _ r(1) assms(2)]]
    succeeds_bind [OF insert_response_succeeds [OF _ r(2)]]
  show ?thesis
    using assms(3-5) quiet_step_refl [OF r(1)]
    by (simp only: SubArray_Precharge_def chain_simps fst_conv snd_conv; intro succeeds_prod succeeds_if ops) auto
qed

subsection \<open>Writes that cannot fail\<close>

text \<open>The data of a write covers the memory word; a memory word is a whole number of 32-bit words.\<close>

definition line_fits :: "Params \<Rightarrow> NVMainRequest \<Rightarrow> bool" where
  "line_fits p req \<longleftrightarrow> 32 dvd unat (memoryWordSize p)
     \<and> (\<forall>bs. rawData (req_data req) = Some bs \<longrightarrow> 4 * unat (writeBytes32 p) \<le> length bs)"

lemma mlc2_cells_total:
  assumes "32 dvd unat (memoryWordSize p)"
  shows "writeBytes32 p * 16 = ucast (memoryWordSize p div 2)"
proof -
  obtain k where k: "unat (memoryWordSize p) = 32 * k"
    using assms by auto
  then have b: "k < 2 ^ 27"
    using unsigned_less [where 'a = nat, of "memoryWordSize p"] by simp
  have u: "unat (ucast (x :: 32 word) :: 64 word) = unat x" for x
    using unsigned_less [where 'a = nat, of x] by (simp add: unsigned_ucast_eq take_bit_nat_eq_self)
  have "unat (writeBytes32 p) = k"
    using k by (simp add: writeBytes32_def u unat_div)
  moreover have "unat (ucast (memoryWordSize p div 2) :: 64 word) = 16 * k"
    using k by (simp add: u unat_div)
  ultimately show ?thesis
    using b by (intro word_unat_eq_iff [THEN iffD2]) (simp add: unat_word_ariths)
qed

lemma WriteCellData_total:
  assumes "heap (fst ws) r = Some req" and "line_fits (prm env) req"
  shows "\<exists>t ws'. WriteCellData env r ws = Some (t, ws')"
proof -
  let ?n = "writeBytes32 (prm env)"
  obtain w s where ws: "ws = (w, s)" by (cases ws)
  show ?thesis
  proof (cases "rawData (req_data req)")
    case None
    then show ?thesis
      using assms(1) by (simp add: WriteCellData_def ws Let_def)
  next
    case (Some bs)
    then have len: "unat ?n \<le> length (words_of_bytes bs)"
      using assms(2) by (auto simp: line_fits_def words_of_bytes_length)
    obtain c0 c1 where c1: "CountBitsMLC1 0 (words_of_bytes bs) ?n = Some c0" "CountBitsMLC1 1 (words_of_bytes bs) ?n = Some c1"
      using mlc1_counts [OF len] by blast
    obtain d0 d1 d2 d3 where c2: "CountBitsMLC2 0 (words_of_bytes bs) ?n = Some d0" "CountBitsMLC2 1 (words_of_bytes bs) ?n = Some d1"
      "CountBitsMLC2 2 (words_of_bytes bs) ?n = Some d2" "CountBitsMLC2 3 (words_of_bytes bs) ?n = Some d3"
      "d0 + d1 + d2 + d3 = ?n * 16"
      using mlc2_counts [OF len] by blast
    have "d0 + d1 + d2 + d3 = ucast (memoryWordSize (prm env) div 2)"
      using c2(5) mlc2_cells_total assms(2) by (simp add: line_fits_def)
    then show ?thesis
      using assms(1) Some c1 c2(1-4) by (simp add: WriteCellData_def ws Let_def case_prod_beta)
  qed
qed
text \<open>The plain configuration: no encoder, no wear, every bit of the word is written, and writes go
  through.\<close>

definition plain_writes :: "SubArrayEnv \<Rightarrow> SubArray \<Rightarrow> bool" where
  "plain_writes env s \<longleftrightarrow> (dataEncoder s = None \<or> dataEncoder s = Some DefaultEncoder)
     \<and> (endrModel s = None \<or> fst (the (endrModel s)) = NullModel) \<and> WriteAllBits (prm env) \<and> writeMode s \<noteq> WRITE_BACK"

lemma write_time_total:
  assumes "world_ok w" "plain_writes env s" "heap w r = Some req" "line_fits (prm env) req"
  shows "\<exists>x. write_time env r (w, s) = Some x"
proof -
  have enc: "encoder_Write env r (w, s) = Some (0, (w, s))" and endr: "UpdateEndurance env r (w, s) = Some (0, (w, s))"
    using assms(2) by (auto simp: plain_writes_def encoder_Write_def UpdateEndurance_def split: option.split)
  obtain t w3 s3 where c: "WriteCellData env r (w, s) = Some (t, (w3, s3))"
    using WriteCellData_total [of "(w, s)" r req env] assms(3,4) by auto
  then have f: "sub_frame (w, s) (w3, s3)"
    using returnsD [OF WriteCellData_frame c] assms(1) by simp
  then obtain req' where "heap w3 r = Some req'"
    using assms(1,3) world_ok_heap [of w r req]
    by (auto simp: sub_frame_def world_frame_def map_option_case split: option.splits)
  moreover have "writeMode s3 \<noteq> WRITE_BACK" "WriteAllBits (prm env)"
    using f assms(2) by (auto simp: sub_frame_def same_control_def plain_writes_def)
  ultimately show ?thesis
    using assms(3) by (simp add: write_time_def Let_def enc endr c update_request_def)
qed

lemma heap_succeeds:
  assumes "quiet_step w0 w" and "world_ok w0" and "heap w0 r = Some req0"
  shows "succeeds (heap w r) (\<lambda>_. True)"
  using world_step_live [OF _ assms(2,3)] assms(1) by (auto simp: quiet_step_def succeeds_def)

lemma quiet_step_bump: "quiet_step a w \<Longrightarrow> quiet_step a (w\<lparr>next_ref := Suc (next_ref w)\<rparr>)"
  using queue_good_mono [of "next_ref w" "evq w" "Suc (next_ref w)"]
  by (auto simp: quiet_step_def world_step_def world_ok_def less_SucI)

lemma SubArray_Write_succeeds:
  assumes "sub_ready env (w, s)" "heap w r = Some req" "nextWrite s \<le> now w"
    "state s = SUBARRAY_OPEN" "row (address req) = openRow s" "plain_writes env s" "line_fits (prm env) req"
  shows "succeeds (SubArray_Write env r (w, s)) fst"
proof -
  have r: "world_ok w" "find_hook (siblings env) (self env) \<noteq> None"
    using assms(1) by (auto simp: sub_ready_def)
  obtain t lat un w1 s1 where wt: "write_time env r (w, s) = Some (t, lat, un, (w1, s1))"
    using write_time_total [OF r(1) assms(6,2,7)] by (metis prod_cases5)
  have w1: "world_ok w1"
    using returnsD [OF write_time_frame wt] r(1) by (simp add: sub_frame_def)
  obtain req1 where req1: "heap w1 r = Some req1"
    using write_time_control [OF _ wt, of req] assms(2) r(1) by auto
  obtain hook where hook: "find_hook (siblings env) (self env) = Some hook"
    using r(2) by auto
  note ops = succeeds_bind [OF update_request_succeeds [OF _ w1 req1]] succeeds_bind [OF heap_succeeds [OF _ w1 req1]]
    succeeds_bind [OF copy_request_succeeds [OF _ w1 req1]] succeeds_bind [OF insert_response_succeeds [OF _ r(2)]]
  show ?thesis
    using assms(3-5) quiet_step_refl [OF w1]
    by (simp only: SubArray_Write_def chain_simps fst_conv snd_conv wt hook assms(2); intro succeeds_prod succeeds_if ops)
      (auto intro: quiet_step_bump)
qed
subsection \<open>Which commands are accepted\<close>

text \<open>The specification of the command interface: the timing constraint of the command's class and
  the state of the row buffer.\<close>

definition can_issue :: "Params \<Rightarrow> ncycle_t \<Rightarrow> NVMainRequest \<Rightarrow> SubArray \<Rightarrow> bool" where
  "can_issue p cur req s \<longleftrightarrow> nextCommand s = CMD_NOP \<and> earliest s (class_of (req_type req)) \<le> cur
     \<and> (case req_type req of
          ACTIVATE \<Rightarrow> UsePrecharge p \<longrightarrow> state s = SUBARRAY_CLOSED
        | REFRESH \<Rightarrow> UsePrecharge p \<longrightarrow> state s = SUBARRAY_CLOSED
        | POWERUP \<Rightarrow> True
        | _ \<Rightarrow> (case class_of (req_type req) of
                 C_READ \<Rightarrow> state s = SUBARRAY_OPEN \<and> row (address req) = openRow s
               | C_WRITE \<Rightarrow> state s = SUBARRAY_OPEN \<and> row (address req) = openRow s
               | C_PRE \<Rightarrow> state s = SUBARRAY_OPEN \<or> state s = SUBARRAY_CLOSED
               | C_PD \<Rightarrow> \<not> isWriting s
               | _ \<Rightarrow> False))"

lemma SubArray_IsIssuable_decides:
  assumes "\<not> (WritePausing (prm env) \<and> isWriting s)"
  shows "\<exists>reason f. SubArray_IsIssuable env req (w, s) = Some (can_issue (prm env) (now w) req s, reason, upd_stats f s)"
proof -
  have forced: "write_forced (prm env) (w, s) = Some False"
    using assms by (auto simp: write_forced_def)
  have "\<exists>reason s'. SubArray_IsIssuable env req (w, s) = Some (can_issue (prm env) (now w) req s, reason, s')"
    using assms by (cases "req_type req") (auto simp: SubArray_IsIssuable_def can_issue_def Let_def forced not_less)
  then show ?thesis
    using returnsD [OF SubArray_IsIssuable_effect] by fastforce
qed

subsection \<open>What an accepted command does\<close>

text \<open>The row buffer after an accepted command.\<close>

fun state_after :: "OpType \<Rightarrow> SubArrayState \<Rightarrow> SubArrayState" where
  "state_after ACTIVATE st = SUBARRAY_OPEN"
| "state_after PRECHARGE st = SUBARRAY_PRECHARGING"
| "state_after PRECHARGE_ALL st = SUBARRAY_PRECHARGING"
| "state_after REFRESH st = SUBARRAY_REFRESHING"
| "state_after _ st = st"

lemma class_state_after:
  "class_of ty \<in> {C_NONE, C_PD, C_READ, C_WRITE} \<Longrightarrow> state_after ty st = st"
  "class_of ty = C_PRE \<Longrightarrow> state_after ty st = SUBARRAY_PRECHARGING"
  by (cases ty; simp)+

text \<open>The specification of an accepted command: the row buffer it leaves, and the earliest cycles of
  the commands after it, which keep the distances of the timing table.\<close>

definition sub_did :: "Params \<Rightarrow> ncycle_t \<Rightarrow> NVMainRequest \<Rightarrow> SubArray \<Rightarrow> SubArray \<Rightarrow> bool" where
  "sub_did p cur req s s' \<longleftrightarrow> state s' = state_after (req_type req) (state s)
     \<and> openRow s' = (if req_type req = ACTIVATE then row (address req) else openRow s)
     \<and> isWriting s' = (class_of (req_type req) = C_WRITE \<or> isWriting s)
     \<and> advances p cur (req_type req, burstCount req, writeEnd s' - writeStart s') s s'"

text \<open>The latency of a command of a type, with its burst count and programming time: when its
  completion is due.\<close>

fun latency :: "Params \<Rightarrow> OpType \<times> ncounter_t \<times> ncycle_t \<Rightarrow> ncycle_t option" where
  "latency p (ACTIVATE, b, wt) = Some (tRCD p)"
| "latency p (READ, b, wt) = Some (tCAS p + tBURST p)"
| "latency p (READ_PRECHARGE, b, wt) = Some (tCAS p + tBURST p)"
| "latency p (WRITE, b, wt) = Some (tCWD p + burst_gap p * b + wt)"
| "latency p (WRITE_PRECHARGE, b, wt) = Some (tCWD p + burst_gap p * b + wt)"
| "latency p (PRECHARGE, b, wt) = Some (max 1 (tRP p))"
| "latency p (PRECHARGE_ALL, b, wt) = Some (max 1 (tRP p))"
| "latency p (REFRESH, b, wt) = Some (tRFC p)"
| "latency p (_, b, wt) = None"

definition response_at :: "World \<Rightarrow> ncycle_t \<Rightarrow> nat \<Rightarrow> bool" where
  "response_at w t r \<longleftrightarrow> (\<exists>e \<in> set (events_at (evq w) t). ev_type e = EventResponse \<and> ev_request e = Some r)"

lemma insert_response_at:
  assumes "insert_response ch obj r t w = Some w'" and "world_step a w"
  shows "response_at w' t r"
proof -
  obtain hook where "events_at (evq w') = (events_at (evq w))
      (t := insert_by_priority (response_event (next_ref w) hook r t) 0 (events_at (evq w) t))"
    using insert_response_events [OF assms(1)] world_stepD [OF assms(2)] by blast
  then show ?thesis
    by (auto simp: response_at_def intro!: bexI [of _ "response_event (next_ref w) hook r t"])
qed

lemma remember_read_at: "remember_read req (w, s) = Some w' \<Longrightarrow> response_at w t r \<Longrightarrow> response_at w' t r"
  by (auto simp: remember_read_def response_at_def bind_eq_Some_conv split: option.splits if_splits)

lemma world_step_bump: "world_step a w \<Longrightarrow> world_step a (w\<lparr>next_ref := Suc (next_ref w)\<rparr>)"
  using queue_good_mono [of "next_ref w" "evq w" "Suc (next_ref w)"]
  by (auto simp: world_step_def world_ok_def less_SucI)

lemma write_event_at:
  assumes "insert_response ch obj bus t' w3 = Some w4" and "world_step a w3"
  shows "response_at (w4\<lparr>evq := InsertEvent_at ((Event_new i)\<lparr>ev_type := EventResponse, recipient := h, ev_request := Some r\<rparr>) t 0 (evq w4)\<rparr>) t r"
proof -
  have "queue_ok (evq w4)"
    using insert_response_step [OF assms] by (simp add: world_step_def world_ok_def queue_good_def)
  then show ?thesis
    by (auto simp: response_at_def events_at_InsertEvent_at)
qed

text \<open>The completion of every accepted command is filed at the cycle its latency gives.\<close>

lemma SubArray_Activate_answers:
  assumes "world_ok w" "\<not> (WritePausing (prm env) \<and> isWriting s)"
  shows "returns (SubArray_Activate env r (w, s)) (\<lambda>(ok, w', s'). ok \<longrightarrow> response_at w' (now w + tRCD (prm env)) r)"
proof -
  have c: "CheckWritePausing env (w, s) = Some (w, s)"
    using assms(2) by (simp add: CheckWritePausing_idle)
  show ?thesis
    using world_step_refl [OF assms(1)]
    apply (simp only: SubArray_Activate_def chain_simps fst_conv snd_conv c Option.bind.bind_lunit)
    apply (intro returns_intro)
    apply (simp_all only: not_not prod.case simp_thms)
    by (erule insert_response_at [where a = w] | erule command_steps | assumption | simp only: upd_simps)+
qed


lemma SubArray_Refresh_answers:
  assumes "world_ok w"
  shows "returns (SubArray_Refresh env r (w, s)) (\<lambda>(ok, w', s'). ok \<longrightarrow> response_at w' (now w + tRFC (prm env)) r)"
  using world_step_refl [OF assms(1)]
  apply (simp only: SubArray_Refresh_def chain_simps fst_conv)
  apply (intro returns_intro)
  apply (simp_all only: not_not prod.case simp_thms)
  by (erule insert_response_at [where a = w] | erule command_steps | assumption | simp only: upd_simps)+

lemma SubArray_Precharge_answers:
  assumes "world_ok w" "writeMode s \<noteq> WRITE_BACK"
  shows "returns (SubArray_Precharge env r (w, s)) (\<lambda>(ok, w', s'). ok \<longrightarrow> response_at w' (now w + max 1 (tRP (prm env))) r)"
  using world_step_refl [OF assms(1)] assms(2)
  apply (simp only: SubArray_Precharge_def chain_simps fst_conv snd_conv)
  apply (intro returns_intro)
  apply (simp_all only: not_not prod.case simp_thms)
  by (erule insert_response_at [where a = w] | erule command_steps | assumption | simp only: upd_simps)+

lemma SubArray_Read_answers:
  assumes "world_ok w" "\<not> (WritePausing (prm env) \<and> isWriting s)"
  shows "returns (SubArray_Read env r (w, s)) (\<lambda>(ok, w', s'). ok \<longrightarrow> response_at w' (now w + tCAS (prm env) + tBURST (prm env)) r)"
proof -
  have c: "CheckWritePausing env (w, s) = Some (w, s)"
    using assms(2) by (simp add: CheckWritePausing_idle)
  show ?thesis
    using world_step_refl [OF assms(1)]
    apply (simp only: SubArray_Read_def chain_simps fst_conv snd_conv c encoder_Read_0 Option.bind.bind_lunit add_0_right)
    apply (intro returns_intro)
    apply (simp_all only: not_not prod.case simp_thms)
    by (erule remember_read_at | erule insert_response_at [where a = w] | erule command_steps | assumption | simp only: upd_simps)+
qed

lemma SubArray_Write_answers:
  assumes "world_ok w" "heap w r = Some req"
  shows "returns (SubArray_Write env r (w, s)) (\<lambda>(ok, w', s'). ok \<longrightarrow>
    response_at w' (now w + (tCWD (prm env) + burst_gap (prm env) * burstCount req + (writeEnd s' - writeStart s'))) r)"
proof -
  have burst: "burstCount req' = burstCount req"
    if "write_time env r (w, s) = Some (t, lat, un, (w1, s1))" "heap w2 r = Some req'"
      "(if b then update_request r (\<lambda>req. req\<lparr>writeProgress := t'\<rparr>) w1 else Some w1) = Some w2" for t lat un w1 s1 b t' w2 req'
    using write_time_control [OF _ that(1)] assms that(2,3)
    by (auto simp: update_request_def req_core_def bind_eq_Some_conv split: if_splits)
  note burst' = burst [where b = True, simplified] burst [where b = False, simplified, OF _ _ refl]
  have at: "response_at (w4\<lparr>evq := InsertEvent_at ((Event_new i)\<lparr>ev_type := EventResponse, recipient := h, ev_request := Some r\<rparr>) t 0 (evq w4)\<rparr>) t' r"
    if "insert_response ch ob bus tb w3 = Some w4" "copy_request r f (w2\<lparr>next_ref := Suc (next_ref w2)\<rparr>) = Some (bus, w3)"
      "world_step w w2" "t = t'" "\<And>req. request_ok req \<Longrightarrow> request_ok (f req)" for ch ob bus tb w2 w3 w4 f t t' i h
    using write_event_at [OF that(1) copy_request_step [OF that(2) world_step_bump [OF that(3)]]] that(4,5) by simp
  show ?thesis
    using world_step_refl [OF assms(1)]
    apply (simp only: SubArray_Write_def chain_simps fst_conv snd_conv assms(2))
    apply (intro returns_intro)
    apply (simp_all only: not_not prod.case simp_thms if_True if_False)
    by (erule (1) at; ((erule command_steps | assumption | simp only: upd_simps fst_conv)+ | (drule (2) burst'(1), simp add: upd_stats_def) | (drule (1) burst'(2), simp add: upd_stats_def)))+
qed
text \<open>The row buffer of an accepted command, from the effects of the operations.\<close>

lemma timing_row [simp]:
  "openRow (read_timing p cur req l s) = openRow s" "openRow (activate_effect p cur a s) = a"
  "isWriting (read_timing p cur req l s) = isWriting s" "isWriting (activate_effect p cur a s) = isWriting s"
  "state (read_timing p cur req l s) = state s" "state (activate_effect p cur a s) = SUBARRAY_OPEN"
  "state (write_timing p cur req l s) = state s" "openRow (write_timing p cur req l s) = openRow s"
  by (simp_all add: read_timing_def activate_effect_def write_timing_def Let_def)

definition row_did :: "NVMainRequest \<Rightarrow> SubArray \<Rightarrow> SubArray \<Rightarrow> bool" where
  "row_did req s s' \<longleftrightarrow> state s' = state_after (req_type req) (state s)
     \<and> openRow s' = (if req_type req = ACTIVATE then row (address req) else openRow s)
     \<and> isWriting s' = (class_of (req_type req) = C_WRITE \<or> isWriting s)"

lemma sub_did_row: "sub_did p cur req s s' \<longleftrightarrow> row_did req s s'
    \<and> advances p cur (req_type req, burstCount req, writeEnd s' - writeStart s') s s'"
  by (simp add: sub_did_def row_did_def)

lemma stats_row [simp]: "state (upd_stats f s) = state s" "openRow (upd_stats f s) = openRow s" "isWriting (upd_stats f s) = isWriting s"
  by (simp_all add: upd_stats_def)

lemma SubArray_IssueCommand_row:
  assumes "world_ok w" and "\<not> (WritePausing (prm env) \<and> isWriting s)" and "heap w r = Some req"
  shows "returns (SubArray_IssueCommand env r (w, s)) (\<lambda>(ok, w', s'). ok \<longrightarrow> row_did req s s')"
proof -
  have c: "CheckWritePausing env (w, upd_stats f s) = Some (w, upd_stats f s)" for f
    using assms(2) by (simp add: CheckWritePausing_idle)
  have col: "ty \<noteq> ACTIVATE \<and> state_after ty st = st" if "class_of ty \<in> {C_NONE, C_PD, C_READ, C_WRITE}" for ty st
    using that by (cases ty) simp_all
  have pre: "ty \<noteq> ACTIVATE \<and> state_after ty st = SUBARRAY_PRECHARGING" if "class_of ty = C_PRE" for ty st
    using that by (cases ty) simp_all
  show ?thesis
  proof (rule SubArray_IssueCommand_cases [OF assms(3)])
    fix f
    show "case (ok, w, upd_stats f s) of (ok, w', s') \<Rightarrow> ok \<longrightarrow> row_did req s s'"
      if "ok \<longrightarrow> class_of (req_type req) \<in> {C_NONE, C_PD}" for ok
      using that col by (auto simp: row_did_def)
    show "returns (SubArray_Activate env r (w, upd_stats f s)) (\<lambda>(ok, w', s'). ok \<longrightarrow> row_did req s s')" if "req_type req = ACTIVATE"
      by (rule returns_mono [OF SubArray_Activate_effect], case_tac "fst x") (use that assms(3) in \<open>auto simp: c row_did_def\<close>)
    show "returns (SubArray_Read env r (w, upd_stats f s)) (\<lambda>(ok, w', s'). ok \<longrightarrow> row_did req s s')" if "class_of (req_type req) = C_READ"
      by (rule returns_mono [OF SubArray_Read_effect]) (use that col in \<open>auto simp: c row_did_def split: if_splits\<close>)
    show "returns (SubArray_Write env r (w, upd_stats f s)) (\<lambda>(ok, w', s'). ok \<longrightarrow> row_did req s s')" if "class_of (req_type req) = C_WRITE"
      by (rule returns_mono [OF SubArray_Write_effect])
        (use that col assms(1) in \<open>auto simp: row_did_def write_effect_def same_control_def split: if_splits\<close>)
    show "returns (SubArray_Precharge env r (w, upd_stats f s)) (\<lambda>(ok, w', s'). ok \<longrightarrow> row_did req s s')" if "class_of (req_type req) = C_PRE"
      by (rule returns_mono [OF SubArray_Precharge_effect])
        (use that pre assms(1) in \<open>auto simp: row_did_def precharge_effect_def same_control_def split: if_splits\<close>)
    show "returns (SubArray_Refresh env r (w, upd_stats f s)) (\<lambda>(ok, w', s'). ok \<longrightarrow> row_did req s s')" if "req_type req = REFRESH"
      by (rule returns_mono [OF SubArray_Refresh_effect], case_tac "fst x") (use that in \<open>auto simp: row_did_def\<close>)
  qed
qed

lemma SubArray_IssueCommand_answers:
  assumes "world_ok w" and "\<not> (WritePausing (prm env) \<and> isWriting s)" and "heap w r = Some req" and "writeMode s \<noteq> WRITE_BACK"
  shows "returns (SubArray_IssueCommand env r (w, s)) (\<lambda>(ok, w', s'). ok \<longrightarrow>
    (\<forall>d. latency (prm env) (req_type req, burstCount req, writeEnd s' - writeStart s') = Some d \<longrightarrow> response_at w' (now w + d) r))"
    (is "returns _ ?P")
proof (rule SubArray_IssueCommand_cases [OF assms(3)])
  fix f
  show "?P (ok, w, upd_stats f s)" if "ok \<longrightarrow> class_of (req_type req) \<in> {C_NONE, C_PD}" for ok
    using that by (cases "req_type req") auto
  show "returns (SubArray_Activate env r (w, upd_stats f s)) ?P" if "req_type req = ACTIVATE"
    by (rule returns_mono [OF SubArray_Activate_answers]) (use that assms(1,2) in auto)
  show "returns (SubArray_Refresh env r (w, upd_stats f s)) ?P" if "req_type req = REFRESH"
    by (rule returns_mono [OF SubArray_Refresh_answers]) (use that assms(1) in auto)
  show "returns (SubArray_Precharge env r (w, upd_stats f s)) ?P" if "class_of (req_type req) = C_PRE"
    by (rule returns_mono [OF SubArray_Precharge_answers]; cases "req_type req")
      (use that assms(1,4) in \<open>auto simp: upd_stats_def\<close>)
  show "returns (SubArray_Read env r (w, upd_stats f s)) ?P" if "class_of (req_type req) = C_READ"
    by (rule returns_mono [OF SubArray_Read_answers]; cases "req_type req")
      (use that assms(1,2) in \<open>auto simp: add.assoc\<close>)
  show "returns (SubArray_Write env r (w, upd_stats f s)) ?P" if "class_of (req_type req) = C_WRITE"
    by (rule returns_mono [OF SubArray_Write_answers]; cases "req_type req")
      (use that assms(1,3) in auto)
qed

lemma SubArray_IssueCommand_did:
  assumes "world_ok w" and "\<not> (WritePausing (prm env) \<and> isWriting s)" and "heap w r = Some req" and "writeMode s \<noteq> WRITE_BACK"
  shows "returns (SubArray_IssueCommand env r (w, s)) (\<lambda>(ok, w', s'). ok \<longrightarrow> sub_did (prm env) (now w) req s s')"
  by (rule returns_conj [OF SubArray_IssueCommand_row SubArray_IssueCommand_accepts]) (use assms in \<open>auto simp: accepts_def sub_did_row\<close>)

lemma SubArray_IssueCommand_accepted:
  assumes "sub_ready env (w, s)" "heap w r = Some req" "plain_writes env s"
    and "class_of (req_type req) = C_WRITE \<longrightarrow> line_fits (prm env) req"
    and "can_issue (prm env) (now w) req s"
  shows "\<exists>ws'. SubArray_IssueCommand env r (w, s) = Some (True, ws')"
proof -
  obtain reason f where i: "SubArray_IsIssuable env req (w, s) = Some (True, reason, upd_stats f s)"
    using SubArray_IsIssuable_decides [of env s req w] assms(1,5) by (auto simp: sub_ready_def)
  have r: "sub_ready env (w, upd_stats f s)" "plain_writes env (upd_stats f s)"
    using assms(1,3) by (simp_all add: sub_ready_def plain_writes_def upd_stats_def)
  have "writeMode s \<noteq> WRITE_BACK"
    using assms(3) by (simp add: plain_writes_def)
  then have "succeeds (SubArray_IssueCommand env r (w, s)) fst"
    using assms(2,4,5)
    by (cases "req_type req") (auto simp: SubArray_IssueCommand_def i can_issue_def r Let_def
        intro!: SubArray_Activate_succeeds [OF r(1)] SubArray_Read_succeeds [OF r(1)] SubArray_Write_succeeds [OF r(1)]
          SubArray_Precharge_succeeds [OF r(1)] SubArray_Refresh_succeeds [OF r(1)])
  then show ?thesis
    by (auto simp: succeeds_def)
qed

subsection \<open>Properties of the command interface\<close>

text \<open>C14: For a subarray in the plain configuration (no encoder and no wear model, write-through, no
  write that could be paused, the data of the request covering the memory word)
  \<^verbatim>\<open>IssueCommand\<close> always returns, and it accepts a command exactly when the specification of the
  interface allows it. An accepted command is carried out: the row buffer is open on the row of
  the request, precharging, refreshing or as before, according to the command, the earliest
  cycles of all later commands are at the distances of the timing table and never earlier than
  before, and the completion of the request is filed at the cycle the latency of the command
  gives. A refused command leaves the queue, the requests and the control state of the subarray
  as they were.\<close>

theorem issue_command_decides:
  assumes "sub_ready env ws" and "heap (fst ws) r = Some req" and "plain_writes env (snd ws)" and "line_fits (prm env) req"
  shows "\<exists>w' s'. SubArray_IssueCommand env r ws = Some (can_issue (prm env) (now (fst ws)) req (snd ws), w', s')
    \<and> (if can_issue (prm env) (now (fst ws)) req (snd ws)
       then sub_did (prm env) (now (fst ws)) req (snd ws) s'
         \<and> (\<forall>d. latency (prm env) (req_type req, burstCount req, writeEnd s' - writeStart s') = Some d
              \<longrightarrow> response_at w' (now (fst ws) + d) r)
       else w' = fst ws \<and> same_control (snd ws) s')"
proof -
  obtain w s where ws: "ws = (w, s)" by (cases ws)
  have ok: "world_ok w" "\<not> (WritePausing (prm env) \<and> isWriting s)" "heap w r = Some req" "writeMode s \<noteq> WRITE_BACK"
    using assms by (auto simp: ws sub_ready_def plain_writes_def)
  show ?thesis
  proof (cases "can_issue (prm env) (now w) req s")
    case True
    then obtain w' s' where i: "SubArray_IssueCommand env r (w, s) = Some (True, w', s')"
      using SubArray_IssueCommand_accepted [of env w s r req] assms by (auto simp: ws)
    with True returnsD [OF SubArray_IssueCommand_did [OF ok] i] returnsD [OF SubArray_IssueCommand_answers [OF ok] i] show ?thesis
      by (simp add: ws)
  next
    case False
    then obtain reason f where "SubArray_IsIssuable env req (w, s) = Some (False, reason, upd_stats f s)"
      using SubArray_IsIssuable_decides [of env s req w] assms(1) by (auto simp: sub_ready_def ws)
    with False assms(2) show ?thesis
      by (simp add: SubArray_IssueCommand_def ws)
  qed
qed

text \<open>A memory system with one subarray, one request of each kind, and the default parameters.\<close>

definition demo_env :: SubArrayEnv where
  "demo_env = \<lparr>prm = Params_new, self = 1, siblings = [(7, 1)], endurance_draw = (\<lambda>_. 0), pulse_draw = (\<lambda>_ _ _. 0)\<rparr>"

definition demo_request :: "OpType \<Rightarrow> NVMainRequest" where
  "demo_request ty = NVMainRequest_new\<lparr>req_type := ty\<rparr>"

definition demo_world :: World where
  "demo_world = World_new\<lparr>heap := [0 \<mapsto> demo_request ACTIVATE, 1 \<mapsto> demo_request READ, 2 \<mapsto> demo_request PRECHARGE],
     next_ref := 3\<rparr>"

lemma demo_request_ok [simp]: "request_ok (demo_request ty)" "rawData (req_data (demo_request ty)) = None"
  "req_type (demo_request ty) = ty" "row (address (demo_request ty)) = 0" "burstCount (demo_request ty) = 1"
  by (simp_all add: demo_request_def request_ok_def NVMainRequest_new_def NVMDataBlock_new_def block_ok_def NVMAddress_new_def)

lemma demo_world_ok: "world_ok demo_world"
  by (auto simp: world_ok_def demo_world_def World_new_def queue_good_def ids_below_def EventQueue_new_def queue_ok_def
      om_ok_def next_key_def om_first_def split: if_splits)

lemma demo_ready: "sub_ready demo_env (demo_world, SubArray_new)" "plain_writes demo_env SubArray_new"
  "line_fits (prm demo_env) (demo_request ty)"
  using demo_world_ok
  by (simp_all add: sub_ready_def demo_env_def plain_writes_def line_fits_def memoryWordSize_def
      Params_new_def SubArray_new_def) (simp add: demo_world_def World_new_def)

theorem issue_command_decides_witness:
  "\<exists>w' s'. SubArray_IssueCommand demo_env 0 (demo_world, SubArray_new) = Some (True, w', s')
    \<and> state s' = SUBARRAY_OPEN \<and> openRow s' = 0 \<and> 9 \<le> nextRead s' \<and> response_at w' 9 0"
proof -
  have "can_issue (prm demo_env) (now demo_world) (demo_request ACTIVATE) SubArray_new"
    by (simp add: can_issue_def SubArray_new_def demo_env_def)
  moreover have "heap (fst (demo_world, SubArray_new)) 0 = Some (demo_request ACTIVATE)"
    by (simp add: demo_world_def)
  ultimately obtain w' s' where i: "SubArray_IssueCommand demo_env 0 (demo_world, SubArray_new) = Some (True, w', s')"
    and d: "sub_did Params_new 0 (demo_request ACTIVATE) SubArray_new s'" and a: "response_at w' (tRCD Params_new) 0"
    using issue_command_decides [OF demo_ready(1) _ _ demo_ready(3), of 0 ACTIVATE] demo_ready(2)
    by (auto simp: demo_world_def World_new_def EventQueue_new_def demo_env_def)
  have gap: "min_gap Params_new (ACTIVATE, 1, writeEnd s' - writeStart s') C_READ = Some 9"
    by (simp add: Params_new_def)
  have adv: "advances Params_new 0 (ACTIVATE, 1, writeEnd s' - writeStart s') SubArray_new s'"
    and row: "state s' = SUBARRAY_OPEN" "openRow s' = 0"
    using d by (simp_all add: sub_did_def)
  have "0 + 9 \<le> earliest s' C_READ"
    using adv gap unfolding advances_def by blast
  with i row a show ?thesis
    by (simp add: Params_new_def)
qed

lemma demo_activate:
  obtains w1 f where
    "SubArray_IssueCommand demo_env 0 (demo_world, SubArray_new) =
       Some (True, (w1, upd_stats f (activate_effect Params_new 0 0 SubArray_new)))"
    "world_ok w1" "now w1 = 0" "heap w1 1 = Some (demo_request READ)" "sim w1 = None"
proof -
  have i: "SubArray_IsIssuable demo_env (demo_request ACTIVATE) (demo_world, SubArray_new) = Some (True, None, SubArray_new)"
    by (simp add: SubArray_IsIssuable_def Let_def demo_env_def SubArray_new_def write_forced_def Params_new_def)
  have n: "now demo_world = 0" "sim demo_world = None" "find_hook (siblings demo_env) (self demo_env) = Some 7"
    by (simp_all add: demo_world_def World_new_def EventQueue_new_def demo_env_def)
  have w: "\<exists>w1. update_request 0 (\<lambda>req. req\<lparr>owner := Some (self demo_env)\<rparr>) demo_world = Some w1
      \<and> sim w1 = None \<and> heap w1 1 = Some (demo_request READ)"
    by (simp add: update_request_def demo_world_def World_new_def)
  then obtain w0 where w0: "update_request 0 (\<lambda>req. req\<lparr>owner := Some (self demo_env)\<rparr>) demo_world = Some w0"
    "sim w0 = None" "heap w0 1 = Some (demo_request READ)" by blast
  note ins = insert_response_Some [OF n(3)]
  obtain w1 where w1: "insert_response (siblings demo_env) (self demo_env) 0 9 w0 = Some w1"
    using ins by blast
  have e: "SubArray_IssueCommand demo_env 0 (demo_world, SubArray_new) =
       Some (True, (w1, upd_stats (\<lambda>st. st\<lparr>subArrayEnergy := subArrayEnergy st + activate_energy Params_new,
         activeEnergy := activeEnergy st + activate_energy Params_new, activates := activates st + 1\<rparr>)
         (activate_effect Params_new 0 0 SubArray_new)))"
  proof -
    have p: "prm demo_env = Params_new" "tRCD Params_new = 9" "\<not> WritePausing Params_new"
      "heap demo_world 0 = Some (demo_request ACTIVATE)" "state SubArray_new = SUBARRAY_CLOSED" "nextActivate SubArray_new = 0"
      by (simp_all add: demo_env_def Params_new_def demo_world_def SubArray_new_def)
    show ?thesis
      by (simp add: SubArray_IssueCommand_def i SubArray_Activate_def CheckWritePausing_idle p n w0(1) w1 activate_effect_def Let_def)
  qed
  have "world_ok w0" "now w0 = 0"
    using update_request_ok [OF demo_world_ok w0(1)] w0(1) n(1) by (auto simp: update_request_def bind_eq_Some_conv)
  then show ?thesis
    using that [OF e] insert_response_ok [OF _ w1] insert_response_fields [OF w1] w0 by simp
qed

theorem subarray_timing_safe_witness:
  "\<exists>ws t. sub_run demo_env (demo_world, SubArray_new) [(0, ACTIVATE, 1, 0), (9, READ, 1, t)] ws
     \<and> sorted_wrt (spaced Params_new) [(0, ACTIVATE, 1, 0), (9, READ, 1, t)]"
proof -
  obtain w1 f where a: "SubArray_IssueCommand demo_env 0 (demo_world, SubArray_new) =
       Some (True, (w1, upd_stats f (activate_effect Params_new 0 0 SubArray_new)))"
    and w1: "world_ok w1" "now w1 = 0" "heap w1 1 = Some (demo_request READ)" "sim w1 = None"
    by (rule demo_activate)
  let ?s1 = "upd_stats f (activate_effect Params_new 0 0 SubArray_new)" and ?w2 = "w1\<lparr>evq := (evq w1)\<lparr>currentCycle := 9\<rparr>\<rparr>"
  have p: "prm demo_env = Params_new" "\<not> WritePausing Params_new"
    by (simp_all add: demo_env_def Params_new_def)
  have w2: "world_ok ?w2"
    using w1(1) queue_good_same_map [of "(evq w1)\<lparr>currentCycle := 9\<rparr>" "evq w1"] by (simp add: world_ok_def)
  have ready: "sub_ready demo_env (?w2, ?s1)" "plain_writes demo_env ?s1"
    using w2 w1(4) demo_ready(1,2) by (simp_all add: sub_ready_def plain_writes_def p activate_effect_def upd_stats_def)
  have "can_issue (prm demo_env) (now ?w2) (demo_request READ) ?s1"
    by (simp add: can_issue_def activate_effect_def SubArray_new_def Params_new_def)
  then obtain w3 s3 where r: "SubArray_IssueCommand demo_env 1 (?w2, ?s1) = Some (True, (w3, s3))"
    using SubArray_IssueCommand_accepted [OF ready(1) _ ready(2)] demo_ready(3) w1(3) by fastforce
  have "sub_run demo_env (demo_world, SubArray_new) [(0, ACTIVATE, 1, 0)] (w1, ?s1)"
    using run_accepted [OF run_start _ a, of "demo_request ACTIVATE"]
    by (simp add: demo_world_def activate_effect_def SubArray_new_def World_new_def EventQueue_new_def)
  then have "sub_run demo_env (demo_world, SubArray_new) [(0, ACTIVATE, 1, 0)] (?w2, ?s1)"
    using run_system w2 w1(2) by fastforce
  from run_accepted [OF this _ r, of "demo_request READ"] w1(3)
  have run: "sub_run demo_env (demo_world, SubArray_new) [(0, ACTIVATE, 1, 0), (9, READ, 1, writeEnd s3 - writeStart s3)] (w3, s3)"
    by simp
  moreover have "sorted_wrt (spaced Params_new) [(0, ACTIVATE, 1, 0), (9, READ, 1, writeEnd s3 - writeStart s3)]"
    using subarray_timing_safe [OF run] demo_world_ok p by (simp add: SubArray_new_def)
  ultimately show ?thesis by blast
qed

end
