(* ===== verification/Sub_Array_Events.thy ===== *)
theory Sub_Array_Events
  imports Sub_Array_Progress
begin

text \<open>
  The subarray behind the event queue: how a completed request travels up the object tree
  (\<^verbatim>\<open>NVMObject::RequestComplete\<close> of \<^verbatim>\<open>src/NVMObject.cpp\<close>), the invariant that ties the
  subarray to its pending completions, and that \<^verbatim>\<open>SubArray::RequestComplete\<close> honours the
  contract \<open>timed_handler\<close> of the event queue. The ancestors of the subarray are an instance
  of the interface \<open>completer\<close>; the result is that a subarray always leaves its transient
  states.
\<close>

subsection \<open>Completing a request up the object tree\<close>

definition NVMObject_RequestComplete ::
  "nat \<Rightarrow> (nat \<Rightarrow> World \<Rightarrow> (bool \<times> World) option) \<Rightarrow> nat \<Rightarrow> World \<Rightarrow> (bool \<times> World) option" where
  "NVMObject_RequestComplete this parent r w = do {
     req \<leftarrow> heap w r;
     if owner req = Some this then do {
       w' \<leftarrow> delete_request r w;
       Some (True, w')
     }
     else parent r w
   }"

text \<open>What a module promises about the requests whose owner is above it: completing one returns,
  schedules nothing, and touches no other request.\<close>

locale completer =
  fixes complete :: "nat \<Rightarrow> World \<Rightarrow> (bool \<times> World) option" and owners :: "nat set"
  assumes complete_local:
    "world_ok w \<Longrightarrow> heap w r = Some req \<Longrightarrow> owner req = Some ob \<Longrightarrow> ob \<in> owners \<Longrightarrow>
     \<exists>rv w'. complete r w = Some (rv, w') \<and> world_ok w' \<and> evq w' = evq w \<and> next_ref w' = next_ref w
       \<and> (\<forall>r'. r' \<noteq> r \<longrightarrow> heap w' r' = heap w r')"
begin

lemma object_completes:
  assumes "world_ok w" and "heap w r = Some req" and "owner req = Some ob" and "ob \<in> insert this owners"
  shows "\<exists>rv w'. NVMObject_RequestComplete this complete r w = Some (rv, w') \<and> world_ok w' \<and> evq w' = evq w
    \<and> next_ref w' = next_ref w \<and> (\<forall>r'. r' \<noteq> r \<longrightarrow> heap w' r' = heap w r')"
proof (cases "ob = this")
  case True
  obtain w' where "delete_request r w = Some w'"
    using assms(2) by (auto simp: delete_request_def)
  with delete_request_ok [OF assms(1) this] True assms(2,3) show ?thesis
    by (auto simp: NVMObject_RequestComplete_def delete_request_def split: option.splits)
next
  case False
  with assms(4) have "ob \<in> owners" by simp
  with False complete_local [OF assms(1-3)] assms(2,3) show ?thesis
    by (simp add: NVMObject_RequestComplete_def)
qed

end

text \<open>A chain of objects: each one completes its own requests and passes the others on, down from a
  root that has no parent.\<close>

interpretation no_parent: completer "\<lambda>_ _. None" "{}"
  by unfold_locales simp

lemma completer_object:
  assumes "completer f owners"
  shows "completer (NVMObject_RequestComplete this f) (insert this owners)"
  by (rule completer.intro) (rule completer.object_completes [OF assms])

fun object_chain :: "nat list \<Rightarrow> nat \<Rightarrow> World \<Rightarrow> (bool \<times> World) option" where
  "object_chain [] = (\<lambda>_ _. None)"
| "object_chain (ob # obs) = NVMObject_RequestComplete ob (object_chain obs)"

interpretation chain: completer "object_chain obs" "set obs" for obs
  by (induction obs) (simp_all add: no_parent.completer_axioms completer_object)

subsection \<open>The subarray behind the event queue\<close>

text \<open>The callback of the queue: only completions arrive, and only for this subarray's hook.\<close>

definition sub_handler ::
  "SubArrayEnv \<Rightarrow> (nat \<Rightarrow> World \<Rightarrow> (bool \<times> World) option) \<Rightarrow> sub_state handler" where
  "sub_handler env parent c qs = (case (c, qs) of
     (CallRequestComplete hook (Some r), (q, (w, s))) \<Rightarrow>
        if hook = find_hook (siblings env) (self env) then do {
          (rv, (w', s')) \<leftarrow> SubArray_RequestComplete env parent r (w\<lparr>evq := q\<rparr>, s);
          Some (evq w', (w', s'))
        }
        else None
   | _ \<Rightarrow> None)"

definition heap_ok :: "World \<Rightarrow> bool" where
  "heap_ok w \<longleftrightarrow> (\<forall>r req. heap w r = Some req \<longrightarrow> r < next_ref w \<and> request_ok req)"

lemma world_ok_heap_ok: "world_ok w \<longleftrightarrow> queue_good (next_ref w) (evq w) \<and> heap_ok w"
  by (simp add: world_ok_def heap_ok_def)

text \<open>The pending completions: request \<open>r\<close>, with contents \<open>req\<close>, at cycle \<open>k\<close>.\<close>

definition job :: "(ncycle_t \<Rightarrow> Event list) \<Rightarrow> World \<Rightarrow> ncycle_t \<Rightarrow> nat \<Rightarrow> NVMainRequest \<Rightarrow> bool" where
  "job tab w k r req \<longleftrightarrow> (\<exists>e \<in> set (tab k). ev_request e = Some r) \<and> heap w r = Some req"

definition own :: "SubArrayEnv \<Rightarrow> OpType set \<Rightarrow> NVMainRequest \<Rightarrow> bool" where
  "own env tys req \<longleftrightarrow> owner req = Some (self env) \<and> req_type req \<in> tys"

text \<open>The invariant that ties the subarray to its pending events: every event is a completion of a
  live request for this subarray, no request is pending twice, an implicit precharge starts
  early enough to be over at \<open>nextActivate\<close>, and a subarray that is precharging or
  refreshing has the event that ends it, due by \<open>nextActivate\<close>.\<close>

definition event_ok :: "SubArrayEnv \<Rightarrow> nat set \<Rightarrow> sub_state \<Rightarrow> ncycle_t \<Rightarrow> Event \<Rightarrow> bool" where
  "event_ok env owners ws k e \<longleftrightarrow> ev_type e = EventResponse \<and> recipient e = find_hook (siblings env) (self env)
     \<and> (\<exists>r req. ev_request e = Some r \<and> heap (fst ws) r = Some req
          \<and> (\<exists>ob \<in> insert (self env) owners. owner req = Some ob)
          \<and> (own env {READ_PRECHARGE, WRITE_PRECHARGE} req \<longrightarrow> k + tRP (prm env) \<le> nextActivate (snd ws)))"

definition events_ok :: "SubArrayEnv \<Rightarrow> nat set \<Rightarrow> (ncycle_t \<Rightarrow> Event list) \<Rightarrow> sub_state \<Rightarrow> bool" where
  "events_ok env owners tab ws \<longleftrightarrow> (\<forall>k. \<forall>e \<in> set (tab k). event_ok env owners ws k e)
     \<and> (\<forall>k. distinct (map ev_request (tab k)))
     \<and> (\<forall>k k'. k \<noteq> k' \<longrightarrow> ev_request ` set (tab k) \<inter> ev_request ` set (tab k') = {})"

definition state_ok :: "SubArrayEnv \<Rightarrow> (ncycle_t \<Rightarrow> Event list) \<Rightarrow> sub_state \<Rightarrow> bool" where
  "state_ok env tab ws \<longleftrightarrow> state (snd ws) \<noteq> SUBARRAY_UNKNOWN
     \<and> (state (snd ws) = SUBARRAY_PRECHARGING \<longrightarrow>
          (\<exists>k r req. job tab (fst ws) k r req \<and> own env {PRECHARGE, PRECHARGE_ALL} req \<and> k \<le> nextActivate (snd ws)))
     \<and> (state (snd ws) = SUBARRAY_REFRESHING \<longrightarrow>
          (\<exists>k r req. job tab (fst ws) k r req \<and> own env {REFRESH} req \<and> k \<le> nextActivate (snd ws)))"

definition sub_sys :: "SubArrayEnv \<Rightarrow> nat set \<Rightarrow> ncycle_t \<Rightarrow> (ncycle_t \<Rightarrow> Event list) \<Rightarrow> sub_state \<Rightarrow> bool" where
  "sub_sys env owners na tab ws \<longleftrightarrow> heap_ok (fst ws) \<and> events_ok env owners tab ws \<and> state_ok env tab ws
     \<and> nextActivate (snd ws) = na"

lemma insert_job:
  assumes "insert_response (siblings env) (self env) r t w = Some w'" and "world_ok w"
  shows "\<exists>e. ev_request e = Some r \<and> ev_type e = EventResponse \<and> recipient e = find_hook (siblings env) (self env)
    \<and> (\<forall>k. mset (events_at (evq w') k) = mset (events_at (evq w) k) + (if k = t then {#e#} else {#}))"
proof (rule insert_response_events [OF assms])
  fix hook
  assume h: "find_hook (siblings env) (self env) = Some hook"
    and tab: "events_at (evq w') = (events_at (evq w))(t := insert_by_priority (response_event (next_ref w) hook r t) 0 (events_at (evq w) t))"
  show ?thesis
    by (rule exI [of _ "response_event (next_ref w) hook r t"]) (simp add: h tab mset_insert_by_priority)
qed

text \<open>The timetable matters only up to the order of events within a cycle.\<close>

lemma events_ok_cong:
  assumes "\<And>k. mset (tab' k) = mset (tab k)"
  shows "events_ok env owners tab' ws = events_ok env owners tab ws"
proof -
  have "set (tab' k) = set (tab k)" "distinct (map ev_request (tab' k)) = distinct (map ev_request (tab k))" for k
    using assms [of k] mset_eq_setD [of "tab' k" "tab k"] mset_eq_imp_distinct_iff [of "map ev_request (tab' k)" "map ev_request (tab k)"]
    by (auto simp: mset_map)
  then show ?thesis
    by (simp add: events_ok_def)
qed

definition pending :: "(ncycle_t \<Rightarrow> Event list) \<Rightarrow> nat set" where
  "pending tab = {r. \<exists>k. \<exists>e \<in> set (tab k). ev_request e = Some r}"

lemma events_ok_add:
  assumes "events_ok env owners tab (w, s)" and "\<And>k. mset (tab' k) = mset (tab k) + (if k = t then {#e#} else {#})"
    and "ev_request e = Some r" and "ev_type e = EventResponse" and "recipient e = find_hook (siblings env) (self env)"
    and "r \<notin> pending tab" and "heap w r = Some req" and "\<exists>ob \<in> insert (self env) owners. owner req = Some ob"
    and "own env {READ_PRECHARGE, WRITE_PRECHARGE} req \<longrightarrow> t + tRP (prm env) \<le> nextActivate s"
  shows "events_ok env owners tab' (w, s)"
proof -
  have st: "set (tab' k) = (if k = t then insert e (set (tab k)) else set (tab k))" for k
    using arg_cong [OF assms(2) [of k], of set_mset] by simp
  have fresh: "Some r \<notin> ev_request ` set (tab k)" for k
    using assms(6) by (force simp: pending_def)
  have "distinct (map ev_request (tab' k)) \<longleftrightarrow> distinct (map ev_request (if k = t then e # tab k else tab k))" for k
    using assms(2) [of k] by (intro mset_eq_imp_distinct_iff) (simp add: mset_map)
  then have "distinct (map ev_request (tab' k))" for k
    using assms(1,3) fresh [of k] by (cases "k = t") (auto simp: events_ok_def)
  moreover have "ev_request ` set (tab' k) \<inter> ev_request ` set (tab' k') = {}" if "k \<noteq> k'" for k k'
    using assms(1,3) that fresh [of k] fresh [of k'] by (cases "k = t"; cases "k' = t") (simp_all add: st events_ok_def)
  moreover have "event_ok env owners (w, s) t e"
    using assms(3-5,7-9) by (auto simp: event_ok_def)
  ultimately show ?thesis
    using assms(1) by (simp add: events_ok_def st)
qed

lemma plus_tab_set:
  assumes "\<And>k. mset (tab' k) = mset (tab k) + (if k = t then {#e#} else {#})"
  shows "set (tab' k) = (if k = t then insert e (set (tab k)) else set (tab k))"
  using arg_cong [OF assms [of k], of set_mset] by simp

lemma pending_add:
  assumes "\<And>k. mset (tab' k) = mset (tab k) + (if k = t then {#e#} else {#})" and "ev_request e = Some r"
  shows "pending tab' = insert r (pending tab)"
  using assms(2) unfolding pending_def plus_tab_set [OF assms(1)] by auto

lemma events_ok_remove:
  assumes "events_ok env owners tab' ws" and "\<And>k. mset (tab' k) = mset (tab k) + (if k = t then {#e#} else {#})"
    and "ev_request e = Some r"
  shows "events_ok env owners tab ws \<and> r \<notin> pending tab"
proof -
  note st = plus_tab_set [of tab' tab, OF assms(2)]
  have d: "distinct (map ev_request (if k = t then e # tab k else tab k))" for k
    using assms(1,2) mset_eq_imp_distinct_iff [of "map ev_request (tab' k)" "map ev_request (if k = t then e # tab k else tab k)"]
    by (simp add: events_ok_def mset_map)
  have "distinct (map ev_request (tab k))" for k
    using d [of k] by (cases "k = t") auto
  moreover have "ev_request ` set (tab k) \<inter> ev_request ` set (tab k') = {}" if "k \<noteq> k'" for k k'
  proof -
    have "ev_request ` set (tab' k) \<inter> ev_request ` set (tab' k') = {}"
      using assms(1) that by (simp add: events_ok_def)
    then show ?thesis by (auto simp: st split: if_splits)
  qed
  moreover have "ev_request x \<noteq> Some r" if "x \<in> set (tab k)" for k x
  proof (cases "k = t")
    case True
    with d [of t] that assms(3) show ?thesis by force
  next
    case False
    then have "ev_request ` set (tab' k) \<inter> ev_request ` set (tab' t) = {}"
      using assms(1) by (simp add: events_ok_def)
    with that assms(3) False show ?thesis by (force simp: st)
  qed
  moreover have "event_ok env owners ws k x" if "x \<in> set (tab k)" for k x
    using assms(1) that by (auto simp: events_ok_def st split: if_splits)
  ultimately show ?thesis
    by (simp add: events_ok_def) (auto simp: pending_def)
qed

lemma events_ok_heap:
  assumes "events_ok env owners tab (w, s)" and "\<And>r. r \<in> pending tab \<Longrightarrow> heap w' r = heap w r"
    and "nextActivate s \<le> nextActivate s'"
  shows "events_ok env owners tab (w', s')"
proof -
  have "event_ok env owners (w', s') k e" if "e \<in> set (tab k)" for k e
  proof -
    have e: "event_ok env owners (w, s) k e"
      using assms(1) that by (simp add: events_ok_def)
    then obtain r where "ev_request e = Some r"
      by (auto simp: event_ok_def)
    moreover from this have "heap w' r = heap w r"
      using assms(2) that by (auto simp: pending_def)
    ultimately show ?thesis
      using e assms(3) by (auto simp: event_ok_def intro: order_trans)
  qed
  with assms(1) show ?thesis
    by (simp add: events_ok_def)
qed

lemma job_heap:
  assumes "\<And>r. r \<in> pending tab \<Longrightarrow> heap w' r = heap w r"
  shows "job tab w' = job tab w"
  using assms by (fastforce simp: job_def pending_def)

lemma job_remove:
  assumes "\<And>k. mset (tab' k) = mset (tab k) + (if k = t then {#e#} else {#})" and "ev_request e = Some r"
    and "job tab' w k r' req'" and "r' \<noteq> r"
  shows "job tab w k r' req'"
  using assms(2-4) unfolding job_def plus_tab_set [OF assms(1)] by (auto split: if_splits)

text \<open>Completing the pending request \<open>r\<close>: what happens to the subarray and to the events that
  are left (\<open>tab\<close>); \<open>D\<close> is what is added to the timetable.\<close>

definition completes ::
  "SubArrayEnv \<Rightarrow> nat set \<Rightarrow> (ncycle_t \<Rightarrow> Event list) \<Rightarrow> World \<Rightarrow> sub_state \<Rightarrow> bool" where
  "completes env owners tab w ws' \<longleftrightarrow> world_ok (fst ws') \<and> now (fst ws') = now w
     \<and> (\<forall>k \<le> now w. map_of (eventMap (evq (fst ws'))) k = map_of (eventMap (evq w)) k)
     \<and> (\<exists>D. (\<forall>k. mset (events_at (evq (fst ws')) k) = mset (events_at (evq w) k) + D k) \<and> (\<forall>k \<le> now w. D k = {#})
          \<and> (\<forall>tab2. (\<forall>k. mset (tab2 k) = mset (tab k) + D k) \<longrightarrow> events_ok env owners tab2 ws' \<and> state_ok env tab2 ws'))"

lemma completes_quiet:
  assumes "events_ok env owners tab (w, s)" and "world_ok w'" and "evq w' = evq w"
    and "\<And>r. r \<in> pending tab \<Longrightarrow> heap w' r = heap w r" and "nextActivate s' = nextActivate s" and "state_ok env tab (w', s')"
  shows "completes env owners tab w (w', s')"
proof -
  have ok: "events_ok env owners tab (w', s')"
    using events_ok_heap [OF assms(1,4)] assms(5) by simp
  have st: "state_ok env tab2 ws = state_ok env tab ws" if "\<And>k. mset (tab2 k) = mset (tab k)" for tab2 ws
  proof -
    have "set (tab2 k) = set (tab k)" for k
      using that mset_eq_setD by blast
    then show ?thesis by (simp add: state_ok_def job_def)
  qed
  have "events_ok env owners tab2 (w', s') \<and> state_ok env tab2 (w', s')" if "\<And>k. mset (tab2 k) = mset (tab k) + {#}" for tab2
    using that ok assms(6) st [of tab2] events_ok_cong [of tab2 tab] by simp
  with assms(2,3) show ?thesis
    unfolding completes_def by (intro conjI exI [of _ "\<lambda>_. {#}"]) auto
qed

lemma completes_insert:
  assumes ok: "events_ok env owners tab (w, s)" and w: "world_ok w" "heap w r = Some req" "r \<notin> pending tab"
    and req: "owner req = Some (self env)" "req_type req \<in> {READ_PRECHARGE, WRITE_PRECHARGE}"
    and t: "now w < now w + tRP (prm env)" "now w + tRP (prm env) \<le> nextActivate s"
    and hook: "find_hook (siblings env) (self env) \<noteq> None"
  shows "\<exists>w1 w2. update_request r (\<lambda>req. req\<lparr>req_type := PRECHARGE\<rparr>) w = Some w1
    \<and> insert_response (siblings env) (self env) r (now w + tRP (prm env)) w1 = Some w2
    \<and> (\<forall>s'. state s' = SUBARRAY_PRECHARGING \<longrightarrow> nextActivate s' = nextActivate s \<longrightarrow> completes env owners tab w (w2, s'))"
proof -
  let ?t = "now w + tRP (prm env)" and ?w1 = "w\<lparr>heap := (heap w)(r \<mapsto> req\<lparr>req_type := PRECHARGE\<rparr>)\<rparr>"
  have u: "update_request r (\<lambda>req. req\<lparr>req_type := PRECHARGE\<rparr>) w = Some ?w1"
    using w(2) by (simp add: update_request_def)
  have w1: "world_ok ?w1"
    by (rule update_request_ok [OF w(1) u]) (simp add: request_ok_def)
  obtain w2 where i: "insert_response (siblings env) (self env) r ?t ?w1 = Some w2"
    using hook insert_response_Some by blast
  note w2 = insert_response_fields [OF i] insert_response_ok [OF w1 i] insert_response_future [OF w1 i]
  obtain e where e: "ev_request e = Some r" "ev_type e = EventResponse" "recipient e = find_hook (siblings env) (self env)"
    and tab: "\<And>k. mset (events_at (evq w2) k) = mset (events_at (evq w) k) + (if k = ?t then {#e#} else {#})"
    using insert_job [OF i w1] by auto
  have heap2: "heap w2 r = Some (req\<lparr>req_type := PRECHARGE\<rparr>)" "\<And>r'. r' \<in> pending tab \<Longrightarrow> heap w2 r' = heap w r'"
    using w2(1) w(3) by auto
  have "events_ok env owners tab2 (w2, s') \<and> state_ok env tab2 (w2, s')"
    if "\<And>k. mset (tab2 k) = mset (tab k) + (if k = ?t then {#e#} else {#})" "state s' = SUBARRAY_PRECHARGING"
      "nextActivate s' = nextActivate s" for tab2 s'
  proof
    have "events_ok env owners tab (w2, s')"
      using events_ok_heap [OF ok heap2(2)] that(3) by simp
    then show "events_ok env owners tab2 (w2, s')"
      using req by (rule_tac events_ok_add [OF _ that(1) e w(3) heap2(1)]) (auto simp: own_def)
    have "job tab2 w2 ?t r (req\<lparr>req_type := PRECHARGE\<rparr>)"
      using e(1) heap2(1) plus_tab_set [of tab2 tab, OF that(1)] by (auto simp: job_def)
    then show "state_ok env tab2 (w2, s')"
      using that(2,3) t(2) req(1) unfolding state_ok_def
      by (intro conjI impI exI [of _ ?t] exI [of _ r] exI [of _ "req\<lparr>req_type := PRECHARGE\<rparr>"]) (simp_all add: own_def)
  qed
  moreover have "map_of (eventMap (evq w2)) k = map_of (eventMap (evq w)) k" if "k \<le> now w" for k
    using w2(7) [of k] that t(1) by simp
  ultimately have "completes env owners tab w (w2, s')"
    if "state s' = SUBARRAY_PRECHARGING" "nextActivate s' = nextActivate s" for s'
    using w2 tab t(1) that unfolding completes_def
    by (intro conjI exI [of _ "\<lambda>k. if k = ?t then {#e#} else {#}"]) auto
  with u i show ?thesis by blast
qed

text \<open>The state and timing a completion keeps of the subarray when it has no transition to make.\<close>

lemma state_ok_remove:
  assumes "state_ok env tab' (w, s)" and "\<And>k. mset (tab' k) = mset (tab k) + (if k = t then {#e#} else {#})"
    and "ev_request e = Some r" and "heap w r = Some req" and "\<not> own env {PRECHARGE, PRECHARGE_ALL, REFRESH} req"
    and "\<And>r'. r' \<in> pending tab \<Longrightarrow> heap w' r' = heap w r'" and "state s' = state s" and "nextActivate s' = nextActivate s"
  shows "state_ok env tab (w', s')"
proof -
  have other: "\<exists>k r req. job tab w' k r req \<and> own env tys req \<and> k \<le> nextActivate s'"
    if j: "\<exists>k r req. job tab' w k r req \<and> own env tys req \<and> k \<le> nextActivate s"
      and tys: "tys \<subseteq> {PRECHARGE, PRECHARGE_ALL, REFRESH}" for tys
  proof -
    from j obtain k r' req' where k: "job tab' w k r' req'" "own env tys req'" "k \<le> nextActivate s" by blast
    have "r' \<noteq> r"
      using k(1,2) assms(4,5) tys by (auto simp: job_def own_def)
    with job_remove [OF assms(2,3) k(1)] have "job tab w' k r' req'"
      using job_heap [of tab w' w, OF assms(6)] by simp
    with k assms(8) show ?thesis by metis
  qed
  show ?thesis
    using assms(1,7) other [of "{PRECHARGE, PRECHARGE_ALL}"] other [of "{REFRESH}"] unfolding state_ok_def by simp
qed

lemma request_completes:
  assumes comp: "completer parent owners" and hook: "find_hook (siblings env) (self env) \<noteq> None"
    and t: "now w < now w + tRP (prm env)" and w: "world_ok w" and ev: "events_ok env owners tab' (w, s)"
    and st: "state_ok env tab' (w, s)" and tab: "\<And>k. mset (tab' k) = mset (tab k) + (if k = now w then {#e#} else {#})"
    and e: "ev_request e = Some r"
  shows "\<exists>rv ws'. SubArray_RequestComplete env parent r (w, s) = Some (rv, ws') \<and> completes env owners tab w ws'"
proof -
  have "event_ok env owners (w, s) (now w) e"
    using ev plus_tab_set [of tab' tab, OF tab, of "now w"] by (simp add: events_ok_def)
  then obtain req ob where req: "heap w r = Some req" and ob: "owner req = Some ob" "ob \<in> insert (self env) owners"
    and pre: "own env {READ_PRECHARGE, WRITE_PRECHARGE} req \<longrightarrow> now w + tRP (prm env) \<le> nextActivate s"
    using e by (auto simp: event_ok_def)
  note rest = events_ok_remove [OF ev tab e]
  have quiet: "completes env owners tab w (w', s')"
    if "world_ok w'" "evq w' = evq w" "\<And>r'. r' \<noteq> r \<Longrightarrow> heap w' r' = heap w r'" "nextActivate s' = nextActivate s"
      "state s' \<in> {SUBARRAY_OPEN, SUBARRAY_CLOSED} \<or> state s' = state s \<and> \<not> own env {PRECHARGE, PRECHARGE_ALL, REFRESH} req" for w' s'
  proof -
    have h: "heap w' r' = heap w r'" if "r' \<in> pending tab" for r'
      using that rest \<open>\<And>r'. r' \<noteq> r \<Longrightarrow> heap w' r' = heap w r'\<close> by (cases "r' = r") auto
    have "state_ok env tab (w', s')"
      using that(5) state_ok_remove [OF st tab e req _ h] that(4) by (auto simp: state_ok_def)
    with that h rest show ?thesis
      by (intro completes_quiet) auto
  qed
  show ?thesis
  proof (cases "ob = self env")
    case False
    with ob(2) completer.complete_local [OF comp w req ob(1)] obtain rv w' where
      "parent r w = Some (rv, w')" "world_ok w'" "evq w' = evq w" "\<forall>r'. r' \<noteq> r \<longrightarrow> heap w' r' = heap w r'"
      by blast
    with False ob(1) req show ?thesis
      by (auto simp: SubArray_RequestComplete_def Let_def own_def upd_stats_def intro!: quiet)
  next
    case True
    let ?w = "w\<lparr>heap := (heap w)(r := None)\<rparr>"
    have d: "delete_request r w = Some ?w"
      using req by (simp add: delete_request_def)
    note d' = delete_request_ok [OF w d]
    show ?thesis
    proof (cases "req_type req \<in> {READ_PRECHARGE, WRITE_PRECHARGE}")
      case prec: True
      have "owner req = Some (self env)" "now w + tRP (prm env) \<le> nextActivate s"
        using ob(1) True pre prec by (auto simp: own_def)
      from completes_insert [OF rest [THEN conjunct1] w req rest [THEN conjunct2] this(1) prec t this(2) hook] obtain w1 w2 where "update_request r (\<lambda>req. req\<lparr>req_type := PRECHARGE\<rparr>) w = Some w1"
        "insert_response (siblings env) (self env) r (now w + tRP (prm env)) w1 = Some w2"
        "\<And>s'. state s' = SUBARRAY_PRECHARGING \<Longrightarrow> nextActivate s' = nextActivate s \<Longrightarrow> completes env owners tab w (w2, s')"
        by blast
      with prec ob(1) True req show ?thesis
        by (auto simp: SubArray_RequestComplete_def Let_def upd_stats_def)
    next
      case False
      with ob(1) True req d d' show ?thesis
        by (auto simp: SubArray_RequestComplete_def Let_def own_def upd_stats_def split: OpType.split intro!: quiet)
    qed
  qed
qed

subsection \<open>The subarray as a client of the event queue\<close>

lemma events_ok_evq [simp]:
  "events_ok env owners tab (w\<lparr>evq := q\<rparr>, s) = events_ok env owners tab (w, s)"
  "state_ok env tab (w\<lparr>evq := q\<rparr>, s) = state_ok env tab (w, s)"
  by (simp_all add: events_ok_def event_ok_def state_ok_def job_def)

lemma due_Cons: "mset (due q (e # es) k) = mset (due q es k) + (if k = currentCycle q then {#e#} else {#})"
  by (simp add: due_def)

lemma RequestComplete_nextActivate:
  "returns (SubArray_RequestComplete env parent r ws) (\<lambda>x. nextActivate (snd (snd x)) = nextActivate (snd ws))"
  by (cases ws) (auto simp: SubArray_RequestComplete_def Let_def upd_stats_def intro!: returns_bind split: OpType.split)

locale sub_system = completer parent owners
  for parent :: "nat \<Rightarrow> World \<Rightarrow> (bool \<times> World) option" and owners :: "nat set" +
  fixes env :: SubArrayEnv and na horizon :: ncycle_t
  assumes hook: "find_hook (siblings env) (self env) \<noteq> None" and tRP_pos: "0 < tRP (prm env)"
    and no_overflow: "unat horizon + unat (tRP (prm env)) < 2 ^ 64"
begin

lemma sub_handler_step:
  assumes q: "queue_good (next_ref (fst ws)) q" and sys: "sub_sys env owners na (due q (e # es)) ws"
    and hor: "currentCycle q \<le> horizon" and c: "call_of q e = Some c"
  shows "\<exists>q' ws'. sub_handler env parent c (q, ws) = Some (q', ws') \<and> queue_good (next_ref (fst ws')) q'
    \<and> sub_sys env owners na (due q' es) ws' \<and> currentCycle q' = currentCycle q
    \<and> (\<forall>k \<le> currentCycle q. map_of (eventMap q') k = map_of (eventMap q) k)"
proof -
  obtain w s where ws: "ws = (w, s)" by fastforce
  let ?w = "w\<lparr>evq := q\<rparr>"
  have w: "world_ok ?w"
    using q sys by (simp add: ws world_ok_heap_ok sub_sys_def heap_ok_def)
  have ev: "events_ok env owners (due q (e # es)) (?w, s)" and st: "state_ok env (due q (e # es)) (?w, s)"
    using sys by (simp_all add: ws sub_sys_def)
  have "event_ok env owners (?w, s) (currentCycle q) e"
    using ev by (auto simp: events_ok_def due_def)
  then obtain r where r: "ev_request e = Some r" and c': "c = CallRequestComplete (find_hook (siblings env) (self env)) (Some r)"
    using c by (auto simp: event_ok_def call_of_def)
  have na: "returns (SubArray_RequestComplete env parent r (?w, s)) (\<lambda>x. nextActivate (snd (snd x)) = na)"
    using sys by (auto simp: ws sub_sys_def intro: returns_mono [OF RequestComplete_nextActivate])
  have "unat (now ?w) + unat (tRP (prm env)) < 2 ^ 64"
    using hor no_overflow by (simp add: word_le_nat_alt)
  then have t: "now ?w < now ?w + tRP (prm env)"
    using tRP_pos by (simp add: word_less_nat_alt unat_add_no_overflow)
  obtain rv ws' where rc: "SubArray_RequestComplete env parent r (?w, s) = Some (rv, ws')" and cm: "completes env owners (due q es) ?w ws'"
    using request_completes [OF completer_axioms hook t w ev st _ r, of "due q es"] due_Cons [of q e es] by auto
  then obtain D where D: "\<And>k. mset (events_at (evq (fst ws')) k) = mset (events_at q k) + D k" "\<And>k. k \<le> now ?w \<Longrightarrow> D k = {#}"
    and tab2: "\<And>tab2. (\<And>k. mset (tab2 k) = mset (due q es k) + D k) \<Longrightarrow> events_ok env owners tab2 ws' \<and> state_ok env tab2 ws'"
    and now: "now (fst ws') = currentCycle q" and ok: "world_ok (fst ws')"
    and past: "\<And>k. k \<le> currentCycle q \<Longrightarrow> map_of (eventMap (evq (fst ws'))) k = map_of (eventMap q) k"
    unfolding completes_def by auto
  have "mset (due (evq (fst ws')) es k) = mset (due q es k) + D k" for k
    using D [of k] now by (auto simp: due_def)
  from tab2 [OF this] ok have "sub_sys env owners na (due (evq (fst ws')) es) ws'"
    using returnsD [OF na rc] by (simp add: sub_sys_def world_ok_heap_ok)
  with rc now past ok show ?thesis
    by (auto simp: sub_handler_def ws c' world_ok_heap_ok split: prod.splits)
qed

lemma sub_skip_step:
  assumes "sub_sys env owners na (due q (e # es)) ws" and "call_of q e = None"
  shows "sub_sys env owners na (due q es) ws"
proof -
  have "event_ok env owners ws (currentCycle q) e"
    using assms(1) by (auto simp: sub_sys_def events_ok_def due_def)
  with assms(2) show ?thesis
    by (auto simp: event_ok_def call_of_def)
qed

end

sublocale sub_system \<subseteq> timed: timed_handler "sub_handler env parent" "sub_sys env owners na" "\<lambda>ws. next_ref (fst ws)" horizon
  by (unfold_locales; fact sub_handler_step sub_skip_step)

context sub_system
begin

text \<open>Once the clock has passed \<open>nextActivate\<close> no transition is left: an unfinished precharge or
  refresh would have an event in the past.\<close>

lemma settled:
  assumes "sub_sys env owners na tab ws" and "\<And>k. k \<le> c \<Longrightarrow> tab k = []" and "na \<le> c"
  shows "state (snd ws) = SUBARRAY_OPEN \<or> state (snd ws) = SUBARRAY_CLOSED"
proof -
  have no: "\<not> job tab w k r req" if "k \<le> nextActivate (snd ws)" for w k r req
    using assms(1,3) assms(2) [of k] that by (auto simp: job_def sub_sys_def)
  have "state (snd ws) \<noteq> SUBARRAY_PRECHARGING" "state (snd ws) \<noteq> SUBARRAY_REFRESHING" "state (snd ws) \<noteq> SUBARRAY_UNKNOWN"
    using assms(1) no by (auto simp: sub_sys_def state_ok_def)
  then show ?thesis by (cases "state (snd ws)") auto
qed

lemma drains:
  assumes "world_ok w" and "sub_sys env owners na (events_at (evq w)) (w, s)" and "now w \<le> nextEventCycle (evq w)"
    and "unat (now w) + unat steps < 2 ^ 64 - 1" and "now w + steps \<le> horizon"
  shows "\<exists>q' ws'. Loop_steps (sub_handler env parent) steps (evq w, (w, s)) = Some (q', ws')
    \<and> currentCycle q' = now w + steps \<and> (\<forall>k \<le> now w + steps. events_at q' k = []) \<and> sub_sys env owners na (events_at q') ws'"
proof -
  obtain q' ws' where r: "Loop_steps (sub_handler env parent) steps (evq w, (w, s)) = Some (q', ws')" "queue_ok q'"
    "sub_sys env owners na (events_at q') ws'" "currentCycle q' = now w + steps" "currentCycle q' < nextEventCycle q'"
    using timed.Loop_steps_reaches [of "(w, s)" "evq w" steps] assms by (auto simp: world_ok_heap_ok queue_good_def)
  moreover have "events_at q' k = []" if "k \<le> now w + steps" for k
    using before_next_empty [OF r(2), of k] that r(4,5) by simp
  ultimately show ?thesis by blast
qed

end

text \<open>The subarray below any chain of objects.\<close>

definition chain_fits :: "SubArrayEnv \<Rightarrow> ncycle_t \<Rightarrow> bool" where
  "chain_fits env horizon \<longleftrightarrow> find_hook (siblings env) (self env) \<noteq> None \<and> 0 < tRP (prm env)
     \<and> unat horizon + unat (tRP (prm env)) < 2 ^ 64"

lemma sub_system_chain: "chain_fits env horizon \<Longrightarrow> sub_system (object_chain obs) (set obs) env horizon"
  by (intro sub_system.intro chain.completer_axioms sub_system_axioms.intro) (simp_all add: chain_fits_def)

text \<open>In particular a subarray with the default timing, wherever it hangs.\<close>

interpretation default_sub: sub_system "object_chain obs" "set obs"
  "\<lparr>prm = Params_new, self = me, siblings = (hk, me) # more, endurance_draw = ed, pulse_draw = pd\<rparr>" na "2 ^ 63"
  for obs me hk more ed pd na
  by (rule sub_system_chain) (simp add: chain_fits_def Params_new_def)

text \<open>C10: A subarray whose pending events are in order never gets stuck. Whatever completions
  are pending, running the event queue for any number of cycles returns, delivers every event
  that is due (implicit precharges schedule their own end on the way), keeps the subarray and
  its pending events in order, and once the clock has reached \<open>nextActivate\<close> the subarray is
  open or closed: a precharge or a refresh always comes to its end.\<close>

theorem subarray_drains:
  assumes fits: "chain_fits env (now w + steps)" and ok: "world_ok w" and sys: "sub_sys env (set obs) na (events_at (evq w)) (w, s)"
    and le: "now w \<le> nextEventCycle (evq w)" and small: "unat (now w) + unat steps < 2 ^ 64 - 1"
  shows "\<exists>q' ws'. Loop_steps (sub_handler env (object_chain obs)) steps (evq w, (w, s)) = Some (q', ws')
    \<and> currentCycle q' = now w + steps \<and> (\<forall>k \<le> now w + steps. events_at q' k = [])
    \<and> sub_sys env (set obs) na (events_at q') ws'
    \<and> (na \<le> now w + steps \<longrightarrow> state (snd ws') = SUBARRAY_OPEN \<or> state (snd ws') = SUBARRAY_CLOSED)"
proof -
  note sub = sub_system_chain [OF fits, of obs]
  obtain q' ws' where r: "Loop_steps (sub_handler env (object_chain obs)) steps (evq w, (w, s)) = Some (q', ws')"
    "currentCycle q' = now w + steps" "\<And>k. k \<le> now w + steps \<Longrightarrow> events_at q' k = []" "sub_sys env (set obs) na (events_at q') ws'"
    using sub_system.drains [OF sub ok sys le small] by auto
  moreover have "state (snd ws') = SUBARRAY_OPEN \<or> state (snd ws') = SUBARRAY_CLOSED" if "na \<le> now w + steps"
    using sub_system.settled [OF sub r(4,3) that] .
  ultimately show ?thesis by blast
qed

text \<open>A subarray in the middle of a refresh.\<close>

definition refreshing_world :: World where
  "refreshing_world = World_new\<lparr>heap := [0 \<mapsto> (demo_request REFRESH)\<lparr>owner := Some 1\<rparr>], next_ref := 2,
     evq := InsertEvent_at (response_event 1 7 0 30) 30 0 EventQueue_new\<rparr>"

definition refreshing :: SubArray where
  "refreshing = SubArray_new\<lparr>state := SUBARRAY_REFRESHING, nextActivate := 30\<rparr>"

lemma refreshing_ok: "world_ok refreshing_world" "now refreshing_world = 0" "nextEventCycle (evq refreshing_world) = 30"
  "sub_sys demo_env {9} 30 (events_at (evq refreshing_world)) (refreshing_world, refreshing)"
proof -
  have e: "events_at (evq refreshing_world) = (\<lambda>k. if k = 30 then [response_event 1 7 0 30] else [])"
    by (simp add: refreshing_world_def events_at_InsertEvent_at fun_eq_iff) (simp add: events_at_def EventQueue_new_def)
  have "queue_good 1 EventQueue_new"
    by (simp add: queue_good_def ids_below_def) (simp add: EventQueue_new_def)
  then have "queue_good 2 (InsertEvent_at (response_event 1 7 0 30) 30 0 EventQueue_new)"
    using queue_good_InsertEvent_at [of 1 EventQueue_new "response_event 1 7 0 30" 30 0] by (simp add: numeral_2_eq_2)
  then show "world_ok refreshing_world"
    by (simp add: refreshing_world_def world_ok_heap_ok heap_ok_def)
  then have "heap_ok refreshing_world"
    by (simp add: world_ok_heap_ok)
  moreover have "events_ok demo_env {9} (events_at (evq refreshing_world)) (refreshing_world, refreshing)"
    by (auto simp: e events_ok_def event_ok_def own_def) (simp_all add: refreshing_world_def demo_env_def)
  moreover have "job (events_at (evq refreshing_world)) refreshing_world 30 0 ((demo_request REFRESH)\<lparr>owner := Some 1\<rparr>)"
    by (simp add: e job_def) (simp add: refreshing_world_def)
  then have "state_ok demo_env (events_at (evq refreshing_world)) (refreshing_world, refreshing)"
    unfolding state_ok_def
    by (intro conjI impI exI [of _ 30] exI [of _ 0] exI [of _ "(demo_request REFRESH)\<lparr>owner := Some 1\<rparr>"])
      (simp_all add: refreshing_def own_def demo_env_def)
  ultimately show "sub_sys demo_env {9} 30 (events_at (evq refreshing_world)) (refreshing_world, refreshing)"
    by (simp add: sub_sys_def refreshing_def)
qed (simp_all add: refreshing_world_def InsertEvent_at_def EventQueue_new_def)

theorem subarray_drains_witness:
  "\<exists>q' ws'. Loop_steps (sub_handler demo_env (object_chain [9])) 40 (evq refreshing_world, (refreshing_world, refreshing)) = Some (q', ws')
     \<and> currentCycle q' = 40 \<and> (state (snd ws') = SUBARRAY_OPEN \<or> state (snd ws') = SUBARRAY_CLOSED)"
proof -
  have "chain_fits demo_env 40"
    by (simp add: chain_fits_def demo_env_def Params_new_def)
  then show ?thesis
    using subarray_drains [of demo_env refreshing_world 40 "[9]" 30 refreshing] refreshing_ok by auto
qed

end
