(* ===== verification/Command_Module.thy ===== *)
theory Command_Module
  imports Sub_Array_Events
begin

text \<open>
  The command interface every module offers to its parent (\<^verbatim>\<open>IsIssuable\<close> and
  \<^verbatim>\<open>IssueCommand\<close> of \<^verbatim>\<open>src/NVMObject.h\<close>) as a contract, and the proof that the subarray
  keeps it. The bank and the rank are verified against the contract of their children and keep
  it themselves.
\<close>

subsection \<open>The contract\<close>

definition sims_ok :: "World \<Rightarrow> bool" where
  "sims_ok w \<longleftrightarrow> (\<forall>si. sim w = Some si \<longrightarrow> sim_ok si)"

definition world_ready :: "World \<Rightarrow> bool" where
  "world_ready w \<longleftrightarrow> world_ok w \<and> sims_ok w"

text \<open>A module as its parent sees it: \<open>ask\<close> is \<^verbatim>\<open>IsIssuable\<close> and \<open>issue\<close> is \<^verbatim>\<open>IssueCommand\<close>. The
  specification \<open>can\<close> says which commands the module accepts at a cycle; \<open>fine\<close> is what the
  module keeps true of itself and \<open>fits\<close> what it expects of a request.\<close>

locale command_module =
  fixes ask :: "NVMainRequest \<Rightarrow> World \<times> 'm \<Rightarrow> (bool \<times> FailReasons option \<times> 'm) option"
    and issue :: "nat \<Rightarrow> World \<times> 'm \<Rightarrow> (bool \<times> World \<times> 'm) option"
    and can :: "ncycle_t \<Rightarrow> NVMainRequest \<Rightarrow> 'm \<Rightarrow> bool" and fine :: "'m \<Rightarrow> bool" and fits :: "NVMainRequest \<Rightarrow> bool"
  assumes ask_decides: "world_ready w \<Longrightarrow> fine m \<Longrightarrow> fits req \<Longrightarrow>
      \<exists>reason m'. ask req (w, m) = Some (can (now w) req m, reason, m') \<and> fine m' \<and> (\<forall>cur req'. fits req' \<longrightarrow> can cur req' m' = can cur req' m)"
    and issue_decides: "world_ready w \<Longrightarrow> fine m \<Longrightarrow> heap w r = Some req \<Longrightarrow> fits req \<Longrightarrow>
      \<exists>w' m'. issue r (w, m) = Some (can (now w) req m, w', m') \<and> world_step w w' \<and> world_ready w' \<and> fine m'"
begin

text \<open>What a parent does with a module: it asks, and only then issues. The answer is still valid.\<close>

lemma ask_then_issue:
  assumes "world_ready w" and "fine m" and "heap w r = Some req" and "fits req" and "ask req (w, m) = Some (ok, reason, m')"
  shows "\<exists>w' m''. issue r (w, m') = Some (ok, w', m'') \<and> world_step w w' \<and> world_ready w' \<and> fine m''"
proof -
  have m: "fine m'" "can (now w) req m' = ok"
    using ask_decides [OF assms(1,2,4)] assms(4,5) by auto
  show ?thesis
    using issue_decides [OF assms(1) m(1) assms(3,4)] m(2) by simp
qed

end

text \<open>A module that may only be given a command it was asked about (the interconnect asserts the
  answer) keeps a weaker contract.\<close>

locale asked_module =
  fixes ask :: "NVMainRequest \<Rightarrow> World \<times> 'm \<Rightarrow> (bool \<times> FailReasons option \<times> 'm) option"
    and issue :: "nat \<Rightarrow> World \<times> 'm \<Rightarrow> (bool \<times> World \<times> 'm) option"
    and can :: "ncycle_t \<Rightarrow> NVMainRequest \<Rightarrow> 'm \<Rightarrow> bool" and fine :: "'m \<Rightarrow> bool" and fits :: "NVMainRequest \<Rightarrow> bool"
  assumes asked: "world_ready w \<Longrightarrow> fine m \<Longrightarrow> fits req \<Longrightarrow>
      \<exists>reason m'. ask req (w, m) = Some (can (now w) req m, reason, m') \<and> fine m' \<and> (\<forall>cur req'. fits req' \<longrightarrow> can cur req' m' = can cur req' m)"
    and issued: "world_ready w \<Longrightarrow> fine m \<Longrightarrow> heap w r = Some req \<Longrightarrow> fits req \<Longrightarrow> can (now w) req m \<Longrightarrow>
      \<exists>w' m'. issue r (w, m) = Some (True, w', m') \<and> world_step w w' \<and> world_ready w' \<and> fine m'"
begin

text \<open>The protocol of a parent: issue exactly what was answered with yes.\<close>

lemma ask_issue_accepted:
  assumes "world_ready w" and "fine m" and "heap w r = Some req" and "fits req" and "ask req (w, m) = Some (True, reason, m')"
  shows "\<exists>w' m''. issue r (w, m') = Some (True, w', m'') \<and> world_step w w' \<and> world_ready w' \<and> fine m''"
proof -
  have "fine m'" "can (now w) req m'"
    using asked [OF assms(1,2,4)] assms(4,5) by auto
  then show ?thesis
    by (rule issued [OF assms(1) _ assms(3,4)])
qed

end

sublocale command_module \<subseteq> unasked: asked_module ask issue can fine fits
proof
  show "\<exists>reason m'. ask req (w, m) = Some (can (now w) req m, reason, m') \<and> fine m' \<and> (\<forall>cur req'. fits req' \<longrightarrow> can cur req' m' = can cur req' m)"
    if "world_ready w" "fine m" "fits req" for w m req
    using that by (rule ask_decides)
  show "\<exists>w' m'. issue r (w, m) = Some (True, w', m') \<and> world_step w w' \<and> world_ready w' \<and> fine m'"
    if "world_ready w" "fine m" "heap w r = Some req" "fits req" "can (now w) req m" for w m r req
    using issue_decides [OF that(1-4)] that(5) by simp
qed

subsection \<open>The subarray keeps the contract\<close>

definition sub_fine :: "SubArrayEnv \<Rightarrow> SubArray \<Rightarrow> bool" where
  "sub_fine env s \<longleftrightarrow> find_hook (siblings env) (self env) \<noteq> None \<and> \<not> WritePausing (prm env) \<and> plain_writes env s
     \<and> nextCommand s = CMD_NOP"

definition sub_fits :: "SubArrayEnv \<Rightarrow> NVMainRequest \<Rightarrow> bool" where
  "sub_fits env req \<longleftrightarrow> (class_of (req_type req) = C_WRITE \<longrightarrow> line_fits (prm env) req)"

text \<open>The fields a configuration sets and the data the simulator interface holds.\<close>

lemma sim_kept:
  "update_request r f w = Some w' \<Longrightarrow> sim w' = sim w"
  "copy_request r f w = Some (c, w') \<Longrightarrow> sim w' = sim w"
  "insert_response ch ob r t w = Some w' \<Longrightarrow> sim w' = sim w"
  by (auto simp: update_request_def copy_request_def insert_response_def bind_eq_Some_conv)

definition config_kept :: "sub_state \<Rightarrow> World \<times> SubArray \<Rightarrow> bool" where
  "config_kept ws ws' \<longleftrightarrow> dataEncoder (snd ws') = dataEncoder (snd ws) \<and> endrModel (snd ws') = endrModel (snd ws)
     \<and> writeMode (snd ws') = writeMode (snd ws) \<and> nextCommand (snd ws') = nextCommand (snd ws) \<and> (sims_ok (fst ws) \<longrightarrow> sims_ok (fst ws'))"

lemma config_keptI:
  "dataEncoder (snd ws') = dataEncoder (snd ws) \<Longrightarrow> endrModel (snd ws') = endrModel (snd ws) \<Longrightarrow> writeMode (snd ws') = writeMode (snd ws)
     \<Longrightarrow> nextCommand (snd ws') = nextCommand (snd ws) \<Longrightarrow> sim (fst ws') = sim (fst ws) \<Longrightarrow> config_kept ws ws'"
  by (simp add: config_kept_def sims_ok_def)

lemma SetDataAtAddress_ok:
  assumes "sim_ok si" and "memoryData si addr = None" and "block_ok d" and "SetDataAtAddress addr d si = Some si'"
  shows "sim_ok si'"
proof -
  have dom: "dom (memoryData si) = dom (accessCounts si)" "accessCounts si addr = None"
    using assms(1,2) by (auto simp: sim_ok_def)
  then have "si' = si\<lparr>memoryData := (memoryData si)(addr \<mapsto> d), accessCounts := (accessCounts si)(addr \<mapsto> 0)\<rparr>"
    using assms(3,4) by (simp add: SetDataAtAddress_def DataBlock_assign_fresh)
  with assms(1,3) dom(1) show ?thesis
    by (simp add: sim_ok_def)
qed

lemma remember_read_sim:
  assumes "remember_read req (w, s) = Some w'" and "sims_ok w" and "request_ok req"
  shows "sims_ok w'"
  using assms SetDataAtAddress_ok
  by (auto simp: sims_ok_def remember_read_def GetDataAtAddress_def request_ok_def bind_eq_Some_conv split: option.splits if_splits)

lemma sims_kept:
  "update_request r f w = Some w' \<Longrightarrow> sims_ok w \<Longrightarrow> sims_ok w'"
  "copy_request r f w = Some (c, w') \<Longrightarrow> sims_ok w \<Longrightarrow> sims_ok w'"
  "insert_response ch ob r t w = Some w' \<Longrightarrow> sims_ok w \<Longrightarrow> sims_ok w'"
  by (auto simp: sims_ok_def dest!: sim_kept)

lemmas sims_steps = sims_kept remember_read_sim

lemma SubArray_Activate_config:
  assumes "\<not> WritePausing (prm env)"
  shows "returns (SubArray_Activate env r ws) (\<lambda>x. config_kept ws (snd x))"
  using CheckWritePausing_idle [of env ws] assms
  by (cases ws) (auto simp: SubArray_Activate_def Let_def upd_stats_def intro!: returns_intro config_keptI dest!: sim_kept)

lemma SubArray_Refresh_config: "returns (SubArray_Refresh env r ws) (\<lambda>x. config_kept ws (snd x))"
  by (cases ws) (auto simp: SubArray_Refresh_def Let_def upd_stats_def intro!: returns_intro config_keptI dest!: sim_kept)

lemma SubArray_Precharge_config:
  assumes "writeMode (snd ws) \<noteq> WRITE_BACK"
  shows "returns (SubArray_Precharge env r ws) (\<lambda>x. config_kept ws (snd x))"
  using assms
  by (cases ws) (auto simp: SubArray_Precharge_def Let_def upd_stats_def intro!: returns_intro config_keptI dest!: sim_kept)

lemma SubArray_Read_sims:
  assumes "\<not> WritePausing (prm env)" and "world_ok (fst ws)" and "sims_ok (fst ws)"
  shows "returns (SubArray_Read env r ws) (\<lambda>(ok, w', s'). sims_ok w')"
  using assms(3) world_ok_heap [OF assms(2)]
  by (cases ws) (simp only: SubArray_Read_def chain_simps fst_conv CheckWritePausing_idle [of env] assms(1) HOL.simp_thms;
      intro returns_intro; (simp only: not_not prod.case)?; clarify?; (erule sims_steps | assumption | simp)+)

lemma timing_config [simp]:
  "dataEncoder (read_timing p cur req l s) = dataEncoder s" "endrModel (read_timing p cur req l s) = endrModel s"
  "dataEncoder (write_timing p cur req l s) = dataEncoder s" "endrModel (write_timing p cur req l s) = endrModel s"
  "dataEncoder (save_timing s) = dataEncoder s" "endrModel (save_timing s) = endrModel s" "writeMode (save_timing s) = writeMode s"
  "dataEncoder (record_write_time t s) = dataEncoder s" "endrModel (record_write_time t s) = endrModel s"
  "writeMode (record_write_time t s) = writeMode s" "dataEncoder (upd_stats f s) = dataEncoder s"
  "endrModel (upd_stats f s) = endrModel s" "writeMode (upd_stats f s) = writeMode s"
  "nextCommand (read_timing p cur req l s) = nextCommand s" "nextCommand (write_timing p cur req l s) = nextCommand s"
  "nextCommand (save_timing s) = nextCommand s" "nextCommand (record_write_time t s) = nextCommand s"
  by (simp_all add: read_timing_def write_timing_def save_timing_def record_write_time_def upd_stats_def Let_def)

lemma SubArray_Read_config:
  assumes "\<not> WritePausing (prm env)" and "world_ok (fst ws)"
  shows "returns (SubArray_Read env r ws) (\<lambda>x. config_kept ws (snd x))"
proof -
  have s: "returns (SubArray_Read env r ws) (\<lambda>x. dataEncoder (snd (snd x)) = dataEncoder (snd ws)
      \<and> endrModel (snd (snd x)) = endrModel (snd ws) \<and> writeMode (snd (snd x)) = writeMode (snd ws)
      \<and> nextCommand (snd (snd x)) = nextCommand (snd ws))"
    using CheckWritePausing_idle [of env ws] assms(1)
    by (intro returns_mono [OF SubArray_Read_effect]; case_tac "fst x") auto
  have "returns (SubArray_Read env r ws) (\<lambda>(ok, w', s'). sims_ok (fst ws) \<longrightarrow> sims_ok w')"
    using SubArray_Read_sims [OF assms] by (cases "sims_ok (fst ws)") (auto simp: returns_def)
  with s show ?thesis
    by (rule returns_conj) (auto simp: config_kept_def)
qed

lemma sim_steps:
  "update_request r f w = Some w' \<Longrightarrow> sim w = a \<Longrightarrow> sim w' = a"
  "copy_request r f w = Some (c, w') \<Longrightarrow> sim w = a \<Longrightarrow> sim w' = a"
  "insert_response ch ob r t w = Some w' \<Longrightarrow> sim w = a \<Longrightarrow> sim w' = a"
  by (auto dest!: sim_kept)

lemma WriteCellData_config: "returns (WriteCellData env r ws) (\<lambda>(t, w', s'). dataEncoder s' = dataEncoder (snd ws)
    \<and> endrModel s' = endrModel (snd ws) \<and> sim w' = sim (fst ws))"
  unfolding WriteCellData_def
  by (cases ws) (simp only: chain_simps fst_conv snd_conv; intro returns_intro; auto simp: upd_stats_def charge_bits_def)

lemma write_time_config:
  assumes "plain_writes env (snd ws)"
  shows "returns (write_time env r ws) (\<lambda>(t, lat, un, w', s'). dataEncoder s' = dataEncoder (snd ws)
    \<and> endrModel s' = endrModel (snd ws) \<and> sim w' = sim (fst ws))"
proof -
  obtain w s where ws: "ws = (w, s)" by (cases ws)
  have enc: "encoder_Write env r (w, s) = Some (0, (w, s))" and endr: "UpdateEndurance env r (w, s) = Some (0, (w, s))"
    using assms by (auto simp: ws plain_writes_def encoder_Write_def UpdateEndurance_def split: option.split)
  show ?thesis
    unfolding write_time_def ws
    by (simp only: chain_simps enc endr if_cancel fst_conv snd_conv; intro returns_intro;
        (frule returnsD [OF WriteCellData_config])?; auto dest!: sim_kept)
qed

lemma SubArray_Write_config:
  assumes "plain_writes env (snd ws)" and "world_ok (fst ws)"
  shows "returns (SubArray_Write env r ws) (\<lambda>x. config_kept ws (snd x))"
proof -
  obtain w s where ws: "ws = (w, s)" by (cases ws)
  have wm: "writeMode s1 = writeMode s \<and> nextCommand s1 = nextCommand s \<and> dataEncoder s1 = dataEncoder s \<and> endrModel s1 = endrModel s \<and> sim w1 = sim w"
    if "write_time env r (w, s) = Some (t, lat, un, w1, s1)" for t lat un w1 s1
    using returnsD [OF write_time_config that] returnsD [OF write_time_frame that] assms
    by (auto simp: ws sub_frame_def same_control_def)
  show ?thesis
    unfolding SubArray_Write_def ws
    by (simp only: chain_simps fst_conv snd_conv; intro returns_intro; (simp only: not_not prod.case)?; clarify?;
        rule config_keptI; ((drule sim_kept)+)?; (drule wm)?; simp)
qed

lemma SubArray_IssueCommand_config:
  assumes "sub_fine env s" and "world_ok w" and "heap w r = Some req"
  shows "returns (SubArray_IssueCommand env r (w, s)) (\<lambda>x. config_kept (w, s) (snd x))"
proof -
  have c: "\<not> WritePausing (prm env)" "writeMode s \<noteq> WRITE_BACK" "plain_writes env s"
    using assms(1) by (auto simp: sub_fine_def plain_writes_def)
  have kept: "config_kept (w, upd_stats f s) ws' = config_kept (w, s) ws'" "config_kept (w, s) (w, upd_stats f s)"
    "plain_writes env (upd_stats f s)" for f ws'
    using c(3) by (simp_all add: config_kept_def plain_writes_def)
  show ?thesis
    by (rule SubArray_IssueCommand_cases [OF assms(3)])
      (use SubArray_Activate_config [OF c(1), of r "(w, upd_stats f s)" for f] SubArray_Read_config [OF c(1), of "(w, upd_stats f s)" r for f]
        SubArray_Write_config [of env "(w, upd_stats f s)" r for f] SubArray_Precharge_config [of "(w, upd_stats f s)" env r for f]
        SubArray_Refresh_config [of env r "(w, upd_stats f s)" for f] c assms(2) in \<open>simp_all add: kept\<close>)
qed

lemma SubArray_IssueCommand_state:
  assumes "sub_fine env s" and "world_ok w" and "heap w r = Some req"
  shows "returns (SubArray_IssueCommand env r (w, s))
    (\<lambda>x. state (snd (snd x)) = (if fst x then state_after (req_type req) (state s) else state s))"
proof -
  have c: "CheckWritePausing env ws = Some ws" for ws
    using assms(1) by (auto simp: sub_fine_def CheckWritePausing_idle)
  have a: "returns (SubArray_Activate env r (w, upd_stats f s)) (\<lambda>x. state (snd (snd x)) = (if fst x then SUBARRAY_OPEN else state s))" for f
    by (rule returns_mono [OF SubArray_Activate_effect]; case_tac "fst x") (auto simp: c)
  have r: "returns (SubArray_Read env r (w, upd_stats f s)) (\<lambda>x. state (snd (snd x)) = state s)" for f
    by (rule returns_mono [OF SubArray_Read_effect]; case_tac "fst x") (auto simp: c)
  have wr: "returns (SubArray_Write env r (w, upd_stats f s)) (\<lambda>x. state (snd (snd x)) = state s)" for f
    by (rule returns_mono [OF SubArray_Write_effect], simp add: assms(2), case_tac "fst x") (auto simp: write_effect_def same_control_def)
  have p: "returns (SubArray_Precharge env r (w, upd_stats f s)) (\<lambda>x. state (snd (snd x)) = (if fst x then SUBARRAY_PRECHARGING else state s))" for f
    by (rule returns_mono [OF SubArray_Precharge_effect], simp add: assms(2), case_tac "fst x") (auto simp: precharge_effect_def)
  have rf: "returns (SubArray_Refresh env r (w, upd_stats f s)) (\<lambda>x. state (snd (snd x)) = (if fst x then SUBARRAY_REFRESHING else state s))" for f
    by (rule returns_mono [OF SubArray_Refresh_effect]; case_tac "fst x") auto
  show ?thesis
    by (rule SubArray_IssueCommand_cases [OF assms(3)]; (rule returns_mono [OF a] returns_mono [OF r] returns_mono [OF wr]
        returns_mono [OF p] returns_mono [OF rf])?; auto simp: class_state_after)
qed

interpretation sub: command_module "SubArray_IsIssuable env" "SubArray_IssueCommand env" "can_issue (prm env)" "sub_fine env" "sub_fits env" for env
proof
  fix w :: World and s :: SubArray and req
  assume w: "world_ready w" and s: "sub_fine env s" and req: "sub_fits env req"
  have "can_issue p cur req' (upd_stats f s) = can_issue p cur req' s" for p cur req' f
    by (cases "req_type req'") (simp_all add: can_issue_def upd_stats_def)
  with s SubArray_IsIssuable_decides [of env s req w]
  show "\<exists>reason s'. SubArray_IsIssuable env req (w, s) = Some (can_issue (prm env) (now w) req s, reason, s') \<and> sub_fine env s'
    \<and> (\<forall>cur req'. sub_fits env req' \<longrightarrow> can_issue (prm env) cur req' s' = can_issue (prm env) cur req' s)"
    by (fastforce simp: sub_fine_def plain_writes_def)
  fix r
  assume r: "heap w r = Some req"
  have ready: "sub_ready env (w, s)" "world_ok w" "\<not> WritePausing (prm env)" "plain_writes env s" "writeMode s \<noteq> WRITE_BACK"
    using w s by (auto simp: sub_ready_def world_ready_def sub_fine_def sims_ok_def plain_writes_def)
  obtain w' s' where i: "SubArray_IssueCommand env r (w, s) = Some (can_issue (prm env) (now w) req s, w', s')"
  proof (cases "can_issue (prm env) (now w) req s")
    case True
    with SubArray_IssueCommand_accepted [OF ready(1) r ready(4)] req that show ?thesis
      by (auto simp: sub_fits_def)
  next
    case False
    with SubArray_IsIssuable_decides [of env s req w] ready r that show ?thesis
      by (auto simp: SubArray_IssueCommand_def)
  qed
  have "world_step w w'"
    using returnsD [OF SubArray_IssueCommand_accepts i] ready by (simp add: accepts_def)
  moreover have "config_kept (w, s) (w', s')"
    using returnsD [OF SubArray_IssueCommand_config [OF s ready(2) r] i] by simp
  ultimately show "\<exists>w' s'. SubArray_IssueCommand env r (w, s) = Some (can_issue (prm env) (now w) req s, w', s')
      \<and> world_step w w' \<and> world_ready w' \<and> sub_fine env s'"
    using i w s by (auto simp: config_kept_def world_ready_def world_step_def sub_fine_def plain_writes_def)
qed

end
