(* ===== verification/DDR3_Bank.thy ===== *)
theory DDR3_Bank
  imports Address_Translation Command_Module
begin

text \<open>
  The bank (\<^verbatim>\<open>Banks/DDR3Bank/DDR3Bank.cpp\<close>): a row of subarrays behind one command interface,
  with bank-level timing, the queue of active subarrays and the power-down states. Fields of the
  bank carry the prefix \<open>bk_\<close>; the subarrays are part of its state, so that a command is one
  state transition of the bank and everything below it.

  \<open>GetChild\<close> is \<^verbatim>\<open>NVMObject::GetChild\<close>: the decoder picks the child from the request, and an
  index that is not a child is \<open>None\<close>, as every other undefined access. The decoder of a bank
  returns a field of an address that was translated already; the one member a translation
  changes (\<open>lowColBits\<close>) is computed afresh by every call and is not kept.
\<close>

datatype DDR3BankState =
  DDR3BANK_UNKNOWN | DDR3BANK_OPEN | DDR3BANK_CLOSED | DDR3BANK_PDPF | DDR3BANK_PDA | DDR3BANK_PDPS

record BankEnv =
  bk_prm :: Params
  bk_self :: nat
  bk_decoder :: "AddressTranslator option"
  bk_outs :: "MemoryPartition \<Rightarrow> uint64"
  bk_sub :: "nat \<Rightarrow> SubArrayEnv"

record BankStats =
  bk_dataCycles :: ncounter_t
  bk_activeCycles :: ncounter_t
  bk_standbyCycles :: ncounter_t
  bk_fastExitActiveCycles :: ncounter_t
  bk_fastExitPrechargeCycles :: ncounter_t
  bk_slowExitPrechargeCycles :: ncounter_t
  bk_powerCycles :: ncounter_t
  bk_actWaits :: ncounter_t
  bk_actWaitTotal :: ncounter_t
  bk_actWaitAverage :: rat
  bk_bankEnergy :: rat
  bk_activeEnergy :: rat
  bk_burstEnergy :: rat
  bk_refreshEnergy :: rat
  bk_bankPower :: rat
  bk_activePower :: rat
  bk_burstPower :: rat
  bk_refreshPower :: rat
  bk_utilization :: rat
  bk_bandwidth :: rat
  bk_averageEndurance :: uint64
  bk_worstCaseEndurance :: uint64
  bk_reads :: ncounter_t
  bk_writes :: ncounter_t
  bk_activates :: ncounter_t
  bk_precharges :: ncounter_t
  bk_refreshes :: ncounter_t

record DDR3Bank =
  activeSubArrayQueue :: "ncounter_t list"
  subArrayNum :: ncounter_t
  bk_state :: DDR3BankState
  bk_nextCommand :: BulkCommand
  bk_nextActivate :: ncycle_t
  bk_nextPrecharge :: ncycle_t
  bk_nextRead :: ncycle_t
  bk_nextWrite :: ncycle_t
  bk_nextPowerDown :: ncycle_t
  bk_nextPowerUp :: ncycle_t
  bk_writeCycle :: bool
  bk_openRow :: uint64
  bk_stats :: BankStats
  subarrays :: "SubArray list"

definition BankStats_new :: BankStats where
  "BankStats_new = \<lparr>bk_dataCycles = 0, bk_activeCycles = 0, bk_standbyCycles = 0, bk_fastExitActiveCycles = 0,
     bk_fastExitPrechargeCycles = 0, bk_slowExitPrechargeCycles = 0, bk_powerCycles = 0, bk_actWaits = 0,
     bk_actWaitTotal = 0, bk_actWaitAverage = 0, bk_bankEnergy = 0, bk_activeEnergy = 0, bk_burstEnergy = 0,
     bk_refreshEnergy = 0, bk_bankPower = 0, bk_activePower = 0, bk_burstPower = 0, bk_refreshPower = 0,
     bk_utilization = 0, bk_bandwidth = 0, bk_averageEndurance = 0, bk_worstCaseEndurance = 0,
     bk_reads = 0, bk_writes = 0, bk_activates = 0, bk_precharges = 0, bk_refreshes = 0\<rparr>"

definition DDR3Bank_new :: DDR3Bank where
  "DDR3Bank_new = \<lparr>activeSubArrayQueue = [], subArrayNum = 0, bk_state = DDR3BANK_CLOSED, bk_nextCommand = CMD_NOP,
     bk_nextActivate = 0, bk_nextPrecharge = 0, bk_nextRead = 0, bk_nextWrite = 0, bk_nextPowerDown = 0,
     bk_nextPowerUp = 0, bk_writeCycle = False, bk_openRow = 0, bk_stats = BankStats_new, subarrays = []\<rparr>"

text \<open>\<open>sub\<close> is a subarray after its own \<^verbatim>\<open>SetConfig\<close>; dividing by a height of zero traps.\<close>

definition DDR3Bank_SetConfig :: "Params \<Rightarrow> bool \<Rightarrow> SubArray \<Rightarrow> DDR3Bank \<Rightarrow> DDR3Bank option" where
  "DDR3Bank_SetConfig p createChildren sub b =
     (if MATHeight p = 0 then None
      else (let n = ROWS p div MATHeight p;
                b1 = b\<lparr>subArrayNum := n\<rparr>;
                b2 = (if createChildren then b1\<lparr>subarrays := subarrays b1 @ replicate (unat n) sub\<rparr> else b1)
            in Some (if InitPD p then b2\<lparr>bk_state := DDR3BANK_PDPF\<rparr> else b2)))"

type_synonym bank_state = "World \<times> DDR3Bank"

definition upd_bank_stats :: "(BankStats \<Rightarrow> BankStats) \<Rightarrow> DDR3Bank \<Rightarrow> DDR3Bank" where
  "upd_bank_stats f b = b\<lparr>bk_stats := f (bk_stats b)\<rparr>"

subsection \<open>Children\<close>

definition GetChild :: "AddressTranslator option \<Rightarrow> (MemoryPartition \<Rightarrow> uint64) \<Rightarrow> nat \<Rightarrow> NVMainRequest \<Rightarrow> nat option" where
  "GetChild decoder outs n req =
     (case decoder of
        None \<Rightarrow> if n = 1 then Some 0 else None
      | Some t \<Rightarrow> do {
          (_, child) \<leftarrow> Translate_request t req outs;
          if unat child < n then Some (unat child) else None
        })"

abbreviation bank_child :: "BankEnv \<Rightarrow> DDR3Bank \<Rightarrow> NVMainRequest \<Rightarrow> nat option" where
  "bank_child env b req \<equiv> GetChild (bk_decoder env) (bk_outs env) (length (subarrays b)) req"

text \<open>Calls of a child: \<^verbatim>\<open>GetChild( i )->IssueCommand\<close> and \<^verbatim>\<open>GetChild( i )->IsIssuable\<close>.\<close>

definition sub_IssueCommand :: "BankEnv \<Rightarrow> nat \<Rightarrow> nat \<Rightarrow> bank_state \<Rightarrow> (bool \<times> bank_state) option" where
  "sub_IssueCommand env i r wb = (case wb of (w, b) \<Rightarrow>
     if i < length (subarrays b) then do {
       (ok, (w', s')) \<leftarrow> SubArray_IssueCommand (bk_sub env i) r (w, subarrays b ! i);
       Some (ok, (w', b\<lparr>subarrays := (subarrays b)[i := s']\<rparr>))
     }
     else None)"

definition sub_IsIssuable ::
  "BankEnv \<Rightarrow> nat \<Rightarrow> NVMainRequest \<Rightarrow> bank_state \<Rightarrow> (bool \<times> FailReasons option \<times> DDR3Bank) option" where
  "sub_IsIssuable env i req wb = (case wb of (w, b) \<Rightarrow>
     if i < length (subarrays b) then do {
       (ok, reason, s') \<leftarrow> SubArray_IsIssuable (bk_sub env i) req (w, subarrays b ! i);
       Some (ok, reason, b\<lparr>subarrays := (subarrays b)[i := s']\<rparr>)
     }
     else None)"

text \<open>The loops that ask several children until one refuses.\<close>

fun subs_issuable ::
  "BankEnv \<Rightarrow> nat list \<Rightarrow> NVMainRequest \<Rightarrow> bank_state \<Rightarrow> (bool \<times> FailReasons option \<times> DDR3Bank) option" where
  "subs_issuable env [] req wb = Some (True, None, snd wb)"
| "subs_issuable env (i # is) req wb = do {
     (ok, reason, b') \<leftarrow> sub_IsIssuable env i req wb;
     if ok then subs_issuable env is req (fst wb, b') else Some (False, reason, b')
   }"

subsection \<open>Power\<close>

text \<open>\<^verbatim>\<open>assert( request->type == POWERDOWN_PDA )\<close> for an open bank.\<close>

definition DDR3Bank_PowerDown :: "BankEnv \<Rightarrow> nat \<Rightarrow> bank_state \<Rightarrow> (bool \<times> bank_state) option" where
  "DDR3Bank_PowerDown env r wb = (case wb of (w, b) \<Rightarrow> do {
     req \<leftarrow> heap w r;
     if bk_nextPowerDown b \<le> now w \<and> (bk_state b = DDR3BANK_OPEN \<or> bk_state b = DDR3BANK_CLOSED) then do {
       let b1 = b\<lparr>bk_nextPowerUp := max (bk_nextPowerUp b) (now w + tPD (bk_prm env))\<rparr>;
       if bk_state b = DDR3BANK_OPEN
       then (if req_type req = POWERDOWN_PDA then Some (True, (w, b1\<lparr>bk_state := DDR3BANK_PDA\<rparr>)) else None)
       else Some (True, (w, b1\<lparr>bk_state := (if req_type req = POWERDOWN_PDPS then DDR3BANK_PDPS else DDR3BANK_PDPF)\<rparr>))
     }
     else Some (False, (w, b))
   })"

definition DDR3Bank_PowerUp :: "BankEnv \<Rightarrow> bank_state \<Rightarrow> bool \<times> bank_state" where
  "DDR3Bank_PowerUp env wb = (case wb of (w, b) \<Rightarrow>
     let p = bk_prm env; cur = now w
     in if bk_nextPowerUp b \<le> cur
           \<and> (bk_state b = DDR3BANK_PDPF \<or> bk_state b = DDR3BANK_PDPS \<or> bk_state b = DDR3BANK_PDA)
        then (True, (w, b\<lparr>bk_nextPowerDown := max (bk_nextPowerDown b) (cur + tXP p),
                          bk_nextActivate := max (bk_nextActivate b) (cur + tXP p),
                          bk_nextPrecharge := max (bk_nextPrecharge b) (cur + tXP p),
                          bk_nextWrite := max (bk_nextWrite b) (cur + tXP p),
                          bk_nextRead := max (bk_nextRead b) (cur + (if bk_state b = DDR3BANK_PDPS then tXPDLL p else tXP p)),
                          bk_state := (if bk_state b = DDR3BANK_PDA then DDR3BANK_OPEN else DDR3BANK_CLOSED)\<rparr>))
        else (False, (w, b)))"

subsection \<open>Commands\<close>

text \<open>\<^verbatim>\<open>activeSubArrayQueue.erase\<close> of the first entry that names the subarray.\<close>

definition close_subarray :: "ncounter_t \<Rightarrow> DDR3Bank \<Rightarrow> DDR3Bank" where
  "close_subarray sa b = b\<lparr>activeSubArrayQueue := remove1 sa (activeSubArrayQueue b)\<rparr>"

definition close_if_empty :: "DDR3Bank \<Rightarrow> DDR3Bank" where
  "close_if_empty b = (if activeSubArrayQueue b = [] then b\<lparr>bk_state := DDR3BANK_CLOSED\<rparr> else b)"

definition DDR3Bank_Activate :: "BankEnv \<Rightarrow> nat \<Rightarrow> bank_state \<Rightarrow> (bool \<times> bank_state) option" where
  "DDR3Bank_Activate env r wb = (case wb of (w, b) \<Rightarrow> do {
     req \<leftarrow> heap w r;
     if bk_nextActivate b > now w then Some (False, (w, b))
     else if bk_state b \<noteq> DDR3BANK_CLOSED \<and> activeSubArrayQueue b = [] then Some (False, (w, b))
     else do {
       let b1 = b\<lparr>bk_nextPowerDown := max (bk_nextPowerDown b) (now w + tRCD (bk_prm env))\<rparr>;
       i \<leftarrow> bank_child env b1 req;
       (success, (w2, b2)) \<leftarrow> sub_IssueCommand env i r (w, b1);
       Some (success, (w2,
         if success
         then upd_bank_stats (\<lambda>st. st\<lparr>bk_activates := bk_activates st + 1\<rparr>)
                (b2\<lparr>bk_openRow := row (address req), bk_state := DDR3BANK_OPEN,
                    activeSubArrayQueue := subarray (address req) # activeSubArrayQueue b2\<rparr>)
         else b2))
     }
   })"

definition bank_read_timing :: "Params \<Rightarrow> ncycle_t \<Rightarrow> NVMainRequest \<Rightarrow> DDR3Bank \<Rightarrow> DDR3Bank" where
  "bank_read_timing p cur req b =
     (let bursts = burst_gap p * (burstCount req - 1)
      in b\<lparr>bk_nextPowerDown := max (bk_nextPowerDown b)
             (if req_type req = READ_PRECHARGE then cur + bursts + tAL p + tRTP p + tRP p else bursts + cur + tRDPDEN p),
           bk_nextRead := max (bk_nextRead b) (cur + burst_gap p * burstCount req),
           bk_nextWrite := max (bk_nextWrite b) (cur + bursts + tCAS p + tBURST p + tRTRS p - tCWD p)\<rparr>)"

definition DDR3Bank_Read :: "BankEnv \<Rightarrow> nat \<Rightarrow> bank_state \<Rightarrow> (bool \<times> bank_state) option" where
  "DDR3Bank_Read env r wb = (case wb of (w, b) \<Rightarrow> do {
     let p = bk_prm env;
     let cur = now w;
     req \<leftarrow> heap w r;
     if bk_nextRead b > cur then Some (False, (w, b))
     else if bk_state b \<noteq> DDR3BANK_OPEN then Some (False, (w, b))
     else do {
       let b1 = bank_read_timing p cur req b;
       i \<leftarrow> bank_child env b1 req;
       (success, (w2, b2)) \<leftarrow> sub_IssueCommand env i r (w, b1);
       Some (success, (w2,
         if success
         then (let b3 = (if req_type req = READ_PRECHARGE
                         then close_if_empty (close_subarray (subarray (address req))
                                (upd_bank_stats (\<lambda>st. st\<lparr>bk_precharges := bk_precharges st + 1\<rparr>) b2))
                         else b2)
               in upd_bank_stats (\<lambda>st. st\<lparr>bk_dataCycles := bk_dataCycles st + tBURST p, bk_reads := bk_reads st + 1\<rparr>) b3)
         else b2))
     }
   })"

text \<open>With an implicit precharge, \<open>nextPowerDown\<close> is the maximum of the new bound and
  \<open>nextActivate\<close>, not of its own old value.\<close>

definition bank_write_timing :: "Params \<Rightarrow> ncycle_t \<Rightarrow> NVMainRequest \<Rightarrow> DDR3Bank \<Rightarrow> DDR3Bank" where
  "bank_write_timing p cur req b =
     (let bursts = burst_gap p * (burstCount req - 1)
      in b\<lparr>bk_nextPowerDown := (if req_type req = WRITE_PRECHARGE
             then max (bk_nextActivate b) (cur + bursts + tAL p + tCWD p + tBURST p + tWR p + tRP p)
             else max (bk_nextPowerDown b) (bursts + cur + tWRPDEN p)),
           bk_nextRead := max (bk_nextRead b) (cur + bursts + tCWD p + tBURST p + tWTR p),
           bk_nextWrite := max (bk_nextWrite b) (cur + burst_gap p * burstCount req)\<rparr>)"

definition DDR3Bank_Write :: "BankEnv \<Rightarrow> nat \<Rightarrow> bank_state \<Rightarrow> (bool \<times> bank_state) option" where
  "DDR3Bank_Write env r wb = (case wb of (w, b) \<Rightarrow> do {
     let p = bk_prm env;
     let cur = now w;
     req \<leftarrow> heap w r;
     if bk_nextWrite b > cur then Some (False, (w, b))
     else if bk_state b \<noteq> DDR3BANK_OPEN then Some (False, (w, b))
     else do {
       let b1 = bank_write_timing p cur req b;
       i \<leftarrow> bank_child env b1 req;
       (success, (w2, b2)) \<leftarrow> sub_IssueCommand env i r (w, b1);
       Some (success, (w2,
         if success
         then (let b3 = upd_bank_stats (\<lambda>st. st\<lparr>bk_dataCycles := bk_dataCycles st + tBURST p, bk_writes := bk_writes st + 1\<rparr>)
                          (b2\<lparr>bk_writeCycle := True\<rparr>)
               in if req_type req = WRITE_PRECHARGE
                  then close_if_empty (close_subarray (subarray (address req))
                         (upd_bank_stats (\<lambda>st. st\<lparr>bk_precharges := bk_precharges st + 1\<rparr>) b3))
                  else b3)
         else b2))
     }
   })"

text \<open>\<^verbatim>\<open>PRECHARGE_ALL\<close>: every active subarray but the last gets a copy of the request, the last
  one the request itself.\<close>

fun precharge_all_loop :: "BankEnv \<Rightarrow> nat \<Rightarrow> ncounter_t list \<Rightarrow> bank_state \<Rightarrow> (bool \<times> bank_state) option" where
  "precharge_all_loop env r [] wb = Some (True, wb)"
| "precharge_all_loop env r [sa] (w, b) = sub_IssueCommand env (unat sa) r (w, b\<lparr>activeSubArrayQueue := []\<rparr>)"
| "precharge_all_loop env r (sa # sas) (w, b) = do {
     (c, w1) \<leftarrow> copy_request r (\<lambda>c. c\<lparr>owner := Some (bk_self env)\<rparr>) w;
     (success, wb2) \<leftarrow> sub_IssueCommand env (unat sa) c (w1, b\<lparr>activeSubArrayQueue := sas\<rparr>);
     if success then precharge_all_loop env r sas wb2 else Some (False, wb2)
   }"

definition DDR3Bank_Precharge :: "BankEnv \<Rightarrow> nat \<Rightarrow> bank_state \<Rightarrow> (bool \<times> bank_state) option" where
  "DDR3Bank_Precharge env r wb = (case wb of (w, b) \<Rightarrow> do {
     req \<leftarrow> heap w r;
     if bk_nextPrecharge b > now w then Some (False, (w, b))
     else if bk_state b \<noteq> DDR3BANK_CLOSED \<and> bk_state b \<noteq> DDR3BANK_OPEN then Some (False, (w, b))
     else do {
       let b1 = b\<lparr>bk_nextPowerDown := max (bk_nextPowerDown b) (now w + tRP (bk_prm env))\<rparr>;
       (success, (w2, b2)) \<leftarrow>
         (case req_type req of
            PRECHARGE \<Rightarrow> do {
              i \<leftarrow> bank_child env b1 req;
              (ok, (w2, b2)) \<leftarrow> sub_IssueCommand env i r (w, b1);
              Some (ok, (w2, if ok then close_subarray (subarray (address req)) b2 else b2))
            }
          | PRECHARGE_ALL \<Rightarrow> precharge_all_loop env r (activeSubArrayQueue b1) (w, b1)
          | _ \<Rightarrow> Some (False, (w, b1)));
       Some (success, (w2,
         if success then upd_bank_stats (\<lambda>st. st\<lparr>bk_precharges := bk_precharges st + 1\<rparr>) (close_if_empty b2) else b2))
     }
   })"

definition DDR3Bank_Refresh :: "BankEnv \<Rightarrow> nat \<Rightarrow> bank_state \<Rightarrow> (bool \<times> bank_state) option" where
  "DDR3Bank_Refresh env r wb = (case wb of (w, b) \<Rightarrow> do {
     req \<leftarrow> heap w r;
     if bk_nextActivate b > now w then Some (False, (w, b))
     else do {
       let b1 = b\<lparr>bk_nextPowerDown := max (bk_nextPowerDown b) (now w + tRFC (bk_prm env))\<rparr>;
       i \<leftarrow> bank_child env b1 req;
       (success, (w2, b2)) \<leftarrow> sub_IssueCommand env i r (w, b1);
       Some (success, (w2,
         if success then upd_bank_stats (\<lambda>st. st\<lparr>bk_refreshes := bk_refreshes st + 1\<rparr>) b2 else b2))
     }
   })"

subsection \<open>Dispatch\<close>

definition DDR3Bank_NextIssuable :: "BankEnv \<Rightarrow> NVMainRequest \<Rightarrow> DDR3Bank \<Rightarrow> ncycle_t option" where
  "DDR3Bank_NextIssuable env req b = do {
     let nextCompare = (case req_type req of
            ACTIVATE \<Rightarrow> bk_nextActivate b | REFRESH \<Rightarrow> bk_nextActivate b
          | READ \<Rightarrow> bk_nextRead b | READ_PRECHARGE \<Rightarrow> bk_nextRead b
          | WRITE \<Rightarrow> bk_nextWrite b | WRITE_PRECHARGE \<Rightarrow> bk_nextWrite b
          | PRECHARGE \<Rightarrow> bk_nextPrecharge b | PRECHARGE_ALL \<Rightarrow> bk_nextPrecharge b
          | _ \<Rightarrow> 0);
     i \<leftarrow> bank_child env b req;
     Some (max (SubArray_NextIssuable (subarrays b ! i) req) nextCompare)
   }"

definition powered_down :: "DDR3BankState \<Rightarrow> bool" where
  "powered_down st \<longleftrightarrow> st = DDR3BANK_PDPF \<or> st = DDR3BANK_PDPS \<or> st = DDR3BANK_PDA"

definition powered_up :: "DDR3BankState \<Rightarrow> bool" where
  "powered_up st \<longleftrightarrow> st = DDR3BANK_CLOSED \<or> st = DDR3BANK_OPEN"

definition ask_child :: "BankEnv \<Rightarrow> NVMainRequest \<Rightarrow> bank_state \<Rightarrow> (bool \<times> FailReasons option \<times> DDR3Bank) option" where
  "ask_child env req wb = do {
     i \<leftarrow> bank_child env (snd wb) req;
     sub_IsIssuable env i req wb
   }"

text \<open>A power command asks every subarray even when the bank itself has refused, and does not
  pass on their reasons.\<close>

definition ask_all_children ::
  "BankEnv \<Rightarrow> NVMainRequest \<Rightarrow> bool \<Rightarrow> bank_state \<Rightarrow> (bool \<times> FailReasons option \<times> DDR3Bank) option" where
  "ask_all_children env req blocked wb = do {
     (ok, _, b') \<leftarrow> subs_issuable env [0..<unat (subArrayNum (snd wb))] req wb;
     Some (\<not> blocked \<and> ok, if blocked then Some BANK_TIMING else None, b')
   }"

definition DDR3Bank_IsIssuable ::
  "BankEnv \<Rightarrow> NVMainRequest \<Rightarrow> bank_state \<Rightarrow> (bool \<times> FailReasons option \<times> DDR3Bank) option" where
  "DDR3Bank_IsIssuable env req wb = (case wb of (w, b) \<Rightarrow>
     let cur = now w;
         guarded = (\<lambda>blocked m. if blocked then Some (False, Some BANK_TIMING, b) else m)
     in if bk_nextCommand b \<noteq> CMD_NOP then Some (False, None, b)
        else (case req_type req of
          ACTIVATE \<Rightarrow>
            if bk_nextActivate b > cur \<or> powered_down (bk_state b)
            then Some (False, Some BANK_TIMING,
                   upd_bank_stats (\<lambda>st. st\<lparr>bk_actWaits := bk_actWaits st + 1,
                                         bk_actWaitTotal := bk_actWaitTotal st + (bk_nextActivate b - cur)\<rparr>) b)
            else ask_child env req wb
        | READ \<Rightarrow> guarded (bk_nextRead b > cur \<or> bk_state b \<noteq> DDR3BANK_OPEN) (ask_child env req wb)
        | READ_PRECHARGE \<Rightarrow> guarded (bk_nextRead b > cur \<or> bk_state b \<noteq> DDR3BANK_OPEN) (ask_child env req wb)
        | WRITE \<Rightarrow> guarded (bk_nextWrite b > cur \<or> bk_state b \<noteq> DDR3BANK_OPEN) (ask_child env req wb)
        | WRITE_PRECHARGE \<Rightarrow> guarded (bk_nextWrite b > cur \<or> bk_state b \<noteq> DDR3BANK_OPEN) (ask_child env req wb)
        | PRECHARGE \<Rightarrow> guarded (bk_nextPrecharge b > cur \<or> \<not> powered_up (bk_state b)) (ask_child env req wb)
        | PRECHARGE_ALL \<Rightarrow> guarded (bk_nextPrecharge b > cur \<or> \<not> powered_up (bk_state b))
                             (subs_issuable env (map unat (activeSubArrayQueue b)) req wb)
        | POWERDOWN_PDA \<Rightarrow> ask_all_children env req (bk_nextPowerDown b > cur \<or> \<not> powered_up (bk_state b)) wb
        | POWERDOWN_PDPF \<Rightarrow> ask_all_children env req
            (bk_nextPowerDown b > cur \<or> \<not> powered_up (bk_state b) \<or> bk_state b = DDR3BANK_OPEN) wb
        | POWERDOWN_PDPS \<Rightarrow> ask_all_children env req
            (bk_nextPowerDown b > cur \<or> \<not> powered_up (bk_state b) \<or> bk_state b = DDR3BANK_OPEN) wb
        | POWERUP \<Rightarrow> ask_all_children env req (bk_nextPowerUp b > cur \<or> \<not> powered_down (bk_state b)) wb
        | REFRESH \<Rightarrow> guarded (bk_nextActivate b > cur \<or> \<not> powered_up (bk_state b)) (ask_child env req wb)
        | _ \<Rightarrow> ask_child env req wb))"

definition DDR3Bank_IssueCommand :: "BankEnv \<Rightarrow> nat \<Rightarrow> bank_state \<Rightarrow> (bool \<times> bank_state) option" where
  "DDR3Bank_IssueCommand env r wb = do {
     req \<leftarrow> heap (fst wb) r;
     (ok, _, b) \<leftarrow> DDR3Bank_IsIssuable env req wb;
     let wb1 = (fst wb, b);
     if \<not> ok then Some (False, wb1)
     else (case req_type req of
        ACTIVATE \<Rightarrow> DDR3Bank_Activate env r wb1
      | READ \<Rightarrow> DDR3Bank_Read env r wb1
      | READ_PRECHARGE \<Rightarrow> DDR3Bank_Read env r wb1
      | WRITE \<Rightarrow> DDR3Bank_Write env r wb1
      | WRITE_PRECHARGE \<Rightarrow> DDR3Bank_Write env r wb1
      | PRECHARGE \<Rightarrow> DDR3Bank_Precharge env r wb1
      | PRECHARGE_ALL \<Rightarrow> DDR3Bank_Precharge env r wb1
      | REFRESH \<Rightarrow> DDR3Bank_Refresh env r wb1
      | POWERDOWN_PDA \<Rightarrow> DDR3Bank_PowerDown env r wb1
      | POWERDOWN_PDPF \<Rightarrow> DDR3Bank_PowerDown env r wb1
      | POWERDOWN_PDPS \<Rightarrow> DDR3Bank_PowerDown env r wb1
      | POWERUP \<Rightarrow> Some (DDR3Bank_PowerUp env wb1)
      | _ \<Rightarrow> do { i \<leftarrow> bank_child env b req; sub_IssueCommand env i r wb1 })
   }"

subsection \<open>Statistics\<close>

text \<open>\<^verbatim>\<open>GetChild( i )->Idle( )\<close> for every subarray, and the cycle counters of the states.\<close>

definition DDR3Bank_Idle :: "DDR3Bank \<Rightarrow> bool option" where
  "DDR3Bank_Idle b =
     (let n = unat (subArrayNum b)
      in case dropWhile (\<lambda>i. i < length (subarrays b) \<and> SubArray_Idle (subarrays b ! i)) [0..<n] of
           [] \<Rightarrow> Some True
         | i # _ \<Rightarrow> if i < length (subarrays b) then Some False else None)"

definition DDR3Bank_Cycle :: "ncycle_t \<Rightarrow> DDR3Bank \<Rightarrow> DDR3Bank" where
  "DDR3Bank_Cycle steps b = upd_bank_stats (\<lambda>st. case bk_state b of
       DDR3BANK_PDPF \<Rightarrow> st\<lparr>bk_fastExitPrechargeCycles := bk_fastExitPrechargeCycles st + steps\<rparr>
     | DDR3BANK_PDA \<Rightarrow> st\<lparr>bk_fastExitActiveCycles := bk_fastExitActiveCycles st + steps\<rparr>
     | DDR3BANK_PDPS \<Rightarrow> st\<lparr>bk_slowExitPrechargeCycles := bk_slowExitPrechargeCycles st + steps\<rparr>
     | DDR3BANK_OPEN \<Rightarrow> st\<lparr>bk_activeCycles := bk_activeCycles st + steps\<rparr>
     | DDR3BANK_CLOSED \<Rightarrow> st\<lparr>bk_standbyCycles := bk_standbyCycles st + steps\<rparr>
     | DDR3BANK_UNKNOWN \<Rightarrow> st) b"

definition DDR3Bank_CalculatePower :: "Params \<Rightarrow> ncycle_t \<Rightarrow> BankStats \<Rightarrow> BankStats" where
  "DDR3Bank_CalculatePower p simulationTime st =
     (let power = (\<lambda>e. if simulationTime = 0 then 0
                       else if EnergyModel p = ''current'' then e * Voltage p / rat_of simulationTime / 1000
                       else e / (rat_of simulationTime / 1000000000))
      in st\<lparr>bk_bankPower := power (bk_bankEnergy st), bk_activePower := power (bk_activeEnergy st),
            bk_burstPower := power (bk_burstEnergy st), bk_refreshPower := power (bk_refreshEnergy st)\<rparr>)"

definition DDR3Bank_CalculateStats :: "Params \<Rightarrow> ncycle_t \<Rightarrow> DDR3Bank \<Rightarrow> DDR3Bank option" where
  "DDR3Bank_CalculateStats p cur b = do {
     subs \<leftarrow> those (map SubArray_CalculateStats (subarrays b));
     let idealBandwidth = rat_of (CLK p * RATE p * BusWidth p);
     if unat (subArrayNum b) \<le> length subs \<and> subs \<noteq> [] then do {
       let mine = take (unat (subArrayNum b)) (map stats subs);
       let st = bk_stats b;
       let util = (if bk_activeCycles st \<noteq> 0 then rat_of (bk_dataCycles st) / rat_of (bk_activeCycles st + bk_standbyCycles st) else 0);
       let st1 = DDR3Bank_CalculatePower p cur
             (st\<lparr>bk_utilization := util,
                 bk_bankEnergy := sum_list (map subArrayEnergy mine), bk_activeEnergy := sum_list (map activeEnergy mine),
                 bk_burstEnergy := sum_list (map burstEnergy mine), bk_refreshEnergy := sum_list (map refreshEnergy mine)\<rparr>);
       Some (b\<lparr>subarrays := subs, bk_stats := st1\<lparr>
          bk_bandwidth := util * idealBandwidth, bk_powerCycles := bk_activeCycles st + bk_standbyCycles st,
          bk_actWaitAverage := rat_of (bk_actWaitTotal st) / rat_of (bk_actWaits st),
          bk_worstCaseEndurance := fold min (map (worstCaseEndurance \<circ> stats) subs) (- 1),
          bk_averageEndurance := sum_list (map (averageEndurance \<circ> stats) subs) div of_nat (length subs)\<rparr>\<rparr>)
     }
     else None
   }"

end
