(* ===== verification/DDR3_Bank_Contract.thy ===== *)
theory DDR3_Bank_Contract
  imports DDR3_Bank
begin

text \<open>
  The bank keeps the command contract: given the contract of its subarrays, \<^verbatim>\<open>IsIssuable\<close>
  decides the specification \<open>bank_can\<close>, and \<^verbatim>\<open>IssueCommand\<close> carries out what was promised,
  \<^verbatim>\<open>PRECHARGE_ALL\<close> with its chain of child commands included.
\<close>

subsection \<open>What a bank keeps true of itself\<close>

fun bank_earliest :: "DDR3Bank \<Rightarrow> command_class \<Rightarrow> ncycle_t" where
  "bank_earliest b C_ACT = bk_nextActivate b"
| "bank_earliest b C_READ = bk_nextRead b"
| "bank_earliest b C_WRITE = bk_nextWrite b"
| "bank_earliest b C_PRE = bk_nextPrecharge b"
| "bank_earliest b C_PD = bk_nextPowerDown b"
| "bank_earliest b C_NONE = 0"

text \<open>The specification of the command interface of a bank: the timing constraint of the
  command's class, the state of the bank, and the answers of the subarrays concerned.\<close>

definition bank_can :: "BankEnv \<Rightarrow> ncycle_t \<Rightarrow> NVMainRequest \<Rightarrow> DDR3Bank \<Rightarrow> bool" where
  "bank_can env cur req b \<longleftrightarrow> bk_nextCommand b = CMD_NOP \<and> bank_earliest b (class_of (req_type req)) \<le> cur
     \<and> (let accepts_at = (\<lambda>i. can_issue (bk_prm env) cur req (subarrays b ! i));
            here = accepts_at (unat (subarray (address req)));
            everywhere = (\<forall>i < length (subarrays b). accepts_at i)
        in case req_type req of
             PRECHARGE_ALL \<Rightarrow> powered_up (bk_state b) \<and> (\<forall>sa \<in> set (activeSubArrayQueue b). accepts_at (unat sa))
           | POWERDOWN_PDA \<Rightarrow> powered_up (bk_state b) \<and> everywhere
           | POWERDOWN_PDPF \<Rightarrow> bk_state b = DDR3BANK_CLOSED \<and> everywhere
           | POWERDOWN_PDPS \<Rightarrow> bk_state b = DDR3BANK_CLOSED \<and> everywhere
           | POWERUP \<Rightarrow> powered_down (bk_state b) \<and> bk_nextPowerUp b \<le> cur \<and> everywhere
           | _ \<Rightarrow> (if class_of (req_type req) = C_READ \<or> class_of (req_type req) = C_WRITE
                   then bk_state b = DDR3BANK_OPEN else powered_up (bk_state b)) \<and> here)"

text \<open>The active subarrays are listed once and are open; the bank is open, or in active
  power-down, exactly when there is one.\<close>

definition bank_ok :: "DDR3Bank \<Rightarrow> bool" where
  "bank_ok b \<longleftrightarrow> distinct (activeSubArrayQueue b) \<and> bk_state b \<noteq> DDR3BANK_UNKNOWN
     \<and> (\<forall>sa \<in> set (activeSubArrayQueue b). unat sa < length (subarrays b) \<and> state (subarrays b ! unat sa) = SUBARRAY_OPEN)
     \<and> (bk_state b = DDR3BANK_OPEN \<or> bk_state b = DDR3BANK_PDA \<longleftrightarrow> activeSubArrayQueue b \<noteq> [])"

definition bank_fine :: "BankEnv \<Rightarrow> nat \<Rightarrow> DDR3Bank \<Rightarrow> bool" where
  "bank_fine env n b \<longleftrightarrow> bank_ok b \<and> bk_nextCommand b = CMD_NOP \<and> length (subarrays b) = n \<and> unat (subArrayNum b) = n
     \<and> UsePrecharge (bk_prm env)
     \<and> (\<exists>t. bk_decoder env = Some t \<and> defaultField t = SUBARRAY_FIELD)
     \<and> (\<forall>i < n. sub_fine (bk_sub env i) (subarrays b ! i) \<and> prm (bk_sub env i) = bk_prm env)"

text \<open>A request names a subarray of the bank, and a write carries the whole line.\<close>

definition bank_fits :: "BankEnv \<Rightarrow> nat \<Rightarrow> NVMainRequest \<Rightarrow> bool" where
  "bank_fits env n req \<longleftrightarrow> translated (address req) \<and> unat (subarray (address req)) < n
     \<and> (class_of (req_type req) = C_WRITE \<longrightarrow> line_fits (bk_prm env) req)"

lemma bank_child_fits:
  assumes "bank_fine env n b" and "bank_fits env n req"
  shows "bank_child env b req = Some (unat (subarray (address req)))"
  using assms by (auto simp: GetChild_def bank_fine_def bank_fits_def Translate_request_def select_field_def address_field_def)

subsection \<open>Asking\<close>

text \<open>A bank that only counted: statistics apart, everything decides as before.\<close>

definition sub_like :: "SubArray \<Rightarrow> SubArray \<Rightarrow> bool" where
  "sub_like s s' \<longleftrightarrow> (\<exists>f. s' = upd_stats f s)"

definition bank_like :: "DDR3Bank \<Rightarrow> DDR3Bank \<Rightarrow> bool" where
  "bank_like b b' \<longleftrightarrow> (\<exists>st. b' = b\<lparr>subarrays := subarrays b', bk_stats := st\<rparr>) \<and> list_all2 sub_like (subarrays b) (subarrays b')"

lemma can_issue_stats [simp]: "can_issue p cur req (upd_stats f s) = can_issue p cur req s"
  by (cases "req_type req") (simp_all add: can_issue_def upd_stats_def)

lemma sub_fine_stats [simp]: "sub_fine env (upd_stats f s) = sub_fine env s"
  by (simp add: sub_fine_def plain_writes_def)

lemma state_stats [simp]: "state (upd_stats f s) = state s"
  by (simp add: upd_stats_def)

lemma sub_like_refl [simp]: "sub_like s s"
  unfolding sub_like_def by (rule exI [of _ "\<lambda>x. x"]) (simp add: upd_stats_def)

lemma sub_like_trans: "sub_like s s' \<Longrightarrow> sub_like s' s'' \<Longrightarrow> sub_like s s''"
  unfolding sub_like_def upd_stats_def by (elim exE, rule_tac x = "fa \<circ> f" in exI) simp

lemma bank_like_refl [simp]: "bank_like b b"
  unfolding bank_like_def by (intro conjI exI [of _ "bk_stats b"]) (simp_all add: list_all2_refl)

lemma bank_like_trans: "bank_like b b' \<Longrightarrow> bank_like b' b'' \<Longrightarrow> bank_like b b''"
  unfolding bank_like_def by (cases b; cases b'; cases b'') (auto intro: list_all2_trans [OF sub_like_trans])

lemma bank_like_stats [simp]: "bank_like b (upd_bank_stats f b)"
  unfolding bank_like_def upd_bank_stats_def by (auto simp: list_all2_refl)

lemma bank_like_sub: "i < length (subarrays b) \<Longrightarrow> bank_like b (b\<lparr>subarrays := (subarrays b)[i := upd_stats f (subarrays b ! i)]\<rparr>)"
  unfolding bank_like_def
  by (intro conjI exI [of _ "bk_stats b"]) (auto simp: list_all2_conv_all_nth nth_list_update sub_like_def [of "subarrays b ! i"])

lemma bank_likeE:
  assumes "bank_like b b'"
  obtains st where "b' = b\<lparr>subarrays := subarrays b', bk_stats := st\<rparr>" and "length (subarrays b') = length (subarrays b)"
    and "\<And>i. i < length (subarrays b) \<Longrightarrow> \<exists>f. subarrays b' ! i = upd_stats f (subarrays b ! i)"
  using assms unfolding bank_like_def list_all2_conv_all_nth sub_like_def by metis

lemma bank_like_fine:
  assumes "bank_like b b'"
  shows "bank_fine env n b' = bank_fine env n b"
    and "bank_fine env n b \<Longrightarrow> bank_fits env n req \<Longrightarrow> bank_can env cur req b' = bank_can env cur req b"
proof -
  obtain st where b': "b' = b\<lparr>subarrays := subarrays b', bk_stats := st\<rparr>" and len: "length (subarrays b') = length (subarrays b)"
    and sub: "\<And>i. i < length (subarrays b) \<Longrightarrow> \<exists>f. subarrays b' ! i = upd_stats f (subarrays b ! i)"
    by (rule bank_likeE [OF assms]) blast
  have f: "bk_state b' = bk_state b" "activeSubArrayQueue b' = activeSubArrayQueue b" "subArrayNum b' = subArrayNum b"
    "bk_nextCommand b' = bk_nextCommand b" "bank_earliest b' c = bank_earliest b c" "bk_nextPowerUp b' = bk_nextPowerUp b" for c
    by (subst b', simp)+ (subst b', cases c; simp)+
  have s: "state (subarrays b' ! i) = state (subarrays b ! i)" "sub_fine e (subarrays b' ! i) = sub_fine e (subarrays b ! i)"
    "can_issue p cur req (subarrays b' ! i) = can_issue p cur req (subarrays b ! i)" if "i < length (subarrays b)" for i e p cur req
    using sub [OF that] by auto
  show "bank_fine env n b' = bank_fine env n b"
    unfolding bank_fine_def bank_ok_def f len by (auto simp: s)
  show "bank_can env cur req b' = bank_can env cur req b" if "bank_fine env n b" "bank_fits env n req"
    using that unfolding bank_can_def f len Let_def
    by (cases "req_type req") (auto simp: s bank_fine_def bank_ok_def bank_fits_def)
qed

lemma sub_IsIssuable_spec:
  assumes "bank_fine env n b" and "i < n"
  shows "\<exists>reason b'. sub_IsIssuable env i req (w, b) = Some (can_issue (bk_prm env) (now w) req (subarrays b ! i), reason, b') \<and> bank_like b b'"
proof -
  have i: "\<not> (WritePausing (prm (bk_sub env i)) \<and> isWriting (subarrays b ! i))" "prm (bk_sub env i) = bk_prm env" "i < length (subarrays b)"
    using assms by (auto simp: bank_fine_def sub_fine_def)
  from SubArray_IsIssuable_decides [OF i(1), of req w] i(2,3) show ?thesis
    by (auto simp: sub_IsIssuable_def bank_like_sub)
qed

lemma subs_issuable_spec:
  assumes "bank_fine env n b" and "\<forall>i \<in> set is. i < n"
  shows "\<exists>reason b'. subs_issuable env is req (w, b) =
      Some (\<forall>i \<in> set is. can_issue (bk_prm env) (now w) req (subarrays b ! i), reason, b') \<and> bank_like b b'"
  using assms
proof (induction "is" arbitrary: b)
  case Nil
  then show ?case by simp
next
  case (Cons i "is")
  obtain reason b1 where a: "sub_IsIssuable env i req (w, b) = Some (can_issue (bk_prm env) (now w) req (subarrays b ! i), reason, b1)"
    and l: "bank_like b b1"
    using sub_IsIssuable_spec [OF Cons.prems(1), of i req w] Cons.prems(2) by auto
  have "can_issue (bk_prm env) (now w) req (subarrays b1 ! j) = can_issue (bk_prm env) (now w) req (subarrays b ! j)" if "j < n" for j
    using bank_likeE [OF l] that Cons.prems(1) by (metis bank_fine_def can_issue_stats)
  with Cons.IH [of b1] bank_like_fine(1) [OF l] Cons.prems l a show ?case
    by (auto intro: bank_like_trans)
qed

lemma DDR3Bank_IsIssuable_spec:
  assumes "bank_fine env n b" and "bank_fits env n req"
  shows "\<exists>reason b'. DDR3Bank_IsIssuable env req (w, b) = Some (bank_can env (now w) req b, reason, b') \<and> bank_like b b'"
proof -
  let ?i = "unat (subarray (address req))"
  have b: "unat (subArrayNum b) = n" "length (subarrays b) = n" "bk_state b \<noteq> DDR3BANK_UNKNOWN" "\<forall>sa \<in> set (activeSubArrayQueue b). unat sa < n" "?i < n"
    using assms by (auto simp: bank_fine_def bank_ok_def bank_fits_def)
  have child: "\<exists>reason b'. ask_child env req (w, b) = Some (can_issue (bk_prm env) (now w) req (subarrays b ! ?i), reason, b') \<and> bank_like b b'"
    using sub_IsIssuable_spec [OF assms(1) b(5), of req w] by (simp add: ask_child_def bank_child_fits [OF assms])
  have all: "\<exists>reason b'. ask_all_children env req blocked (w, b) =
      Some (ok, reason, b') \<and> bank_like b b'"
    if "ok \<longleftrightarrow> \<not> blocked \<and> (\<forall>i < n. can_issue (bk_prm env) (now w) req (subarrays b ! i))" for ok blocked
    using that subs_issuable_spec [OF assms(1), of "[0..<n]" req w] by (force simp: ask_all_children_def b(1))
  have active: "\<exists>reason b'. subs_issuable env (map unat (activeSubArrayQueue b)) req (w, b) =
      Some (\<forall>sa \<in> set (activeSubArrayQueue b). can_issue (bk_prm env) (now w) req (subarrays b ! unat sa), reason, b') \<and> bank_like b b'"
    using subs_issuable_spec [OF assms(1), of "map unat (activeSubArrayQueue b)" req w] b(4) by simp
  have none: "\<not> can_issue p cur req s" if "class_of (req_type req) = C_NONE" "req_type req \<noteq> POWERUP" for p cur s
    using that by (cases "req_type req") (simp_all add: can_issue_def)
  have st: "powered_down (bk_state b) \<longleftrightarrow> \<not> powered_up (bk_state b)"
    using b(3) by (cases "bk_state b") (simp_all add: powered_up_def powered_down_def)
  show ?thesis
  proof (cases "bk_nextCommand b = CMD_NOP")
    case False
    then show ?thesis by (simp add: DDR3Bank_IsIssuable_def bank_can_def)
  next
    case True
    show ?thesis
      using child active none
      by (cases "req_type req") (auto simp: DDR3Bank_IsIssuable_def bank_can_def True Let_def not_less st b(2) powered_up_def intro!: all)
  qed
qed

subsection \<open>Issuing\<close>

definition subs_fine :: "BankEnv \<Rightarrow> nat \<Rightarrow> DDR3Bank \<Rightarrow> bool" where
  "subs_fine env n b \<longleftrightarrow> length (subarrays b) = n \<and> (\<forall>i < n. sub_fine (bk_sub env i) (subarrays b ! i) \<and> prm (bk_sub env i) = bk_prm env)"

lemma bank_fine_subs:
  "bank_fine env n b \<longleftrightarrow> subs_fine env n b \<and> bank_ok b \<and> bk_nextCommand b = CMD_NOP \<and> unat (subArrayNum b) = n \<and> UsePrecharge (bk_prm env)
     \<and> (\<exists>t. bk_decoder env = Some t \<and> defaultField t = SUBARRAY_FIELD)"
  by (auto simp: bank_fine_def subs_fine_def)

lemma subs_fine_sub:
  "subs_fine env n b \<Longrightarrow> i < n \<Longrightarrow> sub_fine (bk_sub env i) s' \<Longrightarrow> subs_fine env n (b\<lparr>subarrays := (subarrays b)[i := s']\<rparr>)"
  by (simp add: subs_fine_def nth_list_update)

lemma bank_ok_sub:
  assumes "bank_ok b" and "subarrays b' = (subarrays b)[i := s']" and "i < length (subarrays b)"
    and "distinct (activeSubArrayQueue b')" and "bk_state b' \<noteq> DDR3BANK_UNKNOWN"
    and "bk_state b' = DDR3BANK_OPEN \<or> bk_state b' = DDR3BANK_PDA \<longleftrightarrow> activeSubArrayQueue b' \<noteq> []"
    and "\<And>sa. sa \<in> set (activeSubArrayQueue b') \<Longrightarrow> if unat sa = i then state s' = SUBARRAY_OPEN else sa \<in> set (activeSubArrayQueue b)"
  shows "bank_ok b'"
proof -
  have "unat sa < length (subarrays b') \<and> state (subarrays b' ! unat sa) = SUBARRAY_OPEN" if "sa \<in> set (activeSubArrayQueue b')" for sa
    using assms(1,3) assms(7) [OF that] by (auto simp: assms(2) bank_ok_def nth_list_update split: if_splits)
  with assms(4-6) show ?thesis
    by (simp add: bank_ok_def)
qed

lemma sub_IssueCommand_spec:
  assumes "subs_fine env n b" and "i < n" and "world_ready w" and "heap w r = Some req"
    and "class_of (req_type req) = C_WRITE \<longrightarrow> line_fits (bk_prm env) req"
  shows "\<exists>w' s'. sub_IssueCommand env i r (w, b) =
      Some (can_issue (bk_prm env) (now w) req (subarrays b ! i), w', b\<lparr>subarrays := (subarrays b)[i := s']\<rparr>)
    \<and> world_step w w' \<and> world_ready w' \<and> sub_fine (bk_sub env i) s'
    \<and> state s' = (if can_issue (bk_prm env) (now w) req (subarrays b ! i) then state_after (req_type req) (state (subarrays b ! i))
                  else state (subarrays b ! i))"
proof -
  have i: "sub_fine (bk_sub env i) (subarrays b ! i)" "prm (bk_sub env i) = bk_prm env" "i < length (subarrays b)"
    using assms(1,2) by (auto simp: subs_fine_def)
  have f: "sub_fits (bk_sub env i) req"
    using assms(5) i(2) by (simp add: sub_fits_def)
  from sub.issue_decides [OF assms(3) i(1) assms(4) f] obtain w' s' where
    s': "SubArray_IssueCommand (bk_sub env i) r (w, subarrays b ! i) = Some (can_issue (bk_prm env) (now w) req (subarrays b ! i), w', s')"
    "world_step w w'" "world_ready w'" "sub_fine (bk_sub env i) s'"
    using i(2) by auto
  moreover have "world_ok w"
    using assms(3) by (simp add: world_ready_def)
  note returnsD [OF SubArray_IssueCommand_state [OF i(1) this assms(4)] s'(1)]
  ultimately show ?thesis
    using i(3) by (auto simp: sub_IssueCommand_def)
qed

text \<open>The result of a command: accepted, with the world advanced and the bank as it should be.\<close>

definition bank_done :: "BankEnv \<Rightarrow> nat \<Rightarrow> World \<Rightarrow> bool \<times> bank_state \<Rightarrow> bool" where
  "bank_done env n w x \<longleftrightarrow> fst x \<and> world_step w (fst (snd x)) \<and> world_ready (fst (snd x)) \<and> bank_fine env n (snd (snd x))"

lemma can_issue_class:
  assumes "can_issue p cur req s"
  shows "req_type req = ACTIVATE \<Longrightarrow> UsePrecharge p \<Longrightarrow> state s = SUBARRAY_CLOSED"
    "req_type req = REFRESH \<Longrightarrow> UsePrecharge p \<Longrightarrow> state s = SUBARRAY_CLOSED"
    "class_of (req_type req) = C_READ \<Longrightarrow> state s = SUBARRAY_OPEN"
    "class_of (req_type req) = C_WRITE \<Longrightarrow> state s = SUBARRAY_OPEN"
  using assms by (cases "req_type req"; simp add: can_issue_def)+

lemma queue_not_closed:
  assumes "bank_ok b" and "state (subarrays b ! unat sa) \<noteq> SUBARRAY_OPEN"
  shows "sa \<notin> set (activeSubArrayQueue b)"
  using assms by (auto simp: bank_ok_def)

lemma bank_child_issue:
  assumes "bank_fine env n b" and "world_ready w" and "heap w r = Some req" and "bank_fits env n req"
    and "can_issue (bk_prm env) (now w) req (subarrays b ! unat (subarray (address req)))" and "subarrays b1 = subarrays b"
  obtains w' s' where "sub_IssueCommand env (unat (subarray (address req))) r (w, b1) =
      Some (True, w', b1\<lparr>subarrays := (subarrays b)[unat (subarray (address req)) := s']\<rparr>)"
    and "world_step w w'" and "world_ready w'" and "sub_fine (bk_sub env (unat (subarray (address req)))) s'"
    and "state s' = state_after (req_type req) (state (subarrays b ! unat (subarray (address req))))"
    and "bank_child env b1 req = Some (unat (subarray (address req)))"
proof -
  have "subs_fine env n b1" "unat (subarray (address req)) < n"
    using assms(1,4,6) by (auto simp: bank_fine_subs subs_fine_def bank_fits_def)
  from sub_IssueCommand_spec [OF this assms(2,3)] assms(4-6) bank_child_fits [OF assms(1,4)] that show ?thesis
    by (auto simp: bank_fits_def)
qed

lemma bank_fine_result:
  assumes "bank_fine env n b" and "i < n" and "sub_fine (bk_sub env i) s'" and "subarrays b' = (subarrays b)[i := s']"
    and "subArrayNum b' = subArrayNum b" and "bk_nextCommand b' = bk_nextCommand b" and "bank_ok b'"
  shows "bank_fine env n b'"
  using assms by (auto simp: bank_fine_def nth_list_update)

lemma bank_ok_opened:
  fixes sa :: ncounter_t
  assumes "bank_ok b" and "subarrays b' = (subarrays b)[unat sa := s']" and "unat sa < length (subarrays b)" and "state s' = SUBARRAY_OPEN"
    and "sa \<notin> set (activeSubArrayQueue b)" and "activeSubArrayQueue b' = sa # activeSubArrayQueue b" and "bk_state b' = DDR3BANK_OPEN"
  shows "bank_ok b'"
  using assms by (rule_tac bank_ok_sub [OF assms(1-3)]) (auto simp: bank_ok_def)

lemma bank_ok_closed:
  fixes sa :: ncounter_t
  assumes "bank_ok b" and "subarrays b' = (subarrays b)[unat sa := s']" and "unat sa < length (subarrays b)" and "powered_up (bk_state b)"
    and "activeSubArrayQueue b' = remove1 sa (activeSubArrayQueue b)"
    and "bk_state b' = (if remove1 sa (activeSubArrayQueue b) = [] then DDR3BANK_CLOSED else bk_state b)"
  shows "bank_ok b'"
  using assms by (rule_tac bank_ok_sub [OF assms(1-3)]) (auto simp: bank_ok_def powered_up_def dest!: word_unat_eq_iff [THEN iffD2])

lemma bank_ok_kept:
  fixes sa :: ncounter_t
  assumes "bank_ok b" and "subarrays b' = (subarrays b)[unat sa := s']" and "unat sa < length (subarrays b)"
    and "state s' = state (subarrays b ! unat sa) \<or> state (subarrays b ! unat sa) \<noteq> SUBARRAY_OPEN"
    and "activeSubArrayQueue b' = activeSubArrayQueue b" and "bk_state b' = bk_state b"
  shows "bank_ok b'"
  using assms queue_not_closed [OF assms(1), of sa] by (rule_tac bank_ok_sub [OF assms(1-3)]) (auto simp: bank_ok_def dest!: word_unat_eq_iff [THEN iffD2])

lemma bank_fitsD:
  assumes "bank_fine env n b" and "bank_fits env n req"
  shows "unat (subarray (address req)) < n" "unat (subarray (address req)) < length (subarrays b)" "bank_ok b" "UsePrecharge (bk_prm env)"
  using assms by (auto simp: bank_fine_def bank_fits_def)

lemmas bank_result_defs = bank_done_def upd_bank_stats_def close_if_empty_def close_subarray_def

lemma DDR3Bank_Activate_done:
  assumes fine: "bank_fine env n b" and w: "world_ready w" "heap w r = Some req" and fits: "bank_fits env n req"
    and can: "bank_can env (now w) req b" and ty: "req_type req = ACTIVATE"
  shows "succeeds (DDR3Bank_Activate env r (w, b)) (bank_done env n w)"
proof -
  let ?sa = "subarray (address req)" and ?b = "b\<lparr>bk_nextPowerDown := max (bk_nextPowerDown b) (now w + tRCD (bk_prm env))\<rparr>"
  note n = bank_fitsD [OF fine fits]
  have b: "bk_nextActivate b \<le> now w" "can_issue (bk_prm env) (now w) req (subarrays b ! unat ?sa)" "powered_up (bk_state b)"
    using can ty by (auto simp: bank_can_def Let_def)
  have "\<not> (bk_state b \<noteq> DDR3BANK_CLOSED \<and> activeSubArrayQueue b = [])" "?sa \<notin> set (activeSubArrayQueue b)"
    using n(3) b(3) queue_not_closed [OF n(3), of ?sa] can_issue_class(1) [OF b(2) ty n(4)] by (auto simp: bank_ok_def powered_up_def)
  moreover obtain w' s' where i: "sub_IssueCommand env (unat ?sa) r (w, ?b) = Some (True, w', ?b\<lparr>subarrays := (subarrays b)[unat ?sa := s']\<rparr>)"
    "world_step w w'" "world_ready w'" "sub_fine (bk_sub env (unat ?sa)) s'" "state s' = state_after (req_type req) (state (subarrays b ! unat ?sa))"
    "bank_child env ?b req = Some (unat ?sa)"
    by (rule bank_child_issue [OF fine w fits b(2), of ?b], simp) (rule that)
  ultimately show ?thesis
    using b(1) w(2) n ty by (auto simp: DDR3Bank_Activate_def Let_def not_less bank_result_defs
        intro!: bank_fine_result [OF fine n(1) i(4)] bank_ok_opened [OF n(3), of _ ?sa s'])
qed

lemma bank_timing_simps [simp]:
  "subarrays (bank_read_timing p cur req b) = subarrays b" "activeSubArrayQueue (bank_read_timing p cur req b) = activeSubArrayQueue b"
  "bk_state (bank_read_timing p cur req b) = bk_state b" "subArrayNum (bank_read_timing p cur req b) = subArrayNum b"
  "bk_nextCommand (bank_read_timing p cur req b) = bk_nextCommand b" "bk_nextCommand (bank_write_timing p cur req b) = bk_nextCommand b"
  "bk_nextPowerUp (bank_read_timing p cur req b) = bk_nextPowerUp b" "bk_nextPowerUp (bank_write_timing p cur req b) = bk_nextPowerUp b"
  "subarrays (bank_write_timing p cur req b) = subarrays b" "activeSubArrayQueue (bank_write_timing p cur req b) = activeSubArrayQueue b"
  "bk_state (bank_write_timing p cur req b) = bk_state b" "subArrayNum (bank_write_timing p cur req b) = subArrayNum b"
  by (simp_all add: bank_read_timing_def bank_write_timing_def Let_def)

lemma DDR3Bank_Read_done:
  assumes fine: "bank_fine env n b" and w: "world_ready w" "heap w r = Some req" and fits: "bank_fits env n req"
    and can: "bank_can env (now w) req b" and ty: "req_type req = READ \<or> req_type req = READ_PRECHARGE"
  shows "succeeds (DDR3Bank_Read env r (w, b)) (bank_done env n w)"
proof -
  let ?sa = "subarray (address req)" and ?b = "bank_read_timing (bk_prm env) (now w) req b"
  note n = bank_fitsD [OF fine fits]
  have b: "bk_nextRead b \<le> now w" "can_issue (bk_prm env) (now w) req (subarrays b ! unat ?sa)" "bk_state b = DDR3BANK_OPEN"
    using can ty by (auto simp: bank_can_def Let_def)
  obtain w' s' where i: "sub_IssueCommand env (unat ?sa) r (w, ?b) = Some (True, w', ?b\<lparr>subarrays := (subarrays b)[unat ?sa := s']\<rparr>)"
    "world_step w w'" "world_ready w'" "sub_fine (bk_sub env (unat ?sa)) s'" "state s' = state_after (req_type req) (state (subarrays b ! unat ?sa))"
    "bank_child env ?b req = Some (unat ?sa)"
    by (rule bank_child_issue [OF fine w fits b(2), of ?b], simp) (rule that)
  show ?thesis
  proof (cases "req_type req = READ_PRECHARGE")
    case True
    with i b(1,3) w(2) n show ?thesis
      by (auto simp: DDR3Bank_Read_def Let_def not_less bank_result_defs powered_up_def
          intro!: bank_fine_result [OF fine n(1) i(4)] bank_ok_closed [OF n(3), of _ ?sa s'])
  next
    case False
    with i b(1,3) w(2) n ty show ?thesis
      by (auto simp: DDR3Bank_Read_def Let_def not_less bank_result_defs
          intro!: bank_fine_result [OF fine n(1) i(4)] bank_ok_kept [OF n(3), of _ ?sa s'])
  qed
qed

lemma DDR3Bank_Write_done:
  assumes fine: "bank_fine env n b" and w: "world_ready w" "heap w r = Some req" and fits: "bank_fits env n req"
    and can: "bank_can env (now w) req b" and ty: "req_type req = WRITE \<or> req_type req = WRITE_PRECHARGE"
  shows "succeeds (DDR3Bank_Write env r (w, b)) (bank_done env n w)"
proof -
  let ?sa = "subarray (address req)" and ?b = "bank_write_timing (bk_prm env) (now w) req b"
  note n = bank_fitsD [OF fine fits]
  have b: "bk_nextWrite b \<le> now w" "can_issue (bk_prm env) (now w) req (subarrays b ! unat ?sa)" "bk_state b = DDR3BANK_OPEN"
    using can ty by (auto simp: bank_can_def Let_def)
  obtain w' s' where i: "sub_IssueCommand env (unat ?sa) r (w, ?b) = Some (True, w', ?b\<lparr>subarrays := (subarrays b)[unat ?sa := s']\<rparr>)"
    "world_step w w'" "world_ready w'" "sub_fine (bk_sub env (unat ?sa)) s'" "state s' = state_after (req_type req) (state (subarrays b ! unat ?sa))"
    "bank_child env ?b req = Some (unat ?sa)"
    by (rule bank_child_issue [OF fine w fits b(2), of ?b], simp) (rule that)
  show ?thesis
  proof (cases "req_type req = WRITE_PRECHARGE")
    case True
    with i b(1,3) w(2) n show ?thesis
      by (auto simp: DDR3Bank_Write_def Let_def not_less bank_result_defs powered_up_def
          intro!: bank_fine_result [OF fine n(1) i(4)] bank_ok_closed [OF n(3), of _ ?sa s'])
  next
    case False
    with i b(1,3) w(2) n ty show ?thesis
      by (auto simp: DDR3Bank_Write_def Let_def not_less bank_result_defs
          intro!: bank_fine_result [OF fine n(1) i(4)] bank_ok_kept [OF n(3), of _ ?sa s'])
  qed
qed

lemma DDR3Bank_Refresh_done:
  assumes fine: "bank_fine env n b" and w: "world_ready w" "heap w r = Some req" and fits: "bank_fits env n req"
    and can: "bank_can env (now w) req b" and ty: "req_type req = REFRESH"
  shows "succeeds (DDR3Bank_Refresh env r (w, b)) (bank_done env n w)"
proof -
  let ?sa = "subarray (address req)" and ?b = "b\<lparr>bk_nextPowerDown := max (bk_nextPowerDown b) (now w + tRFC (bk_prm env))\<rparr>"
  note n = bank_fitsD [OF fine fits]
  have b: "bk_nextActivate b \<le> now w" "can_issue (bk_prm env) (now w) req (subarrays b ! unat ?sa)"
    using can ty by (auto simp: bank_can_def Let_def)
  have c: "state (subarrays b ! unat ?sa) \<noteq> SUBARRAY_OPEN"
    using can_issue_class(2) [OF b(2) ty n(4)] by simp
  obtain w' s' where i: "sub_IssueCommand env (unat ?sa) r (w, ?b) = Some (True, w', ?b\<lparr>subarrays := (subarrays b)[unat ?sa := s']\<rparr>)"
    "world_step w w'" "world_ready w'" "sub_fine (bk_sub env (unat ?sa)) s'" "state s' = state_after (req_type req) (state (subarrays b ! unat ?sa))"
    "bank_child env ?b req = Some (unat ?sa)"
    by (rule bank_child_issue [OF fine w fits b(2), of ?b], simp) (rule that)
  then show ?thesis
    using b(1) w(2) n c by (auto simp: DDR3Bank_Refresh_def Let_def not_less bank_result_defs
        intro!: bank_fine_result [OF fine n(1) i(4)] bank_ok_kept [OF n(3), of _ ?sa s'])
qed

lemma bank_fine_power:
  assumes "bank_fine env n b" and "subarrays b' = subarrays b" and "subArrayNum b' = subArrayNum b" and "activeSubArrayQueue b' = activeSubArrayQueue b"
    and "bk_nextCommand b' = bk_nextCommand b" and "bk_state b' \<noteq> DDR3BANK_UNKNOWN" and "bk_state b' = DDR3BANK_OPEN \<or> bk_state b' = DDR3BANK_PDA \<longleftrightarrow> activeSubArrayQueue b \<noteq> []"
  shows "bank_fine env n b'"
  using assms by (auto simp: bank_fine_def bank_ok_def)

lemma DDR3Bank_PowerDown_done:
  assumes fine: "bank_fine env n b" and w: "world_ready w" "heap w r = Some req"
    and can: "bank_can env (now w) req b" and ty: "class_of (req_type req) = C_PD"
  shows "succeeds (DDR3Bank_PowerDown env r (w, b)) (bank_done env n w)"
proof -
  have st: "bk_state b = DDR3BANK_OPEN \<or> bk_state b = DDR3BANK_PDA \<longleftrightarrow> activeSubArrayQueue b \<noteq> []"
    using fine by (simp add: bank_fine_def bank_ok_def)
  have b: "bk_nextPowerDown b \<le> now w" "bk_state b = DDR3BANK_CLOSED \<or> bk_state b = DDR3BANK_OPEN \<and> req_type req = POWERDOWN_PDA"
    using can ty by (cases "req_type req"; auto simp: bank_can_def Let_def powered_up_def)+
  have "world_step w w"
    using w(1) by (simp add: world_ready_def world_step_refl)
  with b w st show ?thesis
    by (auto simp: DDR3Bank_PowerDown_def Let_def bank_done_def intro!: bank_fine_power [OF fine])
qed

lemma DDR3Bank_PowerUp_done:
  assumes fine: "bank_fine env n b" and w: "world_ready w" and can: "bank_can env (now w) req b" and ty: "req_type req = POWERUP"
  shows "bank_done env n w (DDR3Bank_PowerUp env (w, b))"
proof -
  have st: "bk_state b = DDR3BANK_OPEN \<or> bk_state b = DDR3BANK_PDA \<longleftrightarrow> activeSubArrayQueue b \<noteq> []"
    using fine by (simp add: bank_fine_def bank_ok_def)
  have b: "bk_nextPowerUp b \<le> now w" "powered_down (bk_state b)"
    using can ty by (auto simp: bank_can_def Let_def)
  have "world_step w w"
    using w by (simp add: world_ready_def world_step_refl)
  with b w st show ?thesis
    by (auto simp: DDR3Bank_PowerUp_def Let_def bank_done_def powered_down_def intro!: bank_fine_power [OF fine])
qed

text \<open>What a command may accept depends on the kind of the request only.\<close>

lemma can_issue_kind:
  "req_type req' = req_type req \<Longrightarrow> address req' = address req \<Longrightarrow> can_issue p cur req' s = can_issue p cur req s"
  by (cases "req_type req") (simp_all add: can_issue_def)

lemma world_step_request:
  assumes "world_step w w'" and "world_ok w" and "heap w r = Some req"
  obtains req' where "heap w' r = Some req'" and "req_kind req' = req_kind req"
  using world_step_live [OF assms] that by blast

lemma precharge_all_loop_done:
  assumes "subs_fine env n b" and "world_ready w" and "heap w r = Some req" and "req_type req = PRECHARGE_ALL"
    and "distinct sas" and "\<forall>sa \<in> set sas. unat sa < n \<and> can_issue (bk_prm env) (now w) req (subarrays b ! unat sa)"
  shows "\<exists>w' subs. precharge_all_loop env r sas (w, b) =
      Some (True, w', b\<lparr>subarrays := subs, activeSubArrayQueue := (if sas = [] then activeSubArrayQueue b else [])\<rparr>)
    \<and> world_step w w' \<and> world_ready w' \<and> subs_fine env n (b\<lparr>subarrays := subs\<rparr>)"
  using assms
proof (induction env r sas "(w, b)" arbitrary: w b req rule: precharge_all_loop.induct)
  case (1 env r w b)
  then show ?case
    by (intro exI [of _ w] exI [of _ "subarrays b"]) (simp add: world_ready_def world_step_refl)
next
  case (2 env r sa w b)
  have sa: "unat sa < n" "can_issue (bk_prm env) (now w) req (subarrays b ! unat sa)"
    using 2(6) by auto
  have "subs_fine env n (b\<lparr>activeSubArrayQueue := []\<rparr>)"
    using 2(1) by (simp add: subs_fine_def)
  from sub_IssueCommand_spec [OF this sa(1) 2(2,3)] sa 2(4) obtain w' s' where
    "sub_IssueCommand env (unat sa) r (w, b\<lparr>activeSubArrayQueue := []\<rparr>) =
       Some (True, w', b\<lparr>activeSubArrayQueue := [], subarrays := (subarrays b)[unat sa := s']\<rparr>)"
    "world_step w w'" "world_ready w'" "sub_fine (bk_sub env (unat sa)) s'"
    by auto
  with subs_fine_sub [OF 2(1) sa(1)] show ?case
    by (intro exI [of _ w'] exI [of _ "(subarrays b)[unat sa := s']"]) simp
next
  case (3 env r sa sa' sas w b)
  let ?sas = "sa' # sas" and ?b = "b\<lparr>activeSubArrayQueue := sa' # sas\<rparr>"
  have sa: "unat sa < n" "can_issue (bk_prm env) (now w) req (subarrays b ! unat sa)" and w: "world_ok w"
    using 3(3,7) by (auto simp: world_ready_def)
  let ?c = "req\<lparr>flags := 0, burstCount := 1, writeProgress := 0, cancellations := 0, owner := Some (bk_self env)\<rparr>"
  define w1 where "w1 = w\<lparr>heap := (heap w)(next_ref w \<mapsto> ?c), next_ref := Suc (next_ref w)\<rparr>"
  have c: "copy_request r (\<lambda>c. c\<lparr>owner := Some (bk_self env)\<rparr>) w = Some (next_ref w, w1)"
    using copy_request_fresh [OF w 3(4)] by (simp add: w1_def)
  have w1: "world_step w w1" "now w1 = now w" "heap w1 (next_ref w) = Some ?c" "world_ready w1"
    using copy_request_step [OF c world_step_refl [OF w]] copy_request_ok [OF w c] 3(3)
    by (auto simp: world_ready_def sims_ok_def w1_def)
  have cc: "can_issue p cur ?c s = can_issue p cur req s" for p cur s
    by (rule can_issue_kind) simp_all
  have fine: "subs_fine env n ?b"
    using 3(2) by (simp add: subs_fine_def)
  obtain w2 s' where i: "sub_IssueCommand env (unat sa) (next_ref w) (w1, ?b) = Some (True, w2, ?b\<lparr>subarrays := (subarrays b)[unat sa := s']\<rparr>)"
    "world_step w1 w2" "world_ready w2" "sub_fine (bk_sub env (unat sa)) s'"
    using sub_IssueCommand_spec [OF fine sa(1) w1(4,3)] sa(2) w1(2) 3(5) cc by auto
  have step: "world_step w w2"
    by (rule world_step_trans [OF w1(1) i(2)])
  then obtain req' where req': "heap w2 r = Some req'" "req_kind req' = req_kind req"
    by (rule world_step_request [OF _ w 3(4)])
  have "req_type req' = PRECHARGE_ALL" "now w2 = now w" "address req' = address req"
    using req'(2) 3(5) step by (auto simp: req_kind_def world_step_def)
  moreover have "unat x < n \<and> can_issue (bk_prm env) (now w2) req' (subarrays (?b\<lparr>subarrays := (subarrays b)[unat sa := s']\<rparr>) ! unat x)"
    if "x \<in> set ?sas" for x
  proof -
    have "unat sa \<noteq> unat x"
      using 3(6) that by (auto dest!: word_unat_eq_iff [THEN iffD2])
    then show ?thesis
      using 3(5,7) that calculation can_issue_kind [of req' req] by auto
  qed
  ultimately obtain w' subs where "precharge_all_loop env r ?sas (w2, ?b\<lparr>subarrays := (subarrays b)[unat sa := s']\<rparr>) =
      Some (True, w', ?b\<lparr>subarrays := subs, activeSubArrayQueue := []\<rparr>)"
    "world_step w2 w'" "world_ready w'" "subs_fine env n (b\<lparr>subarrays := subs\<rparr>)"
    using 3(1) [OF c refl i(1) refl TrueI _ i(3) req'(1)] subs_fine_sub [OF fine sa(1) i(4)] 3(6) by (auto simp: subs_fine_def)
  with c i(1) world_step_trans [OF step] show ?case
    by (intro exI [of _ w'] exI [of _ subs]) simp
qed

lemma DDR3Bank_Precharge_done:
  assumes fine: "bank_fine env n b" and w: "world_ready w" "heap w r = Some req" and fits: "bank_fits env n req"
    and can: "bank_can env (now w) req b" and ty: "class_of (req_type req) = C_PRE"
  shows "succeeds (DDR3Bank_Precharge env r (w, b)) (bank_done env n w)"
proof -
  let ?sa = "subarray (address req)" and ?b = "b\<lparr>bk_nextPowerDown := max (bk_nextPowerDown b) (now w + tRP (bk_prm env))\<rparr>"
  note n = bank_fitsD [OF fine fits]
  have b: "bk_nextPrecharge b \<le> now w" "powered_up (bk_state b)"
    using can ty by (cases "req_type req"; auto simp: bank_can_def Let_def)+
  show ?thesis
  proof (cases "req_type req = PRECHARGE_ALL")
    case True
    have "subs_fine env n ?b" "distinct (activeSubArrayQueue ?b)"
      "\<forall>sa \<in> set (activeSubArrayQueue ?b). unat sa < n \<and> can_issue (bk_prm env) (now w) req (subarrays ?b ! unat sa)"
      using fine can True by (auto simp: bank_fine_subs subs_fine_def bank_ok_def bank_can_def)
    from precharge_all_loop_done [OF this(1) w True this(2,3)] obtain w' subs where
      l: "precharge_all_loop env r (activeSubArrayQueue b) (w, ?b) =
        Some (True, w', ?b\<lparr>subarrays := subs, activeSubArrayQueue := []\<rparr>)" "world_step w w'" "world_ready w'" "subs_fine env n (b\<lparr>subarrays := subs\<rparr>)"
      by (auto simp: subs_fine_def split: if_splits)
    then have "bank_fine env n (?b\<lparr>subarrays := subs, activeSubArrayQueue := [], bk_state := DDR3BANK_CLOSED, bk_stats := st\<rparr>)" for st
      using fine by (simp add: bank_fine_subs subs_fine_def bank_ok_def)
    with l b w(2) True show ?thesis
      by (auto simp: DDR3Bank_Precharge_def Let_def not_less bank_result_defs powered_up_def)
  next
    case False
    then have pre: "req_type req = PRECHARGE"
      using ty by (cases "req_type req") auto
    then have c: "can_issue (bk_prm env) (now w) req (subarrays b ! unat ?sa)"
      using can by (simp add: bank_can_def Let_def)
    obtain w' s' where i: "sub_IssueCommand env (unat ?sa) r (w, ?b) = Some (True, w', ?b\<lparr>subarrays := (subarrays b)[unat ?sa := s']\<rparr>)"
      "world_step w w'" "world_ready w'" "sub_fine (bk_sub env (unat ?sa)) s'" "state s' = state_after (req_type req) (state (subarrays b ! unat ?sa))"
      "bank_child env ?b req = Some (unat ?sa)"
      by (rule bank_child_issue [OF fine w fits c, of ?b], simp) (rule that)
    with b w(2) n pre show ?thesis
      by (auto simp: DDR3Bank_Precharge_def Let_def not_less bank_result_defs powered_up_def
          intro!: bank_fine_result [OF fine n(1) i(4)] bank_ok_closed [OF n(3), of _ ?sa s'])
  qed
qed

interpretation bank: command_module "DDR3Bank_IsIssuable env" "DDR3Bank_IssueCommand env" "bank_can env" "bank_fine env n" "bank_fits env n" for env n
proof
  fix w :: World and b :: DDR3Bank and req
  assume w: "world_ready w" and b: "bank_fine env n b" and req: "bank_fits env n req"
  obtain reason b' where ask: "DDR3Bank_IsIssuable env req (w, b) = Some (bank_can env (now w) req b, reason, b')" and like: "bank_like b b'"
    using DDR3Bank_IsIssuable_spec [OF b req] by blast
  have fine: "bank_fine env n b'" and can: "bank_fits env n req' \<Longrightarrow> bank_can env cur req' b' = bank_can env cur req' b" for cur req'
    using bank_like_fine [OF like] b by auto
  with ask show "\<exists>reason b'. DDR3Bank_IsIssuable env req (w, b) = Some (bank_can env (now w) req b, reason, b') \<and> bank_fine env n b'
      \<and> (\<forall>cur req'. bank_fits env n req' \<longrightarrow> bank_can env cur req' b' = bank_can env cur req' b)"
    by blast
  fix r
  assume r: "heap w r = Some req"
  show "\<exists>w' b'. DDR3Bank_IssueCommand env r (w, b) = Some (bank_can env (now w) req b, w', b')
      \<and> world_step w w' \<and> world_ready w' \<and> bank_fine env n b'"
  proof (cases "bank_can env (now w) req b")
    case False
    with ask r w fine show ?thesis
      by (auto simp: DDR3Bank_IssueCommand_def world_ready_def world_step_refl)
  next
    case True
    then have c: "bank_can env (now w) req b'"
      using can req by simp
    have "class_of (req_type req) \<noteq> C_NONE \<or> req_type req = POWERUP"
      using c by (cases "req_type req") (auto simp: bank_can_def can_issue_def Let_def)
    then have "succeeds (DDR3Bank_IssueCommand env r (w, b)) (bank_done env n w)"
      using True ask r DDR3Bank_Activate_done [OF fine w r req c] DDR3Bank_Read_done [OF fine w r req c] DDR3Bank_Write_done [OF fine w r req c]
        DDR3Bank_Precharge_done [OF fine w r req c] DDR3Bank_Refresh_done [OF fine w r req c] DDR3Bank_PowerDown_done [OF fine w r c]
        DDR3Bank_PowerUp_done [OF fine w c]
      by (cases "req_type req") (simp_all add: DDR3Bank_IssueCommand_def)
    with True show ?thesis
      by (auto simp: succeeds_def bank_done_def)
  qed
qed

subsection \<open>Properties\<close>

text \<open>A freshly configured bank is fine.\<close>

lemma DDR3Bank_SetConfig_fine:
  assumes "DDR3Bank_SetConfig (bk_prm env) True s DDR3Bank_new = Some b" and "UsePrecharge (bk_prm env)"
    and "bk_decoder env = Some t" and "defaultField t = SUBARRAY_FIELD"
    and "\<And>i. sub_fine (bk_sub env i) s \<and> prm (bk_sub env i) = bk_prm env"
  shows "bank_fine env (unat (ROWS (bk_prm env) div MATHeight (bk_prm env))) b"
  using assms by (auto simp: DDR3Bank_SetConfig_def Let_def DDR3Bank_new_def bank_fine_def bank_ok_def split: if_splits)

text \<open>A bank of two subarrays with the default timing.\<close>

definition demo_bank_env :: BankEnv where
  "demo_bank_env = \<lparr>bk_prm = Params_new\<lparr>MATHeight := 32768\<rparr>, bk_self = 5,
     bk_decoder = Some (AddressTranslator_new\<lparr>defaultField := SUBARRAY_FIELD\<rparr>), bk_outs = (\<lambda>_. 0),
     bk_sub = (\<lambda>i. demo_env\<lparr>prm := Params_new\<lparr>MATHeight := 32768\<rparr>\<rparr>)\<rparr>"

definition demo_bank :: DDR3Bank where
  "demo_bank = DDR3Bank_new\<lparr>subArrayNum := 2, subarrays := [SubArray_new, SubArray_new]\<rparr>"

definition bank_request :: "OpType \<Rightarrow> uint64 \<Rightarrow> NVMainRequest" where
  "bank_request ty sa = (demo_request ty)\<lparr>address := (address (demo_request ty))\<lparr>translated := True, subarray := sa\<rparr>\<rparr>"

definition bank_world :: World where
  "bank_world = World_new\<lparr>heap := [0 \<mapsto> bank_request ACTIVATE 1, 1 \<mapsto> bank_request REFRESH 0], next_ref := 2\<rparr>"

lemma bank_request_sel [simp]:
  "req_type (bank_request ty sa) = ty" "subarray (address (bank_request ty sa)) = sa" "translated (address (bank_request ty sa))"
  "row (address (bank_request ty sa)) = 0" "request_ok (bank_request ty sa)"
  using demo_request_ok(1) [of ty] by (simp_all add: bank_request_def request_ok_def)

lemma demo_bank_fine: "bank_fine demo_bank_env 2 demo_bank"
proof -
  have two: "replicate 2 SubArray_new = [SubArray_new, SubArray_new]"
    by (simp add: numeral_2_eq_2)
  have "DDR3Bank_SetConfig (bk_prm demo_bank_env) True SubArray_new DDR3Bank_new = Some demo_bank"
    using two by (simp add: DDR3Bank_SetConfig_def demo_bank_env_def Params_new_def DDR3Bank_new_def demo_bank_def)
  from DDR3Bank_SetConfig_fine [OF this] show ?thesis
    by (simp add: demo_bank_env_def Params_new_def sub_fine_def plain_writes_def SubArray_new_def demo_env_def)
qed

lemma bank_world_ready: "world_ready bank_world" "now bank_world = 0" "heap bank_world 0 = Some (bank_request ACTIVATE 1)"
  by (auto simp: world_ready_def sims_ok_def bank_world_def world_ok_def World_new_def queue_good_def ids_below_def EventQueue_new_def
      queue_ok_def om_ok_def next_key_def om_first_def split: if_splits)

end
