(* ===== verification/DDR3_Bank_Power.thy ===== *)
theory DDR3_Bank_Power
  imports DDR3_Bank_Contract
begin

text \<open>
  The power-state machine of a memory device, and the proof that the bank refines it.
\<close>

subsection \<open>Power states\<close>

text \<open>The specification: the power states of a memory device and the transitions its commands
  make. In a power-down state only \<^verbatim>\<open>POWERUP\<close> is a transition.\<close>

datatype power = Idle_Standby | Active_Standby | Active_PD | Fast_PD | Slow_PD

inductive power_step :: "OpType \<Rightarrow> power \<Rightarrow> power \<Rightarrow> bool" where
  open_row: "p \<in> {Idle_Standby, Active_Standby} \<Longrightarrow> power_step ACTIVATE p Active_Standby"
| column: "ty \<in> {READ, WRITE} \<Longrightarrow> power_step ty Active_Standby Active_Standby"
| column_close: "ty \<in> {READ_PRECHARGE, WRITE_PRECHARGE} \<Longrightarrow> p \<in> {Idle_Standby, Active_Standby} \<Longrightarrow> power_step ty Active_Standby p"
| close_row: "power_step PRECHARGE Active_Standby Active_Standby"
| close_last: "ty \<in> {PRECHARGE, PRECHARGE_ALL} \<Longrightarrow> p \<in> {Idle_Standby, Active_Standby} \<Longrightarrow> power_step ty p Idle_Standby"
| refresh: "p \<in> {Idle_Standby, Active_Standby} \<Longrightarrow> power_step REFRESH p p"
| down_active: "power_step POWERDOWN_PDA Active_Standby Active_PD"
| down_fast: "ty \<in> {POWERDOWN_PDA, POWERDOWN_PDPF} \<Longrightarrow> power_step ty Idle_Standby Fast_PD"
| down_slow: "power_step POWERDOWN_PDPS Idle_Standby Slow_PD"
| up_active: "power_step POWERUP Active_PD Active_Standby"
| up_idle: "p \<in> {Fast_PD, Slow_PD} \<Longrightarrow> power_step POWERUP p Idle_Standby"

inductive_cases power_stepE: "power_step ty p p'"
inductive_simps power_step_simps: "power_step ty p p'"

fun power_of :: "DDR3BankState \<Rightarrow> power" where
  "power_of DDR3BANK_OPEN = Active_Standby"
| "power_of DDR3BANK_CLOSED = Idle_Standby"
| "power_of DDR3BANK_PDA = Active_PD"
| "power_of DDR3BANK_PDPF = Fast_PD"
| "power_of DDR3BANK_PDPS = Slow_PD"
| "power_of DDR3BANK_UNKNOWN = Idle_Standby"

text \<open>What a command can do to the part of the bank above its subarrays.\<close>

definition same_power :: "DDR3Bank \<Rightarrow> DDR3Bank \<Rightarrow> bool" where
  "same_power b b' \<longleftrightarrow> bk_state b' = bk_state b \<and> activeSubArrayQueue b' = activeSubArrayQueue b"

lemma sub_IssueCommand_power: "returns (sub_IssueCommand env i r (w, b)) (\<lambda>x. same_power b (snd (snd x)))"
  by (auto simp: returns_def sub_IssueCommand_def same_power_def bind_eq_Some_conv split: if_splits)

lemma sub_IsIssuable_power: "returns (sub_IsIssuable env i req (w, b)) (\<lambda>x. same_power b (snd (snd x)))"
  by (auto simp: returns_def sub_IsIssuable_def same_power_def bind_eq_Some_conv split: if_splits)

lemma subs_issuable_power: "returns (subs_issuable env is req wb) (\<lambda>x. same_power (snd wb) (snd (snd x)))"
proof (induction "is" arbitrary: wb)
  case (Cons i "is")
  obtain w b where wb: "wb = (w, b)" by (cases wb)
  show ?case
    unfolding wb subs_issuable.simps
    by (rule returns_bind_cut [OF sub_IsIssuable_power])
      (auto simp: same_power_def intro!: returns_mono [OF Cons.IH])
qed (simp add: same_power_def)

lemma precharge_all_power:
  "returns (precharge_all_loop env r sas wb) (\<lambda>x. bk_state (snd (snd x)) = bk_state (snd wb)
     \<and> (fst x \<longrightarrow> sas \<noteq> [] \<longrightarrow> activeSubArrayQueue (snd (snd x)) = []) \<and> (sas = [] \<longrightarrow> same_power (snd wb) (snd (snd x))))"
proof (induction env r sas wb rule: precharge_all_loop.induct)
  case (1 env r wb)
  then show ?case by (simp add: same_power_def)
next
  case (2 env r sa w b)
  show ?case
    unfolding precharge_all_loop.simps by (rule returns_mono [OF sub_IssueCommand_power]) (auto simp: same_power_def)
next
  case (3 env r sa sa' sas w b)
  have "returns (if ok then precharge_all_loop env r (sa' # sas) wb2 else Some (False, wb2))
      (\<lambda>x. bk_state (snd (snd x)) = bk_state b \<and> (fst x \<longrightarrow> activeSubArrayQueue (snd (snd x)) = []))"
    if "copy_request r (\<lambda>c. c\<lparr>owner := Some (bk_self env)\<rparr>) w = Some (c, w1)"
      "sub_IssueCommand env (unat sa) c (w1, b\<lparr>activeSubArrayQueue := sa' # sas\<rparr>) = Some (ok, wb2)" for c w1 ok wb2
    using returnsD [OF sub_IssueCommand_power that(2)] 3 [OF that(1) refl that(2) refl]
    by (auto simp: same_power_def intro: returns_mono)
  then show ?case
    unfolding precharge_all_loop.simps by (auto intro!: returns_bind)
qed

lemma ask_power:
  "returns (ask_child env req wb) (\<lambda>x. same_power (snd wb) (snd (snd x)))"
  "returns (ask_all_children env req blocked wb) (\<lambda>x. same_power (snd wb) (snd (snd x)) \<and> (fst x \<longrightarrow> \<not> blocked))"
  unfolding ask_child_def ask_all_children_def
  by (cases wb; auto intro!: returns_bind sub_IsIssuable_power; fastforce dest: returnsD [OF subs_issuable_power])+

fun power_guard :: "OpType \<Rightarrow> DDR3BankState \<Rightarrow> bool" where
  "power_guard ACTIVATE st = (\<not> powered_down st)"
| "power_guard READ st = (st = DDR3BANK_OPEN)"
| "power_guard READ_PRECHARGE st = (st = DDR3BANK_OPEN)"
| "power_guard WRITE st = (st = DDR3BANK_OPEN)"
| "power_guard WRITE_PRECHARGE st = (st = DDR3BANK_OPEN)"
| "power_guard POWERDOWN_PDPF st = (st = DDR3BANK_CLOSED)"
| "power_guard POWERDOWN_PDPS st = (st = DDR3BANK_CLOSED)"
| "power_guard POWERUP st = powered_down st"
| "power_guard _ st = powered_up st"

lemma DDR3Bank_IsIssuable_power:
  "returns (DDR3Bank_IsIssuable env req (w, b)) (\<lambda>x. same_power b (snd (snd x))
     \<and> (fst x \<longrightarrow> power_guard (req_type req) (bk_state b) \<and> (class_of (req_type req) \<noteq> C_NONE \<or> req_type req = POWERUP)))"
proof -
  have refl: "same_power b b" "same_power b (upd_bank_stats f b)" for f
    by (simp_all add: same_power_def upd_bank_stats_def)
  have none: "returns (ask_child env req (w, b)) (\<lambda>x. same_power b (snd (snd x)) \<and> \<not> fst x)"
    if "class_of (req_type req) = C_NONE" "req_type req \<noteq> POWERUP"
  proof -
    have "returns (SubArray_IsIssuable e req ws) (\<lambda>x. \<not> fst x)" for e ws
      using that by (cases "req_type req"; cases ws) (auto simp: SubArray_IsIssuable_def Let_def)
    then have "returns (sub_IsIssuable env i req (w, b)) (\<lambda>x. \<not> fst x)" for i
      by (fastforce simp: sub_IsIssuable_def returns_def bind_eq_Some_conv split: if_splits)
    then have "returns (ask_child env req (w, b)) (\<lambda>x. \<not> fst x)"
      by (auto simp: ask_child_def intro!: returns_bind)
    with ask_power(1) [of env req "(w, b)"] show ?thesis
      by (auto intro: returns_conj)
  qed
  note all = ask_power(2) [of env req _ "(w, b)", simplified]
  note child = ask_power(1) [of env req "(w, b)", simplified]
  note active = subs_issuable_power [of env _ req "(w, b)", simplified]
  show ?thesis
    using none
    by (cases "req_type req") (auto simp: DDR3Bank_IsIssuable_def Let_def refl powered_up_def
        intro!: returns_mono [OF child] returns_mono [OF all] returns_mono [OF active] elim: returns_mono)
qed

text \<open>An accepted command makes the transition of the specification.\<close>

lemma child_command_power:
  assumes "\<And>i w2 b2. sub_IssueCommand env i r (w, b1) = Some (True, (w2, b2)) \<Longrightarrow> same_power b1 b2 \<Longrightarrow> P (power_of (bk_state (g b2)))"
  shows "returns (Option.bind m (\<lambda>i. Option.bind (sub_IssueCommand env i r (w, b1))
      (\<lambda>(ok, w2, b2). Some (ok, w2, if ok then g b2 else b2)))) (\<lambda>x. fst x \<longrightarrow> P (power_of (bk_state (snd (snd x)))))"
proof (rule returns_bind, rule returns_bind_cut [OF sub_IssueCommand_power])
  fix i x
  assume "same_power b1 (snd (snd x))" "sub_IssueCommand env i r (w, b1) = Some x"
  with assms [of i "fst (snd x)" "snd (snd x)"]
  show "returns (case x of (ok, w2, b2) \<Rightarrow> Some (ok, w2, if ok then g b2 else b2)) (\<lambda>x. fst x \<longrightarrow> P (power_of (bk_state (snd (snd x)))))"
    by (cases x) auto
qed

abbreviation steps_power :: "OpType \<Rightarrow> DDR3Bank \<Rightarrow> bool \<times> bank_state \<Rightarrow> bool" where
  "steps_power ty b x \<equiv> fst x \<longrightarrow> power_step ty (power_of (bk_state b)) (power_of (bk_state (snd (snd x))))"

lemma DDR3Bank_Activate_power:
  assumes "heap w r = Some req" and "\<not> powered_down (bk_state b)" and "bk_state b \<noteq> DDR3BANK_UNKNOWN"
  shows "returns (DDR3Bank_Activate env r (w, b)) (steps_power ACTIVATE b)"
proof -
  have "power_step ACTIVATE (power_of (bk_state b)) (power_of DDR3BANK_OPEN)"
    using assms(2,3) by (cases "bk_state b") (auto simp: powered_down_def intro: power_step.intros)
  then show ?thesis
    by (auto simp: DDR3Bank_Activate_def assms(1) Let_def upd_bank_stats_def intro!: child_command_power)
qed

lemma upd_bank_stats_power [simp]:
  "bk_state (upd_bank_stats f b) = bk_state b" "activeSubArrayQueue (upd_bank_stats f b) = activeSubArrayQueue b"
  by (simp_all add: upd_bank_stats_def)

lemma DDR3Bank_Read_power:
  assumes "heap w r = Some req" and "bk_state b = DDR3BANK_OPEN" and "req_type req \<in> {READ, READ_PRECHARGE}"
  shows "returns (DDR3Bank_Read env r (w, b)) (steps_power (req_type req) b)"
  using assms(2,3)
  by (auto simp: DDR3Bank_Read_def assms(1) Let_def same_power_def close_if_empty_def close_subarray_def
      intro!: child_command_power intro: power_step.intros)

lemma DDR3Bank_Write_power:
  assumes "heap w r = Some req" and "bk_state b = DDR3BANK_OPEN" and "req_type req \<in> {WRITE, WRITE_PRECHARGE}"
  shows "returns (DDR3Bank_Write env r (w, b)) (steps_power (req_type req) b)"
  using assms(2,3)
  by (auto simp: DDR3Bank_Write_def assms(1) Let_def same_power_def close_if_empty_def close_subarray_def
      intro!: child_command_power intro: power_step.intros)

lemma DDR3Bank_Refresh_power:
  assumes "heap w r = Some req" and "powered_up (bk_state b)"
  shows "returns (DDR3Bank_Refresh env r (w, b)) (steps_power REFRESH b)"
  using assms(2)
  by (auto simp: DDR3Bank_Refresh_def assms(1) Let_def same_power_def powered_up_def intro!: child_command_power power_step.refresh)

lemma DDR3Bank_Precharge_power:
  assumes "heap w r = Some req" and "powered_up (bk_state b)" and "class_of (req_type req) = C_PRE"
  shows "returns (DDR3Bank_Precharge env r (w, b)) (steps_power (req_type req) b)"
proof -
  let ?b = "b\<lparr>bk_nextPowerDown := max (bk_nextPowerDown b) (now w + tRP (bk_prm env))\<rparr>"
  define m where "m = (if req_type req = PRECHARGE_ALL then precharge_all_loop env r (activeSubArrayQueue b) (w, ?b)
      else Option.bind (bank_child env b req) (\<lambda>i. Option.bind (sub_IssueCommand env i r (w, ?b))
        (\<lambda>(ok, w2, b2). Some (ok, w2, if ok then close_subarray (subarray (address req)) b2 else b2))))"
  have st: "bk_state b = DDR3BANK_OPEN \<or> bk_state b = DDR3BANK_CLOSED"
    using assms(2) by (auto simp: powered_up_def)
  have m: "returns m (\<lambda>x. fst x \<longrightarrow> bk_state (snd (snd x)) = bk_state b
      \<and> (req_type req = PRECHARGE_ALL \<longrightarrow> activeSubArrayQueue (snd (snd x)) = []))"
  proof (cases "req_type req = PRECHARGE_ALL")
    case True
    then show ?thesis
      by (auto simp: m_def same_power_def intro!: returns_mono [OF precharge_all_power])
  next
    case False
    have "returns (case x of (ok, w2, b2) \<Rightarrow> Some (ok, w2, if ok then close_subarray sa b2 else b2))
        (\<lambda>x. fst x \<longrightarrow> bk_state (snd (snd x)) = bk_state b)" if "same_power ?b (snd (snd x))" for x :: "bool \<times> bank_state" and sa
      using that by (cases x) (auto simp: same_power_def close_subarray_def)
    with False show ?thesis
      by (auto simp: m_def intro!: returns_bind returns_bind_cut [OF sub_IssueCommand_power])
  qed
  have ty: "req_type req = PRECHARGE \<or> req_type req = PRECHARGE_ALL"
    using assms(3) by (cases "req_type req") auto
  have "returns (Option.bind m (\<lambda>(ok, w2, b2). Some (ok, w2,
      if ok then upd_bank_stats (\<lambda>st. st\<lparr>bk_precharges := bk_precharges st + 1\<rparr>) (close_if_empty b2) else b2))) (steps_power (req_type req) b)"
    using ty st by (intro returns_bind_cut [OF m]) (auto simp: close_if_empty_def intro: power_step.intros)
  then show ?thesis
    using ty by (auto simp: DDR3Bank_Precharge_def assms(1) Let_def m_def)
qed

lemma DDR3Bank_IssueCommand_power:
  assumes "DDR3Bank_IssueCommand env r (w, b) = Some (True, w', b')" and "heap w r = Some req" and "bk_state b \<noteq> DDR3BANK_UNKNOWN"
  shows "power_step (req_type req) (power_of (bk_state b)) (power_of (bk_state b'))"
proof -
  obtain ok reason b1 where ask: "DDR3Bank_IsIssuable env req (w, b) = Some (ok, reason, b1)"
    using assms(1,2) by (auto simp: DDR3Bank_IssueCommand_def bind_eq_Some_conv)
  with assms(1,2) have ok by (cases ok) (auto simp: DDR3Bank_IssueCommand_def Let_def)
  with returnsD [OF DDR3Bank_IsIssuable_power ask] assms(3)
  have g: "power_guard (req_type req) (bk_state b1)" "class_of (req_type req) \<noteq> C_NONE \<or> req_type req = POWERUP"
    "bk_state b1 = bk_state b" "bk_state b1 \<noteq> DDR3BANK_UNKNOWN"
    by (auto simp: same_power_def)
  have down: "returns (DDR3Bank_PowerDown env r (w, b1)) (steps_power (req_type req) b1)" if "class_of (req_type req) = C_PD"
    using that g(1) assms(2)
    by (cases "req_type req") (auto simp: DDR3Bank_PowerDown_def Let_def powered_up_def intro!: power_step.intros)
  have up: "steps_power POWERUP b1 (DDR3Bank_PowerUp env (w, b1))" if "powered_down (bk_state b1)"
    using that by (auto simp: DDR3Bank_PowerUp_def Let_def powered_down_def intro: power_step.intros)
  have "returns (DDR3Bank_IssueCommand env r (w, b)) (steps_power (req_type req) b1)"
    using g ask \<open>ok\<close> down up DDR3Bank_Activate_power [OF assms(2), of b1] DDR3Bank_Read_power [OF assms(2), of b1]
      DDR3Bank_Write_power [OF assms(2), of b1] DDR3Bank_Refresh_power [OF assms(2), of b1] DDR3Bank_Precharge_power [OF assms(2), of b1]
    by (cases "req_type req") (simp_all add: DDR3Bank_IssueCommand_def assms(2))
  from returnsD [OF this assms(1)] g(3) show ?thesis by simp
qed

text \<open>C9: The bank refines the power-state machine: every command it accepts, in any state and
  whatever its subarrays do, is a transition of the specification from the power state before
  to the one after. In particular a powered-down bank accepts nothing but the power-up, an open
  bank is never put into a precharge power-down, and \<^verbatim>\<open>PRECHARGE_ALL\<close> ends in idle standby.\<close>

theorem bank_power_refines:
  assumes "DDR3Bank_IssueCommand env r (w, b) = Some (True, w', b')" and "heap w r = Some req" and "bk_state b \<noteq> DDR3BANK_UNKNOWN"
  shows "power_step (req_type req) (power_of (bk_state b)) (power_of (bk_state b'))"
  using assms by (rule DDR3Bank_IssueCommand_power)

theorem bank_power_refines_witness:
  "\<exists>w' b'. DDR3Bank_IssueCommand demo_bank_env 0 (bank_world, demo_bank) = Some (True, w', b')
     \<and> power_step ACTIVATE Idle_Standby (power_of (bk_state b'))"
proof -
  have "bank_can demo_bank_env 0 (bank_request ACTIVATE 1) demo_bank" "bank_fits demo_bank_env 2 (bank_request ACTIVATE 1)"
    by (simp_all add: bank_can_def can_issue_def demo_bank_def DDR3Bank_new_def SubArray_new_def powered_up_def bank_fits_def)
  then obtain w' b' where i: "DDR3Bank_IssueCommand demo_bank_env 0 (bank_world, demo_bank) = Some (True, w', b')"
    using bank.issue_decides [OF bank_world_ready(1) demo_bank_fine bank_world_ready(3)] bank_world_ready(2) by auto
  have "bk_state demo_bank = DDR3BANK_CLOSED"
    by (simp add: demo_bank_def DDR3Bank_new_def)
  with bank_power_refines [OF i bank_world_ready(3)] i show ?thesis by auto
qed

text \<open>A refresh keeps the bank from powering down for \<open>tRFC\<close> cycles. A write with an implicit
  precharge to another subarray takes that back: it computes \<open>nextPowerDown\<close> from
  \<open>nextActivate\<close> instead of its own old value. The subarrays do not guard a refresh against a
  power-down, so the bank can be powered down in the middle of one.\<close>

lemma write_precharge_forgets_power_down:
  "bk_nextPowerDown (bank_write_timing Params_new 10 (bank_request WRITE_PRECHARGE 1) (demo_bank\<lparr>bk_nextPowerDown := 107\<rparr>)) = 40"
  by (simp add: bank_write_timing_def Let_def demo_bank_def DDR3Bank_new_def Params_new_def bank_request_def demo_request_def
      NVMainRequest_new_def)

text \<open>A powered-down bank counts the wait of an activate as \<open>nextActivate - now\<close> even when that
  bound has passed: the statistic wraps around.\<close>

lemma bank_wait_wraps:
  "map_option (\<lambda>(ok, reason, b). bk_actWaitTotal (bk_stats b))
     (DDR3Bank_IsIssuable demo_bank_env (bank_request ACTIVATE 1)
       (bank_world\<lparr>evq := (evq bank_world)\<lparr>currentCycle := 1\<rparr>\<rparr>, demo_bank\<lparr>bk_state := DDR3BANK_PDPF\<rparr>)) = Some (- 1)"
  by (simp add: DDR3Bank_IsIssuable_def demo_bank_def DDR3Bank_new_def powered_down_def upd_bank_stats_def BankStats_new_def)

subsection \<open>The power of a bank as its rank sees it\<close>

text \<open>What a parent sees of a bank's power: whether it is down, and from when it may go up.\<close>

definition power_view :: "DDR3Bank \<Rightarrow> bool \<times> ncycle_t" where
  "power_view b = (powered_down (bk_state b), bk_nextPowerUp b)"

definition view_after :: "Params \<Rightarrow> ncycle_t \<Rightarrow> OpType \<Rightarrow> bool \<times> ncycle_t \<Rightarrow> bool \<times> ncycle_t" where
  "view_after p cur ty v = (if class_of ty = C_PD then (True, max (snd v) (cur + tPD p)) else if ty = POWERUP then (False, snd v) else v)"

lemma sub_calls_power_up:
  "returns (sub_IssueCommand env i r wb) (\<lambda>x. bk_nextPowerUp (snd (snd x)) = bk_nextPowerUp (snd wb))"
  "returns (precharge_all_loop env r sas wb) (\<lambda>x. bk_nextPowerUp (snd (snd x)) = bk_nextPowerUp (snd wb))"
proof -
  show sub: "returns (sub_IssueCommand env i r wb) (\<lambda>x. bk_nextPowerUp (snd (snd x)) = bk_nextPowerUp (snd wb))" for env i r wb
    by (cases wb) (auto simp: returns_def sub_IssueCommand_def bind_eq_Some_conv split: if_splits)
  show "returns (precharge_all_loop env r sas wb) (\<lambda>x. bk_nextPowerUp (snd (snd x)) = bk_nextPowerUp (snd wb))"
  proof (induction env r sas wb rule: precharge_all_loop.induct)
    case (2 env r sa w b)
    show ?case using sub [of env "unat sa" r "(w, b\<lparr>activeSubArrayQueue := []\<rparr>)"] by simp
  next
    case (3 env r sa sa' sas w b)
    have "returns (if ok then precharge_all_loop env r (sa' # sas) wb2 else Some (False, wb2))
        (\<lambda>x. bk_nextPowerUp (snd (snd x)) = bk_nextPowerUp b)"
      if "copy_request r (\<lambda>c. c\<lparr>owner := Some (bk_self env)\<rparr>) w = Some (c, w1)"
        "sub_IssueCommand env (unat sa) c (w1, b\<lparr>activeSubArrayQueue := sa' # sas\<rparr>) = Some (ok, wb2)" for c w1 ok wb2
      using returnsD [OF sub that(2)] 3 [OF that(1) refl that(2) refl] by (auto intro: returns_mono)
    then show ?case
      unfolding precharge_all_loop.simps by (auto intro!: returns_bind)
  qed simp
qed

lemma bank_commands_power_up:
  assumes "heap w r = Some req"
  shows "returns (DDR3Bank_Activate env r (w, b)) (\<lambda>x. bk_nextPowerUp (snd (snd x)) = bk_nextPowerUp b)"
    "returns (DDR3Bank_Read env r (w, b)) (\<lambda>x. bk_nextPowerUp (snd (snd x)) = bk_nextPowerUp b)"
    "returns (DDR3Bank_Write env r (w, b)) (\<lambda>x. bk_nextPowerUp (snd (snd x)) = bk_nextPowerUp b)"
    "returns (DDR3Bank_Refresh env r (w, b)) (\<lambda>x. bk_nextPowerUp (snd (snd x)) = bk_nextPowerUp b)"
    "returns (DDR3Bank_Precharge env r (w, b)) (\<lambda>x. bk_nextPowerUp (snd (snd x)) = bk_nextPowerUp b)"
  by (auto simp: DDR3Bank_Activate_def DDR3Bank_Read_def DDR3Bank_Write_def DDR3Bank_Refresh_def DDR3Bank_Precharge_def assms Let_def
      upd_bank_stats_def close_if_empty_def close_subarray_def split: OpType.split
      intro!: returns_bind dest!: returnsD [OF sub_calls_power_up(1)] returnsD [OF sub_calls_power_up(2)])

lemma sub_asks_power_up:
  "returns (sub_IsIssuable env i req wb) (\<lambda>x. bk_nextPowerUp (snd (snd x)) = bk_nextPowerUp (snd wb))"
  "returns (subs_issuable env is req wb) (\<lambda>x. bk_nextPowerUp (snd (snd x)) = bk_nextPowerUp (snd wb))"
proof -
  show sub: "returns (sub_IsIssuable env i req wb) (\<lambda>x. bk_nextPowerUp (snd (snd x)) = bk_nextPowerUp (snd wb))" for i wb
    by (cases wb) (auto simp: returns_def sub_IsIssuable_def bind_eq_Some_conv split: if_splits)
  show "returns (subs_issuable env is req wb) (\<lambda>x. bk_nextPowerUp (snd (snd x)) = bk_nextPowerUp (snd wb))"
  proof (induction "is" arbitrary: wb)
    case (Cons i "is")
    then show ?case
      by (auto intro!: returns_bind_cut [OF sub] returns_mono [OF Cons.IH])
  qed simp
qed

lemma DDR3Bank_IsIssuable_power_up:
  "returns (DDR3Bank_IsIssuable env req (w, b)) (\<lambda>x. bk_nextPowerUp (snd (snd x)) = bk_nextPowerUp b)"
proof -
  have child: "returns (ask_child env req (w, b)) (\<lambda>x. bk_nextPowerUp (snd (snd x)) = bk_nextPowerUp b)"
    unfolding ask_child_def using sub_asks_power_up(1) [of env _ req "(w, b)"] by (auto intro!: returns_bind)
  have all: "returns (ask_all_children env req blocked (w, b)) (\<lambda>x. bk_nextPowerUp (snd (snd x)) = bk_nextPowerUp b)" for blocked
    unfolding ask_all_children_def by (auto intro!: returns_bind dest!: returnsD [OF sub_asks_power_up(2)])
  show ?thesis
    using child all sub_asks_power_up(2) [of env _ req "(w, b)"]
    by (cases "req_type req") (simp_all add: DDR3Bank_IsIssuable_def Let_def upd_bank_stats_def)
qed

lemma DDR3Bank_IssueCommand_power_up:
  assumes "heap w r = Some req"
  shows "returns (DDR3Bank_IssueCommand env r (w, b)) (\<lambda>x. bk_nextPowerUp (snd (snd x)) =
    (if fst x \<and> class_of (req_type req) = C_PD then max (bk_nextPowerUp b) (now w + tPD (bk_prm env)) else bk_nextPowerUp b))"
proof -
  let ?up = "\<lambda>b (x :: bool \<times> bank_state). bk_nextPowerUp (snd (snd x)) = bk_nextPowerUp b"
  have down: "returns (DDR3Bank_PowerDown env r (w, b)) (\<lambda>x. bk_nextPowerUp (snd (snd x)) =
      (if fst x then max (bk_nextPowerUp b) (now w + tPD (bk_prm env)) else bk_nextPowerUp b))" for b
    by (auto simp: DDR3Bank_PowerDown_def assms Let_def)
  have up: "?up b (DDR3Bank_PowerUp env (w, b))" for b
    by (simp add: DDR3Bank_PowerUp_def Let_def)
  have sub: "returns (Option.bind m (\<lambda>i. sub_IssueCommand env i r (w, b))) (?up b)" for m b
    using sub_calls_power_up(1) [of env _ r "(w, b)"] by (auto intro!: returns_bind)
  show ?thesis
  proof (cases "DDR3Bank_IsIssuable env req (w, b)")
    case None
    then show ?thesis by (simp add: DDR3Bank_IssueCommand_def assms)
  next
    case (Some x)
    then obtain ok reason b1 where x: "DDR3Bank_IsIssuable env req (w, b) = Some (ok, reason, b1)" "bk_nextPowerUp b1 = bk_nextPowerUp b"
      using returnsD [OF DDR3Bank_IsIssuable_power_up Some] by (cases x) auto
    show ?thesis
      using down [of b1, unfolded x(2)] up [of b1] sub [of _ b1] bank_commands_power_up [OF assms, of env b1] x(2)
      by (cases ok; cases "req_type req") (simp_all add: DDR3Bank_IssueCommand_def assms x(1) split del: if_split)
  qed
qed

lemma power_step_standby:
  assumes "power_step ty (power_of st) (power_of st')"
  shows "powered_down st' = (if class_of ty = C_PD then True else if ty = POWERUP then False else powered_down st)"
  using assms by (cases st; cases st'; cases ty) (auto simp: powered_down_def elim: power_stepE)

lemma bank_like_power: "bank_like b b' \<Longrightarrow> power_view b' = power_view b"
  by (cases b; cases b') (auto simp: bank_like_def power_view_def)

lemma bank_issue_view:
  assumes fine: "bank_fine env n b" and fits: "bank_fits env n req" and w: "world_ready w" "heap w r = Some req"
    and i: "DDR3Bank_IssueCommand env r (w, b) = Some (ok, w', b')"
  shows "power_view b' = (if ok then view_after (bk_prm env) (now w) (req_type req) (power_view b) else power_view b)"
proof (cases ok)
  case True
  then have "power_step (req_type req) (power_of (bk_state b)) (power_of (bk_state b'))"
    using fine i by (intro DDR3Bank_IssueCommand_power [OF _ w(2)]) (auto simp: bank_fine_def bank_ok_def)
  from power_step_standby [OF this] returnsD [OF DDR3Bank_IssueCommand_power_up [OF w(2)] i] True show ?thesis
    by (simp add: power_view_def view_after_def)
next
  case False
  obtain reason b1 where ask: "DDR3Bank_IsIssuable env req (w, b) = Some (bank_can env (now w) req b, reason, b1)" "bank_like b b1"
    using DDR3Bank_IsIssuable_spec [OF fine fits] by blast
  have "b' = b1"
    using bank.issue_decides [OF w(1) fine w(2) fits] ask(1) i w(2) False by (auto simp: DDR3Bank_IssueCommand_def)
  with ask(2) False show ?thesis
    by (simp add: bank_like_power)
qed

end
