(* ===== verification/Standard_Rank.thy ===== *)
theory Standard_Rank
  imports DDR3_Bank_Power
begin

text \<open>
  The rank (\<^verbatim>\<open>Ranks/StandardRank/StandardRank.cpp\<close>): banks that share a command bus, the
  rolling window of row activations (\<open>tRAW\<close>), the distance between activations (\<open>tRRD\<close>), the
  power-down of all banks in lockstep, refresh of a group of banks, and the background energy.
  Fields of the rank carry the prefix \<open>rk_\<close>; the banks are part of its state.

  A failed assertion, an index outside \<^verbatim>\<open>lastActivate\<close> and a missing bank are \<open>None\<close>.
\<close>

datatype StandardRank_State =
    STANDARDRANK_UNKNOWN | STANDARDRANK_OPEN | STANDARDRANK_CLOSED | STANDARDRANK_REFRESHING
  | STANDARDRANK_PDPF | STANDARDRANK_PDA | STANDARDRANK_PDPS

record RankEnv =
  rk_prm :: Params
  rk_self :: nat
  rk_siblings :: "(nat \<times> nat) list"
  rk_decoder :: "AddressTranslator option"
  rk_outs :: "MemoryPartition \<Rightarrow> uint64"
  rk_bank :: "nat \<Rightarrow> BankEnv"

record RankStats =
  rk_activeCycles :: ncounter_t
  rk_standbyCycles :: ncounter_t
  rk_fastExitActiveCycles :: ncounter_t
  rk_fastExitPrechargeCycles :: ncounter_t
  rk_slowExitCycles :: ncounter_t
  rk_rrdWaits :: ncounter_t
  rk_rrdWaitTotal :: ncounter_t
  rk_rrdWaitAverage :: rat
  rk_fawWaits :: ncounter_t
  rk_fawWaitTotal :: ncounter_t
  rk_fawWaitAverage :: rat
  rk_actWaits :: ncounter_t
  rk_actWaitTotal :: ncounter_t
  rk_actWaitAverage :: rat
  rk_reads :: ncounter_t
  rk_writes :: ncounter_t
  rk_totalEnergy :: rat
  rk_backgroundEnergy :: rat
  rk_activateEnergy :: rat
  rk_burstEnergy :: rat
  rk_refreshEnergy :: rat
  rk_totalPower :: rat
  rk_backgroundPower :: rat
  rk_activatePower :: rat
  rk_burstPower :: rat
  rk_refreshPower :: rat

record StandardRank =
  rk_state :: StandardRank_State
  bankCount :: ncounter_t
  deviceCount :: ncounter_t
  rk_lastActivate :: "ncycle_t list"
  RAWindex :: ncounter_t
  rawNum :: ncounter_t
  banksPerRefresh :: ncounter_t
  rk_nextRead :: ncycle_t
  rk_nextWrite :: ncycle_t
  rk_nextActivate :: ncycle_t
  rk_nextPrecharge :: ncycle_t
  rk_lastReset :: ncycle_t
  rk_stats :: RankStats
  banks :: "DDR3Bank list"

definition RankStats_new :: RankStats where
  "RankStats_new = \<lparr>rk_activeCycles = 0, rk_standbyCycles = 0, rk_fastExitActiveCycles = 0, rk_fastExitPrechargeCycles = 0,
     rk_slowExitCycles = 0, rk_rrdWaits = 0, rk_rrdWaitTotal = 0, rk_rrdWaitAverage = 0, rk_fawWaits = 0, rk_fawWaitTotal = 0,
     rk_fawWaitAverage = 0, rk_actWaits = 0, rk_actWaitTotal = 0, rk_actWaitAverage = 0, rk_reads = 0, rk_writes = 0,
     rk_totalEnergy = 0, rk_backgroundEnergy = 0, rk_activateEnergy = 0, rk_burstEnergy = 0, rk_refreshEnergy = 0,
     rk_totalPower = 0, rk_backgroundPower = 0, rk_activatePower = 0, rk_burstPower = 0, rk_refreshPower = 0\<rparr>"

text \<open>The members the constructor leaves unset get their values from \<^verbatim>\<open>SetConfig\<close>.\<close>

definition StandardRank_new :: StandardRank where
  "StandardRank_new = \<lparr>rk_state = STANDARDRANK_CLOSED, bankCount = 0, deviceCount = 0, rk_lastActivate = [], RAWindex = 0,
     rawNum = 0, banksPerRefresh = 0, rk_nextRead = 0, rk_nextWrite = 0, rk_nextActivate = 0, rk_nextPrecharge = 0,
     rk_lastReset = 0, rk_stats = RankStats_new, banks = []\<rparr>"

text \<open>\<open>rawGiven\<close>: the configuration has the key \<^verbatim>\<open>RAW\<close>; \<open>bk\<close> is a bank after its own
  \<^verbatim>\<open>SetConfig\<close>. A device width of zero and a window of zero trap.\<close>

definition StandardRank_SetConfig :: "Params \<Rightarrow> bool \<Rightarrow> bool \<Rightarrow> DDR3Bank \<Rightarrow> StandardRank \<Rightarrow> StandardRank option" where
  "StandardRank_SetConfig p rawGiven createChildren bk rk =
     (let raw = (if rawGiven then RAW p else 4)
      in if raw = 0 \<or> DeviceWidth p = 0 then None
         else Some (rk\<lparr>banksPerRefresh := BanksPerRefresh p, rawNum := raw,
                deviceCount := BusWidth p div DeviceWidth p + (if BusWidth p mod DeviceWidth p \<noteq> 0 then 1 else 0),
                bankCount := BANKS p,
                banks := (if createChildren then banks rk @ replicate (unat (BANKS p)) bk else banks rk),
                rk_lastActivate := replicate (unat raw) 0,
                rk_nextRead := tCMD p, rk_nextWrite := tCMD p, rk_nextActivate := tCMD p, rk_nextPrecharge := tCMD p,
                rk_stats := (rk_stats rk)\<lparr>rk_fawWaits := 0, rk_rrdWaits := 0, rk_actWaits := 0,
                  rk_fawWaitTotal := 0, rk_rrdWaitTotal := 0, rk_actWaitTotal := 0\<rparr>\<rparr>))"

type_synonym rank_state = "World \<times> StandardRank"

definition upd_rank_stats :: "(RankStats \<Rightarrow> RankStats) \<Rightarrow> StandardRank \<Rightarrow> StandardRank" where
  "upd_rank_stats f rk = rk\<lparr>rk_stats := f (rk_stats rk)\<rparr>"

subsection \<open>Children and the activation window\<close>

abbreviation rank_child :: "RankEnv \<Rightarrow> StandardRank \<Rightarrow> NVMainRequest \<Rightarrow> nat option" where
  "rank_child env rk req \<equiv> GetChild (rk_decoder env) (rk_outs env) (length (banks rk)) req"

definition bank_IssueCommand :: "RankEnv \<Rightarrow> nat \<Rightarrow> nat \<Rightarrow> rank_state \<Rightarrow> (bool \<times> rank_state) option" where
  "bank_IssueCommand env i r wr = (case wr of (w, rk) \<Rightarrow>
     if i < length (banks rk) then do {
       (ok, (w', b')) \<leftarrow> DDR3Bank_IssueCommand (rk_bank env i) r (w, banks rk ! i);
       Some (ok, (w', rk\<lparr>banks := (banks rk)[i := b']\<rparr>))
     }
     else None)"

definition bank_IsIssuable ::
  "RankEnv \<Rightarrow> nat \<Rightarrow> NVMainRequest \<Rightarrow> rank_state \<Rightarrow> (bool \<times> FailReasons option \<times> StandardRank) option" where
  "bank_IsIssuable env i req wr = (case wr of (w, rk) \<Rightarrow>
     if i < length (banks rk) then do {
       (ok, reason, b') \<leftarrow> DDR3Bank_IsIssuable (rk_bank env i) req (w, banks rk ! i);
       Some (ok, reason, rk\<lparr>banks := (banks rk)[i := b']\<rparr>)
     }
     else None)"

text \<open>\<^verbatim>\<open>lastActivate[( RAWindex + k ) % rawNum]\<close>.\<close>

definition activate_slot :: "ncounter_t \<Rightarrow> StandardRank \<Rightarrow> ncycle_t option" where
  "activate_slot k rk =
     (let i = unat ((RAWindex rk + k) mod rawNum rk)
      in if rawNum rk \<noteq> 0 \<and> i < length (rk_lastActivate rk) then Some (rk_lastActivate rk ! i) else None)"

text \<open>Moving to the next counter and entering the current cycle.\<close>

definition record_activate :: "ncycle_t \<Rightarrow> StandardRank \<Rightarrow> StandardRank" where
  "record_activate cur rk =
     (let i = (RAWindex rk + 1) mod rawNum rk
      in rk\<lparr>RAWindex := i, rk_lastActivate := (rk_lastActivate rk)[unat i := cur]\<rparr>)"

text \<open>\<^verbatim>\<open>Idle\<close> stops at the first bank that is not.\<close>

fun banks_idle :: "DDR3Bank list \<Rightarrow> nat \<Rightarrow> bool option" where
  "banks_idle bs 0 = Some True"
| "banks_idle [] (Suc n) = None"
| "banks_idle (b # bs) (Suc n) = do {
     idle \<leftarrow> DDR3Bank_Idle b;
     if idle then banks_idle bs n else Some False
   }"

definition StandardRank_Idle :: "StandardRank \<Rightarrow> bool option" where
  "StandardRank_Idle rk = banks_idle (banks rk) (unat (bankCount rk))"

text \<open>\<^verbatim>\<open>new NVMainRequest\<close>.\<close>

definition new_request :: "NVMainRequest \<Rightarrow> World \<Rightarrow> nat \<times> World" where
  "new_request req w = (next_ref w, w\<lparr>heap := (heap w)(next_ref w \<mapsto> req), next_ref := Suc (next_ref w)\<rparr>)"

subsection \<open>Commands\<close>

text \<open>The result of the bank's \<^verbatim>\<open>IssueCommand\<close> is not looked at, and the function returns true
  also when the timing check fails.\<close>

definition StandardRank_Activate :: "RankEnv \<Rightarrow> nat \<Rightarrow> rank_state \<Rightarrow> (bool \<times> rank_state) option" where
  "StandardRank_Activate env r wr = (case wr of (w, rk) \<Rightarrow> do {
     let p = rk_prm env;
     let cur = now w;
     req \<leftarrow> heap w r;
     if bank (address req) \<ge> bankCount rk then Some (False, (w, rk))
     else do {
       oldest \<leftarrow> activate_slot 1 rk;
       if rk_nextActivate rk \<le> cur \<and> oldest + tRAW p \<le> cur then do {
         i \<leftarrow> rank_child env rk req;
         (_, (w1, rk1)) \<leftarrow> bank_IssueCommand env i r (w, rk);
         let rk2 = (if rk_state rk1 = STANDARDRANK_CLOSED then rk1\<lparr>rk_state := STANDARDRANK_OPEN\<rparr> else rk1);
         let rk3 = record_activate cur rk2;
         Some (True, (w1, rk3\<lparr>rk_nextActivate := max (rk_nextActivate rk3) (cur + tRRDR p)\<rparr>))
       }
       else Some (True, (w, rk))
     }
   })"

definition rank_read_timing :: "Params \<Rightarrow> ncycle_t \<Rightarrow> NVMainRequest \<Rightarrow> StandardRank \<Rightarrow> StandardRank" where
  "rank_read_timing p cur req rk =
     rk\<lparr>rk_nextRead := max (rk_nextRead rk) (cur + burst_gap p * burstCount req),
        rk_nextWrite := max (rk_nextWrite rk)
          (cur + burst_gap p * (burstCount req - 1) + tCAS p + tBURST p + tRTRS p - tCWD p)\<rparr>"

definition rank_write_timing :: "Params \<Rightarrow> ncycle_t \<Rightarrow> NVMainRequest \<Rightarrow> StandardRank \<Rightarrow> StandardRank" where
  "rank_write_timing p cur req rk =
     rk\<lparr>rk_nextRead := max (rk_nextRead rk) (cur + burst_gap p * (burstCount req - 1) + tCWD p + tBURST p + tWTR p),
        rk_nextWrite := max (rk_nextWrite rk) (cur + burst_gap p * burstCount req)\<rparr>"

text \<open>A request of the rank's own that closes it when an implicit precharge is due.\<close>

definition insert_close :: "RankEnv \<Rightarrow> ncycle_t \<Rightarrow> World \<Rightarrow> World option" where
  "insert_close env when w =
     (let (dup, w1) = new_request (NVMainRequest_new\<lparr>req_type := PRECHARGE, owner := Some (rk_self env)\<rparr>) w
      in insert_response (rk_siblings env) (rk_self env) dup when w1)"

definition StandardRank_Read :: "RankEnv \<Rightarrow> nat \<Rightarrow> rank_state \<Rightarrow> (bool \<times> rank_state) option" where
  "StandardRank_Read env r wr = (case wr of (w, rk) \<Rightarrow> do {
     let p = rk_prm env;
     let cur = now w;
     req \<leftarrow> heap w r;
     if bank (address req) \<ge> bankCount rk then Some (False, (w, rk))
     else if rk_nextRead rk > cur then Some (False, (w, rk))
     else do {
       i \<leftarrow> rank_child env rk req;
       (success, (w1, rk1)) \<leftarrow> bank_IssueCommand env i r (w, rk);
       w2 \<leftarrow> (if req_type req = READ_PRECHARGE
              then insert_close env (burst_gap p * (burstCount req - 1) + cur + tAL p + tRTP p) w1
              else Some w1);
       Some (success, (w2, rank_read_timing p cur req rk1))
     }
   })"

definition StandardRank_Write :: "RankEnv \<Rightarrow> nat \<Rightarrow> rank_state \<Rightarrow> (bool \<times> rank_state) option" where
  "StandardRank_Write env r wr = (case wr of (w, rk) \<Rightarrow> do {
     let p = rk_prm env;
     let cur = now w;
     req \<leftarrow> heap w r;
     if bank (address req) \<ge> bankCount rk then Some (False, (w, rk))
     else if rk_nextWrite rk > cur then Some (False, (w, rk))
     else do {
       i \<leftarrow> rank_child env rk req;
       (success, (w1, rk1)) \<leftarrow> bank_IssueCommand env i r (w, rk);
       w2 \<leftarrow> (if req_type req = WRITE_PRECHARGE
              then insert_close env (cur + burst_gap p * (burstCount req - 1) + tAL p + tCWD p + tBURST p + tWR p) w1
              else Some w1);
       Some (success, (w2, rank_write_timing p cur req rk1))
     }
   })"

definition StandardRank_Precharge :: "RankEnv \<Rightarrow> nat \<Rightarrow> rank_state \<Rightarrow> (bool \<times> rank_state) option" where
  "StandardRank_Precharge env r wr = (case wr of (w, rk) \<Rightarrow> do {
     req \<leftarrow> heap w r;
     if bank (address req) \<ge> bankCount rk then Some (False, (w, rk))
     else do {
       i \<leftarrow> rank_child env rk req;
       (success, (w1, rk1)) \<leftarrow> bank_IssueCommand env i r (w, rk);
       idle \<leftarrow> StandardRank_Idle rk1;
       let rk2 = (if idle then rk1\<lparr>rk_state := STANDARDRANK_CLOSED\<rparr> else rk1);
       Some (success, (w1, rk2\<lparr>rk_nextPrecharge := max (rk_nextPrecharge rk2) (now w + tPPD (rk_prm env))\<rparr>))
     }
   })"

text \<open>The loops over all banks: asking until one refuses, asking all and counting, issuing to all
  with the assertion that each accepts.\<close>

fun banks_issuable ::
  "RankEnv \<Rightarrow> nat list \<Rightarrow> NVMainRequest \<Rightarrow> rank_state \<Rightarrow> (bool \<times> FailReasons option \<times> StandardRank) option" where
  "banks_issuable env [] req wr = Some (True, None, snd wr)"
| "banks_issuable env (i # is) req wr = do {
     (ok, reason, rk') \<leftarrow> bank_IsIssuable env i req wr;
     if ok then banks_issuable env is req (fst wr, rk') else Some (False, reason, rk')
   }"

fun count_issuable :: "RankEnv \<Rightarrow> nat list \<Rightarrow> NVMainRequest \<Rightarrow> rank_state \<Rightarrow> (nat \<times> StandardRank) option" where
  "count_issuable env [] req wr = Some (0, snd wr)"
| "count_issuable env (i # is) req wr = do {
     (ok, _, rk') \<leftarrow> bank_IsIssuable env i req wr;
     (n, rk'') \<leftarrow> count_issuable env is req (fst wr, rk');
     Some (if ok then Suc n else n, rk'')
   }"

fun issue_all :: "RankEnv \<Rightarrow> nat list \<Rightarrow> nat \<Rightarrow> rank_state \<Rightarrow> rank_state option" where
  "issue_all env [] r wr = Some wr"
| "issue_all env (i # is) r wr = do {
     (ok, wr') \<leftarrow> bank_IssueCommand env i r wr;
     if ok then issue_all env is r wr' else None
   }"

definition CanPowerDown :: "RankEnv \<Rightarrow> NVMainRequest \<Rightarrow> rank_state \<Rightarrow> (bool \<times> StandardRank) option" where
  "CanPowerDown env req wr =
     (if rk_state (snd wr) = STANDARDRANK_REFRESHING then Some (False, snd wr)
      else do {
        (ok, _, rk') \<leftarrow> banks_issuable env [0..<length (banks (snd wr))] req wr;
        Some (ok, rk')
      })"

definition StandardRank_PowerDown :: "RankEnv \<Rightarrow> nat \<Rightarrow> rank_state \<Rightarrow> (bool \<times> rank_state) option" where
  "StandardRank_PowerDown env r wr = do {
     req \<leftarrow> heap (fst wr) r;
     (w1, rk1) \<leftarrow> issue_all env [0..<length (banks (snd wr))] r wr;
     let rk2 = (case req_type req of
          POWERDOWN_PDA \<Rightarrow> rk1\<lparr>rk_state := STANDARDRANK_PDA\<rparr>
        | POWERDOWN_PDPF \<Rightarrow> rk1\<lparr>rk_state := STANDARDRANK_PDPF\<rparr>
        | POWERDOWN_PDPS \<Rightarrow> rk1\<lparr>rk_state := STANDARDRANK_PDPS\<rparr>
        | _ \<Rightarrow> rk1);
     w2 \<leftarrow> insert_response (rk_siblings env) (rk_self env) r (now w1 + tPD (rk_prm env)) w1;
     Some (True, (w2, rk2))
   }"

definition CanPowerUp :: "RankEnv \<Rightarrow> NVMainRequest \<Rightarrow> rank_state \<Rightarrow> (bool \<times> StandardRank) option" where
  "CanPowerUp env req wr = do {
     let n = length (banks (snd wr));
     (issuableCount, rk') \<leftarrow> count_issuable env [0..<n] req wr;
     if issuableCount = 0 \<or> issuableCount = n then Some (issuableCount = n, rk') else None
   }"

definition StandardRank_PowerUp :: "RankEnv \<Rightarrow> nat \<Rightarrow> rank_state \<Rightarrow> (bool \<times> rank_state) option" where
  "StandardRank_PowerUp env r wr = do {
     let p = rk_prm env;
     (w1, rk1) \<leftarrow> issue_all env [0..<length (banks (snd wr))] r wr;
     let (puTimer, rk2) = (case rk_state rk1 of
          STANDARDRANK_PDA \<Rightarrow> (tXP p, rk1\<lparr>rk_state := STANDARDRANK_OPEN\<rparr>)
        | STANDARDRANK_PDPF \<Rightarrow> (tXP p, rk1\<lparr>rk_state := STANDARDRANK_CLOSED\<rparr>)
        | STANDARDRANK_PDPS \<Rightarrow> (tXPDLL p, rk1\<lparr>rk_state := STANDARDRANK_CLOSED\<rparr>)
        | _ \<Rightarrow> (1, rk1));
     w2 \<leftarrow> insert_response (rk_siblings env) (rk_self env) r (now w1 + puTimer) w1;
     Some (True, (w2, rk2))
   }"

text \<open>A refresh of the group of banks that starts at the bank of the request: each bank gets a
  copy, and what it answers is not looked at.\<close>

fun refresh_loop :: "RankEnv \<Rightarrow> nat \<Rightarrow> nat list \<Rightarrow> rank_state \<Rightarrow> rank_state option" where
  "refresh_loop env r [] wr = Some wr"
| "refresh_loop env r (i # is) (w, rk) = do {
     (refReq, w1) \<leftarrow> copy_request r (\<lambda>c. c) w;
     (_, wr2) \<leftarrow> bank_IssueCommand env i refReq (w1, rk);
     refresh_loop env r is wr2
   }"

definition refresh_group :: "NVMainRequest \<Rightarrow> StandardRank \<Rightarrow> nat list option" where
  "refresh_group req rk =
     (let head = bank (address req)
      in if head + banksPerRefresh rk \<le> bankCount rk
         then Some (map (\<lambda>i. unat (head + of_nat i)) [0..<unat (banksPerRefresh rk)]) else None)"

definition StandardRank_Refresh :: "RankEnv \<Rightarrow> nat \<Rightarrow> rank_state \<Rightarrow> (bool \<times> rank_state) option" where
  "StandardRank_Refresh env r wr = (case wr of (w, rk) \<Rightarrow> do {
     let p = rk_prm env;
     let cur = now w;
     if rk_nextActivate rk \<le> cur then do {
       req \<leftarrow> heap w r;
       group \<leftarrow> refresh_group req rk;
       (w1, rk1) \<leftarrow> refresh_loop env r group (w, rk);
       w2 \<leftarrow> update_request r (\<lambda>req. req\<lparr>owner := Some (rk_self env)\<rparr>) w1;
       w3 \<leftarrow> insert_response (rk_siblings env) (rk_self env) r (cur + tRFC p) w2;
       _ \<leftarrow> activate_slot 1 rk1;
       Some (True, (w3, record_activate cur (rk1\<lparr>rk_state := STANDARDRANK_REFRESHING,
                          rk_nextActivate := max (rk_nextActivate rk1) (cur + tRRDR p)\<rparr>)))
     }
     else None
   })"

subsection \<open>Dispatch and completion\<close>

definition StandardRank_NextIssuable :: "RankEnv \<Rightarrow> NVMainRequest \<Rightarrow> StandardRank \<Rightarrow> ncycle_t option" where
  "StandardRank_NextIssuable env req rk = do {
     nextCompare \<leftarrow> (case class_of (req_type req) of
          C_ACT \<Rightarrow> do {
            oldest \<leftarrow> activate_slot 1 rk;
            Some (max (rk_nextActivate rk) (oldest + tRAW (rk_prm env)))
          }
        | C_READ \<Rightarrow> Some (rk_nextRead rk)
        | C_WRITE \<Rightarrow> Some (rk_nextWrite rk)
        | C_PRE \<Rightarrow> Some (rk_nextPrecharge rk)
        | _ \<Rightarrow> None);
     i \<leftarrow> rank_child env rk req;
     next \<leftarrow> DDR3Bank_NextIssuable (rk_bank env i) req (banks rk ! i);
     Some (max next nextCompare)
   }"

definition ask_bank :: "RankEnv \<Rightarrow> NVMainRequest \<Rightarrow> rank_state \<Rightarrow> (bool \<times> FailReasons option \<times> StandardRank) option" where
  "ask_bank env req wr = do {
     i \<leftarrow> rank_child env (snd wr) req;
     bank_IsIssuable env i req wr
   }"

text \<open>The statistics of a refused activate.\<close>

definition count_waits :: "Params \<Rightarrow> ncycle_t \<Rightarrow> StandardRank \<Rightarrow> StandardRank option" where
  "count_waits p cur rk = do {
     newest \<leftarrow> activate_slot 0 rk;
     oldest \<leftarrow> activate_slot 1 rk;
     Some (upd_rank_stats (\<lambda>st.
       let st1 = (if rk_nextActivate rk > cur
                  then st\<lparr>rk_actWaits := rk_actWaits st + 1, rk_actWaitTotal := rk_actWaitTotal st + (rk_nextActivate rk - cur)\<rparr> else st);
           st2 = (if newest + tRRDR p > cur
                  then st1\<lparr>rk_rrdWaits := rk_rrdWaits st1 + 1, rk_rrdWaitTotal := rk_rrdWaitTotal st1 + (newest + tRRDR p - cur)\<rparr> else st1)
       in if oldest + tRAW p > cur
          then st2\<lparr>rk_fawWaits := rk_fawWaits st2 + 1, rk_fawWaitTotal := rk_fawWaitTotal st2 + (oldest + tRAW p - cur)\<rparr> else st2) rk)
   }"

definition StandardRank_IsIssuable ::
  "RankEnv \<Rightarrow> NVMainRequest \<Rightarrow> rank_state \<Rightarrow> (bool \<times> FailReasons option \<times> StandardRank) option" where
  "StandardRank_IsIssuable env req wr = (case wr of (w, rk) \<Rightarrow>
     let p = rk_prm env; cur = now w;
         guarded = (\<lambda>blocked. if blocked then Some (False, Some RANK_TIMING, rk) else ask_bank env req wr);
         lockstep = (\<lambda>(ok, rk'). Some (ok, if ok then None else Some RANK_TIMING, rk'))
     in case req_type req of
          ACTIVATE \<Rightarrow> do {
            oldest \<leftarrow> activate_slot 1 rk;
            (rv, reason, rk1) \<leftarrow> guarded (rk_nextActivate rk > cur \<or> oldest + tRAW p > cur);
            rk2 \<leftarrow> (if rv then Some rk1 else count_waits p cur rk1);
            Some (rv, reason, rk2)
          }
        | READ \<Rightarrow> guarded (rk_nextRead rk > cur)
        | READ_PRECHARGE \<Rightarrow> guarded (rk_nextRead rk > cur)
        | WRITE \<Rightarrow> guarded (rk_nextWrite rk > cur)
        | WRITE_PRECHARGE \<Rightarrow> guarded (rk_nextWrite rk > cur)
        | PRECHARGE \<Rightarrow> guarded (rk_nextPrecharge rk > cur)
        | PRECHARGE_ALL \<Rightarrow> guarded (rk_nextPrecharge rk > cur)
        | POWERDOWN_PDA \<Rightarrow> Option.bind (CanPowerDown env req wr) lockstep
        | POWERDOWN_PDPF \<Rightarrow> Option.bind (CanPowerDown env req wr) lockstep
        | POWERDOWN_PDPS \<Rightarrow> Option.bind (CanPowerDown env req wr) lockstep
        | POWERUP \<Rightarrow> Option.bind (CanPowerUp env req wr) lockstep
        | REFRESH \<Rightarrow> do {
            oldest \<leftarrow> activate_slot 1 rk;
            if rk_nextActivate rk > cur \<or> oldest + tRAW p > cur then Some (False, Some RANK_TIMING, rk)
            else do {
              group \<leftarrow> refresh_group req rk;
              banks_issuable env group req wr
            }
          }
        | _ \<Rightarrow> ask_bank env req wr)"

text \<open>An unknown command that \<^verbatim>\<open>IsIssuable\<close> let through is reported and accepted.\<close>

definition StandardRank_IssueCommand :: "RankEnv \<Rightarrow> nat \<Rightarrow> rank_state \<Rightarrow> (bool \<times> rank_state) option" where
  "StandardRank_IssueCommand env r wr = do {
     req \<leftarrow> heap (fst wr) r;
     (ok, _, rk) \<leftarrow> StandardRank_IsIssuable env req wr;
     let wr1 = (fst wr, rk);
     if \<not> ok then Some (False, wr1)
     else (case req_type req of
        ACTIVATE \<Rightarrow> StandardRank_Activate env r wr1
      | READ \<Rightarrow> StandardRank_Read env r wr1
      | READ_PRECHARGE \<Rightarrow> StandardRank_Read env r wr1
      | WRITE \<Rightarrow> StandardRank_Write env r wr1
      | WRITE_PRECHARGE \<Rightarrow> StandardRank_Write env r wr1
      | PRECHARGE \<Rightarrow> StandardRank_Precharge env r wr1
      | PRECHARGE_ALL \<Rightarrow> StandardRank_Precharge env r wr1
      | POWERDOWN_PDA \<Rightarrow> StandardRank_PowerDown env r wr1
      | POWERDOWN_PDPF \<Rightarrow> StandardRank_PowerDown env r wr1
      | POWERDOWN_PDPS \<Rightarrow> StandardRank_PowerDown env r wr1
      | POWERUP \<Rightarrow> StandardRank_PowerUp env r wr1
      | REFRESH \<Rightarrow> StandardRank_Refresh env r wr1
      | _ \<Rightarrow> Some (True, wr1))
   }"

text \<open>Another rank on the same bus reads or writes.\<close>

definition StandardRank_Notify :: "Params \<Rightarrow> ncycle_t \<Rightarrow> OpType \<Rightarrow> StandardRank \<Rightarrow> StandardRank" where
  "StandardRank_Notify p cur op rk =
     (if op = READ \<or> op = READ_PRECHARGE
      then rk\<lparr>rk_nextRead := max (rk_nextRead rk) (cur + tBURST p + tRTRS p),
              rk_nextWrite := max (rk_nextWrite rk) (cur + tCAS p + tBURST p + tRTRS p - tCWD p)\<rparr>
      else if op = WRITE \<or> op = WRITE_PRECHARGE
      then rk\<lparr>rk_nextWrite := max (rk_nextWrite rk) (cur + tBURST p + tOST p),
              rk_nextRead := max (rk_nextRead rk) (cur + tBURST p + tCWD p + tRTRS p - tCAS p)\<rparr>
      else rk)"

definition StandardRank_RequestComplete ::
  "RankEnv \<Rightarrow> (nat \<Rightarrow> World \<Rightarrow> (bool \<times> World) option) \<Rightarrow> nat \<Rightarrow> rank_state \<Rightarrow> (bool \<times> rank_state) option" where
  "StandardRank_RequestComplete env parent r wr = (case wr of (w, rk) \<Rightarrow> do {
     req \<leftarrow> heap w r;
     if owner req = Some (rk_self env) then do {
       rk1 \<leftarrow> (if req_type req = PRECHARGE \<or> req_type req = REFRESH
               then do { idle \<leftarrow> StandardRank_Idle rk; Some (if idle then rk\<lparr>rk_state := STANDARDRANK_CLOSED\<rparr> else rk) }
               else Some rk);
       w1 \<leftarrow> delete_request r w;
       Some (True, (w1, rk1))
     }
     else do {
       (rv, w1) \<leftarrow> parent r w;
       Some (rv, (w1, rk))
     }
   })"

subsection \<open>Energy and statistics\<close>

definition background_rate :: "Params \<Rightarrow> ncounter_t \<Rightarrow> rat \<Rightarrow> rat \<Rightarrow> rat" where
  "background_rate p devices current energy = (if EnergyModel p = ''current'' then current * rat_of devices else energy)"

definition StandardRank_Cycle :: "Params \<Rightarrow> ncycle_t \<Rightarrow> StandardRank \<Rightarrow> StandardRank" where
  "StandardRank_Cycle p steps rk =
     (let rate = background_rate p (deviceCount rk);
          charge = (\<lambda>x st. st\<lparr>rk_backgroundEnergy := rk_backgroundEnergy st + x * rat_of steps\<rparr>)
      in upd_rank_stats (\<lambda>st. case rk_state rk of
           STANDARDRANK_PDA \<Rightarrow> charge (rate (EIDD3P p) (Epda p)) (st\<lparr>rk_fastExitActiveCycles := rk_fastExitActiveCycles st + steps\<rparr>)
         | STANDARDRANK_PDPF \<Rightarrow> charge (rate (EIDD2P1 p) (Epdpf p)) (st\<lparr>rk_fastExitPrechargeCycles := rk_fastExitPrechargeCycles st + steps\<rparr>)
         | STANDARDRANK_PDPS \<Rightarrow> charge (rate (EIDD2P0 p) (Epdps p)) (st\<lparr>rk_slowExitCycles := rk_slowExitCycles st + steps\<rparr>)
         | STANDARDRANK_REFRESHING \<Rightarrow> charge (rate (EIDD3N p) (Eactstdby p)) (st\<lparr>rk_activeCycles := rk_activeCycles st + steps\<rparr>)
         | STANDARDRANK_OPEN \<Rightarrow> charge (rate (EIDD3N p) (Eactstdby p)) (st\<lparr>rk_activeCycles := rk_activeCycles st + steps\<rparr>)
         | STANDARDRANK_CLOSED \<Rightarrow> charge (rate (EIDD2N p) (Eprestdby p)) (st\<lparr>rk_standbyCycles := rk_standbyCycles st + steps\<rparr>)
         | STANDARDRANK_UNKNOWN \<Rightarrow> charge (rate (EIDD2N p) (Eprestdby p)) st)
         (rk\<lparr>banks := map (DDR3Bank_Cycle steps) (banks rk)\<rparr>))"

definition StandardRank_CalculateStats :: "Params \<Rightarrow> ncycle_t \<Rightarrow> StandardRank \<Rightarrow> StandardRank option" where
  "StandardRank_CalculateStats p cur rk = do {
     bs \<leftarrow> those (map (DDR3Bank_CalculateStats p cur) (banks rk));
     if unat (bankCount rk) \<le> length bs then do {
       let mine = map bk_stats (take (unat (bankCount rk)) bs);
       let current = (EnergyModel p = ''current'');
       let devices = rat_of (deviceCount rk);
       let st = rk_stats rk;
       let time = (if current then rat_of (cur - rk_lastReset rk) else rat_of (cur - rk_lastReset rk) * (1000 / rat_of (CLK p)));
       let act = sum_list (map bk_activeEnergy mine);
       let bst = sum_list (map bk_burstEnergy mine);
       let ref = sum_list (map bk_refreshEnergy mine);
       let power = (\<lambda>e. if time = 0 then 0 else if current then e * Voltage p / time / 1000 else e / time);
       let scale = (if current then devices else 1);
       let bgPower = (if current then power (rk_backgroundEnergy st / devices) else power (rk_backgroundEnergy st));
       Some (rk\<lparr>banks := bs, rk_stats := st\<lparr>
          rk_reads := sum_list (map bk_reads mine), rk_writes := sum_list (map bk_writes mine),
          rk_activateEnergy := act * scale, rk_burstEnergy := bst * scale, rk_refreshEnergy := ref * scale,
          rk_activatePower := power act * scale, rk_burstPower := power bst * scale, rk_refreshPower := power ref * scale,
          rk_backgroundPower := bgPower,
          rk_totalEnergy := sum_list (map bk_bankEnergy mine) + act * scale + bst * scale + ref * scale + rk_backgroundEnergy st,
          rk_totalPower := power act * scale + power bst * scale + power ref * scale + bgPower,
          rk_actWaitAverage := rat_of (rk_actWaitTotal st) / rat_of (rk_actWaits st),
          rk_rrdWaitAverage := rat_of (rk_rrdWaitTotal st) / rat_of (rk_rrdWaits st),
          rk_fawWaitAverage := rat_of (rk_fawWaitTotal st) / rat_of (rk_fawWaits st)\<rparr>\<rparr>)
     }
     else None
   }"

definition StandardRank_ResetStats :: "ncycle_t \<Rightarrow> StandardRank \<Rightarrow> StandardRank" where
  "StandardRank_ResetStats cur rk = rk\<lparr>rk_lastReset := cur\<rparr>"

end
