(* ===== verification/Standard_Rank_Contract.thy ===== *)
theory Standard_Rank_Contract
  imports Standard_Rank
begin

text \<open>
  The rank keeps the command contract: given the contract of its banks, \<^verbatim>\<open>IsIssuable\<close> decides
  the specification \<open>rank_can\<close>, none of the assertions of the rank fails, and \<^verbatim>\<open>IssueCommand\<close>
  carries out what was promised in every bank concerned. The banks stay in power lockstep.
\<close>

subsection \<open>What a rank keeps true of itself\<close>

text \<open>The rank's own bound on a command: the distance between activations and the rolling window
  for activates and refreshes, the bus turn-around for column accesses.\<close>

definition window_slot :: "StandardRank \<Rightarrow> nat" where
  "window_slot rk = unat ((RAWindex rk + 1) mod rawNum rk)"

definition rank_timing_ok :: "Params \<Rightarrow> ncycle_t \<Rightarrow> OpType \<Rightarrow> StandardRank \<Rightarrow> bool" where
  "rank_timing_ok p cur ty rk \<longleftrightarrow> (case class_of ty of
       C_ACT \<Rightarrow> rk_nextActivate rk \<le> cur \<and> rk_lastActivate rk ! window_slot rk + tRAW p \<le> cur
     | C_READ \<Rightarrow> rk_nextRead rk \<le> cur
     | C_WRITE \<Rightarrow> rk_nextWrite rk \<le> cur
     | C_PRE \<Rightarrow> rk_nextPrecharge rk \<le> cur
     | C_PD \<Rightarrow> rk_state rk \<noteq> STANDARDRANK_REFRESHING
     | C_NONE \<Rightarrow> True)"

text \<open>The banks a command concerns.\<close>

definition rank_targets :: "NVMainRequest \<Rightarrow> StandardRank \<Rightarrow> nat list" where
  "rank_targets req rk =
     (let head = unat (bank (address req))
      in if class_of (req_type req) = C_PD \<or> req_type req = POWERUP then [0..<length (banks rk)]
         else if req_type req = REFRESH then [head..<head + unat (banksPerRefresh rk)]
         else [head])"

definition rank_can :: "RankEnv \<Rightarrow> ncycle_t \<Rightarrow> NVMainRequest \<Rightarrow> StandardRank \<Rightarrow> bool" where
  "rank_can env cur req rk \<longleftrightarrow> rank_timing_ok (rk_prm env) cur (req_type req) rk
     \<and> (\<forall>i \<in> set (rank_targets req rk). bank_can (rk_bank env i) cur req (banks rk ! i))"

text \<open>The banks are fine and in lockstep: all are powered down or none, with one earliest time to
  power up.\<close>

definition banks_fine :: "RankEnv \<Rightarrow> nat \<Rightarrow> nat \<Rightarrow> DDR3Bank list \<Rightarrow> bool" where
  "banks_fine env n m bs \<longleftrightarrow> length bs = n \<and> (\<forall>i < n. bank_fine (rk_bank env i) m (bs ! i) \<and> bk_prm (rk_bank env i) = rk_prm env)"

definition lockstep :: "DDR3Bank list \<Rightarrow> bool" where
  "lockstep bs \<longleftrightarrow> (\<forall>b \<in> set bs. \<forall>b' \<in> set bs. power_view b = power_view b')"

definition rank_frame :: "RankEnv \<Rightarrow> nat \<Rightarrow> StandardRank \<Rightarrow> bool" where
  "rank_frame env n rk \<longleftrightarrow> unat (bankCount rk) = n \<and> rawNum rk \<noteq> 0 \<and> length (rk_lastActivate rk) = unat (rawNum rk)
     \<and> find_hook (rk_siblings env) (rk_self env) \<noteq> None \<and> banksPerRefresh rk = BanksPerRefresh (rk_prm env)
     \<and> (\<exists>t. rk_decoder env = Some t \<and> defaultField t = BANK_FIELD)"

definition rank_fine :: "RankEnv \<Rightarrow> nat \<Rightarrow> nat \<Rightarrow> StandardRank \<Rightarrow> bool" where
  "rank_fine env n m rk \<longleftrightarrow> rank_frame env n rk \<and> banks_fine env n m (banks rk) \<and> lockstep (banks rk)"

text \<open>A request names a bank and a subarray; a refresh names the first bank of a group.\<close>

definition rank_fits :: "RankEnv \<Rightarrow> nat \<Rightarrow> nat \<Rightarrow> NVMainRequest \<Rightarrow> bool" where
  "rank_fits env n m req \<longleftrightarrow> translated (address req) \<and> unat (subarray (address req)) < m \<and> unat (bank (address req)) < n
     \<and> (class_of (req_type req) = C_WRITE \<longrightarrow> line_fits (rk_prm env) req)
     \<and> (req_type req = REFRESH \<longrightarrow> unat (bank (address req)) + unat (BanksPerRefresh (rk_prm env)) \<le> n)"

lemma rank_fits_bank:
  assumes "rank_fits env n m req" and "banks_fine env n m bs" and "i < n"
  shows "bank_fits (rk_bank env i) m req"
  using assms by (auto simp: rank_fits_def bank_fits_def banks_fine_def)

lemma rank_fine_slot:
  assumes "rank_frame env n rk"
  shows "activate_slot 1 rk = Some (rk_lastActivate rk ! window_slot rk)" "\<exists>v. activate_slot 0 rk = Some v"
proof -
  have lt: "unat (x mod rawNum rk) < length (rk_lastActivate rk)" for x :: ncounter_t
    using assms by (simp add: rank_frame_def unat_mod_distrib unat_gt_0)
  with assms show "activate_slot 1 rk = Some (rk_lastActivate rk ! window_slot rk)" "\<exists>v. activate_slot 0 rk = Some v"
    by (simp_all add: activate_slot_def window_slot_def rank_frame_def)
qed

lemma rank_child_fits:
  assumes "rank_fine env n m rk" and "rank_fits env n m req" and "length (banks rk') = length (banks rk)"
  shows "rank_child env rk' req = Some (unat (bank (address req)))"
  using assms by (auto simp: GetChild_def rank_fine_def rank_frame_def banks_fine_def rank_fits_def Translate_request_def select_field_def address_field_def)

lemma rank_targets_lt:
  assumes "rank_fine env n m rk" and "rank_fits env n m req" and "i \<in> set (rank_targets req rk)"
  shows "i < n"
  using assms by (auto simp: rank_fine_def rank_frame_def banks_fine_def rank_fits_def rank_targets_def Let_def split: if_splits)

subsection \<open>Asking\<close>

definition rank_like :: "StandardRank \<Rightarrow> StandardRank \<Rightarrow> bool" where
  "rank_like rk rk' \<longleftrightarrow> (\<exists>st. rk' = rk\<lparr>banks := banks rk', rk_stats := st\<rparr>) \<and> list_all2 bank_like (banks rk) (banks rk')"

lemma rank_like_refl [simp]: "rank_like rk rk"
  unfolding rank_like_def by (intro conjI exI [of _ "rk_stats rk"]) (simp_all add: list_all2_refl)

lemma rank_like_trans: "rank_like a b \<Longrightarrow> rank_like b c \<Longrightarrow> rank_like a c"
  unfolding rank_like_def by (cases a; cases b; cases c) (auto intro: list_all2_trans [OF bank_like_trans])

lemma rank_like_stats [simp]: "rank_like rk (upd_rank_stats f rk)"
  unfolding rank_like_def upd_rank_stats_def by (auto simp: list_all2_refl)

lemma rank_like_bank: "i < length (banks rk) \<Longrightarrow> bank_like (banks rk ! i) b \<Longrightarrow> rank_like rk (rk\<lparr>banks := (banks rk)[i := b]\<rparr>)"
  unfolding rank_like_def
  by (intro conjI exI [of _ "rk_stats rk"]) (auto simp: list_all2_conv_all_nth nth_list_update)

lemma rank_like_banks:
  assumes "rank_like rk rk'"
  shows "length (banks rk') = length (banks rk)" "i < length (banks rk) \<Longrightarrow> bank_like (banks rk ! i) (banks rk' ! i)"
  using assms by (auto simp: rank_like_def list_all2_conv_all_nth)

lemma rank_like_same:
  assumes "rank_like rk rk'"
  shows "rank_frame env n rk' = rank_frame env n rk" "rank_timing_ok p cur ty rk' = rank_timing_ok p cur ty rk"
    "rank_targets req rk' = rank_targets req rk" "rk_state rk' = rk_state rk" "banksPerRefresh rk' = banksPerRefresh rk"
    "bankCount rk' = bankCount rk"
  using assms rank_like_banks(1) [OF assms]
  by (cases rk; cases rk'; auto simp: rank_like_def rank_frame_def rank_timing_ok_def rank_targets_def window_slot_def Let_def split: command_class.split)+

lemma rank_like_fine:
  assumes "rank_like rk rk'"
  shows "rank_fine env n m rk' = rank_fine env n m rk"
    and "rank_fine env n m rk \<Longrightarrow> rank_fits env n m req \<Longrightarrow> rank_can env cur req rk' = rank_can env cur req rk"
proof -
  note len = rank_like_banks(1) [OF assms] and nth = rank_like_banks(2) [OF assms]
  have "lockstep (banks rk') = lockstep (banks rk)"
    unfolding lockstep_def all_set_conv_all_nth len using bank_like_power [OF nth] by simp
  moreover have "banks_fine env n m (banks rk') = banks_fine env n m (banks rk)"
    unfolding banks_fine_def len using bank_like_fine(1) [OF nth] by auto
  ultimately show "rank_fine env n m rk' = rank_fine env n m rk"
    by (simp add: rank_fine_def rank_like_same [OF assms])
  assume fine: "rank_fine env n m rk" and fits: "rank_fits env n m req"
  have "bank_can (rk_bank env i) cur req (banks rk' ! i) = bank_can (rk_bank env i) cur req (banks rk ! i)" if "i \<in> set (rank_targets req rk)" for i
  proof -
    have i: "i < n"
      using rank_targets_lt [OF fine fits that] .
    then have "bank_fine (rk_bank env i) m (banks rk ! i)" "i < length (banks rk)" "bank_fits (rk_bank env i) m req"
      using fine fits rank_fits_bank [OF fits] by (auto simp: rank_fine_def banks_fine_def)
    then show ?thesis
      using bank_like_fine(2) [OF nth] by blast
  qed
  then show "rank_can env cur req rk' = rank_can env cur req rk"
    by (simp add: rank_can_def rank_like_same [OF assms])
qed

lemma bank_IsIssuable_spec:
  assumes "rank_fine env n m rk" and "rank_fits env n m req" and "i < n"
  shows "\<exists>reason rk'. bank_IsIssuable env i req (w, rk) = Some (bank_can (rk_bank env i) (now w) req (banks rk ! i), reason, rk') \<and> rank_like rk rk'"
proof -
  have i: "i < length (banks rk)" "bank_fine (rk_bank env i) m (banks rk ! i)" "bank_fits (rk_bank env i) m req"
    using assms rank_fits_bank [OF assms(2) _ assms(3)] by (auto simp: rank_fine_def banks_fine_def)
  from DDR3Bank_IsIssuable_spec [OF i(2,3), of w] i(1) show ?thesis
    by (auto simp: bank_IsIssuable_def rank_like_bank)
qed

lemma bank_can_like:
  assumes "rank_like rk rk'" and "rank_fine env n m rk" and "rank_fits env n m req" and "i < n"
  shows "bank_can (rk_bank env i) cur req (banks rk' ! i) = bank_can (rk_bank env i) cur req (banks rk ! i)"
proof -
  have "i < length (banks rk)" "bank_fine (rk_bank env i) m (banks rk ! i)" "bank_fits (rk_bank env i) m req"
    using assms rank_fits_bank [OF assms(3) _ assms(4)] by (auto simp: rank_fine_def banks_fine_def)
  then show ?thesis
    using bank_like_fine(2) [OF rank_like_banks(2) [OF assms(1)]] by blast
qed

lemma banks_issuable_spec:
  assumes "rank_fine env n m rk" and "rank_fits env n m req" and "\<forall>i \<in> set is. i < n"
  shows "\<exists>reason rk'. banks_issuable env is req (w, rk) =
      Some (\<forall>i \<in> set is. bank_can (rk_bank env i) (now w) req (banks rk ! i), reason, rk') \<and> rank_like rk rk'"
  using assms
proof (induction "is" arbitrary: rk)
  case Nil
  then show ?case by simp
next
  case (Cons i "is")
  obtain reason rk1 where a: "bank_IsIssuable env i req (w, rk) = Some (bank_can (rk_bank env i) (now w) req (banks rk ! i), reason, rk1)"
    and l: "rank_like rk rk1"
    using bank_IsIssuable_spec [OF Cons.prems(1,2), of i w] Cons.prems(3) by auto
  have "\<And>j. j \<in> set is \<Longrightarrow> bank_can (rk_bank env j) (now w) req (banks rk1 ! j) = bank_can (rk_bank env j) (now w) req (banks rk ! j)"
    using bank_can_like [OF l Cons.prems(1,2)] Cons.prems(3) by simp
  moreover obtain reason' rk2 where "banks_issuable env is req (w, rk1) =
      Some (\<forall>i \<in> set is. bank_can (rk_bank env i) (now w) req (banks rk1 ! i), reason', rk2)" "rank_like rk1 rk2"
    using Cons.IH [of rk1] rank_like_fine(1) [OF l] Cons.prems by auto
  ultimately show ?case
    using a l rank_like_trans [OF l] by auto
qed

lemma count_issuable_spec:
  assumes "rank_fine env n m rk" and "rank_fits env n m req" and "\<forall>i \<in> set is. i < n"
  shows "\<exists>rk'. count_issuable env is req (w, rk) =
      Some (length (filter (\<lambda>i. bank_can (rk_bank env i) (now w) req (banks rk ! i)) is), rk') \<and> rank_like rk rk'"
  using assms
proof (induction "is" arbitrary: rk)
  case Nil
  then show ?case by simp
next
  case (Cons i "is")
  obtain reason rk1 where a: "bank_IsIssuable env i req (w, rk) = Some (bank_can (rk_bank env i) (now w) req (banks rk ! i), reason, rk1)"
    and l: "rank_like rk rk1"
    using bank_IsIssuable_spec [OF Cons.prems(1,2), of i w] Cons.prems(3) by auto
  have "filter (\<lambda>j. bank_can (rk_bank env j) (now w) req (banks rk1 ! j)) is = filter (\<lambda>j. bank_can (rk_bank env j) (now w) req (banks rk ! j)) is"
    using bank_can_like [OF l Cons.prems(1,2)] Cons.prems(3) by (intro filter_cong) auto
  moreover obtain rk2 where "count_issuable env is req (w, rk1) =
      Some (length (filter (\<lambda>i. bank_can (rk_bank env i) (now w) req (banks rk1 ! i)) is), rk2)" "rank_like rk1 rk2"
    using Cons.IH [of rk1] rank_like_fine(1) [OF l] Cons.prems by auto
  ultimately show ?case
    using a l rank_like_trans [OF l] by auto
qed

text \<open>In lockstep, either every bank can be powered up or none.\<close>

lemma bank_can_power_up:
  assumes "bank_fine env n b" and "req_type req = POWERUP"
  shows "bank_can env cur req b \<longleftrightarrow> fst (power_view b) \<and> snd (power_view b) \<le> cur"
proof -
  have "can_issue (bk_prm env) cur req (subarrays b ! i)" if "i < length (subarrays b)" for i
    using assms that by (simp add: bank_fine_def sub_fine_def can_issue_def)
  with assms show ?thesis
    by (auto simp: bank_can_def bank_fine_def power_view_def)
qed

lemma power_up_all_or_none:
  assumes "rank_fine env n m rk" and "req_type req = POWERUP" and "i < n" and "j < n"
  shows "bank_can (rk_bank env i) cur req (banks rk ! i) = bank_can (rk_bank env j) cur req (banks rk ! j)"
proof -
  have "banks rk ! i \<in> set (banks rk)" "banks rk ! j \<in> set (banks rk)"
    "bank_fine (rk_bank env i) m (banks rk ! i)" "bank_fine (rk_bank env j) m (banks rk ! j)"
    using assms by (auto simp: rank_fine_def banks_fine_def)
  moreover from this(1,2) have "power_view (banks rk ! i) = power_view (banks rk ! j)"
    using assms(1) unfolding rank_fine_def lockstep_def by blast
  ultimately show ?thesis
    by (simp add: bank_can_power_up [OF _ assms(2)])
qed

lemma CanPowerUp_spec:
  assumes "rank_fine env n m rk" and "rank_fits env n m req" and "req_type req = POWERUP"
  shows "\<exists>rk'. CanPowerUp env req (w, rk) = Some (\<forall>i < n. bank_can (rk_bank env i) (now w) req (banks rk ! i), rk') \<and> rank_like rk rk'"
proof -
  let ?can = "\<lambda>i. bank_can (rk_bank env i) (now w) req (banks rk ! i)"
  have n: "length (banks rk) = n"
    using assms(1) by (simp add: rank_fine_def banks_fine_def)
  obtain rk' where c: "count_issuable env [0..<n] req (w, rk) = Some (length (filter ?can [0..<n]), rk')" "rank_like rk rk'"
    using count_issuable_spec [OF assms(1,2), of "[0..<n]" w] by auto
  show ?thesis
  proof (cases "\<forall>i < n. ?can i")
    case True
    then have "filter ?can [0..<n] = [0..<n]"
      by (simp add: filter_id_conv)
    then have "length (filter ?can [0..<n]) = n" by simp
    then have "CanPowerUp env req (w, rk) = Some (True, rk')"
      using c(1) by (simp add: CanPowerUp_def n)
    with c(2) True show ?thesis by simp
  next
    case False
    then obtain i where i: "i < n" "\<not> ?can i" by blast
    have "\<forall>j < n. \<not> ?can j"
    proof (intro allI impI)
      fix j
      assume "j < n"
      from power_up_all_or_none [OF assms(1,3) i(1) this] i(2) show "\<not> ?can j" by simp
    qed
    then have "length (filter ?can [0..<n]) = 0" "n \<noteq> 0"
      using i(1) by (simp_all add: filter_empty_conv)
    then have "CanPowerUp env req (w, rk) = Some (False, rk')"
      using c(1) by (simp add: CanPowerUp_def n)
    moreover have "(\<forall>i < n. ?can i) = False" using False by blast
    ultimately show ?thesis using c(2) by (simp only:) blast
  qed
qed

lemma refresh_group_spec:
  assumes "rank_fine env n m rk" and "rank_fits env n m req" and "req_type req = REFRESH"
  shows "refresh_group req rk = Some (rank_targets req rk)"
proof -
  let ?h = "bank (address req)" and ?k = "banksPerRefresh rk"
  have le: "unat ?h + unat ?k \<le> n" "unat (bankCount rk) = n"
    using assms by (auto simp: rank_fine_def rank_frame_def rank_fits_def)
  then have no: "unat ?h + unat ?k < 2 ^ 64"
    using unat_uint64_lt [of "bankCount rk"] by simp
  have "unat (?h + of_nat i) = unat ?h + i" if "i < unat ?k" for i
    using no that unat_uint64_lt [of ?h] by (subst unat_add_no_overflow) (simp_all add: unat_of_nat)
  then have "map (\<lambda>i. unat (?h + of_nat i)) [0..<unat ?k] = map (\<lambda>i. unat ?h + i) [0..<unat ?k]"
    by (intro map_cong) simp_all
  moreover have "map (\<lambda>i. unat ?h + i) [0..<unat ?k] = [unat ?h..<unat ?h + unat ?k]"
    by (simp add: map_add_upt add.commute)
  moreover have "?h + ?k \<le> bankCount rk"
    using le no by (simp add: word_le_nat_alt unat_add_no_overflow)
  ultimately show ?thesis
    using assms(3) by (simp add: refresh_group_def rank_targets_def Let_def)
qed

lemma count_waits_spec: "rank_frame env n rk \<Longrightarrow> \<exists>rk'. count_waits p cur rk = Some rk' \<and> rank_like rk rk'"
  using rank_fine_slot [of env n rk] by (auto simp: count_waits_def)

lemma ask_bank_spec:
  assumes "rank_fine env n m rk" and "rank_fits env n m req"
  shows "\<exists>reason rk'. ask_bank env req (w, rk) = Some (bank_can (rk_bank env (unat (bank (address req)))) (now w) req
      (banks rk ! unat (bank (address req))), reason, rk') \<and> rank_like rk rk'"
  using bank_IsIssuable_spec [OF assms, of "unat (bank (address req))" w] assms(2)
  by (simp add: ask_bank_def rank_child_fits [OF assms] rank_fits_def)

lemma StandardRank_IsIssuable_spec:
  assumes "rank_fine env n m rk" and "rank_fits env n m req"
  shows "\<exists>reason rk'. StandardRank_IsIssuable env req (w, rk) = Some (rank_can env (now w) req rk, reason, rk') \<and> rank_like rk rk'"
proof -
  have frame: "rank_frame env n rk" "length (banks rk) = n"
    using assms(1) by (auto simp: rank_fine_def banks_fine_def)
  note slot = rank_fine_slot(1) [OF frame(1)]
  note ask = ask_bank_spec [OF assms, of w]
  have pd: "\<exists>rk'. CanPowerDown env req (w, rk) = Some (rk_state rk \<noteq> STANDARDRANK_REFRESHING
      \<and> (\<forall>i < n. bank_can (rk_bank env i) (now w) req (banks rk ! i)), rk') \<and> rank_like rk rk'"
    using banks_issuable_spec [OF assms, of "[0..<n]" w] by (auto simp: CanPowerDown_def frame(2))
  have up: "\<exists>rk'. CanPowerUp env req (w, rk) = Some (\<forall>i < n. bank_can (rk_bank env i) (now w) req (banks rk ! i), rk') \<and> rank_like rk rk'"
    if "req_type req = POWERUP"
    using CanPowerUp_spec [OF assms that] .
  have rf: "\<exists>reason rk'. banks_issuable env (rank_targets req rk) req (w, rk) =
      Some (\<forall>i \<in> set (rank_targets req rk). bank_can (rk_bank env i) (now w) req (banks rk ! i), reason, rk') \<and> rank_like rk rk'"
    using banks_issuable_spec [OF assms] rank_targets_lt [OF assms] by blast
  have act: "\<exists>rk'. count_waits p cur rk1 = Some rk' \<and> rank_like rk rk'" if "rank_like rk rk1" for p cur rk1
    using count_waits_spec [of env n rk1] rank_like_same(1) [OF that] frame(1) rank_like_trans [OF that] by blast
  show ?thesis
  proof (cases "req_type req = ACTIVATE")
    case True
    obtain reason rk1 where a: "ask_bank env req (w, rk) = Some (bank_can (rk_bank env (unat (bank (address req)))) (now w) req
      (banks rk ! unat (bank (address req))), reason, rk1)" "rank_like rk rk1"
      using ask by blast
    obtain rk2 rk3 where "count_waits (rk_prm env) (now w) rk = Some rk2" "rank_like rk rk2"
      "count_waits (rk_prm env) (now w) rk1 = Some rk3" "rank_like rk rk3"
      using act [OF rank_like_refl] act [OF a(2)] by blast
    with a True slot show ?thesis
      by (auto simp: StandardRank_IsIssuable_def rank_can_def rank_timing_ok_def rank_targets_def Let_def not_less)
  next
    case False
    have rfg: "refresh_group req rk = Some (rank_targets req rk)" if "req_type req = REFRESH"
      using refresh_group_spec [OF assms that] .
    show ?thesis
      using False ask pd up rf rfg slot frame(2)
      by (cases "req_type req") (auto simp: StandardRank_IsIssuable_def rank_can_def rank_timing_ok_def Let_def not_less
          rank_targets_def [of req rk])
  qed
qed

subsection \<open>Issuing\<close>

lemma bank_can_kind:
  assumes "req_type req' = req_type req" and "address req' = address req"
  shows "bank_can env cur req' b = bank_can env cur req b"
  by (simp add: bank_can_def assms can_issue_kind [OF assms])

lemma bank_fits_kind:
  assumes "req_type req' = req_type req" and "address req' = address req" and "class_of (req_type req) \<noteq> C_WRITE"
  shows "bank_fits env m req' = bank_fits env m req"
  using assms by (simp add: bank_fits_def)

lemma banks_fine_update:
  "banks_fine env n m bs \<Longrightarrow> i < n \<Longrightarrow> bank_fine (rk_bank env i) m b \<Longrightarrow> banks_fine env n m (bs[i := b])"
  by (simp add: banks_fine_def nth_list_update)

lemma bank_IssueCommand_spec:
  assumes "banks_fine env n m (banks rk)" and "i < n" and "world_ready w" and "heap w r = Some req" and "bank_fits (rk_bank env i) m req"
  shows "\<exists>w' b'. bank_IssueCommand env i r (w, rk) =
      Some (bank_can (rk_bank env i) (now w) req (banks rk ! i), w', rk\<lparr>banks := (banks rk)[i := b']\<rparr>)
    \<and> world_step w w' \<and> world_ready w' \<and> bank_fine (rk_bank env i) m b'
    \<and> power_view b' = (if bank_can (rk_bank env i) (now w) req (banks rk ! i)
        then view_after (rk_prm env) (now w) (req_type req) (power_view (banks rk ! i)) else power_view (banks rk ! i))"
proof -
  have i: "bank_fine (rk_bank env i) m (banks rk ! i)" "bk_prm (rk_bank env i) = rk_prm env" "i < length (banks rk)"
    using assms(1,2) by (auto simp: banks_fine_def)
  from bank.issue_decides [OF assms(3) i(1) assms(4,5)] obtain w' b' where
    b': "DDR3Bank_IssueCommand (rk_bank env i) r (w, banks rk ! i) = Some (bank_can (rk_bank env i) (now w) req (banks rk ! i), w', b')"
    "world_step w w'" "world_ready w'" "bank_fine (rk_bank env i) m b'"
    by blast
  with bank_issue_view [OF i(1) assms(5,3,4) b'(1)] i(2,3) show ?thesis
    by (auto simp: bank_IssueCommand_def)
qed

text \<open>The state of a loop over banks: those already served are fine and have the new power view,
  the others are untouched.\<close>

definition served :: "RankEnv \<Rightarrow> nat \<Rightarrow> nat \<Rightarrow> (nat \<Rightarrow> bool \<times> ncycle_t) \<Rightarrow> nat set \<Rightarrow> DDR3Bank list \<Rightarrow> DDR3Bank list \<Rightarrow> bool" where
  "served env n m view A bs bs' \<longleftrightarrow> banks_fine env n m bs'
     \<and> (\<forall>i < n. if i \<in> A then power_view (bs' ! i) = view i else bs' ! i = bs ! i)"

lemma served_empty: "banks_fine env n m bs \<Longrightarrow> served env n m view {} bs bs"
  by (simp add: served_def)

lemma served_step:
  assumes "served env n m view A (bs[i := b]) bs'" and "power_view b = view i" and "i < n" and "i \<notin> A" and "length bs = n"
  shows "served env n m view (insert i A) bs bs'"
  using assms by (auto simp: served_def nth_list_update)

lemma issue_all_done:
  assumes "banks_fine env n m (banks rk)" and "world_ready w" and "heap w r = Some req" and "class_of (req_type req) \<noteq> C_WRITE"
    and "distinct is" and "\<forall>i \<in> set is. i < n \<and> bank_fits (rk_bank env i) m req \<and> bank_can (rk_bank env i) (now w) req (banks rk ! i)"
  shows "\<exists>w' bs. issue_all env is r (w, rk) = Some (w', rk\<lparr>banks := bs\<rparr>) \<and> world_step w w' \<and> world_ready w'
    \<and> served env n m (\<lambda>i. view_after (rk_prm env) (now w) (req_type req) (power_view (banks rk ! i))) (set is) (banks rk) bs"
  using assms
proof (induction "is" arbitrary: w rk req)
  case Nil
  then show ?case
    by (intro exI [of _ w] exI [of _ "banks rk"]) (simp add: world_ready_def world_step_refl served_empty)
next
  case (Cons i "is")
  have i: "i < n" "bank_fits (rk_bank env i) m req" "bank_can (rk_bank env i) (now w) req (banks rk ! i)" and len: "length (banks rk) = n"
    and ok: "world_ok w"
    using Cons.prems by (auto simp: banks_fine_def world_ready_def)
  obtain w1 b where s: "bank_IssueCommand env i r (w, rk) = Some (True, w1, rk\<lparr>banks := (banks rk)[i := b]\<rparr>)"
    "world_step w w1" "world_ready w1" "bank_fine (rk_bank env i) m b"
    "power_view b = view_after (rk_prm env) (now w) (req_type req) (power_view (banks rk ! i))"
    using bank_IssueCommand_spec [OF Cons.prems(1) i(1) Cons.prems(2,3) i(2)] i(3) by auto
  obtain req1 where "heap w1 r = Some req1" "req_kind req1 = req_kind req"
    using world_step_request [OF s(2) ok Cons.prems(3)] .
  then have req1: "heap w1 r = Some req1" "req_type req1 = req_type req" "address req1 = address req" and "now w1 = now w"
    using world_stepD [OF s(2)] by (auto simp: req_kind_def)
  note kind = bank_can_kind [OF req1(2,3)] bank_fits_kind [OF req1(2,3) Cons.prems(4)]
  let ?rk = "rk\<lparr>banks := (banks rk)[i := b]\<rparr>"
  have other: "(banks rk)[i := b] ! j = banks rk ! j" if "j \<in> set is" for j
    using Cons.prems(5) that by (intro nth_list_update_neq) auto
  have "\<forall>j \<in> set is. j < n \<and> bank_fits (rk_bank env j) m req1 \<and> bank_can (rk_bank env j) (now w1) req1 (banks ?rk ! j)"
    using Cons.prems(5,6) kind \<open>now w1 = now w\<close> other by auto
  from Cons.IH [OF _ s(3) req1(1) _ _ this] banks_fine_update [OF Cons.prems(1) i(1) s(4)] Cons.prems(4,5) req1(2) obtain w2 bs where
    t: "issue_all env is r (w1, ?rk) = Some (w2, rk\<lparr>banks := bs\<rparr>)" "world_step w1 w2" "world_ready w2"
    "served env n m (\<lambda>j. view_after (rk_prm env) (now w1) (req_type req1) (power_view (banks ?rk ! j))) (set is) (banks ?rk) bs"
    by auto
  have "served env n m (\<lambda>j. view_after (rk_prm env) (now w) (req_type req) (power_view (banks rk ! j))) (set is) ((banks rk)[i := b]) bs"
    using t(4) \<open>now w1 = now w\<close> req1(2) other by (auto simp: served_def)
  from served_step [OF this s(5) i(1) _ len] Cons.prems(5) s(1) t(1,3) world_step_trans [OF s(2) t(2)] show ?case
    by auto
qed

lemma lockstep_nth: "lockstep bs \<longleftrightarrow> (\<forall>i < length bs. \<forall>j < length bs. power_view (bs ! i) = power_view (bs ! j))"
  unfolding lockstep_def all_set_conv_all_nth by blast

lemma lockstep_map:
  assumes "lockstep bs" and "length bs' = length bs" and "\<And>i. i < length bs \<Longrightarrow> power_view (bs' ! i) = f (power_view (bs ! i))"
  shows "lockstep bs'"
  unfolding lockstep_nth assms(2)
proof (intro allI impI)
  fix i j
  assume "i < length bs" "j < length bs"
  with assms(1) have "power_view (bs ! i) = power_view (bs ! j)"
    unfolding lockstep_nth by blast
  with assms(3) \<open>i < length bs\<close> \<open>j < length bs\<close> show "power_view (bs' ! i) = power_view (bs' ! j)"
    by simp
qed

lemma served_lockstep:
  assumes "served env n m (\<lambda>i. f (power_view (bs ! i))) A bs bs'" and "lockstep bs" and "length bs = n" and "A = {0..<n} \<or> f = (\<lambda>v. v)"
  shows "lockstep bs'"
proof (rule lockstep_map [OF assms(2), where f = f])
  show "length bs' = length bs"
    using assms(1,3) by (simp add: served_def banks_fine_def)
  show "power_view (bs' ! i) = f (power_view (bs ! i))" if "i < length bs" for i
    using assms(1,3,4) that by (cases "i \<in> A") (auto simp: served_def)
qed

lemma copy_request_ready:
  assumes "world_ready w" and "heap w r = Some req"
  obtains c w1 req1 where "copy_request r (\<lambda>c. c) w = Some (c, w1)" and "world_step w w1" and "world_ready w1" and "heap w1 c = Some req1"
    and "req_type req1 = req_type req" and "address req1 = address req"
proof -
  let ?c = "req\<lparr>flags := 0, burstCount := 1, writeProgress := 0, cancellations := 0\<rparr>"
  have ok: "world_ok w"
    using assms(1) by (simp add: world_ready_def)
  have c: "copy_request r (\<lambda>c. c) w = Some (next_ref w, w\<lparr>heap := (heap w)(next_ref w \<mapsto> ?c), next_ref := Suc (next_ref w)\<rparr>)"
    using copy_request_fresh [OF ok assms(2)] by simp
  from that [OF c copy_request_step [OF c world_step_refl [OF ok]]] copy_request_ok [OF ok c] assms(1) show ?thesis
    by (simp add: world_ready_def sims_ok_def)
qed

lemma refresh_loop_done:
  assumes "banks_fine env n m (banks rk)" and "world_ready w" and "heap w r = Some req" and "req_type req = REFRESH"
    and "distinct is" and "\<forall>i \<in> set is. i < n \<and> bank_fits (rk_bank env i) m req \<and> bank_can (rk_bank env i) (now w) req (banks rk ! i)"
  shows "\<exists>w' bs. refresh_loop env r is (w, rk) = Some (w', rk\<lparr>banks := bs\<rparr>) \<and> world_step w w' \<and> world_ready w'
    \<and> served env n m (\<lambda>i. power_view (banks rk ! i)) (set is) (banks rk) bs"
  using assms
proof (induction "is" arbitrary: w rk req)
  case Nil
  then show ?case
    by (intro exI [of _ w] exI [of _ "banks rk"]) (simp add: world_ready_def world_step_refl served_empty)
next
  case (Cons i "is")
  have i: "i < n" "bank_fits (rk_bank env i) m req" "bank_can (rk_bank env i) (now w) req (banks rk ! i)" and len: "length (banks rk) = n"
    and ok: "world_ok w"
    using Cons.prems by (auto simp: banks_fine_def world_ready_def)
  obtain c w1 req1 where c: "copy_request r (\<lambda>c. c) w = Some (c, w1)" "world_step w w1" "world_ready w1" "heap w1 c = Some req1"
    "req_type req1 = req_type req" "address req1 = address req"
    by (rule copy_request_ready [OF Cons.prems(2,3)])
  have "bank_fits (rk_bank env i) m req1" "bank_can (rk_bank env i) (now w1) req1 (banks rk ! i)"
    using i(2,3) bank_fits_kind [OF c(5,6)] bank_can_kind [OF c(5,6)] Cons.prems(4) world_stepD [OF c(2)] by simp_all
  then obtain w2 b where s: "bank_IssueCommand env i c (w1, rk) = Some (True, w2, rk\<lparr>banks := (banks rk)[i := b]\<rparr>)"
    "world_step w1 w2" "world_ready w2" "bank_fine (rk_bank env i) m b" "power_view b = power_view (banks rk ! i)"
    using bank_IssueCommand_spec [OF Cons.prems(1) i(1) c(3,4)] c(5) Cons.prems(4) by (auto simp: view_after_def)
  have step: "world_step w w2"
    by (rule world_step_trans [OF c(2) s(2)])
  obtain req2 where "heap w2 r = Some req2" "req_kind req2 = req_kind req"
    using world_step_request [OF step ok Cons.prems(3)] .
  then have req2: "heap w2 r = Some req2" "req_type req2 = req_type req" "address req2 = address req" and "now w2 = now w"
    using world_stepD [OF step] by (auto simp: req_kind_def)
  let ?rk = "rk\<lparr>banks := (banks rk)[i := b]\<rparr>"
  have other: "(banks rk)[i := b] ! j = banks rk ! j" if "j \<in> set is" for j
    using Cons.prems(5) that by (intro nth_list_update_neq) auto
  have "\<forall>j \<in> set is. j < n \<and> bank_fits (rk_bank env j) m req2 \<and> bank_can (rk_bank env j) (now w2) req2 (banks ?rk ! j)"
    using Cons.prems(4,6) bank_can_kind [OF req2(2,3)] bank_fits_kind [OF req2(2,3)] \<open>now w2 = now w\<close> other by auto
  from Cons.IH [OF _ s(3) req2(1) _ _ this] banks_fine_update [OF Cons.prems(1) i(1) s(4)] Cons.prems(4,5) req2(2) obtain w3 bs where
    t: "refresh_loop env r is (w2, ?rk) = Some (w3, rk\<lparr>banks := bs\<rparr>)" "world_step w2 w3" "world_ready w3"
    "served env n m (\<lambda>j. power_view (banks ?rk ! j)) (set is) (banks ?rk) bs"
    by auto
  have "served env n m (\<lambda>j. power_view (banks rk ! j)) (set is) ((banks rk)[i := b]) bs"
    using t(4) other by (auto simp: served_def)
  from served_step [OF this s(5) i(1) _ len] Cons.prems(5) c(1) s(1) t(1,3) world_step_trans [OF step t(2)] show ?case
    by auto
qed

text \<open>The result of a command of the rank.\<close>

definition rank_done :: "RankEnv \<Rightarrow> nat \<Rightarrow> nat \<Rightarrow> World \<Rightarrow> bool \<times> rank_state \<Rightarrow> bool" where
  "rank_done env n m w x \<longleftrightarrow> fst x \<and> world_step w (fst (snd x)) \<and> world_ready (fst (snd x)) \<and> rank_fine env n m (snd (snd x))"

lemma rank_fine_result:
  assumes "rank_fine env n m rk" and "banks_fine env n m (banks rk')" and "lockstep (banks rk')" and "bankCount rk' = bankCount rk"
    and "rawNum rk' = rawNum rk" and "length (rk_lastActivate rk') = length (rk_lastActivate rk)" and "banksPerRefresh rk' = banksPerRefresh rk"
  shows "rank_fine env n m rk'"
  using assms by (simp add: rank_fine_def rank_frame_def)

lemma rank_fine_bank:
  assumes "rank_fine env n m rk" and "i < n" and "bank_fine (rk_bank env i) m b" and "power_view b = power_view (banks rk ! i)"
  shows "banks_fine env n m ((banks rk)[i := b])" "lockstep ((banks rk)[i := b])"
proof -
  have "served env n m (\<lambda>i. power_view (banks rk ! i)) {i} (banks rk) ((banks rk)[i := b])"
    using assms by (auto simp: served_def rank_fine_def banks_fine_update nth_list_update banks_fine_def)
  with assms(1) show "banks_fine env n m ((banks rk)[i := b])" "lockstep ((banks rk)[i := b])"
    using served_lockstep [of env n m "\<lambda>v. v" "banks rk" "{i}" "(banks rk)[i := b]"]
    by (auto simp: served_def rank_fine_def banks_fine_def)
qed

lemma insert_response_ready:
  assumes "world_ready w" and "find_hook ch ob \<noteq> None"
  obtains w' where "insert_response ch ob r t w = Some w'" and "world_step w w'" and "world_ready w'"
proof -
  obtain hook where "find_hook ch ob = Some hook"
    using assms(2) by auto
  then obtain w' where i: "insert_response ch ob r t w = Some w'"
    using insert_response_Some by blast
  have "world_ok w"
    using assms(1) by (simp add: world_ready_def)
  from that [OF i insert_response_step [OF i world_step_refl [OF this]]] insert_response_ok [OF this i] sims_kept(3) [OF i] assms(1) show ?thesis
    by (simp add: world_ready_def)
qed

lemma insert_close_ready:
  assumes "world_ready w" and "find_hook (rk_siblings env) (rk_self env) \<noteq> None"
  obtains w' where "insert_close env t w = Some w'" and "world_step w w'" and "world_ready w'"
proof -
  let ?dup = "NVMainRequest_new\<lparr>req_type := PRECHARGE, owner := Some (rk_self env)\<rparr>"
  define w1 where "w1 = w\<lparr>heap := (heap w)(next_ref w \<mapsto> ?dup), next_ref := Suc (next_ref w)\<rparr>"
  have ok: "world_ok w" "queue_good (Suc (next_ref w)) (evq w)" "request_ok ?dup"
    using assms(1) queue_good_mono [of "next_ref w" "evq w" "Suc (next_ref w)"]
    by (auto simp: world_ready_def world_ok_def request_ok_def NVMainRequest_new_def NVMDataBlock_new_def block_ok_def)
  then have w1: "world_ready w1" "world_step w w1"
    using assms(1) by (auto simp: w1_def world_ready_def world_ok_def sims_ok_def world_step_def less_Suc_eq split: if_splits)
  obtain w' where "insert_response (rk_siblings env) (rk_self env) (next_ref w) t w1 = Some w'" "world_step w1 w'" "world_ready w'"
    by (rule insert_response_ready [OF w1(1) assms(2)])
  then show ?thesis
    using world_step_trans [OF w1(2)] by (intro that [of w']) (simp_all add: insert_close_def new_request_def w1_def [symmetric])
qed

lemma rank_fine_hook: "rank_fine env n m rk \<Longrightarrow> find_hook (rk_siblings env) (rk_self env) \<noteq> None"
  by (simp add: rank_fine_def rank_frame_def)

lemma dropWhile_head: "dropWhile P xs = i # ys \<Longrightarrow> i \<in> set xs"
  by (metis list.set_intros(1) set_dropWhileD)

lemma DDR3Bank_Idle_total: "bank_fine env m b \<Longrightarrow> \<exists>v. DDR3Bank_Idle b = Some v"
  by (auto simp: DDR3Bank_Idle_def Let_def bank_fine_def split: list.split dest: dropWhile_head)

lemma banks_idle_total:
  assumes "\<forall>b \<in> set bs. \<exists>v. DDR3Bank_Idle b = Some v" and "n \<le> length bs"
  shows "\<exists>v. banks_idle bs n = Some v"
  using assms by (induction bs n rule: banks_idle.induct) auto

lemma StandardRank_Idle_total:
  assumes "rank_frame env n rk" and "banks_fine env n m (banks rk)"
  shows "\<exists>v. StandardRank_Idle rk = Some v"
proof -
  have "\<exists>v. DDR3Bank_Idle b = Some v" if "b \<in> set (banks rk)" for b
    using that assms(2) by (auto simp: banks_fine_def in_set_conv_nth dest!: DDR3Bank_Idle_total)
  with assms banks_idle_total [of "banks rk" "unat (bankCount rk)"] show ?thesis
    by (auto simp: StandardRank_Idle_def rank_frame_def banks_fine_def)
qed

text \<open>A command to the one bank the request names.\<close>

lemma rank_child_issue:
  assumes fine: "rank_fine env n m rk" and w: "world_ready w" "heap w r = Some req" and fits: "rank_fits env n m req"
    and can: "rank_can env (now w) req rk" and ty: "class_of (req_type req) \<notin> {C_PD, C_NONE}" "req_type req \<noteq> REFRESH"
  obtains w' bs where "bank_IssueCommand env (unat (bank (address req))) r (w, rk) = Some (True, w', rk\<lparr>banks := bs\<rparr>)"
    and "world_step w w'" and "world_ready w'" and "banks_fine env n m bs" and "lockstep bs"
    and "rank_child env rk req = Some (unat (bank (address req)))" and "bank (address req) < bankCount rk"
proof -
  let ?i = "unat (bank (address req))"
  have b: "banks_fine env n m (banks rk)" "?i < n" and lt: "bank (address req) < bankCount rk"
    using fine fits by (auto simp: rank_fine_def rank_frame_def rank_fits_def word_less_nat_alt)
  have pu: "req_type req \<noteq> POWERUP"
    using ty(1) by auto
  have "bank_can (rk_bank env ?i) (now w) req (banks rk ! ?i)" "req_type req \<noteq> POWERUP"
    using can pu ty by (auto simp: rank_can_def rank_targets_def Let_def)
  then obtain w' b' where "bank_IssueCommand env ?i r (w, rk) = Some (True, w', rk\<lparr>banks := (banks rk)[?i := b']\<rparr>)"
    "world_step w w'" "world_ready w'" "bank_fine (rk_bank env ?i) m b'" "power_view b' = power_view (banks rk ! ?i)"
    using bank_IssueCommand_spec [OF b w rank_fits_bank [OF fits b]] ty(1) by (auto simp: view_after_def)
  with that rank_fine_bank [OF fine b(2)] rank_child_fits [OF fine fits refl] lt show ?thesis
    by blast
qed

lemmas rank_cmd_simps = Let_def rank_done_def not_le not_less

lemma StandardRank_Activate_done:
  assumes fine: "rank_fine env n m rk" and w: "world_ready w" "heap w r = Some req" and fits: "rank_fits env n m req"
    and can: "rank_can env (now w) req rk" and ty: "req_type req = ACTIVATE"
  shows "succeeds (StandardRank_Activate env r (w, rk)) (rank_done env n m w)"
proof -
  have ty': "class_of (req_type req) \<notin> {C_PD, C_NONE}" "req_type req \<noteq> REFRESH"
    using ty by auto
  obtain w' bs where i: "bank_IssueCommand env (unat (bank (address req))) r (w, rk) = Some (True, w', rk\<lparr>banks := bs\<rparr>)"
    "world_step w w'" "world_ready w'" "banks_fine env n m bs" "lockstep bs"
    "rank_child env rk req = Some (unat (bank (address req)))" "bank (address req) < bankCount rk"
    by (rule rank_child_issue [OF fine w fits can ty'])
  have t: "rk_nextActivate rk \<le> now w" "rk_lastActivate rk ! window_slot rk + tRAW (rk_prm env) \<le> now w"
    using can ty by (auto simp: rank_can_def rank_timing_ok_def)
  have slot: "activate_slot 1 rk = Some (rk_lastActivate rk ! window_slot rk)"
    using rank_fine_slot(1) [of env n rk] fine by (simp add: rank_fine_def)
  show ?thesis
    using i t slot w(2) by (auto simp: StandardRank_Activate_def rank_cmd_simps record_activate_def intro!: rank_fine_result [OF fine])
qed

lemma rank_timing_sel [simp]:
  "banks (rank_read_timing p cur req rk) = banks rk" "banks (rank_write_timing p cur req rk) = banks rk"
  "bankCount (rank_read_timing p cur req rk) = bankCount rk" "bankCount (rank_write_timing p cur req rk) = bankCount rk"
  "rawNum (rank_read_timing p cur req rk) = rawNum rk" "rawNum (rank_write_timing p cur req rk) = rawNum rk"
  "rk_lastActivate (rank_read_timing p cur req rk) = rk_lastActivate rk" "rk_lastActivate (rank_write_timing p cur req rk) = rk_lastActivate rk"
  "banksPerRefresh (rank_read_timing p cur req rk) = banksPerRefresh rk" "banksPerRefresh (rank_write_timing p cur req rk) = banksPerRefresh rk"
  by (simp_all add: rank_read_timing_def rank_write_timing_def)

lemma StandardRank_Read_done:
  assumes fine: "rank_fine env n m rk" and w: "world_ready w" "heap w r = Some req" and fits: "rank_fits env n m req"
    and can: "rank_can env (now w) req rk" and ty: "class_of (req_type req) = C_READ"
  shows "succeeds (StandardRank_Read env r (w, rk)) (rank_done env n m w)"
proof -
  have ty': "class_of (req_type req) \<notin> {C_PD, C_NONE}" "req_type req \<noteq> REFRESH"
    using ty by auto
  obtain w' bs where i: "bank_IssueCommand env (unat (bank (address req))) r (w, rk) = Some (True, w', rk\<lparr>banks := bs\<rparr>)"
    "world_step w w'" "world_ready w'" "banks_fine env n m bs" "lockstep bs"
    "rank_child env rk req = Some (unat (bank (address req)))" "bank (address req) < bankCount rk"
    by (rule rank_child_issue [OF fine w fits can ty'])
  have t: "rk_nextRead rk \<le> now w"
    using can ty by (auto simp: rank_can_def rank_timing_ok_def)
  obtain w2 where c: "insert_close env (burst_gap (rk_prm env) * (burstCount req - 1) + now w + tAL (rk_prm env) + tRTP (rk_prm env)) w' = Some w2"
    "world_step w' w2" "world_ready w2"
    by (rule insert_close_ready [OF i(3) rank_fine_hook [OF fine]])
  show ?thesis
    using i c t w(2) world_step_trans [OF i(2) c(2)]
    by (auto simp: StandardRank_Read_def rank_cmd_simps intro!: rank_fine_result [OF fine])
qed

lemma StandardRank_Write_done:
  assumes fine: "rank_fine env n m rk" and w: "world_ready w" "heap w r = Some req" and fits: "rank_fits env n m req"
    and can: "rank_can env (now w) req rk" and ty: "class_of (req_type req) = C_WRITE"
  shows "succeeds (StandardRank_Write env r (w, rk)) (rank_done env n m w)"
proof -
  have ty': "class_of (req_type req) \<notin> {C_PD, C_NONE}" "req_type req \<noteq> REFRESH"
    using ty by auto
  obtain w' bs where i: "bank_IssueCommand env (unat (bank (address req))) r (w, rk) = Some (True, w', rk\<lparr>banks := bs\<rparr>)"
    "world_step w w'" "world_ready w'" "banks_fine env n m bs" "lockstep bs"
    "rank_child env rk req = Some (unat (bank (address req)))" "bank (address req) < bankCount rk"
    by (rule rank_child_issue [OF fine w fits can ty'])
  have t: "rk_nextWrite rk \<le> now w"
    using can ty by (auto simp: rank_can_def rank_timing_ok_def)
  obtain w2 where c: "insert_close env (now w + burst_gap (rk_prm env) * (burstCount req - 1) + tAL (rk_prm env) + tCWD (rk_prm env)
      + tBURST (rk_prm env) + tWR (rk_prm env)) w' = Some w2" "world_step w' w2" "world_ready w2"
    by (rule insert_close_ready [OF i(3) rank_fine_hook [OF fine]])
  show ?thesis
    using i c t w(2) world_step_trans [OF i(2) c(2)]
    by (auto simp: StandardRank_Write_def rank_cmd_simps intro!: rank_fine_result [OF fine])
qed

lemma StandardRank_Precharge_done:
  assumes fine: "rank_fine env n m rk" and w: "world_ready w" "heap w r = Some req" and fits: "rank_fits env n m req"
    and can: "rank_can env (now w) req rk" and ty: "class_of (req_type req) = C_PRE"
  shows "succeeds (StandardRank_Precharge env r (w, rk)) (rank_done env n m w)"
proof -
  have ty': "class_of (req_type req) \<notin> {C_PD, C_NONE}" "req_type req \<noteq> REFRESH"
    using ty by auto
  obtain w' bs where i: "bank_IssueCommand env (unat (bank (address req))) r (w, rk) = Some (True, w', rk\<lparr>banks := bs\<rparr>)"
    "world_step w w'" "world_ready w'" "banks_fine env n m bs" "lockstep bs"
    "rank_child env rk req = Some (unat (bank (address req)))" "bank (address req) < bankCount rk"
    by (rule rank_child_issue [OF fine w fits can ty'])
  obtain v where "StandardRank_Idle (rk\<lparr>banks := bs\<rparr>) = Some v"
    using StandardRank_Idle_total [of env n "rk\<lparr>banks := bs\<rparr>" m] fine i(4) by (auto simp: rank_fine_def rank_frame_def)
  then show ?thesis
    using i w(2) by (auto simp: StandardRank_Precharge_def rank_cmd_simps intro!: rank_fine_result [OF fine])
qed

text \<open>A command to all banks.\<close>

lemma rank_issue_all:
  assumes fine: "rank_fine env n m rk" and w: "world_ready w" "heap w r = Some req" and fits: "rank_fits env n m req"
    and can: "rank_can env (now w) req rk" and ty: "class_of (req_type req) = C_PD \<or> req_type req = POWERUP"
  obtains w' bs where "issue_all env [0..<length (banks rk)] r (w, rk) = Some (w', rk\<lparr>banks := bs\<rparr>)"
    and "world_step w w'" and "world_ready w'" and "banks_fine env n m bs" and "lockstep bs"
proof -
  have b: "banks_fine env n m (banks rk)" "lockstep (banks rk)" "length (banks rk) = n" and nw: "class_of (req_type req) \<noteq> C_WRITE"
    using fine ty by (auto simp: rank_fine_def banks_fine_def)
  have "bank_can (rk_bank env i) (now w) req (banks rk ! i)" if "i < n" for i
    using can ty that b(3) by (auto simp: rank_can_def rank_targets_def)
  then have "\<forall>i \<in> set [0..<n]. i < n \<and> bank_fits (rk_bank env i) m req \<and> bank_can (rk_bank env i) (now w) req (banks rk ! i)"
    using rank_fits_bank [OF fits b(1)] by simp
  from issue_all_done [OF b(1) w nw distinct_upt this] obtain w' bs where
    s: "issue_all env [0..<n] r (w, rk) = Some (w', rk\<lparr>banks := bs\<rparr>)" "world_step w w'" "world_ready w'"
    "served env n m (\<lambda>i. view_after (rk_prm env) (now w) (req_type req) (power_view (banks rk ! i))) {0..<n} (banks rk) bs"
    by auto
  show ?thesis
  proof (rule that)
    show "issue_all env [0..<length (banks rk)] r (w, rk) = Some (w', rk\<lparr>banks := bs\<rparr>)"
      using s(1) b(3) by simp
    show "lockstep bs"
      using served_lockstep [OF s(4) b(2,3)] by simp
    show "banks_fine env n m bs"
      using s(4) by (simp add: served_def)
  qed (fact s(2) s(3))+
qed

lemma StandardRank_PowerDown_done:
  assumes fine: "rank_fine env n m rk" and w: "world_ready w" "heap w r = Some req" and fits: "rank_fits env n m req"
    and can: "rank_can env (now w) req rk" and ty: "class_of (req_type req) = C_PD"
  shows "succeeds (StandardRank_PowerDown env r (w, rk)) (rank_done env n m w)"
proof -
  obtain w' bs where i: "issue_all env [0..<length (banks rk)] r (w, rk) = Some (w', rk\<lparr>banks := bs\<rparr>)"
    "world_step w w'" "world_ready w'" "banks_fine env n m bs" "lockstep bs"
    by (rule rank_issue_all [OF fine w fits can disjI1 [OF ty]])
  obtain w2 where c: "insert_response (rk_siblings env) (rk_self env) r (now w' + tPD (rk_prm env)) w' = Some w2"
    "world_step w' w2" "world_ready w2"
    by (rule insert_response_ready [OF i(3) rank_fine_hook [OF fine]])
  show ?thesis
    using i c w(2) ty world_step_trans [OF i(2) c(2)]
    by (cases "req_type req") (auto simp: StandardRank_PowerDown_def rank_cmd_simps intro!: rank_fine_result [OF fine])
qed

lemma StandardRank_PowerUp_done:
  assumes fine: "rank_fine env n m rk" and w: "world_ready w" "heap w r = Some req" and fits: "rank_fits env n m req"
    and can: "rank_can env (now w) req rk" and ty: "req_type req = POWERUP"
  shows "succeeds (StandardRank_PowerUp env r (w, rk)) (rank_done env n m w)"
proof -
  obtain w' bs where i: "issue_all env [0..<length (banks rk)] r (w, rk) = Some (w', rk\<lparr>banks := bs\<rparr>)"
    "world_step w w'" "world_ready w'" "banks_fine env n m bs" "lockstep bs"
    by (rule rank_issue_all [OF fine w fits can disjI2 [OF ty]])
  have "\<exists>w2. insert_response (rk_siblings env) (rk_self env) r t w' = Some w2 \<and> world_step w w2 \<and> world_ready w2" for t
    by (rule insert_response_ready [OF i(3) rank_fine_hook [OF fine], of r t]) (auto intro: world_step_trans [OF i(2)])
  then obtain f where f: "\<And>t. insert_response (rk_siblings env) (rk_self env) r t w' = Some (f t)"
    "\<And>t. world_step w (f t)" "\<And>t. world_ready (f t)"
    by metis
  show ?thesis
    using i f
    by (cases "rk_state rk") (auto simp: StandardRank_PowerUp_def rank_cmd_simps intro!: rank_fine_result [OF fine])
qed

lemma StandardRank_Refresh_done:
  assumes fine: "rank_fine env n m rk" and w: "world_ready w" "heap w r = Some req" and fits: "rank_fits env n m req"
    and can: "rank_can env (now w) req rk" and ty: "req_type req = REFRESH"
  shows "succeeds (StandardRank_Refresh env r (w, rk)) (rank_done env n m w)"
proof -
  have b: "banks_fine env n m (banks rk)" "lockstep (banks rk)" "length (banks rk) = n" "rank_frame env n rk" and ok: "world_ok w"
    using fine w(1) by (auto simp: rank_fine_def banks_fine_def world_ready_def)
  have "distinct (rank_targets req rk)"
    using ty by (simp add: rank_targets_def Let_def)
  moreover have "\<forall>i \<in> set (rank_targets req rk). i < n \<and> bank_fits (rk_bank env i) m req \<and> bank_can (rk_bank env i) (now w) req (banks rk ! i)"
    using can rank_targets_lt [OF fine fits] rank_fits_bank [OF fits b(1)] by (auto simp: rank_can_def)
  ultimately obtain w1 bs where s: "refresh_loop env r (rank_targets req rk) (w, rk) = Some (w1, rk\<lparr>banks := bs\<rparr>)"
    "world_step w w1" "world_ready w1" "served env n m (\<lambda>i. power_view (banks rk ! i)) (set (rank_targets req rk)) (banks rk) bs"
    using refresh_loop_done [OF b(1) w ty] by blast
  have bs: "banks_fine env n m bs" "lockstep bs"
    using s(4) served_lockstep [OF _ b(2,3), of env m "\<lambda>v. v"] by (auto simp: served_def)
  obtain req1 where "heap w1 r = Some req1"
    by (rule world_step_request [OF s(2) ok w(2)])
  then obtain w2 where u: "update_request r (\<lambda>req. req\<lparr>owner := Some (rk_self env)\<rparr>) w1 = Some w2"
    by (auto simp: update_request_def)
  have w2: "world_step w w2" "world_ready w2"
    using update_request_step [OF u s(2)] update_request_ok [OF _ u] sims_kept(1) [OF u] s(3)
    by (auto simp: world_ready_def req_kind_def request_ok_def)
  obtain w3 where c: "insert_response (rk_siblings env) (rk_self env) r (now w + tRFC (rk_prm env)) w2 = Some w3"
    "world_step w2 w3" "world_ready w3"
    by (rule insert_response_ready [OF w2(2) rank_fine_hook [OF fine]])
  have slot: "\<exists>v. activate_slot 1 (rk\<lparr>banks := bs\<rparr>) = Some v"
    using rank_fine_slot(1) [of env n "rk\<lparr>banks := bs\<rparr>"] b(4) by (simp add: rank_frame_def)
  have "rk_nextActivate rk \<le> now w"
    using can ty by (auto simp: rank_can_def rank_timing_ok_def)
  then show ?thesis
    using s(1) bs u c slot w(2) world_step_trans [OF w2(1) c(2)] refresh_group_spec [OF fine fits ty]
    by (auto simp: StandardRank_Refresh_def rank_cmd_simps record_activate_def intro!: rank_fine_result [OF fine])
qed

interpretation rank: command_module "StandardRank_IsIssuable env" "StandardRank_IssueCommand env" "rank_can env" "rank_fine env n m" "rank_fits env n m" for env n m
proof
  fix w :: World and rk :: StandardRank and req
  assume w: "world_ready w" and rk: "rank_fine env n m rk" and req: "rank_fits env n m req"
  obtain reason rk' where ask: "StandardRank_IsIssuable env req (w, rk) = Some (rank_can env (now w) req rk, reason, rk')" and like: "rank_like rk rk'"
    using StandardRank_IsIssuable_spec [OF rk req] by blast
  have fine: "rank_fine env n m rk'" and can: "rank_fits env n m req' \<Longrightarrow> rank_can env cur req' rk' = rank_can env cur req' rk" for cur req'
    using rank_like_fine [OF like] rk by auto
  with ask show "\<exists>reason rk'. StandardRank_IsIssuable env req (w, rk) = Some (rank_can env (now w) req rk, reason, rk') \<and> rank_fine env n m rk'
      \<and> (\<forall>cur req'. rank_fits env n m req' \<longrightarrow> rank_can env cur req' rk' = rank_can env cur req' rk)"
    by blast
  fix r
  assume r: "heap w r = Some req"
  show "\<exists>w' rk'. StandardRank_IssueCommand env r (w, rk) = Some (rank_can env (now w) req rk, w', rk')
      \<and> world_step w w' \<and> world_ready w' \<and> rank_fine env n m rk'"
  proof (cases "rank_can env (now w) req rk")
    case False
    with ask r w fine show ?thesis
      by (auto simp: StandardRank_IssueCommand_def world_ready_def world_step_refl)
  next
    case True
    then have c: "rank_can env (now w) req rk'"
      using can req by simp
    have "\<not> bank_can e cur req b" if "class_of (req_type req) = C_NONE" "req_type req \<noteq> POWERUP" for e cur b
      using that by (cases "req_type req") (simp_all add: bank_can_def can_issue_def Let_def)
    then have "class_of (req_type req) \<noteq> C_NONE \<or> req_type req = POWERUP"
      using c by (auto simp: rank_can_def rank_targets_def Let_def split: if_splits)
    then have "succeeds (StandardRank_IssueCommand env r (w, rk)) (rank_done env n m w)"
      using True ask r StandardRank_Activate_done [OF fine w r req c] StandardRank_Read_done [OF fine w r req c] StandardRank_Write_done [OF fine w r req c]
        StandardRank_Precharge_done [OF fine w r req c] StandardRank_Refresh_done [OF fine w r req c] StandardRank_PowerDown_done [OF fine w r req c]
        StandardRank_PowerUp_done [OF fine w r req c]
      by (cases "req_type req") (simp_all add: StandardRank_IssueCommand_def)
    with True show ?thesis
      by (auto simp: succeeds_def rank_done_def)
  qed
qed

subsection \<open>Properties\<close>

text \<open>A freshly configured rank is fine.\<close>

lemma StandardRank_SetConfig_fine:
  assumes "StandardRank_SetConfig (rk_prm env) given True b StandardRank_new = Some rk"
    and "rk_decoder env = Some t" and "defaultField t = BANK_FIELD" and "find_hook (rk_siblings env) (rk_self env) \<noteq> None"
    and "\<And>i. bank_fine (rk_bank env i) m b \<and> bk_prm (rk_bank env i) = rk_prm env"
  shows "rank_fine env (unat (BANKS (rk_prm env))) m rk"
  using assms by (auto simp: StandardRank_SetConfig_def Let_def StandardRank_new_def rank_fine_def rank_frame_def banks_fine_def lockstep_def
      split: if_splits)

text \<open>A rank of two such banks.\<close>

definition demo_rank_env :: RankEnv where
  "demo_rank_env = \<lparr>rk_prm = Params_new\<lparr>MATHeight := 32768\<rparr>, rk_self = 7, rk_siblings = [(8, 7)],
     rk_decoder = Some (AddressTranslator_new\<lparr>defaultField := BANK_FIELD\<rparr>), rk_outs = (\<lambda>_. 0), rk_bank = (\<lambda>i. demo_bank_env)\<rparr>"

definition demo_rank :: StandardRank where
  "demo_rank = StandardRank_new\<lparr>bankCount := 2, rawNum := 4, banksPerRefresh := BanksPerRefresh Params_new,
     rk_lastActivate := [0, 0, 0, 0], banks := [demo_bank, demo_bank]\<rparr>"

definition rank_world :: World where
  "rank_world = World_new\<lparr>heap := [0 \<mapsto> bank_request POWERDOWN_PDPF 1], next_ref := 1\<rparr>"

lemma demo_rank_fine: "rank_fine demo_rank_env 2 2 demo_rank"
proof -
  have "banks_fine demo_rank_env 2 2 [demo_bank, demo_bank]"
    using demo_bank_fine by (auto simp: banks_fine_def demo_rank_env_def demo_bank_env_def less_2_cases_iff)
  moreover have "rank_frame demo_rank_env 2 demo_rank"
    by (simp add: rank_frame_def demo_rank_def StandardRank_new_def demo_rank_env_def)
  ultimately show ?thesis
    by (simp add: rank_fine_def lockstep_def demo_rank_def)
qed

lemma rank_world_ready: "world_ready rank_world" "now rank_world = 0" "heap rank_world 0 = Some (bank_request POWERDOWN_PDPF 1)"
  by (auto simp: world_ready_def sims_ok_def rank_world_def world_ok_def World_new_def queue_good_def ids_below_def EventQueue_new_def
      queue_ok_def om_ok_def next_key_def om_first_def split: if_splits)

end
