(* ===== verification/Standard_Rank_Window.thy ===== *)
theory Standard_Rank_Window
  imports Standard_Rank_Contract
begin

text \<open>
  The rolling activation window of a rank: the ring of counters \<^verbatim>\<open>lastActivate\<close> holds the cycles
  of the latest row activations, and no window of \<open>tRAW\<close> cycles gets more of them than it has
  counters.
\<close>

subsection \<open>What a command does to the window\<close>

definition window_of :: "StandardRank \<Rightarrow> ncounter_t \<times> ncounter_t \<times> ncycle_t list \<times> ncycle_t" where
  "window_of rk = (rawNum rk, RAWindex rk, rk_lastActivate rk, rk_nextActivate rk)"

text \<open>An accepted activation finds the window open and enters the current cycle.\<close>

definition activation :: "Params \<Rightarrow> ncycle_t \<Rightarrow> StandardRank \<Rightarrow> StandardRank \<Rightarrow> bool" where
  "activation p cur rk rk' \<longleftrightarrow> rk_nextActivate rk \<le> cur \<and> rk_lastActivate rk ! window_slot rk + tRAW p \<le> cur
     \<and> window_of rk' = (rawNum rk, (RAWindex rk + 1) mod rawNum rk, (rk_lastActivate rk)[window_slot rk := cur],
          max (rk_nextActivate rk) (cur + tRRDR p))"

definition window_step :: "Params \<Rightarrow> World \<Rightarrow> OpType \<Rightarrow> StandardRank \<Rightarrow> bool \<times> rank_state \<Rightarrow> bool" where
  "window_step p w ty rk x \<longleftrightarrow> (if fst x \<and> class_of ty = C_ACT then activation p (now w) rk (snd (snd x))
     else window_of (snd (snd x)) = window_of rk)"

lemma window_of_simps [simp]:
  "window_of (rk\<lparr>banks := bs\<rparr>) = window_of rk" "window_of (rk\<lparr>rk_state := st\<rparr>) = window_of rk" "window_of (upd_rank_stats f rk) = window_of rk"
  "window_of (rk\<lparr>rk_nextPrecharge := c\<rparr>) = window_of rk" "window_of (rank_read_timing p cur req rk) = window_of rk"
  "window_of (rank_write_timing p cur req rk) = window_of rk"
  by (simp_all add: window_of_def upd_rank_stats_def rank_read_timing_def rank_write_timing_def)

lemma bank_calls_window:
  "returns (bank_IssueCommand env i r wr) (\<lambda>x. window_of (snd (snd x)) = window_of (snd wr))"
  "returns (bank_IsIssuable env i req wr) (\<lambda>x. window_of (snd (snd x)) = window_of (snd wr))"
  by (cases wr; auto simp: bank_IssueCommand_def bank_IsIssuable_def returns_def bind_eq_Some_conv split: if_splits)+

lemma ask_bank_window: "returns (ask_bank env req wr) (\<lambda>x. window_of (snd (snd x)) = window_of (snd wr))"
  unfolding ask_bank_def by (auto intro!: returns_bind bank_calls_window)

lemma bank_loops_window:
  "returns (banks_issuable env is req wr) (\<lambda>x. window_of (snd (snd x)) = window_of (snd wr))"
  "returns (count_issuable env is req wr) (\<lambda>x. window_of (snd x) = window_of (snd wr))"
  "returns (issue_all env is r wr) (\<lambda>x. window_of (snd x) = window_of (snd wr))"
  "returns (refresh_loop env r is wr) (\<lambda>x. window_of (snd x) = window_of (snd wr))"
proof -
  show "returns (banks_issuable env is req wr) (\<lambda>x. window_of (snd (snd x)) = window_of (snd wr))"
  proof (induction "is" arbitrary: wr)
    case (Cons i "is")
    show ?case
      by (auto intro!: returns_bind_cut [OF bank_calls_window(2)] returns_mono [OF Cons.IH])
  qed simp
  show "returns (count_issuable env is req wr) (\<lambda>x. window_of (snd x) = window_of (snd wr))"
  proof (induction "is" arbitrary: wr)
    case (Cons i "is")
    show ?case
      by (auto intro!: returns_bind_cut [OF bank_calls_window(2)] returns_bind_cut [OF Cons.IH])
  qed simp
  show "returns (issue_all env is r wr) (\<lambda>x. window_of (snd x) = window_of (snd wr))"
  proof (induction "is" arbitrary: wr)
    case (Cons i "is")
    show ?case
      by (auto intro!: returns_bind_cut [OF bank_calls_window(1)] returns_mono [OF Cons.IH])
  qed simp
  show "returns (refresh_loop env r is wr) (\<lambda>x. window_of (snd x) = window_of (snd wr))"
  proof (induction "is" arbitrary: wr)
    case (Cons i "is")
    show ?case
      by (cases wr) (auto intro!: returns_bind returns_bind_cut [OF bank_calls_window(1)] returns_mono [OF Cons.IH])
  qed simp
qed

lemma count_waits_window: "returns (count_waits p cur rk) (\<lambda>rk'. window_of rk' = window_of rk)"
  by (auto simp: count_waits_def intro!: returns_bind)

text \<open>Asking never moves the window, and a yes to an activation says that it is open.\<close>

lemma StandardRank_IsIssuable_window:
  assumes "activate_slot 1 rk = Some v"
  shows "returns (StandardRank_IsIssuable env req (w, rk)) (\<lambda>x. window_of (snd (snd x)) = window_of rk
    \<and> (fst x \<longrightarrow> class_of (req_type req) = C_ACT \<longrightarrow> rk_nextActivate rk \<le> now w \<and> v + tRAW (rk_prm env) \<le> now w))"
proof -
  note ask = ask_bank_window [of env req "(w, rk)", simplified]
  note all = bank_loops_window(1) [of env _ req "(w, rk)", simplified]
  have pd: "returns (CanPowerDown env req (w, rk)) (\<lambda>x. window_of (snd x) = window_of rk)"
    unfolding CanPowerDown_def by (auto intro!: returns_bind_cut [OF bank_loops_window(1)])
  have up: "returns (CanPowerUp env req (w, rk)) (\<lambda>x. window_of (snd x) = window_of rk)"
    unfolding CanPowerUp_def by (auto simp: Let_def intro!: returns_bind_cut [OF bank_loops_window(2)])
  show ?thesis
  proof (cases "req_type req = ACTIVATE")
    case True
    show ?thesis
      by (auto simp: True StandardRank_IsIssuable_def Let_def assms not_less intro!: returns_bind split: if_splits
          dest!: returnsD [OF count_waits_window] returnsD [OF ask])
  next
    case False
    then show ?thesis
      by (cases "req_type req") (auto simp: StandardRank_IsIssuable_def Let_def assms not_less intro!: returns_mono [OF ask]
          returns_mono [OF all] returns_bind dest!: returnsD [OF pd] returnsD [OF up])
  qed
qed

lemma window_slots:
  "activate_slot 1 rk = Some v \<Longrightarrow> v = rk_lastActivate rk ! window_slot rk"
  "window_of rk' = window_of rk \<Longrightarrow> window_slot rk' = window_slot rk \<and> activate_slot k rk' = activate_slot k rk"
  "window_of (record_activate cur rk) = (rawNum rk, (RAWindex rk + 1) mod rawNum rk, (rk_lastActivate rk)[window_slot rk := cur], rk_nextActivate rk)"
  by (auto simp: activate_slot_def window_slot_def window_of_def record_activate_def Let_def split: if_splits)

lemma activationI:
  assumes "window_of rk1 = window_of rk" and "rk_nextActivate rk \<le> cur" and "rk_lastActivate rk ! window_slot rk + tRAW p \<le> cur"
    and "window_of rk' = (rawNum rk1, (RAWindex rk1 + 1) mod rawNum rk1, (rk_lastActivate rk1)[window_slot rk1 := cur],
          max (rk_nextActivate rk1) (cur + tRRDR p))"
  shows "activation p cur rk rk'"
  using assms window_slots(2) [OF assms(1)] by (auto simp: activation_def window_of_def)

lemma StandardRank_Activate_window:
  assumes "window_of rk1 = window_of rk" and "activate_slot 1 rk = Some v" and "rk_nextActivate rk \<le> now w" and "v + tRAW (rk_prm env) \<le> now w"
    and "heap w r = Some req" and "req_type req = ACTIVATE"
  shows "returns (StandardRank_Activate env r (w, rk1)) (window_step (rk_prm env) w ACTIVATE rk)"
proof -
  have slot: "activate_slot 1 rk1 = Some v" "rk_nextActivate rk1 = rk_nextActivate rk"
    using assms(1,2) window_slots(2) [OF assms(1)] by (auto simp: window_of_def)
  have "activation (rk_prm env) (now w) rk
      (let rk3 = record_activate (now w) (if rk_state rk2 = STANDARDRANK_CLOSED then rk2\<lparr>rk_state := STANDARDRANK_OPEN\<rparr> else rk2)
       in rk3\<lparr>rk_nextActivate := max (rk_nextActivate rk3) (now w + tRRDR (rk_prm env))\<rparr>)"
    if "window_of rk2 = window_of rk1" for rk2
    using assms(1-4) that window_slots(1) [OF assms(2)]
    by (intro activationI [of rk2]) (auto simp: Let_def window_slots(3) record_activate_def window_of_def window_slot_def)
  then show ?thesis
    using assms slot
    by (auto simp: StandardRank_Activate_def Let_def window_step_def intro!: returns_bind returns_bind_cut [OF bank_calls_window(1)])
qed

lemma StandardRank_Refresh_window:
  assumes "window_of rk1 = window_of rk" and "activate_slot 1 rk = Some v" and "rk_nextActivate rk \<le> now w" and "v + tRAW (rk_prm env) \<le> now w"
    and "heap w r = Some req" and "req_type req = REFRESH"
  shows "returns (StandardRank_Refresh env r (w, rk1)) (window_step (rk_prm env) w REFRESH rk)"
proof -
  have "activation (rk_prm env) (now w) rk (record_activate (now w) (rk2\<lparr>rk_state := STANDARDRANK_REFRESHING,
      rk_nextActivate := max (rk_nextActivate rk2) (now w + tRRDR (rk_prm env))\<rparr>))"
    if "window_of rk2 = window_of rk1" for rk2
    using assms(1-4) that window_slots(1) [OF assms(2)]
    by (intro activationI [of rk2]) (auto simp: record_activate_def window_of_def window_slot_def Let_def)
  then show ?thesis
    using assms
    by (auto simp: StandardRank_Refresh_def Let_def window_step_def intro!: returns_bind returns_bind_cut [OF bank_loops_window(4)])
qed

lemma rank_commands_window:
  assumes "heap w r = Some req"
  shows "returns (StandardRank_Read env r (w, rk)) (\<lambda>x. window_of (snd (snd x)) = window_of rk)"
    "returns (StandardRank_Write env r (w, rk)) (\<lambda>x. window_of (snd (snd x)) = window_of rk)"
    "returns (StandardRank_Precharge env r (w, rk)) (\<lambda>x. window_of (snd (snd x)) = window_of rk)"
    "returns (StandardRank_PowerDown env r (w, rk)) (\<lambda>x. window_of (snd (snd x)) = window_of rk)"
    "returns (StandardRank_PowerUp env r (w, rk)) (\<lambda>x. window_of (snd (snd x)) = window_of rk)"
proof -
  show "returns (StandardRank_Read env r (w, rk)) (\<lambda>x. window_of (snd (snd x)) = window_of rk)"
    by (auto simp: StandardRank_Read_def assms Let_def intro!: returns_bind dest!: returnsD [OF bank_calls_window(1)])
  show "returns (StandardRank_Write env r (w, rk)) (\<lambda>x. window_of (snd (snd x)) = window_of rk)"
    by (auto simp: StandardRank_Write_def assms Let_def intro!: returns_bind dest!: returnsD [OF bank_calls_window(1)])
  show "returns (StandardRank_Precharge env r (w, rk)) (\<lambda>x. window_of (snd (snd x)) = window_of rk)"
    by (auto simp: StandardRank_Precharge_def assms Let_def intro!: returns_bind dest!: returnsD [OF bank_calls_window(1)])
  show "returns (StandardRank_PowerDown env r (w, rk)) (\<lambda>x. window_of (snd (snd x)) = window_of rk)"
    by (auto simp: StandardRank_PowerDown_def assms Let_def intro!: returns_bind dest!: returnsD [OF bank_loops_window(3)] split: OpType.split)
  show "returns (StandardRank_PowerUp env r (w, rk)) (\<lambda>x. window_of (snd (snd x)) = window_of rk)"
    by (auto simp: StandardRank_PowerUp_def assms Let_def intro!: returns_bind dest!: returnsD [OF bank_loops_window(3)]
        split: StandardRank_State.splits prod.splits if_splits)
qed

lemma StandardRank_IssueCommand_window:
  assumes "heap w r = Some req" and "activate_slot 1 rk = Some v"
  shows "returns (StandardRank_IssueCommand env r (w, rk)) (window_step (rk_prm env) w (req_type req) rk)"
proof (cases "StandardRank_IsIssuable env req (w, rk)")
  case None
  then show ?thesis by (simp add: StandardRank_IssueCommand_def assms)
next
  case (Some x)
  then obtain ok reason rk1 where ask: "StandardRank_IsIssuable env req (w, rk) = Some (ok, reason, rk1)" and same: "window_of rk1 = window_of rk"
    and guard: "ok \<Longrightarrow> class_of (req_type req) = C_ACT \<Longrightarrow> rk_nextActivate rk \<le> now w \<and> v + tRAW (rk_prm env) \<le> now w"
    using returnsD [OF StandardRank_IsIssuable_window [OF assms(2)] Some] by (cases x) auto
  have other: "returns m (window_step (rk_prm env) w (req_type req) rk)"
    if "returns m (\<lambda>x. window_of (snd (snd x)) = window_of rk1)" "class_of (req_type req) \<noteq> C_ACT" for m
    using that same by (auto simp: window_step_def intro: returns_mono)
  have act: "returns (StandardRank_Activate env r (w, rk1)) (window_step (rk_prm env) w (req_type req) rk)" if "ok" "req_type req = ACTIVATE"
    using StandardRank_Activate_window [OF same assms(2) _ _ assms(1)] guard that by simp
  have ref: "returns (StandardRank_Refresh env r (w, rk1)) (window_step (rk_prm env) w (req_type req) rk)" if "ok" "req_type req = REFRESH"
    using StandardRank_Refresh_window [OF same assms(2) _ _ assms(1)] guard that by simp
  show ?thesis
    using act ref other [OF rank_commands_window(1) [OF assms(1)]] other [OF rank_commands_window(2) [OF assms(1)]]
      other [OF rank_commands_window(3) [OF assms(1)]] other [OF rank_commands_window(4) [OF assms(1)]] other [OF rank_commands_window(5) [OF assms(1)]]
    by (cases ok; cases "req_type req") (simp_all add: StandardRank_IssueCommand_def assms(1) ask, simp_all add: window_step_def same)
qed

subsection \<open>Runs\<close>

text \<open>A run of a rank: commands in any order, accepted or not, completions, notifications from
  other ranks, cycles that are counted, and everything that happens outside the rank (the clock,
  the requests and the banks change as they like). The trace lists the cycles of the accepted
  activates and refreshes, the latest first.\<close>

inductive rank_run :: "RankEnv \<Rightarrow> rank_state \<Rightarrow> ncycle_t list \<Rightarrow> rank_state \<Rightarrow> bool" for env wr0 where
  run_start: "rank_run env wr0 [] wr0"
| run_command: "rank_run env wr0 tr (w, rk) \<Longrightarrow> heap w r = Some req \<Longrightarrow> StandardRank_IssueCommand env r (w, rk) = Some (ok, wr')
    \<Longrightarrow> rank_run env wr0 (if ok \<and> class_of (req_type req) = C_ACT then now w # tr else tr) wr'"
| run_complete: "rank_run env wr0 tr wr \<Longrightarrow> StandardRank_RequestComplete env parent r wr = Some (rv, wr') \<Longrightarrow> rank_run env wr0 tr wr'"
| run_notify: "rank_run env wr0 tr (w, rk) \<Longrightarrow> rank_run env wr0 tr (w, StandardRank_Notify (rk_prm env) (now w) op rk)"
| run_cycle: "rank_run env wr0 tr (w, rk) \<Longrightarrow> rank_run env wr0 tr (w, StandardRank_Cycle (rk_prm env) steps rk)"
| run_outside: "rank_run env wr0 tr (w, rk) \<Longrightarrow> rank_run env wr0 tr (w', rk\<lparr>banks := bs\<rparr>)"

lemma quiet_window:
  "returns (StandardRank_RequestComplete env parent r wr) (\<lambda>x. window_of (snd (snd x)) = window_of (snd wr))"
  "window_of (StandardRank_Notify p cur op rk) = window_of rk" "window_of (StandardRank_Cycle p steps rk) = window_of rk"
proof -
  show "returns (StandardRank_RequestComplete env parent r wr) (\<lambda>x. window_of (snd (snd x)) = window_of (snd wr))"
    by (cases wr) (auto simp: StandardRank_RequestComplete_def bind_eq_Some_conv intro!: returns_bind split: if_splits)
qed (simp_all add: StandardRank_Notify_def StandardRank_Cycle_def window_of_def upd_rank_stats_def Let_def)

text \<open>The ring of counters holds the latest activations.\<close>

definition ring_inv :: "Params \<Rightarrow> ncounter_t \<Rightarrow> ncycle_t list \<Rightarrow> StandardRank \<Rightarrow> bool" where
  "ring_inv p n tr rk \<longleftrightarrow> rawNum rk = n \<and> n \<noteq> 0 \<and> RAWindex rk < n \<and> length (rk_lastActivate rk) = unat n
     \<and> (\<forall>j < length tr. j < unat n \<longrightarrow> rk_lastActivate rk ! ((unat (RAWindex rk) + unat n - j) mod unat n) = tr ! j)
     \<and> (tr \<noteq> [] \<longrightarrow> hd tr + tRRDR p \<le> rk_nextActivate rk)"

definition spread :: "Params \<Rightarrow> nat \<Rightarrow> ncycle_t list \<Rightarrow> bool" where
  "spread p n tr \<longleftrightarrow> (\<forall>i. i + n < length tr \<longrightarrow> tr ! (i + n) + tRAW p \<le> tr ! i) \<and> (\<forall>i. Suc i < length tr \<longrightarrow> tr ! Suc i + tRRDR p \<le> tr ! i)"

lemma ring_inv_window: "window_of rk' = window_of rk \<Longrightarrow> ring_inv p n tr rk \<Longrightarrow> ring_inv p n tr rk'"
  by (auto simp: ring_inv_def window_of_def)

lemma ring_slot:
  assumes "ring_inv p n tr rk"
  shows "window_slot rk = (unat (RAWindex rk) + 1) mod unat n"
    and "unat ((RAWindex rk + 1) mod n) = (unat (RAWindex rk) + 1) mod unat n" and "activate_slot 1 rk = Some (rk_lastActivate rk ! window_slot rk)"
proof -
  have lt: "unat (RAWindex rk) + 1 < 2 ^ 64" "unat n > 0"
    using assms unat_uint64_lt [of n] by (auto simp: ring_inv_def word_less_nat_alt unat_gt_0)
  show k: "unat ((RAWindex rk + 1) mod n) = (unat (RAWindex rk) + 1) mod unat n"
    using lt by (simp add: unat_mod_distrib unat_add_no_overflow)
  then show s: "window_slot rk = (unat (RAWindex rk) + 1) mod unat n"
    using assms by (simp add: window_slot_def ring_inv_def)
  then show "activate_slot 1 rk = Some (rk_lastActivate rk ! window_slot rk)"
    using assms lt k by (simp add: activate_slot_def ring_inv_def Let_def window_slot_def)
qed

lemma ring_prev:
  fixes k n j :: nat
  assumes "k < n" and "Suc j < n"
  shows "((k + 1) mod n + n - Suc j) mod n = (k + n - j) mod n" "((k + 1) mod n + n - Suc j) mod n \<noteq> (k + 1) mod n"
proof -
  show "((k + 1) mod n + n - Suc j) mod n = (k + n - j) mod n"
    using assms by (cases "k + 1 = n") (auto simp: mod_if)
  show "((k + 1) mod n + n - Suc j) mod n \<noteq> (k + 1) mod n"
    using assms by (cases "k + 1 = n") (auto simp: mod_if)
qed

lemma ring_step:
  assumes inv: "ring_inv p n tr rk" and act: "activation p cur rk rk'"
  shows "ring_inv p n (cur # tr) rk'"
    and "unat n \<le> length tr \<Longrightarrow> tr ! (unat n - 1) + tRAW p \<le> cur" and "tr \<noteq> [] \<Longrightarrow> hd tr + tRRDR p \<le> cur"
proof -
  let ?n = "unat n" and ?k = "unat (RAWindex rk)" and ?la = "rk_lastActivate rk" and ?s = "(unat (RAWindex rk) + 1) mod unat n"
  have n: "0 < ?n" "?k < ?n" "length ?la = ?n" "rawNum rk = n" "n \<noteq> 0"
    using inv by (auto simp: ring_inv_def word_less_nat_alt unat_gt_0)
  have rk': "rawNum rk' = n" "unat (RAWindex rk') = ?s" "rk_lastActivate rk' = ?la[?s := cur]" "cur + tRRDR p \<le> rk_nextActivate rk'"
    using act ring_slot(1,2) [OF inv] n(4) by (auto simp: activation_def window_of_def)
  have "rk_lastActivate rk' ! ((?s + ?n - j) mod ?n) = (cur # tr) ! j" if j: "j < length (cur # tr)" "j < ?n" for j
  proof (cases j)
    case 0
    then show ?thesis using n by (simp add: rk'(3))
  next
    case (Suc i)
    have "?la ! ((?k + ?n - i) mod ?n) = tr ! i"
      using inv j Suc by (simp add: ring_inv_def)
    moreover have "(?k + ?n - i) mod ?n \<noteq> ?s" "(?s + ?n - j) mod ?n = (?k + ?n - i) mod ?n"
      using ring_prev [OF n(2), of i] j(2) Suc by simp_all
    ultimately show ?thesis
      using Suc by (simp add: rk'(3))
  qed
  with rk' n show "ring_inv p n (cur # tr) rk'"
    by (simp add: ring_inv_def word_less_nat_alt)
  show "tr ! (?n - 1) + tRAW p \<le> cur" if "?n \<le> length tr"
  proof -
    have "\<forall>j < length tr. j < ?n \<longrightarrow> ?la ! ((?k + ?n - j) mod ?n) = tr ! j"
      using inv by (simp add: ring_inv_def)
    moreover have "?n - 1 < length tr" "?n - 1 < ?n"
      using n(1) that by simp_all
    ultimately have "?la ! ((?k + ?n - (?n - 1)) mod ?n) = tr ! (?n - 1)"
      by blast
    moreover have "?k + ?n - (?n - 1) = ?k + 1"
      using n by simp
    ultimately show ?thesis
      using act ring_slot(1) [OF inv] by (simp add: activation_def)
  qed
  show "hd tr + tRRDR p \<le> cur" if "tr \<noteq> []"
    using inv act that by (auto simp: ring_inv_def activation_def intro: order_trans)
qed

lemma spread_Cons:
  assumes "spread p n tr" and "n \<le> length tr \<Longrightarrow> tr ! (n - 1) + tRAW p \<le> cur" and "tr \<noteq> [] \<Longrightarrow> hd tr + tRRDR p \<le> cur" and "0 < n"
  shows "spread p n (cur # tr)"
  unfolding spread_def
proof (intro conjI allI impI)
  fix i
  assume "i + n < length (cur # tr)"
  with assms show "(cur # tr) ! (i + n) + tRAW p \<le> (cur # tr) ! i"
    by (cases i) (auto simp: spread_def nth_Cons')
next
  fix i
  assume "Suc i < length (cur # tr)"
  with assms show "(cur # tr) ! Suc i + tRRDR p \<le> (cur # tr) ! i"
    by (cases i) (auto simp: spread_def hd_conv_nth)
qed

lemma rank_run_spread:
  assumes "rank_run env wr0 tr wr" and "ring_inv (rk_prm env) n [] (snd wr0)"
  shows "ring_inv (rk_prm env) n tr (snd wr) \<and> spread (rk_prm env) (unat n) tr"
  using assms(1)
proof induction
  case run_start
  then show ?case using assms(2) by (simp add: spread_def)
next
  case (run_command tr w rk r req ok wr')
  then have inv: "ring_inv (rk_prm env) n tr rk" and sp: "spread (rk_prm env) (unat n) tr" and n: "0 < unat n"
    by (auto simp: ring_inv_def unat_gt_0)
  have step: "window_step (rk_prm env) w (req_type req) rk (ok, wr')"
    using returnsD [OF StandardRank_IssueCommand_window [OF run_command.hyps(2) ring_slot(3) [OF inv]] run_command.hyps(3)] .
  show ?case
  proof (cases "ok \<and> class_of (req_type req) = C_ACT")
    case True
    then have act: "activation (rk_prm env) (now w) rk (snd wr')"
      using step by (simp add: window_step_def)
    show ?thesis
      using True ring_step(1) [OF inv act] spread_Cons [OF sp ring_step(2,3) [OF inv act] n] by simp
  next
    case False
    then have "window_of (snd wr') = window_of rk"
      using step by (auto simp: window_step_def)
    from ring_inv_window [OF this inv] False sp show ?thesis
      by auto
  qed
next
  case (run_complete tr wr parent r rv wr')
  then show ?case
    using ring_inv_window [OF returnsD [OF quiet_window(1) run_complete.hyps(2)]] by simp
next
  case (run_notify tr w rk op)
  then show ?case
    using ring_inv_window [OF quiet_window(2)] by simp
next
  case (run_cycle tr w rk steps)
  then show ?case
    using ring_inv_window [OF quiet_window(3)] by simp
next
  case (run_outside tr w rk w' bs)
  then show ?case
    using ring_inv_window [OF window_of_simps(1)] by simp
qed

text \<open>From the distances to the window.\<close>

lemma spread_nat:
  assumes "spread p n tr" and "\<forall>c \<in> set tr. unat c + unat (tRAW p) < 2 ^ 64 \<and> unat c + unat (tRRDR p) < 2 ^ 64"
  shows "i + n < length tr \<Longrightarrow> unat (tr ! (i + n)) + unat (tRAW p) \<le> unat (tr ! i)"
    and "i < j \<Longrightarrow> j < length tr \<Longrightarrow> unat (tr ! j) + unat (tRRDR p) \<le> unat (tr ! i)"
proof -
  have add: "unat (tr ! i + tRAW p) = unat (tr ! i) + unat (tRAW p)" "unat (tr ! i + tRRDR p) = unat (tr ! i) + unat (tRRDR p)"
    if "i < length tr" for i
    using assms(2) nth_mem [OF that] by (simp_all add: unat_add_no_overflow)
  show "unat (tr ! (i + n)) + unat (tRAW p) \<le> unat (tr ! i)" if "i + n < length tr"
    using assms(1) add(1) [OF that] that by (metis spread_def word_le_nat_alt)
  have suc: "unat (tr ! Suc i) + unat (tRRDR p) \<le> unat (tr ! i)" if "Suc i < length tr" for i
    using assms(1) add(2) [OF that] that by (metis spread_def word_le_nat_alt)
  show "unat (tr ! j) + unat (tRRDR p) \<le> unat (tr ! i)" if "i < j" "j < length tr"
    using that
  proof (induction j)
    case (Suc j)
    show ?case
      using suc [of j] Suc by (cases "i = j") auto
  qed simp
qed

lemma window_count:
  assumes "spread p n tr" and "\<forall>c \<in> set tr. unat c + unat (tRAW p) < 2 ^ 64 \<and> unat c + unat (tRRDR p) < 2 ^ 64" and "0 < n"
  shows "length (filter (\<lambda>c. t \<le> unat c \<and> unat c < t + unat (tRAW p)) tr) \<le> n"
proof -
  define I where "I = {i. i < length tr \<and> t \<le> unat (tr ! i) \<and> unat (tr ! i) < t + unat (tRAW p)}"
  have len: "length (filter (\<lambda>c. t \<le> unat c \<and> unat c < t + unat (tRAW p)) tr) = card I"
    unfolding I_def by (rule length_filter_conv_card)
  have fin: "finite I"
    unfolding I_def by simp
  show ?thesis
  proof (cases "I = {}")
    case True
    then show ?thesis using len by simp
  next
    case False
    let ?a = "Min I" and ?b = "Max I"
    have m: "?a \<in> I" "?b \<in> I"
      using fin False by simp_all
    have "?b < ?a + n"
    proof (rule ccontr)
      assume "\<not> ?b < ?a + n"
      then have le: "?a + n \<le> ?b" by simp
      then have "unat (tr ! ?b) \<le> unat (tr ! (?a + n))"
        using spread_nat(2) [OF assms(1,2), of "?a + n" ?b] m(2) by (cases "?a + n = ?b") (auto simp: I_def)
      moreover have "unat (tr ! (?a + n)) + unat (tRAW p) \<le> unat (tr ! ?a)"
        using spread_nat(1) [OF assms(1,2), of ?a] m(2) le by (auto simp: I_def)
      ultimately show False
        using m by (auto simp: I_def)
    qed
    moreover have "I \<subseteq> {?a..?b}"
      using fin by auto
    then have "card I \<le> Suc ?b - ?a"
      using card_mono [of "{?a..?b}" I] by simp
    moreover have "?a \<le> ?b"
      using m(2) fin by simp
    ultimately show ?thesis
      using len by simp
  qed
qed

subsection \<open>The rolling activation window\<close>

text \<open>C3: In every run of a configured rank, whatever the order of commands and whatever happens
  in between, no window of \<open>tRAW\<close> consecutive cycles contains more than \<open>rawNum\<close> row
  activations (activates and refreshes), and any two activations are at least \<open>tRRDR\<close> cycles
  apart, as long as the clock stays clear of the 64-bit limit.\<close>

theorem rank_activation_window:
  assumes "rank_run env (w0, rk0) tr wr" and "StandardRank_SetConfig (rk_prm env) given True b StandardRank_new = Some rk0"
    and "\<forall>c \<in> set tr. unat c + unat (tRAW (rk_prm env)) < 2 ^ 64 \<and> unat c + unat (tRRDR (rk_prm env)) < 2 ^ 64"
  shows "length (filter (\<lambda>c. t \<le> unat c \<and> unat c < t + unat (tRAW (rk_prm env))) tr) \<le> unat (rawNum rk0)
    \<and> sorted_wrt (\<lambda>c c'. unat c' + unat (tRRDR (rk_prm env)) \<le> unat c) tr"
proof -
  have inv: "ring_inv (rk_prm env) (rawNum rk0) [] rk0"
    using assms(2) by (auto simp: StandardRank_SetConfig_def Let_def ring_inv_def StandardRank_new_def word_gt_0 split: if_splits)
  then have s: "spread (rk_prm env) (unat (rawNum rk0)) tr" "0 < unat (rawNum rk0)"
    using rank_run_spread [OF assms(1)] by (auto simp: ring_inv_def unat_gt_0)
  from window_count [OF s(1) assms(3) s(2)] spread_nat(2) [OF s(1) assms(3)] show ?thesis
    by (simp add: sorted_wrt_iff_nth_less)
qed

text \<open>A rank of the default configuration takes an activate at cycle 21.\<close>

definition fresh_rank :: StandardRank where
  "fresh_rank = StandardRank_new\<lparr>deviceCount := 8, bankCount := 8, rawNum := 4, banksPerRefresh := 8, rk_lastActivate := replicate 4 0,
     rk_nextRead := 1, rk_nextWrite := 1, rk_nextActivate := 1, rk_nextPrecharge := 1, banks := replicate 8 demo_bank\<rparr>"

definition late_world :: World where
  "late_world = bank_world\<lparr>evq := (evq bank_world)\<lparr>currentCycle := 21\<rparr>\<rparr>"

lemma fresh_rank_config: "StandardRank_SetConfig (rk_prm demo_rank_env) False True demo_bank StandardRank_new = Some fresh_rank"
  by (simp add: StandardRank_SetConfig_def demo_rank_env_def Params_new_def fresh_rank_def StandardRank_new_def RankStats_new_def)

lemma fresh_rank_fine: "rank_fine demo_rank_env 8 2 fresh_rank"
  using StandardRank_SetConfig_fine [OF fresh_rank_config, of "AddressTranslator_new\<lparr>defaultField := BANK_FIELD\<rparr>" 2] demo_bank_fine
  by (simp add: demo_rank_env_def demo_bank_env_def Params_new_def)

lemma late_world_ready: "world_ready late_world" "now late_world = 21" "heap late_world 0 = Some (bank_request ACTIVATE 1)"
  by (auto simp: late_world_def world_ready_def sims_ok_def bank_world_def world_ok_def World_new_def queue_good_def ids_below_def
      EventQueue_new_def queue_ok_def om_ok_def next_key_def om_first_def split: if_splits)

lemma fresh_rank_run: "\<exists>wr. rank_run demo_rank_env (bank_world, fresh_rank) [21] wr"
proof -
  have "bank_can demo_bank_env 21 (bank_request ACTIVATE 1) demo_bank"
    by (simp add: bank_can_def can_issue_def demo_bank_def DDR3Bank_new_def SubArray_new_def powered_up_def)
  moreover have "bank (address (bank_request ACTIVATE 1)) = 0"
    by (simp add: bank_request_def demo_request_def NVMainRequest_new_def NVMAddress_new_def)
  ultimately have "rank_can demo_rank_env 21 (bank_request ACTIVATE 1) fresh_rank" "rank_fits demo_rank_env 8 2 (bank_request ACTIVATE 1)"
    by (simp_all add: rank_can_def rank_timing_ok_def rank_targets_def Let_def fresh_rank_def StandardRank_new_def demo_rank_env_def
        Params_new_def window_slot_def rank_fits_def)
  then obtain w' rk' where i: "StandardRank_IssueCommand demo_rank_env 0 (late_world, fresh_rank) = Some (True, w', rk')"
    using rank.issue_decides [OF late_world_ready(1) fresh_rank_fine late_world_ready(3)] late_world_ready(2) by auto
  have "rank_run demo_rank_env (bank_world, fresh_rank) [] (late_world, fresh_rank\<lparr>banks := banks fresh_rank\<rparr>)"
    by (rule rank_run.run_outside [OF rank_run.run_start])
  from rank_run.run_command [OF this late_world_ready(3)] i show ?thesis
    by (auto simp: late_world_ready(2))
qed

theorem rank_activation_window_witness:
  "\<exists>wr. rank_run demo_rank_env (bank_world, fresh_rank) [21] wr
     \<and> length (filter (\<lambda>c. 20 \<le> unat c \<and> unat c < 20 + unat (tRAW (rk_prm demo_rank_env))) [21 :: ncycle_t]) \<le> 4"
proof -
  obtain wr where r: "rank_run demo_rank_env (bank_world, fresh_rank) [21] wr"
    using fresh_rank_run by blast
  have "\<forall>c \<in> set [21 :: ncycle_t]. unat c + unat (tRAW (rk_prm demo_rank_env)) < 2 ^ 64 \<and> unat c + unat (tRRDR (rk_prm demo_rank_env)) < 2 ^ 64"
    by (simp add: demo_rank_env_def Params_new_def)
  from rank_activation_window [OF r fresh_rank_config this, of 20]
  have "length (filter (\<lambda>c. 20 \<le> unat c \<and> unat c < 20 + unat (tRAW (rk_prm demo_rank_env))) [21 :: ncycle_t]) \<le> unat (rawNum fresh_rank)"
    by blast
  moreover have "unat (rawNum fresh_rank) = 4"
    by (simp add: fresh_rank_def)
  ultimately show ?thesis
    using r by metis
qed

end
