(* ===== verification/Interconnect.thy ===== *)
theory Interconnect
  imports Standard_Rank_Window
begin

text \<open>
  The interconnects (\<^verbatim>\<open>Interconnect/OffChipBus/OffChipBus.cpp\<close> and \<^verbatim>\<open>OnChipBus/OnChipBus.cpp\<close>):
  they send a command to the rank the address names and tell the other ranks about it; the
  off-chip bus delays completions and has an electrical model of the data pins.
\<close>

record BusEnv =
  ic_prm :: Params
  ic_parent :: nat
  ic_decoder :: "AddressTranslator option"
  ic_outs :: "MemoryPartition \<Rightarrow> uint64"
  ic_rank :: "nat \<Rightarrow> RankEnv"

text \<open>\<open>ic_parent\<close> is the hook of the parent. The on-chip bus has no delay.\<close>

record Bus =
  numRanks :: ncounter_t
  offChipDelay :: ncounter_t
  ranks :: "StandardRank list"

definition Bus_new :: Bus where
  "Bus_new = \<lparr>numRanks = 0, offChipDelay = 0, ranks = []\<rparr>"

text \<open>\<open>rk\<close> is a rank after its own \<^verbatim>\<open>SetConfig\<close>.\<close>

definition OnChipBus_SetConfig :: "Params \<Rightarrow> bool \<Rightarrow> StandardRank \<Rightarrow> Bus \<Rightarrow> Bus" where
  "OnChipBus_SetConfig p createChildren rk bus =
     bus\<lparr>numRanks := RANKS p, ranks := (if createChildren then ranks bus @ replicate (unat (RANKS p)) rk else ranks bus)\<rparr>"

definition OffChipBus_SetConfig :: "Params \<Rightarrow> bool \<Rightarrow> StandardRank \<Rightarrow> Bus \<Rightarrow> Bus" where
  "OffChipBus_SetConfig p createChildren rk bus =
     bus\<lparr>offChipDelay := OffChipLatency p, numRanks := RANKS p,
         ranks := (if createChildren then ranks bus @ replicate (unat (RANKS p)) rk else ranks bus)\<rparr>"

type_synonym bus_state = "World \<times> Bus"

abbreviation bus_child :: "BusEnv \<Rightarrow> Bus \<Rightarrow> NVMainRequest \<Rightarrow> nat option" where
  "bus_child env bus req \<equiv> GetChild (ic_decoder env) (ic_outs env) (length (ranks bus)) req"

definition rank_IssueCommand :: "BusEnv \<Rightarrow> nat \<Rightarrow> nat \<Rightarrow> bus_state \<Rightarrow> (bool \<times> bus_state) option" where
  "rank_IssueCommand env i r wb = (case wb of (w, bus) \<Rightarrow>
     if i < length (ranks bus) then do {
       (ok, (w', rk')) \<leftarrow> StandardRank_IssueCommand (ic_rank env i) r (w, ranks bus ! i);
       Some (ok, (w', bus\<lparr>ranks := (ranks bus)[i := rk']\<rparr>))
     }
     else None)"

definition rank_IsIssuable ::
  "BusEnv \<Rightarrow> nat \<Rightarrow> NVMainRequest \<Rightarrow> bus_state \<Rightarrow> (bool \<times> FailReasons option \<times> Bus) option" where
  "rank_IsIssuable env i req wb = (case wb of (w, bus) \<Rightarrow>
     if i < length (ranks bus) then do {
       (ok, reason, rk') \<leftarrow> StandardRank_IsIssuable (ic_rank env i) req (w, ranks bus ! i);
       Some (ok, reason, bus\<lparr>ranks := (ranks bus)[i := rk']\<rparr>)
     }
     else None)"

text \<open>The loop that notifies every rank but the one the command went to.\<close>

definition notify_others :: "BusEnv \<Rightarrow> ncycle_t \<Rightarrow> nat \<Rightarrow> OpType \<Rightarrow> Bus \<Rightarrow> Bus" where
  "notify_others env cur i op bus =
     bus\<lparr>ranks := map (\<lambda>j. if j = i then ranks bus ! j else StandardRank_Notify (rk_prm (ic_rank env j)) cur op (ranks bus ! j))
                     [0..<length (ranks bus)]\<rparr>"

text \<open>The asserted \<^verbatim>\<open>IsIssuable\<close> is a call like any other: it updates the statistics.\<close>

definition OffChipBus_IssueCommand :: "BusEnv \<Rightarrow> nat \<Rightarrow> bus_state \<Rightarrow> (bool \<times> bus_state) option" where
  "OffChipBus_IssueCommand env r wb = (case wb of (w, bus) \<Rightarrow> do {
     req \<leftarrow> heap w r;
     i \<leftarrow> bus_child env bus req;
     (issuable, _, bus1) \<leftarrow> rank_IsIssuable env i req (w, bus);
     if \<not> issuable then None
     else do {
       (success, (w2, bus2)) \<leftarrow> rank_IssueCommand env i r (w, bus1);
       req2 \<leftarrow> heap w2 r;
       Some (success, (w2, if success then notify_others env (now w2) i (req_type req2) bus2 else bus2))
     }
   })"

definition OffChipBus_IsIssuable ::
  "BusEnv \<Rightarrow> NVMainRequest \<Rightarrow> bus_state \<Rightarrow> (bool \<times> FailReasons option \<times> Bus) option" where
  "OffChipBus_IsIssuable env req wb = do {
     i \<leftarrow> bus_child env (snd wb) req;
     rank_IsIssuable env i req wb
   }"

text \<open>The default \<^verbatim>\<open>NVMObject::NextIssuable\<close>.\<close>

definition Bus_NextIssuable :: "BusEnv \<Rightarrow> NVMainRequest \<Rightarrow> Bus \<Rightarrow> ncycle_t option" where
  "Bus_NextIssuable env req bus = do {
     i \<leftarrow> bus_child env bus req;
     StandardRank_NextIssuable (ic_rank env i) req (ranks bus ! i)
   }"

text \<open>A completion reaches the parent \<open>offChipDelay\<close> cycles later.\<close>

definition OffChipBus_RequestComplete :: "BusEnv \<Rightarrow> nat \<Rightarrow> bus_state \<Rightarrow> bool \<times> bus_state" where
  "OffChipBus_RequestComplete env r wb = (case wb of (w, bus) \<Rightarrow>
     (True, (w\<lparr>evq := InsertEvent (next_ref w) EventResponse (Some (ic_parent env)) (Some r) (now w + offChipDelay bus) None 0 (evq w),
               next_ref := Suc (next_ref w)\<rparr>, bus)))"

definition OffChipBus_Cycle :: "BusEnv \<Rightarrow> ncycle_t \<Rightarrow> Bus \<Rightarrow> Bus" where
  "OffChipBus_Cycle env steps bus =
     bus\<lparr>ranks := map (\<lambda>j. StandardRank_Cycle (rk_prm (ic_rank env j)) steps (ranks bus ! j)) [0..<length (ranks bus)]\<rparr>"

definition OffChipBus_CalculateStats :: "BusEnv \<Rightarrow> ncycle_t \<Rightarrow> Bus \<Rightarrow> Bus option" where
  "OffChipBus_CalculateStats env cur bus = do {
     rks \<leftarrow> those (map (\<lambda>j. StandardRank_CalculateStats (rk_prm (ic_rank env j)) cur (ranks bus ! j)) [0..<length (ranks bus)]);
     Some (bus\<lparr>ranks := rks\<rparr>)
   }"

text \<open>The text of the on-chip bus is the same.\<close>

definition OnChipBus_IssueCommand :: "BusEnv \<Rightarrow> nat \<Rightarrow> bus_state \<Rightarrow> (bool \<times> bus_state) option" where
  "OnChipBus_IssueCommand = OffChipBus_IssueCommand"

definition OnChipBus_IsIssuable ::
  "BusEnv \<Rightarrow> NVMainRequest \<Rightarrow> bus_state \<Rightarrow> (bool \<times> FailReasons option \<times> Bus) option" where
  "OnChipBus_IsIssuable = OffChipBus_IsIssuable"

definition OnChipBus_Cycle :: "BusEnv \<Rightarrow> ncycle_t \<Rightarrow> Bus \<Rightarrow> Bus" where
  "OnChipBus_Cycle = OffChipBus_Cycle"

definition OnChipBus_CalculateStats :: "BusEnv \<Rightarrow> ncycle_t \<Rightarrow> Bus \<Rightarrow> Bus option" where
  "OnChipBus_CalculateStats = OffChipBus_CalculateStats"

end
