(* ===== verification/Interconnect_Safety.thy ===== *)
theory Interconnect_Safety
  imports Interconnect
begin

text \<open>
  The bus keeps the contract of a module that is asked first, and column commands to different
  ranks keep their distance on the shared data bus.
\<close>

subsection \<open>The contract of the bus\<close>

definition bus_can :: "BusEnv \<Rightarrow> ncycle_t \<Rightarrow> NVMainRequest \<Rightarrow> Bus \<Rightarrow> bool" where
  "bus_can env cur req bus \<longleftrightarrow>
     (let i = unat (rank (address req)) in rank_can (ic_rank env i) cur req (ranks bus ! i))"

definition bus_fine :: "BusEnv \<Rightarrow> nat \<Rightarrow> nat \<Rightarrow> nat \<Rightarrow> Bus \<Rightarrow> bool" where
  "bus_fine env k n m bus \<longleftrightarrow> length (ranks bus) = k \<and> (\<exists>t. ic_decoder env = Some t \<and> defaultField t = RANK_FIELD)
     \<and> (\<forall>i < k. rank_fine (ic_rank env i) n m (ranks bus ! i) \<and> rk_prm (ic_rank env i) = ic_prm env)"

definition bus_fits :: "BusEnv \<Rightarrow> nat \<Rightarrow> nat \<Rightarrow> nat \<Rightarrow> NVMainRequest \<Rightarrow> bool" where
  "bus_fits env k n m req \<longleftrightarrow> translated (address req) \<and> unat (rank (address req)) < k
     \<and> rank_fits (ic_rank env (unat (rank (address req)))) n m req"

lemma bus_child_fits:
  assumes "bus_fine env k n m bus" and "bus_fits env k n m req"
  shows "bus_child env bus req = Some (unat (rank (address req)))"
  using assms by (auto simp: GetChild_def bus_fine_def bus_fits_def Translate_request_def select_field_def address_field_def)

lemma bus_fine_update:
  "bus_fine env k n m bus \<Longrightarrow> i < k \<Longrightarrow> rank_fine (ic_rank env i) n m rk \<Longrightarrow> bus_fine env k n m (bus\<lparr>ranks := (ranks bus)[i := rk]\<rparr>)"
  by (auto simp: bus_fine_def nth_list_update)

lemma rank_fine_notify [simp]: "rank_fine env n m (StandardRank_Notify p cur op rk) = rank_fine env n m rk"
  by (simp add: StandardRank_Notify_def rank_fine_def rank_frame_def)

lemma bus_fine_notify: "bus_fine env k n m bus \<Longrightarrow> bus_fine env k n m (notify_others env' cur i op bus)"
  by (auto simp: bus_fine_def notify_others_def)

lemma OffChipBus_IsIssuable_spec:
  assumes "world_ready w" and "bus_fine env k n m bus" and "bus_fits env k n m req"
  shows "\<exists>reason rk'. OffChipBus_IsIssuable env req (w, bus) =
      Some (bus_can env (now w) req bus, reason, bus\<lparr>ranks := (ranks bus)[unat (rank (address req)) := rk']\<rparr>)
    \<and> rank_fine (ic_rank env (unat (rank (address req)))) n m rk'
    \<and> (\<forall>cur req'. rank_fits (ic_rank env (unat (rank (address req)))) n m req' \<longrightarrow>
         rank_can (ic_rank env (unat (rank (address req)))) cur req' rk' =
         rank_can (ic_rank env (unat (rank (address req)))) cur req' (ranks bus ! unat (rank (address req))))"
proof -
  let ?i = "unat (rank (address req))"
  have i: "?i < length (ranks bus)" "rank_fine (ic_rank env ?i) n m (ranks bus ! ?i)" "rank_fits (ic_rank env ?i) n m req"
    using assms(2,3) by (auto simp: bus_fine_def bus_fits_def)
  from rank.ask_decides [OF assms(1) i(2,3)] i(1) show ?thesis
    by (auto simp: OffChipBus_IsIssuable_def bus_child_fits [OF assms(2,3)] rank_IsIssuable_def bus_can_def Let_def)
qed

lemma bus_can_other:
  assumes "i < length (ranks bus)" and "bus_fits env (length (ranks bus)) n m req"
    and "\<And>cur req'. rank_fits (ic_rank env i) n m req' \<Longrightarrow> rank_can (ic_rank env i) cur req' rk' = rank_can (ic_rank env i) cur req' (ranks bus ! i)"
  shows "bus_can env cur req (bus\<lparr>ranks := (ranks bus)[i := rk']\<rparr>) = bus_can env cur req bus"
  using assms by (cases "unat (rank (address req)) = i") (auto simp: bus_can_def Let_def bus_fits_def)

text \<open>A command the bus can take: the rank executes it and the others are notified.\<close>

lemma OffChipBus_IssueCommand_yes:
  assumes w: "world_ready w" and bus: "bus_fine env k n m bus" and r: "heap w r = Some req" and req: "bus_fits env k n m req"
    and yes: "bus_can env (now w) req bus" and i: "i = unat (rank (address req))"
  obtains w' rk0 rk' req' reason where
    "OffChipBus_IsIssuable env req (w, bus) = Some (True, reason, bus\<lparr>ranks := (ranks bus)[i := rk0]\<rparr>)"
    and "StandardRank_IssueCommand (ic_rank env i) r (w, rk0) = Some (True, w', rk')"
    and "OffChipBus_IssueCommand env r (w, bus) = Some (True, w', notify_others env (now w') i (req_type req') (bus\<lparr>ranks := (ranks bus)[i := rk']\<rparr>))"
    and "world_step w w'" and "world_ready w'" and "rank_fine (ic_rank env i) n m rk'"
    and "heap w' r = Some req'" and "req_kind req' = req_kind req" and "i < k"
proof -
  have len: "length (ranks bus) = k" and ik: "i < k" and fits: "rank_fits (ic_rank env i) n m req"
    using bus req by (auto simp: bus_fine_def bus_fits_def i)
  obtain reason rk0 where ask: "OffChipBus_IsIssuable env req (w, bus) = Some (True, reason, bus\<lparr>ranks := (ranks bus)[i := rk0]\<rparr>)"
    and fine: "rank_fine (ic_rank env i) n m rk0" and can: "rank_can (ic_rank env i) (now w) req rk0"
    using OffChipBus_IsIssuable_spec [OF w bus req] yes fits by (auto simp: bus_can_def Let_def i)
  from rank.issue_decides [OF w fine r fits] can obtain w' rk' where
    s: "StandardRank_IssueCommand (ic_rank env i) r (w, rk0) = Some (True, w', rk')" "world_step w w'" "world_ready w'" "rank_fine (ic_rank env i) n m rk'"
    by auto
  obtain req' where r': "heap w' r = Some req'" "req_kind req' = req_kind req"
    using world_step_request [OF s(2) _ r] w by (auto simp: world_ready_def)
  have "rank_IsIssuable env i req (w, bus) = Some (True, reason, bus\<lparr>ranks := (ranks bus)[i := rk0]\<rparr>)"
    using ask by (simp add: OffChipBus_IsIssuable_def bus_child_fits [OF bus req] i)
  moreover have "rank_IssueCommand env i r (w, bus\<lparr>ranks := (ranks bus)[i := rk0]\<rparr>) = Some (True, w', bus\<lparr>ranks := (ranks bus)[i := rk']\<rparr>)"
    using s(1) ik len by (simp add: rank_IssueCommand_def)
  ultimately have "OffChipBus_IssueCommand env r (w, bus) = Some (True, w', notify_others env (now w') i (req_type req') (bus\<lparr>ranks := (ranks bus)[i := rk']\<rparr>))"
    using r r'(1) bus_child_fits [OF bus req] i by (simp add: OffChipBus_IssueCommand_def)
  from that [OF ask s(1) this s(2-4) r' ik] show ?thesis .
qed

lemma OffChipBus_IssueCommand_no:
  assumes "world_ready w" and "bus_fine env k n m bus" and "heap w r = Some req" and "bus_fits env k n m req" and "\<not> bus_can env (now w) req bus"
  shows "OffChipBus_IssueCommand env r (w, bus) = None"
  using OffChipBus_IsIssuable_spec [OF assms(1,2,4)] assms(3,5) bus_child_fits [OF assms(2,4)]
  by (auto simp: OffChipBus_IssueCommand_def OffChipBus_IsIssuable_def)

interpretation bus: asked_module "OffChipBus_IsIssuable env" "OffChipBus_IssueCommand env" "bus_can env" "bus_fine env k n m" "bus_fits env k n m" for env k n m
proof
  fix w :: World and bus :: Bus and req
  assume w: "world_ready w" and bus: "bus_fine env k n m bus" and req: "bus_fits env k n m req"
  let ?i = "unat (rank (address req))" and ?env = "ic_rank env (unat (rank (address req)))"
  have len: "length (ranks bus) = k" and i: "?i < k"
    using bus req by (auto simp: bus_fine_def bus_fits_def)
  obtain reason rk' where ask: "OffChipBus_IsIssuable env req (w, bus) = Some (bus_can env (now w) req bus, reason, bus\<lparr>ranks := (ranks bus)[?i := rk']\<rparr>)"
    and fine: "rank_fine ?env n m rk'"
    and can: "\<And>cur req'. rank_fits ?env n m req' \<Longrightarrow> rank_can ?env cur req' rk' = rank_can ?env cur req' (ranks bus ! ?i)"
    using OffChipBus_IsIssuable_spec [OF w bus req] by blast
  have same: "bus_can env cur req' (bus\<lparr>ranks := (ranks bus)[?i := rk']\<rparr>) = bus_can env cur req' bus" if "bus_fits env k n m req'" for cur req'
    using bus_can_other [of ?i bus env n m req' rk' cur] that i len can by blast
  with ask bus_fine_update [OF bus i fine] show "\<exists>reason bus'. OffChipBus_IsIssuable env req (w, bus) = Some (bus_can env (now w) req bus, reason, bus')
      \<and> bus_fine env k n m bus' \<and> (\<forall>cur req'. bus_fits env k n m req' \<longrightarrow> bus_can env cur req' bus' = bus_can env cur req' bus)"
    by blast
  fix r
  assume r: "heap w r = Some req" and yes: "bus_can env (now w) req bus"
  show "\<exists>w' bus'. OffChipBus_IssueCommand env r (w, bus) = Some (True, w', bus') \<and> world_step w w' \<and> world_ready w' \<and> bus_fine env k n m bus'"
    by (rule OffChipBus_IssueCommand_yes [OF w bus r req yes refl]) (blast intro: bus_fine_notify bus_fine_update [OF bus])
qed

subsection \<open>Column bounds of a rank\<close>

definition column_le :: "StandardRank \<Rightarrow> StandardRank \<Rightarrow> bool" where
  "column_le rk rk' \<longleftrightarrow> rk_nextRead rk \<le> rk_nextRead rk' \<and> rk_nextWrite rk \<le> rk_nextWrite rk'"

lemma column_le_refl [simp]: "column_le rk rk"
  by (simp add: column_le_def)

lemma column_le_trans: "column_le a b \<Longrightarrow> column_le b c \<Longrightarrow> column_le a c"
  by (auto simp: column_le_def)

lemma column_le_simps [simp]:
  "column_le rk (rk'\<lparr>banks := bs\<rparr>) = column_le rk rk'" "column_le rk (rk'\<lparr>rk_state := st\<rparr>) = column_le rk rk'"
  "column_le rk (upd_rank_stats f rk') = column_le rk rk'" "column_le rk (rk'\<lparr>rk_nextPrecharge := c\<rparr>) = column_le rk rk'"
  "column_le rk (rk'\<lparr>rk_nextActivate := c\<rparr>) = column_le rk rk'" "column_le rk (record_activate c rk') = column_le rk rk'"
  by (simp_all add: column_le_def upd_rank_stats_def record_activate_def Let_def)

lemma column_le_timing:
  "column_le rk rk' \<Longrightarrow> column_le rk (rank_read_timing p cur req rk')" "column_le rk rk' \<Longrightarrow> column_le rk (rank_write_timing p cur req rk')"
  "column_le rk rk' \<Longrightarrow> column_le rk (StandardRank_Notify p cur op rk')" "column_le rk (StandardRank_Cycle p steps rk)"
  by (auto simp: column_le_def rank_read_timing_def rank_write_timing_def StandardRank_Notify_def StandardRank_Cycle_def upd_rank_stats_def
      Let_def intro: order_trans max.cobounded1)

lemma bank_calls_column:
  "returns (bank_IssueCommand env i r wr) (\<lambda>x. column_le (snd wr) (snd (snd x)))"
  "returns (bank_IsIssuable env i req wr) (\<lambda>x. column_le (snd wr) (snd (snd x)))"
  by (cases wr; auto simp: bank_IssueCommand_def bank_IsIssuable_def returns_def bind_eq_Some_conv split: if_splits)+

lemma bank_loops_column:
  "returns (banks_issuable env is req wr) (\<lambda>x. column_le (snd wr) (snd (snd x)))"
  "returns (count_issuable env is req wr) (\<lambda>x. column_le (snd wr) (snd x))"
  "returns (issue_all env is r wr) (\<lambda>x. column_le (snd wr) (snd x))"
  "returns (refresh_loop env r is wr) (\<lambda>x. column_le (snd wr) (snd x))"
proof -
  show "returns (banks_issuable env is req wr) (\<lambda>x. column_le (snd wr) (snd (snd x)))"
  proof (induction "is" arbitrary: wr)
    case (Cons i "is")
    show ?case
      by (auto intro!: returns_bind_cut [OF bank_calls_column(2)] returns_mono [OF Cons.IH])
        (erule (1) column_le_trans)+
  qed simp
  show "returns (count_issuable env is req wr) (\<lambda>x. column_le (snd wr) (snd x))"
  proof (induction "is" arbitrary: wr)
    case (Cons i "is")
    show ?case
      by (auto intro!: returns_bind_cut [OF bank_calls_column(2)] returns_bind_cut [OF Cons.IH])
        (erule (1) column_le_trans)+
  qed simp
  show "returns (issue_all env is r wr) (\<lambda>x. column_le (snd wr) (snd x))"
  proof (induction "is" arbitrary: wr)
    case (Cons i "is")
    show ?case
      by (auto intro!: returns_bind_cut [OF bank_calls_column(1)] returns_mono [OF Cons.IH])
        (erule (1) column_le_trans)+
  qed simp
  show "returns (refresh_loop env r is wr) (\<lambda>x. column_le (snd wr) (snd x))"
  proof (induction "is" arbitrary: wr)
    case (Cons i "is")
    show ?case
      by (cases wr, auto intro!: returns_bind returns_bind_cut [OF bank_calls_column(1)] returns_mono [OF Cons.IH])
        (erule (1) column_le_trans)+
  qed simp
qed

lemma StandardRank_IsIssuable_column: "returns (StandardRank_IsIssuable env req (w, rk)) (\<lambda>x. column_le rk (snd (snd x)))"
proof -
  have ask: "returns (ask_bank env req (w, rk)) (\<lambda>x. column_le rk (snd (snd x)))"
    unfolding ask_bank_def using bank_calls_column(2) [of env _ req "(w, rk)"] by (auto intro!: returns_bind)
  note all = bank_loops_column(1) [of env _ req "(w, rk)", simplified]
  have pd: "returns (CanPowerDown env req (w, rk)) (\<lambda>x. column_le rk (snd x))"
    unfolding CanPowerDown_def by (auto intro!: returns_bind_cut [OF bank_loops_column(1)])
  have up: "returns (CanPowerUp env req (w, rk)) (\<lambda>x. column_le rk (snd x))"
    unfolding CanPowerUp_def by (auto simp: Let_def intro!: returns_bind_cut [OF bank_loops_column(2)])
  have waits: "column_le rk rk2" if "count_waits p cur rk1 = Some rk2" "column_le rk rk1" for p cur rk1 rk2
    using that by (auto simp: count_waits_def bind_eq_Some_conv)
  show ?thesis
  proof (cases "req_type req = ACTIVATE")
    case True
    then show ?thesis
      by (auto simp: StandardRank_IsIssuable_def Let_def intro!: returns_bind split: if_splits dest!: returnsD [OF ask] elim!: waits)
  next
    case False
    then show ?thesis
      by (cases "req_type req") (auto simp: StandardRank_IsIssuable_def Let_def intro!: ask all returns_bind dest!: returnsD [OF pd] returnsD [OF up])
  qed
qed

lemma StandardRank_IssueCommand_column: "returns (StandardRank_IssueCommand env r (w, rk)) (\<lambda>x. column_le rk (snd (snd x)))"
proof (cases "heap w r")
  case None
  then show ?thesis by (simp add: StandardRank_IssueCommand_def)
next
  case (Some req)
  note issue = returnsD [OF bank_calls_column(1)] and all = returnsD [OF bank_loops_column(3)]
  have act: "returns (StandardRank_Activate env r (w, rk)) (\<lambda>x. column_le rk (snd (snd x)))" for rk
    by (auto simp: StandardRank_Activate_def Some Let_def intro!: returns_bind dest!: issue)
  have rd: "returns (StandardRank_Read env r (w, rk)) (\<lambda>x. column_le rk (snd (snd x)))" for rk
    by (auto simp: StandardRank_Read_def Some Let_def intro!: returns_bind column_le_timing dest!: issue)
  have wr: "returns (StandardRank_Write env r (w, rk)) (\<lambda>x. column_le rk (snd (snd x)))" for rk
    by (auto simp: StandardRank_Write_def Some Let_def intro!: returns_bind column_le_timing dest!: issue)
  have pre: "returns (StandardRank_Precharge env r (w, rk)) (\<lambda>x. column_le rk (snd (snd x)))" for rk
    by (auto simp: StandardRank_Precharge_def Some Let_def intro!: returns_bind dest!: issue)
  have pd: "returns (StandardRank_PowerDown env r (w, rk)) (\<lambda>x. column_le rk (snd (snd x)))" for rk
    by (auto simp: StandardRank_PowerDown_def Some Let_def intro!: returns_bind dest!: all split: OpType.split)
  have up: "returns (StandardRank_PowerUp env r (w, rk)) (\<lambda>x. column_le rk (snd (snd x)))" for rk
    by (auto simp: StandardRank_PowerUp_def Some Let_def intro!: returns_bind dest!: all split: StandardRank_State.splits prod.splits if_splits)
  have ref: "returns (StandardRank_Refresh env r (w, rk)) (\<lambda>x. column_le rk (snd (snd x)))" for rk
    by (auto simp: StandardRank_Refresh_def Some Let_def intro!: returns_bind dest!: returnsD [OF bank_loops_column(4)])
  note trans = column_le_trans
  show ?thesis
  proof (cases "StandardRank_IsIssuable env req (w, rk)")
    case None
    then show ?thesis by (simp add: StandardRank_IssueCommand_def Some)
  next
    case ask: (Some x)
    then obtain ok reason rk1 where x: "x = (ok, reason, rk1)" "column_le rk rk1"
      using returnsD [OF StandardRank_IsIssuable_column ask] by (cases x) auto
    then have le: "returns m (\<lambda>x. column_le rk (snd (snd x)))" if "returns m (\<lambda>x. column_le rk1 (snd (snd x)))" for m :: "(bool \<times> rank_state) option"
      using that trans by (auto elim!: returns_mono)
    show ?thesis
      using x le [OF act] le [OF rd] le [OF wr] le [OF pre] le [OF pd] le [OF up] le [OF ref]
      by (cases ok; cases "req_type req") (simp_all add: StandardRank_IssueCommand_def Some ask)
  qed
qed

subsection \<open>The shared data bus\<close>

text \<open>The distance two column commands to different ranks must keep on the data bus.\<close>

fun switch_gap :: "Params \<Rightarrow> command_class \<Rightarrow> command_class \<Rightarrow> ncycle_t option" where
  "switch_gap p C_READ C_READ = Some (tBURST p + tRTRS p)"
| "switch_gap p C_READ C_WRITE = Some (tCAS p + tBURST p + tRTRS p - tCWD p)"
| "switch_gap p C_WRITE C_WRITE = Some (tBURST p + tOST p)"
| "switch_gap p C_WRITE C_READ = Some (tBURST p + tCWD p + tRTRS p - tCAS p)"
| "switch_gap p c d = None"

text \<open>A run of the bus: commands that were asked about, questions, counted cycles, and whatever
  happens outside as long as the column bounds of the ranks stay. The trace lists the accepted
  commands as cycle, rank and class.\<close>

inductive bus_run :: "BusEnv \<Rightarrow> nat \<Rightarrow> nat \<Rightarrow> nat \<Rightarrow> bus_state \<Rightarrow> (ncycle_t \<times> nat \<times> command_class) list \<Rightarrow> bus_state \<Rightarrow> bool"
  for env k n m wb0 where
  bus_start: "bus_run env k n m wb0 [] wb0"
| bus_command: "bus_run env k n m wb0 tr (w, bus) \<Longrightarrow> heap w r = Some req \<Longrightarrow> bus_fits env k n m req
    \<Longrightarrow> OffChipBus_IssueCommand env r (w, bus) = Some (True, wb')
    \<Longrightarrow> bus_run env k n m wb0 (tr @ [(now w, unat (rank (address req)), class_of (req_type req))]) wb'"
| bus_ask: "bus_run env k n m wb0 tr (w, bus) \<Longrightarrow> bus_fits env k n m req
    \<Longrightarrow> OffChipBus_IsIssuable env req (w, bus) = Some (ok, reason, bus') \<Longrightarrow> bus_run env k n m wb0 tr (w, bus')"
| bus_outside: "bus_run env k n m wb0 tr (w, bus) \<Longrightarrow> world_ready w' \<Longrightarrow> bus_fine env k n m bus' \<Longrightarrow> (\<And>i. i < k \<Longrightarrow> column_le (ranks bus ! i) (ranks bus' ! i))
    \<Longrightarrow> bus_run env k n m wb0 tr (w', bus')"

definition column_bound :: "StandardRank \<Rightarrow> command_class \<Rightarrow> ncycle_t" where
  "column_bound rk c = (if c = C_READ then rk_nextRead rk else rk_nextWrite rk)"

definition bus_inv :: "BusEnv \<Rightarrow> nat \<Rightarrow> nat \<Rightarrow> nat \<Rightarrow> (ncycle_t \<times> nat \<times> command_class) list \<Rightarrow> bus_state \<Rightarrow> bool" where
  "bus_inv env k n m tr wb \<longleftrightarrow> world_ready (fst wb) \<and> bus_fine env k n m (snd wb)
     \<and> (\<forall>(t, i, c) \<in> set tr. \<forall>j < k. j \<noteq> i \<longrightarrow>
          (\<forall>d g. switch_gap (ic_prm env) c d = Some g \<longrightarrow> t + g \<le> column_bound (ranks (snd wb) ! j) d))"

definition switched :: "Params \<Rightarrow> ncycle_t \<times> nat \<times> command_class \<Rightarrow> ncycle_t \<times> nat \<times> command_class \<Rightarrow> bool" where
  "switched p e e' = (case e of (t, i, c) \<Rightarrow> case e' of (t', i', c') \<Rightarrow>
     i \<noteq> i' \<longrightarrow> (\<forall>g. switch_gap p c c' = Some g \<longrightarrow> t + g \<le> t'))"

lemma switch_gap_column: "switch_gap p c d = Some g \<Longrightarrow> d = C_READ \<or> d = C_WRITE"
  by (cases "(p, c, d)" rule: switch_gap.cases) auto

lemma column_bound_mono: "column_le rk rk' \<Longrightarrow> column_bound rk d \<le> column_bound rk' d"
  by (simp add: column_le_def column_bound_def)

lemma bus_inv_grow:
  assumes "bus_inv env k n m tr wb" and "world_ready (fst wb')" and "bus_fine env k n m (snd wb')"
    and "\<And>j. j < k \<Longrightarrow> column_le (ranks (snd wb) ! j) (ranks (snd wb') ! j)"
  shows "bus_inv env k n m tr wb'"
  using assms unfolding bus_inv_def by (fastforce intro: order_trans [OF _ column_bound_mono [OF assms(4)]])

text \<open>A notification sets the bounds of the table.\<close>

lemma notify_bound:
  assumes "switch_gap p (class_of op) d = Some g"
  shows "cur + g \<le> column_bound (StandardRank_Notify p cur op rk) d"
  using assms by (cases op; cases d) (auto simp: StandardRank_Notify_def column_bound_def algebra_simps)

lemma notify_ranks:
  assumes "j < length (ranks bus)"
  shows "ranks (notify_others env cur i op bus) ! j =
    (if j = i then ranks bus ! j else StandardRank_Notify (rk_prm (ic_rank env j)) cur op (ranks bus ! j))"
  using assms by (simp add: notify_others_def)

lemma bus_inv_command:
  assumes inv: "bus_inv env k n m tr (w, bus)" and r: "heap w r = Some req" and req: "bus_fits env k n m req"
    and issue: "OffChipBus_IssueCommand env r (w, bus) = Some (True, wb')" and c: "c = class_of (req_type req)" and i: "i = unat (rank (address req))"
  shows "bus_inv env k n m (tr @ [(now w, i, c)]) wb'" and "\<forall>e \<in> set tr. switched (ic_prm env) e (now w, i, c)"
proof -
  have w: "world_ready w" and bus: "bus_fine env k n m bus"
    using inv by (auto simp: bus_inv_def)
  then have len: "length (ranks bus) = k" and prm: "\<And>j. j < k \<Longrightarrow> rk_prm (ic_rank env j) = ic_prm env"
    by (auto simp: bus_fine_def)
  have yes: "bus_can env (now w) req bus"
    using OffChipBus_IssueCommand_no [OF w bus r req] issue by auto
  obtain w' rk0 rk' req' reason where ask: "OffChipBus_IsIssuable env req (w, bus) = Some (True, reason, bus\<lparr>ranks := (ranks bus)[i := rk0]\<rparr>)"
    and s: "StandardRank_IssueCommand (ic_rank env i) r (w, rk0) = Some (True, w', rk')"
    and res: "OffChipBus_IssueCommand env r (w, bus) = Some (True, w', notify_others env (now w') i (req_type req') (bus\<lparr>ranks := (ranks bus)[i := rk']\<rparr>))"
    and step: "world_step w w'" "world_ready w'" and fine: "rank_fine (ic_rank env i) n m rk'" and kind: "req_kind req' = req_kind req" and ik: "i < k"
    by (rule OffChipBus_IssueCommand_yes [OF w bus r req yes i]) blast
  let ?bus = "notify_others env (now w') i (req_type req') (bus\<lparr>ranks := (ranks bus)[i := rk']\<rparr>)"
  have wb': "wb' = (w', ?bus)" and cur: "now w' = now w" and ty: "req_type req' = req_type req"
    using issue res world_stepD [OF step(1)] kind by (auto simp: req_kind_def)
  have "rank_IsIssuable env i req (w, bus) = Some (True, reason, bus\<lparr>ranks := (ranks bus)[i := rk0]\<rparr>)"
    using ask bus_child_fits [OF bus req] by (simp add: OffChipBus_IsIssuable_def i)
  then obtain rk1 where "StandardRank_IsIssuable (ic_rank env i) req (w, ranks bus ! i) = Some (True, reason, rk1)"
    "(ranks bus)[i := rk1] = (ranks bus)[i := rk0]"
    using ik len by (auto simp: rank_IsIssuable_def bind_eq_Some_conv dest: arg_cong [where f = ranks])
  moreover from this(2) have "rk1 = rk0"
    using ik len by (metis nth_list_update_eq)
  ultimately have "column_le (ranks bus ! i) rk0"
    using returnsD [OF StandardRank_IsIssuable_column] by fastforce
  then have le: "column_le (ranks bus ! i) rk'"
    using returnsD [OF StandardRank_IssueCommand_column s] column_le_trans by auto
  have grow: "column_le (ranks bus ! j) (ranks ?bus ! j)" if "j < k" for j
    using that le len by (auto simp: notify_ranks intro: column_le_timing)
  have inv': "bus_inv env k n m tr wb'"
    using inv step(2) bus_fine_notify [OF bus_fine_update [OF bus ik fine]] grow unfolding wb' by (intro bus_inv_grow [OF inv]) auto
  have "now w + g \<le> column_bound (ranks ?bus ! j) d" if "j < k" "j \<noteq> i" "switch_gap (ic_prm env) c d = Some g" for j d g
    using notify_bound [of "ic_prm env" "req_type req" d g "now w"] that len prm by (simp add: notify_ranks cur ty c)
  with inv' show "bus_inv env k n m (tr @ [(now w, i, c)]) wb'"
    by (auto simp: bus_inv_def wb')
  have open_now: "column_bound (ranks bus ! i) c \<le> now w" if "c = C_READ \<or> c = C_WRITE"
    using yes that by (auto simp: bus_can_def Let_def rank_can_def rank_timing_ok_def column_bound_def c i)
  show "\<forall>e \<in> set tr. switched (ic_prm env) e (now w, i, c)"
  proof
    fix e
    assume e: "e \<in> set tr"
    obtain t i0 c0 where [simp]: "e = (t, i0, c0)" by (cases e)
    have "t + g \<le> now w" if "i0 \<noteq> i" "switch_gap (ic_prm env) c0 c = Some g" for g
      using inv e that ik open_now switch_gap_column [OF that(2)] by (fastforce simp: bus_inv_def intro: order_trans)
    then show "switched (ic_prm env) e (now w, i, c)"
      by (simp add: switched_def)
  qed
qed

text \<open>C2: In every run of the bus, any two column commands (reads and writes, with or without
  implicit precharge) accepted for different ranks keep the distance the shared data bus needs:
  burst and rank switch between reads, turn-around between a read and a write, on-die
  termination between writes, however many commands to other ranks come in between.\<close>

theorem bus_rank_switch_safe:
  assumes "bus_run env k n m wb0 tr wb" and "world_ready (fst wb0)" and "bus_fine env k n m (snd wb0)"
  shows "sorted_wrt (switched (ic_prm env)) tr"
proof -
  have "bus_inv env k n m tr wb \<and> sorted_wrt (switched (ic_prm env)) tr"
    using assms(1)
  proof induction
    case bus_start
    then show ?case using assms(2,3) by (simp add: bus_inv_def)
  next
    case (bus_command tr w bus r req wb')
    have inv: "bus_inv env k n m tr (w, bus)"
      using bus_command.IH by blast
    show ?case
      using bus_inv_command [OF inv bus_command.hyps(2-4) refl refl] bus_command.IH by (simp add: sorted_wrt_append)
  next
    case (bus_ask tr w bus req ok reason bus')
    then have inv: "bus_inv env k n m tr (w, bus)" and w: "world_ready w" and bus: "bus_fine env k n m bus"
      by (auto simp: bus_inv_def)
    have fine: "bus_fine env k n m bus'"
      using bus.asked [OF w bus bus_ask.hyps(2)] bus_ask.hyps(3) by auto
    have "column_le (ranks bus ! j) (ranks bus' ! j)" if "j < k" for j
    proof -
      have "returns (rank_IsIssuable env i req (w, bus)) (\<lambda>x. column_le (ranks bus ! j) (ranks (snd (snd x)) ! j))" for i
        using bus that by (auto simp: rank_IsIssuable_def bus_fine_def nth_list_update intro!: returns_bind dest!: returnsD [OF StandardRank_IsIssuable_column])
      then show ?thesis
        using bus_ask.hyps(3) by (fastforce simp: OffChipBus_IsIssuable_def bind_eq_Some_conv dest: returnsD)
    qed
    with bus_inv_grow [OF inv, of "(w, bus')"] w fine bus_ask.IH show ?case by simp
  next
    case (bus_outside tr w bus w' bus')
    then show ?case
      using bus_inv_grow [of env k n m tr "(w, bus)" "(w', bus')"] by simp
  qed
  then show ?thesis by blast
qed

text \<open>A bus with two ranks takes an activate for the first one.\<close>

definition demo_bus_env :: BusEnv where
  "demo_bus_env = \<lparr>ic_prm = Params_new\<lparr>MATHeight := 32768\<rparr>, ic_parent = 9,
     ic_decoder = Some (AddressTranslator_new\<lparr>defaultField := RANK_FIELD\<rparr>), ic_outs = (\<lambda>_. 0), ic_rank = (\<lambda>i. demo_rank_env)\<rparr>"

definition demo_bus :: Bus where
  "demo_bus = OffChipBus_SetConfig (ic_prm demo_bus_env) True fresh_rank Bus_new"

lemma demo_bus_fine: "bus_fine demo_bus_env 2 8 2 demo_bus"
  using fresh_rank_fine by (simp add: bus_fine_def demo_bus_def OffChipBus_SetConfig_def Bus_new_def demo_bus_env_def demo_rank_env_def Params_new_def)

lemma demo_bus_can:
  "bus_can demo_bus_env 21 (bank_request ACTIVATE 1) demo_bus" "bus_fits demo_bus_env 2 8 2 (bank_request ACTIVATE 1)"
proof -
  have a: "bank (address (bank_request ACTIVATE 1)) = 0" "rank (address (bank_request ACTIVATE 1)) = 0"
    by (simp_all add: bank_request_def demo_request_def NVMainRequest_new_def NVMAddress_new_def)
  have "bank_can demo_bank_env 21 (bank_request ACTIVATE 1) demo_bank"
    by (simp add: bank_can_def can_issue_def demo_bank_def DDR3Bank_new_def SubArray_new_def powered_up_def)
  then have "rank_can demo_rank_env 21 (bank_request ACTIVATE 1) fresh_rank"
    using a by (simp add: rank_can_def rank_timing_ok_def rank_targets_def Let_def fresh_rank_def StandardRank_new_def demo_rank_env_def
        Params_new_def window_slot_def)
  then show "bus_can demo_bus_env 21 (bank_request ACTIVATE 1) demo_bus"
    using a by (simp add: bus_can_def Let_def demo_bus_def OffChipBus_SetConfig_def Bus_new_def demo_bus_env_def Params_new_def)
  show "bus_fits demo_bus_env 2 8 2 (bank_request ACTIVATE 1)"
    using a by (simp add: bus_fits_def rank_fits_def demo_bus_env_def)
qed

theorem bus_rank_switch_safe_witness:
  "\<exists>wb. bus_run demo_bus_env 2 8 2 (late_world, demo_bus) [(21, 0, C_ACT)] wb \<and> sorted_wrt (switched (ic_prm demo_bus_env)) [(21, 0, C_ACT)]"
proof -
  obtain wb where "OffChipBus_IssueCommand demo_bus_env 0 (late_world, demo_bus) = Some (True, wb)"
    using bus.issued [OF late_world_ready(1) demo_bus_fine late_world_ready(3) demo_bus_can(2)] demo_bus_can(1) late_world_ready(2) by auto
  from bus_run.bus_command [OF bus_run.bus_start late_world_ready(3) demo_bus_can(2) this]
  have run: "bus_run demo_bus_env 2 8 2 (late_world, demo_bus) [(21, 0, C_ACT)] wb"
    by (simp add: late_world_ready(2) bank_request_def demo_request_def NVMainRequest_new_def NVMAddress_new_def)
  moreover have "sorted_wrt (switched (ic_prm demo_bus_env)) [(21, 0, C_ACT)]"
    by (rule bus_rank_switch_safe [OF run]) (simp_all add: late_world_ready(1) demo_bus_fine)
  ultimately show ?thesis by blast
qed

end
