(* ===== verification/Command_Effects.thy ===== *)
theory Command_Effects
  imports Interconnect_Safety
begin

text \<open>
  What an accepted command does below the module that accepted it: the specification of its
  effect on a bank, a rank and the bus (\<open>bank_did\<close>, \<open>rank_did\<close>, \<open>bus_did\<close>), which ends at
  the effect on the subarrays concerned (\<open>sub_did\<close>), and the proof that \<^verbatim>\<open>IssueCommand\<close> of
  every level has it. Modules that are only asked change statistics and nothing else.
\<close>

subsection \<open>Effects on subarrays\<close>

lemma sub_did_like:
  assumes "sub_like s0 s" and "sub_like s' s1" and "sub_did p cur req s s'"
  shows "sub_did p cur req s0 s1"
  using assms by (auto simp: sub_like_def sub_did_def advances_def)

text \<open>The burst count of a request matters only to a column command.\<close>

lemma sub_did_cong:
  assumes "sub_did p cur req s s'" and "req_type req' = req_type req" and "address req' = address req"
    and "class_of (req_type req) \<notin> {C_READ, C_WRITE}"
  shows "sub_did p cur req' s s'"
proof -
  have "min_gap p (req_type req, burstCount req', wt) c = min_gap p (req_type req, burstCount req, wt) c" for wt c
    using assms(4) by (cases "req_type req") simp_all
  with assms show ?thesis
    by (simp add: sub_did_def advances_def)
qed

text \<open>The subarrays of a set carry a command out; the others only count.\<close>

definition subs_did :: "Params \<Rightarrow> ncycle_t \<Rightarrow> NVMainRequest \<Rightarrow> nat set \<Rightarrow> SubArray list \<Rightarrow> SubArray list \<Rightarrow> bool" where
  "subs_did p cur req T ss ss' \<longleftrightarrow> length ss' = length ss
     \<and> (\<forall>i < length ss. if i \<in> T then sub_did p cur req (ss ! i) (ss' ! i) else sub_like (ss ! i) (ss' ! i))"

lemma subs_did_none [simp]: "subs_did p cur req {} ss ss"
  by (simp add: subs_did_def)

lemma subs_did_one: "sub_did p cur req (ss ! i) s' \<Longrightarrow> subs_did p cur req {i} ss (ss[i := s'])"
  by (auto simp: subs_did_def nth_list_update)

lemma subs_did_step:
  assumes "sub_did p cur req (ss ! i) s'" and "subs_did p cur req T (ss[i := s']) ss'" and "i \<notin> T"
  shows "subs_did p cur req (insert i T) ss ss'"
proof -
  have "if j \<in> insert i T then sub_did p cur req (ss ! j) (ss' ! j) else sub_like (ss ! j) (ss' ! j)" if "j < length ss" for j
    using assms that sub_did_like [OF sub_like_refl, of s' _ p cur req "ss ! i"]
    by (cases "j = i") (auto simp: subs_did_def)
  with assms(2) show ?thesis
    by (simp add: subs_did_def)
qed

lemma subs_did_like:
  assumes "list_all2 sub_like ss0 ss" and "subs_did p cur req T ss ss'"
  shows "subs_did p cur req T ss0 ss'"
proof -
  have "if i \<in> T then sub_did p cur req (ss0 ! i) (ss' ! i) else sub_like (ss0 ! i) (ss' ! i)" if "i < length ss0" for i
  proof -
    have "sub_like (ss0 ! i) (ss ! i)" "i < length ss"
      using assms(1) that by (auto simp: list_all2_conv_all_nth)
    with assms(2) that show ?thesis
      by (auto simp: subs_did_def intro: sub_did_like [OF _ sub_like_refl] sub_like_trans split: if_splits)
  qed
  with assms show ?thesis
    by (auto simp: subs_did_def list_all2_conv_all_nth)
qed

lemma subs_did_cong:
  assumes "subs_did p cur req T ss ss'" and "req_type req' = req_type req" and "address req' = address req"
    and "class_of (req_type req) \<notin> {C_READ, C_WRITE}"
  shows "subs_did p cur req' T ss ss'"
  using assms(1) sub_did_cong [OF _ assms(2-4)] by (auto simp: subs_did_def)

subsection \<open>The bank\<close>

text \<open>The specification: the queue of active subarrays, the subarrays concerned, the transition of
  the power-state machine.\<close>

fun queue_after :: "OpType \<Rightarrow> ncounter_t \<Rightarrow> ncounter_t list \<Rightarrow> ncounter_t list" where
  "queue_after ACTIVATE sa q = sa # q"
| "queue_after READ_PRECHARGE sa q = removeAll sa q"
| "queue_after WRITE_PRECHARGE sa q = removeAll sa q"
| "queue_after PRECHARGE sa q = removeAll sa q"
| "queue_after PRECHARGE_ALL sa q = []"
| "queue_after _ sa q = q"

definition bank_targets :: "NVMainRequest \<Rightarrow> DDR3Bank \<Rightarrow> nat set" where
  "bank_targets req b =
     (if req_type req = PRECHARGE_ALL then unat ` set (activeSubArrayQueue b)
      else if class_of (req_type req) \<in> {C_PD, C_NONE} then {}
      else {unat (subarray (address req))})"

definition bank_moved :: "Params \<Rightarrow> ncycle_t \<Rightarrow> NVMainRequest \<Rightarrow> DDR3Bank \<Rightarrow> DDR3Bank \<Rightarrow> bool" where
  "bank_moved p cur req b b' \<longleftrightarrow>
     activeSubArrayQueue b' = queue_after (req_type req) (subarray (address req)) (activeSubArrayQueue b)
     \<and> subs_did p cur req (bank_targets req b) (subarrays b) (subarrays b')"

definition bank_did :: "Params \<Rightarrow> ncycle_t \<Rightarrow> NVMainRequest \<Rightarrow> DDR3Bank \<Rightarrow> DDR3Bank \<Rightarrow> bool" where
  "bank_did p cur req b b' \<longleftrightarrow> power_step (req_type req) (power_of (bk_state b)) (power_of (bk_state b')) \<and> bank_moved p cur req b b'"

lemma sub_IssueCommand_did:
  assumes "subs_fine env n b" and "world_ready w" and "heap w r = Some req"
  shows "returns (sub_IssueCommand env i r (w, b)) (\<lambda>(ok, w', b'). ok \<longrightarrow>
    (\<exists>s'. b' = b\<lparr>subarrays := (subarrays b)[i := s']\<rparr> \<and> sub_did (bk_prm env) (now w) req (subarrays b ! i) s'))"
proof (cases "i < length (subarrays b)")
  case True
  then have s: "sub_fine (bk_sub env i) (subarrays b ! i)" "prm (bk_sub env i) = bk_prm env"
    using assms(1) by (auto simp: subs_fine_def)
  have "world_ok w" "\<not> (WritePausing (prm (bk_sub env i)) \<and> isWriting (subarrays b ! i))" "writeMode (subarrays b ! i) \<noteq> WRITE_BACK"
    using assms(2) s(1) by (auto simp: world_ready_def sub_fine_def plain_writes_def)
  from SubArray_IssueCommand_did [OF this(1,2) assms(3) this(3)] True s(2) show ?thesis
    by (auto simp: sub_IssueCommand_def intro!: returns_bind dest!: returnsD)
qed (simp add: sub_IssueCommand_def)


text \<open>A command to the subarray of the request, and what the bank does around it.\<close>

lemma bank_child_did:
  assumes "bank_fine env n b" and "bank_fits env n req" and "world_ready w" and "heap w r = Some req" and "subarrays b1 = subarrays b"
    and "\<And>w2 b2 s'. sub_did (bk_prm env) (now w) req (subarrays b ! unat (subarray (address req))) s' \<Longrightarrow>
      b2 = b1\<lparr>subarrays := (subarrays b)[unat (subarray (address req)) := s']\<rparr> \<Longrightarrow> P (g b2)"
  shows "returns (Option.bind (bank_child env b req) (\<lambda>i. Option.bind (sub_IssueCommand env i r (w, b1))
      (\<lambda>(ok, w2, b2). Some (ok, w2, if ok then g b2 else b2)))) (\<lambda>(ok, w', b'). ok \<longrightarrow> P b')"
proof -
  have c: "bank_child env b req = Some (unat (subarray (address req)))"
    by (rule bank_child_fits [OF assms(1,2)])
  have "subs_fine env n b1"
    using assms(1,5) by (simp add: bank_fine_subs subs_fine_def)
  from sub_IssueCommand_did [OF this assms(3,4), of "unat (subarray (address req))"] show ?thesis
    unfolding c Option.bind.bind_lunit
    by (rule returns_bind_cut) (use assms(5,6) in \<open>auto split: if_splits\<close>)
qed

lemma bank_fine_distinct: "bank_fine env n b \<Longrightarrow> distinct (activeSubArrayQueue b)"
  by (simp add: bank_fine_def bank_ok_def)

lemma bank_movedI:
  assumes "sub_did p cur req (subarrays b ! unat (subarray (address req))) s'" and "class_of (req_type req) \<notin> {C_PD, C_NONE}"
    and "req_type req \<noteq> PRECHARGE_ALL" and "subarrays b' = (subarrays b)[unat (subarray (address req)) := s']"
    and "activeSubArrayQueue b' = queue_after (req_type req) (subarray (address req)) (activeSubArrayQueue b)"
  shows "bank_moved p cur req b b'"
  using assms subs_did_one [OF assms(1)] by (simp add: bank_moved_def bank_targets_def)

lemmas bank_moved_simps = close_subarray_def close_if_empty_def upd_bank_stats_def distinct_remove1_removeAll

abbreviation moves :: "Params \<Rightarrow> ncycle_t \<Rightarrow> NVMainRequest \<Rightarrow> DDR3Bank \<Rightarrow> bool \<times> bank_state \<Rightarrow> bool" where
  "moves p cur req b x \<equiv> (case x of (ok, w', b') \<Rightarrow> ok \<longrightarrow> bank_moved p cur req b b')"

lemma DDR3Bank_Activate_did:
  assumes "bank_fine env n b" and "bank_fits env n req" and "world_ready w" and "heap w r = Some req" and "req_type req = ACTIVATE"
  shows "returns (DDR3Bank_Activate env r (w, b)) (moves (bk_prm env) (now w) req b)"
  using assms(5)
  by (auto simp: DDR3Bank_Activate_def assms(4) Let_def upd_bank_stats_def intro!: bank_child_did [OF assms(1-4)] elim!: bank_movedI)

lemma DDR3Bank_Read_did:
  assumes "bank_fine env n b" and "bank_fits env n req" and "world_ready w" and "heap w r = Some req" and "class_of (req_type req) = C_READ"
  shows "returns (DDR3Bank_Read env r (w, b)) (moves (bk_prm env) (now w) req b)"
proof -
  have "req_type req = READ \<or> req_type req = READ_PRECHARGE"
    using assms(5) by (cases "req_type req") simp_all
  then show ?thesis
    using bank_fine_distinct [OF assms(1)]
    by (auto simp: DDR3Bank_Read_def assms(4) Let_def bank_read_timing_def bank_moved_simps intro!: bank_child_did [OF assms(1-4)] elim!: bank_movedI)
qed

lemma DDR3Bank_Write_did:
  assumes "bank_fine env n b" and "bank_fits env n req" and "world_ready w" and "heap w r = Some req" and "class_of (req_type req) = C_WRITE"
  shows "returns (DDR3Bank_Write env r (w, b)) (moves (bk_prm env) (now w) req b)"
proof -
  have "req_type req = WRITE \<or> req_type req = WRITE_PRECHARGE"
    using assms(5) by (cases "req_type req") simp_all
  then show ?thesis
    using bank_fine_distinct [OF assms(1)]
    by (auto simp: DDR3Bank_Write_def assms(4) Let_def bank_write_timing_def bank_moved_simps intro!: bank_child_did [OF assms(1-4)] elim!: bank_movedI)
qed

lemma DDR3Bank_Refresh_did:
  assumes "bank_fine env n b" and "bank_fits env n req" and "world_ready w" and "heap w r = Some req" and "req_type req = REFRESH"
  shows "returns (DDR3Bank_Refresh env r (w, b)) (moves (bk_prm env) (now w) req b)"
  using assms(5)
  by (auto simp: DDR3Bank_Refresh_def assms(4) Let_def upd_bank_stats_def intro!: bank_child_did [OF assms(1-4)] elim!: bank_movedI)

text \<open>\<^verbatim>\<open>PRECHARGE_ALL\<close>: every active subarray in turn.\<close>

lemma precharge_all_did:
  assumes "subs_fine env n b" and "world_ready w" and "heap w r = Some req" and "req_type req = PRECHARGE_ALL"
    and "distinct sas" and "\<forall>sa \<in> set sas. unat sa < n"
  shows "returns (precharge_all_loop env r sas (w, b)) (\<lambda>(ok, w', b'). ok \<longrightarrow>
    subs_did (bk_prm env) (now w) req (unat ` set sas) (subarrays b) (subarrays b'))"
  using assms
proof (induction env r sas "(w, b)" arbitrary: w b req rule: precharge_all_loop.induct)
  case (1 env r w b)
  then show ?case by simp
next
  case (2 env r sa w b)
  have "subs_fine env n (b\<lparr>activeSubArrayQueue := []\<rparr>)"
    using 2(1) by (simp add: subs_fine_def)
  from sub_IssueCommand_did [OF this 2(2,3), of "unat sa"] show ?case
    unfolding precharge_all_loop.simps by (rule returns_mono) (auto intro: subs_did_one)
next
  case (3 env r sa sa' sas w b)
  let ?b = "b\<lparr>activeSubArrayQueue := sa' # sas\<rparr>"
  let ?c = "req\<lparr>flags := 0, burstCount := 1, writeProgress := 0, cancellations := 0, owner := Some (bk_self env)\<rparr>"
  define w1 where "w1 = w\<lparr>heap := (heap w)(next_ref w \<mapsto> ?c), next_ref := Suc (next_ref w)\<rparr>"
  have w: "world_ok w"
    using 3(3) by (simp add: world_ready_def)
  have c: "copy_request r (\<lambda>c. c\<lparr>owner := Some (bk_self env)\<rparr>) w = Some (next_ref w, w1)"
    using copy_request_fresh [OF w 3(4)] by (simp add: w1_def)
  have w1: "world_step w w1" "now w1 = now w" "heap w1 (next_ref w) = Some ?c" "world_ready w1"
    using copy_request_step [OF c world_step_refl [OF w]] copy_request_ok [OF w c] 3(3)
    by (auto simp: world_ready_def sims_ok_def w1_def)
  have fine: "subs_fine env n ?b" and sa: "unat sa < n" and fits: "class_of (req_type ?c) = C_WRITE \<longrightarrow> line_fits (bk_prm env) ?c"
    using 3(2,5,7) by (simp_all add: subs_fine_def)
  obtain ok w2 s' where i: "sub_IssueCommand env (unat sa) (next_ref w) (w1, ?b) = Some (ok, w2, ?b\<lparr>subarrays := (subarrays b)[unat sa := s']\<rparr>)"
    "world_step w1 w2" "world_ready w2" "sub_fine (bk_sub env (unat sa)) s'"
    using sub_IssueCommand_spec [OF fine sa w1(4,3) fits] by auto
  have "returns (if ok then precharge_all_loop env r (sa' # sas) (w2, ?b\<lparr>subarrays := (subarrays b)[unat sa := s']\<rparr>)
        else Some (False, w2, ?b\<lparr>subarrays := (subarrays b)[unat sa := s']\<rparr>))
      (\<lambda>(ok, w', b'). ok \<longrightarrow> subs_did (bk_prm env) (now w) req (unat ` set (sa # sa' # sas)) (subarrays b) (subarrays b'))"
  proof (cases ok)
    case True
    obtain s2 where e: "?b\<lparr>subarrays := (subarrays b)[unat sa := s']\<rparr> = ?b\<lparr>subarrays := (subarrays b)[unat sa := s2]\<rparr>"
      and d2: "sub_did (bk_prm env) (now w) ?c (subarrays b ! unat sa) s2"
      using returnsD [OF sub_IssueCommand_did [OF fine w1(4,3)] i(1)] True w1(2) by auto
    have "s2 = s'"
      using arg_cong [OF e, of "\<lambda>b. subarrays b ! unat sa"] 3(2) sa by (simp add: subs_fine_def)
    with d2 have "sub_did (bk_prm env) (now w) ?c (subarrays b ! unat sa) s'"
      by simp
    then have d: "sub_did (bk_prm env) (now w) req (subarrays b ! unat sa) s'"
      by (rule sub_did_cong) (simp_all add: 3(5))
    have step: "world_step w w2"
      by (rule world_step_trans [OF w1(1) i(2)])
    then obtain req' where req': "heap w2 r = Some req'" "req_kind req' = req_kind req"
      by (rule world_step_request [OF _ w 3(4)])
    have k: "req_type req' = PRECHARGE_ALL" "now w2 = now w" "address req' = address req"
      using req'(2) 3(5) step by (auto simp: req_kind_def world_step_def)
    have "unat sa \<notin> unat ` set (sa' # sas)"
      using 3(6) by (auto dest!: word_unat_eq_iff [THEN iffD2])
    moreover have "returns (precharge_all_loop env r (sa' # sas) (w2, ?b\<lparr>subarrays := (subarrays b)[unat sa := s']\<rparr>))
        (\<lambda>(ok, w', b'). ok \<longrightarrow> subs_did (bk_prm env) (now w) req' (unat ` set (sa' # sas)) ((subarrays b)[unat sa := s']) (subarrays b'))"
      using 3(1) [OF c refl i(1) refl True _ i(3) req'(1) k(1)] subs_fine_sub [OF fine sa i(4)] 3(6,7) k(2)
      by (simp add: subs_fine_def)
    ultimately show ?thesis
      using True subs_did_step [OF d] subs_did_cong [of "bk_prm env" "now w" req'] k 3(5)
      by (auto elim!: returns_mono)
  qed simp
  then show ?case
    by (simp add: c i(1))
qed


lemma DDR3Bank_Precharge_did:
  assumes "bank_fine env n b" and "bank_fits env n req" and "world_ready w" and "heap w r = Some req" and "class_of (req_type req) = C_PRE"
  shows "returns (DDR3Bank_Precharge env r (w, b)) (moves (bk_prm env) (now w) req b)"
proof -
  let ?b = "b\<lparr>bk_nextPowerDown := max (bk_nextPowerDown b) (now w + tRP (bk_prm env))\<rparr>"
  show ?thesis
  proof (cases "req_type req = PRECHARGE_ALL")
    case True
    have b: "subs_fine env n ?b" "distinct (activeSubArrayQueue b)" "\<forall>sa \<in> set (activeSubArrayQueue b). unat sa < n"
      using assms(1) by (auto simp: bank_fine_subs subs_fine_def bank_ok_def)
    have "returns (precharge_all_loop env r (activeSubArrayQueue b) (w, ?b)) (\<lambda>(ok, w', b'). ok \<longrightarrow>
        activeSubArrayQueue b' = [] \<and> subs_did (bk_prm env) (now w) req (unat ` set (activeSubArrayQueue b)) (subarrays b) (subarrays b'))"
      by (rule returns_conj [OF precharge_all_did [OF b(1) assms(3,4) True b(2,3)] precharge_all_power]) (auto simp: same_power_def)
    then show ?thesis
      using True
      by (auto simp: DDR3Bank_Precharge_def assms(4) Let_def bank_moved_def bank_targets_def bank_moved_simps
          elim!: returns_bind_cut split: if_splits)
  next
    case False
    then have ty: "req_type req = PRECHARGE"
      using assms(5) by (cases "req_type req") simp_all
    define m where "m = Option.bind (bank_child env b req) (\<lambda>i. Option.bind (sub_IssueCommand env i r (w, ?b))
        (\<lambda>(ok, w2, b2). Some (ok, w2, if ok then close_subarray (subarray (address req)) b2 else b2)))"
    have m: "returns m (\<lambda>(ok, w', b'). ok \<longrightarrow> bank_moved (bk_prm env) (now w) req b b')"
      using bank_fine_distinct [OF assms(1)] ty
      by (auto simp: m_def bank_moved_simps intro!: bank_child_did [OF assms(1-4)] elim!: bank_movedI)
    have "returns (Option.bind m (\<lambda>(ok, w2, b2). Some (ok, w2,
        if ok then upd_bank_stats (\<lambda>st. st\<lparr>bk_precharges := bk_precharges st + 1\<rparr>) (close_if_empty b2) else b2))) (moves (bk_prm env) (now w) req b)"
      by (rule returns_bind_cut [OF m]) (auto simp: bank_moved_def close_if_empty_def upd_bank_stats_def split: if_splits)
    then show ?thesis
      using ty by (auto simp: DDR3Bank_Precharge_def assms(4) Let_def m_def)
  qed
qed

lemma bank_moved_none:
  assumes "class_of (req_type req) = C_PD \<or> req_type req = POWERUP" and "subarrays b' = subarrays b"
    and "activeSubArrayQueue b' = activeSubArrayQueue b"
  shows "bank_moved p cur req b b'"
  using assms by (cases "req_type req") (auto simp: bank_moved_def bank_targets_def)

lemma bank_moved_like:
  assumes "bank_like b0 b" and "bank_moved p cur req b b'"
  shows "bank_moved p cur req b0 b'"
proof -
  have "activeSubArrayQueue b = activeSubArrayQueue b0" "list_all2 sub_like (subarrays b0) (subarrays b)"
    using assms(1) by (cases b; cases b0; auto simp: bank_like_def)+
  with assms(2) subs_did_like show ?thesis
    by (auto simp: bank_moved_def bank_targets_def)
qed

text \<open>What an accepted command does to a bank, whichever it is.\<close>

lemma bank_issue_did:
  assumes "bank_fine env n b" and "bank_fits env n req" and "world_ready w" and "heap w r = Some req"
    and issue: "DDR3Bank_IssueCommand env r (w, b) = Some (True, w', b')"
  shows "bank_did (bk_prm env) (now w) req b b'"
proof -
  obtain reason b1 where ask: "DDR3Bank_IsIssuable env req (w, b) = Some (bank_can env (now w) req b, reason, b1)" and like: "bank_like b b1"
    using DDR3Bank_IsIssuable_spec [OF assms(1,2)] by blast
  have can: "bank_can env (now w) req b"
    using bank.issue_decides [OF assms(3,1,4,2)] issue by auto
  have fine: "bank_fine env n b1"
    using bank_like_fine(1) [OF like] assms(1) by simp
  note f = fine assms(2-4)
  have ty: "class_of (req_type req) \<noteq> C_NONE \<or> req_type req = POWERUP"
    using can by (cases "req_type req") (auto simp: bank_can_def can_issue_def Let_def)
  have down: "returns (DDR3Bank_PowerDown env r (w, b1)) (moves (bk_prm env) (now w) req b1)" if "class_of (req_type req) = C_PD"
    using that assms(4) by (auto simp: DDR3Bank_PowerDown_def Let_def intro!: bank_moved_none)
  have up: "moves (bk_prm env) (now w) req b1 (DDR3Bank_PowerUp env (w, b1))" if "req_type req = POWERUP"
    using that by (auto simp: DDR3Bank_PowerUp_def Let_def intro!: bank_moved_none)
  have "returns (DDR3Bank_IssueCommand env r (w, b)) (moves (bk_prm env) (now w) req b1)"
    using ty can ask assms(4) down up DDR3Bank_Activate_did [OF f] DDR3Bank_Read_did [OF f] DDR3Bank_Write_did [OF f]
      DDR3Bank_Refresh_did [OF f] DDR3Bank_Precharge_did [OF f]
    by (cases "req_type req") (simp_all add: DDR3Bank_IssueCommand_def)
  from returnsD [OF this issue] have "bank_moved (bk_prm env) (now w) req b1 b'"
    by simp
  moreover have "bk_state b \<noteq> DDR3BANK_UNKNOWN"
    using assms(1) by (simp add: bank_fine_def bank_ok_def)
  ultimately show ?thesis
    using bank_moved_like [OF like] DDR3Bank_IssueCommand_power [OF issue assms(4)] by (simp add: bank_did_def)
qed


subsection \<open>The rank\<close>

lemma bank_did_like:
  assumes "bank_like b0 b" and "bank_like b' b1" and "bank_did p cur req b b'"
  shows "bank_did p cur req b0 b1"
proof -
  have q: "bk_state b = bk_state b0" "bk_state b1 = bk_state b'" "activeSubArrayQueue b1 = activeSubArrayQueue b'"
    "list_all2 sub_like (subarrays b') (subarrays b1)"
    using assms(1,2) by (cases b; cases b0; cases b1; cases b'; auto simp: bank_like_def)+
  have "subs_did p cur req T ss (subarrays b1)" if "subs_did p cur req T ss (subarrays b')" for T ss
  proof -
    have "if i \<in> T then sub_did p cur req (ss ! i) (subarrays b1 ! i) else sub_like (ss ! i) (subarrays b1 ! i)" if "i < length ss" for i
    proof -
      have "sub_like (subarrays b' ! i) (subarrays b1 ! i)"
        using q(4) \<open>subs_did p cur req T ss (subarrays b')\<close> that by (auto simp: list_all2_conv_all_nth subs_did_def)
      then show ?thesis
        using \<open>subs_did p cur req T ss (subarrays b')\<close> that
        by (auto simp: subs_did_def intro: sub_did_like [OF sub_like_refl] sub_like_trans split: if_splits)
    qed
    then show ?thesis
      using that q(4) by (auto simp: subs_did_def list_all2_conv_all_nth)
  qed
  then have "bank_moved p cur req b b1"
    using assms(3) q by (simp add: bank_did_def bank_moved_def)
  with bank_moved_like [OF assms(1)] assms(3) q show ?thesis
    by (simp add: bank_did_def)
qed

lemma bank_did_cong:
  assumes "bank_did p cur req b b'" and "req_type req' = req_type req" and "address req' = address req"
    and "class_of (req_type req) \<notin> {C_READ, C_WRITE}"
  shows "bank_did p cur req' b b'"
proof -
  have "bank_targets req' b = bank_targets req b"
    using assms(2,3) by (simp add: bank_targets_def)
  with assms subs_did_cong [OF _ assms(2-4)] show ?thesis
    by (simp add: bank_did_def bank_moved_def)
qed

text \<open>The banks of a set carry a command out; the others only count.\<close>

definition banks_did :: "Params \<Rightarrow> ncycle_t \<Rightarrow> NVMainRequest \<Rightarrow> nat set \<Rightarrow> DDR3Bank list \<Rightarrow> DDR3Bank list \<Rightarrow> bool" where
  "banks_did p cur req T bs bs' \<longleftrightarrow> length bs' = length bs
     \<and> (\<forall>i < length bs. if i \<in> T then bank_did p cur req (bs ! i) (bs' ! i) else bank_like (bs ! i) (bs' ! i))"

lemma banks_did_none: "banks_did p cur req {} bs bs"
  by (simp add: banks_did_def)

lemma banks_did_step:
  assumes "bank_did p cur req (bs ! i) b" and "banks_did p cur req T (bs[i := b]) bs'" and "i \<notin> T"
  shows "banks_did p cur req (insert i T) bs bs'"
proof -
  have "if j \<in> insert i T then bank_did p cur req (bs ! j) (bs' ! j) else bank_like (bs ! j) (bs' ! j)" if "j < length bs" for j
    using assms that bank_did_like [OF bank_like_refl, of b _ p cur req "bs ! i"]
    by (cases "j = i") (auto simp: banks_did_def)
  with assms(2) show ?thesis
    by (simp add: banks_did_def)
qed

lemma banks_did_one: "bank_did p cur req (bs ! i) b \<Longrightarrow> banks_did p cur req {i} bs (bs[i := b])"
  using banks_did_step [OF _ banks_did_none] by blast

lemma banks_did_like:
  assumes "list_all2 bank_like bs0 bs" and "banks_did p cur req T bs bs'"
  shows "banks_did p cur req T bs0 bs'"
proof -
  have "if i \<in> T then bank_did p cur req (bs0 ! i) (bs' ! i) else bank_like (bs0 ! i) (bs' ! i)" if "i < length bs0" for i
  proof -
    have "bank_like (bs0 ! i) (bs ! i)" "i < length bs"
      using assms(1) that by (auto simp: list_all2_conv_all_nth)
    with assms(2) that show ?thesis
      by (auto simp: banks_did_def intro: bank_did_like [OF _ bank_like_refl] bank_like_trans split: if_splits)
  qed
  with assms show ?thesis
    by (auto simp: banks_did_def list_all2_conv_all_nth)
qed

lemma banks_did_cong:
  assumes "banks_did p cur req T bs bs'" and "req_type req' = req_type req" and "address req' = address req"
    and "class_of (req_type req) \<notin> {C_READ, C_WRITE}"
  shows "banks_did p cur req' T bs bs'"
  using assms(1) bank_did_cong [OF _ assms(2-4)] by (auto simp: banks_did_def)

text \<open>A call of a bank that accepts.\<close>

lemma bank_IssueCommand_did:
  assumes "banks_fine env n m (banks rk)" and "i < n" and "world_ready w" and "heap w r = Some req" and "bank_fits (rk_bank env i) m req"
    and "bank_can (rk_bank env i) (now w) req (banks rk ! i)"
  obtains w' b' where "bank_IssueCommand env i r (w, rk) = Some (True, w', rk\<lparr>banks := (banks rk)[i := b']\<rparr>)"
    and "world_step w w'" and "world_ready w'" and "bank_fine (rk_bank env i) m b'" and "bank_did (rk_prm env) (now w) req (banks rk ! i) b'"
proof -
  have i: "bank_fine (rk_bank env i) m (banks rk ! i)" "bk_prm (rk_bank env i) = rk_prm env" "i < length (banks rk)"
    using assms(1,2) by (auto simp: banks_fine_def)
  obtain w' b' where b': "DDR3Bank_IssueCommand (rk_bank env i) r (w, banks rk ! i) = Some (True, w', b')"
    "world_step w w'" "world_ready w'" "bank_fine (rk_bank env i) m b'"
    using bank.issue_decides [OF assms(3) i(1) assms(4,5)] assms(6) by auto
  with that [of w' b'] bank_issue_did [OF i(1) assms(5,3,4) b'(1)] i(2,3) show ?thesis
    by (simp add: bank_IssueCommand_def)
qed

lemma issue_all_did:
  assumes "banks_fine env n m (banks rk)" and "world_ready w" and "heap w r = Some req" and "class_of (req_type req) \<notin> {C_READ, C_WRITE}"
    and "distinct is" and "\<forall>i \<in> set is. i < n \<and> bank_fits (rk_bank env i) m req \<and> bank_can (rk_bank env i) (now w) req (banks rk ! i)"
  shows "returns (issue_all env is r (w, rk)) (\<lambda>(w', rk'). banks_did (rk_prm env) (now w) req (set is) (banks rk) (banks rk'))"
  using assms
proof (induction "is" arbitrary: w rk req)
  case Nil
  then show ?case by (simp add: banks_did_none)
next
  case (Cons i "is")
  have i: "i < n" "bank_fits (rk_bank env i) m req" "bank_can (rk_bank env i) (now w) req (banks rk ! i)" and ok: "world_ok w"
    using Cons.prems by (auto simp: world_ready_def)
  obtain w1 b where s: "bank_IssueCommand env i r (w, rk) = Some (True, w1, rk\<lparr>banks := (banks rk)[i := b]\<rparr>)"
    "world_step w w1" "world_ready w1" "bank_fine (rk_bank env i) m b" "bank_did (rk_prm env) (now w) req (banks rk ! i) b"
    by (rule bank_IssueCommand_did [OF Cons.prems(1) i(1) Cons.prems(2,3) i(2,3)])
  obtain req1 where "heap w1 r = Some req1" "req_kind req1 = req_kind req"
    using world_step_request [OF s(2) ok Cons.prems(3)] .
  then have req1: "heap w1 r = Some req1" "req_type req1 = req_type req" "address req1 = address req" and now1: "now w1 = now w"
    using world_stepD [OF s(2)] by (auto simp: req_kind_def)
  note kind = bank_can_kind [OF req1(2,3)] bank_fits_kind [OF req1(2,3)]
  let ?rk = "rk\<lparr>banks := (banks rk)[i := b]\<rparr>"
  have other: "(banks rk)[i := b] ! j = banks rk ! j" if "j \<in> set is" for j
    using Cons.prems(5) that by (intro nth_list_update_neq) auto
  have "\<forall>j \<in> set is. j < n \<and> bank_fits (rk_bank env j) m req1 \<and> bank_can (rk_bank env j) (now w1) req1 (banks ?rk ! j)"
    using Cons.prems(4,6) kind now1 other by auto
  from Cons.IH [OF _ s(3) req1(1) _ _ this] banks_fine_update [OF Cons.prems(1) i(1) s(4)] Cons.prems(4,5) req1(2) now1
  have "returns (issue_all env is r (w1, ?rk)) (\<lambda>(w', rk'). banks_did (rk_prm env) (now w) req1 (set is) ((banks rk)[i := b]) (banks rk'))"
    by simp
  then show ?case
    using s(1) banks_did_step [OF s(5)] banks_did_cong [OF _ req1(2,3) [symmetric]] req1(2) Cons.prems(4,5)
    by (auto elim!: returns_mono)
qed

lemma refresh_loop_did:
  assumes "banks_fine env n m (banks rk)" and "world_ready w" and "heap w r = Some req" and "req_type req = REFRESH"
    and "distinct is" and "\<forall>i \<in> set is. i < n \<and> bank_fits (rk_bank env i) m req \<and> bank_can (rk_bank env i) (now w) req (banks rk ! i)"
  shows "returns (refresh_loop env r is (w, rk)) (\<lambda>(w', rk'). banks_did (rk_prm env) (now w) req (set is) (banks rk) (banks rk'))"
  using assms
proof (induction "is" arbitrary: w rk req)
  case Nil
  then show ?case by (simp add: banks_did_none)
next
  case (Cons i "is")
  have i: "i < n" "bank_fits (rk_bank env i) m req" "bank_can (rk_bank env i) (now w) req (banks rk ! i)" and ok: "world_ok w"
    using Cons.prems by (auto simp: world_ready_def)
  obtain c w1 req1 where c: "copy_request r (\<lambda>c. c) w = Some (c, w1)" "world_step w w1" "world_ready w1" "heap w1 c = Some req1"
    "req_type req1 = req_type req" "address req1 = address req"
    by (rule copy_request_ready [OF Cons.prems(2,3)])
  have "bank_fits (rk_bank env i) m req1" "bank_can (rk_bank env i) (now w1) req1 (banks rk ! i)"
    using i(2,3) bank_fits_kind [OF c(5,6)] bank_can_kind [OF c(5,6)] Cons.prems(4) world_stepD [OF c(2)] by simp_all
  then obtain w2 b where s: "bank_IssueCommand env i c (w1, rk) = Some (True, w2, rk\<lparr>banks := (banks rk)[i := b]\<rparr>)"
    "world_step w1 w2" "world_ready w2" "bank_fine (rk_bank env i) m b" "bank_did (rk_prm env) (now w1) req1 (banks rk ! i) b"
    by (rule bank_IssueCommand_did [OF Cons.prems(1) i(1) c(3,4)])
  have step: "world_step w w2"
    by (rule world_step_trans [OF c(2) s(2)])
  obtain req2 where "heap w2 r = Some req2" "req_kind req2 = req_kind req"
    using world_step_request [OF step ok Cons.prems(3)] .
  then have req2: "heap w2 r = Some req2" "req_type req2 = req_type req" "address req2 = address req" and now2: "now w2 = now w"
    using world_stepD [OF step] by (auto simp: req_kind_def)
  have b: "bank_did (rk_prm env) (now w) req (banks rk ! i) b"
    using bank_did_cong [OF s(5) c(5,6) [symmetric]] world_stepD [OF c(2)] c(5) Cons.prems(4) by simp
  let ?rk = "rk\<lparr>banks := (banks rk)[i := b]\<rparr>"
  have other: "(banks rk)[i := b] ! j = banks rk ! j" if "j \<in> set is" for j
    using Cons.prems(5) that by (intro nth_list_update_neq) auto
  have "\<forall>j \<in> set is. j < n \<and> bank_fits (rk_bank env j) m req2 \<and> bank_can (rk_bank env j) (now w2) req2 (banks ?rk ! j)"
    using Cons.prems(4,6) bank_can_kind [OF req2(2,3)] bank_fits_kind [OF req2(2,3)] now2 other by auto
  from Cons.IH [OF _ s(3) req2(1) _ _ this] banks_fine_update [OF Cons.prems(1) i(1) s(4)] Cons.prems(4,5) req2(2) now2
  have "returns (refresh_loop env r is (w2, ?rk)) (\<lambda>(w', rk'). banks_did (rk_prm env) (now w) req2 (set is) ((banks rk)[i := b]) (banks rk'))"
    by simp
  then show ?case
    using c(1) s(1) banks_did_step [OF b] banks_did_cong [OF _ req2(2,3) [symmetric]] req2(2) Cons.prems(4,5)
    by (auto elim!: returns_mono)
qed


text \<open>The specification of a command of the rank: every bank concerned has carried it out.\<close>

definition rank_did :: "Params \<Rightarrow> ncycle_t \<Rightarrow> NVMainRequest \<Rightarrow> StandardRank \<Rightarrow> StandardRank \<Rightarrow> bool" where
  "rank_did p cur req rk rk' \<longleftrightarrow> banks_did p cur req (set (rank_targets req rk)) (banks rk) (banks rk')"

lemma rank_did_like:
  assumes "rank_like rk0 rk" and "rank_did p cur req rk rk'"
  shows "rank_did p cur req rk0 rk'"
  using assms banks_did_like [of "banks rk0" "banks rk"] rank_like_same(3) [OF assms(1)]
  by (simp add: rank_did_def rank_like_def)

abbreviation rank_does :: "Params \<Rightarrow> ncycle_t \<Rightarrow> NVMainRequest \<Rightarrow> StandardRank \<Rightarrow> bool \<times> rank_state \<Rightarrow> bool" where
  "rank_does p cur req rk x \<equiv> (case x of (ok, w', rk') \<Rightarrow> ok \<longrightarrow> rank_did p cur req rk rk')"

lemma record_activate_banks [simp]: "banks (record_activate cur rk) = banks rk"
  by (simp add: record_activate_def Let_def)

lemma rank_targets_one:
  "class_of (req_type req) \<notin> {C_PD, C_NONE} \<Longrightarrow> req_type req \<noteq> REFRESH \<Longrightarrow> rank_targets req rk = [unat (bank (address req))]"
  by (cases "req_type req") (simp_all add: rank_targets_def Let_def)

lemma rank_child_did:
  assumes fine: "rank_fine env n m rk" and w: "world_ready w" "heap w r = Some req" and fits: "rank_fits env n m req"
    and can: "rank_can env (now w) req rk" and ty: "class_of (req_type req) \<notin> {C_PD, C_NONE}" "req_type req \<noteq> REFRESH"
  obtains w' bs where "bank_IssueCommand env (unat (bank (address req))) r (w, rk) = Some (True, w', rk\<lparr>banks := bs\<rparr>)"
    and "rank_child env rk req = Some (unat (bank (address req)))" and "rank_did (rk_prm env) (now w) req rk (rk\<lparr>banks := bs\<rparr>)"
proof -
  let ?i = "unat (bank (address req))"
  have b: "banks_fine env n m (banks rk)" "?i < n"
    using fine fits by (auto simp: rank_fine_def rank_fits_def)
  have c: "bank_can (rk_bank env ?i) (now w) req (banks rk ! ?i)"
    using can by (simp add: rank_can_def rank_targets_one [OF ty])
  obtain w' b' where i: "bank_IssueCommand env ?i r (w, rk) = Some (True, w', rk\<lparr>banks := (banks rk)[?i := b']\<rparr>)"
    and d: "bank_did (rk_prm env) (now w) req (banks rk ! ?i) b'"
    by (rule bank_IssueCommand_did [OF b w rank_fits_bank [OF fits b] c])
  from that [OF i rank_child_fits [OF fine fits refl]] banks_did_one [OF d] show ?thesis
    by (simp add: rank_did_def rank_targets_one [OF ty])
qed

lemma rank_did_banks: "banks rk2 = banks rk1 \<Longrightarrow> rank_did p cur req rk rk2 = rank_did p cur req rk rk1"
  by (simp add: rank_did_def)

lemma rank_one_bank_did:
  assumes fine: "rank_fine env n m rk" and w: "world_ready w" "heap w r = Some req" and fits: "rank_fits env n m req"
    and can: "rank_can env (now w) req rk"
  shows "req_type req = ACTIVATE \<Longrightarrow> returns (StandardRank_Activate env r (w, rk)) (rank_does (rk_prm env) (now w) req rk)"
    and "class_of (req_type req) = C_READ \<Longrightarrow> returns (StandardRank_Read env r (w, rk)) (rank_does (rk_prm env) (now w) req rk)"
    and "class_of (req_type req) = C_WRITE \<Longrightarrow> returns (StandardRank_Write env r (w, rk)) (rank_does (rk_prm env) (now w) req rk)"
    and "class_of (req_type req) = C_PRE \<Longrightarrow> returns (StandardRank_Precharge env r (w, rk)) (rank_does (rk_prm env) (now w) req rk)"
proof -
  have child: "\<exists>w' bs. bank_IssueCommand env (unat (bank (address req))) r (w, rk) = Some (True, w', rk\<lparr>banks := bs\<rparr>)
      \<and> rank_child env rk req = Some (unat (bank (address req))) \<and> rank_did (rk_prm env) (now w) req rk (rk\<lparr>banks := bs\<rparr>)"
    if "class_of (req_type req) \<notin> {C_PD, C_NONE}" "req_type req \<noteq> REFRESH"
    by (rule rank_child_did [OF fine w fits can that]) blast
  have no_refresh: "req_type req \<noteq> REFRESH" if "class_of (req_type req) \<in> {C_READ, C_WRITE, C_PRE}"
    using that by auto
  show "returns (StandardRank_Activate env r (w, rk)) (rank_does (rk_prm env) (now w) req rk)" if "req_type req = ACTIVATE"
  proof -
    have t: "rk_nextActivate rk \<le> now w" "rk_lastActivate rk ! window_slot rk + tRAW (rk_prm env) \<le> now w"
      "activate_slot 1 rk = Some (rk_lastActivate rk ! window_slot rk)"
      using can that rank_fine_slot(1) [of env n rk] fine by (auto simp: rank_can_def rank_timing_ok_def rank_fine_def)
    then show ?thesis
      using child that w(2) by (auto simp: StandardRank_Activate_def Let_def rank_did_def)
  qed
  show "returns (StandardRank_Read env r (w, rk)) (rank_does (rk_prm env) (now w) req rk)" if "class_of (req_type req) = C_READ"
    using child no_refresh that w(2) by (auto simp: StandardRank_Read_def Let_def rank_did_def intro!: returns_bind)
  show "returns (StandardRank_Write env r (w, rk)) (rank_does (rk_prm env) (now w) req rk)" if "class_of (req_type req) = C_WRITE"
    using child no_refresh that w(2) by (auto simp: StandardRank_Write_def Let_def rank_did_def intro!: returns_bind)
  show "returns (StandardRank_Precharge env r (w, rk)) (rank_does (rk_prm env) (now w) req rk)" if "class_of (req_type req) = C_PRE"
    using child no_refresh that w(2) by (auto simp: StandardRank_Precharge_def Let_def rank_did_def intro!: returns_bind)
qed

lemma rank_all_banks_did:
  assumes fine: "rank_fine env n m rk" and w: "world_ready w" "heap w r = Some req" and fits: "rank_fits env n m req"
    and can: "rank_can env (now w) req rk"
  shows "class_of (req_type req) = C_PD \<Longrightarrow> returns (StandardRank_PowerDown env r (w, rk)) (rank_does (rk_prm env) (now w) req rk)"
    and "req_type req = POWERUP \<Longrightarrow> returns (StandardRank_PowerUp env r (w, rk)) (rank_does (rk_prm env) (now w) req rk)"
    and "req_type req = REFRESH \<Longrightarrow> returns (StandardRank_Refresh env r (w, rk)) (rank_does (rk_prm env) (now w) req rk)"
proof -
  have b: "banks_fine env n m (banks rk)"
    using fine by (simp add: rank_fine_def)
  have each: "\<forall>i \<in> set (rank_targets req rk). i < n \<and> bank_fits (rk_bank env i) m req \<and> bank_can (rk_bank env i) (now w) req (banks rk ! i)"
    using can rank_targets_lt [OF fine fits] rank_fits_bank [OF fits b] by (auto simp: rank_can_def)
  have all: "returns (issue_all env [0..<length (banks rk)] r (w, rk)) (\<lambda>(w', rk'). rank_did (rk_prm env) (now w) req rk rk')"
    if "class_of (req_type req) = C_PD \<or> req_type req = POWERUP"
  proof -
    have t: "rank_targets req rk = [0..<length (banks rk)]" and c: "class_of (req_type req) \<notin> {C_READ, C_WRITE}"
      using that by (auto simp: rank_targets_def)
    from issue_all_did [OF b w c distinct_upt each [unfolded t]] t show ?thesis
      by (simp add: rank_did_def)
  qed
  show "returns (StandardRank_PowerDown env r (w, rk)) (rank_does (rk_prm env) (now w) req rk)" if "class_of (req_type req) = C_PD"
  proof -
    have "rank_did p cur req rk (case ty of POWERDOWN_PDA \<Rightarrow> rk1\<lparr>rk_state := STANDARDRANK_PDA\<rparr> | POWERDOWN_PDPF \<Rightarrow> rk1\<lparr>rk_state := STANDARDRANK_PDPF\<rparr>
        | POWERDOWN_PDPS \<Rightarrow> rk1\<lparr>rk_state := STANDARDRANK_PDPS\<rparr> | _ \<Rightarrow> rk1)" if "rank_did p cur req rk rk1" for p cur ty rk1
      using that by (cases ty) (simp_all add: rank_did_def)
    with all that w(2) show ?thesis
      by (auto simp: StandardRank_PowerDown_def Let_def intro!: returns_bind dest!: returnsD)
  qed
  show "returns (StandardRank_PowerUp env r (w, rk)) (rank_does (rk_prm env) (now w) req rk)" if "req_type req = POWERUP"
  proof -
    have "rank_did p cur req rk (rk1\<lparr>rk_state := st\<rparr>) = rank_did p cur req rk rk1" for p cur rk1 st
      by (simp add: rank_did_def)
    then show ?thesis
      using all that w(2)
      by (auto simp: StandardRank_PowerUp_def Let_def intro!: returns_bind dest!: returnsD split: StandardRank_State.splits)
  qed
  show "returns (StandardRank_Refresh env r (w, rk)) (rank_does (rk_prm env) (now w) req rk)" if "req_type req = REFRESH"
  proof -
    have "distinct (rank_targets req rk)"
      using that by (simp add: rank_targets_def Let_def)
    from refresh_loop_did [OF b w that this each] have "returns (refresh_loop env r (rank_targets req rk) (w, rk))
        (\<lambda>(w', rk'). rank_did (rk_prm env) (now w) req rk rk')"
      by (simp add: rank_did_def)
    then show ?thesis
      using w(2) refresh_group_spec [OF fine fits that]
      by (auto simp: StandardRank_Refresh_def Let_def rank_did_def intro!: returns_bind dest!: returnsD)
  qed
qed

text \<open>What an accepted command does to a rank, whichever it is.\<close>

lemma rank_issue_did:
  assumes "rank_fine env n m rk" and "rank_fits env n m req" and "world_ready w" and "heap w r = Some req"
    and issue: "StandardRank_IssueCommand env r (w, rk) = Some (True, w', rk')"
  shows "rank_did (rk_prm env) (now w) req rk rk'"
proof -
  obtain reason rk1 where ask: "StandardRank_IsIssuable env req (w, rk) = Some (rank_can env (now w) req rk, reason, rk1)" and like: "rank_like rk rk1"
    using StandardRank_IsIssuable_spec [OF assms(1,2)] by blast
  have can: "rank_can env (now w) req rk"
    using rank.issue_decides [OF assms(3,1,4,2)] issue by auto
  have fine: "rank_fine env n m rk1" and can1: "rank_can env (now w) req rk1"
    using rank_like_fine [OF like] assms(1,2) can by auto
  have "\<not> bank_can e cur req b" if "class_of (req_type req) = C_NONE" "req_type req \<noteq> POWERUP" for e cur b
    using that by (cases "req_type req") (simp_all add: bank_can_def can_issue_def Let_def)
  then have ty: "class_of (req_type req) \<noteq> C_NONE \<or> req_type req = POWERUP"
    using can1 by (auto simp: rank_can_def rank_targets_def Let_def split: if_splits)
  have "returns (StandardRank_IssueCommand env r (w, rk)) (rank_does (rk_prm env) (now w) req rk1)"
    using ty can ask assms(4) rank_one_bank_did [OF fine assms(3,4,2) can1] rank_all_banks_did [OF fine assms(3,4,2) can1]
    by (cases "req_type req") (simp_all add: StandardRank_IssueCommand_def)
  from returnsD [OF this issue] rank_did_like [OF like] show ?thesis
    by simp
qed


subsection \<open>The bus\<close>

text \<open>A command on the bus: the rank of the address carries it out, and the other ranks, whose banks
  do nothing, keep the distance the data bus needs.\<close>

definition bus_did :: "Params \<Rightarrow> ncycle_t \<Rightarrow> NVMainRequest \<Rightarrow> Bus \<Rightarrow> Bus \<Rightarrow> bool" where
  "bus_did p cur req bus bus' \<longleftrightarrow> length (ranks bus') = length (ranks bus)
     \<and> (\<forall>j < length (ranks bus). if j = unat (rank (address req)) then rank_did p cur req (ranks bus ! j) (ranks bus' ! j)
          else banks (ranks bus' ! j) = banks (ranks bus ! j)
            \<and> (\<forall>c g. switch_gap p (class_of (req_type req)) c = Some g \<longrightarrow> cur + g \<le> column_bound (ranks bus' ! j) c))"

lemma bus_ask_like:
  assumes "bus_fine env k n m bus" and "bus_fits env k n m req" and "OffChipBus_IsIssuable env req (w, bus) = Some (ok, reason, bus')"
  obtains rk where "bus' = bus\<lparr>ranks := (ranks bus)[unat (rank (address req)) := rk]\<rparr>" and "rank_like (ranks bus ! unat (rank (address req))) rk"
proof -
  let ?i = "unat (rank (address req))"
  have i: "?i < length (ranks bus)" "rank_fine (ic_rank env ?i) n m (ranks bus ! ?i)" "rank_fits (ic_rank env ?i) n m req"
    using assms(1,2) by (auto simp: bus_fine_def bus_fits_def)
  from StandardRank_IsIssuable_spec [OF i(2,3), of w] i(1) assms(3) that show ?thesis
    by (auto simp: OffChipBus_IsIssuable_def bus_child_fits [OF assms(1,2)] rank_IsIssuable_def)
qed

lemma bus_issue_did:
  assumes "world_ready w" and "bus_fine env k n m bus" and "heap w r = Some req" and "bus_fits env k n m req"
    and issue: "OffChipBus_IssueCommand env r (w, bus) = Some (True, w', bus')"
  shows "bus_did (ic_prm env) (now w) req bus bus'"
proof -
  define i where "i = unat (rank (address req))"
  have i: "i < k" "length (ranks bus) = k" "\<And>j. j < k \<Longrightarrow> rk_prm (ic_rank env j) = ic_prm env" and fine: "rank_fine (ic_rank env i) n m (ranks bus ! i)"
    and fits: "rank_fits (ic_rank env i) n m req"
    using assms(2,4) by (auto simp: bus_fine_def bus_fits_def i_def)
  have yes: "bus_can env (now w) req bus"
    using OffChipBus_IssueCommand_no [OF assms(1-4)] issue by auto
  obtain w2 rk0 rk' req' reason where ask: "OffChipBus_IsIssuable env req (w, bus) = Some (True, reason, bus\<lparr>ranks := (ranks bus)[i := rk0]\<rparr>)"
    and s: "StandardRank_IssueCommand (ic_rank env i) r (w, rk0) = Some (True, w2, rk')"
    and res: "OffChipBus_IssueCommand env r (w, bus) = Some (True, w2, notify_others env (now w2) i (req_type req') (bus\<lparr>ranks := (ranks bus)[i := rk']\<rparr>))"
    and step: "world_step w w2" and kind: "req_kind req' = req_kind req"
    by (rule OffChipBus_IssueCommand_yes [OF assms(1-4) yes i_def]) blast
  have bus': "bus' = notify_others env (now w) i (req_type req) (bus\<lparr>ranks := (ranks bus)[i := rk']\<rparr>)"
    using issue res world_stepD [OF step] kind by (auto simp: req_kind_def)
  obtain rk1 where e: "bus\<lparr>ranks := (ranks bus)[i := rk0]\<rparr> = bus\<lparr>ranks := (ranks bus)[i := rk1]\<rparr>" and like1: "rank_like (ranks bus ! i) rk1"
    using bus_ask_like [OF assms(2,4) ask] by (auto simp: i_def)
  have like: "rank_like (ranks bus ! i) rk0"
    using arg_cong [OF e, of "\<lambda>bus. ranks bus ! i"] like1 i(1,2) by simp
  have "rank_did (ic_prm env) (now w) req rk0 rk'"
    using rank_issue_did [OF _ fits assms(1,3) s] rank_like_fine(1) [OF like] fine i(3) [OF i(1)] by simp
  then have did: "rank_did (ic_prm env) (now w) req (ranks bus ! i) rk'"
    by (rule rank_did_like [OF like])
  have other: "banks (StandardRank_Notify p cur op rk) = banks rk" for p cur op rk
    by (simp add: StandardRank_Notify_def)
  show ?thesis
    unfolding bus_did_def i_def [symmetric]
    using did i by (auto simp: bus' notify_ranks other notify_bound notify_others_def)
qed

subsection \<open>Properties of the command interfaces\<close>

text \<open>C6: For every bank in order (its active subarrays listed once and open) and every request
  that names one of its subarrays, \<^verbatim>\<open>IssueCommand\<close> returns. It accepts the command exactly when
  the bank's own timing and state and the subarrays concerned allow it, all the way down to the
  subarray, where the command is then carried out: row buffer, earliest cycles, the transition of
  the power-state machine and the list of active subarrays are those of the command;
  \<^verbatim>\<open>PRECHARGE_ALL\<close> closes every active subarray, and a subarray that is not concerned only
  counts. A refused command changes nothing but statistics. Afterwards the bank is in order
  again.\<close>

theorem bank_issue_decides:
  assumes "world_ready w" and "bank_fine env n b" and "heap w r = Some req" and "bank_fits env n req"
  shows "\<exists>w' b'. DDR3Bank_IssueCommand env r (w, b) = Some (bank_can env (now w) req b, w', b')
    \<and> world_step w w' \<and> world_ready w' \<and> bank_fine env n b'
    \<and> (if bank_can env (now w) req b then bank_did (bk_prm env) (now w) req b b' else w' = w \<and> bank_like b b')"
proof -
  obtain w' b' where i: "DDR3Bank_IssueCommand env r (w, b) = Some (bank_can env (now w) req b, w', b')"
    "world_step w w'" "world_ready w'" "bank_fine env n b'"
    using bank.issue_decides [OF assms] by blast
  show ?thesis
  proof (cases "bank_can env (now w) req b")
    case True
    with i bank_issue_did [OF assms(2,4,1,3)] show ?thesis by simp
  next
    case False
    with i DDR3Bank_IsIssuable_spec [OF assms(2,4), of w] assms(3) show ?thesis
      by (auto simp: DDR3Bank_IssueCommand_def)
  qed
qed

theorem bank_issue_decides_witness:
  "\<exists>w' b'. DDR3Bank_IssueCommand demo_bank_env 0 (bank_world, demo_bank) = Some (True, w', b') \<and> bank_fine demo_bank_env 2 b'
    \<and> activeSubArrayQueue b' = [1] \<and> state (subarrays b' ! 1) = SUBARRAY_OPEN \<and> state (subarrays b' ! 0) = SUBARRAY_CLOSED"
proof -
  have "bank_can demo_bank_env 0 (bank_request ACTIVATE 1) demo_bank"
    by (simp add: bank_can_def can_issue_def demo_bank_def DDR3Bank_new_def SubArray_new_def powered_up_def)
  moreover have "bank_fits demo_bank_env 2 (bank_request ACTIVATE 1)"
    by (simp add: bank_fits_def)
  ultimately obtain w' b' where i: "DDR3Bank_IssueCommand demo_bank_env 0 (bank_world, demo_bank) = Some (True, w', b')" "bank_fine demo_bank_env 2 b'"
    and d: "bank_did (bk_prm demo_bank_env) 0 (bank_request ACTIVATE 1) demo_bank b'"
    using bank_issue_decides [OF bank_world_ready(1) demo_bank_fine bank_world_ready(3)] bank_world_ready(2) by auto
  have "activeSubArrayQueue b' = [1]" "sub_did (bk_prm demo_bank_env) 0 (bank_request ACTIVATE 1) SubArray_new (subarrays b' ! 1)"
    "sub_like SubArray_new (subarrays b' ! 0)"
    using d by (auto simp: bank_did_def bank_moved_def bank_targets_def subs_did_def demo_bank_def DDR3Bank_new_def
        dest: spec [of _ 0] spec [of _ 1])
  with i show ?thesis
    by (auto simp: sub_did_def sub_like_def SubArray_new_def)
qed

text \<open>C4: For every rank in order (banks in order and in power lockstep) and every request that
  names one of its banks, \<^verbatim>\<open>IssueCommand\<close> returns without failing any of its assertions. It
  accepts the command exactly when the rank's own timing (activation window, distance of
  activations, bus turn-around) and every bank concerned allow it: the bank named, all banks
  for a power-down or a power-up, the group for a refresh. The command is then carried out in
  every one of them, down to the row buffer and the earliest cycles of its subarrays, and in no
  other bank; a refused command changes nothing but statistics. The banks are in order and in
  lockstep again.\<close>

theorem rank_issue_decides:
  assumes "world_ready w" and "rank_fine env n m rk" and "heap w r = Some req" and "rank_fits env n m req"
  shows "\<exists>w' rk'. StandardRank_IssueCommand env r (w, rk) = Some (rank_can env (now w) req rk, w', rk')
    \<and> world_step w w' \<and> world_ready w' \<and> rank_fine env n m rk'
    \<and> (if rank_can env (now w) req rk then rank_did (rk_prm env) (now w) req rk rk' else w' = w \<and> rank_like rk rk')"
proof -
  obtain w' rk' where i: "StandardRank_IssueCommand env r (w, rk) = Some (rank_can env (now w) req rk, w', rk')"
    "world_step w w'" "world_ready w'" "rank_fine env n m rk'"
    using rank.issue_decides [OF assms] by blast
  show ?thesis
  proof (cases "rank_can env (now w) req rk")
    case True
    with i rank_issue_did [OF assms(2,4,1,3)] show ?thesis by simp
  next
    case False
    with i StandardRank_IsIssuable_spec [OF assms(2,4), of w] assms(3) show ?thesis
      by (auto simp: StandardRank_IssueCommand_def)
  qed
qed

theorem rank_issue_decides_witness:
  "\<exists>w' rk'. StandardRank_IssueCommand demo_rank_env 0 (rank_world, demo_rank) = Some (True, w', rk') \<and> rank_fine demo_rank_env 2 2 rk'
    \<and> power_of (bk_state (banks rk' ! 0)) = Fast_PD \<and> power_of (bk_state (banks rk' ! 1)) = Fast_PD"
proof -
  have b: "bank_can demo_bank_env 0 (bank_request POWERDOWN_PDPF 1) demo_bank"
    by (simp add: bank_can_def can_issue_def demo_bank_def DDR3Bank_new_def SubArray_new_def powered_up_def All_less_Suc numeral_2_eq_2)
  have "rank_can demo_rank_env 0 (bank_request POWERDOWN_PDPF 1) demo_rank"
    using b by (simp add: rank_can_def rank_timing_ok_def rank_targets_def Let_def demo_rank_def StandardRank_new_def demo_rank_env_def
        All_less_Suc numeral_2_eq_2)
  moreover have "rank_fits demo_rank_env 2 2 (bank_request POWERDOWN_PDPF 1)"
    by (simp add: rank_fits_def bank_request_def demo_request_def NVMainRequest_new_def NVMAddress_new_def)
  ultimately obtain w' rk' where i: "StandardRank_IssueCommand demo_rank_env 0 (rank_world, demo_rank) = Some (True, w', rk')" "rank_fine demo_rank_env 2 2 rk'"
    and d: "rank_did (rk_prm demo_rank_env) 0 (bank_request POWERDOWN_PDPF 1) demo_rank rk'"
    using rank_issue_decides [OF rank_world_ready(1) demo_rank_fine rank_world_ready(3)] rank_world_ready(2) by auto
  have "bank_did (rk_prm demo_rank_env) 0 (bank_request POWERDOWN_PDPF 1) demo_bank (banks rk' ! j)" if "j < 2" for j
    using d that by (auto simp: rank_did_def rank_targets_def banks_did_def demo_rank_def less_2_cases_iff)
  then have "power_step POWERDOWN_PDPF Idle_Standby (power_of (bk_state (banks rk' ! j)))" if "j < 2" for j
    using that by (auto simp: bank_did_def demo_bank_def DDR3Bank_new_def)
  from this [of 0] this [of 1] i show ?thesis
    by (auto elim!: power_stepE)
qed

text \<open>C25: What the bus answered to \<^verbatim>\<open>IsIssuable\<close> holds when the same command is issued in the
  same cycle: the assertion of \<^verbatim>\<open>IssueCommand\<close> does not fail, the command is carried out by the
  rank of the address in its banks concerned and their subarrays, the banks of the other ranks
  do nothing and those ranks are notified of the distances the data bus needs, and the whole tree
  is in order afterwards.\<close>

theorem bus_asked_then_issued:
  assumes "world_ready w" and "bus_fine env k n m bus" and "heap w r = Some req" and "bus_fits env k n m req"
    and "OffChipBus_IsIssuable env req (w, bus) = Some (True, reason, bus')"
  shows "\<exists>w' bus''. OffChipBus_IssueCommand env r (w, bus') = Some (True, w', bus'') \<and> world_step w w' \<and> world_ready w' \<and> bus_fine env k n m bus''
    \<and> bus_did (ic_prm env) (now w) req bus' bus''"
proof -
  obtain w' bus'' where i: "OffChipBus_IssueCommand env r (w, bus') = Some (True, w', bus'')" "world_step w w'" "world_ready w'" "bus_fine env k n m bus''"
    using bus.ask_issue_accepted [OF assms] by blast
  have "bus_fine env k n m bus'"
    using bus.asked [OF assms(1,2,4)] assms(5) by auto
  from i bus_issue_did [OF assms(1) this assms(3,4) i(1)] show ?thesis
    by blast
qed

theorem bus_asked_then_issued_witness:
  "\<exists>reason bus' w' bus''. OffChipBus_IsIssuable demo_bus_env (bank_request ACTIVATE 1) (late_world, demo_bus) = Some (True, reason, bus')
     \<and> OffChipBus_IssueCommand demo_bus_env 0 (late_world, bus') = Some (True, w', bus'') \<and> bus_fine demo_bus_env 2 8 2 bus''
     \<and> rank_did (ic_prm demo_bus_env) 21 (bank_request ACTIVATE 1) (ranks bus' ! 0) (ranks bus'' ! 0) \<and> banks (ranks bus'' ! 1) = banks (ranks bus' ! 1)"
proof -
  obtain reason bus' where ask: "OffChipBus_IsIssuable demo_bus_env (bank_request ACTIVATE 1) (late_world, demo_bus) = Some (True, reason, bus')"
    and fine: "bus_fine demo_bus_env 2 8 2 bus'"
    using bus.asked [OF late_world_ready(1) demo_bus_fine demo_bus_can(2)] demo_bus_can(1) late_world_ready(2) by auto
  have "rank (address (bank_request ACTIVATE 1)) = 0" "length (ranks bus') = 2"
    using fine by (simp_all add: bank_request_def demo_request_def NVMainRequest_new_def NVMAddress_new_def bus_fine_def)
  with bus_asked_then_issued [OF late_world_ready(1) demo_bus_fine late_world_ready(3) demo_bus_can(2) ask] ask late_world_ready(2) show ?thesis
    by (fastforce simp: bus_did_def)
qed

end
