(* ===== verification/Memory_Controller.thy ===== *)
theory Memory_Controller
  imports Command_Module Address_Translation
begin

text \<open>
  The base class of the memory controllers (\<^verbatim>\<open>src/MemoryController.h\<close>,
  \<^verbatim>\<open>src/MemoryController.cpp\<close>): transaction queues, command queues, the controller's view of
  the open rows, refresh, power-down, and the callbacks that drive it.

  The memory behind the controller (its only child, an interconnect) is reached through the
  operations of the record \<open>Channel\<close>; theory \<open>Controller_Bus\<close> takes those of the bus. Arrays
  indexed by rank, bank and subarray are functions, and an access outside the allocated range is
  \<open>None\<close>. A derived controller extends the record, as the classes extend the base class.
\<close>

subsection \<open>State\<close>

record 'c Channel =
  ch_IsIssuable :: "NVMainRequest \<Rightarrow> World \<times> 'c \<Rightarrow> (bool \<times> FailReasons option \<times> 'c) option"
  ch_IssueCommand :: "nat \<Rightarrow> World \<times> 'c \<Rightarrow> (bool \<times> World \<times> 'c) option"
  ch_NextIssuable :: "NVMainRequest \<Rightarrow> 'c \<Rightarrow> ncycle_t option"
  ch_Cycle :: "ncycle_t \<Rightarrow> 'c \<Rightarrow> 'c"
  ch_CalculateStats :: "ncycle_t \<Rightarrow> 'c \<Rightarrow> 'c option"
  ch_FindSubArray :: "NVMainRequest \<Rightarrow> 'c \<Rightarrow> SubArray option"
  ch_RankIdle :: "NVMainRequest \<Rightarrow> 'c \<Rightarrow> bool option"

text \<open>\<open>mc_self\<close> is the object itself, \<open>mc_hooks\<close> the children of its parent (hook and object),
  \<open>mc_trampoline\<close> the object behind a hook, \<open>mc_id\<close> the number of the channel.\<close>

record 'c McEnv =
  mc_prm :: Params
  mc_self :: nat
  mc_hooks :: "(nat \<times> nat) list"
  mc_trampoline :: "nat \<Rightarrow> nat"
  mc_id :: ncounter_t
  mc_decoder :: AddressTranslator
  mc_outs :: "MemoryPartition \<Rightarrow> uint64"
  mc_channel :: "'c Channel"

datatype QueueModel = PerRankQueues | PerBankQueues | PerSubArrayQueues

definition transactionQueuePriority :: int where "transactionQueuePriority = 30"
definition commandQueuePriority :: int where "commandQueuePriority = 40"
definition refreshPriority :: int where "refreshPriority = 20"
definition cleanupPriority :: int where "cleanupPriority = - 10"

text \<open>The member functions that are registered as callbacks.\<close>

definition CommandQueueCallback_ptr :: nat where "CommandQueueCallback_ptr = 1"
definition RefreshCallback_ptr :: nat where "RefreshCallback_ptr = 2"
definition CleanupCallback_ptr :: nat where "CleanupCallback_ptr = 3"

text \<open>\<open>activeSubArray\<close> holds only the values \<^verbatim>\<open>true\<close> and \<^verbatim>\<open>false\<close>.\<close>

record MemoryController =
  lastCommandWake :: ncycle_t
  wakeupCount :: ncounter_t
  lastIssueCycle :: ncycle_t
  transactionQueues :: "nat list list"
  commandQueues :: "ncounter_t \<Rightarrow> nat list"
  commandQueueCount :: ncounter_t
  queueModel :: QueueModel
  activateQueued :: "ncounter_t \<Rightarrow> ncounter_t \<Rightarrow> bool"
  refreshQueued :: "ncounter_t \<Rightarrow> ncounter_t \<Rightarrow> bool"
  effectiveRow :: "ncounter_t \<Rightarrow> ncounter_t \<Rightarrow> ncounter_t \<Rightarrow> ncounter_t"
  effectiveMuxedRow :: "ncounter_t \<Rightarrow> ncounter_t \<Rightarrow> ncounter_t \<Rightarrow> ncounter_t"
  activeSubArray :: "ncounter_t \<Rightarrow> ncounter_t \<Rightarrow> ncounter_t \<Rightarrow> bool"
  starvationCounter :: "ncounter_t \<Rightarrow> ncounter_t \<Rightarrow> ncounter_t \<Rightarrow> ncounter_t"
  starvationThreshold :: ncounter_t
  mc_subArrayNum :: ncounter_t
  rankPowerDown :: "ncounter_t \<Rightarrow> bool"
  curQueue :: ncounter_t
  delayedRefreshCounter :: "ncounter_t \<Rightarrow> ncounter_t \<Rightarrow> ncounter_t"
  bankNeedRefresh :: "ncounter_t \<Rightarrow> ncounter_t \<Rightarrow> bool"
  m_tREFI :: ncycle_t
  m_refreshBankNum :: ncounter_t
  handledRefresh :: ncycle_t
  nextRefreshRank :: ncounter_t
  nextRefreshBank :: ncounter_t
  simulation_cycles :: ncounter_t

definition MemoryController_new :: MemoryController where
  "MemoryController_new = \<lparr>lastCommandWake = 0, wakeupCount = 0, lastIssueCycle = 0, transactionQueues = [],
     commandQueues = (\<lambda>_. []), commandQueueCount = 0, queueModel = PerBankQueues, activateQueued = (\<lambda>_ _. False),
     refreshQueued = (\<lambda>_ _. False), effectiveRow = (\<lambda>_ _ _. 0), effectiveMuxedRow = (\<lambda>_ _ _. 0),
     activeSubArray = (\<lambda>_ _ _. False), starvationCounter = (\<lambda>_ _ _. 0), starvationThreshold = 4, mc_subArrayNum = 1,
     rankPowerDown = (\<lambda>_. False), curQueue = 0, delayedRefreshCounter = (\<lambda>_ _. 0), bankNeedRefresh = (\<lambda>_ _. False),
     m_tREFI = 0, m_refreshBankNum = 0, handledRefresh = - 1, nextRefreshRank = 0, nextRefreshBank = 0, simulation_cycles = 0\<rparr>"

type_synonym ('c, 'z) mc_state = "World \<times> 'c \<times> 'z MemoryController_scheme"

definition upd2 :: "'a \<Rightarrow> 'b \<Rightarrow> 'v \<Rightarrow> ('a \<Rightarrow> 'b \<Rightarrow> 'v) \<Rightarrow> 'a \<Rightarrow> 'b \<Rightarrow> 'v" where
  "upd2 i j v f = f(i := (f i)(j := v))"

definition upd3 :: "'a \<Rightarrow> 'b \<Rightarrow> 'd \<Rightarrow> 'v \<Rightarrow> ('a \<Rightarrow> 'b \<Rightarrow> 'd \<Rightarrow> 'v) \<Rightarrow> 'a \<Rightarrow> 'b \<Rightarrow> 'd \<Rightarrow> 'v" where
  "upd3 i j k v f = f(i := (f i)(j := (f i j)(k := v)))"

lemma upd2_apply [simp]: "upd2 i j v f i' j' = (if i' = i \<and> j' = j then v else f i' j')"
  by (simp add: upd2_def)

lemma upd3_apply [simp]: "upd3 i j k v f i' j' k' = (if i' = i \<and> j' = j \<and> k' = k then v else f i' j' k')"
  by (simp add: upd3_def)

abbreviation upd_mc :: "('z MemoryController_scheme \<Rightarrow> 'z MemoryController_scheme) \<Rightarrow> ('c, 'z) mc_state \<Rightarrow> ('c, 'z) mc_state" where
  "upd_mc f s \<equiv> (fst s, fst (snd s), f (snd (snd s)))"

abbreviation mc_of :: "('c, 'z) mc_state \<Rightarrow> 'z MemoryController_scheme" where
  "mc_of s \<equiv> snd (snd s)"

definition InitQueues :: "uint32 \<Rightarrow> 'z MemoryController_scheme \<Rightarrow> 'z MemoryController_scheme" where
  "InitQueues numQueues mc = mc\<lparr>transactionQueues := replicate (unat numQueues) []\<rparr>"

definition push_command :: "ncounter_t \<Rightarrow> nat \<Rightarrow> 'z MemoryController_scheme \<Rightarrow> 'z MemoryController_scheme" where
  "push_command queueId r mc = mc\<lparr>commandQueues := (commandQueues mc)(queueId := commandQueues mc queueId @ [r])\<rparr>"

subsection \<open>Queues\<close>

definition WasIssued :: "NVMainRequest \<Rightarrow> bool" where
  "WasIssued request \<longleftrightarrow> has_flag (flags request) FLAG_ISSUED"

text \<open>\<open>None\<close> is the failed assertion at the end of the function. Scheme 0 with per-bank queues
  leaves the queue undetermined.\<close>

definition GetCommandQueueId :: "'c McEnv \<Rightarrow> NVMAddress \<Rightarrow> 'z MemoryController_scheme \<Rightarrow> ncounter_t option" where
  "GetCommandQueueId env addr mc =
     (let p = mc_prm env;
          queueId = (case queueModel mc of
              PerRankQueues \<Rightarrow> rank addr
            | PerBankQueues \<Rightarrow>
                if ScheduleScheme p = 1 then bank addr * RANKS p + rank addr
                else if ScheduleScheme p = 2 then rank addr * BANKS p + bank addr
                else - 1
            | PerSubArrayQueues \<Rightarrow> rank addr * BANKS p * mc_subArrayNum mc + bank addr * mc_subArrayNum mc + subarray addr)
      in if queueId < commandQueueCount mc then Some queueId else None)"

text \<open>\<^verbatim>\<open>NVMAddress( row, col, bank, rank, channel, subarray )\<close>.\<close>

definition NVMAddress_at :: "uint64 \<Rightarrow> uint64 \<Rightarrow> uint64 \<Rightarrow> uint64 \<Rightarrow> uint64 \<Rightarrow> uint64 \<Rightarrow> NVMAddress" where
  "NVMAddress_at addrRow addrCol addrBank addrRank addrChannel addrSA =
     SetTranslatedAddress addrRow addrCol addrBank addrRank addrChannel addrSA NVMAddress_new"

definition bank_queue :: "'c McEnv \<Rightarrow> ncounter_t \<Rightarrow> ncounter_t \<Rightarrow> 'z MemoryController_scheme \<Rightarrow> ncounter_t option" where
  "bank_queue env rk bk mc = GetCommandQueueId env (NVMAddress_at 0 0 bk rk 0 0) mc"

definition EffectivelyEmpty :: "ncounter_t \<Rightarrow> World \<Rightarrow> 'z MemoryController_scheme \<Rightarrow> bool option" where
  "EffectivelyEmpty queueId w mc =
     (if queueId < commandQueueCount mc
      then (case commandQueues mc queueId of
              [] \<Rightarrow> Some True
            | [r] \<Rightarrow> map_option WasIssued (heap w r)
            | _ \<Rightarrow> Some False)
      else None)"

fun available_in :: "'c McEnv \<Rightarrow> ncounter_t \<Rightarrow> World \<Rightarrow> 'z MemoryController_scheme \<Rightarrow> nat list \<Rightarrow> bool option" where
  "available_in env queueId w mc [] = Some False"
| "available_in env queueId w mc (r # rs) = do {
     req \<leftarrow> heap w r;
     q \<leftarrow> GetCommandQueueId env (address req) mc;
     if q = queueId then Some True else available_in env queueId w mc rs
   }"

definition TransactionAvailable :: "'c McEnv \<Rightarrow> ncounter_t \<Rightarrow> World \<Rightarrow> 'z MemoryController_scheme \<Rightarrow> bool option" where
  "TransactionAvailable env queueId w mc =
     map_option (\<lambda>rvs. True \<in> set rvs) (those (map (available_in env queueId w mc) (transactionQueues mc)))"

text \<open>The upper bound in the code is \<^verbatim>\<open>>\<close>, so that the count itself is a value of \<open>curQueue\<close>.\<close>

definition MoveCurrentQueue :: "Params \<Rightarrow> 'z MemoryController_scheme \<Rightarrow> 'z MemoryController_scheme" where
  "MoveCurrentQueue p mc =
     (if ScheduleScheme p \<noteq> 0
      then (let c = curQueue mc + 1 in mc\<lparr>curQueue := (if c > commandQueueCount mc then 0 else c)\<rparr>)
      else mc)"

fun all_queues :: "(ncounter_t \<Rightarrow> bool option) \<Rightarrow> ncounter_t list \<Rightarrow> bool option" where
  "all_queues test [] = Some True"
| "all_queues test (b # bs) = do { ok \<leftarrow> test b; if ok then all_queues test bs else Some False }"

definition below :: "ncounter_t \<Rightarrow> ncounter_t list" where
  "below n = map of_nat [0..<unat n]"

definition RankQueueEmpty :: "'c McEnv \<Rightarrow> ncounter_t \<Rightarrow> 'z MemoryController_scheme \<Rightarrow> bool option" where
  "RankQueueEmpty env rankId mc =
     all_queues (\<lambda>i. do { queueId \<leftarrow> bank_queue env rankId i mc; Some (commandQueues mc queueId = []) }) (below (BANKS (mc_prm env)))"

definition CleanupCallback :: "('c, 'z) mc_state \<Rightarrow> ('c, 'z) mc_state option" where
  "CleanupCallback s = (case s of (w, c, mc) \<Rightarrow>
     if \<forall>q \<in> set (below (commandQueueCount mc)). \<forall>r \<in> set (commandQueues mc q). heap w r \<noteq> None
     then Some (w, c, mc\<lparr>commandQueues := (\<lambda>q. if q < commandQueueCount mc
            then filter (\<lambda>r. \<not> WasIssued (the (heap w r))) (commandQueues mc q) else commandQueues mc q)\<rparr>)
     else None)"

subsection \<open>Events\<close>

text \<open>\<^verbatim>\<open>InsertEvent( EventCycle, this, when, NULL, transactionQueuePriority )\<close> and its search, and
  the callbacks of the controller.\<close>

definition insert_cycle :: "'c McEnv \<Rightarrow> ncycle_t \<Rightarrow> World \<Rightarrow> World option" where
  "insert_cycle env when w = do {
     q \<leftarrow> InsertEvent_object (next_ref w) EventCycle (mc_hooks env) (mc_self env) None when None transactionQueuePriority (evq w);
     Some (w\<lparr>evq := q, next_ref := Suc (next_ref w)\<rparr>)
   }"

definition find_cycle :: "'c McEnv \<Rightarrow> ncycle_t \<Rightarrow> World \<Rightarrow> Event option option" where
  "find_cycle env when w = FindEvent_object EventCycle (mc_hooks env) (mc_self env) None when (evq w)"

definition insert_mc_callback :: "'c McEnv \<Rightarrow> nat \<Rightarrow> ncycle_t \<Rightarrow> nat option \<Rightarrow> int \<Rightarrow> World \<Rightarrow> World option" where
  "insert_mc_callback env meth when data prio w = do {
     q \<leftarrow> InsertCallback (next_ref w) (mc_hooks env) (mc_self env) meth when data prio (evq w);
     Some (w\<lparr>evq := q, next_ref := Suc (next_ref w)\<rparr>)
   }"

text \<open>A callback that is not scheduled yet.\<close>

definition ensure_callback :: "'c McEnv \<Rightarrow> nat \<Rightarrow> ncycle_t \<Rightarrow> int \<Rightarrow> World \<Rightarrow> World option" where
  "ensure_callback env meth when prio w =
     (if FindCallback (mc_trampoline env) (mc_self env) meth when None prio (evq w) = None
      then insert_mc_callback env meth when None prio w else Some w)"

definition Prequeue :: "nat \<Rightarrow> nat \<Rightarrow> 'z MemoryController_scheme \<Rightarrow> 'z MemoryController_scheme option" where
  "Prequeue queueNum r mc =
     (if queueNum < length (transactionQueues mc)
      then Some (mc\<lparr>transactionQueues := (transactionQueues mc)[queueNum := r # transactionQueues mc ! queueNum]\<rparr>)
      else None)"

definition Enqueue :: "'c McEnv \<Rightarrow> nat \<Rightarrow> nat \<Rightarrow> ('c, 'z) mc_state \<Rightarrow> ('c, 'z) mc_state option" where
  "Enqueue env queueNum r s = (case s of (w, c, mc) \<Rightarrow> do {
     req \<leftarrow> heap w r;
     (_, f) \<leftarrow> Translate (mc_decoder env) (physicalAddress (address req)) (mc_outs env);
     let addr = SetTranslatedAddress (f MEM_ROW) (f MEM_COL) (f MEM_BANK) (f MEM_RANK) (channel (address req)) (f MEM_SUBARRAY) (address req);
     w1 \<leftarrow> update_request r (\<lambda>q. q\<lparr>address := addr\<rparr>) w;
     if queueNum < length (transactionQueues mc) then do {
       let mc1 = mc\<lparr>transactionQueues := (transactionQueues mc)[queueNum := transactionQueues mc ! queueNum @ [r]]\<rparr>;
       queueId \<leftarrow> GetCommandQueueId env addr mc1;
       empty \<leftarrow> EffectivelyEmpty queueId w1 mc1;
       w2 \<leftarrow> (if empty then do {
                 found \<leftarrow> find_cycle env (now w1) w1;
                 if found = None then insert_cycle env (now w1) w1 else Some w1
               } else Some w1);
       Some (w2, c, mc1)
     } else None
   })"

fun wake_loop :: "'c McEnv \<Rightarrow> ncycle_t \<Rightarrow> ncounter_t list \<Rightarrow> ('c, 'z) mc_state \<Rightarrow> ('c, 'z) mc_state option" where
  "wake_loop env nextWakeup [] s = Some s"
| "wake_loop env nextWakeup (q # qs) s = (case s of (w, c, mc) \<Rightarrow> do {
     empty \<leftarrow> EffectivelyEmpty q w mc;
     avail \<leftarrow> (if empty then TransactionAvailable env q w mc else Some False);
     if avail then do { w' \<leftarrow> insert_cycle env nextWakeup w; Some (w', c, mc) }
     else wake_loop env nextWakeup qs s
   })"

definition MemoryController_Cycle :: "'c McEnv \<Rightarrow> ('c, 'z) mc_state \<Rightarrow> ('c, 'z) mc_state option" where
  "MemoryController_Cycle env s = (case s of (w, c, mc) \<Rightarrow> do {
     let nextWakeup = now w + 1;
     found \<leftarrow> find_cycle env nextWakeup w;
     if found \<noteq> None then Some s else wake_loop env nextWakeup (below (commandQueueCount mc)) s
   })"

subsection \<open>Making requests\<close>

definition new_request :: "NVMainRequest \<Rightarrow> World \<Rightarrow> nat \<times> World" where
  "new_request req w = (next_ref w, w\<lparr>heap := (heap w)(next_ref w \<mapsto> req), next_ref := Suc (next_ref w)\<rparr>)"

definition own_request :: "'c McEnv \<Rightarrow> OpType \<Rightarrow> NVMAddress \<Rightarrow> ncycle_t \<Rightarrow> NVMainRequest" where
  "own_request env ty addr cur = NVMainRequest_new\<lparr>req_type := ty, issueCycle := cur, address := addr, owner := Some (mc_self env)\<rparr>"

text \<open>The address of a request that the controller makes for a location.\<close>

definition located_address :: "'c McEnv \<Rightarrow> uint64 \<Rightarrow> uint64 \<Rightarrow> uint64 \<Rightarrow> uint64 \<Rightarrow> uint64 \<Rightarrow> NVMAddress option" where
  "located_address env rw cl bk rk sa = do {
     (_, phys) \<leftarrow> ReverseTranslate (mc_decoder env)
        (\<lambda>f. case f of MEM_ROW \<Rightarrow> rw | MEM_COL \<Rightarrow> cl | MEM_BANK \<Rightarrow> bk | MEM_RANK \<Rightarrow> rk | MEM_CHANNEL \<Rightarrow> mc_id env | MEM_SUBARRAY \<Rightarrow> sa | MEM_UNKNOWN \<Rightarrow> 0);
     Some (SetTranslatedAddress rw cl bk rk (mc_id env) sa (SetPhysicalAddress phys NVMAddress_new))
   }"

definition make_for :: "'c McEnv \<Rightarrow> OpType \<Rightarrow> nat \<Rightarrow> World \<Rightarrow> (nat \<times> World) option" where
  "make_for env ty r w = do { req \<leftarrow> heap w r; Some (new_request (own_request env ty (address req) (now w)) w) }"

definition make_at :: "'c McEnv \<Rightarrow> OpType \<Rightarrow> uint64 \<Rightarrow> uint64 \<Rightarrow> uint64 \<Rightarrow> uint64 \<Rightarrow> uint64 \<Rightarrow> World \<Rightarrow> (nat \<times> World) option" where
  "make_at env ty rw cl bk rk sa w = do { addr \<leftarrow> located_address env rw cl bk rk sa; Some (new_request (own_request env ty addr (now w)) w) }"

definition MakeCachedRequest :: "'c McEnv \<Rightarrow> nat \<Rightarrow> World \<Rightarrow> (nat \<times> World) option" where
  "MakeCachedRequest env r w = do {
     req \<leftarrow> heap w r;
     if req_type req = READ \<or> req_type req = WRITE
     then copy_request r (\<lambda>q. q\<lparr>req_type := (if req_type req = READ then CACHED_READ else CACHED_WRITE), owner := Some (mc_self env)\<rparr>) w
     else None
   }"

definition MakeActivateRequest :: "'c McEnv \<Rightarrow> nat \<Rightarrow> World \<Rightarrow> (nat \<times> World) option" where
  "MakeActivateRequest env = make_for env ACTIVATE"

definition MakeActivateRequest_at :: "'c McEnv \<Rightarrow> uint64 \<Rightarrow> uint64 \<Rightarrow> uint64 \<Rightarrow> uint64 \<Rightarrow> uint64 \<Rightarrow> World \<Rightarrow> (nat \<times> World) option" where
  "MakeActivateRequest_at env = make_at env ACTIVATE"

definition MakePrechargeRequest :: "'c McEnv \<Rightarrow> nat \<Rightarrow> World \<Rightarrow> (nat \<times> World) option" where
  "MakePrechargeRequest env = make_for env PRECHARGE"

definition MakePrechargeRequest_at :: "'c McEnv \<Rightarrow> uint64 \<Rightarrow> uint64 \<Rightarrow> uint64 \<Rightarrow> uint64 \<Rightarrow> uint64 \<Rightarrow> World \<Rightarrow> (nat \<times> World) option" where
  "MakePrechargeRequest_at env = make_at env PRECHARGE"

definition MakePrechargeAllRequest :: "'c McEnv \<Rightarrow> nat \<Rightarrow> World \<Rightarrow> (nat \<times> World) option" where
  "MakePrechargeAllRequest env = make_for env PRECHARGE_ALL"

definition MakePrechargeAllRequest_at :: "'c McEnv \<Rightarrow> uint64 \<Rightarrow> uint64 \<Rightarrow> uint64 \<Rightarrow> uint64 \<Rightarrow> uint64 \<Rightarrow> World \<Rightarrow> (nat \<times> World) option" where
  "MakePrechargeAllRequest_at env = make_at env PRECHARGE_ALL"

definition MakeRefreshRequest :: "'c McEnv \<Rightarrow> uint64 \<Rightarrow> uint64 \<Rightarrow> uint64 \<Rightarrow> uint64 \<Rightarrow> uint64 \<Rightarrow> World \<Rightarrow> (nat \<times> World) option" where
  "MakeRefreshRequest env = make_at env REFRESH"

definition MakePowerdownRequest :: "'c McEnv \<Rightarrow> OpType \<Rightarrow> uint64 \<Rightarrow> World \<Rightarrow> (nat \<times> World) option" where
  "MakePowerdownRequest env pdOp rk = make_at env pdOp 0 0 0 rk 0"

definition MakePowerupRequest :: "'c McEnv \<Rightarrow> uint64 \<Rightarrow> World \<Rightarrow> (nat \<times> World) option" where
  "MakePowerupRequest env rk = make_at env POWERUP 0 0 0 rk 0"

text \<open>The access itself becomes one with implicit precharge.\<close>

definition MakeImplicitPrechargeRequest :: "nat \<Rightarrow> World \<Rightarrow> World option" where
  "MakeImplicitPrechargeRequest r w =
     update_request r (\<lambda>q. q\<lparr>req_type := (if req_type q = READ then READ_PRECHARGE else if req_type q = WRITE then WRITE_PRECHARGE else req_type q),
       issueCycle := now w\<rparr>) w"

subsection \<open>Refresh bookkeeping\<close>

text \<open>The counters are indexed by bank group.\<close>

definition group_ok :: "'c McEnv \<Rightarrow> ncounter_t \<Rightarrow> ncounter_t \<Rightarrow> 'z MemoryController_scheme \<Rightarrow> bool" where
  "group_ok env bk rk mc \<longleftrightarrow> rk < RANKS (mc_prm env) \<and> bk div BanksPerRefresh (mc_prm env) < m_refreshBankNum mc"

definition NeedRefresh :: "'c McEnv \<Rightarrow> ncounter_t \<Rightarrow> ncounter_t \<Rightarrow> 'z MemoryController_scheme \<Rightarrow> bool option" where
  "NeedRefresh env bk rk mc =
     (if UseRefresh (mc_prm env)
      then if group_ok env bk rk mc
           then Some (delayedRefreshCounter mc rk (bk div BanksPerRefresh (mc_prm env)) \<ge> DelayedRefreshThreshold (mc_prm env))
           else None
      else Some False)"

definition group_banks :: "Params \<Rightarrow> ncounter_t \<Rightarrow> ncounter_t list" where
  "group_banks p bk = map (\<lambda>i. bk div BanksPerRefresh p * BanksPerRefresh p + i) (below (BanksPerRefresh p))"

definition set_group :: "bool \<Rightarrow> ncounter_t \<Rightarrow> ncounter_t list \<Rightarrow> (ncounter_t \<Rightarrow> ncounter_t \<Rightarrow> bool) \<Rightarrow> ncounter_t \<Rightarrow> ncounter_t \<Rightarrow> bool" where
  "set_group v rk bs f = (\<lambda>r b. if r = rk \<and> b \<in> set bs then v else f r b)"

definition banks_in :: "'c McEnv \<Rightarrow> ncounter_t \<Rightarrow> ncounter_t list \<Rightarrow> bool" where
  "banks_in env rk bs \<longleftrightarrow> rk < RANKS (mc_prm env) \<and> (\<forall>b \<in> set bs. b < BANKS (mc_prm env))"

definition SetRefresh :: "'c McEnv \<Rightarrow> ncounter_t \<Rightarrow> ncounter_t \<Rightarrow> 'z MemoryController_scheme \<Rightarrow> 'z MemoryController_scheme option" where
  "SetRefresh env bk rk mc = (let bs = group_banks (mc_prm env) bk in
     if banks_in env rk bs then Some (mc\<lparr>bankNeedRefresh := set_group True rk bs (bankNeedRefresh mc)\<rparr>) else None)"

definition ResetRefresh :: "'c McEnv \<Rightarrow> ncounter_t \<Rightarrow> ncounter_t \<Rightarrow> 'z MemoryController_scheme \<Rightarrow> 'z MemoryController_scheme option" where
  "ResetRefresh env bk rk mc = (let bs = group_banks (mc_prm env) bk in
     if banks_in env rk bs then Some (mc\<lparr>bankNeedRefresh := set_group False rk bs (bankNeedRefresh mc)\<rparr>) else None)"

text \<open>The function asserts that every flag of the group was set.\<close>

definition ResetRefreshQueued :: "'c McEnv \<Rightarrow> ncounter_t \<Rightarrow> ncounter_t \<Rightarrow> 'z MemoryController_scheme \<Rightarrow> 'z MemoryController_scheme option" where
  "ResetRefreshQueued env bk rk mc = (let bs = group_banks (mc_prm env) bk in
     if banks_in env rk bs \<and> (\<forall>b \<in> set bs. refreshQueued mc rk b)
     then Some (mc\<lparr>refreshQueued := set_group False rk bs (refreshQueued mc)\<rparr>) else None)"

definition IncrementRefreshCounter :: "'c McEnv \<Rightarrow> ncounter_t \<Rightarrow> ncounter_t \<Rightarrow> 'z MemoryController_scheme \<Rightarrow> 'z MemoryController_scheme option" where
  "IncrementRefreshCounter env bk rk mc = (let g = bk div BanksPerRefresh (mc_prm env) in
     if group_ok env bk rk mc
     then Some (mc\<lparr>delayedRefreshCounter := upd2 rk g (delayedRefreshCounter mc rk g + 1) (delayedRefreshCounter mc)\<rparr>) else None)"

definition DecrementRefreshCounter :: "'c McEnv \<Rightarrow> ncounter_t \<Rightarrow> ncounter_t \<Rightarrow> 'z MemoryController_scheme \<Rightarrow> 'z MemoryController_scheme option" where
  "DecrementRefreshCounter env bk rk mc = (let g = bk div BanksPerRefresh (mc_prm env) in
     if group_ok env bk rk mc
     then Some (mc\<lparr>delayedRefreshCounter := upd2 rk g (delayedRefreshCounter mc rk g - 1) (delayedRefreshCounter mc)\<rparr>) else None)"

definition IsRefreshBankQueueEmpty :: "'c McEnv \<Rightarrow> ncounter_t \<Rightarrow> ncounter_t \<Rightarrow> World \<Rightarrow> 'z MemoryController_scheme \<Rightarrow> bool option" where
  "IsRefreshBankQueueEmpty env bk rk w mc =
     all_queues (\<lambda>b. do { queueId \<leftarrow> bank_queue env rk b mc; EffectivelyEmpty queueId w mc }) (group_banks (mc_prm env) bk)"

definition ProcessRefreshPulse :: "'c McEnv \<Rightarrow> nat \<Rightarrow> ('c, 'z) mc_state \<Rightarrow> ('c, 'z) mc_state option" where
  "ProcessRefreshPulse env r s = (case s of (w, c, mc) \<Rightarrow> do {
     req \<leftarrow> heap w r;
     if req_type req = REFRESH then do {
       let bk = bank (address req);
       let rk = rank (address req);
       mc1 \<leftarrow> IncrementRefreshCounter env bk rk mc;
       need \<leftarrow> NeedRefresh env bk rk mc1;
       mc2 \<leftarrow> (if need then SetRefresh env bk rk mc1 else Some mc1);
       w' \<leftarrow> insert_mc_callback env RefreshCallback_ptr (now w + m_tREFI mc2) (Some r) refreshPriority w;
       Some (w', c, mc2)
     } else None
   })"

subsection \<open>Refresh commands and the next wake-up\<close>

text \<open>The bank group that is refreshed next: the first one in round-robin order that needs it.\<close>

fun first_needing :: "'c McEnv \<Rightarrow> (ncounter_t \<times> ncounter_t) list \<Rightarrow> 'z MemoryController_scheme \<Rightarrow> (ncounter_t \<times> ncounter_t) option option" where
  "first_needing env [] mc = Some None"
| "first_needing env ((i, j) # xs) mc = do { need \<leftarrow> NeedRefresh env j i mc; if need then Some (Some (i, j)) else first_needing env xs mc }"

definition refresh_order :: "'c McEnv \<Rightarrow> 'z MemoryController_scheme \<Rightarrow> (ncounter_t \<times> ncounter_t) list" where
  "refresh_order env mc = (let p = mc_prm env in
     [((nextRefreshRank mc + rankIdx) mod RANKS p, (nextRefreshBank mc + bankIdx * BanksPerRefresh p) mod BANKS p).
        rankIdx \<leftarrow> below (RANKS p), bankIdx \<leftarrow> below (m_refreshBankNum mc)])"

definition close_bank :: "Params \<Rightarrow> ncounter_t \<Rightarrow> ncounter_t \<Rightarrow> 'z MemoryController_scheme \<Rightarrow> 'z MemoryController_scheme" where
  "close_bank p i refBank mc =
     (let cleared = (\<lambda>r b sa. r = i \<and> b = refBank \<and> sa < mc_subArrayNum mc)
      in mc\<lparr>activeSubArray := (\<lambda>r b sa. if cleared r b sa then False else activeSubArray mc r b sa),
            effectiveRow := (\<lambda>r b sa. if cleared r b sa then ROWS p else effectiveRow mc r b sa),
            effectiveMuxedRow := (\<lambda>r b sa. if cleared r b sa then ROWS p else effectiveMuxedRow mc r b sa),
            activateQueued := upd2 i refBank False (activateQueued mc)\<rparr>)"

text \<open>The banks of the group, counted from the head \<open>j\<close> and wrapping around.\<close>

definition refresh_banks :: "Params \<Rightarrow> ncounter_t \<Rightarrow> ncounter_t list" where
  "refresh_banks p j = map (\<lambda>t. (t + j) mod BANKS p) (below (BanksPerRefresh p))"

fun close_group :: "'c McEnv \<Rightarrow> ncounter_t \<Rightarrow> ncounter_t list \<Rightarrow> ('c, 'z) mc_state \<Rightarrow> ('c, 'z) mc_state option" where
  "close_group env i [] s = Some s"
| "close_group env i (refBank # bs) s = (case s of (w, c, mc) \<Rightarrow> do {
     queueId \<leftarrow> bank_queue env i refBank mc;
     if activateQueued mc i refBank then do {
       (pre, w') \<leftarrow> MakePrechargeAllRequest_at env 0 0 refBank i 0 w;
       close_group env i bs (w', c, close_bank (mc_prm env) i refBank (push_command queueId pre mc))
     } else close_group env i bs s
   })"

definition advance_refresh :: "Params \<Rightarrow> 'z MemoryController_scheme \<Rightarrow> 'z MemoryController_scheme" where
  "advance_refresh p mc =
     (let nb = nextRefreshBank mc + BanksPerRefresh p; nr = nextRefreshRank mc + 1
      in if nb \<ge> BANKS p then mc\<lparr>nextRefreshBank := 0, nextRefreshRank := (if nr = RANKS p then 0 else nr)\<rparr>
         else mc\<lparr>nextRefreshBank := nb\<rparr>)"

text \<open>The body of \<^verbatim>\<open>HandleRefresh\<close> for the chosen group, up to the call of
  \<^verbatim>\<open>ScheduleCommandWake\<close>.\<close>

definition queue_refresh :: "'c McEnv \<Rightarrow> ncounter_t \<Rightarrow> ncounter_t \<Rightarrow> ('c, 'z) mc_state \<Rightarrow> ('c, 'z) mc_state option" where
  "queue_refresh env i j s = (case s of (w, c, mc) \<Rightarrow> do {
     let p = mc_prm env;
     (cmdRefresh, w1) \<leftarrow> MakeRefreshRequest env 0 0 j i 0 w;
     (w2, c2, mc2) \<leftarrow> (if UsePrecharge p then close_group env i (refresh_banks p j) (w1, c, mc) else Some (w1, c, mc));
     queueId \<leftarrow> bank_queue env i j mc2;
     w3 \<leftarrow> update_request cmdRefresh (\<lambda>q. q\<lparr>issueCycle := now w2\<rparr>) w2;
     let mc3 = push_command queueId cmdRefresh mc2;
     let mc4 = mc3\<lparr>refreshQueued := set_group True i (refresh_banks p j) (refreshQueued mc3)\<rparr>;
     mc5 \<leftarrow> DecrementRefreshCounter env j i mc4;
     need \<leftarrow> NeedRefresh env j i mc5;
     mc6 \<leftarrow> (if need then Some mc5 else ResetRefresh env j i mc5);
     Some (w3, c2, (advance_refresh p mc6)\<lparr>handledRefresh := now w3\<rparr>)
   })"

definition all_banks :: "Params \<Rightarrow> (ncounter_t \<times> ncounter_t) list" where
  "all_banks p = [(rk, bk). rk \<leftarrow> below (RANKS p), bk \<leftarrow> below (BANKS p)]"

text \<open>\<^verbatim>\<open>NextIssuable\<close> calls \<^verbatim>\<open>HandleRefresh\<close>, which calls \<^verbatim>\<open>ScheduleCommandWake\<close>, which calls
  \<^verbatim>\<open>NextIssuable\<close>: one recursive function, the loop of \<^verbatim>\<open>NextIssuable\<close> over the banks that
  remain, with the body of the other two in place. \<open>None\<close> is also a recursion that does not end.\<close>

definition wake_cycle :: "ncycle_t \<Rightarrow> World \<Rightarrow> ncycle_t" where
  "wake_cycle nextWakeup w = (if nextWakeup \<le> now w then now w + 1 else nextWakeup)"

definition insert_wake :: "'c McEnv \<Rightarrow> ncycle_t \<Rightarrow> ('c, 'z) mc_state \<Rightarrow> ('c, 'z) mc_state option" where
  "insert_wake env nextWakeup s = do { w \<leftarrow> ensure_callback env CommandQueueCallback_ptr nextWakeup commandQueuePriority (fst s); Some (w, snd s) }"

partial_function (option) next_issuable_loop ::
  "'c McEnv \<Rightarrow> (ncounter_t \<times> ncounter_t) list \<Rightarrow> ncycle_t \<Rightarrow> ('c, 'z) mc_state \<Rightarrow> (ncycle_t \<times> ('c, 'z) mc_state) option" where
  "next_issuable_loop env todo nextWakeup s =
     (case todo of
        [] \<Rightarrow> Some (nextWakeup, s)
      | b # rest \<Rightarrow>
          Option.bind (bank_queue env (fst b) (snd b) (mc_of s)) (\<lambda>queueIdx.
          Option.bind (NeedRefresh env (snd b) (fst b) (mc_of s)) (\<lambda>need.
          Option.bind (if need then IsRefreshBankQueueEmpty env (snd b) (fst b) (fst s) (mc_of s) else Some False) (\<lambda>due.
          Option.bind
            (if due then
               if lastIssueCycle (mc_of s) \<noteq> now (fst s)
               then Option.bind (first_needing env (refresh_order env (mc_of s)) (mc_of s)) (\<lambda>t.
                    case t of None \<Rightarrow> Some (nextWakeup, s)
                    | Some ij \<Rightarrow>
                        Option.bind (queue_refresh env (fst ij) (snd ij) s) (\<lambda>s1.
                        Option.bind (next_issuable_loop env (all_banks (mc_prm env)) (- 1) s1) (\<lambda>ws2.
                        Option.bind (insert_wake env (wake_cycle (fst ws2) (fst (snd ws2))) (snd ws2)) (\<lambda>s3.
                        Some (nextWakeup, s3)))))
               else Some (now (fst s) + 1, s)
             else Some (nextWakeup, s)) (\<lambda>ws.
          case commandQueues (mc_of (snd ws)) queueIdx of
            [] \<Rightarrow> next_issuable_loop env rest (fst ws) (snd ws)
          | r # _ \<Rightarrow>
              Option.bind (heap (fst (snd ws)) r) (\<lambda>queueHead.
              Option.bind (ch_NextIssuable (mc_channel env) queueHead (fst (snd (snd ws)))) (\<lambda>n.
              next_issuable_loop env rest (min (fst ws) n) (snd ws))))))))"

definition NextIssuable :: "'c McEnv \<Rightarrow> ('c, 'z) mc_state \<Rightarrow> (ncycle_t \<times> ('c, 'z) mc_state) option" where
  "NextIssuable env s = do {
     (nextWakeup, s') \<leftarrow> next_issuable_loop env (all_banks (mc_prm env)) (- 1) s;
     Some (wake_cycle nextWakeup (fst s'), s')
   }"

definition ScheduleCommandWake :: "'c McEnv \<Rightarrow> ('c, 'z) mc_state \<Rightarrow> ('c, 'z) mc_state option" where
  "ScheduleCommandWake env s = do { (nextWakeup, s') \<leftarrow> NextIssuable env s; insert_wake env nextWakeup s' }"

definition HandleRefresh :: "'c McEnv \<Rightarrow> ('c, 'z) mc_state \<Rightarrow> (bool \<times> ('c, 'z) mc_state) option" where
  "HandleRefresh env s = do {
     t \<leftarrow> first_needing env (refresh_order env (mc_of s)) (mc_of s);
     case t of
       None \<Rightarrow> Some (False, s)
     | Some (i, j) \<Rightarrow> do { s1 \<leftarrow> queue_refresh env i j s; s2 \<leftarrow> ScheduleCommandWake env s1; Some (True, s2) }
   }"

end
