(* ===== verification/Memory_Scheduling.thy ===== *)
theory Memory_Scheduling
  imports Memory_Controller
begin

text \<open>
  The scheduling half of \<^verbatim>\<open>src/MemoryController.cpp\<close>: choosing a transaction, turning it into
  commands for the memory, issuing commands from the command queues, low power, the callbacks
  and the configuration.
\<close>

subsection \<open>Choosing a transaction\<close>

definition bank_in :: "'c McEnv \<Rightarrow> NVMAddress \<Rightarrow> bool" where
  "bank_in env a \<longleftrightarrow> rank a < RANKS (mc_prm env) \<and> bank a < BANKS (mc_prm env)"

definition sub_in :: "NVMAddress \<Rightarrow> 'z MemoryController_scheme \<Rightarrow> bool" where
  "sub_in a mc \<longleftrightarrow> subarray a < mc_subArrayNum mc"

text \<open>A division by zero is \<open>None\<close>.\<close>

definition mux_level :: "'c McEnv \<Rightarrow> NVMAddress \<Rightarrow> ncounter_t option" where
  "mux_level env a = (if RBSize (mc_prm env) = 0 then None else Some (col a div RBSize (mc_prm env)))"

text \<open>The controller's view: the row of the address is at the sense amplifiers of its subarray.\<close>

definition row_open :: "NVMAddress \<Rightarrow> ncounter_t \<Rightarrow> 'z MemoryController_scheme \<Rightarrow> bool" where
  "row_open a mux mc \<longleftrightarrow> activeSubArray mc (rank a) (bank a) (subarray a)
     \<and> effectiveRow mc (rank a) (bank a) (subarray a) = row a \<and> effectiveMuxedRow mc (rank a) (bank a) (subarray a) = mux"

definition refresh_blocked :: "NVMAddress \<Rightarrow> 'z MemoryController_scheme \<Rightarrow> bool" where
  "refresh_blocked a mc \<longleftrightarrow> bankNeedRefresh mc (rank a) (bank a) \<or> refreshQueued mc (rank a) (bank a)"

fun reads_all :: "World \<Rightarrow> nat list \<Rightarrow> NVMainRequest list option" where
  "reads_all w [] = Some []"
| "reads_all w (r # rs) = do { req \<leftarrow> heap w r; reqs \<leftarrow> reads_all w rs; Some (req # reqs) }"

definition same_row :: "NVMAddress \<Rightarrow> NVMAddress \<Rightarrow> bool" where
  "same_row a b \<longleftrightarrow> rank a = rank b \<and> bank a = bank b \<and> row a = row b \<and> subarray a = subarray b"

definition IsLastRequest :: "'c McEnv \<Rightarrow> nat list \<Rightarrow> nat \<Rightarrow> World \<Rightarrow> bool option" where
  "IsLastRequest env queue r w =
     (if ClosePage (mc_prm env) = 0 then Some False
      else if ClosePage (mc_prm env) = 1 then do {
        request \<leftarrow> heap w r;
        reqs \<leftarrow> reads_all w queue;
        Some (\<not> (\<exists>q \<in> set reqs. same_row (address q) (address request)))
      }
      else Some True)"

text \<open>The loop the four searches share: the first request, in the order of the queue, whose
  command queue is empty and that passes the test.\<close>

fun find_ready :: "'c McEnv \<Rightarrow> (NVMainRequest \<Rightarrow> bool option) \<Rightarrow> World \<Rightarrow> 'z MemoryController_scheme \<Rightarrow> nat list \<Rightarrow> nat option option" where
  "find_ready env test w mc [] = Some None"
| "find_ready env test w mc (r # rs) = do {
     req \<leftarrow> heap w r;
     queueId \<leftarrow> GetCommandQueueId env (address req) mc;
     if commandQueues mc queueId \<noteq> [] then find_ready env test w mc rs
     else do { ok \<leftarrow> test req; if ok then Some (Some r) else find_ready env test w mc rs }
   }"

text \<open>The request leaves the queue and learns whether it is the last one for its row.\<close>

definition set_queue :: "nat \<Rightarrow> nat list \<Rightarrow> 'z MemoryController_scheme \<Rightarrow> 'z MemoryController_scheme" where
  "set_queue qn q mc = mc\<lparr>transactionQueues := (transactionQueues mc)[qn := q]\<rparr>"

definition take_transaction :: "'c McEnv \<Rightarrow> nat \<Rightarrow> nat \<Rightarrow> ('c, 'z) mc_state \<Rightarrow> ('c, 'z) mc_state option" where
  "take_transaction env qn r s = (case s of (w, c, mc) \<Rightarrow> do {
     let rest = remove1 r (transactionQueues mc ! qn);
     last \<leftarrow> IsLastRequest env rest r w;
     w' \<leftarrow> (if last then update_request r (\<lambda>q. q\<lparr>flags := set_flag (flags q) FLAG_LAST_REQUEST\<rparr>) w else Some w);
     Some (w', c, set_queue qn rest mc)
   })"

definition find_transaction ::
  "'c McEnv \<Rightarrow> (NVMainRequest \<Rightarrow> bool option) \<Rightarrow> nat \<Rightarrow> ('c, 'z) mc_state \<Rightarrow> (nat option \<times> ('c, 'z) mc_state) option" where
  "find_transaction env test qn s =
     (if qn < length (transactionQueues (mc_of s)) then do {
        found \<leftarrow> find_ready env test (fst s) (mc_of s) (transactionQueues (mc_of s) ! qn);
        case found of
          None \<Rightarrow> Some (None, s)
        | Some r \<Rightarrow> do { s' \<leftarrow> take_transaction env qn r s; Some (Some r, s') }
      } else None)"

text \<open>The conditions of the four searches, with the short-circuits of the code: an index is read
  only where the code reads it.\<close>

definition starved_test :: "'c McEnv \<Rightarrow> ncycle_t \<Rightarrow> 'z MemoryController_scheme \<Rightarrow> NVMainRequest \<Rightarrow> bool option" where
  "starved_test env cur mc req = (let a = address req in do {
     mux \<leftarrow> mux_level env a;
     if \<not> bank_in env a then None
     else if \<not> activateQueued mc (rank a) (bank a) then Some False
     else if \<not> sub_in a mc then None
     else Some (\<not> row_open a mux mc \<and> \<not> refresh_blocked a mc
            \<and> starvationCounter mc (rank a) (bank a) (subarray a) \<ge> starvationThreshold mc \<and> arrivalCycle req \<noteq> cur)
   })"

definition row_hit_test :: "'c McEnv \<Rightarrow> ncycle_t \<Rightarrow> 'z MemoryController_scheme \<Rightarrow> NVMainRequest \<Rightarrow> bool option" where
  "row_hit_test env cur mc req = (let a = address req in do {
     mux \<leftarrow> mux_level env a;
     if \<not> bank_in env a then None
     else if \<not> activateQueued mc (rank a) (bank a) then Some False
     else if \<not> sub_in a mc then None
     else Some (row_open a mux mc \<and> \<not> refresh_blocked a mc \<and> arrivalCycle req \<noteq> cur)
   })"

definition oldest_test :: "'c McEnv \<Rightarrow> ncycle_t \<Rightarrow> 'z MemoryController_scheme \<Rightarrow> NVMainRequest \<Rightarrow> bool option" where
  "oldest_test env cur mc req = (let a = address req in
     if \<not> bank_in env a then None
     else Some (activateQueued mc (rank a) (bank a) \<and> \<not> refresh_blocked a mc \<and> arrivalCycle req \<noteq> cur))"

definition closed_test :: "'c McEnv \<Rightarrow> ncycle_t \<Rightarrow> 'z MemoryController_scheme \<Rightarrow> NVMainRequest \<Rightarrow> bool option" where
  "closed_test env cur mc req = (let a = address req in
     if \<not> bank_in env a then None
     else Some (\<not> activateQueued mc (rank a) (bank a) \<and> \<not> refresh_blocked a mc \<and> arrivalCycle req \<noteq> cur))"

definition with_pred :: "(NVMainRequest \<Rightarrow> bool) \<Rightarrow> (NVMainRequest \<Rightarrow> bool option) \<Rightarrow> NVMainRequest \<Rightarrow> bool option" where
  "with_pred pred test req = map_option (\<lambda>ok. ok \<and> pred req) (test req)"

definition FindStarvedRequest ::
  "'c McEnv \<Rightarrow> (NVMainRequest \<Rightarrow> bool) \<Rightarrow> nat \<Rightarrow> ('c, 'z) mc_state \<Rightarrow> (nat option \<times> ('c, 'z) mc_state) option" where
  "FindStarvedRequest env pred qn s = find_transaction env (with_pred pred (starved_test env (now (fst s)) (mc_of s))) qn s"

definition FindRowBufferHit ::
  "'c McEnv \<Rightarrow> (NVMainRequest \<Rightarrow> bool) \<Rightarrow> nat \<Rightarrow> ('c, 'z) mc_state \<Rightarrow> (nat option \<times> ('c, 'z) mc_state) option" where
  "FindRowBufferHit env pred qn s = find_transaction env (with_pred pred (row_hit_test env (now (fst s)) (mc_of s))) qn s"

definition FindOldestReadyRequest ::
  "'c McEnv \<Rightarrow> (NVMainRequest \<Rightarrow> bool) \<Rightarrow> nat \<Rightarrow> ('c, 'z) mc_state \<Rightarrow> (nat option \<times> ('c, 'z) mc_state) option" where
  "FindOldestReadyRequest env pred qn s = find_transaction env (with_pred pred (oldest_test env (now (fst s)) (mc_of s))) qn s"

definition FindClosedBankRequest ::
  "'c McEnv \<Rightarrow> (NVMainRequest \<Rightarrow> bool) \<Rightarrow> nat \<Rightarrow> ('c, 'z) mc_state \<Rightarrow> (nat option \<times> ('c, 'z) mc_state) option" where
  "FindClosedBankRequest env pred qn s = find_transaction env (with_pred pred (closed_test env (now (fst s)) (mc_of s))) qn s"

text \<open>The default predicate.\<close>

definition DummyPredicate :: "NVMainRequest \<Rightarrow> bool" where
  "DummyPredicate request = True"

text \<open>A request that the memory can serve without an activation. A copy of the request is made for
  the question and deleted again.\<close>

fun cached_loop ::
  "'c McEnv \<Rightarrow> (NVMainRequest \<Rightarrow> bool) \<Rightarrow> nat list \<Rightarrow> ('c, 'z) mc_state \<Rightarrow> (nat option \<times> ('c, 'z) mc_state) option" where
  "cached_loop env pred [] s = Some (None, s)"
| "cached_loop env pred (r # rs) s = (case s of (w, c, mc) \<Rightarrow> do {
     req \<leftarrow> heap w r;
     queueId \<leftarrow> GetCommandQueueId env (address req) mc;
     (cr, w1) \<leftarrow> MakeCachedRequest env r w;
     creq \<leftarrow> heap w1 cr;
     (ok, c1) \<leftarrow> (if commandQueues mc queueId = [] then do {
                    (ok, _, c1) \<leftarrow> ch_IsIssuable (mc_channel env) creq (w1, c);
                    Some (ok, c1)
                  } else Some (False, c));
     w2 \<leftarrow> delete_request cr w1;
     if ok \<and> arrivalCycle req \<noteq> now w \<and> pred req then Some (Some r, (w2, c1, mc))
     else cached_loop env pred rs (w2, c1, mc)
   })"

definition FindCachedAddress ::
  "'c McEnv \<Rightarrow> (NVMainRequest \<Rightarrow> bool) \<Rightarrow> nat \<Rightarrow> ('c, 'z) mc_state \<Rightarrow> (nat option \<times> ('c, 'z) mc_state) option" where
  "FindCachedAddress env pred qn s =
     (if qn < length (transactionQueues (mc_of s)) then do {
        (found, (w, c, mc)) \<leftarrow> cached_loop env pred (transactionQueues (mc_of s) ! qn) s;
        Some (found, (w, c, case found of None \<Rightarrow> mc | Some r \<Rightarrow> set_queue qn (remove1 r (transactionQueues mc ! qn)) mc))
      } else None)"

text \<open>A read that waits for a write that can be paused. The result is whether the search was
  successful, and the request, if one may go: a write that is between two iterations or a pause
  mode that does not care. Otherwise the scheduler is stalled.\<close>

fun stalled_loop ::
  "'c McEnv \<Rightarrow> (NVMainRequest \<Rightarrow> bool) \<Rightarrow> nat list \<Rightarrow> ('c, 'z) mc_state \<Rightarrow> (bool \<times> nat option \<times> ('c, 'z) mc_state) option" where
  "stalled_loop env pred [] s = Some (False, None, s)"
| "stalled_loop env pred (r # rs) s = (case s of (w, c, mc) \<Rightarrow> do {
     req \<leftarrow> heap w r;
     if req_type req \<noteq> READ then stalled_loop env pred rs s
     else do {
       let a = address req;
       queueId \<leftarrow> GetCommandQueueId env a mc;
       if commandQueues mc queueId \<noteq> [] then stalled_loop env pred rs s
       else (case ch_FindSubArray (mc_channel env) req c of
         None \<Rightarrow> Some (False, None, s)
       | Some writingArray \<Rightarrow> do {
           (ta, w1) \<leftarrow> MakeActivateRequest env r w;
           w2 \<leftarrow> update_request ta (\<lambda>q. q\<lparr>flags := set_flag (flags q) FLAG_PRIORITY\<rparr>) w1;
           testActivate \<leftarrow> heap w2 ta;
           if \<not> bank_in env a then None
           else do {
             (ok, c1) \<leftarrow> (if \<not> refresh_blocked a mc \<and> isWriting writingArray then do {
                 (ok1, _, c1) \<leftarrow> ch_IsIssuable (mc_channel env) req (w2, c);
                 if ok1 then Some (True, c1)
                 else do { (ok2, _, c2) \<leftarrow> ch_IsIssuable (mc_channel env) testActivate (w2, c1); Some (ok2, c2) }
               } else Some (False, c));
             w3 \<leftarrow> delete_request ta w2;
             if ok \<and> arrivalCycle req \<noteq> now w \<and> pred req
             then if \<not> BetweenWriteIterations (w, writingArray) \<and> pauseMode (mc_prm env) = PauseMode_Normal
                  then Some (True, None, (w3, c1, mc))
                  else Some (True, Some r, (w3, c1, mc))
             else stalled_loop env pred rs (w3, c1, mc)
           }
         })
     }
   })"

definition FindWriteStalledRead ::
  "'c McEnv \<Rightarrow> (NVMainRequest \<Rightarrow> bool) \<Rightarrow> nat \<Rightarrow> ('c, 'z) mc_state \<Rightarrow> (bool \<times> nat option \<times> ('c, 'z) mc_state) option" where
  "FindWriteStalledRead env pred qn s =
     (if \<not> WritePausing (mc_prm env) then Some (False, None, s)
      else if qn < length (transactionQueues (mc_of s)) then do {
        (rv, found, s1) \<leftarrow> stalled_loop env pred (transactionQueues (mc_of s) ! qn) s;
        case found of
          None \<Rightarrow> Some (rv, None, s1)
        | Some r \<Rightarrow> do { s2 \<leftarrow> take_transaction env qn r s1; Some (rv, Some r, s2) }
      } else None)"

subsection \<open>From a transaction to commands\<close>

definition open_view :: "NVMAddress \<Rightarrow> ncounter_t \<Rightarrow> 'z MemoryController_scheme \<Rightarrow> 'z MemoryController_scheme" where
  "open_view a mux mc = mc\<lparr>activateQueued := upd2 (rank a) (bank a) True (activateQueued mc),
     activeSubArray := upd3 (rank a) (bank a) (subarray a) True (activeSubArray mc),
     effectiveRow := upd3 (rank a) (bank a) (subarray a) (row a) (effectiveRow mc),
     effectiveMuxedRow := upd3 (rank a) (bank a) (subarray a) mux (effectiveMuxedRow mc)\<rparr>"

definition close_view :: "Params \<Rightarrow> NVMAddress \<Rightarrow> 'z MemoryController_scheme \<Rightarrow> 'z MemoryController_scheme" where
  "close_view p a mc = mc\<lparr>activeSubArray := upd3 (rank a) (bank a) (subarray a) False (activeSubArray mc),
     effectiveRow := upd3 (rank a) (bank a) (subarray a) (ROWS p) (effectiveRow mc),
     effectiveMuxedRow := upd3 (rank a) (bank a) (subarray a) (ROWS p) (effectiveMuxedRow mc)\<rparr>"

definition set_starvation :: "NVMAddress \<Rightarrow> ncounter_t \<Rightarrow> 'z MemoryController_scheme \<Rightarrow> 'z MemoryController_scheme" where
  "set_starvation a n mc = mc\<lparr>starvationCounter := upd3 (rank a) (bank a) (subarray a) n (starvationCounter mc)\<rparr>"

text \<open>The activate has priority when its subarray is writing.\<close>

definition push_activate :: "'c McEnv \<Rightarrow> bool \<Rightarrow> ncounter_t \<Rightarrow> nat \<Rightarrow> ('c, 'z) mc_state \<Rightarrow> ('c, 'z) mc_state option" where
  "push_activate env writing queueId r s = (case s of (w, c, mc) \<Rightarrow> do {
     (act, w1) \<leftarrow> MakeActivateRequest env r w;
     w2 \<leftarrow> update_request act (\<lambda>q. q\<lparr>flags := set_flag (flags q) (if writing then FLAG_PRIORITY else 0)\<rparr>) w1;
     Some (w2, c, push_command queueId act mc)
   })"

definition set_issue_cycle :: "nat \<Rightarrow> World \<Rightarrow> World option" where
  "set_issue_cycle r w = update_request r (\<lambda>q. q\<lparr>issueCycle := now w\<rparr>) w"

definition is_last :: "'c McEnv \<Rightarrow> nat \<Rightarrow> World \<Rightarrow> bool option" where
  "is_last env r w = do { req \<leftarrow> heap w r; Some (has_flag (flags req) FLAG_LAST_REQUEST \<and> UsePrecharge (mc_prm env)) }"

text \<open>The bank is closed: activate, then the access; the last access to the row closes it.\<close>

definition issue_closed :: "'c McEnv \<Rightarrow> bool \<Rightarrow> NVMAddress \<Rightarrow> ncounter_t \<Rightarrow> ncounter_t \<Rightarrow> nat \<Rightarrow> ('c, 'z) mc_state \<Rightarrow> ('c, 'z) mc_state option" where
  "issue_closed env writing a mux queueId r s = (case s of (w, c, mc) \<Rightarrow> do {
     let mc1 = set_starvation a 0 (open_view a mux mc);
     w1 \<leftarrow> set_issue_cycle r w;
     (w2, c2, mc2) \<leftarrow> push_activate env writing queueId r (w1, c, mc1);
     last \<leftarrow> is_last env r w2;
     if last then do {
       w3 \<leftarrow> MakeImplicitPrechargeRequest r w2;
       let mc3 = close_view (mc_prm env) a (push_command queueId r mc2);
       Some (w3, c2, mc3\<lparr>activateQueued := upd2 (rank a) (bank a) False (activateQueued mc3)\<rparr>)
     } else Some (w2, c2, push_command queueId r mc2)
   })"

text \<open>Another row of an active bank: precharge if the subarray is open, activate, access.\<close>

definition issue_miss :: "'c McEnv \<Rightarrow> bool \<Rightarrow> NVMAddress \<Rightarrow> ncounter_t \<Rightarrow> ncounter_t \<Rightarrow> nat \<Rightarrow> ('c, 'z) mc_state \<Rightarrow> ('c, 'z) mc_state option" where
  "issue_miss env writing a mux queueId r s = (case s of (w, c, mc) \<Rightarrow> do {
     let mc1 = (set_starvation a 0 mc)\<lparr>activateQueued := upd2 (rank a) (bank a) True (activateQueued mc)\<rparr>;
     w1 \<leftarrow> set_issue_cycle r w;
     (w2, mc2) \<leftarrow> (if activeSubArray mc1 (rank a) (bank a) (subarray a) \<and> UsePrecharge (mc_prm env) then do {
                     (pre, w2) \<leftarrow> MakePrechargeRequest_at env (effectiveRow mc1 (rank a) (bank a) (subarray a)) 0 (bank a) (rank a) (subarray a) w1;
                     Some (w2, push_command queueId pre mc1)
                   } else Some (w1, mc1));
     (w3, c3, mc3) \<leftarrow> push_activate env writing queueId r (w2, c, mc2);
     Some (w3, c3, open_view a mux (push_command queueId r mc3))
   })"

text \<open>The row is open. With restricted close-page, an open row is a failed assertion.\<close>

definition issue_hit :: "'c McEnv \<Rightarrow> NVMAddress \<Rightarrow> ncounter_t \<Rightarrow> nat \<Rightarrow> ('c, 'z) mc_state \<Rightarrow> ('c, 'z) mc_state option" where
  "issue_hit env a queueId r s = (case s of (w, c, mc) \<Rightarrow> do {
     let mc1 = set_starvation a (starvationCounter mc (rank a) (bank a) (subarray a) + 1) mc;
     w1 \<leftarrow> set_issue_cycle r w;
     last \<leftarrow> is_last env r w1;
     if last then
       if ClosePage (mc_prm env) = 2 then None
       else do {
         w2 \<leftarrow> MakeImplicitPrechargeRequest r w1;
         let mc2 = close_view (mc_prm env) a (push_command queueId r mc1);
         let idle = (\<forall>i \<in> set (below (mc_subArrayNum mc2)). \<not> activeSubArray mc2 (rank a) (bank a) i);
         Some (w2, c, if idle then mc2\<lparr>activateQueued := upd2 (rank a) (bank a) False (activateQueued mc2)\<rparr> else mc2)
       }
     else Some (w1, c, push_command queueId r mc1)
   })"

definition IssueMemoryCommands :: "'c McEnv \<Rightarrow> nat \<Rightarrow> ('c, 'z) mc_state \<Rightarrow> (bool \<times> ('c, 'z) mc_state) option" where
  "IssueMemoryCommands env r s = (case s of (w, c, mc) \<Rightarrow> do {
     req \<leftarrow> heap w r;
     let a = address req;
     mux \<leftarrow> mux_level env a;
     queueId \<leftarrow> GetCommandQueueId env a mc;
     (cr, w1) \<leftarrow> MakeCachedRequest env r w;
     creq \<leftarrow> heap w1 cr;
     (cachedOk, _, c1) \<leftarrow> ch_IsIssuable (mc_channel env) creq (w1, c);
     w2 \<leftarrow> delete_request cr w1;
     let active = activateQueued mc (rank a) (bank a);
     let writing = (case ch_FindSubArray (mc_channel env) req c1 of None \<Rightarrow> False | Some sa \<Rightarrow> isWriting sa);
     let empty = (commandQueues mc queueId = []);
     if \<not> bank_in env a \<or> (\<not> sub_in a mc \<and> (active \<or> \<not> cachedOk \<and> empty)) then None
     else if cachedOk \<and> \<not> (active \<and> row_open a mux mc) then do {
       w3 \<leftarrow> set_issue_cycle r w2;
       Some (True, (w3, c1, push_command queueId r mc))
     }
     else if \<not> active \<and> empty then do {
       s' \<leftarrow> issue_closed env writing a mux queueId r (w2, c1, mc);
       s'' \<leftarrow> ScheduleCommandWake env s';
       Some (True, s'')
     }
     else if active \<and> \<not> row_open a mux mc \<and> empty then do {
       s' \<leftarrow> issue_miss env writing a mux queueId r (w2, c1, mc);
       s'' \<leftarrow> ScheduleCommandWake env s';
       Some (True, s'')
     }
     else if active \<and> row_open a mux mc then do {
       s' \<leftarrow> issue_hit env a queueId r (w2, c1, mc);
       s'' \<leftarrow> ScheduleCommandWake env s';
       Some (True, s'')
     }
     else Some (False, (w2, c1, mc))
   })"

subsection \<open>Issuing commands\<close>

text \<open>The head of a queue is issued; it stays in the queue until the next cleanup. The answer of
  \<^verbatim>\<open>IssueCommand\<close> is ignored.\<close>

definition issue_head :: "'c McEnv \<Rightarrow> ncounter_t \<Rightarrow> nat \<Rightarrow> ('c, 'z) mc_state \<Rightarrow> ('c, 'z) mc_state option" where
  "issue_head env queueId r s = (case s of (w, c, mc) \<Rightarrow> do {
     (_, w1, c1) \<leftarrow> ch_IssueCommand (mc_channel env) r (w, c);
     w2 \<leftarrow> update_request r (\<lambda>q. q\<lparr>flags := set_flag (flags q) FLAG_ISSUED\<rparr>) w1;
     queueHead \<leftarrow> heap w2 r;
     mc1 \<leftarrow> (if req_type queueHead = REFRESH then ResetRefreshQueued env (bank (address queueHead)) (rank (address queueHead)) mc
             else Some mc);
     let mc2 = mc1\<lparr>lastIssueCycle := now w2\<rparr>;
     w3 \<leftarrow> ensure_callback env CleanupCallback_ptr (now w2 + 1) cleanupPriority w2;
     avail \<leftarrow> (if length (commandQueues mc2 queueId) = 1 then TransactionAvailable env queueId w3 mc2 else Some False);
     w4 \<leftarrow> (if avail then insert_cycle env (now w3 + 1) w3 else Some w3);
     Some (w4, c1, MoveCurrentQueue (mc_prm env) mc2)
   })"

text \<open>The loop over the queues; the result names the command that was issued, if any. A command
  that waits longer than the deadlock timer ends the simulation (\<open>None\<close>).\<close>

fun issue_loop :: "'c McEnv \<Rightarrow> ncounter_t list \<Rightarrow> ('c, 'z) mc_state \<Rightarrow> (nat option \<times> ('c, 'z) mc_state) option" where
  "issue_loop env [] s = Some (None, s)"
| "issue_loop env (queueIdx # qs) s = (case s of (w, c, mc) \<Rightarrow>
     let queueId = (curQueue mc + queueIdx) mod commandQueueCount mc
     in case commandQueues mc queueId of
          [] \<Rightarrow> issue_loop env qs s
        | r # _ \<Rightarrow> do {
            queueHead \<leftarrow> heap w r;
            (ok, c1) \<leftarrow> (if lastIssueCycle mc \<noteq> now w
                         then do { (ok, _, c1) \<leftarrow> ch_IsIssuable (mc_channel env) queueHead (w, c); Some (ok, c1) }
                         else Some (False, c));
            if ok then do { s' \<leftarrow> issue_head env queueId r (w, c1, mc); Some (Some r, s') }
            else if now w - issueCycle queueHead > DeadlockTimer (mc_prm env) then None
            else issue_loop env qs (w, c1, mc)
          })"

definition CycleCommandQueues :: "'c McEnv \<Rightarrow> ('c, 'z) mc_state \<Rightarrow> (nat option \<times> ('c, 'z) mc_state) option" where
  "CycleCommandQueues env s =
     (if handledRefresh (mc_of s) = now (fst s) then Some (None, s)
      else issue_loop env (below (commandQueueCount (mc_of s))) s)"

subsection \<open>Callbacks and completion\<close>

definition child_cycle :: "'c McEnv \<Rightarrow> ncycle_t \<Rightarrow> ('c, 'z) mc_state \<Rightarrow> ('c, 'z) mc_state" where
  "child_cycle env steps s = (fst s, ch_Cycle (mc_channel env) steps (fst (snd s)), mc_of s)"

definition CommandQueueCallback :: "'c McEnv \<Rightarrow> ('c, 'z) mc_state \<Rightarrow> ('c, 'z) mc_state option" where
  "CommandQueueCallback env s = do {
     let realSteps = now (fst s) - lastCommandWake (mc_of s);
     (nextWakeup, s1) \<leftarrow> NextIssuable env (upd_mc (\<lambda>mc. mc\<lparr>lastCommandWake := now (fst s)\<rparr>) s);
     let s2 = upd_mc (\<lambda>mc. mc\<lparr>wakeupCount := wakeupCount mc + 1\<rparr>) s1;
     s3 \<leftarrow> (if nextWakeup \<noteq> - 1 then insert_wake env nextWakeup s2 else Some s2);
     (_, s4) \<leftarrow> CycleCommandQueues env s3;
     Some (child_cycle env realSteps s4)
   }"

definition RefreshCallback :: "'c McEnv \<Rightarrow> nat \<Rightarrow> ('c, 'z) mc_state \<Rightarrow> ('c, 'z) mc_state option" where
  "RefreshCallback env r s = do {
     let realSteps = now (fst s) - lastCommandWake (mc_of s);
     let s1 = upd_mc (\<lambda>mc. mc\<lparr>lastCommandWake := now (fst s), wakeupCount := wakeupCount mc + 1\<rparr>) s;
     s2 \<leftarrow> ProcessRefreshPulse env r s1;
     (_, s3) \<leftarrow> HandleRefresh env s2;
     Some (child_cycle env realSteps s3)
   }"

text \<open>Commands of the controller are deleted; other requests are completed by the parent.\<close>

definition MemoryController_RequestComplete ::
  "'c McEnv \<Rightarrow> (nat \<Rightarrow> World \<Rightarrow> (bool \<times> World) option) \<Rightarrow> nat \<Rightarrow> ('c, 'z) mc_state \<Rightarrow> (bool \<times> ('c, 'z) mc_state) option" where
  "MemoryController_RequestComplete env parent r s = do {
     req \<leftarrow> heap (fst s) r;
     if owner req = Some (mc_self env) then do { w \<leftarrow> delete_request r (fst s); Some (True, (w, snd s)) }
     else do { (rv, w) \<leftarrow> parent r (fst s); Some (rv, (w, snd s)) }
   }"

definition MemoryController_IsIssuable :: "NVMainRequest \<Rightarrow> bool" where
  "MemoryController_IsIssuable request = True"

definition MemoryController_CalculateStats :: "'c McEnv \<Rightarrow> ('c, 'z) mc_state \<Rightarrow> ('c, 'z) mc_state option" where
  "MemoryController_CalculateStats env s = (case s of (w, c, mc) \<Rightarrow> do {
     let c1 = ch_Cycle (mc_channel env) (now w - lastCommandWake mc) c;
     c2 \<leftarrow> ch_CalculateStats (mc_channel env) (now w) c1;
     Some (w, c2, mc\<lparr>simulation_cycles := now w\<rparr>)
   })"

subsection \<open>Low power\<close>

definition power_op :: "Params \<Rightarrow> OpType" where
  "power_op p = (if PowerDownMode p = ''SLOWEXIT'' then POWERDOWN_PDPS else POWERDOWN_PDPF)"

text \<open>Issue the request \<open>r\<close> if the controller wants to and the memory accepts it; delete it
  otherwise.\<close>

definition issue_or_delete :: "'c McEnv \<Rightarrow> bool \<Rightarrow> bool \<Rightarrow> ncounter_t \<Rightarrow> nat \<Rightarrow> ('c, 'z) mc_state \<Rightarrow> ('c, 'z) mc_state option" where
  "issue_or_delete env wanted down rankId r s = (case s of (w, c, mc) \<Rightarrow> do {
     req \<leftarrow> heap w r;
     (ok, c1) \<leftarrow> (if wanted then do { (ok, _, c1) \<leftarrow> ch_IsIssuable (mc_channel env) req (w, c); Some (ok, c1) } else Some (False, c));
     if ok then do {
       (_, w2, c2) \<leftarrow> ch_IssueCommand (mc_channel env) r (w, c1);
       Some (w2, c2, mc\<lparr>rankPowerDown := (rankPowerDown mc)(rankId := down)\<rparr>)
     } else do { w2 \<leftarrow> delete_request r w; Some (w2, c1, mc) }
   })"

definition MemoryController_PowerDown :: "'c McEnv \<Rightarrow> ncounter_t \<Rightarrow> ('c, 'z) mc_state \<Rightarrow> ('c, 'z) mc_state option" where
  "MemoryController_PowerDown env rankId s = (case s of (w, c, mc) \<Rightarrow> do {
     (r, w1) \<leftarrow> MakePowerdownRequest env (power_op (mc_prm env)) rankId w;
     req \<leftarrow> heap w1 r;
     idle \<leftarrow> ch_RankIdle (mc_channel env) req c;
     (r', w2) \<leftarrow> (if idle then Some (r, w1)
                  else do { w2 \<leftarrow> delete_request r w1; MakePowerdownRequest env POWERDOWN_PDA rankId w2 });
     empty \<leftarrow> RankQueueEmpty env rankId mc;
     issue_or_delete env empty True rankId r' (w2, c, mc)
   })"

definition MemoryController_PowerUp :: "'c McEnv \<Rightarrow> ncounter_t \<Rightarrow> ('c, 'z) mc_state \<Rightarrow> ('c, 'z) mc_state option" where
  "MemoryController_PowerUp env rankId s = (case s of (w, c, mc) \<Rightarrow> do {
     (r, w1) \<leftarrow> MakePowerupRequest env rankId w;
     empty \<leftarrow> RankQueueEmpty env rankId mc;
     issue_or_delete env (\<not> empty) False rankId r (w1, c, mc)
   })"

fun any_need :: "'c McEnv \<Rightarrow> ncounter_t \<Rightarrow> ncounter_t list \<Rightarrow> 'z MemoryController_scheme \<Rightarrow> bool option" where
  "any_need env rankId [] mc = Some False"
| "any_need env rankId (b # bs) mc = do {
     need \<leftarrow> NeedRefresh env (b * BanksPerRefresh (mc_prm env)) rankId mc;
     if need then Some True else any_need env rankId bs mc
   }"

fun low_power_loop :: "'c McEnv \<Rightarrow> ncounter_t list \<Rightarrow> ('c, 'z) mc_state \<Rightarrow> ('c, 'z) mc_state option" where
  "low_power_loop env [] s = Some s"
| "low_power_loop env (rankId # rks) s = do {
     need \<leftarrow> (if UseRefresh (mc_prm env) then any_need env rankId (below (m_refreshBankNum (mc_of s))) (mc_of s) else Some False);
     s' \<leftarrow> (if need then do {
               (r, w1) \<leftarrow> MakePowerupRequest env rankId (fst s);
               issue_or_delete env (rankPowerDown (mc_of s) rankId) False rankId r (w1, snd s)
             }
             else if rankPowerDown (mc_of s) rankId then MemoryController_PowerUp env rankId s
             else MemoryController_PowerDown env rankId s);
     low_power_loop env rks s'
   }"

definition HandleLowPower :: "'c McEnv \<Rightarrow> ('c, 'z) mc_state \<Rightarrow> ('c, 'z) mc_state option" where
  "HandleLowPower env s = low_power_loop env (below (RANKS (mc_prm env))) s"

subsection \<open>Configuration\<close>

text \<open>The layout of addresses in the channel; \<open>mat\<close> says whether the configuration has the key
  \<^verbatim>\<open>MATHeight\<close>, \<open>channels\<close> comes from the parent and \<open>m\<close> is the storage of the new object.\<close>

definition channel_method :: "Params \<Rightarrow> bool \<Rightarrow> uint64 \<Rightarrow> TranslationMethod \<Rightarrow> TranslationMethod option" where
  "channel_method p mat channels m =
     (let rows = (if mat then MATHeight p else ROWS p);
          subs = (if mat then ROWS p div MATHeight p else 1);
          lg = (\<lambda>n. word_of_int (mlog2 (sint (ucast n :: uint32))) :: uint32)
      in SetAddressMappingScheme (AddressMappingScheme p)
           (SetCount rows (COLS p) (BANKS p) (RANKS p) channels subs
             (SetBitWidths (lg rows) (lg (COLS p)) (lg (BANKS p)) (lg (RANKS p)) (lg channels) (lg subs) (TranslationMethod_new m))))"

definition command_queues :: "Params \<Rightarrow> string option \<Rightarrow> ncounter_t \<Rightarrow> QueueModel \<times> ncounter_t" where
  "command_queues p key subs =
     (if key = Some ''PerRank'' then (PerRankQueues, RANKS p)
      else if key = Some ''PerSubArray'' then (PerSubArrayQueues, RANKS p * BANKS p * subs)
      else (PerBankQueues, RANKS p * BANKS p))"

text \<open>The first pulse of every bank group, staggered over the refresh interval.\<close>

fun schedule_pulses :: "'c McEnv \<Rightarrow> ncycle_t \<Rightarrow> (ncounter_t \<times> ncounter_t) list \<Rightarrow> ('c, 'z) mc_state \<Rightarrow> ('c, 'z) mc_state option" where
  "schedule_pulses env refreshSlice [] s = Some s"
| "schedule_pulses env refreshSlice ((i, j) # xs) s = (case s of (w, c, mc) \<Rightarrow> do {
     (pulse, w1) \<leftarrow> MakeRefreshRequest env 0 0 (j * BanksPerRefresh (mc_prm env)) i 0 w;
     w2 \<leftarrow> insert_mc_callback env RefreshCallback_ptr (now w1 + m_tREFI mc + (i * m_refreshBankNum mc + j) * refreshSlice) (Some pulse) refreshPriority w1;
     schedule_pulses env refreshSlice xs (w2, c, mc\<lparr>delayedRefreshCounter := upd2 i j 0 (delayedRefreshCounter mc)\<rparr>)
   })"

definition MemoryController_SetConfig :: "'c McEnv \<Rightarrow> bool \<Rightarrow> string option \<Rightarrow> ('c, 'z) mc_state \<Rightarrow> ('c, 'z) mc_state option" where
  "MemoryController_SetConfig env mat queueKey s = (case s of (w, c, mc) \<Rightarrow>
     let p = mc_prm env;
         subs = (if mat then ROWS p div MATHeight p else 1);
         qm = command_queues p queueKey subs;
         mc1 = mc\<lparr>mc_subArrayNum := subs, queueModel := fst qm, commandQueueCount := snd qm, commandQueues := (\<lambda>_. []),
                 activateQueued := (\<lambda>_ _. False), refreshQueued := (\<lambda>_ _. False), bankNeedRefresh := (\<lambda>_ _. False),
                 rankPowerDown := (\<lambda>_. UseLowPower p \<and> InitPD p), starvationCounter := (\<lambda>_ _ _. 0),
                 activeSubArray := (\<lambda>_ _ _. False), effectiveRow := (\<lambda>_ _ _. ROWS p), effectiveMuxedRow := (\<lambda>_ _ _. ROWS p)\<rparr>
     in if (mat \<and> MATHeight p = 0) then None
        else if \<not> UseRefresh p then Some (w, c, mc1)
        else if BanksPerRefresh p \<le> BANKS p \<and> BanksPerRefresh p \<noteq> 0 \<and> RefreshRows p \<noteq> 0 \<and> ROWS p div RefreshRows p \<noteq> 0 \<and> RANKS p \<noteq> 0
        then (let groups = BANKS p div BanksPerRefresh p;
                  tREFI = tREFW p div (ROWS p div RefreshRows p);
                  refreshSlice = tREFI div (RANKS p * groups)
              in schedule_pulses env refreshSlice [(i, j). i \<leftarrow> below (RANKS p), j \<leftarrow> below groups]
                   (w, c, mc1\<lparr>m_refreshBankNum := groups, m_tREFI := tREFI\<rparr>))
        else None)"

end
