(* ===== verification/Schedulers.thy ===== *)
theory Schedulers
  imports Memory_Scheduling
begin

text \<open>
  The memory controllers: first come first served (\<^verbatim>\<open>MemControl/FCFS/FCFS.cpp\<close>), first ready first
  come first served (\<^verbatim>\<open>MemControl/FRFCFS/FRFCFS.cpp\<close>) and the latter with a write queue that is
  drained in bursts (\<^verbatim>\<open>MemControl/FRFCFS-WQF/FRFCFS-WQF.cpp\<close>). Each extends the record of the
  base controller by its own members.
\<close>

subsection \<open>Latency statistics\<close>

text \<open>The three running averages all controllers keep; \<^verbatim>\<open>static_cast<double>\<close> of a cycle number is
  its value.\<close>

record LatencyStats =
  averageLatency :: rat
  measuredLatencies :: uint64
  averageQueueLatency :: rat
  measuredQueueLatencies :: uint64
  averageTotalLatency :: rat
  measuredTotalLatencies :: uint64

definition LatencyStats_new :: LatencyStats where
  "LatencyStats_new = \<lparr>averageLatency = 0, measuredLatencies = 0, averageQueueLatency = 0, measuredQueueLatencies = 0,
     averageTotalLatency = 0, measuredTotalLatencies = 0\<rparr>"

abbreviation dbl :: "uint64 \<Rightarrow> rat" where
  "dbl n \<equiv> of_nat (unat n)"

definition record_latency :: "NVMainRequest \<Rightarrow> LatencyStats \<Rightarrow> LatencyStats" where
  "record_latency req st = st\<lparr>
     averageLatency := (averageLatency st * dbl (measuredLatencies st) + dbl (completionCycle req) - dbl (issueCycle req)) / dbl (measuredLatencies st + 1),
     measuredLatencies := measuredLatencies st + 1,
     averageQueueLatency := (averageQueueLatency st * dbl (measuredQueueLatencies st) + dbl (issueCycle req) - dbl (arrivalCycle req)) / dbl (measuredQueueLatencies st + 1),
     measuredQueueLatencies := measuredQueueLatencies st + 1,
     averageTotalLatency := (averageTotalLatency st * dbl (measuredTotalLatencies st) + dbl (completionCycle req) - dbl (arrivalCycle req)) / dbl (measuredTotalLatencies st + 1),
     measuredTotalLatencies := measuredTotalLatencies st + 1\<rparr>"

definition is_access :: "OpType \<Rightarrow> bool" where
  "is_access ty \<longleftrightarrow> ty = READ \<or> ty = READ_PRECHARGE \<or> ty = WRITE \<or> ty = WRITE_PRECHARGE"

definition complete_request :: "nat \<Rightarrow> World \<Rightarrow> World option" where
  "complete_request r w = update_request r (\<lambda>q. q\<lparr>status := MEM_REQUEST_COMPLETE, completionCycle := now w\<rparr>) w"

text \<open>A write that was cancelled or paused comes back.\<close>

definition comes_back :: "NVMainRequest \<Rightarrow> bool" where
  "comes_back req \<longleftrightarrow> (req_type req = WRITE \<or> req_type req = WRITE_PRECHARGE)
     \<and> (has_flag (flags req) FLAG_CANCELLED \<or> has_flag (flags req) FLAG_PAUSED)"

subsection \<open>First come first served\<close>

record FCFS = MemoryController +
  fc_queueSize :: uint64
  fc_latency :: LatencyStats
  fc_mem_reads :: uint64
  fc_mem_writes :: uint64

definition FCFS_new :: FCFS where
  "FCFS_new = InitQueues 1 (MemoryController.extend MemoryController_new
     \<lparr>fc_queueSize = 32, fc_latency = LatencyStats_new, fc_mem_reads = 0, fc_mem_writes = 0\<rparr>)"

definition FCFS_SetConfig ::
  "'c McEnv \<Rightarrow> uint32 option \<Rightarrow> bool \<Rightarrow> string option \<Rightarrow> World \<times> 'c \<times> FCFS \<Rightarrow> (World \<times> 'c \<times> FCFS) option" where
  "FCFS_SetConfig env qsize mat queueKey s =
     MemoryController_SetConfig env mat queueKey
       (upd_mc (\<lambda>mc. case qsize of None \<Rightarrow> mc | Some n \<Rightarrow> mc\<lparr>fc_queueSize := ucast n\<rparr>) s)"

text \<open>The queue has been created by the constructor.\<close>

definition FCFS_IsIssuable :: "FCFS \<Rightarrow> bool" where
  "FCFS_IsIssuable mc \<longleftrightarrow> \<not> of_nat (length (transactionQueues mc ! 0)) \<ge> fc_queueSize mc"

definition FCFS_IssueCommand :: "'c McEnv \<Rightarrow> nat \<Rightarrow> World \<times> 'c \<times> FCFS \<Rightarrow> (bool \<times> World \<times> 'c \<times> FCFS) option" where
  "FCFS_IssueCommand env r s =
     (if \<not> FCFS_IsIssuable (mc_of s) then Some (False, s)
      else do {
        req \<leftarrow> heap (fst s) r;
        s' \<leftarrow> Enqueue env 0 r (upd_mc (\<lambda>mc. if req_type req = READ then mc\<lparr>fc_mem_reads := fc_mem_reads mc + 1\<rparr>
                                          else mc\<lparr>fc_mem_writes := fc_mem_writes mc + 1\<rparr>) s);
        Some (True, s')
      })"

definition FCFS_RequestComplete ::
  "'c McEnv \<Rightarrow> (nat \<Rightarrow> World \<Rightarrow> (bool \<times> World) option) \<Rightarrow> nat \<Rightarrow> World \<times> 'c \<times> FCFS \<Rightarrow> (bool \<times> World \<times> 'c \<times> FCFS) option" where
  "FCFS_RequestComplete env parent r s = do {
     req \<leftarrow> heap (fst s) r;
     s' \<leftarrow> (if is_access (req_type req) then do {
               w \<leftarrow> complete_request r (fst s);
               req' \<leftarrow> heap w r;
               Some (w, fst (snd s), (mc_of s)\<lparr>fc_latency := record_latency req' (fc_latency (mc_of s))\<rparr>)
             } else Some s);
     MemoryController_RequestComplete env parent r s'
   }"

text \<open>The transaction for this cycle: the oldest one of an active bank, else the oldest one of a
  closed bank.\<close>

definition FCFS_choose :: "'c McEnv \<Rightarrow> World \<times> 'c \<times> FCFS \<Rightarrow> (nat option \<times> World \<times> 'c \<times> FCFS) option" where
  "FCFS_choose env s = do {
     (found, s1) \<leftarrow> FindOldestReadyRequest env DummyPredicate 0 s;
     case found of Some r \<Rightarrow> Some (found, s1) | None \<Rightarrow> FindClosedBankRequest env DummyPredicate 0 s1
   }"

text \<open>The rest of a cycle, which all controllers share: the chosen transaction becomes commands, a
  command is issued, and the next cycle is scheduled.\<close>

definition finish_cycle :: "'c McEnv \<Rightarrow> nat option \<Rightarrow> ('c, 'z) mc_state \<Rightarrow> ('c, 'z) mc_state option" where
  "finish_cycle env found s = do {
     s1 \<leftarrow> (case found of None \<Rightarrow> Some s | Some r \<Rightarrow> map_option snd (IssueMemoryCommands env r s));
     (_, s2) \<leftarrow> CycleCommandQueues env s1;
     MemoryController_Cycle env s2
   }"

definition FCFS_Cycle :: "'c McEnv \<Rightarrow> World \<times> 'c \<times> FCFS \<Rightarrow> (World \<times> 'c \<times> FCFS) option" where
  "FCFS_Cycle env s = do { (found, s1) \<leftarrow> FCFS_choose env s; finish_cycle env found s1 }"

subsection \<open>First ready, first come first served\<close>

record FRFCFS = MemoryController +
  fr_queueSize :: uint64
  fr_latency :: LatencyStats
  fr_mem_reads :: uint64
  fr_mem_writes :: uint64
  fr_rb_hits :: uint64
  fr_rb_miss :: uint64
  fr_starvation_precharges :: uint64
  fr_write_pauses :: uint64

definition FRFCFS_new :: FRFCFS where
  "FRFCFS_new = InitQueues 1 (MemoryController.extend MemoryController_new
     \<lparr>fr_queueSize = 32, fr_latency = LatencyStats_new, fr_mem_reads = 0, fr_mem_writes = 0, fr_rb_hits = 0, fr_rb_miss = 0,
      fr_starvation_precharges = 0, fr_write_pauses = 0\<rparr>)"

definition FRFCFS_SetConfig ::
  "'c McEnv \<Rightarrow> uint32 option \<Rightarrow> uint32 option \<Rightarrow> bool \<Rightarrow> string option \<Rightarrow> World \<times> 'c \<times> FRFCFS \<Rightarrow> (World \<times> 'c \<times> FRFCFS) option" where
  "FRFCFS_SetConfig env threshold qsize mat queueKey s =
     MemoryController_SetConfig env mat queueKey
       (upd_mc (\<lambda>mc. mc\<lparr>starvationThreshold := (case threshold of None \<Rightarrow> starvationThreshold mc | Some n \<Rightarrow> ucast n),
                        fr_queueSize := (case qsize of None \<Rightarrow> fr_queueSize mc | Some n \<Rightarrow> ucast n)\<rparr>) s)"

definition FRFCFS_IsIssuable :: "FRFCFS \<Rightarrow> bool" where
  "FRFCFS_IsIssuable mc \<longleftrightarrow> \<not> of_nat (length (transactionQueues mc ! 0)) \<ge> fr_queueSize mc"

definition FRFCFS_IssueCommand :: "'c McEnv \<Rightarrow> nat \<Rightarrow> World \<times> 'c \<times> FRFCFS \<Rightarrow> (bool \<times> World \<times> 'c \<times> FRFCFS) option" where
  "FRFCFS_IssueCommand env r s =
     (if \<not> FRFCFS_IsIssuable (mc_of s) then Some (False, s)
      else do {
        w \<leftarrow> update_request r (\<lambda>q. q\<lparr>arrivalCycle := now (fst s)\<rparr>) (fst s);
        s1 \<leftarrow> Enqueue env 0 r (w, snd s);
        req \<leftarrow> heap (fst s1) r;
        Some (True, upd_mc (\<lambda>mc. if req_type req = READ then mc\<lparr>fr_mem_reads := fr_mem_reads mc + 1\<rparr>
                                 else mc\<lparr>fr_mem_writes := fr_mem_writes mc + 1\<rparr>) s1)
      })"

definition FRFCFS_RequestComplete ::
  "'c McEnv \<Rightarrow> (nat \<Rightarrow> World \<Rightarrow> (bool \<times> World) option) \<Rightarrow> nat \<Rightarrow> World \<times> 'c \<times> FRFCFS \<Rightarrow> (bool \<times> World \<times> 'c \<times> FRFCFS) option" where
  "FRFCFS_RequestComplete env parent r s = do {
     req \<leftarrow> heap (fst s) r;
     if comes_back req then do { mc \<leftarrow> Prequeue 0 r (mc_of s); Some (True, (fst s, fst (snd s), mc)) }
     else do {
       s' \<leftarrow> (if is_access (req_type req) then do {
                 w \<leftarrow> complete_request r (fst s);
                 req' \<leftarrow> heap w r;
                 Some (w, fst (snd s), (mc_of s)\<lparr>fr_latency := record_latency req' (fr_latency (mc_of s))\<rparr>)
               } else Some s);
       MemoryController_RequestComplete env parent r s'
     }
   }"

text \<open>The order of the searches: starved requests, row hits, requests served by other means, reads
  that may interrupt a write, then the oldest request of an active and of a closed bank.\<close>

definition FRFCFS_choose :: "'c McEnv \<Rightarrow> World \<times> 'c \<times> FRFCFS \<Rightarrow> (nat option \<times> World \<times> 'c \<times> FRFCFS) option" where
  "FRFCFS_choose env s = do {
     (starved, s1) \<leftarrow> FindStarvedRequest env DummyPredicate 0 s;
     case starved of Some r \<Rightarrow>
       Some (Some r, upd_mc (\<lambda>mc. mc\<lparr>fr_rb_miss := fr_rb_miss mc + 1, fr_starvation_precharges := fr_starvation_precharges mc + 1\<rparr>) s1)
     | None \<Rightarrow> do {
     (hit, s2) \<leftarrow> FindRowBufferHit env DummyPredicate 0 s1;
     case hit of Some r \<Rightarrow> Some (Some r, upd_mc (\<lambda>mc. mc\<lparr>fr_rb_hits := fr_rb_hits mc + 1\<rparr>) s2)
     | None \<Rightarrow> do {
     (cached, s3) \<leftarrow> FindCachedAddress env DummyPredicate 0 s2;
     case cached of Some r \<Rightarrow> Some (Some r, s3)
     | None \<Rightarrow> do {
     (rv, stalled, s4) \<leftarrow> FindWriteStalledRead env DummyPredicate 0 s3;
     if rv then Some (stalled, if stalled = None then s4 else upd_mc (\<lambda>mc. mc\<lparr>fr_write_pauses := fr_write_pauses mc + 1\<rparr>) s4)
     else do {
     (oldest, s5) \<leftarrow> FindOldestReadyRequest env DummyPredicate 0 s4;
     case oldest of Some r \<Rightarrow> Some (Some r, upd_mc (\<lambda>mc. mc\<lparr>fr_rb_miss := fr_rb_miss mc + 1\<rparr>) s5)
     | None \<Rightarrow> do {
     (closed, s6) \<leftarrow> FindClosedBankRequest env DummyPredicate 0 s5;
     case closed of Some r \<Rightarrow> Some (Some r, upd_mc (\<lambda>mc. mc\<lparr>fr_rb_miss := fr_rb_miss mc + 1\<rparr>) s6)
     | None \<Rightarrow> Some (None, s6)
   } } } } } }"

definition FRFCFS_Cycle :: "'c McEnv \<Rightarrow> World \<times> 'c \<times> FRFCFS \<Rightarrow> (World \<times> 'c \<times> FRFCFS) option" where
  "FRFCFS_Cycle env s = do { (found, s1) \<leftarrow> FRFCFS_choose env s; finish_cycle env found s1 }"

end
