(* ===== verification/Write_Drain.thy ===== *)
theory Write_Drain
  imports Schedulers
begin

text \<open>
  The controller with separate read and write queues
  (\<^verbatim>\<open>MemControl/FRFCFS-WQF/FRFCFS-WQF.cpp\<close>): writes wait until their number reaches the high
  watermark and are then drained down to the low watermark, while reads wait.
\<close>

subsection \<open>State\<close>

text \<open>A statistic with its total, minimum and maximum.\<close>

record Tracked =
  tr_total :: uint64
  tr_min :: uint64
  tr_max :: uint64

definition Tracked_new :: Tracked where
  "Tracked_new = \<lparr>tr_total = 0, tr_min = 10000000000, tr_max = 0\<rparr>"

text \<open>A new value is compared with one extreme and, only if it is no new extreme there, with the
  other one.\<close>

definition track_min_first :: "uint64 \<Rightarrow> Tracked \<Rightarrow> Tracked" where
  "track_min_first x t = (let t' = t\<lparr>tr_total := tr_total t + x\<rparr>
     in if tr_min t > x then t'\<lparr>tr_min := x\<rparr> else if tr_max t < x then t'\<lparr>tr_max := x\<rparr> else t')"

definition track_max_first :: "uint64 \<Rightarrow> Tracked \<Rightarrow> Tracked" where
  "track_max_first x t = (let t' = t\<lparr>tr_total := tr_total t + x\<rparr>
     in if tr_max t < x then t'\<lparr>tr_max := x\<rparr> else if tr_min t > x then t'\<lparr>tr_min := x\<rparr> else t')"

record DrainStats =
  total_drains :: uint64
  drain_writes :: Tracked
  drain_cycles :: Tracked
  drain_spacing :: Tracked
  read_spacing :: Tracked
  predrain_readqueue_size :: Tracked
  reads_during_drain :: Tracked
  average_writes_per_drain :: rat
  average_drain_cycles :: rat
  average_drain_spacing :: rat
  average_read_spacing :: rat
  average_predrain_readqueue_size :: rat
  average_reads_during_drain :: rat

definition DrainStats_new :: DrainStats where
  "DrainStats_new = \<lparr>total_drains = 0, drain_writes = Tracked_new, drain_cycles = Tracked_new, drain_spacing = Tracked_new,
     read_spacing = Tracked_new, predrain_readqueue_size = Tracked_new, reads_during_drain = Tracked_new,
     average_writes_per_drain = 0, average_drain_cycles = 0, average_drain_spacing = 0, average_read_spacing = 0,
     average_predrain_readqueue_size = 0, average_reads_during_drain = 0\<rparr>"

record FRFCFS_WQF = MemoryController +
  readQueueSize :: uint64
  writeQueueSize :: uint64
  wq_HighWaterMark :: uint64
  wq_LowWaterMark :: uint64
  m_draining :: bool
  force_drain :: bool
  m_request_per_drain :: uint64
  m_drain_start_cycle :: uint64
  m_drain_end_cycle :: uint64
  m_last_drain_end_cycle :: uint64
  m_drain_start_readqueue_size :: uint64
  m_drain_end_readqueue_size :: uint64
  wq_latency :: LatencyStats
  wq_mem_reads :: uint64
  wq_mem_writes :: uint64
  wq_starvation_precharges :: uint64
  rq_rb_hits :: uint64
  rq_rb_miss :: uint64
  wq_rb_hits :: uint64
  wq_rb_miss :: uint64
  drain_stats :: DrainStats

definition readQueueId :: nat where "readQueueId = 0"
definition writeQueueId :: nat where "writeQueueId = 1"

abbreviation readQueue :: "'z MemoryController_scheme \<Rightarrow> nat list" where
  "readQueue mc \<equiv> transactionQueues mc ! readQueueId"

abbreviation writeQueue :: "'z MemoryController_scheme \<Rightarrow> nat list" where
  "writeQueue mc \<equiv> transactionQueues mc ! writeQueueId"

abbreviation queue_size :: "nat list \<Rightarrow> uint64" where
  "queue_size q \<equiv> of_nat (length q)"

definition FRFCFS_WQF_new :: FRFCFS_WQF where
  "FRFCFS_WQF_new = InitQueues 2 (MemoryController.extend MemoryController_new
     \<lparr>readQueueSize = 32, writeQueueSize = 8, wq_HighWaterMark = 8, wq_LowWaterMark = 0, m_draining = False, force_drain = False,
      m_request_per_drain = 0, m_drain_start_cycle = 0, m_drain_end_cycle = 0, m_last_drain_end_cycle = 0,
      m_drain_start_readqueue_size = 0, m_drain_end_readqueue_size = 0, wq_latency = LatencyStats_new, wq_mem_reads = 0,
      wq_mem_writes = 0, wq_starvation_precharges = 0, rq_rb_hits = 0, rq_rb_miss = 0, wq_rb_hits = 0, wq_rb_miss = 0,
      drain_stats = DrainStats_new\<rparr>)"

text \<open>The values of the configuration keys, if present; the watermarks are corrected.\<close>

definition set_watermarks :: "FRFCFS_WQF \<Rightarrow> FRFCFS_WQF" where
  "set_watermarks mc =
     (if wq_HighWaterMark mc > writeQueueSize mc then mc\<lparr>wq_HighWaterMark := writeQueueSize mc\<rparr>
      else if wq_LowWaterMark mc > wq_HighWaterMark mc then mc\<lparr>wq_LowWaterMark := 0\<rparr>
      else mc)"

definition key_or :: "uint32 option \<Rightarrow> uint64 \<Rightarrow> uint64" where
  "key_or k old = (case k of None \<Rightarrow> old | Some n \<Rightarrow> ucast n)"

definition FRFCFS_WQF_SetConfig ::
  "'c McEnv \<Rightarrow> uint32 option \<Rightarrow> uint32 option \<Rightarrow> uint32 option \<Rightarrow> uint32 option \<Rightarrow> uint32 option \<Rightarrow> bool \<Rightarrow> string option
     \<Rightarrow> World \<times> 'c \<times> FRFCFS_WQF \<Rightarrow> (World \<times> 'c \<times> FRFCFS_WQF) option" where
  "FRFCFS_WQF_SetConfig env threshold rsize wsize high low mat queueKey s =
     MemoryController_SetConfig env mat queueKey
       (upd_mc (\<lambda>mc. set_watermarks (mc\<lparr>starvationThreshold := key_or threshold (starvationThreshold mc),
          readQueueSize := key_or rsize (readQueueSize mc), writeQueueSize := key_or wsize (writeQueueSize mc),
          wq_HighWaterMark := key_or high (wq_HighWaterMark mc), wq_LowWaterMark := key_or low (wq_LowWaterMark mc)\<rparr>)) s)"

subsection \<open>Accepting and completing requests\<close>

definition FRFCFS_WQF_IsIssuable :: "NVMainRequest \<Rightarrow> FRFCFS_WQF \<Rightarrow> bool" where
  "FRFCFS_WQF_IsIssuable req mc \<longleftrightarrow>
     \<not> (req_type req = READ \<and> queue_size (readQueue mc) \<ge> readQueueSize mc
        \<or> req_type req = WRITE \<and> (queue_size (writeQueue mc) \<ge> writeQueueSize mc \<or> m_draining mc \<or> force_drain mc))"

definition FRFCFS_WQF_IssueCommand :: "'c McEnv \<Rightarrow> nat \<Rightarrow> World \<times> 'c \<times> FRFCFS_WQF \<Rightarrow> (bool \<times> World \<times> 'c \<times> FRFCFS_WQF) option" where
  "FRFCFS_WQF_IssueCommand env r s = do {
     req \<leftarrow> heap (fst s) r;
     if \<not> FRFCFS_WQF_IsIssuable req (mc_of s) then Some (False, s)
     else do {
       w \<leftarrow> update_request r (\<lambda>q. q\<lparr>arrivalCycle := now (fst s)\<rparr>) (fst s);
       if req_type req = READ then do {
         s1 \<leftarrow> Enqueue env readQueueId r (w, snd s);
         Some (True, upd_mc (\<lambda>mc. mc\<lparr>wq_mem_reads := wq_mem_reads mc + 1\<rparr>) s1)
       }
       else if req_type req = WRITE then do {
         s1 \<leftarrow> Enqueue env writeQueueId r (w, snd s);
         Some (True, upd_mc (\<lambda>mc. mc\<lparr>wq_mem_writes := wq_mem_writes mc + 1\<rparr>) s1)
       }
       else Some (False, (w, snd s))
     }
   }"

definition FRFCFS_WQF_RequestComplete ::
  "'c McEnv \<Rightarrow> (nat \<Rightarrow> World \<Rightarrow> (bool \<times> World) option) \<Rightarrow> nat \<Rightarrow> World \<times> 'c \<times> FRFCFS_WQF \<Rightarrow> (bool \<times> World \<times> 'c \<times> FRFCFS_WQF) option" where
  "FRFCFS_WQF_RequestComplete env parent r s = do {
     req \<leftarrow> heap (fst s) r;
     if comes_back req then do { mc \<leftarrow> Prequeue writeQueueId r (mc_of s); Some (True, (fst s, fst (snd s), mc)) }
     else do {
       s' \<leftarrow> (if is_access (req_type req) then do {
                 w \<leftarrow> complete_request r (fst s);
                 req' \<leftarrow> heap w r;
                 Some (w, fst (snd s), (mc_of s)\<lparr>wq_latency := record_latency req' (wq_latency (mc_of s))\<rparr>)
               } else Some s);
       MemoryController_RequestComplete env parent r s'
     }
   }"

definition Drain :: "FRFCFS_WQF \<Rightarrow> bool \<times> FRFCFS_WQF" where
  "Drain mc = (True, mc\<lparr>force_drain := True\<rparr>)"

subsection \<open>The drain cycle\<close>

text \<open>What is recorded at the end of a drain, except of the first one.\<close>

definition record_drain :: "FRFCFS_WQF \<Rightarrow> FRFCFS_WQF" where
  "record_drain mc =
     (let endSize = queue_size (readQueue mc);
          entered = endSize - m_drain_start_readqueue_size mc;
          duration = m_drain_end_cycle mc - m_drain_start_cycle mc;
          interval = m_drain_end_cycle mc - m_last_drain_end_cycle mc;
          st = drain_stats mc
      in mc\<lparr>m_drain_end_readqueue_size := endSize,
            drain_stats := st\<lparr>
              predrain_readqueue_size := track_min_first (m_drain_start_readqueue_size mc) (predrain_readqueue_size st),
              reads_during_drain := track_min_first entered (reads_during_drain st),
              drain_cycles := track_max_first duration (drain_cycles st),
              total_drains := total_drains st + 1,
              drain_writes := track_min_first (m_request_per_drain mc) (drain_writes st),
              drain_spacing := track_min_first interval (drain_spacing st),
              read_spacing := track_min_first (interval - duration) (read_spacing st)\<rparr>\<rparr>)"

definition drain_switch :: "ncycle_t \<Rightarrow> FRFCFS_WQF \<Rightarrow> FRFCFS_WQF" where
  "drain_switch cur mc =
     (if \<not> m_draining mc \<and> queue_size (writeQueue mc) \<ge> wq_HighWaterMark mc \<and> \<not> force_drain mc
      then mc\<lparr>m_drain_start_cycle := cur, m_drain_start_readqueue_size := queue_size (readQueue mc), m_draining := True\<rparr>
      else if m_draining mc \<and> queue_size (writeQueue mc) \<le> wq_LowWaterMark mc \<and> \<not> force_drain mc
      then (let mc1 = mc\<lparr>m_drain_end_cycle := cur\<rparr>;
                mc2 = (if m_last_drain_end_cycle mc1 \<noteq> 0 then record_drain mc1 else mc1)
            in mc2\<lparr>m_request_per_drain := 0, m_last_drain_end_cycle := m_drain_end_cycle mc2, m_draining := False\<rparr>)
      else mc)"

abbreviation upd_wq :: "(FRFCFS_WQF \<Rightarrow> FRFCFS_WQF) \<Rightarrow> World \<times> 'c \<times> FRFCFS_WQF \<Rightarrow> World \<times> 'c \<times> FRFCFS_WQF" where
  "upd_wq f s \<equiv> upd_mc f s"

definition WQF_choose_write :: "'c McEnv \<Rightarrow> World \<times> 'c \<times> FRFCFS_WQF \<Rightarrow> (nat option \<times> World \<times> 'c \<times> FRFCFS_WQF) option" where
  "WQF_choose_write env s = do {
     (starved, s1) \<leftarrow> FindStarvedRequest env DummyPredicate writeQueueId s;
     case starved of Some r \<Rightarrow>
       Some (Some r, upd_wq (\<lambda>mc. mc\<lparr>wq_rb_miss := wq_rb_miss mc + 1, wq_starvation_precharges := wq_starvation_precharges mc + 1,
         m_request_per_drain := m_request_per_drain mc + 1\<rparr>) s1)
     | None \<Rightarrow> do {
     (hit, s2) \<leftarrow> FindRowBufferHit env DummyPredicate writeQueueId s1;
     case hit of Some r \<Rightarrow> Some (Some r, upd_wq (\<lambda>mc. mc\<lparr>wq_rb_hits := wq_rb_hits mc + 1, m_request_per_drain := m_request_per_drain mc + 1\<rparr>) s2)
     | None \<Rightarrow> do {
     (cached, s3) \<leftarrow> FindCachedAddress env DummyPredicate writeQueueId s2;
     case cached of Some r \<Rightarrow> Some (Some r, s3)
     | None \<Rightarrow> do {
     (oldest, s4) \<leftarrow> FindOldestReadyRequest env DummyPredicate writeQueueId s3;
     case oldest of Some r \<Rightarrow> Some (Some r, upd_wq (\<lambda>mc. mc\<lparr>wq_rb_miss := wq_rb_miss mc + 1, m_request_per_drain := m_request_per_drain mc + 1\<rparr>) s4)
     | None \<Rightarrow> do {
     (closed, s5) \<leftarrow> FindClosedBankRequest env DummyPredicate writeQueueId s4;
     case closed of Some r \<Rightarrow> Some (Some r, upd_wq (\<lambda>mc. mc\<lparr>wq_rb_miss := wq_rb_miss mc + 1, m_request_per_drain := m_request_per_drain mc + 1\<rparr>) s5)
     | None \<Rightarrow> Some (None, s5)
   } } } } }"

definition WQF_choose_read :: "'c McEnv \<Rightarrow> World \<times> 'c \<times> FRFCFS_WQF \<Rightarrow> (nat option \<times> World \<times> 'c \<times> FRFCFS_WQF) option" where
  "WQF_choose_read env s = do {
     (starved, s1) \<leftarrow> FindStarvedRequest env DummyPredicate readQueueId s;
     case starved of Some r \<Rightarrow>
       Some (Some r, upd_wq (\<lambda>mc. mc\<lparr>rq_rb_miss := rq_rb_miss mc + 1, wq_starvation_precharges := wq_starvation_precharges mc + 1\<rparr>) s1)
     | None \<Rightarrow> do {
     (hit, s2) \<leftarrow> FindRowBufferHit env DummyPredicate readQueueId s1;
     case hit of Some r \<Rightarrow> Some (Some r, upd_wq (\<lambda>mc. mc\<lparr>rq_rb_hits := rq_rb_hits mc + 1\<rparr>) s2)
     | None \<Rightarrow> do {
     (cached, s3) \<leftarrow> FindCachedAddress env DummyPredicate readQueueId s2;
     case cached of Some r \<Rightarrow> Some (Some r, s3)
     | None \<Rightarrow> do {
     (oldest, s4) \<leftarrow> FindOldestReadyRequest env DummyPredicate readQueueId s3;
     case oldest of Some r \<Rightarrow> Some (Some r, upd_wq (\<lambda>mc. mc\<lparr>rq_rb_miss := rq_rb_miss mc + 1\<rparr>) s4)
     | None \<Rightarrow> do {
     (closed, s5) \<leftarrow> FindClosedBankRequest env DummyPredicate readQueueId s4;
     case closed of Some r \<Rightarrow> Some (Some r, upd_wq (\<lambda>mc. mc\<lparr>rq_rb_miss := rq_rb_miss mc + 1\<rparr>) s5)
     | None \<Rightarrow> Some (None, s5)
   } } } } }"

text \<open>Only the write queue is looked at while draining, only the read queue otherwise. Writes of a
  drain may not be paused.\<close>

definition WQF_choose :: "'c McEnv \<Rightarrow> World \<times> 'c \<times> FRFCFS_WQF \<Rightarrow> (nat option \<times> World \<times> 'c \<times> FRFCFS_WQF) option" where
  "WQF_choose env s = do {
     let s0 = upd_wq (drain_switch (now (fst s))) s;
     (found, s1) \<leftarrow> (if m_draining (mc_of s0) \<or> (force_drain (mc_of s0) \<and> readQueue (mc_of s0) = [])
                     then WQF_choose_write env s0 else WQF_choose_read env s0);
     case found of
       None \<Rightarrow> Some (None, s1)
     | Some r \<Rightarrow> do {
         w \<leftarrow> (if m_draining (mc_of s1) \<or> force_drain (mc_of s1)
                then update_request r (\<lambda>q. q\<lparr>flags := set_flag (flags q) FLAG_FORCED\<rparr>) (fst s1) else Some (fst s1));
         Some (Some r, (w, snd s1))
       }
   }"

definition FRFCFS_WQF_Cycle :: "'c McEnv \<Rightarrow> World \<times> 'c \<times> FRFCFS_WQF \<Rightarrow> (World \<times> 'c \<times> FRFCFS_WQF) option" where
  "FRFCFS_WQF_Cycle env s = do { (found, s1) \<leftarrow> WQF_choose env s; finish_cycle env found s1 }"

definition drain_averages :: "DrainStats \<Rightarrow> DrainStats" where
  "drain_averages st =
     (let avg = (\<lambda>t. if total_drains st > 0 then dbl (tr_total t) / dbl (total_drains st) else 0)
      in st\<lparr>average_writes_per_drain := avg (drain_writes st), average_drain_cycles := avg (drain_cycles st),
            average_drain_spacing := avg (drain_spacing st), average_read_spacing := avg (read_spacing st),
            average_predrain_readqueue_size := avg (predrain_readqueue_size st), average_reads_during_drain := avg (reads_during_drain st)\<rparr>)"

definition FRFCFS_WQF_CalculateStats :: "'c McEnv \<Rightarrow> World \<times> 'c \<times> FRFCFS_WQF \<Rightarrow> (World \<times> 'c \<times> FRFCFS_WQF) option" where
  "FRFCFS_WQF_CalculateStats env s =
     MemoryController_CalculateStats env (upd_wq (\<lambda>mc. mc\<lparr>drain_stats := drain_averages (drain_stats mc)\<rparr>) s)"

end
