(* ===== verification/Controller_Queues.thy ===== *)
theory Controller_Queues
  imports Write_Drain
begin

text \<open>
  The command queues of a memory controller: which queue an address has, and that the choice is
  sound for the geometry of the channel.
\<close>

subsection \<open>Command queues\<close>

definition geometry_ok :: "'c McEnv \<Rightarrow> 'z MemoryController_scheme \<Rightarrow> bool" where
  "geometry_ok env mc \<longleftrightarrow> (let p = mc_prm env; subs = mc_subArrayNum mc in
     0 < unat subs \<and> unat (RANKS p) * unat (BANKS p) * unat subs < 2 ^ 64
     \<and> (case queueModel mc of
          PerRankQueues \<Rightarrow> commandQueueCount mc = RANKS p
        | PerBankQueues \<Rightarrow> commandQueueCount mc = RANKS p * BANKS p \<and> (ScheduleScheme p = 1 \<or> ScheduleScheme p = 2)
        | PerSubArrayQueues \<Rightarrow> commandQueueCount mc = RANKS p * BANKS p * subs))"

text \<open>The number of the queue of an address, without wrap-around.\<close>

definition queue_number :: "'c McEnv \<Rightarrow> NVMAddress \<Rightarrow> 'z MemoryController_scheme \<Rightarrow> nat" where
  "queue_number env a mc = (let p = mc_prm env in
     case queueModel mc of
       PerRankQueues \<Rightarrow> unat (rank a)
     | PerBankQueues \<Rightarrow> if ScheduleScheme p = 1 then unat (bank a) * unat (RANKS p) + unat (rank a)
                        else unat (rank a) * unat (BANKS p) + unat (bank a)
     | PerSubArrayQueues \<Rightarrow> (unat (rank a) * unat (BANKS p) + unat (bank a)) * unat (mc_subArrayNum mc) + unat (subarray a))"

lemma GetCommandQueueId_number:
  assumes "geometry_ok env mc" and "bank_in env a" and "sub_in a mc"
  shows "\<exists>q. GetCommandQueueId env a mc = Some q \<and> unat q = queue_number env a mc \<and> q < commandQueueCount mc"
proof -
  let ?p = "mc_prm env" and ?s = "mc_subArrayNum mc"
  let ?R = "unat (RANKS ?p)" and ?B = "unat (BANKS ?p)"
  have s: "0 < unat ?s" and all: "?R * ?B * unat ?s < 2 ^ 64"
    and rk: "unat (rank a) < ?R" and bk: "unat (bank a) < ?B" and sa: "unat (subarray a) < unat ?s"
    using assms by (auto simp: geometry_ok_def Let_def bank_in_def sub_in_def word_less_nat_alt)
  have "?R * ?B \<le> ?R * ?B * unat ?s"
    using s by simp
  then have rb: "?R * ?B < 2 ^ 64"
    using all by (rule le_less_trans)
  have cnt: "unat (RANKS ?p * BANKS ?p) = ?R * ?B"
    using rb by (intro unat_mult_no_overflow) simp
  have cnt3: "unat (RANKS ?p * BANKS ?p * ?s) = ?R * ?B * unat ?s"
    using all cnt by (subst unat_mult_no_overflow) simp_all
  note rbk = unat_mixed_radix [OF rk bk rb]
  have brk: "unat (bank a * RANKS ?p + rank a) = unat (bank a) * ?R + unat (rank a)" "unat (bank a) * ?R + unat (rank a) < ?B * ?R"
    using unat_mixed_radix [OF bk rk] rb by (simp_all add: mult.commute)
  have "unat (rank a * BANKS ?p + bank a) < ?R * ?B"
    using rbk by simp
  note sub = unat_mixed_radix [OF this sa all]
  have distr: "rank a * BANKS ?p * ?s + bank a * ?s + subarray a = (rank a * BANKS ?p + bank a) * ?s + subarray a"
    by (simp add: algebra_simps)
  show ?thesis
  proof (cases "queueModel mc")
    case PerRankQueues
    then show ?thesis
      using assms rk by (auto simp: GetCommandQueueId_def geometry_ok_def queue_number_def Let_def word_less_nat_alt)
  next
    case PerBankQueues
    then show ?thesis
      using assms rbk brk cnt by (auto simp: GetCommandQueueId_def geometry_ok_def queue_number_def Let_def word_less_nat_alt mult.commute)
  next
    case PerSubArrayQueues
    then show ?thesis
      using assms sub rbk cnt3 by (auto simp: GetCommandQueueId_def geometry_ok_def queue_number_def Let_def word_less_nat_alt distr)
  qed
qed

text \<open>What the queue of an address depends on.\<close>

definition queue_key :: "QueueModel \<Rightarrow> NVMAddress \<Rightarrow> ncounter_t list" where
  "queue_key m a = (case m of PerRankQueues \<Rightarrow> [rank a] | PerBankQueues \<Rightarrow> [rank a, bank a] | PerSubArrayQueues \<Rightarrow> [rank a, bank a, subarray a])"

lemma queue_number_key:
  assumes "bank_in env a" "sub_in a mc" "bank_in env b" "sub_in b mc"
  shows "queue_number env a mc = queue_number env b mc \<longleftrightarrow> queue_key (queueModel mc) a = queue_key (queueModel mc) b"
proof -
  let ?p = "mc_prm env"
  have u: "unat (rank a) < unat (RANKS ?p)" "unat (bank a) < unat (BANKS ?p)" "unat (subarray a) < unat (mc_subArrayNum mc)"
      "unat (rank b) < unat (RANKS ?p)" "unat (bank b) < unat (BANKS ?p)" "unat (subarray b) < unat (mc_subArrayNum mc)"
    using assms by (auto simp: bank_in_def sub_in_def word_less_nat_alt)
  show ?thesis
    by (cases "queueModel mc") (auto simp: queue_number_def queue_key_def Let_def word_unat_eq_iff mixed_radix_iff u)
qed

text \<open>C27: For a configured controller every address of the channel has a command queue, its
  number is within the queues that were allocated, and two addresses share a queue exactly when they
  agree in the rank, the rank and the bank, or rank, bank and subarray, as the queue model says.\<close>

theorem queue_identifies:
  assumes "geometry_ok env mc" and "bank_in env a" "sub_in a mc" and "bank_in env b" "sub_in b mc"
  shows "\<exists>q q'. GetCommandQueueId env a mc = Some q \<and> GetCommandQueueId env b mc = Some q'
    \<and> q < commandQueueCount mc \<and> (q = q' \<longleftrightarrow> queue_key (queueModel mc) a = queue_key (queueModel mc) b)"
  using GetCommandQueueId_number [OF assms(1-3)] GetCommandQueueId_number [OF assms(1,4,5)]
    queue_number_key [OF assms(2-5)] by (metis word_unat_eq_iff)

text \<open>With per-bank queues and a scheduling scheme other than 1 and 2 - 0, fixed scheduling,
  is one the code documents - no address has a queue: the assertion fails for every request.\<close>

lemma fixed_scheduling_fails:
  assumes "queueModel mc = PerBankQueues" and "ScheduleScheme (mc_prm env) \<notin> {1, 2}"
  shows "GetCommandQueueId env a mc = None"
  using assms by (simp add: GetCommandQueueId_def Let_def)

text \<open>Two ranks of eight banks, with per-bank queues.\<close>

definition small_env :: "unit McEnv" where
  "small_env = \<lparr>mc_prm = Params_new, mc_self = 7, mc_hooks = [(5, 7)], mc_trampoline = (\<lambda>_. 7), mc_id = 0, mc_decoder = default_translator,
     mc_outs = (\<lambda>_. 0), mc_channel = \<lparr>ch_IsIssuable = (\<lambda>_ (_, c). Some (False, None, c)), ch_IssueCommand = (\<lambda>_ s. Some (True, s)),
       ch_NextIssuable = (\<lambda>_ _. Some 0), ch_Cycle = (\<lambda>_ c. c), ch_CalculateStats = (\<lambda>_ c. Some c), ch_FindSubArray = (\<lambda>_ _. None), ch_RankIdle = (\<lambda>_ _. Some True)\<rparr>\<rparr>"

definition small_controller :: FRFCFS where
  "small_controller = FRFCFS_new\<lparr>commandQueueCount := 16\<rparr>"

lemma small_controller_ok:
  "geometry_ok small_env small_controller" "bank_in small_env (NVMAddress_at 0 0 3 1 0 0)" "bank_in small_env (NVMAddress_at 5 0 4 1 0 0)"
  "sub_in (NVMAddress_at 0 0 3 1 0 0) small_controller" "sub_in (NVMAddress_at 5 0 4 1 0 0) small_controller"
  "queueModel small_controller = PerBankQueues" "mc_prm small_env = Params_new"
  by (simp_all add: geometry_ok_def small_env_def small_controller_def FRFCFS_new_def InitQueues_def MemoryController_new_def
      MemoryController.defs FRFCFS.defs Params_new_def bank_in_def sub_in_def NVMAddress_at_def SetTranslatedAddress_def Let_def)

theorem queue_identifies_witness:
  "\<exists>q q'. GetCommandQueueId small_env (NVMAddress_at 0 0 3 1 0 0) small_controller = Some q
    \<and> GetCommandQueueId small_env (NVMAddress_at 5 0 4 1 0 0) small_controller = Some q' \<and> q \<noteq> q'"
  using queue_identifies [OF small_controller_ok(1,2,4,3,5)]
  by (auto simp: queue_key_def small_controller_ok(6) NVMAddress_at_def SetTranslatedAddress_def)

lemma fixed_scheduling_fails_here:
  "GetCommandQueueId (small_env\<lparr>mc_prm := Params_new\<lparr>ScheduleScheme := 0\<rparr>\<rparr>) (NVMAddress_at 0 0 3 1 0 0) small_controller = None"
  by (rule fixed_scheduling_fails) (simp_all add: small_controller_ok(6))

end
