(* ===== verification/Controller_Wake.thy ===== *)
theory Controller_Wake
  imports Controller_Queues
begin

text \<open>
  The computation of the next wake-up, with the refresh commands it queues: what it keeps, and that
  it returns. \<^verbatim>\<open>NextIssuable\<close>, \<^verbatim>\<open>HandleRefresh\<close> and \<^verbatim>\<open>ScheduleCommandWake\<close> call each other; every
  round takes one pending refresh off its counter.
\<close>

subsection \<open>Induction over the wake-up computation\<close>

text \<open>A property that queueing a refresh and scheduling a wake-up keep.\<close>

locale wake_invariant =
  fixes env :: "'c McEnv" and P :: "('c, 'z) mc_state \<Rightarrow> bool"
  assumes refresh: "P s \<Longrightarrow> first_needing env (refresh_order env (mc_of s)) (mc_of s) = Some (Some (i, j)) \<Longrightarrow> queue_refresh env i j s = Some s' \<Longrightarrow> P s'"
    and wake: "P s \<Longrightarrow> insert_wake env t s = Some s' \<Longrightarrow> P s'"
begin

lemma next_issuable_loop_keeps:
  assumes "P s" and "next_issuable_loop env todo nw s = Some x"
  shows "P (snd x)"
proof -
  have "env' = env \<longrightarrow> P s \<longrightarrow> P (snd x)" if "next_issuable_loop env' todo nw s = Some x" for env' todo nw s x
    using that
  proof (rule next_issuable_loop.raw_induct [rotated], intro impI, goal_cases)
    case (1 loop env' todo nw s x)
    then have IH: "loop env t n u = Some y \<Longrightarrow> P u \<Longrightarrow> P (snd y)" for t n u y
      by blast
    show ?case
    proof (cases todo)
      case Nil
      then show ?thesis
        using 1(2,5) by auto
    next
      case (Cons b rest)
      obtain due ws queueIdx where
        mid: "(if due then if lastIssueCycle (mc_of s) \<noteq> now (fst s)
               then Option.bind (first_needing env (refresh_order env (mc_of s)) (mc_of s)) (\<lambda>t.
                    case t of None \<Rightarrow> Some (nw, s)
                    | Some ij \<Rightarrow>
                        Option.bind (queue_refresh env (fst ij) (snd ij) s) (\<lambda>s1.
                        Option.bind (loop env (all_banks (mc_prm env)) (- 1) s1) (\<lambda>ws2.
                        Option.bind (insert_wake env (wake_cycle (fst ws2) (fst (snd ws2))) (snd ws2)) (\<lambda>s3.
                        Some (nw, s3)))))
               else Some (now (fst s) + 1, s)
             else Some (nw, s)) = Some ws"
        and rest: "\<exists>n. loop env rest n (snd ws) = Some x"
        using 1(2) unfolding Cons 1(4) list.case
        by (elim bind_SomeE) (rule that, assumption, auto split: list.splits elim!: bind_SomeE)
      have "P (snd ws)"
        using mid 1(5) by (auto simp: bind_eq_Some_conv split: if_splits option.splits) (metis refresh wake IH snd_conv)
      with rest IH show ?thesis by blast
    qed
  qed
  with assms show ?thesis by blast
qed


lemma NextIssuable_keeps: "P s \<Longrightarrow> NextIssuable env s = Some (t, s') \<Longrightarrow> P s'"
  by (auto simp: NextIssuable_def elim!: bind_SomeE dest: next_issuable_loop_keeps)

lemma ScheduleCommandWake_keeps: "P s \<Longrightarrow> ScheduleCommandWake env s = Some s' \<Longrightarrow> P s'"
  unfolding ScheduleCommandWake_def by (elim bind_SomeE) (auto dest: NextIssuable_keeps wake)

lemma HandleRefresh_keeps: "P s \<Longrightarrow> HandleRefresh env s = Some (b, s') \<Longrightarrow> P s'"
  unfolding HandleRefresh_def
  by (elim bind_SomeE) (auto split: option.splits elim!: bind_SomeE dest: refresh ScheduleCommandWake_keeps)

end

subsection \<open>Allocation and events\<close>

lemma world_ready_new_request:
  assumes "world_ready w" and "request_ok req"
  shows "world_ready (snd (new_request req w))"
proof -
  have "queue_good (Suc (next_ref w)) (evq w)"
    using assms(1) queue_good_mono [of "next_ref w" "evq w" "Suc (next_ref w)"] by (simp add: world_ready_def world_ok_def)
  with assms show ?thesis
    by (auto simp: new_request_def world_ready_def world_ok_def sims_ok_def less_Suc_eq split: if_splits)
qed

lemma request_ok_own [simp]: "request_ok (own_request env ty a cur)"
  by (simp add: own_request_def request_ok_def NVMainRequest_new_def)

lemma own_request_sel [simp]:
  "req_type (own_request env ty a cur) = ty" "address (own_request env ty a cur) = a" "owner (own_request env ty a cur) = Some (mc_self env)"
  "issueCycle (own_request env ty a cur) = cur" "flags (own_request env ty a cur) = 0"
  by (simp_all add: own_request_def NVMainRequest_new_def)

lemma new_request_sel [simp]:
  "fst (new_request req w) = next_ref w" "next_ref (snd (new_request req w)) = Suc (next_ref w)"
  "heap (snd (new_request req w)) = (heap w)(next_ref w \<mapsto> req)" "evq (snd (new_request req w)) = evq w"
  by (simp_all add: new_request_def)

lemma world_ready_evq:
  assumes "world_ready w" and "queue_good (Suc (next_ref w)) q"
  shows "world_ready (w\<lparr>evq := q, next_ref := Suc (next_ref w)\<rparr>)"
  using assms by (auto simp: world_ready_def world_ok_def sims_ok_def less_SucI)

definition hooked :: "'c McEnv \<Rightarrow> bool" where
  "hooked env \<longleftrightarrow> find_hook (mc_hooks env) (mc_self env) \<noteq> None"

text \<open>The events a controller schedules change nothing but the queue.\<close>

definition scheduled :: "World \<Rightarrow> World \<Rightarrow> bool" where
  "scheduled w w' \<longleftrightarrow> heap w' = heap w \<and> now w' = now w \<and> next_ref w \<le> next_ref w' \<and> (world_ready w \<longrightarrow> world_ready w')"

lemma scheduled_refl [simp]: "scheduled w w"
  by (simp add: scheduled_def)

lemma currentCycle_InsertEvent_at [simp]: "currentCycle (InsertEvent_at e t prio q) = currentCycle q"
  by (simp add: InsertEvent_at_def Let_def)

lemma scheduled_insert_at:
  assumes "ev_id e = next_ref w"
  shows "scheduled w (w\<lparr>evq := InsertEvent_at e t prio (evq w), next_ref := Suc (next_ref w)\<rparr>)"
proof -
  have "world_ready w \<Longrightarrow> queue_good (Suc (next_ref w)) (InsertEvent_at e t prio (evq w))"
    using assms queue_good_InsertEvent_at [of "next_ref w" "evq w" e t prio] by (simp add: world_ready_def world_ok_def)
  then show ?thesis
    using world_ready_evq by (simp add: scheduled_def)
qed

lemma insert_cycle_scheduled: "insert_cycle env t w = Some w' \<Longrightarrow> scheduled w w'"
  by (auto simp: insert_cycle_def InsertEvent_object_def InsertEvent_def Event_new_def intro!: scheduled_insert_at elim!: bind_SomeE)

lemma insert_mc_callback_scheduled: "insert_mc_callback env m t d prio w = Some w' \<Longrightarrow> scheduled w w'"
  by (auto simp: insert_mc_callback_def InsertCallback_def Event_new_def intro!: scheduled_insert_at elim!: bind_SomeE)

lemma ensure_callback_scheduled: "ensure_callback env m t prio w = Some w' \<Longrightarrow> scheduled w w'"
  by (auto simp: ensure_callback_def insert_mc_callback_scheduled split: if_splits)

lemma hooked_total:
  assumes "hooked env"
  shows "\<exists>w'. insert_cycle env t w = Some w'" "\<exists>w'. insert_mc_callback env m t d prio w = Some w'" "\<exists>w'. ensure_callback env m t prio w = Some w'"
    "\<exists>e. find_cycle env t w = Some e"
  using assms
  by (auto simp: hooked_def insert_cycle_def InsertEvent_object_def insert_mc_callback_def InsertCallback_def ensure_callback_def
      find_cycle_def FindEvent_object_def)

definition decoding :: "'c McEnv \<Rightarrow> bool" where
  "decoding env \<longleftrightarrow> translationMethod (mc_decoder env) \<noteq> None \<and> offset_bits (mc_decoder env) \<noteq> None"

lemma located_address_total:
  assumes "decoding env"
  shows "\<exists>phys. located_address env rw cl bk rk sa = Some (SetTranslatedAddress rw cl bk rk (mc_id env) sa (SetPhysicalAddress phys NVMAddress_new))"
proof -
  have "\<exists>t' phys. ReverseTranslate (mc_decoder env) f = Some (t', phys)" for f
    using assms by (auto simp: decoding_def ReverseTranslate_def Let_def simp del: reverse_loop.simps)
  then show ?thesis
    unfolding located_address_def by (metis (no_types, lifting) Option.bind.bind_lunit prod.case)
qed

lemma located_address_sel:
  assumes "located_address env rw cl bk rk sa = Some a"
  shows "translated a" "row a = rw" "col a = cl" "bank a = bk" "rank a = rk" "subarray a = sa"
  using assms by (auto simp: located_address_def SetTranslatedAddress_def elim!: bind_SomeE)

lemma make_at_Some:
  assumes "make_at env ty rw cl bk rk sa w = Some (r, w')"
  obtains a where "located_address env rw cl bk rk sa = Some a" "r = next_ref w" "w' = snd (new_request (own_request env ty a (now w)) w)"
  using assms by (auto simp: make_at_def new_request_def elim!: bind_SomeE)

lemma make_at_total:
  assumes "decoding env"
  shows "\<exists>a. located_address env rw cl bk rk sa = Some a \<and> make_at env ty rw cl bk rk sa w = Some (new_request (own_request env ty a (now w)) w)"
  using located_address_total [OF assms] by (fastforce simp: make_at_def)

subsection \<open>The wake-up computation returns\<close>

definition covered :: "'c McEnv \<Rightarrow> ncounter_t \<Rightarrow> NVMAddress \<Rightarrow> bool" where
  "covered env subs a \<longleftrightarrow> translated a \<and> bank_in env a \<and> subarray a < subs"

definition column_or_row :: "OpType \<Rightarrow> bool" where
  "column_or_row ty \<longleftrightarrow> class_of ty \<in> {C_ACT, C_READ, C_WRITE, C_PRE}"

text \<open>What the controller relies on when it asks the memory.\<close>

locale memory_channel =
  fixes env :: "'c McEnv" and fine :: "'c \<Rightarrow> bool" and subs :: ncounter_t
  assumes cached_total: "world_ready w \<Longrightarrow> fine c \<Longrightarrow> covered env subs (address req) \<Longrightarrow> req_type req \<in> {CACHED_READ, CACHED_WRITE} \<Longrightarrow>
      \<exists>ok reason c'. ch_IsIssuable (mc_channel env) req (w, c) = Some (ok, reason, c') \<and> fine c'"
    and next_total: "fine c \<Longrightarrow> covered env subs (address req) \<Longrightarrow> column_or_row (req_type req) \<Longrightarrow>
      \<exists>t. ch_NextIssuable (mc_channel env) req c = Some t"

text \<open>The refresh groups partition the banks.\<close>

definition refresh_ok :: "'c McEnv \<Rightarrow> 'z MemoryController_scheme \<Rightarrow> bool" where
  "refresh_ok env mc \<longleftrightarrow> (let p = mc_prm env in UseRefresh p \<longrightarrow>
     BanksPerRefresh p \<noteq> 0 \<and> unat (BanksPerRefresh p) dvd unat (BANKS p) \<and> m_refreshBankNum mc = BANKS p div BanksPerRefresh p
     \<and> DelayedRefreshThreshold p \<noteq> 0)"

definition queues_live :: "'c McEnv \<Rightarrow> World \<Rightarrow> 'z MemoryController_scheme \<Rightarrow> bool" where
  "queues_live env w mc \<longleftrightarrow> (\<forall>q < commandQueueCount mc. \<forall>r \<in> set (commandQueues mc q).
     \<exists>req. heap w r = Some req \<and> covered env (mc_subArrayNum mc) (address req) \<and> column_or_row (req_type req))"

definition wake_fine :: "'c McEnv \<Rightarrow> ('c \<Rightarrow> bool) \<Rightarrow> ncounter_t \<Rightarrow> ('c, 'z) mc_state \<Rightarrow> bool" where
  "wake_fine env fine subs s \<longleftrightarrow> world_ready (fst s) \<and> fine (fst (snd s)) \<and> hooked env \<and> decoding env
     \<and> mc_subArrayNum (mc_of s) = subs \<and> geometry_ok env (mc_of s) \<and> refresh_ok env (mc_of s) \<and> queues_live env (fst s) (mc_of s)"

definition pending :: "'c McEnv \<Rightarrow> 'z MemoryController_scheme \<Rightarrow> nat" where
  "pending env mc = (\<Sum>rk < unat (RANKS (mc_prm env)). \<Sum>g < unat (m_refreshBankNum mc). unat (delayedRefreshCounter mc (of_nat rk) (of_nat g)))"

lemma set_below [simp]: "x \<in> set (below n) \<longleftrightarrow> x < n"
proof
  assume "x \<in> set (below n)"
  then show "x < n"
    by (auto simp: below_def word_less_nat_alt unat_of_nat intro: le_less_trans [OF mod_less_eq_dividend])
next
  assume "x < n"
  then have "x = of_nat (unat x)" "unat x < unat n"
    by (simp_all add: word_of_nat_unat word_less_nat_alt)
  then show "x \<in> set (below n)"
    by (auto simp: below_def intro!: image_eqI [of _ _ "unat x"])
qed

lemma div_group:
  fixes b n g :: uint64
  assumes "b < n" and "g \<noteq> 0" and "unat g dvd unat n"
  shows "b div g < n div g"
proof -
  have "unat b div unat g < unat n div unat g"
    using assms by (metis div_less_iff_less_mult dvd_div_mult_self unat_gt_0 word_less_nat_alt)
  then show ?thesis
    by (simp add: word_less_nat_alt unat_div_distrib)
qed

lemma NeedRefresh_total:
  assumes "refresh_ok env mc" and "rk < RANKS (mc_prm env)" and "bk < BANKS (mc_prm env)"
  shows "NeedRefresh env bk rk mc = Some (UseRefresh (mc_prm env)
    \<and> delayedRefreshCounter mc rk (bk div BanksPerRefresh (mc_prm env)) \<ge> DelayedRefreshThreshold (mc_prm env))"
  using assms by (auto simp: NeedRefresh_def group_ok_def refresh_ok_def Let_def intro: div_group)

lemma group_banks_in:
  fixes p :: Params
  assumes "bk < BANKS p" and "BanksPerRefresh p \<noteq> 0" and "unat (BanksPerRefresh p) dvd unat (BANKS p)" and "b \<in> set (group_banks p bk)"
  shows "b < BANKS p"
proof -
  obtain i where i: "i < BanksPerRefresh p" and b: "b = bk div BanksPerRefresh p * BanksPerRefresh p + i"
    using assms(4) by (auto simp: group_banks_def)
  have "unat (bk div BanksPerRefresh p) < unat (BANKS p) div unat (BanksPerRefresh p)"
    using div_group [OF assms(1-3)] by (simp add: word_less_nat_alt unat_div_distrib)
  moreover have "unat (BANKS p) div unat (BanksPerRefresh p) * unat (BanksPerRefresh p) < 2 ^ 64"
    using assms(3) unat_uint64_lt [of "BANKS p"] by simp
  ultimately have "unat b < unat (BANKS p) div unat (BanksPerRefresh p) * unat (BanksPerRefresh p)"
    unfolding b using i unat_mixed_radix by (simp add: word_less_nat_alt)
  then show ?thesis
    using assms(3) by (simp add: word_less_nat_alt)
qed

lemma bank_queue_total:
  assumes "geometry_ok env mc" and "rk < RANKS (mc_prm env)" and "bk < BANKS (mc_prm env)"
  shows "\<exists>q. bank_queue env rk bk mc = Some q \<and> q < commandQueueCount mc"
proof -
  let ?a = "NVMAddress_at 0 0 bk rk 0 0"
  have "bank_in env ?a" "sub_in ?a mc"
    using assms by (auto simp: NVMAddress_at_def bank_in_def sub_in_def SetTranslatedAddress_def geometry_ok_def Let_def word_less_nat_alt)
  from GetCommandQueueId_number [OF assms(1) this] show ?thesis
    by (auto simp: bank_queue_def)
qed

lemma EffectivelyEmpty_total:
  assumes "q < commandQueueCount mc" and "queues_live env w mc"
  shows "\<exists>e. EffectivelyEmpty q w mc = Some e"
  using assms by (fastforce simp: EffectivelyEmpty_def queues_live_def split: list.splits)

lemma all_queues_total: "(\<And>b. b \<in> set bs \<Longrightarrow> \<exists>v. test b = Some v) \<Longrightarrow> \<exists>v. all_queues test bs = Some v"
  by (induction bs) fastforce+

lemma IsRefreshBankQueueEmpty_total:
  assumes "geometry_ok env mc" and "refresh_ok env mc" and "UseRefresh (mc_prm env)" and "queues_live env w mc"
    and "rk < RANKS (mc_prm env)" and "bk < BANKS (mc_prm env)"
  shows "\<exists>e. IsRefreshBankQueueEmpty env bk rk w mc = Some e"
  unfolding IsRefreshBankQueueEmpty_def
proof (rule all_queues_total)
  fix b
  assume "b \<in> set (group_banks (mc_prm env) bk)"
  then have "b < BANKS (mc_prm env)"
    using assms by (auto simp: refresh_ok_def Let_def intro: group_banks_in)
  with bank_queue_total [OF assms(1,5)] EffectivelyEmpty_total [OF _ assms(4)]
  show "\<exists>v. Option.bind (bank_queue env rk b mc) (\<lambda>queueId. EffectivelyEmpty queueId w mc) = Some v"
    by fastforce
qed

lemma first_needing_Some:
  assumes "first_needing env xs mc = Some (Some (i, j))"
  shows "(i, j) \<in> set xs \<and> NeedRefresh env j i mc = Some True"
  using assms
proof (induction xs)
  case (Cons x xs)
  then show ?case
    by (cases x) (auto elim!: bind_SomeE split: if_splits)
qed simp

lemma first_needing_total:
  assumes "\<And>i j. (i, j) \<in> set xs \<Longrightarrow> NeedRefresh env j i mc \<noteq> None"
  shows "\<exists>t. first_needing env xs mc = Some t"
  using assms
proof (induction xs)
  case (Cons x xs)
  then show ?case
    by (cases x) fastforce
qed simp

lemma refresh_order_in:
  assumes "refresh_ok env mc" and "UseRefresh (mc_prm env)" and "(i, j) \<in> set (refresh_order env mc)"
  shows "i < RANKS (mc_prm env)" "j < BANKS (mc_prm env)"
proof -
  obtain a b where ab: "a < RANKS (mc_prm env)" "b < m_refreshBankNum mc"
    and i: "i = (nextRefreshRank mc + a) mod RANKS (mc_prm env)" and j: "j = (nextRefreshBank mc + b * BanksPerRefresh (mc_prm env)) mod BANKS (mc_prm env)"
    using assms(3) by (auto simp: refresh_order_def Let_def)
  have "BANKS (mc_prm env) \<noteq> 0" "RANKS (mc_prm env) \<noteq> 0"
    using ab assms(1,2) by (auto simp: refresh_ok_def Let_def)
  then show "i < RANKS (mc_prm env)" "j < BANKS (mc_prm env)"
    by (simp_all add: i j word_mod_less)
qed

lemma queues_live_new:
  assumes "queues_live env w mc" and "world_ready w" and "covered env (mc_subArrayNum mc) (address req)" and "column_or_row (req_type req)"
  shows "queues_live env (snd (new_request req w)) (push_command q (next_ref w) mc)"
proof -
  have "r < next_ref w" if "heap w r = Some rq" for r rq
    using assms(2) that by (auto simp: world_ready_def world_ok_def)
  with assms show ?thesis
    by (fastforce simp: queues_live_def push_command_def)
qed

text \<open>The invariants read only part of the state.\<close>

lemma geometry_ok_cong:
  "mc_subArrayNum mc' = mc_subArrayNum mc \<Longrightarrow> queueModel mc' = queueModel mc \<Longrightarrow> commandQueueCount mc' = commandQueueCount mc
     \<Longrightarrow> geometry_ok env mc' = geometry_ok env mc"
  by (cases "queueModel mc") (simp_all add: geometry_ok_def Let_def)

lemma refresh_ok_cong: "m_refreshBankNum mc' = m_refreshBankNum mc \<Longrightarrow> refresh_ok env mc' = refresh_ok env mc"
  by (simp add: refresh_ok_def)

lemma queues_live_cong:
  "commandQueueCount mc' = commandQueueCount mc \<Longrightarrow> mc_subArrayNum mc' = mc_subArrayNum mc \<Longrightarrow> commandQueues mc' = commandQueues mc
     \<Longrightarrow> queues_live env w mc' = queues_live env w mc"
  by (simp add: queues_live_def)

lemma wake_fine_cong:
  assumes "mc_subArrayNum mc' = mc_subArrayNum mc" "queueModel mc' = queueModel mc" "commandQueueCount mc' = commandQueueCount mc"
    "m_refreshBankNum mc' = m_refreshBankNum mc" "commandQueues mc' = commandQueues mc"
  shows "wake_fine env fine subs (w, c, mc') = wake_fine env fine subs (w, c, mc)"
  using assms geometry_ok_cong [of mc' mc env] refresh_ok_cong [of mc' mc env] queues_live_cong [of mc' mc env w] by (simp add: wake_fine_def)

lemma wake_fine_new_command:
  assumes "wake_fine env fine subs (w, c, mc)" and "covered env subs (address req)" and "column_or_row (req_type req)" and "request_ok req"
  shows "wake_fine env fine subs (snd (new_request req w), c, push_command q (next_ref w) mc)"
proof -
  have "geometry_ok env (push_command q r mc) = geometry_ok env mc" "refresh_ok env (push_command q r mc) = refresh_ok env mc" for r
    by (intro geometry_ok_cong refresh_ok_cong; simp add: push_command_def)+
  with assms show ?thesis
    using queues_live_new world_ready_new_request by (fastforce simp: wake_fine_def push_command_def)
qed

lemma wake_fine_close_bank:
  "wake_fine env fine subs (w, c, close_bank p i b mc) = wake_fine env fine subs (w, c, mc)"
  by (rule wake_fine_cong) (simp_all add: close_bank_def Let_def)

lemma column_or_row_simps [simp]:
  "column_or_row PRECHARGE_ALL" "column_or_row REFRESH" "column_or_row ACTIVATE" "column_or_row PRECHARGE"
  "column_or_row READ" "column_or_row WRITE" "column_or_row READ_PRECHARGE" "column_or_row WRITE_PRECHARGE"
  by (simp_all add: column_or_row_def)

lemma covered_located:
  assumes "located_address env rw cl bk rk sa = Some a" and "rk < RANKS (mc_prm env)" and "bk < BANKS (mc_prm env)" and "sa < subs"
  shows "covered env subs a"
  using assms located_address_sel [OF assms(1)] by (simp add: covered_def bank_in_def)

lemma close_group_total:
  assumes "wake_fine env fine subs s" and "i < RANKS (mc_prm env)" and "\<forall>b \<in> set bs. b < BANKS (mc_prm env)"
  shows "\<exists>s'. close_group env i bs s = Some s' \<and> wake_fine env fine subs s' \<and> now (fst s') = now (fst s) \<and> next_ref (fst s) \<le> next_ref (fst s')
    \<and> (\<forall>r < next_ref (fst s). heap (fst s') r = heap (fst s) r)
    \<and> delayedRefreshCounter (mc_of s') = delayedRefreshCounter (mc_of s) \<and> m_refreshBankNum (mc_of s') = m_refreshBankNum (mc_of s)"
  using assms
proof (induction bs arbitrary: s)
  case (Cons b bs)
  obtain w c mc where s: "s = (w, c, mc)" by (cases s)
  have fine: "wake_fine env fine subs (w, c, mc)" and b: "b < BANKS (mc_prm env)"
    using Cons.prems s by auto
  obtain q where q: "bank_queue env i b mc = Some q"
    using bank_queue_total [OF _ Cons.prems(2) b] fine by (auto simp: wake_fine_def)
  show ?case
  proof (cases "activateQueued mc i b")
    case True
    obtain a where a: "located_address env 0 0 b i 0 = Some a"
      and pre: "MakePrechargeAllRequest_at env 0 0 b i 0 w = Some (new_request (own_request env PRECHARGE_ALL a (now w)) w)"
      using make_at_total [of env 0 0 b i 0] fine by (auto simp: wake_fine_def MakePrechargeAllRequest_at_def)
    let ?req = "own_request env PRECHARGE_ALL a (now w)"
    let ?s1 = "(snd (new_request ?req w), c, close_bank (mc_prm env) i b (push_command q (next_ref w) mc))"
    have subs: "0 < subs"
      using fine by (auto simp: wake_fine_def geometry_ok_def Let_def word_less_nat_alt)
    have "wake_fine env fine subs ?s1"
      unfolding wake_fine_close_bank
      using fine covered_located [OF a Cons.prems(2) b subs] by (intro wake_fine_new_command) simp_all
    from Cons.IH [OF this Cons.prems(2)] Cons.prems(3) show ?thesis
      using True q pre by (fastforce simp: s new_request_def push_command_def close_bank_def Let_def)
  next
    case False
    with Cons.IH [OF Cons.prems(1,2)] Cons.prems(3) q show ?thesis
      by (simp add: s)
  qed
qed auto

lemma pending_decrement:
  assumes "rk < RANKS (mc_prm env)" and "g < m_refreshBankNum mc" and "delayedRefreshCounter mc rk g \<noteq> 0"
    and "delayedRefreshCounter mc' = upd2 rk g (delayedRefreshCounter mc rk g - 1) (delayedRefreshCounter mc)" and "m_refreshBankNum mc' = m_refreshBankNum mc"
  shows "pending env mc' < pending env mc"
proof -
  let ?C = "\<lambda>m i j. unat (delayedRefreshCounter m (of_nat i) (of_nat j :: uint64))"
  have one: "unat (delayedRefreshCounter mc rk g - 1) < unat (delayedRefreshCounter mc rk g)"
    using assms(3) by (metis measure_unat)
  have le: "unat (delayedRefreshCounter mc' a b) \<le> unat (delayedRefreshCounter mc a b)" for a b
    using one by (simp add: assms(4))
  have row: "(\<Sum>j < unat (m_refreshBankNum mc). ?C mc' (unat rk) j) < (\<Sum>j < unat (m_refreshBankNum mc). ?C mc (unat rk) j)"
    using assms(2) one le by (intro sum_strict_mono_ex1) (auto simp: word_less_nat_alt assms(4) intro!: bexI [of _ "unat g"])
  have "(\<Sum>i < unat (RANKS (mc_prm env)). \<Sum>j < unat (m_refreshBankNum mc). ?C mc' i j)
      < (\<Sum>i < unat (RANKS (mc_prm env)). \<Sum>j < unat (m_refreshBankNum mc). ?C mc i j)"
    using assms(1) row le by (intro sum_strict_mono_ex1) (auto simp: word_less_nat_alt intro!: sum_mono bexI [of _ "unat rk"])
  then show ?thesis
    by (simp add: pending_def assms(5))
qed

lemma queue_refresh_total:
  assumes fine: "wake_fine env fine subs s" and t: "first_needing env (refresh_order env (mc_of s)) (mc_of s) = Some (Some (i, j))"
  shows "\<exists>s'. queue_refresh env i j s = Some s' \<and> wake_fine env fine subs s' \<and> pending env (mc_of s') < pending env (mc_of s)"
proof -
  obtain w c mc where s: "s = (w, c, mc)" by (cases s)
  let ?p = "mc_prm env"
  have need: "(i, j) \<in> set (refresh_order env mc)" "NeedRefresh env j i mc = Some True"
    using first_needing_Some [OF t] by (auto simp: s)
  then have use: "UseRefresh ?p"
    by (auto simp: NeedRefresh_def split: if_splits)
  have ref: "refresh_ok env mc" and dec: "decoding env" and subs: "0 < subs"
    using fine by (auto simp: s wake_fine_def geometry_ok_def Let_def word_less_nat_alt)
  have ij: "i < RANKS ?p" "j < BANKS ?p"
    using refresh_order_in [OF ref use need(1)] by auto
  have cfg: "BanksPerRefresh ?p \<noteq> 0" "unat (BanksPerRefresh ?p) dvd unat (BANKS ?p)" "m_refreshBankNum mc = BANKS ?p div BanksPerRefresh ?p"
      "DelayedRefreshThreshold ?p \<noteq> 0"
    using ref use by (auto simp: refresh_ok_def Let_def)
  have grp: "j div BanksPerRefresh ?p < m_refreshBankNum mc"
    using div_group [OF ij(2) cfg(1,2)] by (simp add: cfg(3))
  obtain a where a: "located_address env 0 0 j i 0 = Some a"
    and mk: "MakeRefreshRequest env 0 0 j i 0 w = Some (new_request (own_request env REFRESH a (now w)) w)"
    using make_at_total [OF dec, of 0 0 j i 0 REFRESH w] by (auto simp: MakeRefreshRequest_def)
  let ?w1 = "snd (new_request (own_request env REFRESH a (now w)) w)"
  have fine1: "wake_fine env fine subs (?w1, c, mc)"
  proof -
    have "queues_live env ?w1 mc"
      using fine by (auto simp: s wake_fine_def queues_live_def world_ready_def world_ok_def) blast
    then show ?thesis
      using fine world_ready_new_request [of w "own_request env REFRESH a (now w)"] by (simp add: s wake_fine_def)
  qed
  obtain w2 c2 mc2 where cg: "(if UsePrecharge ?p then close_group env i (refresh_banks ?p j) (?w1, c, mc) else Some (?w1, c, mc)) = Some (w2, c2, mc2)"
    and fine2: "wake_fine env fine subs (w2, c2, mc2)" and same: "\<forall>r < Suc (next_ref w). heap w2 r = heap ?w1 r"
      "delayedRefreshCounter mc2 = delayedRefreshCounter mc" "m_refreshBankNum mc2 = m_refreshBankNum mc"
  proof (cases "UsePrecharge ?p")
    case True
    have "\<forall>b \<in> set (refresh_banks ?p j). b < BANKS ?p"
      using ij(2) by (auto simp: refresh_banks_def intro!: word_mod_less)
    from close_group_total [OF fine1 ij(1) this] True that show ?thesis
      by fastforce
  qed (use fine1 that in simp)
  obtain q where q: "bank_queue env i j mc2 = Some q"
    using bank_queue_total [OF _ ij] fine2 by (auto simp: wake_fine_def)
  have at: "heap w2 (next_ref w) = Some (own_request env REFRESH a (now w))"
    using same(1) by simp
  let ?req = "(own_request env REFRESH a (now w))\<lparr>issueCycle := now w2\<rparr>"
  let ?w3 = "w2\<lparr>heap := (heap w2)(next_ref w \<mapsto> ?req)\<rparr>"
  have upd: "update_request (next_ref w) (\<lambda>q. q\<lparr>issueCycle := now w2\<rparr>) w2 = Some ?w3"
    using at by (simp add: update_request_def)
  define mc4 where "mc4 = (push_command q (next_ref w) mc2)\<lparr>refreshQueued := set_group True i (refresh_banks ?p j) (refreshQueued (push_command q (next_ref w) mc2))\<rparr>"
  define mc5 where "mc5 = mc4\<lparr>delayedRefreshCounter := upd2 i (j div BanksPerRefresh ?p) (delayedRefreshCounter mc i (j div BanksPerRefresh ?p) - 1) (delayedRefreshCounter mc)\<rparr>"
  have cnt4: "delayedRefreshCounter mc4 = delayedRefreshCounter mc" "m_refreshBankNum mc4 = m_refreshBankNum mc"
    by (simp_all add: mc4_def push_command_def same)
  then have decr: "DecrementRefreshCounter env j i mc4 = Some mc5"
    using grp ij by (simp add: DecrementRefreshCounter_def group_ok_def mc5_def Let_def)
  have ref5: "refresh_ok env mc5"
    using ref cnt4 by (simp add: refresh_ok_def mc5_def)
  have reset: "ResetRefresh env j i mc5 = Some (mc5\<lparr>bankNeedRefresh := set_group False i (group_banks ?p j) (bankNeedRefresh mc5)\<rparr>)"
    using group_banks_in [OF ij(2) cfg(1,2)] ij by (simp add: ResetRefresh_def banks_in_def Let_def)
  obtain need5 where need5: "NeedRefresh env j i mc5 = Some need5"
    using NeedRefresh_total [OF ref5 ij] by blast
  define mc6 where "mc6 = (if need5 then mc5 else mc5\<lparr>bankNeedRefresh := set_group False i (group_banks ?p j) (bankNeedRefresh mc5)\<rparr>)"
  have mc6: "(if need5 then Some mc5 else ResetRefresh env j i mc5) = Some mc6"
    by (simp add: mc6_def reset)
  let ?s' = "(?w3, c2, (advance_refresh ?p mc6)\<lparr>handledRefresh := now ?w3\<rparr>)"
  have mk': "MakeRefreshRequest env 0 0 j i 0 w = Some (next_ref w, ?w1)"
    by (simp add: mk prod_eq_iff)
  have "queue_refresh env i j s = Some ?s'"
    by (simp only: queue_refresh_def s prod.case Let_def mk' Option.bind.bind_lunit cg q upd mc4_def [symmetric] decr need5 mc6)
  moreover have "wake_fine env fine subs ?s'"
  proof -
    have "wake_fine env fine subs (?w3, c2, push_command q (next_ref w) mc2)"
    proof -
      have "queues_live env ?w3 (push_command q (next_ref w) mc2)"
        using fine2 covered_located [OF a ij subs] by (auto simp: wake_fine_def queues_live_def push_command_def)
      moreover have "world_ready ?w3"
        using fine2 at by (auto simp: wake_fine_def world_ready_def world_ok_def sims_ok_def request_ok_def own_request_def NVMainRequest_new_def)
      ultimately show ?thesis
        using fine2 geometry_ok_cong [of "push_command q (next_ref w) mc2" mc2 env] refresh_ok_cong [of "push_command q (next_ref w) mc2" mc2 env]
        by (simp add: wake_fine_def push_command_def)
    qed
    then show ?thesis
      by (subst wake_fine_cong [where mc = "push_command q (next_ref w) mc2"])
        (auto simp: advance_refresh_def Let_def mc6_def mc5_def mc4_def)
  qed
  moreover have "pending env (mc_of ?s') < pending env mc"
  proof (rule pending_decrement [OF ij(1) grp])
    show "delayedRefreshCounter mc i (j div BanksPerRefresh ?p) \<noteq> 0"
      using need(2) NeedRefresh_total [OF ref ij] cfg(4) by auto
  qed (auto simp: advance_refresh_def Let_def mc6_def mc5_def cnt4)
  ultimately show ?thesis
    by (auto simp: s)
qed

subsection \<open>What the wake-up computation leaves alone\<close>

definition mc_config where
  "mc_config mc = (queueModel mc, commandQueueCount mc, mc_subArrayNum mc, m_refreshBankNum mc, transactionQueues mc, lastIssueCycle mc,
     starvationCounter mc, MemoryController.more mc)"

text \<open>Clock, memory and requests stay; commands are only appended, and they are new.\<close>

definition appended :: "nat \<Rightarrow> ('q \<Rightarrow> nat list) \<Rightarrow> ('q \<Rightarrow> nat list) \<Rightarrow> bool" where
  "appended n f g \<longleftrightarrow> (\<forall>q. \<exists>cmds. g q = f q @ cmds \<and> (\<forall>r \<in> set cmds. n \<le> r))"

lemma appended_refl [simp]: "appended n f f"
  by (simp add: appended_def)

lemma appended_one: "n \<le> r \<Longrightarrow> appended n f (f(q := f q @ [r]))"
  by (simp add: appended_def)

lemma appended_trans:
  assumes "appended n f g" and "appended m g h" and "n \<le> m"
  shows "appended n f h"
  unfolding appended_def
proof
  fix q
  obtain a b where "g q = f q @ a" "\<forall>r \<in> set a. n \<le> r" "h q = g q @ b" "\<forall>r \<in> set b. m \<le> r"
    using assms(1,2) unfolding appended_def by metis
  then show "\<exists>cmds. h q = f q @ cmds \<and> (\<forall>r \<in> set cmds. n \<le> r)"
    using assms(3) by (intro exI [of _ "a @ b"]) auto
qed

definition wake_kept :: "('c, 'z) mc_state \<Rightarrow> ('c, 'z) mc_state \<Rightarrow> bool" where
  "wake_kept s0 s \<longleftrightarrow> now (fst s) = now (fst s0) \<and> next_ref (fst s0) \<le> next_ref (fst s) \<and> (\<forall>r < next_ref (fst s0). heap (fst s) r = heap (fst s0) r)
     \<and> fst (snd s) = fst (snd s0) \<and> mc_config (mc_of s) = mc_config (mc_of s0)
     \<and> appended (next_ref (fst s0)) (commandQueues (mc_of s0)) (commandQueues (mc_of s))"

lemma wake_kept_refl [simp]: "wake_kept s s"
  by (simp add: wake_kept_def)

lemma wake_kept_trans: "wake_kept a b \<Longrightarrow> wake_kept b c \<Longrightarrow> wake_kept a c"
  by (simp add: wake_kept_def) (meson appended_trans)

lemma wake_kept_new:
  assumes "mc_config mc' = mc_config mc" and "commandQueues mc' = commandQueues mc \<or> (\<exists>q. commandQueues mc' = (commandQueues mc)(q := commandQueues mc q @ [next_ref w]))"
  shows "wake_kept (w, c, mc) (snd (new_request req w), c, mc')"
  using assms by (auto simp: wake_kept_def intro: appended_one)

lemma close_group_kept: "close_group env i bs s = Some s' \<Longrightarrow> wake_kept s s'"
proof (induction bs arbitrary: s)
  case (Cons b bs)
  obtain w c mc where s: "s = (w, c, mc)" by (cases s)
  obtain q where q: "bank_queue env i b mc = Some q"
    using Cons.prems by (auto simp: s elim: bind_SomeE)
  show ?case
  proof (cases "activateQueued mc i b")
    case True
    then obtain pre w' where pre: "MakePrechargeAllRequest_at env 0 0 b i 0 w = Some (pre, w')"
      and rest: "close_group env i bs (w', c, close_bank (mc_prm env) i b (push_command q pre mc)) = Some s'"
      using Cons.prems q by (auto simp: s elim!: bind_SomeE)
    obtain a where a: "pre = next_ref w" "w' = snd (new_request (own_request env PRECHARGE_ALL a (now w)) w)"
      using pre by (auto simp: MakePrechargeAllRequest_at_def elim: make_at_Some)
    have "wake_kept s (w', c, close_bank (mc_prm env) i b (push_command q pre mc))"
      unfolding s a by (intro wake_kept_new) (auto simp: mc_config_def close_bank_def push_command_def Let_def)
    from wake_kept_trans [OF this Cons.IH [OF rest]] show ?thesis .
  next
    case False
    with Cons q show ?thesis by (auto simp: s)
  qed
qed simp

lemma queue_refresh_kept:
  assumes "queue_refresh env i j s = Some s'"
  shows "wake_kept s s'"
proof -
  obtain w c mc where s: "s = (w, c, mc)" by (cases s)
  let ?p = "mc_prm env"
  obtain ref w1 w2 c2 mc2 q w3 mc5 need mc6 where mk: "MakeRefreshRequest env 0 0 j i 0 w = Some (ref, w1)"
    and cg: "(if UsePrecharge ?p then close_group env i (refresh_banks ?p j) (w1, c, mc) else Some (w1, c, mc)) = Some (w2, c2, mc2)"
    and upd: "update_request ref (\<lambda>q. q\<lparr>issueCycle := now w2\<rparr>) w2 = Some w3"
    and dec: "DecrementRefreshCounter env j i ((push_command q ref mc2)\<lparr>refreshQueued := set_group True i (refresh_banks ?p j) (refreshQueued (push_command q ref mc2))\<rparr>) = Some mc5"
    and reset: "(if need then Some mc5 else ResetRefresh env j i mc5) = Some mc6"
    and s': "s' = (w3, c2, (advance_refresh ?p mc6)\<lparr>handledRefresh := now w3\<rparr>)"
    using assms unfolding queue_refresh_def s prod.case Let_def by (elim bind_SomeE) (auto elim!: bind_SomeE)
  obtain a where a: "ref = next_ref w" "w1 = snd (new_request (own_request env REFRESH a (now w)) w)"
    using mk by (auto simp: MakeRefreshRequest_def elim: make_at_Some)
  have k1: "wake_kept s (w1, c, mc)"
    unfolding s a by (rule wake_kept_new) simp_all
  have k2: "wake_kept s (w2, c2, mc2)"
  proof (cases "UsePrecharge ?p")
    case True
    then show ?thesis
      using cg wake_kept_trans [OF k1 close_group_kept] by simp
  qed (use k1 cg in simp)
  have cfg: "mc_config ((advance_refresh ?p mc6)\<lparr>handledRefresh := t\<rparr>) = mc_config mc2"
      "commandQueues ((advance_refresh ?p mc6)\<lparr>handledRefresh := t\<rparr>) = (commandQueues mc2)(q := commandQueues mc2 q @ [ref])" for t
    using dec reset
    by (auto simp: mc_config_def advance_refresh_def Let_def DecrementRefreshCounter_def ResetRefresh_def push_command_def split: if_splits)
  have w3: "now w3 = now w2" "next_ref w3 = next_ref w2" "\<forall>r. r \<noteq> ref \<longrightarrow> heap w3 r = heap w2 r"
    using upd by (auto simp: update_request_def elim!: bind_SomeE)
  show ?thesis
    using k2 cfg w3 appended_trans [OF _ appended_one [of "next_ref w" "next_ref w" "commandQueues mc2" q]]
    by (simp add: wake_kept_def s s' a)
qed

lemma insert_wake_kept: "insert_wake env t s = Some s' \<Longrightarrow> wake_kept s s'"
  by (auto simp: insert_wake_def wake_kept_def scheduled_def elim!: bind_SomeE dest!: ensure_callback_scheduled)

interpretation kept: wake_invariant env "wake_kept s0" for env s0
  by unfold_locales (blast intro: wake_kept_trans queue_refresh_kept insert_wake_kept)+

lemma insert_wake_total:
  assumes "wake_fine env fine subs s"
  shows "\<exists>s'. insert_wake env t s = Some s' \<and> wake_fine env fine subs s' \<and> snd s' = snd s"
proof -
  have "hooked env"
    using assms by (simp add: wake_fine_def)
  from hooked_total(3) [OF this] obtain w where w: "ensure_callback env CommandQueueCallback_ptr t commandQueuePriority (fst s) = Some w"
    by blast
  have "scheduled (fst s) w"
    by (rule ensure_callback_scheduled [OF w])
  with assms w show ?thesis
    by (auto simp: insert_wake_def wake_fine_def scheduled_def queues_live_def)
qed

text \<open>The recursion of \<^verbatim>\<open>NextIssuable\<close> through \<^verbatim>\<open>HandleRefresh\<close>, as the code has it.\<close>

lemma next_issuable_loop_Nil: "next_issuable_loop env [] nw s = Some (nw, s)"
  by (subst next_issuable_loop.simps) simp

lemma next_issuable_loop_Cons:
  "next_issuable_loop env ((rk, bk) # rest) nw s = do {
     queueIdx \<leftarrow> bank_queue env rk bk (mc_of s);
     need \<leftarrow> NeedRefresh env bk rk (mc_of s);
     due \<leftarrow> (if need then IsRefreshBankQueueEmpty env bk rk (fst s) (mc_of s) else Some False);
     (nw', s') \<leftarrow> (if due then if lastIssueCycle (mc_of s) \<noteq> now (fst s)
                             then do { (_, s') \<leftarrow> HandleRefresh env s; Some (nw, s') }
                             else Some (now (fst s) + 1, s)
                  else Some (nw, s));
     case commandQueues (mc_of s') queueIdx of
       [] \<Rightarrow> next_issuable_loop env rest nw' s'
     | r # _ \<Rightarrow> do {
         queueHead \<leftarrow> heap (fst s') r;
         n \<leftarrow> ch_NextIssuable (mc_channel env) queueHead (fst (snd s'));
         next_issuable_loop env rest (min nw' n) s'
       }
   }"
proof -
  have swap: "Option.bind (first_needing env (refresh_order env (mc_of s)) (mc_of s)) (\<lambda>t.
                    case t of None \<Rightarrow> Some (nw, s)
                    | Some ij \<Rightarrow>
                        Option.bind (queue_refresh env (fst ij) (snd ij) s) (\<lambda>s1.
                        Option.bind (next_issuable_loop env (all_banks (mc_prm env)) (- 1) s1) (\<lambda>ws2.
                        Option.bind (insert_wake env (wake_cycle (fst ws2) (fst (snd ws2))) (snd ws2)) (\<lambda>s3.
                        Some (nw, s3)))))
        = Option.bind (HandleRefresh env s) (\<lambda>(_, s'). Some (nw, s'))"
    by (auto simp: HandleRefresh_def ScheduleCommandWake_def NextIssuable_def bind_case_option bind_case_prod Option.bind_assoc
        case_prod_unfold intro!: Option.bind_cong split: option.splits)
  show ?thesis
    by (subst next_issuable_loop.simps) (simp only: list.case fst_conv snd_conv swap case_prod_unfold)
qed

context memory_channel
begin

lemma ScheduleCommandWake_if_loop:
  assumes "next_issuable_loop env (all_banks (mc_prm env)) (- 1) s = Some (nw', s')" and "wake_fine env fine subs s'"
  shows "\<exists>s''. ScheduleCommandWake env s = Some s'' \<and> wake_fine env fine subs s'' \<and> pending env (mc_of s'') = pending env (mc_of s')"
proof -
  obtain s'' where "insert_wake env (wake_cycle nw' (fst s')) s' = Some s''" "wake_fine env fine subs s''" "snd s'' = snd s'"
    using insert_wake_total [OF assms(2)] by blast
  then show ?thesis
    using assms(1) by (simp add: ScheduleCommandWake_def NextIssuable_def)
qed

lemma HandleRefresh_if_loop:
  fixes u :: "('c, 'z) mc_state"
  assumes u: "wake_fine env fine subs u"
    and loop: "\<And>u1 :: ('c, 'z) mc_state. wake_fine env fine subs u1 \<Longrightarrow> pending env (mc_of u1) < pending env (mc_of u) \<Longrightarrow>
      \<exists>nw' u2. next_issuable_loop env (all_banks (mc_prm env)) (- 1) u1 = Some (nw', u2) \<and> wake_fine env fine subs u2 \<and> pending env (mc_of u2) \<le> pending env (mc_of u1)"
  shows "\<exists>b s'. HandleRefresh env u = Some (b, s') \<and> wake_fine env fine subs s' \<and> pending env (mc_of s') \<le> pending env (mc_of u)"
proof -
  have ref: "refresh_ok env (mc_of u)"
    using u by (simp add: wake_fine_def)
  have "NeedRefresh env j i (mc_of u) \<noteq> None" if "(i, j) \<in> set (refresh_order env (mc_of u))" for i j
    using NeedRefresh_total [OF ref] refresh_order_in [OF ref _ that] by (cases "UseRefresh (mc_prm env)") (auto simp: NeedRefresh_def)
  then obtain t where t: "first_needing env (refresh_order env (mc_of u)) (mc_of u) = Some t"
    using first_needing_total by blast
  show ?thesis
  proof (cases t)
    case None
    then have "HandleRefresh env u = Some (False, u)"
      using t by (simp add: HandleRefresh_def)
    with u show ?thesis by blast
  next
    case (Some ij)
    obtain i j where ij: "ij = (i, j)" by (cases ij)
    obtain u1 where u1: "queue_refresh env i j u = Some u1" "wake_fine env fine subs u1" "pending env (mc_of u1) < pending env (mc_of u)"
      using queue_refresh_total [OF u] t by (auto simp: Some ij)
    then obtain nw' u2 where u2: "next_issuable_loop env (all_banks (mc_prm env)) (- 1) u1 = Some (nw', u2)" "wake_fine env fine subs u2"
        "pending env (mc_of u2) \<le> pending env (mc_of u1)"
      using loop by blast
    from ScheduleCommandWake_if_loop [OF u2(1,2)] u1 u2(3) show ?thesis
      using t by (auto simp: HandleRefresh_def Some ij)
  qed
qed

lemma next_issuable_loop_total:
  fixes s :: "('c, 'z) mc_state"
  assumes "wake_fine env fine subs s" and "set todo \<subseteq> set (all_banks (mc_prm env))"
  shows "\<exists>nw' s'. next_issuable_loop env todo nw s = Some (nw', s') \<and> wake_fine env fine subs s' \<and> pending env (mc_of s') \<le> pending env (mc_of s)"
  using assms
proof (induction "pending env (mc_of s)" arbitrary: todo nw s rule: less_induct)
  case less
  define n where "n = pending env (mc_of s)"
  have HR: "\<exists>b s'. HandleRefresh env u = Some (b, s') \<and> wake_fine env fine subs s' \<and> pending env (mc_of s') \<le> pending env (mc_of u)"
    if u: "wake_fine env fine subs u" "pending env (mc_of u) \<le> n" for u :: "('c, 'z) mc_state"
    using HandleRefresh_if_loop [OF u(1)] less.hyps [of _ "all_banks (mc_prm env)" "- 1"] u(2) by (simp add: n_def)
  have "pending env (mc_of s) \<le> n"
    by (simp add: n_def)
  with less.prems show ?case
  proof (induction todo arbitrary: nw s)
    case Nil
    then show ?case
      by (simp add: next_issuable_loop_Nil)
  next
    case (Cons b todo)
    obtain rk bk where b: "b = (rk, bk)" by (cases b)
    have in_range: "rk < RANKS (mc_prm env)" "bk < BANKS (mc_prm env)"
      using Cons.prems(2) by (auto simp: b all_banks_def)
    have fine: "geometry_ok env (mc_of s)" "refresh_ok env (mc_of s)" "queues_live env (fst s) (mc_of s)"
      using Cons.prems(1) by (auto simp: wake_fine_def)
    obtain q where q: "bank_queue env rk bk (mc_of s) = Some q" "q < commandQueueCount (mc_of s)"
      using bank_queue_total [OF fine(1) in_range] by blast
    obtain need where need: "NeedRefresh env bk rk (mc_of s) = Some need" "need \<longrightarrow> UseRefresh (mc_prm env)"
      using NeedRefresh_total [OF fine(2) in_range] by blast
    obtain due where due: "(if need then IsRefreshBankQueueEmpty env bk rk (fst s) (mc_of s) else Some False) = Some due"
      using IsRefreshBankQueueEmpty_total [OF fine(1,2) _ fine(3) in_range] need(2) by (cases need) auto
    obtain nw1 s1 where mid: "(if due then if lastIssueCycle (mc_of s) \<noteq> now (fst s)
                             then do { (_, s') \<leftarrow> HandleRefresh env s; Some (nw, s') } else Some (now (fst s) + 1, s) else Some (nw, s)) = Some (nw1, s1)"
      and s1: "wake_fine env fine subs s1" "pending env (mc_of s1) \<le> pending env (mc_of s)"
    proof -
      obtain b' s' where hr: "HandleRefresh env s = Some (b', s')" "wake_fine env fine subs s'" "pending env (mc_of s') \<le> pending env (mc_of s)"
        using HR [OF Cons.prems(1,3)] by blast
      show ?thesis
      proof (cases "due \<and> lastIssueCycle (mc_of s) \<noteq> now (fst s)")
        case True
        show ?thesis
          by (rule that [of nw s']) (use True hr in simp_all)
      next
        case False
        show ?thesis
          by (rule that [of "if due then now (fst s) + 1 else nw" s]) (use False Cons.prems(1) in simp_all)
      qed
    qed
    have rest: "\<exists>nw' s'. next_issuable_loop env todo nw2 s1 = Some (nw', s') \<and> wake_fine env fine subs s' \<and> pending env (mc_of s') \<le> pending env (mc_of s)" for nw2
      using Cons.IH [OF s1(1), of nw2] Cons.prems(2,3) s1(2) by fastforce
    have "commandQueueCount (mc_of s1) = commandQueueCount (mc_of s)"
      using mid kept.HandleRefresh_keeps [OF wake_kept_refl, of env s]
      by (auto simp: wake_kept_def mc_config_def split: if_splits elim!: bind_SomeE)
    show ?case
    proof (cases "commandQueues (mc_of s1) q")
      case Nil
      then show ?thesis
        using q need due mid rest by (simp add: b next_issuable_loop_Cons)
    next
      case (Cons r rs)
      then obtain req where "heap (fst s1) r = Some req" "covered env subs (address req)" "column_or_row (req_type req)"
        using s1(1) q(2) \<open>commandQueueCount (mc_of s1) = commandQueueCount (mc_of s)\<close> by (fastforce simp: wake_fine_def queues_live_def)
      moreover from this obtain t where "ch_NextIssuable (mc_channel env) req (fst (snd s1)) = Some t"
        using next_total s1(1) by (auto simp: wake_fine_def)
      ultimately show ?thesis
        using Cons q need due mid rest by (simp add: b next_issuable_loop_Cons)
    qed
  qed
qed

lemma all_banks_loop:
  assumes "wake_fine env fine subs s"
  shows "\<exists>nw' s'. next_issuable_loop env (all_banks (mc_prm env)) nw s = Some (nw', s') \<and> wake_fine env fine subs s' \<and> pending env (mc_of s') \<le> pending env (mc_of s)"
  using next_issuable_loop_total [OF assms order_refl] .

lemma NextIssuable_total:
  assumes "wake_fine env fine subs s"
  shows "\<exists>t s'. NextIssuable env s = Some (t, s') \<and> wake_fine env fine subs s' \<and> wake_kept s s' \<and> (now (fst s) \<noteq> - 1 \<longrightarrow> now (fst s) < t)"
proof -
  obtain nw s' where loop: "next_issuable_loop env (all_banks (mc_prm env)) (- 1) s = Some (nw, s')" and fine: "wake_fine env fine subs s'"
    using all_banks_loop [OF assms] by blast
  have kept: "wake_kept s s'"
    using kept.next_issuable_loop_keeps [OF wake_kept_refl loop] by simp
  have "now (fst s) \<noteq> - 1 \<longrightarrow> now (fst s) < wake_cycle nw (fst s')"
    using kept by (auto simp: wake_cycle_def wake_kept_def not_le plus_one_greater)
  then show ?thesis
    using loop fine kept by (auto simp: NextIssuable_def)
qed

lemma ScheduleCommandWake_total:
  assumes "wake_fine env fine subs s"
  shows "\<exists>s'. ScheduleCommandWake env s = Some s' \<and> wake_fine env fine subs s' \<and> wake_kept s s'"
proof -
  obtain nw s' where "next_issuable_loop env (all_banks (mc_prm env)) (- 1) s = Some (nw, s')" "wake_fine env fine subs s'"
    using all_banks_loop [OF assms] by blast
  then obtain s'' where s'': "ScheduleCommandWake env s = Some s''" "wake_fine env fine subs s''"
    using ScheduleCommandWake_if_loop by blast
  with kept.ScheduleCommandWake_keeps [OF wake_kept_refl s''(1)] show ?thesis by blast
qed

lemma HandleRefresh_total:
  assumes "wake_fine env fine subs s"
  shows "\<exists>b s'. HandleRefresh env s = Some (b, s') \<and> wake_fine env fine subs s' \<and> wake_kept s s'"
proof -
  obtain b s' where hr: "HandleRefresh env s = Some (b, s')" "wake_fine env fine subs s'"
    using HandleRefresh_if_loop [OF assms all_banks_loop] by blast
  with kept.HandleRefresh_keeps [OF wake_kept_refl hr(1)] show ?thesis by blast
qed

end

end
