(* ===== verification/Controller_Bus.thy ===== *)
theory Controller_Bus
  imports Controller_Wake Interconnect_Safety
begin

text \<open>
  The memory controller on top of the bus: the operations of the record \<open>Channel\<close> are those of the
  interconnect with its ranks, banks and subarrays.
\<close>

text \<open>\<^verbatim>\<open>_FindChild( req, "SubArray" )\<close> follows the decoders down the tree.\<close>

definition bus_FindSubArray :: "BusEnv \<Rightarrow> NVMainRequest \<Rightarrow> Bus \<Rightarrow> SubArray option" where
  "bus_FindSubArray env req bus = do {
     i \<leftarrow> bus_child env bus req;
     j \<leftarrow> rank_child (ic_rank env i) (ranks bus ! i) req;
     k \<leftarrow> bank_child (rk_bank (ic_rank env i) j) (banks (ranks bus ! i) ! j) req;
     Some (subarrays (banks (ranks bus ! i) ! j) ! k)
   }"

definition bus_RankIdle :: "BusEnv \<Rightarrow> NVMainRequest \<Rightarrow> Bus \<Rightarrow> bool option" where
  "bus_RankIdle env req bus = do { i \<leftarrow> bus_child env bus req; StandardRank_Idle (ranks bus ! i) }"

definition bus_channel :: "BusEnv \<Rightarrow> Bus Channel" where
  "bus_channel env = \<lparr>ch_IsIssuable = OffChipBus_IsIssuable env, ch_IssueCommand = OffChipBus_IssueCommand env,
     ch_NextIssuable = Bus_NextIssuable env, ch_Cycle = OffChipBus_Cycle env, ch_CalculateStats = OffChipBus_CalculateStats env,
     ch_FindSubArray = bus_FindSubArray env, ch_RankIdle = bus_RankIdle env\<rparr>"

text \<open>A controller whose channel is the bus \<open>ben\<close>, with the parameters of the bus.\<close>

definition on_bus :: "BusEnv \<Rightarrow> Bus McEnv \<Rightarrow> Bus McEnv" where
  "on_bus ben env = env\<lparr>mc_prm := ic_prm ben, mc_channel := bus_channel ben\<rparr>"

lemma on_bus_sel [simp]:
  "mc_prm (on_bus ben env) = ic_prm ben" "mc_channel (on_bus ben env) = bus_channel ben" "mc_self (on_bus ben env) = mc_self env"
  "mc_hooks (on_bus ben env) = mc_hooks env" "mc_decoder (on_bus ben env) = mc_decoder env"
  by (simp_all add: on_bus_def)

abbreviation bus_ok :: "BusEnv \<Rightarrow> ncounter_t \<Rightarrow> Bus \<Rightarrow> bool" where
  "bus_ok ben subs \<equiv> bus_fine ben (unat (RANKS (ic_prm ben))) (unat (BANKS (ic_prm ben))) (unat subs)"

lemma covered_fits:
  assumes "covered (on_bus ben env) subs (address req)" and "class_of (req_type req) \<noteq> C_WRITE" and "req_type req \<noteq> REFRESH"
  shows "bus_fits ben (unat (RANKS (ic_prm ben))) (unat (BANKS (ic_prm ben))) (unat subs) req"
  using assms by (simp add: covered_def bank_in_def bus_fits_def rank_fits_def word_less_nat_alt)

lemma Bus_NextIssuable_total:
  assumes bus: "bus_ok ben subs bus" and a: "covered (on_bus ben env) subs (address req)" and ty: "column_or_row (req_type req)"
  shows "\<exists>t. Bus_NextIssuable ben req bus = Some t"
proof -
  let ?i = "unat (rank (address req))" and ?j = "unat (bank (address req))"
  have i: "?i < unat (RANKS (ic_prm ben))" "?j < unat (BANKS (ic_prm ben))" "unat (subarray (address req)) < unat subs"
      and tr: "translated (address req)"
    using a by (auto simp: covered_def bank_in_def word_less_nat_alt)
  have child: "bus_child ben bus req = Some ?i"
    using bus i(1) tr by (auto simp: GetChild_def bus_fine_def Translate_request_def select_field_def address_field_def)
  have rk: "rank_fine (ic_rank ben ?i) (unat (BANKS (ic_prm ben))) (unat subs) (ranks bus ! ?i)"
    using bus i(1) by (simp add: bus_fine_def)
  then have child2: "rank_child (ic_rank ben ?i) (ranks bus ! ?i) req = Some ?j"
    using i(2) tr by (auto simp: GetChild_def rank_fine_def rank_frame_def banks_fine_def Translate_request_def select_field_def address_field_def)
  have bk: "bank_fine (rk_bank (ic_rank ben ?i) ?j) (unat subs) (banks (ranks bus ! ?i) ! ?j)"
    using rk i(2) by (simp add: rank_fine_def banks_fine_def)
  then have child3: "bank_child (rk_bank (ic_rank ben ?i) ?j) (banks (ranks bus ! ?i) ! ?j) req = Some (unat (subarray (address req)))"
    using i(3) tr by (auto simp: GetChild_def bank_fine_def Translate_request_def select_field_def address_field_def)
  have "\<exists>t. activate_slot 1 (ranks bus ! ?i) = Some t"
    using rk by (auto simp: activate_slot_def rank_fine_def rank_frame_def unat_mod_distrib Let_def unat_gt_0)
  then show ?thesis
    using ty by (auto simp: Bus_NextIssuable_def child StandardRank_NextIssuable_def child2 DDR3Bank_NextIssuable_def child3 column_or_row_def Let_def)
qed

interpretation bus_mem: memory_channel "on_bus ben env" "bus_ok ben subs" subs for ben env subs
proof
  fix w :: World and c :: Bus and req :: NVMainRequest
  assume "world_ready w" "bus_ok ben subs c" "covered (on_bus ben env) subs (address req)" "req_type req \<in> {CACHED_READ, CACHED_WRITE}"
  then show "\<exists>ok reason c'. ch_IsIssuable (mc_channel (on_bus ben env)) req (w, c) = Some (ok, reason, c') \<and> bus_ok ben subs c'"
    using bus.asked [of w ben _ _ _ c req] covered_fits [of ben env subs req] by (fastforce simp: bus_channel_def)
next
  fix c :: Bus and req :: NVMainRequest
  assume "bus_ok ben subs c" "covered (on_bus ben env) subs (address req)" "column_or_row (req_type req)"
  then show "\<exists>t. ch_NextIssuable (mc_channel (on_bus ben env)) req c = Some t"
    using Bus_NextIssuable_total by (simp add: bus_channel_def)
qed

subsection \<open>The wake-up computation on the bus\<close>

text \<open>C1: The mutually recursive computation of the next wake-up returns: with refresh groups that
  partition the banks and a positive threshold, \<^verbatim>\<open>NextIssuable\<close>, \<^verbatim>\<open>ScheduleCommandWake\<close> and
  \<^verbatim>\<open>HandleRefresh\<close> neither recurse forever nor fail an assertion, in whatever state the queues
  and refresh counters are; the wake-up lies in the future, and apart from appended refresh and
  precharge commands the queues, the requests and the memory are as before.\<close>

theorem wake_up_returns:
  assumes "wake_fine (on_bus ben env) (bus_ok ben subs) subs s" and "now (fst s) \<noteq> - 1"
  shows "(\<exists>t s'. NextIssuable (on_bus ben env) s = Some (t, s') \<and> now (fst s) < t \<and> wake_kept s s')
    \<and> (\<exists>s'. ScheduleCommandWake (on_bus ben env) s = Some s' \<and> wake_kept s s')
    \<and> (\<exists>b s'. HandleRefresh (on_bus ben env) s = Some (b, s') \<and> wake_kept s s')"
  using bus_mem.NextIssuable_total [OF assms(1)] bus_mem.ScheduleCommandWake_total [OF assms(1)] bus_mem.HandleRefresh_total [OF assms(1)] assms(2)
  by blast

text \<open>A controller of two ranks with one refresh due.\<close>

definition demo_mc_env :: "Bus McEnv" where
  "demo_mc_env = on_bus demo_bus_env \<lparr>mc_prm = Params_new, mc_self = 7, mc_hooks = [(5, 7)], mc_trampoline = (\<lambda>_. 7), mc_id = 0,
     mc_decoder = default_translator, mc_outs = (\<lambda>_. 0), mc_channel = bus_channel demo_bus_env\<rparr>"

definition demo_mc :: FRFCFS where
  "demo_mc = FRFCFS_new\<lparr>commandQueueCount := 16, mc_subArrayNum := 2, m_refreshBankNum := 1, m_tREFI := 2600,
     delayedRefreshCounter := (\<lambda>_ _. 1), bankNeedRefresh := (\<lambda>_ _. True)\<rparr>"

definition demo_state :: "World \<times> Bus \<times> FRFCFS" where
  "demo_state = (World_new, demo_bus, demo_mc)"

lemma demo_mc_sel [simp]:
  "commandQueues demo_mc = (\<lambda>_. [])" "commandQueueCount demo_mc = 16" "queueModel demo_mc = PerBankQueues" "mc_subArrayNum demo_mc = 2"
  "m_refreshBankNum demo_mc = 1" "transactionQueues demo_mc = [[]]" "activateQueued demo_mc = (\<lambda>_ _. False)" "lastIssueCycle demo_mc = 0"
  by (simp_all add: demo_mc_def FRFCFS_new_def InitQueues_def MemoryController_new_def MemoryController.defs FRFCFS.defs)

lemma demo_sizes [simp]:
  "RANKS (ic_prm demo_bus_env) = 2" "BANKS (ic_prm demo_bus_env) = 8" "ScheduleScheme (ic_prm demo_bus_env) = 1"
  "BanksPerRefresh (ic_prm demo_bus_env) = 8" "UseRefresh (ic_prm demo_bus_env)" "DelayedRefreshThreshold (ic_prm demo_bus_env) = 1"
  by (simp_all add: demo_bus_env_def Params_new_def)

lemma demo_state_fine: "wake_fine demo_mc_env (bus_ok demo_bus_env 2) 2 demo_state"
proof -
  have "world_ready World_new"
    by (simp add: world_ready_def sims_ok_def) (simp add: World_new_def)
  moreover have "hooked demo_mc_env" "decoding demo_mc_env"
    using offset_bits_default by (simp_all add: hooked_def decoding_def demo_mc_env_def default_translator_def SetTranslationMethod_def)
  moreover have "geometry_ok demo_mc_env demo_mc" "refresh_ok demo_mc_env demo_mc" "queues_live demo_mc_env World_new demo_mc"
    by (simp_all add: geometry_ok_def refresh_ok_def queues_live_def demo_mc_env_def Let_def)
  ultimately show ?thesis
    using demo_bus_fine by (simp add: wake_fine_def demo_state_def)
qed

theorem wake_up_returns_witness:
  "\<exists>t s' b s''. NextIssuable demo_mc_env demo_state = Some (t, s') \<and> 0 < t \<and> HandleRefresh demo_mc_env demo_state = Some (b, s'')"
proof -
  have "now (fst demo_state) = 0"
    by (simp add: demo_state_def World_new_def EventQueue_new_def)
  with wake_up_returns [OF demo_state_fine [unfolded demo_mc_env_def], folded demo_mc_env_def] show ?thesis
    by auto
qed

end
