(* ===== verification/Scheduler_Choice.thy ===== *)
theory Scheduler_Choice
  imports Controller_Bus
begin

text \<open>
  What the schedulers choose: the searches of the memory controller against their specification,
  the first request of the queue in the most urgent class that has one, and the choice of the
  first-come, the first-ready and the write-draining controller on top of them.
\<close>

subsection \<open>Specification\<close>

text \<open>The row the bank of an address has at the sense amplifiers of the subarray, and the one a
  request wants: row and column group.\<close>

definition open_line :: "'z MemoryController_scheme \<Rightarrow> NVMAddress \<Rightarrow> (uint64 \<times> ncounter_t) option" where
  "open_line mc a = (if activateQueued mc (rank a) (bank a) \<and> activeSubArray mc (rank a) (bank a) (subarray a)
     then Some (effectiveRow mc (rank a) (bank a) (subarray a), effectiveMuxedRow mc (rank a) (bank a) (subarray a)) else None)"

definition wanted_line :: "Params \<Rightarrow> NVMAddress \<Rightarrow> uint64 \<times> ncounter_t" where
  "wanted_line p a = (row a, col a div RBSize p)"

text \<open>A request can go when it did not arrive in this very cycle, its bank neither needs a refresh
  nor has one queued, and the command queue of its address is empty.\<close>

definition can_go :: "'c McEnv \<Rightarrow> ncycle_t \<Rightarrow> 'z MemoryController_scheme \<Rightarrow> NVMainRequest \<Rightarrow> bool" where
  "can_go env cur mc req \<longleftrightarrow> (let a = address req in arrivalCycle req \<noteq> cur
     \<and> \<not> bankNeedRefresh mc (rank a) (bank a) \<and> \<not> refreshQueued mc (rank a) (bank a)
     \<and> (case GetCommandQueueId env a mc of None \<Rightarrow> True | Some q \<Rightarrow> commandQueues mc q = []))"

text \<open>The urgency of a request, 0 the most urgent: starved behind another row of its subarray (0), a
  hit in the row buffer (1), another request of an active bank (2), a request of a closed bank
  (3). A request that cannot go has none.\<close>

definition urgency :: "'c McEnv \<Rightarrow> ncycle_t \<Rightarrow> 'z MemoryController_scheme \<Rightarrow> NVMainRequest \<Rightarrow> nat option" where
  "urgency env cur mc req = (let a = address req in
     if \<not> can_go env cur mc req then None
     else if \<not> activateQueued mc (rank a) (bank a) then Some 3
     else if open_line mc a = Some (wanted_line (mc_prm env) a) then Some 1
     else if starvationThreshold mc \<le> starvationCounter mc (rank a) (bank a) (subarray a) then Some 0
     else Some 2)"

definition urgency_of :: "'c McEnv \<Rightarrow> World \<Rightarrow> 'z MemoryController_scheme \<Rightarrow> nat \<Rightarrow> nat option" where
  "urgency_of env w mc r = (case heap w r of None \<Rightarrow> None | Some req \<Rightarrow> urgency env (now w) mc req)"

text \<open>The contract of a first-ready choice: the earliest request among the most urgent ones, and none
  only when no request can go.\<close>

definition most_urgent :: "(nat \<Rightarrow> nat option) \<Rightarrow> nat list \<Rightarrow> nat option \<Rightarrow> bool" where
  "most_urgent u queue found \<longleftrightarrow> (case found of
       None \<Rightarrow> \<forall>r \<in> set queue. u r = None
     | Some r \<Rightarrow> \<exists>before later k. queue = before @ r # later \<and> u r = Some k
         \<and> (\<forall>x \<in> set before. \<forall>j. u x = Some j \<longrightarrow> k < j) \<and> (\<forall>x \<in> set later. \<forall>j. u x = Some j \<longrightarrow> k \<le> j))"

lemma most_urgent_None [simp]: "most_urgent u queue None \<longleftrightarrow> (\<forall>r \<in> set queue. u r = None)"
  by (simp add: most_urgent_def)

lemma most_urgent_Some: "most_urgent u queue (Some r) \<longleftrightarrow> (\<exists>before later k. queue = before @ r # later \<and> u r = Some k
    \<and> (\<forall>x \<in> set before. \<forall>j. u x = Some j \<longrightarrow> k < j) \<and> (\<forall>x \<in> set later. \<forall>j. u x = Some j \<longrightarrow> k \<le> j))"
  by (simp add: most_urgent_def)

lemma most_urgent_cong:
  assumes "\<And>r. r \<in> set queue \<Longrightarrow> u r = v r" and "most_urgent u queue found"
  shows "most_urgent v queue found"
proof (cases found)
  case None
  with assms show ?thesis by simp
next
  case (Some r)
  then obtain before later k where q: "queue = before @ r # later" "u r = Some k"
      "\<forall>x \<in> set before. \<forall>j. u x = Some j \<longrightarrow> k < j" "\<forall>x \<in> set later. \<forall>j. u x = Some j \<longrightarrow> k \<le> j"
    using assms(2) by (auto simp: most_urgent_Some)
  with assms(1) have "v r = Some k" "\<forall>x \<in> set before. \<forall>j. v x = Some j \<longrightarrow> k < j" "\<forall>x \<in> set later. \<forall>j. v x = Some j \<longrightarrow> k \<le> j"
    by auto
  with q(1) show ?thesis
    unfolding Some most_urgent_Some by blast
qed

lemma most_urgent_later:
  assumes "most_urgent u queue found"
  shows "most_urgent (\<lambda>r. map_option Suc (u r)) queue found"
proof (cases found)
  case None
  with assms show ?thesis by simp
next
  case (Some r)
  then obtain before later k where "queue = before @ r # later" "u r = Some k"
      "\<forall>x \<in> set before. \<forall>j. u x = Some j \<longrightarrow> k < j" "\<forall>x \<in> set later. \<forall>j. u x = Some j \<longrightarrow> k \<le> j"
    using assms by (auto simp: most_urgent_Some)
  then show ?thesis
    unfolding Some most_urgent_Some by (intro exI [of _ before] exI [of _ later] exI [of _ "Suc k"]) (auto simp: map_option_case split: option.splits)
qed

subsection \<open>The searches\<close>

text \<open>A request is ready for a test when its command queue is empty and it passes the test.\<close>

definition ready :: "'c McEnv \<Rightarrow> (NVMainRequest \<Rightarrow> bool option) \<Rightarrow> World \<Rightarrow> 'z MemoryController_scheme \<Rightarrow> nat \<Rightarrow> bool" where
  "ready env test w mc r \<longleftrightarrow> do {
     req \<leftarrow> heap w r;
     queueId \<leftarrow> GetCommandQueueId env (address req) mc;
     if commandQueues mc queueId \<noteq> [] then Some False else test req
   } = Some True"

fun first_choice :: "(nat \<Rightarrow> bool) list \<Rightarrow> nat list \<Rightarrow> nat option" where
  "first_choice [] queue = None"
| "first_choice (P # Ps) queue = (case find P queue of Some r \<Rightarrow> Some r | None \<Rightarrow> first_choice Ps queue)"

text \<open>The classes in the order of their urgency.\<close>

definition best_of ::
  "('c McEnv \<Rightarrow> ncycle_t \<Rightarrow> 'z MemoryController_scheme \<Rightarrow> NVMainRequest \<Rightarrow> bool option) list \<Rightarrow>
   'c McEnv \<Rightarrow> World \<Rightarrow> 'z MemoryController_scheme \<Rightarrow> nat list \<Rightarrow> nat option" where
  "best_of tests env w mc queue = first_choice (map (\<lambda>t. ready env (t env (now w) mc) w mc) tests) queue"

text \<open>What choosing does to the controller: the request leaves its queue, nothing else moves.\<close>

definition taken :: "nat \<Rightarrow> nat option \<Rightarrow> 'z MemoryController_scheme \<Rightarrow> 'z MemoryController_scheme \<Rightarrow> bool" where
  "taken qn found mc mc' \<longleftrightarrow> commandQueues mc' = commandQueues mc
     \<and> transactionQueues mc' = (case found of None \<Rightarrow> transactionQueues mc
         | Some r \<Rightarrow> (transactionQueues mc)[qn := remove1 r (transactionQueues mc ! qn)])"

definition transactions_live :: "'c McEnv \<Rightarrow> World \<Rightarrow> 'z MemoryController_scheme \<Rightarrow> nat list \<Rightarrow> bool" where
  "transactions_live env w mc queue \<longleftrightarrow> (\<forall>r \<in> set queue. \<exists>req. heap w r = Some req \<and> (req_type req = READ \<or> req_type req = WRITE)
     \<and> covered env (mc_subArrayNum mc) (address req))"

text \<open>What the searches rely on.\<close>

definition search_fine :: "'c McEnv \<Rightarrow> ('c \<Rightarrow> bool) \<Rightarrow> ncounter_t \<Rightarrow> nat \<Rightarrow> ('c, 'z) mc_state \<Rightarrow> bool" where
  "search_fine env fine subs qn s \<longleftrightarrow> world_ready (fst s) \<and> fine (fst (snd s)) \<and> RBSize (mc_prm env) \<noteq> 0 \<and> \<not> WritePausing (mc_prm env)
     \<and> mc_subArrayNum (mc_of s) = subs \<and> geometry_ok env (mc_of s) \<and> qn < length (transactionQueues (mc_of s))
     \<and> transactions_live env (fst s) (mc_of s) (transactionQueues (mc_of s) ! qn)"

subsection \<open>One search\<close>

lemma with_pred_Dummy [simp]: "with_pred DummyPredicate test = test"
  by (rule ext) (simp add: with_pred_def DummyPredicate_def option.map_ident)

lemma find_ready_eq:
  assumes "\<And>r. r \<in> set rs \<Longrightarrow> \<exists>req q. heap w r = Some req \<and> GetCommandQueueId env (address req) mc = Some q \<and> test req \<noteq> None"
  shows "find_ready env test w mc rs = Some (find (ready env test w mc) rs)"
  using assms
proof (induction rs)
  case (Cons r rs)
  obtain req q where "heap w r = Some req" "GetCommandQueueId env (address req) mc = Some q" "test req \<noteq> None"
    using Cons.prems [of r] by auto
  then show ?case
    using Cons by (auto simp: ready_def)
qed simp

lemma ready_heap: "heap w' = heap w \<Longrightarrow> ready env test w' mc = ready env test w mc"
  by (rule ext) (simp add: ready_def)

lemma live_request:
  assumes "transactions_live env w mc queue" and "geometry_ok env mc" and "r \<in> set queue"
  obtains req q where "heap w r = Some req" "GetCommandQueueId env (address req) mc = Some q" "bank_in env (address req)" "sub_in (address req) mc"
    "covered env (mc_subArrayNum mc) (address req)" "req_type req = READ \<or> req_type req = WRITE"
proof -
  obtain req where req: "heap w r = Some req" "req_type req = READ \<or> req_type req = WRITE" "covered env (mc_subArrayNum mc) (address req)"
    using assms(1,3) by (auto simp: transactions_live_def)
  then have "bank_in env (address req)" "sub_in (address req) mc"
    by (auto simp: covered_def sub_in_def)
  with that req GetCommandQueueId_number [OF assms(2) this] show ?thesis
    by blast
qed

lemma reads_all_live: "(\<And>r. r \<in> set rs \<Longrightarrow> heap w r \<noteq> None) \<Longrightarrow> \<exists>reqs. reads_all w rs = Some reqs"
proof (induction rs)
  case (Cons r rs)
  then obtain req reqs where "heap w r = Some req" "reads_all w rs = Some reqs"
    by (metis list.set_intros not_None_eq)
  then show ?case by simp
qed simp

lemma take_transaction_live:
  assumes "transactions_live env w mc (transactionQueues mc ! qn)" and "r \<in> set (transactionQueues mc ! qn)"
  shows "\<exists>w'. take_transaction env qn r (w, c, mc) = Some (w', c, set_queue qn (remove1 r (transactionQueues mc ! qn)) mc) \<and> heap w' r \<noteq> None"
proof -
  have live: "heap w r' \<noteq> None" if "r' \<in> set (transactionQueues mc ! qn)" for r'
    using assms(1) that by (auto simp: transactions_live_def)
  obtain reqs req where "reads_all w (remove1 r (transactionQueues mc ! qn)) = Some reqs" "heap w r = Some req"
    using reads_all_live [of "remove1 r (transactionQueues mc ! qn)" w] live live [OF assms(2)]
    by (meson in_mono not_None_eq set_remove1_subset)
  then show ?thesis
    by (auto simp: take_transaction_def IsLastRequest_def update_request_def Let_def)
qed

lemma tests_total:
  assumes "RBSize (mc_prm env) \<noteq> 0" and "bank_in env (address req)" and "sub_in (address req) mc"
  shows "starved_test env cur mc req \<noteq> None" "row_hit_test env cur mc req \<noteq> None"
    "oldest_test env cur mc req \<noteq> None" "closed_test env cur mc req \<noteq> None"
  using assms by (auto simp: starved_test_def row_hit_test_def oldest_test_def closed_test_def mux_level_def Let_def)

text \<open>Every search of the controller finds the first request that is ready for its test; when there
  is none, it changes nothing.\<close>

lemma find_transaction_live:
  assumes s: "search_fine env fine subs qn (w, c, mc)"
    and test: "\<And>req. bank_in env (address req) \<Longrightarrow> sub_in (address req) mc \<Longrightarrow> test req \<noteq> None"
  shows "find (ready env test w mc) (transactionQueues mc ! qn) = None \<Longrightarrow> find_transaction env test qn (w, c, mc) = Some (None, (w, c, mc))"
    and "find (ready env test w mc) (transactionQueues mc ! qn) = Some r \<Longrightarrow>
      \<exists>w'. find_transaction env test qn (w, c, mc) = Some (Some r, (w', c, set_queue qn (remove1 r (transactionQueues mc ! qn)) mc)) \<and> heap w' r \<noteq> None"
proof -
  let ?q = "transactionQueues mc ! qn"
  have live: "transactions_live env w mc ?q" and geo: "geometry_ok env mc" and qn: "qn < length (transactionQueues mc)"
    using s by (auto simp: search_fine_def)
  have eq: "find_ready env test w mc ?q = Some (find (ready env test w mc) ?q)"
    by (rule find_ready_eq) (metis live_request [OF live geo] test)
  show "find_transaction env test qn (w, c, mc) = Some (None, (w, c, mc))" if "find (ready env test w mc) ?q = None"
    using that eq qn by (simp add: find_transaction_def)
  assume r: "find (ready env test w mc) ?q = Some r"
  then have "r \<in> set ?q"
    by (auto simp: find_Some_iff)
  from take_transaction_live [OF live this, of c] r eq qn
  show "\<exists>w'. find_transaction env test qn (w, c, mc) = Some (Some r, (w', c, set_queue qn (remove1 r ?q) mc)) \<and> heap w' r \<noteq> None"
    by (auto simp: find_transaction_def)
qed

subsection \<open>A memory without a row cache\<close>

lemma cached_copy:
  assumes "world_ready w" and "heap w r = Some req" and "req_type req = READ \<or> req_type req = WRITE"
  shows "\<exists>creq w1. MakeCachedRequest env r w = Some (next_ref w, w1) \<and> heap w1 = (heap w)(next_ref w \<mapsto> creq) \<and> evq w1 = evq w
    \<and> address creq = address req \<and> req_type creq \<in> {CACHED_READ, CACHED_WRITE} \<and> world_ready w1"
proof -
  let ?f = "\<lambda>q. q\<lparr>req_type := (if req_type req = READ then CACHED_READ else CACHED_WRITE), owner := Some (mc_self env)\<rparr>"
  have ok: "world_ok w" "sims_ok w"
    using assms(1) by (simp_all add: world_ready_def)
  define creq where "creq = ?f (req\<lparr>flags := 0, burstCount := 1, writeProgress := 0, cancellations := 0\<rparr>)"
  define w1 where "w1 = w\<lparr>heap := (heap w)(next_ref w \<mapsto> creq), next_ref := Suc (next_ref w)\<rparr>"
  have copy: "copy_request r ?f w = Some (next_ref w, w1)"
    unfolding w1_def creq_def by (rule copy_request_fresh [OF ok(1) assms(2), of ?f])
  have "world_ready w1"
    using copy_request_ok [OF ok(1) copy] ok(2) by (simp add: world_ready_def sims_ok_def request_ok_def w1_def)
  moreover have "address creq = address req" "req_type creq \<in> {CACHED_READ, CACHED_WRITE}"
    by (simp_all add: creq_def)
  moreover have "MakeCachedRequest env r w = Some (next_ref w, w1)"
    using assms(2,3) copy by (auto simp: MakeCachedRequest_def)
  moreover have "heap w1 = (heap w)(next_ref w \<mapsto> creq)" "evq w1 = evq w"
    by (simp_all add: w1_def)
  ultimately show ?thesis by blast
qed

text \<open>A channel whose banks have no row cache refuses every request to be served from one.\<close>

locale uncached_channel = memory_channel env fine subs
  for env :: "'c McEnv" and fine :: "'c \<Rightarrow> bool" and subs :: ncounter_t +
  assumes cached_refused: "world_ready w \<Longrightarrow> fine c \<Longrightarrow> covered env subs (address req) \<Longrightarrow> req_type req \<in> {CACHED_READ, CACHED_WRITE} \<Longrightarrow>
      \<exists>reason c'. ch_IsIssuable (mc_channel env) req (w, c) = Some (False, reason, c') \<and> fine c'"
begin

lemma cached_loop_nothing:
  assumes "world_ready w" and "fine c" and "transactions_live env w mc rs" and "geometry_ok env mc" and "mc_subArrayNum mc = subs"
  shows "\<exists>w' c'. cached_loop env pred rs (w, c, mc) = Some (None, (w', c', mc)) \<and> heap w' = heap w \<and> evq w' = evq w \<and> world_ready w' \<and> fine c'"
  using assms
proof (induction rs arbitrary: w c)
  case (Cons r rs)
  obtain req q where req: "heap w r = Some req" "GetCommandQueueId env (address req) mc = Some q" "covered env subs (address req)"
      "req_type req = READ \<or> req_type req = WRITE"
    using Cons.prems(5) by (metis live_request [OF Cons.prems(3,4) list.set_intros(1)])
  have ok: "world_ok w"
    using Cons.prems(1) by (simp add: world_ready_def)
  have free: "heap w (next_ref w) = None"
    using world_ok_heap [OF ok] by (metis less_irrefl not_None_eq)
  obtain creq w1 where copy: "MakeCachedRequest env r w = Some (next_ref w, w1)" "heap w1 = (heap w)(next_ref w \<mapsto> creq)" "evq w1 = evq w"
      "address creq = address req" "req_type creq \<in> {CACHED_READ, CACHED_WRITE}" "world_ready w1"
    using cached_copy [OF Cons.prems(1) req(1,4)] by blast
  obtain reason c' where c': "ch_IsIssuable (mc_channel env) creq (w1, c) = Some (False, reason, c')" "fine c'"
    using cached_refused [OF copy(6) Cons.prems(2) _ copy(5)] req(3) copy(4) by auto
  let ?w = "w1\<lparr>heap := heap w\<rparr>"
  have del: "delete_request (next_ref w) w1 = Some ?w"
    using free by (simp add: delete_request_def copy(2) fun_upd_idem)
  have w: "world_ready ?w"
    using delete_request_ok [OF _ del] copy(6) by (simp add: world_ready_def sims_ok_def)
  obtain c1 where c1: "fine c1" "cached_loop env pred (r # rs) (w, c, mc) = cached_loop env pred rs (?w, c1, mc)"
    using Cons.prems(2) c' by (cases "commandQueues mc q = []") (auto simp: req copy(1,2) del)
  have "transactions_live env ?w mc rs"
    using Cons.prems(3) by (auto simp: transactions_live_def)
  from Cons.IH [OF w c1(1) this Cons.prems(4,5)] c1(2) copy(3) show ?case
    by auto
qed auto

lemma FindCachedAddress_nothing:
  assumes "search_fine env fine subs qn (w, c, mc)"
  shows "\<exists>w' c'. FindCachedAddress env pred qn (w, c, mc) = Some (None, (w', c', mc)) \<and> heap w' = heap w \<and> evq w' = evq w
    \<and> search_fine env fine subs qn (w', c', mc)"
proof -
  have "transactions_live env w mc (transactionQueues mc ! qn)" "world_ready w" "fine c" "geometry_ok env mc" "mc_subArrayNum mc = subs"
    using assms by (auto simp: search_fine_def)
  from cached_loop_nothing [OF this(2,3,1,4,5), of pred] assms show ?thesis
    by (auto simp: FindCachedAddress_def search_fine_def transactions_live_def)
qed

text \<open>A search with one of the four tests, by what the specification finds.\<close>

lemma search_result:
  assumes "search_fine env fine subs qn (w, c, mc)" and "t \<in> {starved_test, row_hit_test, oldest_test, closed_test}"
  shows "find (ready env (t env (now w) mc) w mc) (transactionQueues mc ! qn) = None \<Longrightarrow>
      find_transaction env (t env (now w) mc) qn (w, c, mc) = Some (None, (w, c, mc))"
    and "find (ready env (t env (now w) mc) w mc) (transactionQueues mc ! qn) = Some r \<Longrightarrow>
      \<exists>w'. find_transaction env (t env (now w) mc) qn (w, c, mc) = Some (Some r, (w', c, set_queue qn (remove1 r (transactionQueues mc ! qn)) mc)) \<and> heap w' r \<noteq> None"
proof -
  have "t env (now w) mc req \<noteq> None" if "bank_in env (address req)" "sub_in (address req) mc" for req
    using tests_total [of env req mc "now w"] that assms by (auto simp: search_fine_def)
  then show "find (ready env (t env (now w) mc) w mc) (transactionQueues mc ! qn) = None \<Longrightarrow>
      find_transaction env (t env (now w) mc) qn (w, c, mc) = Some (None, (w, c, mc))"
    and "find (ready env (t env (now w) mc) w mc) (transactionQueues mc ! qn) = Some r \<Longrightarrow>
      \<exists>w'. find_transaction env (t env (now w) mc) qn (w, c, mc) = Some (Some r, (w', c, set_queue qn (remove1 r (transactionQueues mc ! qn)) mc)) \<and> heap w' r \<noteq> None"
    using find_transaction_live [OF assms(1), where test = "t env (now w) mc"] by blast+
qed

text \<open>The four searches in the order the first-ready controllers make them, with the question for
  cached requests before the third.\<close>

lemma four_searches:
  fixes w :: World and c :: 'c and mc :: "'z MemoryController_scheme"
  assumes "search_fine env fine subs qn (w, c, mc)"
  defines "best \<equiv> best_of [starved_test, row_hit_test, oldest_test, closed_test] env w mc (transactionQueues mc ! qn)"
    and "left r \<equiv> set_queue qn (remove1 r (transactionQueues mc ! qn)) mc"
  obtains
    (starved) r w' where "best = Some r" "FindStarvedRequest env DummyPredicate qn (w, c, mc) = Some (Some r, (w', c, left r))" "heap w' r \<noteq> None"
  | (hit) r w' where "best = Some r" "FindStarvedRequest env DummyPredicate qn (w, c, mc) = Some (None, (w, c, mc))"
      "FindRowBufferHit env DummyPredicate qn (w, c, mc) = Some (Some r, (w', c, left r))" "heap w' r \<noteq> None"
  | (oldest) r w' w1 c1 where "best = Some r" "FindStarvedRequest env DummyPredicate qn (w, c, mc) = Some (None, (w, c, mc))"
      "FindRowBufferHit env DummyPredicate qn (w, c, mc) = Some (None, (w, c, mc))"
      "FindCachedAddress env DummyPredicate qn (w, c, mc) = Some (None, (w1, c1, mc))"
      "FindOldestReadyRequest env DummyPredicate qn (w1, c1, mc) = Some (Some r, (w', c1, left r))" "heap w' r \<noteq> None"
  | (closed) r w' w1 c1 where "best = Some r" "FindStarvedRequest env DummyPredicate qn (w, c, mc) = Some (None, (w, c, mc))"
      "FindRowBufferHit env DummyPredicate qn (w, c, mc) = Some (None, (w, c, mc))"
      "FindCachedAddress env DummyPredicate qn (w, c, mc) = Some (None, (w1, c1, mc))"
      "FindOldestReadyRequest env DummyPredicate qn (w1, c1, mc) = Some (None, (w1, c1, mc))"
      "FindClosedBankRequest env DummyPredicate qn (w1, c1, mc) = Some (Some r, (w', c1, left r))" "heap w' r \<noteq> None"
  | (none) w1 c1 where "best = None" "FindStarvedRequest env DummyPredicate qn (w, c, mc) = Some (None, (w, c, mc))"
      "FindRowBufferHit env DummyPredicate qn (w, c, mc) = Some (None, (w, c, mc))"
      "FindCachedAddress env DummyPredicate qn (w, c, mc) = Some (None, (w1, c1, mc))"
      "FindOldestReadyRequest env DummyPredicate qn (w1, c1, mc) = Some (None, (w1, c1, mc))"
      "FindClosedBankRequest env DummyPredicate qn (w1, c1, mc) = Some (None, (w1, c1, mc))"
proof -
  let ?find = "\<lambda>t. find (ready env (t env (now w) mc) w mc) (transactionQueues mc ! qn)"
  obtain w1 c1 where cached: "FindCachedAddress env DummyPredicate qn (w, c, mc) = Some (None, (w1, c1, mc))" "heap w1 = heap w" "evq w1 = evq w"
      "search_fine env fine subs qn (w1, c1, mc)"
    using FindCachedAddress_nothing [OF assms(1)] by blast
  note before = search_result [OF assms(1)] and after = search_result [OF cached(4), unfolded cached(3) ready_heap [OF cached(2)]]
  note finds = FindStarvedRequest_def FindRowBufferHit_def FindOldestReadyRequest_def FindClosedBankRequest_def
  show ?thesis
  proof (cases "?find starved_test")
    case (Some r)
    with before(2) [of starved_test r] starved show ?thesis
      by (auto simp: best_def best_of_def left_def finds)
  next
    case no_starved: None
    note first = before(1) [of starved_test, OF _ no_starved]
    show ?thesis
    proof (cases "?find row_hit_test")
      case (Some r)
      with before(2) [of row_hit_test r] first hit no_starved show ?thesis
        by (auto simp: best_def best_of_def left_def finds)
    next
      case no_hit: None
      note second = before(1) [of row_hit_test, OF _ no_hit]
      show ?thesis
      proof (cases "?find oldest_test")
        case (Some r)
        with after(2) [of oldest_test r] first second oldest no_starved no_hit cached(1,3) show ?thesis
          by (auto simp: best_def best_of_def left_def finds)
      next
        case no_oldest: None
        note third = after(1) [of oldest_test, OF _ no_oldest]
        show ?thesis
        proof (cases "?find closed_test")
          case (Some r)
          with after(2) [of closed_test r] first second third closed no_starved no_hit no_oldest cached(1,3) show ?thesis
            by (auto simp: best_def best_of_def left_def finds)
        next
          case no_closed: None
          with after(1) [of closed_test, OF _ no_closed] first second third none no_starved no_hit no_oldest cached(1,3) show ?thesis
            by (auto simp: best_def best_of_def left_def finds)
        qed
      qed
    qed
  qed
qed

lemma FRFCFS_choose_best:
  fixes s :: "World \<times> 'c \<times> FRFCFS"
  assumes "search_fine env fine subs 0 s"
  shows "\<exists>s'. FRFCFS_choose env s = Some (best_of [starved_test, row_hit_test, oldest_test, closed_test] env (fst s) (mc_of s) (transactionQueues (mc_of s) ! 0), s')
    \<and> taken 0 (best_of [starved_test, row_hit_test, oldest_test, closed_test] env (fst s) (mc_of s) (transactionQueues (mc_of s) ! 0)) (mc_of s) (mc_of s')"
proof -
  obtain w c mc where s: "s = (w, c, mc)" by (cases s)
  have fine: "search_fine env fine subs 0 (w, c, mc)" and plain: "\<not> WritePausing (mc_prm env)"
    using assms by (auto simp: s search_fine_def)
  from fine show ?thesis
    by (cases rule: four_searches) (auto simp: s plain FRFCFS_choose_def FindWriteStalledRead_def taken_def set_queue_def)
qed

lemma FCFS_choose_best:
  fixes s :: "World \<times> 'c \<times> FCFS"
  assumes "search_fine env fine subs 0 s"
  shows "\<exists>s'. FCFS_choose env s = Some (best_of [oldest_test, closed_test] env (fst s) (mc_of s) (transactionQueues (mc_of s) ! 0), s')
    \<and> taken 0 (best_of [oldest_test, closed_test] env (fst s) (mc_of s) (transactionQueues (mc_of s) ! 0)) (mc_of s) (mc_of s')"
proof -
  obtain w c mc where s: "s = (w, c, mc)" by (cases s)
  let ?q = "transactionQueues mc ! 0"
  note search = search_result [OF assms [unfolded s]]
  consider (oldest) r where "find (ready env (oldest_test env (now w) mc) w mc) ?q = Some r"
    | (closed) r where "find (ready env (oldest_test env (now w) mc) w mc) ?q = None" "find (ready env (closed_test env (now w) mc) w mc) ?q = Some r"
    | (none) "find (ready env (oldest_test env (now w) mc) w mc) ?q = None" "find (ready env (closed_test env (now w) mc) w mc) ?q = None"
    by (meson not_None_eq)
  then show ?thesis
  proof cases
    case oldest
    with search(2) [of oldest_test] show ?thesis
      by (auto simp: s FCFS_choose_def FindOldestReadyRequest_def best_of_def taken_def set_queue_def)
  next
    case closed
    with search(1) [of oldest_test] search(2) [of closed_test] show ?thesis
      by (auto simp: s FCFS_choose_def FindOldestReadyRequest_def FindClosedBankRequest_def best_of_def taken_def set_queue_def)
  next
    case none
    with search(1) [of oldest_test] search(1) [of closed_test] show ?thesis
      by (auto simp: s FCFS_choose_def FindOldestReadyRequest_def FindClosedBankRequest_def best_of_def taken_def set_queue_def)
  qed
qed

lemma WQF_choose_queue_best:
  fixes s :: "World \<times> 'c \<times> FRFCFS_WQF"
  assumes "search_fine env fine subs qn s" and "qn = writeQueueId \<and> pick = WQF_choose_write \<or> qn = readQueueId \<and> pick = WQF_choose_read"
  defines "best \<equiv> best_of [starved_test, row_hit_test, oldest_test, closed_test] env (fst s) (mc_of s) (transactionQueues (mc_of s) ! qn)"
  shows "\<exists>s'. pick env s = Some (best, s') \<and> taken qn best (mc_of s) (mc_of s') \<and> (\<forall>r. best = Some r \<longrightarrow> heap (fst s') r \<noteq> None)
    \<and> m_draining (mc_of s') = m_draining (mc_of s) \<and> force_drain (mc_of s') = force_drain (mc_of s)"
proof -
  obtain w c mc where s: "s = (w, c, mc)" by (cases s)
  have fine: "search_fine env fine subs qn (w, c, mc)"
    using assms(1) by (simp add: s)
  from fine assms(2) show ?thesis
    by (cases rule: four_searches) (auto simp: s best_def WQF_choose_write_def WQF_choose_read_def taken_def set_queue_def)
qed

end

subsection \<open>On the bus\<close>

interpretation bus_plain: uncached_channel "on_bus ben env" "bus_ok ben subs" subs for ben env subs
proof
  fix w :: World and c :: Bus and req :: NVMainRequest
  assume w: "world_ready w" and c: "bus_ok ben subs c" and a: "covered (on_bus ben env) subs (address req)" and ty: "req_type req \<in> {CACHED_READ, CACHED_WRITE}"
  have "\<not> can_issue p cur req s" for p cur s
    using ty by (auto simp: can_issue_def)
  then have "\<not> bus_can ben (now w) req c"
    using ty by (auto simp: bus_can_def rank_can_def rank_targets_def bank_can_def Let_def)
  with bus.asked [OF w c covered_fits [OF a]] ty
  show "\<exists>reason c'. ch_IsIssuable (mc_channel (on_bus ben env)) req (w, c) = Some (False, reason, c') \<and> bus_ok ben subs c'"
    by (fastforce simp: bus_channel_def)
qed

text \<open>Searching class by class finds the earliest of the most urgent requests.\<close>

fun class_rank :: "(nat \<Rightarrow> bool) list \<Rightarrow> nat \<Rightarrow> nat option" where
  "class_rank [] r = None"
| "class_rank (P # Ps) r = (if P r then Some 0 else map_option Suc (class_rank Ps r))"

lemma find_split:
  assumes "find P xs = Some x"
  obtains before later where "xs = before @ x # later" and "P x" and "\<forall>y \<in> set before. \<not> P y"
proof -
  obtain i where i: "i < length xs" "P (xs ! i)" "x = xs ! i" "\<forall>j < i. \<not> P (xs ! j)"
    using assms by (auto simp: find_Some_iff)
  show ?thesis
  proof (rule that)
    show "xs = take i xs @ x # drop (Suc i) xs"
      using i(1,3) by (simp add: id_take_nth_drop)
    show "\<forall>y \<in> set (take i xs). \<not> P y"
      using i(1,4) by (auto simp: in_set_conv_nth)
  qed (use i in simp)
qed

lemma first_choice_most_urgent: "most_urgent (class_rank Ps) queue (first_choice Ps queue)"
proof (induction Ps)
  case Nil
  then show ?case by (simp add: most_urgent_def)
next
  case (Cons P Ps)
  show ?case
  proof (cases "find P queue")
    case None
    then have "map_option Suc (class_rank Ps r) = class_rank (P # Ps) r" if "r \<in> set queue" for r
      using that by (auto simp: find_None_iff)
    with most_urgent_cong [OF _ most_urgent_later [OF Cons.IH]] None show ?thesis
      by simp
  next
    case (Some r)
    then obtain before later where q: "queue = before @ r # later" "P r" "\<forall>y \<in> set before. \<not> P y"
      by (rule find_split)
    have "\<forall>x \<in> set before. \<forall>j. class_rank (P # Ps) x = Some j \<longrightarrow> 0 < j"
      using q(3) by auto
    with q(1,2) have "most_urgent (class_rank (P # Ps)) queue (Some r)"
      unfolding most_urgent_Some by (intro exI [of _ before] exI [of _ later] exI [of _ 0]) simp
    with Some show ?thesis by (simp del: class_rank.simps)
  qed
qed

lemma class_rank_urgency:
  assumes "transactions_live env w mc queue" and "geometry_ok env mc" and "RBSize (mc_prm env) \<noteq> 0" and "r \<in> set queue"
  shows "class_rank (map (\<lambda>t. ready env (t env (now w) mc) w mc) [starved_test, row_hit_test, oldest_test, closed_test]) r = urgency_of env w mc r"
proof -
  obtain req q where req: "heap w r = Some req" "GetCommandQueueId env (address req) mc = Some q" "bank_in env (address req)" "sub_in (address req) mc"
    by (rule live_request [OF assms(1,2,4)])
  then show ?thesis
    using assms(3)
    by (auto simp: urgency_of_def urgency_def can_go_def open_line_def wanted_line_def Let_def ready_def starved_test_def row_hit_test_def
        oldest_test_def closed_test_def mux_level_def row_open_def refresh_blocked_def)
qed

lemma best_of_most_urgent:
  assumes "transactions_live env w mc queue" and "geometry_ok env mc" and "RBSize (mc_prm env) \<noteq> 0"
  shows "most_urgent (urgency_of env w mc) queue (best_of [starved_test, row_hit_test, oldest_test, closed_test] env w mc queue)"
  unfolding best_of_def
  by (rule most_urgent_cong [OF class_rank_urgency [OF assms] first_choice_most_urgent])

text \<open>C15: The first-ready scheduler chooses, on every state of a configured controller over the
  DDR3 bus without write pausing, the earliest of the most urgent requests of its queue. A request
  that can go - it did not arrive in this cycle, its bank neither needs nor has queued a refresh,
  its command queue is empty - is most urgent when its bank is active on another row and its
  subarray has reached the starvation threshold, then when its row and column group are at the
  sense amplifiers, then when its bank is active, last when its bank is closed. The choice always
  returns, only that request leaves the transaction queue, no command queue changes, and nothing
  is chosen only when no queued request can go.\<close>

theorem frfcfs_choice:
  fixes s :: "World \<times> Bus \<times> FRFCFS"
  assumes "search_fine (on_bus ben env) (bus_ok ben subs) subs 0 s"
  shows "\<exists>found s'. FRFCFS_choose (on_bus ben env) s = Some (found, s')
    \<and> most_urgent (urgency_of (on_bus ben env) (fst s) (mc_of s)) (transactionQueues (mc_of s) ! 0) found
    \<and> taken 0 found (mc_of s) (mc_of s')"
  using bus_plain.FRFCFS_choose_best [OF assms] best_of_most_urgent [of "on_bus ben env" "fst s" "mc_of s" "transactionQueues (mc_of s) ! 0"] assms
  by (auto simp: search_fine_def)

subsection \<open>Draining writes\<close>

lemma record_drain_base [simp]:
  "transactionQueues (record_drain mc) = transactionQueues mc" "commandQueues (record_drain mc) = commandQueues mc"
  "activateQueued (record_drain mc) = activateQueued mc" "activeSubArray (record_drain mc) = activeSubArray mc"
  "effectiveRow (record_drain mc) = effectiveRow mc" "effectiveMuxedRow (record_drain mc) = effectiveMuxedRow mc"
  "bankNeedRefresh (record_drain mc) = bankNeedRefresh mc" "refreshQueued (record_drain mc) = refreshQueued mc"
  "starvationCounter (record_drain mc) = starvationCounter mc" "starvationThreshold (record_drain mc) = starvationThreshold mc"
  "mc_subArrayNum (record_drain mc) = mc_subArrayNum mc" "queueModel (record_drain mc) = queueModel mc"
  "commandQueueCount (record_drain mc) = commandQueueCount mc" "force_drain (record_drain mc) = force_drain mc"
  by (simp_all add: record_drain_def Let_def)

lemma drain_switch_base [simp]:
  "transactionQueues (drain_switch cur mc) = transactionQueues mc" "commandQueues (drain_switch cur mc) = commandQueues mc"
  "activateQueued (drain_switch cur mc) = activateQueued mc" "activeSubArray (drain_switch cur mc) = activeSubArray mc"
  "effectiveRow (drain_switch cur mc) = effectiveRow mc" "effectiveMuxedRow (drain_switch cur mc) = effectiveMuxedRow mc"
  "bankNeedRefresh (drain_switch cur mc) = bankNeedRefresh mc" "refreshQueued (drain_switch cur mc) = refreshQueued mc"
  "starvationCounter (drain_switch cur mc) = starvationCounter mc" "starvationThreshold (drain_switch cur mc) = starvationThreshold mc"
  "mc_subArrayNum (drain_switch cur mc) = mc_subArrayNum mc" "queueModel (drain_switch cur mc) = queueModel mc"
  "commandQueueCount (drain_switch cur mc) = commandQueueCount mc" "force_drain (drain_switch cur mc) = force_drain mc"
  by (simp_all add: drain_switch_def Let_def)

lemma drain_switch_views [simp]:
  "sub_in a (drain_switch cur mc) = sub_in a mc" "row_open a mux (drain_switch cur mc) = row_open a mux mc"
  "refresh_blocked a (drain_switch cur mc) = refresh_blocked a mc"
  by (simp_all add: sub_in_def row_open_def refresh_blocked_def)

lemma drain_switch_geometry [simp]:
  "GetCommandQueueId env a (drain_switch cur mc) = GetCommandQueueId env a mc" "geometry_ok env (drain_switch cur mc) = geometry_ok env mc"
  by (cases "queueModel mc"; simp add: GetCommandQueueId_def geometry_ok_def Let_def)+

lemma drain_switch_tests [simp]:
  "starved_test env t (drain_switch cur mc) = starved_test env t mc" "row_hit_test env t (drain_switch cur mc) = row_hit_test env t mc"
  "oldest_test env t (drain_switch cur mc) = oldest_test env t mc" "closed_test env t (drain_switch cur mc) = closed_test env t mc"
  by (rule ext, simp add: starved_test_def row_hit_test_def oldest_test_def closed_test_def Let_def cong: if_cong)+

lemma ready_drain_switch [simp]: "ready env test w (drain_switch cur mc) = ready env test w mc"
  by (rule ext) (simp add: ready_def)

lemma drain_switch_search [simp]:
  "search_fine env fine subs qn (w, c, drain_switch cur mc) \<longleftrightarrow> search_fine env fine subs qn (w, c, mc)"
  "best_of [starved_test, row_hit_test, oldest_test, closed_test] env w (drain_switch cur mc) queue
    = best_of [starved_test, row_hit_test, oldest_test, closed_test] env w mc queue"
  "taken qn found (drain_switch cur mc) mc' \<longleftrightarrow> taken qn found mc mc'"
  by (simp_all add: search_fine_def transactions_live_def best_of_def taken_def cong: option.case_cong)

text \<open>The queue a cycle chooses from.\<close>

definition served_queue :: "FRFCFS_WQF \<Rightarrow> bool \<Rightarrow> nat" where
  "served_queue mc draining = (if draining \<or> (force_drain mc \<and> readQueue mc = []) then writeQueueId else readQueueId)"

text \<open>C28: A cycle of the write-draining scheduler in which writes drain chooses from the write queue
  only, and every other cycle from the read queue only - unless a drain is forced and no read
  waits. In either queue it chooses the earliest of the most urgent requests, as the first-ready
  scheduler does; it always returns, only that request leaves its queue, no command queue changes,
  and a request sent by a drain is marked so that nothing may interrupt it. A drain does not begin
  while the writes are below the high watermark, and one under way does not end while they are
  above the low one.\<close>

theorem write_drain_choice:
  fixes w :: World and c :: Bus and mc :: FRFCFS_WQF
  assumes "search_fine (on_bus ben env) (bus_ok ben subs) subs readQueueId (w, c, mc)"
    and "search_fine (on_bus ben env) (bus_ok ben subs) subs writeQueueId (w, c, mc)"
  shows "\<exists>found s' qn. WQF_choose (on_bus ben env) (w, c, mc) = Some (found, s') \<and> qn = served_queue mc (m_draining (mc_of s'))
    \<and> most_urgent (urgency_of (on_bus ben env) w mc) (transactionQueues mc ! qn) found
    \<and> taken qn found mc (mc_of s')
    \<and> (\<forall>r. found = Some r \<and> (m_draining (mc_of s') \<or> force_drain mc) \<longrightarrow>
          (\<exists>req. heap (fst s') r = Some req \<and> has_flag (flags req) FLAG_FORCED))
    \<and> (\<not> m_draining mc \<and> queue_size (transactionQueues mc ! writeQueueId) < wq_HighWaterMark mc \<longrightarrow> \<not> m_draining (mc_of s'))
    \<and> (m_draining mc \<and> wq_LowWaterMark mc < queue_size (transactionQueues mc ! writeQueueId) \<longrightarrow> m_draining (mc_of s'))"
proof -
  let ?mc = "drain_switch (now w) mc" and ?env = "on_bus ben env"
  define qn where "qn = served_queue mc (m_draining ?mc)"
  let ?pick = "if qn = writeQueueId then WQF_choose_write else WQF_choose_read"
  let ?best = "best_of [starved_test, row_hit_test, oldest_test, closed_test] ?env w mc (transactionQueues mc ! qn)"
  have q: "qn = writeQueueId \<and> ?pick = WQF_choose_write \<or> qn = readQueueId \<and> ?pick = WQF_choose_read"
    by (simp add: qn_def served_queue_def writeQueueId_def readQueueId_def)
  then have fine: "search_fine ?env (bus_ok ben subs) subs qn (w, c, mc)"
    using assms by auto
  obtain s1 where s1: "?pick ?env (w, c, ?mc) = Some (?best, s1)" "taken qn ?best mc (mc_of s1)"
      "\<And>r. ?best = Some r \<Longrightarrow> heap (fst s1) r \<noteq> None" "m_draining (mc_of s1) = m_draining ?mc" "force_drain (mc_of s1) = force_drain mc"
    using bus_plain.WQF_choose_queue_best [OF _ q, of ben env subs "(w, c, ?mc)"] fine by auto
  have "\<exists>s'. WQF_choose ?env (w, c, mc) = Some (?best, s') \<and> mc_of s' = mc_of s1
      \<and> (\<forall>r. ?best = Some r \<and> (m_draining ?mc \<or> force_drain mc) \<longrightarrow> (\<exists>req. heap (fst s') r = Some req \<and> has_flag (flags req) FLAG_FORCED))"
    (is "\<exists>s'. ?P s'")
  proof (cases ?best)
    case None
    then show ?thesis
      using s1(1) by (cases s1) (auto simp: WQF_choose_def qn_def served_queue_def Let_def writeQueueId_def readQueueId_def split: if_splits)
  next
    case (Some r)
    then obtain req where "heap (fst s1) r = Some req"
      using s1(3) by auto
    with Some s1(1,4,5) show ?thesis
      by (cases s1) (auto simp: WQF_choose_def qn_def served_queue_def Let_def writeQueueId_def readQueueId_def update_request_def FLAG_FORCED_def split: if_splits)
  qed
  then obtain s' where "?P s'" by blast
  moreover have "most_urgent (urgency_of ?env w mc) (transactionQueues mc ! qn) ?best"
    using best_of_most_urgent [of ?env w mc "transactionQueues mc ! qn"] fine by (simp add: search_fine_def)
  moreover have "\<not> m_draining mc \<and> queue_size (transactionQueues mc ! writeQueueId) < wq_HighWaterMark mc \<longrightarrow> \<not> m_draining ?mc"
    "m_draining mc \<and> wq_LowWaterMark mc < queue_size (transactionQueues mc ! writeQueueId) \<longrightarrow> m_draining ?mc"
    by (auto simp: drain_switch_def Let_def)
  ultimately show ?thesis
    using s1(2,4) by (intro exI [of _ ?best] exI [of _ s'] exI [of _ qn]) (simp add: qn_def)
qed

subsection \<open>Concrete queues\<close>

text \<open>Three requests to row 5: of bank 0, which is closed, and twice of bank 1, where the row is open.\<close>

definition queued :: "OpType \<Rightarrow> uint64 \<Rightarrow> NVMainRequest" where
  "queued ty bk = NVMainRequest_new\<lparr>req_type := ty, address := NVMAddress_at 5 0 bk 0 0 0, arrivalCycle := 3\<rparr>"

definition queued_world :: World where
  "queued_world = World_new\<lparr>heap := [0 \<mapsto> queued READ 0, 1 \<mapsto> queued READ 1, 2 \<mapsto> queued WRITE 1], next_ref := 3,
     evq := EventQueue_new\<lparr>currentCycle := 10\<rparr>\<rparr>"

definition open_banks :: "'z MemoryController_scheme \<Rightarrow> 'z MemoryController_scheme" where
  "open_banks mc = mc\<lparr>commandQueueCount := 16, mc_subArrayNum := 2, activateQueued := (\<lambda>rk bk. bk = 1),
     activeSubArray := (\<lambda>rk bk sa. bk = 1), effectiveRow := (\<lambda>rk bk sa. 5), effectiveMuxedRow := (\<lambda>rk bk sa. 0)\<rparr>"

definition queued_frfcfs :: FRFCFS where
  "queued_frfcfs = (open_banks FRFCFS_new)\<lparr>transactionQueues := [[0, 1, 2]]\<rparr>"

definition queued_wqf :: FRFCFS_WQF where
  "queued_wqf = (open_banks FRFCFS_WQF_new)\<lparr>transactionQueues := [[0, 1], [2]], wq_HighWaterMark := 1, m_draining := True\<rparr>"

lemma queued_request_ok: "request_ok (queued ty bk)"
  by (simp add: queued_def request_ok_def NVMainRequest_new_def)

lemma queued_world_ready: "world_ready queued_world"
proof -
  have "queue_good 3 (EventQueue_new\<lparr>currentCycle := 10\<rparr>)"
    by (simp add: queue_good_def ids_below_def queue_ok_def EventQueue_new_def om_ok_def next_key_def om_first_def)
  then show ?thesis
    by (auto simp: world_ready_def sims_ok_def world_ok_def queued_world_def World_new_def queued_request_ok split: if_splits)
qed

lemma queued_search_fine:
  assumes "mc_subArrayNum mc = 2" and "commandQueueCount mc = 16" and "queueModel mc = PerBankQueues" and "qn < length (transactionQueues mc)"
    and "set (transactionQueues mc ! qn) \<subseteq> {0, 1, 2}"
  shows "search_fine demo_mc_env (bus_ok demo_bus_env 2) 2 qn (queued_world, demo_bus, mc)"
proof -
  have "transactions_live demo_mc_env queued_world mc (transactionQueues mc ! qn)"
    using assms(1,5)
    by (auto simp: transactions_live_def queued_world_def World_new_def queued_def NVMAddress_at_def SetTranslatedAddress_def covered_def bank_in_def
        demo_mc_env_def)
  moreover have "geometry_ok demo_mc_env mc" "RBSize (mc_prm demo_mc_env) \<noteq> 0" "\<not> WritePausing (mc_prm demo_mc_env)"
    using assms(1-3) by (simp_all add: geometry_ok_def demo_mc_env_def Let_def) (simp_all add: demo_bus_env_def Params_new_def)
  ultimately show ?thesis
    using assms queued_world_ready demo_bus_fine by (simp add: search_fine_def)
qed

lemma earliest_urgent:
  assumes "most_urgent u [a, b, c] found" and "u a = Some i" and "u b = Some j" and "u c = Some k" and "j < i" and "j \<le> k"
  shows "found = Some b"
proof (cases found)
  case None
  with assms(1,2) show ?thesis by simp
next
  case (Some r)
  with assms show ?thesis
    by (auto simp: most_urgent_Some Cons_eq_append_conv)
qed

text \<open>The row hit is served before the request that came first.\<close>

theorem frfcfs_choice_witness:
  "\<exists>s'. FRFCFS_choose demo_mc_env (queued_world, demo_bus, queued_frfcfs) = Some (Some 1, s') \<and> transactionQueues (mc_of s') = [[0, 2]]"
proof -
  have fine: "search_fine demo_mc_env (bus_ok demo_bus_env 2) 2 0 (queued_world, demo_bus, queued_frfcfs)"
    by (rule queued_search_fine)
      (simp_all add: queued_frfcfs_def open_banks_def FRFCFS_new_def InitQueues_def MemoryController_new_def MemoryController.defs FRFCFS.defs)
  let ?u = "urgency_of demo_mc_env queued_world queued_frfcfs"
  have u: "?u 0 = Some 3" "?u 1 = Some 1" "?u 2 = Some 1" and q: "transactionQueues queued_frfcfs = [[0, 1, 2]]"
    by code_simp+
  obtain found s' where f: "FRFCFS_choose demo_mc_env (queued_world, demo_bus, queued_frfcfs) = Some (found, s')"
    "most_urgent ?u [0, 1, 2] found" "taken 0 found queued_frfcfs (mc_of s')"
    using frfcfs_choice [OF fine [unfolded demo_mc_env_def], folded demo_mc_env_def] q by auto
  have "found = Some 1"
    by (rule earliest_urgent [OF f(2)]) (use u in auto)
  with f(1,3) q show ?thesis
    by (auto simp: taken_def)
qed

text \<open>In a drain the write goes first, marked.\<close>

theorem write_drain_choice_witness:
  "\<exists>s' req. WQF_choose demo_mc_env (queued_world, demo_bus, queued_wqf) = Some (Some 2, s') \<and> transactionQueues (mc_of s') = [[0, 1], []]
    \<and> m_draining (mc_of s') \<and> heap (fst s') 2 = Some req \<and> has_flag (flags req) FLAG_FORCED"
proof -
  let ?u = "urgency_of demo_mc_env queued_world queued_wqf"
  have c: "transactionQueues queued_wqf = [[0, 1], [2]]" "force_drain queued_wqf = False" "m_draining queued_wqf"
    "wq_LowWaterMark queued_wqf < queue_size [2]" "?u 2 = Some 1"
    by code_simp+
  have fine: "search_fine demo_mc_env (bus_ok demo_bus_env 2) 2 qn (queued_world, demo_bus, queued_wqf)" if "qn < 2" for qn
    by (rule queued_search_fine) (use that in \<open>auto simp: queued_wqf_def open_banks_def FRFCFS_WQF_new_def InitQueues_def MemoryController_new_def
        MemoryController.defs FRFCFS_WQF.defs less_2_cases_iff\<close>)
  have fine2: "search_fine demo_mc_env (bus_ok demo_bus_env 2) 2 readQueueId (queued_world, demo_bus, queued_wqf)"
    "search_fine demo_mc_env (bus_ok demo_bus_env 2) 2 writeQueueId (queued_world, demo_bus, queued_wqf)"
    by (rule fine, simp add: readQueueId_def) (rule fine, simp add: writeQueueId_def)
  obtain found s' qn where f: "WQF_choose demo_mc_env (queued_world, demo_bus, queued_wqf) = Some (found, s')"
    "qn = served_queue queued_wqf (m_draining (mc_of s'))" "most_urgent ?u (transactionQueues queued_wqf ! qn) found"
    "taken qn found queued_wqf (mc_of s')" "m_draining (mc_of s')"
    "found = Some r \<longrightarrow> (\<exists>req. heap (fst s') r = Some req \<and> has_flag (flags req) FLAG_FORCED)" for r
    using write_drain_choice [OF fine2 [unfolded demo_mc_env_def], folded demo_mc_env_def] c by (fastforce simp: writeQueueId_def)
  have qn: "qn = 1"
    using f(2,5) by (simp add: served_queue_def writeQueueId_def)
  have "found = Some 2"
    using f(3) c(1,5) qn by (cases found) (auto simp: most_urgent_Some Cons_eq_append_conv)
  with f c(1) qn show ?thesis
    by (fastforce simp: taken_def)
qed

text \<open>The first-come scheduler does not serve in the order of arrival: a request of an active bank
  goes before an older one of a closed bank.\<close>

definition queued_fcfs :: FCFS where
  "queued_fcfs = (open_banks FCFS_new)\<lparr>transactionQueues := [[0, 1, 2]]\<rparr>"

lemma fcfs_overtakes:
  "\<exists>s'. FCFS_choose demo_mc_env (queued_world, demo_bus, queued_fcfs) = Some (Some 1, s') \<and> transactionQueues (mc_of s') = [[0, 2]]"
proof -
  have fine: "search_fine demo_mc_env (bus_ok demo_bus_env 2) 2 0 (queued_world, demo_bus, queued_fcfs)"
    by (rule queued_search_fine)
      (simp_all add: queued_fcfs_def open_banks_def FCFS_new_def InitQueues_def MemoryController_new_def MemoryController.defs FCFS.defs)
  have "best_of [oldest_test, closed_test] demo_mc_env queued_world queued_fcfs [0, 1, 2] = Some 1" "transactionQueues queued_fcfs = [[0, 1, 2]]"
    by code_simp+
  with bus_plain.FCFS_choose_best [OF fine [unfolded demo_mc_env_def], folded demo_mc_env_def] show ?thesis
    by (auto simp: taken_def)
qed

end
