(* ===== verification/Controller_Config.thy ===== *)
theory Controller_Config
  imports Scheduler_Choice
begin

text \<open>
  The configuration of a memory controller establishes what the scheduling theorems rely on: the
  queues fit the geometry, the refresh groups partition the banks, and no command waits.
\<close>

subsection \<open>Configurations\<close>





subsection \<open>The first refresh pulses\<close>



subsection \<open>A configured controller\<close>





end
