(* ===== verification/Pin_Power.thy ===== *)
theory Pin_Power
  imports Params
begin

text \<open>
  The electrical model of an off-chip data pin, \<^verbatim>\<open>OffChipBus::CalculateIOPower\<close> of
  \<^verbatim>\<open>Interconnect/OffChipBus/OffChipBus.cpp\<close>, over the rationals, and its agreement with the
  resistor networks whose power it is meant to be.
\<close>

subsection \<open>The formulas of the code\<close>

text \<open>\<^verbatim>\<open>OffChipBus::CalculateIOPower\<close>. One rank per DIMM: controller termination and device on
  one node.\<close>

definition pin_power_single :: "rat \<Rightarrow> rat \<Rightarrow> rat \<Rightarrow> rat \<Rightarrow> rat" where
  "pin_power_single Rtt vddq vssq Vdrive =
     (let Rs = 15; Ron = 34;
          Rttpu = Rtt * 2;
          Rttpd = Rtt * 2;
          Rdevice = Rs + Ron;
          Vbus = (vddq / Rttpu + vssq / Rttpd + Vdrive / Rdevice) / (1 / Rttpu + 1 / Rttpd + 1 / Rdevice);
          Ipu = (vddq - Vbus) / Rttpu;
          Ipd = (Vbus - vssq) / Rttpd;
          Ibus = (Vbus - Vdrive) / Rdevice
      in Ipu * Ipu * Rttpu + Ipd * Ipd * Rttpd + Ibus * Ibus * Rdevice)"

text \<open>Several ranks: a read with one terminated rank, by a delta-wye transformation.\<close>

definition pin_power_read :: "rat \<Rightarrow> rat \<Rightarrow> rat \<Rightarrow> rat \<Rightarrow> bool \<Rightarrow> rat" where
  "pin_power_read rtt_cont rtt_nom vddq vssq high =
     (let Rs = 15; Ron = 34;
          Rdevice = Rs + Ron;
          Rttpu = rtt_cont * 2;
          Rttpd = rtt_cont * 2;
          Rothpu = rtt_nom * 2;
          Rothpd = rtt_nom * 2;
          R1 = (if high then 1 / (1 / Rttpu + 1 / Rdevice) else Rttpu);
          R2 = (if high then Rttpd else 1 / (1 / Rttpu + 1 / Rdevice));
          R3 = Rs;
          R4 = Rothpu;
          R5 = Rothpd;
          RP = R3 * R4 + R4 * R5 + R5 * R3;
          RB = RP / R5;
          RC = RP / R4;
          RX = 1 / (1 / R1 + 1 / RB);
          RY = 1 / (1 / R2 + 1 / RC);
          Ibus = (vddq - vssq) / (RX + RY);
          Vbus = vssq + Ibus * RY;
          Vterm = - 1 * R3 * ((vddq - Vbus) / R1 - (Vbus - vssq) / R2) + Vbus;
          I1 = (vddq - Vbus) / R1;
          I2 = (Vbus - vssq) / R2;
          I3 = (Vbus - Vterm) / R3;
          I4 = (vddq - Vterm) / R4;
          I5 = (Vterm - vssq) / R5
      in I1 * I1 * R1 + I2 * I2 * R2 + I3 * I3 * R3 + I4 * I4 * R4 + I5 * I5 * R5)"

definition pin_power_write :: "rat \<Rightarrow> rat \<Rightarrow> rat \<Rightarrow> rat \<Rightarrow> rat \<Rightarrow> rat" where
  "pin_power_write rtt_wr rtt_nom vddq vssq Vwrite =
     (let Rttpu = rtt_wr * 2;
          Rttpd = rtt_wr * 2;
          Rothpu = rtt_nom * 2;
          Rothpd = rtt_nom * 2;
          Rs = 15; Ron = 34;
          RPL = Rothpu * Rothpd + Rothpd * Rs + Rs * Rothpu;
          RAL = RPL / Rothpd;
          RBL = RPL / Rothpu;
          RPR = Rttpu * Rttpd + Rttpd * Rs + Rs * Rttpu;
          RAR = RPR / Rttpd;
          RBR = RPR / Rttpu;
          Vbus = (vssq / RBL + vssq / RBR + vddq / RAL + vddq / RAR + Vwrite / Ron)
                 / (1 / RBL + 1 / RBR + 1 / RAL + 1 / RAR + 1 / Ron);
          Vterm = (vddq / Rttpu + vssq / Rttpd + Vbus / Rs) / (1 / Rttpu + 1 / Rttpd + 1 / Rs);
          Voterm = (vddq / Rothpu + vssq / Rothpd + Vbus / Rs) / (1 / Rothpu + 1 / Rothpd + 1 / Rs);
          Ittpu = (vddq - Vterm) / Rttpu;
          Ittpd = (Vterm - vssq) / Rttpd;
          Iothpu = (vddq - Voterm) / Rothpu;
          Iothpd = (Voterm - vssq) / Rothpd;
          Irs1 = (Vbus - Vterm) / Rs;
          Irs2 = (Vbus - Voterm) / Rs;
          Ibus = (Vwrite - Vbus) / Ron
      in Ittpu * Ittpu * Rttpu + Ittpd * Ittpd * Rttpd + Iothpu * Iothpu * Rothpu + Iothpd * Iothpd * Rothpd
         + Irs1 * Irs1 * Rs + Irs2 * Irs2 * Rs + Ibus * Ibus * Ron)"

text \<open>The parameters are \<^verbatim>\<open>int\<close>s assigned to \<^verbatim>\<open>unsigned int\<close>s.\<close>

definition unsigned32 :: "int \<Rightarrow> int" where
  "unsigned32 i = i mod 2 ^ 32"

definition CalculateIOPower :: "Params \<Rightarrow> bool \<Rightarrow> uint32 \<Rightarrow> rat" where
  "CalculateIOPower p isRead bitValue =
     (let rtt_nom = of_int (unsigned32 (Rtt_nom p));
          rtt_wr = of_int (unsigned32 (Rtt_wr p));
          rtt_cont = of_int (unsigned32 (Rtt_cont p));
          vddq = Vddq p;
          vssq = Vssq p;
          ranksPerDimm = unsigned32 (RanksPerDIMM p);
          V = (if bitValue = 0 then vssq else vddq)
      in if ranksPerDimm = 1
         then (if isRead then pin_power_single rtt_nom vddq vssq V else pin_power_single rtt_wr vddq vssq V)
         else if ranksPerDimm = 2 \<or> ranksPerDimm = 3 \<or> ranksPerDimm = 4
         then (if isRead then pin_power_read rtt_cont rtt_nom vddq vssq (bitValue \<noteq> 0)
               else pin_power_write rtt_wr rtt_nom vddq vssq V)
         else 0)"

subsection \<open>The pins as a resistor network\<close>

text \<open>A node of a network: the voltages it is connected to and the resistors in between.
  Kirchhoff's law: the currents into the node add up to zero.\<close>

definition balanced :: "rat \<Rightarrow> (rat \<times> rat) list \<Rightarrow> bool" where
  "balanced V arms \<longleftrightarrow> (\<Sum>(u, R)\<leftarrow>arms. (u - V) / R) = 0"

definition heat :: "rat \<Rightarrow> (rat \<times> rat) list \<Rightarrow> rat" where
  "heat V arms = (\<Sum>(u, R)\<leftarrow>arms. (u - V) * (u - V) / R)"

lemma balanced_unique:
  assumes "balanced V arms" and "(\<Sum>(u, R)\<leftarrow>arms. 1 / R) \<noteq> 0"
  shows "V = (\<Sum>(u, R)\<leftarrow>arms. u / R) / (\<Sum>(u, R)\<leftarrow>arms. 1 / R)"
proof -
  have "(\<Sum>(u, R)\<leftarrow>arms. (u - V) / R) = (\<Sum>(u, R)\<leftarrow>arms. u / R) - V * (\<Sum>(u, R)\<leftarrow>arms. 1 / R)"
    by (induction arms) (auto simp: algebra_simps diff_divide_distrib)
  then show ?thesis
    using assms by (simp add: balanced_def field_simps)
qed

text \<open>An inner node with three arms acts on a neighbour like two direct resistors.\<close>

lemma star_arm:
  fixes a b c :: rat
  assumes "0 < a" and "0 < b" and "0 < c" and "balanced V [(x, a), (y, b), (z, c)]"
  shows "(V - z) / c = (x - z) / ((a * b + b * c + c * a) / b) + (y - z) / ((a * b + b * c + c * a) / a)"
proof -
  let ?P = "a * b + b * c + c * a"
  have P: "0 < ?P"
    using assms(1-3) by (simp add: add_pos_pos)
  have "(x - V) / a + (y - V) / b + (z - V) / c = 0"
    using assms(4) by (simp add: balanced_def)
  then have "(x - V) * (b * c) + (y - V) * (a * c) + (z - V) * (a * b) = 0"
    using assms(1-3) by (simp add: field_simps)
  then have "V * ?P = x * (b * c) + y * (a * c) + z * (a * b)"
    by (simp add: algebra_simps)
  then have "(V - z) * ?P = c * ((x - z) * b + (y - z) * a)"
    by (simp add: algebra_simps)
  then have "(V - z) / c = ((x - z) * b + (y - z) * a) / ?P"
    using P assms(3) by (simp add: field_simps)
  moreover have "((x - z) * b + (y - z) * a) / Q = (x - z) / (Q / b) + (y - z) / (Q / a)" for Q
    by (simp add: add_divide_distrib)
  ultimately show ?thesis by metis
qed

text \<open>The heat of a resistor from the current through it, in either direction.\<close>

lemma ohm:
  fixes u v R :: rat
  assumes "0 < R"
  shows "(u - v) / R * ((u - v) / R) * R = (u - v) * (u - v) / R" "(v - u) / R * ((v - u) / R) * R = (u - v) * (u - v) / R"
  using assms by (simp_all add: field_simps)

lemma pin_power_single_heat:
  assumes "0 < Rtt" and "balanced V [(vddq, Rtt * 2), (vssq, Rtt * 2), (Vdrive, 15 + 34)]"
  shows "pin_power_single Rtt vddq vssq Vdrive = heat V [(vddq, Rtt * 2), (vssq, Rtt * 2), (Vdrive, 15 + 34)]"
proof -
  have R: "0 < Rtt * 2" "0 < 15 + (34 :: rat)"
    using assms(1) by simp_all
  have "0 < 1 / (Rtt * 2) + 1 / (Rtt * 2) + 1 / (15 + 34 :: rat)"
    using R by (intro add_pos_pos divide_pos_pos) simp_all
  then have V: "(vddq / (Rtt * 2) + vssq / (Rtt * 2) + Vdrive / (15 + 34)) / (1 / (Rtt * 2) + 1 / (Rtt * 2) + 1 / (15 + 34)) = V"
    using balanced_unique [OF assms(2)] by (simp add: add.assoc)
  show ?thesis
    unfolding pin_power_single_def Let_def V heat_def list.map prod.case sum_list.Cons sum_list.Nil add_0_right
      ohm(1) [OF R(1), of vddq V] ohm(2) [OF R(1), of V vssq] ohm(2) [OF R(2), of V Vdrive] by (rule add.assoc)
qed

text \<open>Two nodes: the bus with the controller's termination and the reading device, and the
  terminated rank behind its series resistor.\<close>

lemma pin_power_read_heat:
  assumes R: "0 < rtt_cont" "0 < rtt_nom" and dev: "Vdev = (if high then vddq else vssq)"
    and bus: "balanced Vb [(vddq, rtt_cont * 2), (vssq, rtt_cont * 2), (Vdev, 15 + 34), (Vt, 15)]"
    and trm: "balanced Vt [(vddq, rtt_nom * 2), (vssq, rtt_nom * 2), (Vb, 15)]"
  shows "pin_power_read rtt_cont rtt_nom vddq vssq high =
    heat Vb [(vddq, rtt_cont * 2), (vssq, rtt_cont * 2), (Vdev, 15 + 34), (Vt, 15)] + heat Vt [(vddq, rtt_nom * 2), (vssq, rtt_nom * 2)]"
proof -
  define c where "c = rtt_cont * 2"
  define t where "t = rtt_nom * 2"
  define R1 where "R1 = (if high then 1 / (1 / c + 1 / (15 + 34)) else c)"
  define R2 where "R2 = (if high then c else 1 / (1 / c + 1 / (15 + 34)))"
  define RP where "RP = 15 * t + t * t + t * 15"
  define RX where "RX = 1 / (1 / R1 + 1 / (RP / t))"
  define RY where "RY = 1 / (1 / R2 + 1 / (RP / t))"
  have pos: "0 < c" "0 < t" "0 < R1" "0 < R2" "0 < RP"
    using R by (auto simp: c_def t_def R1_def R2_def RP_def intro!: add_pos_pos divide_pos_pos)
  have D: "0 < RP / t"
    using pos by simp
  have pos': "0 < 1 / R1 + 1 / (RP / t)" "0 < 1 / R2 + 1 / (RP / t)"
    using pos D by (intro add_pos_pos divide_pos_pos; simp)+
  have g: "1 / R1 = 1 / c + (if high then 1 / (15 + 34) else 0)" "1 / R2 = 1 / c + (if high then 0 else 1 / (15 + 34))"
    by (auto simp: R1_def R2_def)
  have g1: "x / R1 = x / c + (if high then x / (15 + 34) else 0)" for x
    using arg_cong [OF g(1), of "\<lambda>k. x * k"] by (simp add: distrib_left split: if_splits)
  have g2: "x / R2 = x / c + (if high then 0 else x / (15 + 34))" for x
    using arg_cong [OF g(2), of "\<lambda>k. x * k"] by (simp add: distrib_left split: if_splits)
  have node: "(vddq - Vb) / R1 + (vssq - Vb) / R2 = (vddq - Vb) / c + (vssq - Vb) / c + (Vdev - Vb) / (15 + 34)"
    unfolding g1 g2 dev by (cases high) simp_all
  have arm: "(Vt - Vb) / 15 = (vddq - Vb) / (RP / t) + (vssq - Vb) / (RP / t)"
    using star_arm [OF pos(2) pos(2), of 15 Vt vddq vssq Vb] trm by (simp add: RP_def t_def add_ac)
  have kcl: "(vddq - Vb) / R1 + (vssq - Vb) / R2 + (Vt - Vb) / 15 = 0"
    using bus node by (simp add: balanced_def c_def)
  have "(vddq - Vb) * (1 / R1 + 1 / (RP / t)) = (Vb - vssq) * (1 / R2 + 1 / (RP / t))"
  proof -
    have split: "(vddq - Vb) * (i + k) = (Vb - vssq) * (j + k)"
      if "(vddq - Vb) * i + (vssq - Vb) * j + ((vddq - Vb) * k + (vssq - Vb) * k) = 0" for i j k
      using that by (simp add: algebra_simps)
    show ?thesis
      by (rule split) (use kcl in \<open>simp only: arm times_divide_eq_right mult_1_right\<close>)
  qed
  then have "(vddq - Vb) / RX = (Vb - vssq) / RY"
    by (simp add: RX_def RY_def)
  moreover have X: "0 < RX" "0 < RY"
    using pos' by (simp_all add: RX_def RY_def)
  ultimately have "(vddq - vssq) / (RX + RY) * RY = Vb - vssq"
    by (simp add: field_simps)
  then have Vb: "vssq + (vddq - vssq) / (RX + RY) * RY = Vb" by simp
  have Vt: "- 1 * 15 * ((vddq - Vb) / R1 - (Vb - vssq) / R2) + Vb = Vt"
  proof -
    have "- 1 * 15 * (p - q) + Vb = Vt" if "p + - q + (Vt - Vb) / 15 = 0" for p q
      using that by (simp add: field_simps)
    moreover have "(vssq - Vb) / R2 = - ((Vb - vssq) / R2)"
      by (simp add: minus_divide_left)
    ultimately show ?thesis
      using kcl by metis
  qed
  have merged: "(vddq - Vb) * (vddq - Vb) / R1 + (vssq - Vb) * (vssq - Vb) / R2 =
      (vddq - Vb) * (vddq - Vb) / c + (vssq - Vb) * (vssq - Vb) / c + (Vdev - Vb) * (Vdev - Vb) / (15 + 34)"
    unfolding g1 g2 dev by (cases high) simp_all
  have "pin_power_read rtt_cont rtt_nom vddq vssq high =
      (vddq - Vb) / R1 * ((vddq - Vb) / R1) * R1 + (Vb - vssq) / R2 * ((Vb - vssq) / R2) * R2
      + (Vb - Vt) / 15 * ((Vb - Vt) / 15) * 15 + (vddq - Vt) / t * ((vddq - Vt) / t) * t + (Vt - vssq) / t * ((Vt - vssq) / t) * t"
    unfolding pin_power_read_def Let_def c_def [symmetric] t_def [symmetric] R1_def [symmetric] R2_def [symmetric] RP_def [symmetric]
      RX_def [symmetric] RY_def [symmetric] Vb Vt ..
  also have "\<dots> = (vddq - Vb) * (vddq - Vb) / R1 + (vssq - Vb) * (vssq - Vb) / R2 + (Vt - Vb) * (Vt - Vb) / 15
      + (vddq - Vt) * (vddq - Vt) / t + (vssq - Vt) * (vssq - Vt) / t"
    unfolding ohm(1) [OF pos(3), of vddq Vb] ohm(2) [OF pos(4), of Vb vssq] ohm(1) [OF pos(2), of vddq Vt]
      ohm(2) [OF pos(2), of Vt vssq] ohm(2) [OF zero_less_numeral, of Vb Vt] ..
  finally show ?thesis
    using merged by (simp add: heat_def c_def t_def)
qed


lemma pin_power_write_heat:
  assumes R: "0 < rtt_wr" "0 < rtt_nom"
    and bus: "balanced Vb [(Vw, 34), (Vt, 15), (Vo, 15)]"
    and trm: "balanced Vt [(vddq, rtt_wr * 2), (vssq, rtt_wr * 2), (Vb, 15)]"
    and oth: "balanced Vo [(vddq, rtt_nom * 2), (vssq, rtt_nom * 2), (Vb, 15)]"
  shows "pin_power_write rtt_wr rtt_nom vddq vssq Vw =
    heat Vb [(Vw, 34)] + heat Vt [(vddq, rtt_wr * 2), (vssq, rtt_wr * 2), (Vb, 15)] + heat Vo [(vddq, rtt_nom * 2), (vssq, rtt_nom * 2), (Vb, 15)]"
proof -
  define w where "w = rtt_wr * 2"
  define t where "t = rtt_nom * 2"
  define PL where "PL = t * t + t * 15 + 15 * t"
  define PR where "PR = w * w + w * 15 + 15 * w"
  have pos: "0 < w" "0 < t" "0 < PL" "0 < PR"
    using R by (auto simp: w_def t_def PL_def PR_def intro!: add_pos_pos)
  have D: "0 < PL / t" "0 < PR / w"
    using pos by simp_all
  have node: "(Vt - Vb) / 15 = (vddq - Vb) / (PR / w) + (vssq - Vb) / (PR / w)"
      "(Vo - Vb) / 15 = (vddq - Vb) / (PL / t) + (vssq - Vb) / (PL / t)"
    using star_arm [OF pos(1) pos(1), of 15 Vt vddq vssq Vb] trm star_arm [OF pos(2) pos(2), of 15 Vo vddq vssq Vb] oth
    by (simp_all add: PR_def PL_def w_def t_def)
  have "balanced Vb [(vssq, PL / t), (vssq, PR / w), (vddq, PL / t), (vddq, PR / w), (Vw, 34)]"
    using bus unfolding balanced_def list.map prod.case sum_list.Cons sum_list.Nil node by (simp only: add_0_right add_ac)
  note Vb = balanced_unique [OF this]
  have "0 < 1 / (PL / t) + 1 / (PR / w) + 1 / (PL / t) + 1 / (PR / w) + 1 / (34 :: rat)"
    using pos by (intro add_pos_pos divide_pos_pos) simp_all
  then have Vb': "(vssq / (PL / t) + vssq / (PR / w) + vddq / (PL / t) + vddq / (PR / w) + Vw / 34)
      / (1 / (PL / t) + 1 / (PR / w) + 1 / (PL / t) + 1 / (PR / w) + 1 / 34) = Vb"
    using Vb by (simp only: list.map prod.case sum_list.Cons sum_list.Nil add_0_right add.assoc)
  have term_node: "(vddq / r + vssq / r + Vb / 15) / (1 / r + 1 / r + 1 / 15) = V"
    if "0 < r" "balanced V [(vddq, r), (vssq, r), (Vb, 15)]" for r V
  proof -
    have "0 < 1 / r + 1 / r + 1 / (15 :: rat)"
      using that(1) by (intro add_pos_pos divide_pos_pos) simp_all
    then show ?thesis
      using balanced_unique [OF that(2)] by (simp only: list.map prod.case sum_list.Cons sum_list.Nil add_0_right add.assoc)
  qed
  have Vt: "(vddq / w + vssq / w + Vb / 15) / (1 / w + 1 / w + 1 / 15) = Vt"
    using term_node [OF pos(1)] trm by (simp add: w_def)
  have Vo: "(vddq / t + vssq / t + Vb / 15) / (1 / t + 1 / t + 1 / 15) = Vo"
    using term_node [OF pos(2)] oth by (simp add: t_def)
  show ?thesis
    unfolding pin_power_write_def Let_def w_def [symmetric] t_def [symmetric] PL_def [symmetric] PR_def [symmetric] Vb' Vt Vo
      ohm(1) [OF pos(1), of vddq Vt] ohm(2) [OF pos(1), of Vt vssq] ohm(1) [OF pos(2), of vddq Vo] ohm(2) [OF pos(2), of Vo vssq]
      ohm(1) [OF zero_less_numeral, of Vb Vt] ohm(1) [OF zero_less_numeral, of Vb Vo] ohm(1) [OF zero_less_numeral, of Vw Vb]
      heat_def list.map prod.case sum_list.Cons sum_list.Nil add_0_right
    by (simp only: add_ac)
qed

text \<open>The circuits themselves: the nodes of a pin, the resistors between them, the laws of a
  voltage assignment and the power the resistors dissipate.\<close>

datatype pin_node = Supply | Ground | Driver | Wire | Termination | Other_Termination

definition pin_circuit :: "Params \<Rightarrow> bool \<Rightarrow> (pin_node \<times> pin_node \<times> rat) list" where
  "pin_circuit p isRead =
     (let nom = of_int (Rtt_nom p) * 2; wr = of_int (Rtt_wr p) * 2; cont = of_int (Rtt_cont p) * 2
      in if RanksPerDIMM p = 1
         then (let r = (if isRead then nom else wr) in [(Supply, Wire, r), (Ground, Wire, r), (Driver, Wire, 15 + 34)])
         else if isRead
         then [(Supply, Wire, cont), (Ground, Wire, cont), (Driver, Wire, 15 + 34), (Wire, Termination, 15),
               (Supply, Termination, nom), (Ground, Termination, nom)]
         else [(Driver, Wire, 34), (Wire, Termination, 15), (Supply, Termination, wr), (Ground, Termination, wr),
               (Wire, Other_Termination, 15), (Supply, Other_Termination, nom), (Ground, Other_Termination, nom)])"

definition current_into :: "(pin_node \<times> pin_node \<times> rat) list \<Rightarrow> (pin_node \<Rightarrow> rat) \<Rightarrow> pin_node \<Rightarrow> rat" where
  "current_into circuit v n =
     (\<Sum>(a, b, R)\<leftarrow>circuit. (if b = n then (v a - v b) / R else 0) + (if a = n then (v b - v a) / R else 0))"

definition kirchhoff :: "(pin_node \<times> pin_node \<times> rat) list \<Rightarrow> (pin_node \<Rightarrow> rat) \<Rightarrow> bool" where
  "kirchhoff circuit v \<longleftrightarrow>
     current_into circuit v Wire = 0 \<and> current_into circuit v Termination = 0 \<and> current_into circuit v Other_Termination = 0"

definition dissipation :: "(pin_node \<times> pin_node \<times> rat) list \<Rightarrow> (pin_node \<Rightarrow> rat) \<Rightarrow> rat" where
  "dissipation circuit v = (\<Sum>(a, b, R)\<leftarrow>circuit. (v a - v b) * (v a - v b) / R)"

lemma square_diff_commute: "(a - b) * (a - b) = (b - a) * (b - a)" for a b :: rat
  by (simp add: algebra_simps)

lemma unsigned32_small: "0 \<le> i \<Longrightarrow> i < 2 ^ 32 \<Longrightarrow> unsigned32 i = i"
  by (simp add: unsigned32_def)

lemma single_dissipation:
  assumes "RanksPerDIMM p = 1" and "kirchhoff (pin_circuit p isRead) v"
    and R: "0 < (if isRead then Rtt_nom p else Rtt_wr p)"
  shows "pin_power_single (of_int (if isRead then Rtt_nom p else Rtt_wr p)) (v Supply) (v Ground) (v Driver) = dissipation (pin_circuit p isRead) v"
proof -
  let ?r = "of_int (if isRead then Rtt_nom p else Rtt_wr p) :: rat"
  have c: "pin_circuit p isRead = [(Supply, Wire, ?r * 2), (Ground, Wire, ?r * 2), (Driver, Wire, 15 + 34)]"
    using assms(1) by (simp add: pin_circuit_def Let_def)
  have "balanced (v Wire) [(v Supply, ?r * 2), (v Ground, ?r * 2), (v Driver, 15 + 34)]"
    using assms(2) unfolding c by (simp add: kirchhoff_def current_into_def balanced_def)
  moreover have "0 < ?r"
    using R by simp
  ultimately show ?thesis
    unfolding c using pin_power_single_heat by (simp add: dissipation_def heat_def)
qed

lemma read_dissipation:
  assumes "RanksPerDIMM p \<noteq> 1" and "kirchhoff (pin_circuit p True) v" and R: "0 < Rtt_cont p" "0 < Rtt_nom p"
    and d: "v Driver = (if high then v Supply else v Ground)"
  shows "pin_power_read (of_int (Rtt_cont p)) (of_int (Rtt_nom p)) (v Supply) (v Ground) high = dissipation (pin_circuit p True) v"
proof -
  let ?c = "of_int (Rtt_cont p) :: rat" and ?n = "of_int (Rtt_nom p) :: rat"
  have c: "pin_circuit p True = [(Supply, Wire, ?c * 2), (Ground, Wire, ?c * 2), (Driver, Wire, 15 + 34), (Wire, Termination, 15),
      (Supply, Termination, ?n * 2), (Ground, Termination, ?n * 2)]"
    using assms(1) by (simp add: pin_circuit_def Let_def)
  have "balanced (v Wire) [(v Supply, ?c * 2), (v Ground, ?c * 2), (v Driver, 15 + 34), (v Termination, 15)]"
    "balanced (v Termination) [(v Supply, ?n * 2), (v Ground, ?n * 2), (v Wire, 15)]"
    using assms(2) unfolding c by (simp_all add: kirchhoff_def current_into_def balanced_def)
  moreover have "0 < ?c" "0 < ?n"
    using R by simp_all
  ultimately have "pin_power_read ?c ?n (v Supply) (v Ground) high =
      heat (v Wire) [(v Supply, ?c * 2), (v Ground, ?c * 2), (v Driver, 15 + 34), (v Termination, 15)]
      + heat (v Termination) [(v Supply, ?n * 2), (v Ground, ?n * 2)]"
    using pin_power_read_heat d by metis
  then show ?thesis
    unfolding c dissipation_def heat_def list.map prod.case sum_list.Cons sum_list.Nil add_0_right
    by (simp only: add_ac square_diff_commute [of "v Wire" "v Termination"])
qed

lemma write_dissipation:
  assumes "RanksPerDIMM p \<noteq> 1" and "kirchhoff (pin_circuit p False) v" and R: "0 < Rtt_wr p" "0 < Rtt_nom p"
  shows "pin_power_write (of_int (Rtt_wr p)) (of_int (Rtt_nom p)) (v Supply) (v Ground) (v Driver) = dissipation (pin_circuit p False) v"
proof -
  let ?w = "of_int (Rtt_wr p) :: rat" and ?n = "of_int (Rtt_nom p) :: rat"
  have c: "pin_circuit p False = [(Driver, Wire, 34), (Wire, Termination, 15), (Supply, Termination, ?w * 2), (Ground, Termination, ?w * 2),
      (Wire, Other_Termination, 15), (Supply, Other_Termination, ?n * 2), (Ground, Other_Termination, ?n * 2)]"
    using assms(1) by (simp add: pin_circuit_def Let_def)
  have "balanced (v Wire) [(v Driver, 34), (v Termination, 15), (v Other_Termination, 15)]"
    "balanced (v Termination) [(v Supply, ?w * 2), (v Ground, ?w * 2), (v Wire, 15)]"
    "balanced (v Other_Termination) [(v Supply, ?n * 2), (v Ground, ?n * 2), (v Wire, 15)]"
    using assms(2) unfolding c by (simp_all add: kirchhoff_def current_into_def balanced_def)
  moreover have "0 < ?w" "0 < ?n"
    using R by simp_all
  ultimately have "pin_power_write ?w ?n (v Supply) (v Ground) (v Driver) = heat (v Wire) [(v Driver, 34)]
      + heat (v Termination) [(v Supply, ?w * 2), (v Ground, ?w * 2), (v Wire, 15)]
      + heat (v Other_Termination) [(v Supply, ?n * 2), (v Ground, ?n * 2), (v Wire, 15)]"
    using pin_power_write_heat by metis
  then show ?thesis
    unfolding c dissipation_def heat_def list.map prod.case sum_list.Cons sum_list.Nil add_0_right
    by (simp only: add_ac)
qed

definition electrical :: "Params \<Rightarrow> bool" where
  "electrical p \<longleftrightarrow> Rtt_nom p \<in> {0<..<2 ^ 32} \<and> Rtt_wr p \<in> {0<..<2 ^ 32} \<and> Rtt_cont p \<in> {0<..<2 ^ 32} \<and> RanksPerDIMM p \<in> {1..4}"

text \<open>C26: The closed formulas of the off-chip bus for the power of a data pin, derived in the code
  by Millman's theorem and delta-wye transformations case by case, are the power that the pin's
  resistors dissipate under every assignment of voltages to the nodes of its circuit that
  respects Kirchhoff's current law at the inner nodes, with the driver at the supply voltage for a
  one bit and at ground for a zero bit.\<close>

theorem io_power_is_dissipation:
  assumes "electrical p"
    and "v Supply = Vddq p" and "v Ground = Vssq p" and "v Driver = (if bitValue = 0 then Vssq p else Vddq p)"
    and "kirchhoff (pin_circuit p isRead) v"
  shows "CalculateIOPower p isRead bitValue = dissipation (pin_circuit p isRead) v"
proof -
  have u: "unsigned32 (Rtt_nom p) = Rtt_nom p" "unsigned32 (Rtt_wr p) = Rtt_wr p" "unsigned32 (Rtt_cont p) = Rtt_cont p"
      "unsigned32 (RanksPerDIMM p) = RanksPerDIMM p"
    and pos: "0 < Rtt_nom p" "0 < Rtt_wr p" "0 < Rtt_cont p"
    using assms(1) by (auto simp: electrical_def unsigned32_small)
  have ranks: "RanksPerDIMM p = 1 \<or> RanksPerDIMM p = 2 \<or> RanksPerDIMM p = 3 \<or> RanksPerDIMM p = 4"
    using assms(1) by (auto simp: electrical_def)
  show ?thesis
  proof (cases "RanksPerDIMM p = 1")
    case True
    then show ?thesis
      using single_dissipation [of p isRead v] pos assms(2-5) by (auto simp: CalculateIOPower_def Let_def u unsigned32_small)
  next
    case False
    then show ?thesis
      using read_dissipation [OF False, of v "bitValue \<noteq> 0"] write_dissipation [OF False, of v] pos ranks assms(2-5)
      by (cases isRead) (auto simp: CalculateIOPower_def Let_def u unsigned32_small)
  qed
qed

definition example_pin :: "pin_node \<Rightarrow> rat" where
  "example_pin n = (case n of Supply \<Rightarrow> 3 / 2 | Ground \<Rightarrow> 0 | Driver \<Rightarrow> 0 | Wire \<Rightarrow> 3 / 8 * 68 / 83 | Termination \<Rightarrow> 3 / 8 | Other_Termination \<Rightarrow> 3 / 8)"

definition example_dimm :: Params where
  "example_dimm = Params_new\<lparr>Rtt_nom := 83, Rtt_wr := 83, RanksPerDIMM := 2\<rparr>"

theorem io_power_is_dissipation_witness:
  "electrical example_dimm \<and> kirchhoff (pin_circuit example_dimm False) example_pin
    \<and> CalculateIOPower example_dimm False 0 = dissipation (pin_circuit example_dimm False) example_pin
    \<and> 0 < CalculateIOPower example_dimm False 0"
proof -
  have e: "electrical example_dimm"
    by (simp add: electrical_def example_dimm_def Params_new_def)
  have k: "kirchhoff (pin_circuit example_dimm False) example_pin"
    by (simp add: kirchhoff_def pin_circuit_def current_into_def example_pin_def example_dimm_def Params_new_def)
  have "CalculateIOPower example_dimm False 0 = dissipation (pin_circuit example_dimm False) example_pin"
    by (rule io_power_is_dissipation [OF e _ _ _ k]) (simp_all add: example_pin_def example_dimm_def Params_new_def)
  moreover have "0 < dissipation (pin_circuit example_dimm False) example_pin"
    by (simp add: dissipation_def pin_circuit_def example_pin_def example_dimm_def Params_new_def)
  ultimately show ?thesis
    using e k by simp
qed

end
