(* ===== verification/Cache_Bank.thy ===== *)
theory Cache_Bank
  imports Memory_World
begin

text \<open>
  The set-associative cache the DRAM caches and the cached bank are built from
  (\<^verbatim>\<open>Utils/Caches/CacheBank.cpp\<close>). The entries of a set are kept in order of use: position 0
  is the most recently used line and the last position the next victim.

  The first half is the code; the second half shows that a set behaves as a bounded store of
  lines by address with a recency order, and where the code does not.
\<close>

subsection \<open>State\<close>

datatype CacheState = CACHE_IDLE | CACHE_BUSY

datatype CacheOperation = CACHE_NONE | CACHE_READ | CACHE_WRITE | CACHE_SCRUB | CACHE_EVICT

record CacheRequest =
  optype :: CacheOperation
  cr_address :: NVMAddress
  cr_endAddr :: NVMAddress
  cr_data :: NVMDataBlock
  cr_hit :: bool
  cr_owner :: "nat option"
  originalRequest :: "nat option"

definition CACHE_ENTRY_NONE :: uint64 where "CACHE_ENTRY_NONE = 0"
definition CACHE_ENTRY_VALID :: uint64 where "CACHE_ENTRY_VALID = 1"
definition CACHE_ENTRY_DIRTY :: uint64 where "CACHE_ENTRY_DIRTY = 2"

record CacheEntry =
  ce_flags :: uint64
  ce_address :: NVMAddress
  ce_data :: NVMDataBlock

definition CacheEntry_new :: CacheEntry where
  "CacheEntry_new = \<lparr>ce_flags = CACHE_ENTRY_NONE, ce_address = NVMAddress_new, ce_data = NVMDataBlock_new\<rparr>"

text \<open>\<open>decodeFunc\<close> stands for the pair of the decoder object and its member function.\<close>

record CacheBank =
  numRows :: uint64
  numSets :: uint64
  numAssoc :: uint64
  cachelineSize :: uint64
  cacheEntry :: "CacheEntry list list list"
  stateTimer :: uint64
  cb_readTime :: uint64
  cb_writeTime :: uint64
  cb_state :: CacheState
  decodeFunc :: "NVMAddress \<Rightarrow> uint64"
  isMissMap :: bool

definition DefaultDecoder :: "uint64 \<Rightarrow> NVMAddress \<Rightarrow> uint64" where
  "DefaultDecoder sets addr = col addr mod sets"

definition CacheBank_new :: "uint64 \<Rightarrow> uint64 \<Rightarrow> uint64 \<Rightarrow> uint64 \<Rightarrow> CacheBank" where
  "CacheBank_new rows sets assoc lineSize = \<lparr>numRows = rows, numSets = sets, numAssoc = assoc, cachelineSize = lineSize,
     cacheEntry = replicate (unat rows) (replicate (unat sets) (replicate (unat assoc) CacheEntry_new)),
     stateTimer = 0, cb_readTime = 1, cb_writeTime = 1, cb_state = CACHE_IDLE, decodeFunc = DefaultDecoder sets, isMissMap = False\<rparr>"

definition SetDecodeFunction :: "(NVMAddress \<Rightarrow> uint64) \<Rightarrow> CacheBank \<Rightarrow> CacheBank" where
  "SetDecodeFunction dcFunc cb = cb\<lparr>decodeFunc := dcFunc\<rparr>"

definition SetReadTime :: "uint64 \<Rightarrow> CacheBank \<Rightarrow> CacheBank" where
  "SetReadTime t cb = cb\<lparr>cb_readTime := t\<rparr>"

definition SetWriteTime :: "uint64 \<Rightarrow> CacheBank \<Rightarrow> CacheBank" where
  "SetWriteTime t cb = cb\<lparr>cb_writeTime := t\<rparr>"

definition SetID :: "NVMAddress \<Rightarrow> CacheBank \<Rightarrow> uint64" where
  "SetID addr cb = decodeFunc cb addr"

text \<open>A row or a set outside the arrays is \<open>None\<close>. \<open>store_set\<close> writes a set back, which the code
  does through the pointer \<^verbatim>\<open>FindSet\<close> returns.\<close>

definition FindSet :: "NVMAddress \<Rightarrow> CacheBank \<Rightarrow> CacheEntry list option" where
  "FindSet addr cb =
     (if unat (row addr) < length (cacheEntry cb) \<and> unat (SetID addr cb) < length (cacheEntry cb ! unat (row addr))
      then Some (cacheEntry cb ! unat (row addr) ! unat (SetID addr cb)) else None)"

definition store_set :: "NVMAddress \<Rightarrow> CacheEntry list \<Rightarrow> CacheBank \<Rightarrow> CacheBank" where
  "store_set addr s cb =
     cb\<lparr>cacheEntry := (cacheEntry cb)[unat (row addr) := (cacheEntry cb ! unat (row addr))[unat (SetID addr cb) := s]]\<rparr>"

subsection \<open>Operations on a set\<close>

definition valid_entry :: "CacheEntry \<Rightarrow> bool" where
  "valid_entry e \<longleftrightarrow> has_flag (ce_flags e) CACHE_ENTRY_VALID"

definition dirty_entry :: "CacheEntry \<Rightarrow> bool" where
  "dirty_entry e \<longleftrightarrow> has_flag (ce_flags e) CACHE_ENTRY_DIRTY"

definition holds :: "NVMAddress \<Rightarrow> CacheEntry \<Rightarrow> bool" where
  "holds addr e \<longleftrightarrow> physicalAddress (ce_address e) = physicalAddress addr \<and> valid_entry e"

definition Present :: "NVMAddress \<Rightarrow> CacheBank \<Rightarrow> bool option" where
  "Present addr cb = do { s \<leftarrow> FindSet addr cb; Some (\<exists>e \<in> set s. holds addr e) }"

definition SetFull :: "NVMAddress \<Rightarrow> CacheBank \<Rightarrow> bool option" where
  "SetFull addr cb = do { s \<leftarrow> FindSet addr cb; Some (\<forall>e \<in> set s. valid_entry e) }"

fun install_loop :: "NVMAddress \<Rightarrow> NVMDataBlock \<Rightarrow> CacheEntry list \<Rightarrow> (bool \<times> CacheEntry list) option" where
  "install_loop addr data [] = Some (False, [])"
| "install_loop addr data (e # es) =
     (if \<not> valid_entry e then do {
        d \<leftarrow> DataBlock_assign data (ce_data e);
        Some (True, e\<lparr>ce_address := addr, ce_data := d, ce_flags := set_flag (ce_flags e) CACHE_ENTRY_VALID\<rparr> # es)
      } else do { (rv, es') \<leftarrow> install_loop addr data es; Some (rv, e # es') })"

definition Install :: "NVMAddress \<Rightarrow> NVMDataBlock \<Rightarrow> CacheBank \<Rightarrow> (bool \<times> CacheBank) option" where
  "Install addr data cb = do {
     s \<leftarrow> FindSet addr cb;
     (rv, s') \<leftarrow> install_loop addr data s;
     Some (rv, store_set addr s' cb)
   }"

text \<open>The assignment of one entry to another, field by field, and the loop
  \<^verbatim>\<open>for( j = i; j > lo; j-- ) set[j] = set[j-1]\<close>.\<close>

definition copy_entry :: "CacheEntry \<Rightarrow> CacheEntry \<Rightarrow> CacheEntry option" where
  "copy_entry src dst = do {
     d \<leftarrow> DataBlock_assign (ce_data src) (ce_data dst);
     Some (dst\<lparr>ce_flags := ce_flags src, ce_address := ce_address src, ce_data := d\<rparr>)
   }"

fun shift_loop :: "nat \<Rightarrow> nat \<Rightarrow> CacheEntry list \<Rightarrow> CacheEntry list option" where
  "shift_loop lo 0 s = Some s"
| "shift_loop lo (Suc j) s =
     (if Suc j > lo then do { e \<leftarrow> copy_entry (s ! j) (s ! Suc j); shift_loop lo j (s[Suc j := e]) } else Some s)"

text \<open>The entry at \<open>i\<close> is saved, the entries before it are shifted, and it is written to
  position 0. \<^verbatim>\<open>Read\<close> shifts down to position 1 (\<open>lo = 0\<close>), \<^verbatim>\<open>Write\<close> only to position 2.\<close>

definition move_front :: "nat \<Rightarrow> nat \<Rightarrow> CacheEntry list \<Rightarrow> CacheEntry list option" where
  "move_front lo i s = do {
     tmp \<leftarrow> copy_entry (s ! i) CacheEntry_new;
     s1 \<leftarrow> shift_loop lo i s;
     e \<leftarrow> copy_entry tmp (s1 ! 0);
     Some (s1[0 := e])
   }"

text \<open>The loops of \<^verbatim>\<open>Read\<close> and \<^verbatim>\<open>Write\<close> over the positions; they go on after a hit.\<close>

fun read_loop :: "NVMAddress \<Rightarrow> nat list \<Rightarrow> bool \<times> NVMDataBlock \<times> CacheEntry list \<Rightarrow> (bool \<times> NVMDataBlock \<times> CacheEntry list) option" where
  "read_loop addr [] st = Some st"
| "read_loop addr (i # is) (rv, data, s) =
     (if holds addr (s ! i) then do {
        data' \<leftarrow> DataBlock_assign (ce_data (s ! i)) data;
        s' \<leftarrow> move_front 0 i s;
        read_loop addr is (True, data', s')
      } else read_loop addr is (rv, data, s))"

fun write_loop :: "NVMAddress \<Rightarrow> NVMDataBlock \<Rightarrow> nat list \<Rightarrow> bool \<times> CacheEntry list \<Rightarrow> (bool \<times> CacheEntry list) option" where
  "write_loop addr data [] st = Some st"
| "write_loop addr data (i # is) (rv, s) =
     (if holds addr (s ! i) then do {
        d \<leftarrow> DataBlock_assign data (ce_data (s ! i));
        s' \<leftarrow> move_front 1 i (s[i := (s ! i)\<lparr>ce_data := d, ce_flags := set_flag (ce_flags (s ! i)) CACHE_ENTRY_DIRTY\<rparr>]);
        write_loop addr data is (True, s')
      } else write_loop addr data is (rv, s))"

fun update_loop :: "NVMAddress \<Rightarrow> NVMDataBlock \<Rightarrow> CacheEntry list \<Rightarrow> (bool \<times> CacheEntry list) option" where
  "update_loop addr data [] = Some (False, [])"
| "update_loop addr data (e # es) = do {
     e' \<leftarrow> (if holds addr e then do { d \<leftarrow> DataBlock_assign data (ce_data e); Some (e\<lparr>ce_data := d\<rparr>) } else Some e);
     (rv, es') \<leftarrow> update_loop addr data es;
     Some (holds addr e \<or> rv, e' # es')
   }"

fun evict_loop :: "NVMAddress \<Rightarrow> NVMDataBlock \<Rightarrow> CacheEntry list \<Rightarrow> (bool \<times> NVMDataBlock \<times> CacheEntry list) option" where
  "evict_loop addr data [] = Some (False, data, [])"
| "evict_loop addr data (e # es) =
     (if holds addr e then do {
        data' \<leftarrow> DataBlock_assign (ce_data e) data;
        Some (dirty_entry e, data', e\<lparr>ce_flags := CACHE_ENTRY_NONE\<rparr> # es)
      } else do { (rv, data', es') \<leftarrow> evict_loop addr data es; Some (rv, data', e # es') })"

definition assert_that :: "bool \<Rightarrow> unit option" where
  "assert_that b = (if b then Some () else None)"

definition CacheBank_Read :: "NVMAddress \<Rightarrow> NVMDataBlock \<Rightarrow> CacheBank \<Rightarrow> (bool \<times> NVMDataBlock \<times> CacheBank) option" where
  "CacheBank_Read addr data cb = do {
     s \<leftarrow> FindSet addr cb;
     here \<leftarrow> Present addr cb;
     _ \<leftarrow> assert_that here;
     (rv, data', s') \<leftarrow> read_loop addr [0..<length s] (False, data, s);
     Some (rv, data', store_set addr s' cb)
   }"

definition CacheBank_Write :: "NVMAddress \<Rightarrow> NVMDataBlock \<Rightarrow> CacheBank \<Rightarrow> (bool \<times> CacheBank) option" where
  "CacheBank_Write addr data cb = do {
     s \<leftarrow> FindSet addr cb;
     here \<leftarrow> Present addr cb;
     _ \<leftarrow> assert_that here;
     (rv, s') \<leftarrow> write_loop addr data [0..<length s] (False, s);
     Some (rv, store_set addr s' cb)
   }"

definition UpdateData :: "NVMAddress \<Rightarrow> NVMDataBlock \<Rightarrow> CacheBank \<Rightarrow> (bool \<times> CacheBank) option" where
  "UpdateData addr data cb = do {
     s \<leftarrow> FindSet addr cb;
     here \<leftarrow> Present addr cb;
     _ \<leftarrow> assert_that here;
     (rv, s') \<leftarrow> update_loop addr data s;
     Some (rv, store_set addr s' cb)
   }"

text \<open>The result is whether the victim is dirty, and its address.\<close>

definition ChooseVictim :: "NVMAddress \<Rightarrow> CacheBank \<Rightarrow> (bool \<times> NVMAddress) option" where
  "ChooseVictim addr cb = do {
     s \<leftarrow> FindSet addr cb;
     full \<leftarrow> SetFull addr cb;
     _ \<leftarrow> assert_that (full \<and> s \<noteq> []);
     Some (dirty_entry (last s), ce_address (last s))
   }"

definition Evict :: "NVMAddress \<Rightarrow> NVMDataBlock \<Rightarrow> CacheBank \<Rightarrow> (bool \<times> NVMDataBlock \<times> CacheBank) option" where
  "Evict addr data cb = do {
     s \<leftarrow> FindSet addr cb;
     here \<leftarrow> Present addr cb;
     _ \<leftarrow> assert_that here;
     (rv, data', s') \<leftarrow> evict_loop addr data s;
     Some (rv, data', store_set addr s' cb)
   }"

definition GetCacheOccupancy :: "CacheBank \<Rightarrow> rat" where
  "GetCacheOccupancy cb =
     of_nat (length (filter valid_entry (concat (concat (cacheEntry cb))))) / of_nat (unat (numRows cb * numSets cb * numAssoc cb))"

subsection \<open>Commands\<close>

text \<open>A request carries a pointer to its \<^verbatim>\<open>CacheRequest\<close>; \<open>infos\<close> is the heap of those.\<close>

record CacheEnv =
  ca_self :: nat
  ca_hooks :: "(nat \<times> nat) list"

type_synonym cache_world = "World \<times> (nat \<rightharpoonup> CacheRequest) \<times> CacheBank"

definition CacheBank_IsIssuable :: "CacheBank \<Rightarrow> bool" where
  "CacheBank_IsIssuable cb \<longleftrightarrow> cb_state cb = CACHE_IDLE"

definition respond :: "CacheEnv \<Rightarrow> nat \<Rightarrow> cache_world \<Rightarrow> cache_world option" where
  "respond env r st = (case st of (w, infos, cb) \<Rightarrow> do {
     w' \<leftarrow> insert_response (ca_hooks env) (ca_self env) r (stateTimer cb) w;
     Some (w', infos, cb)
   })"

definition issue_read :: "CacheEnv \<Rightarrow> nat \<Rightarrow> nat \<Rightarrow> CacheRequest \<Rightarrow> cache_world \<Rightarrow> cache_world option" where
  "issue_read env r i req st = (case st of (w, infos, cb) \<Rightarrow> do {
     let cb1 = cb\<lparr>cb_state := CACHE_BUSY, stateTimer := now w + cb_readTime cb\<rparr>;
     hit \<leftarrow> Present (cr_address req) cb1;
     if hit then do {
       (_, data, cb2) \<leftarrow> CacheBank_Read (cr_address req) (cr_data req) cb1;
       respond env r (w, infos(i \<mapsto> req\<lparr>cr_hit := True, cr_data := data\<rparr>), cb2)
     } else respond env r (w, infos(i \<mapsto> req\<lparr>cr_hit := False\<rparr>), cb1)
   })"

text \<open>The eviction that makes room: the victim leaves the set and is sent back with a copy of the
  request.\<close>

definition make_room :: "CacheEnv \<Rightarrow> nat \<Rightarrow> CacheRequest \<Rightarrow> cache_world \<Rightarrow> cache_world option" where
  "make_room env r req st = (case st of (w, infos, cb) \<Rightarrow> do {
     nreq \<leftarrow> heap w r;
     (_, victim) \<leftarrow> ChooseVictim (cr_address req) cb;
     (_, data, cb1) \<leftarrow> Evict victim NVMDataBlock_new cb;
     let e = next_ref w;
     let evreq = \<lparr>optype = CACHE_EVICT, cr_address = victim, cr_endAddr = NVMAddress_new, cr_data = data, cr_hit = False,
                  cr_owner = None, originalRequest = None\<rparr>;
     (mmEvict, w1) \<leftarrow> copy_request r (\<lambda>q. q\<lparr>owner := owner nreq, reqInfo := Some e, tag := tag nreq\<rparr>) (w\<lparr>next_ref := Suc e\<rparr>);
     respond env mmEvict (w1, infos(e \<mapsto> evreq), cb1)
   })"

definition issue_write :: "CacheEnv \<Rightarrow> nat \<Rightarrow> nat \<Rightarrow> CacheRequest \<Rightarrow> cache_world \<Rightarrow> cache_world option" where
  "issue_write env r i req st = (case st of (w, infos, cb) \<Rightarrow> do {
     let cb1 = cb\<lparr>cb_state := CACHE_BUSY, stateTimer := now w + cb_writeTime cb\<rparr>;
     full \<leftarrow> SetFull (cr_address req) cb1;
     (w2, infos2, cb2) \<leftarrow> (if full then make_room env r req (w, infos, cb1) else Some (w, infos, cb1));
     hit \<leftarrow> Present (cr_address req) cb2;
     (_, cb3) \<leftarrow> (if hit then CacheBank_Write (cr_address req) (cr_data req) cb2 else Install (cr_address req) (cr_data req) cb2);
     respond env r (w2, infos2(i \<mapsto> req\<lparr>cr_hit := hit\<rparr>), cb3)
   })"

definition CacheBank_IssueCommand :: "CacheEnv \<Rightarrow> nat \<Rightarrow> cache_world \<Rightarrow> (bool \<times> cache_world) option" where
  "CacheBank_IssueCommand env r st = (case st of (w, infos, cb) \<Rightarrow> do {
     nreq \<leftarrow> heap w r;
     i \<leftarrow> reqInfo nreq;
     req \<leftarrow> infos i;
     if \<not> CacheBank_IsIssuable cb then None
     else (case optype req of
         CACHE_READ \<Rightarrow> map_option (Pair True) (issue_read env r i req st)
       | CACHE_WRITE \<Rightarrow> map_option (Pair True) (issue_write env r i req st)
       | _ \<Rightarrow> Some (True, st))
   })"

definition CacheBank_RequestComplete ::
  "(nat \<Rightarrow> World \<Rightarrow> (bool \<times> World) option) \<Rightarrow> nat \<Rightarrow> World \<times> CacheBank \<Rightarrow> (bool \<times> World \<times> CacheBank) option" where
  "CacheBank_RequestComplete parent r st = do {
     (_, w) \<leftarrow> parent r (fst st);
     Some (True, w, (snd st)\<lparr>cb_state := CACHE_IDLE\<rparr>)
   }"
subsection \<open>The lines of a set\<close>

text \<open>A block with a buffer of \<open>n\<close> bytes that is in use. Assigning it to a block that has no buffer,
  or one of the same size, yields exactly the source; assigning to a smaller buffer overruns it.\<close>

definition full_block :: "nat \<Rightarrow> NVMDataBlock \<Rightarrow> bool" where
  "full_block n d \<longleftrightarrow> (\<exists>bs. rawData d = Some bs \<and> length bs = n) \<and> unat (block_size d) = n"

definition fit_block :: "nat \<Rightarrow> NVMDataBlock \<Rightarrow> bool" where
  "fit_block n d \<longleftrightarrow> full_block n d \<or> rawData d = None"

lemma block_assign_full: "full_block n m \<Longrightarrow> fit_block n d \<Longrightarrow> DataBlock_assign m d = Some m"
  by (cases m, cases d) (auto simp: full_block_def fit_block_def DataBlock_assign_def)

lemma fit_block_intros [simp]: "full_block n d \<Longrightarrow> fit_block n d" "fit_block n NVMDataBlock_new"
  by (simp_all add: fit_block_def NVMDataBlock_new_def)

text \<open>A set in order: the entries that were ever used, each with a full block, come first; an
  entry that is not valid has no flag set; no two valid entries have the same address.\<close>

definition tag_of :: "CacheEntry \<Rightarrow> uint64" where
  "tag_of e = physicalAddress (ce_address e)"

definition filled :: "nat \<Rightarrow> CacheEntry list \<Rightarrow> bool" where
  "filled n s \<longleftrightarrow> (\<exists>k. (\<forall>e \<in> set (take k s). full_block n (ce_data e)) \<and> (\<forall>e \<in> set (drop k s). rawData (ce_data e) = None \<and> \<not> valid_entry e))"

definition set_ok :: "nat \<Rightarrow> CacheEntry list \<Rightarrow> bool" where
  "set_ok n s \<longleftrightarrow> filled n s \<and> (\<forall>e \<in> set s. \<not> valid_entry e \<longrightarrow> ce_flags e = 0) \<and> distinct (map tag_of (filter valid_entry s))"

lemma filledD:
  assumes "filled n s" and "i < length s"
  shows "fit_block n (ce_data (s ! i))"
    and "j \<le> i \<Longrightarrow> valid_entry (s ! i) \<Longrightarrow> full_block n (ce_data (s ! j))"
proof -
  obtain k where k: "\<forall>e \<in> set (take k s). full_block n (ce_data e)" "\<forall>e \<in> set (drop k s). rawData (ce_data e) = None \<and> \<not> valid_entry e"
    using assms(1) by (auto simp: filled_def)
  have lo: "full_block n (ce_data (s ! j))" if "j < k" "j < length s" for j
    using k(1) that by (metis in_set_conv_nth length_take min_less_iff_conj nth_take)
  have hi: "rawData (ce_data (s ! j)) = None \<and> \<not> valid_entry (s ! j)" if "\<not> j < k" "j < length s" for j
  proof -
    have "s ! j = drop k s ! (j - k)" "j - k < length (drop k s)"
      using that by (simp_all add: nth_drop)
    then show ?thesis
      using k(2) nth_mem by metis
  qed
  show "fit_block n (ce_data (s ! i))"
    using lo hi assms(2) by (cases "i < k") (auto simp: fit_block_def)
  assume "j \<le> i" "valid_entry (s ! i)"
  then show "full_block n (ce_data (s ! j))"
    using lo hi assms(2) by (metis le_less_trans not_less)
qed

lemma copy_entry_full: "full_block n (ce_data src) \<Longrightarrow> fit_block n (ce_data dst) \<Longrightarrow> copy_entry src dst = Some src"
  by (cases src, cases dst) (simp add: copy_entry_def block_assign_full)

lemma shift_loop_nth:
  assumes "i < length s" and "\<And>j. j \<le> i \<Longrightarrow> full_block n (ce_data (s ! j))"
  shows "\<exists>s'. shift_loop lo i s = Some s' \<and> length s' = length s
    \<and> (\<forall>k < length s. s' ! k = (if lo < k \<and> k \<le> i then s ! (k - 1) else s ! k))"
  using assms
proof (induction i arbitrary: s)
  case (Suc j)
  show ?case
  proof (cases "Suc j > lo")
    case True
    let ?s = "s[Suc j := s ! j]"
    have "\<exists>s'. shift_loop lo j ?s = Some s' \<and> length s' = length ?s
      \<and> (\<forall>k < length ?s. s' ! k = (if lo < k \<and> k \<le> j then ?s ! (k - 1) else ?s ! k))"
      using Suc.prems by (intro Suc.IH) simp_all
    then obtain s' where s': "shift_loop lo j ?s = Some s'" "length s' = length ?s"
      "\<And>k. k < length ?s \<Longrightarrow> s' ! k = (if lo < k \<and> k \<le> j then ?s ! (k - 1) else ?s ! k)"
      by blast
    have "copy_entry (s ! j) (s ! Suc j) = Some (s ! j)"
      using Suc.prems(2) by (intro copy_entry_full [of n]) simp_all
    moreover have "s' ! k = (if lo < k \<and> k \<le> Suc j then s ! (k - 1) else s ! k)" if "k < length s" for k
      using s'(3) [of k] that True by (auto simp: nth_list_update le_Suc_eq)
    ultimately show ?thesis
      using True s'(1,2) by simp
  qed auto
qed auto

text \<open>The entry at \<open>i\<close> goes to the front; with \<open>lo = 0\<close> the entries before it move back by one.\<close>

lemma move_front_nth:
  assumes "i < length s" and "\<And>j. j \<le> i \<Longrightarrow> full_block n (ce_data (s ! j))"
  obtains s' where "move_front lo i s = Some s'" and "length s' = length s"
    and "\<And>k. k < length s \<Longrightarrow> s' ! k = (if k = 0 then s ! i else if lo < k \<and> k \<le> i then s ! (k - 1) else s ! k)"
proof -
  obtain s1 where s1: "shift_loop lo i s = Some s1" "length s1 = length s"
    "\<And>k. k < length s \<Longrightarrow> s1 ! k = (if lo < k \<and> k \<le> i then s ! (k - 1) else s ! k)"
    using shift_loop_nth [OF assms, of lo] by blast
  have "copy_entry (s ! i) CacheEntry_new = Some (s ! i)"
    using assms(2) by (intro copy_entry_full [of n]) (simp_all add: CacheEntry_new_def)
  moreover have "copy_entry (s ! i) (s1 ! 0) = Some (s ! i)"
    using assms s1(3) [of 0] by (intro copy_entry_full [of n]) (use assms(1) in force)+
  ultimately show thesis
    using assms(1) s1 by (intro that [of "s1[0 := s ! i]"]) (auto simp: move_front_def nth_list_update)
qed

definition to_front :: "nat \<Rightarrow> 'a list \<Rightarrow> 'a list" where
  "to_front i xs = xs ! i # take i xs @ drop (Suc i) xs"

lemma mset_to_front [simp]: "i < length xs \<Longrightarrow> mset (to_front i xs) = mset xs"
proof -
  assume "i < length xs"
  then have "mset xs = mset (take i xs @ xs ! i # drop (Suc i) xs)"
    by (subst id_take_nth_drop [symmetric]) simp_all
  then show ?thesis by (simp add: to_front_def)
qed

lemma length_to_front [simp]: "i < length xs \<Longrightarrow> length (to_front i xs) = length xs"
  by (simp add: to_front_def)

lemma move_front_list:
  assumes "i < length s" and "\<And>j. j \<le> i \<Longrightarrow> full_block n (ce_data (s ! j))"
  shows "move_front 0 i s = Some (to_front i s)"
proof -
  obtain s' where s': "move_front 0 i s = Some s'" "length s' = length s"
    "\<And>k. k < length s \<Longrightarrow> s' ! k = (if k = 0 then s ! i else if 0 < k \<and> k \<le> i then s ! (k - 1) else s ! k)"
    using move_front_nth [OF assms, of 0] by blast
  have "s' = to_front i s"
    using s'(2,3) assms(1) by (intro nth_equalityI) (auto simp: to_front_def nth_Cons nth_append split: nat.splits)
  with s'(1) show ?thesis by simp
qed

definition line_of :: "CacheEntry \<Rightarrow> bool \<times> NVMDataBlock" where
  "line_of e = (dirty_entry e, ce_data e)"

definition set_map :: "CacheEntry list \<Rightarrow> uint64 \<rightharpoonup> bool \<times> NVMDataBlock" where
  "set_map s = map_of (map (\<lambda>e. (tag_of e, line_of e)) (filter valid_entry s))"

abbreviation valid_tags :: "CacheEntry list \<Rightarrow> uint64 list" where
  "valid_tags s \<equiv> map tag_of (filter valid_entry s)"

lemma holds_iff: "holds addr e \<longleftrightarrow> valid_entry e \<and> tag_of e = physicalAddress addr"
  by (auto simp: holds_def tag_of_def)

lemma dom_set_map: "dom (set_map s) = tag_of ` {e \<in> set s. valid_entry e}"
  by (auto simp: set_map_def dom_map_of_conv_image_fst image_iff)

lemma set_map_entry: "distinct (valid_tags s) \<Longrightarrow> e \<in> set s \<Longrightarrow> valid_entry e \<Longrightarrow> set_map s (tag_of e) = Some (line_of e)"
  unfolding set_map_def by (rule map_of_is_SomeI) (auto simp: comp_def)

lemma set_map_perm: "mset s = mset s' \<Longrightarrow> distinct (valid_tags s) \<Longrightarrow> distinct (valid_tags s') \<and> set_map s' = set_map s"
proof -
  assume m: "mset s = mset s'" and d: "distinct (valid_tags s)"
  have "mset (valid_tags s') = mset (valid_tags s)"
    using m by (simp add: mset_filter)
  then have d': "distinct (valid_tags s')"
    using d mset_eq_imp_distinct_iff by blast
  moreover have "set s' = set s"
    using m mset_eq_setD by metis
  ultimately show ?thesis
    using d unfolding set_map_def by (subst map_of_inject_set) (simp_all add: comp_def)
qed

lemma valid_tags_nth:
  assumes "distinct (valid_tags s)" and "i < length s" "j < length s" "valid_entry (s ! i)" "valid_entry (s ! j)" "tag_of (s ! i) = tag_of (s ! j)"
  shows "i = j"
proof -
  have ne: False if "i < j" "j < length s" "valid_entry (s ! i)" "valid_entry (s ! j)" "tag_of (s ! i) = tag_of (s ! j)" for i j
  proof -
    have "s ! j \<in> set (drop (Suc i) s)"
      using that(1,2) by (auto simp: in_set_conv_nth intro!: exI [of _ "j - Suc i"])
    moreover have "distinct (valid_tags (take i s @ s ! i # drop (Suc i) s))"
      using assms(1) that(1,2) by (simp add: id_take_nth_drop [symmetric])
    ultimately show False
      using that by auto
  qed
  show ?thesis
    using ne [of i j] ne [of j i] assms by (cases i j rule: linorder_cases) auto
qed

lemma others_nth:
  assumes "p < length s" and "x \<in> set (take p s) \<union> set (drop (Suc p) s)"
  shows "\<exists>j < length s. j \<noteq> p \<and> s ! j = x"
  using assms(2)
proof
  assume "x \<in> set (take p s)"
  then obtain i where "i < p" "x = s ! i"
    by (auto simp: in_set_conv_nth)
  with assms(1) show ?thesis by (intro exI [of _ i]) simp
next
  assume "x \<in> set (drop (Suc p) s)"
  then obtain i where "i < length s - Suc p" "x = s ! (Suc p + i)"
    by (auto simp: in_set_conv_nth)
  with assms(1) show ?thesis by (intro exI [of _ "Suc p + i"]) simp
qed

lemma in_set_update_nth: "p < length s \<Longrightarrow> x \<in> set (s[p := e]) \<Longrightarrow> x = e \<or> (\<exists>j < length s. j \<noteq> p \<and> s ! j = x)"
  using others_nth [of p s x] by (auto simp: upd_conv_take_nth_drop)

lemma valid_tags_update:
  assumes "distinct (valid_tags s)" and "p < length s"
    and "valid_entry e \<Longrightarrow> \<forall>j < length s. j \<noteq> p \<longrightarrow> valid_entry (s ! j) \<longrightarrow> tag_of (s ! j) \<noteq> tag_of e"
  shows "distinct (valid_tags (s[p := e]))"
proof -
  have "distinct (valid_tags (take p s @ s ! p # drop (Suc p) s))"
    using assms(1,2) by (simp add: id_take_nth_drop [symmetric])
  then have "distinct (valid_tags (take p s @ drop (Suc p) s))"
    by (auto split: if_splits)
  moreover have "tag_of e \<notin> set (valid_tags (take p s @ drop (Suc p) s))" if "valid_entry e"
    using others_nth [OF assms(2)] assms(3) that by fastforce
  ultimately show ?thesis
    using assms(2) by (auto simp: upd_conv_take_nth_drop)
qed

lemma set_map_update:
  assumes "distinct (valid_tags s)" and "distinct (valid_tags (s[p := e]))" and "p < length s"
    and "t = (if valid_entry e then tag_of e else tag_of (s ! p))" and "valid_entry (s ! p) \<Longrightarrow> tag_of (s ! p) = t"
    and "\<forall>j < length s. j \<noteq> p \<longrightarrow> valid_entry (s ! j) \<longrightarrow> tag_of (s ! j) \<noteq> t"
  shows "set_map (s[p := e]) = (set_map s)(t := if valid_entry e then Some (line_of e) else None)"
proof
  fix u
  let ?s = "s[p := e]"
  show "set_map ?s u = ((set_map s)(t := if valid_entry e then Some (line_of e) else None)) u"
  proof (cases "u = t")
    case True
    show ?thesis
    proof (cases "valid_entry e")
      case valid: True
      then have "set_map ?s (tag_of e) = Some (line_of e)"
        using assms(2,3) by (intro set_map_entry) (auto intro: set_update_memI)
      with True valid assms(4) show ?thesis by simp
    next
      case False
      then have "t \<notin> dom (set_map ?s)"
        using assms(6) by (auto simp: dom_set_map dest!: in_set_update_nth [OF assms(3)])
      then have "set_map ?s t = None"
        by (simp only: domIff not_not)
      with True False show ?thesis by simp
    qed
  next
    case other: False
    show ?thesis
    proof (cases "u \<in> dom (set_map s)")
      case True
      then obtain j where j: "j < length s" "valid_entry (s ! j)" "tag_of (s ! j) = u"
        by (auto simp: dom_set_map in_set_conv_nth)
      then have "j \<noteq> p"
        using assms(5) other by auto
      then have "s ! j \<in> set ?s" using j(1)
        by (metis length_list_update nth_list_update_neq nth_mem)
      then show ?thesis
        using set_map_entry [OF assms(1) nth_mem [OF j(1)] j(2)] set_map_entry [OF assms(2) _ j(2)] j(3) other by simp
    next
      case False
      then have "u \<notin> dom (set_map ?s)"
      proof (rule contrapos_nn)
        assume "u \<in> dom (set_map ?s)"
        then obtain x where x: "x \<in> set ?s" "valid_entry x" "tag_of x = u"
          by (auto simp: dom_set_map)
        then have "x \<noteq> e"
          using assms(4) other by auto
        then have "x \<in> set s"
          using in_set_update_nth [OF assms(3) x(1)] by auto
        with x show "u \<in> dom (set_map s)"
          by (auto simp: dom_set_map)
      qed
      then have "set_map ?s u = None" "set_map s u = None"
        using False by (simp_all only: domIff not_not)
      with other show ?thesis by simp
    qed
  qed
qed

lemma filled_update:
  assumes "filled n s" and "p < length s" and "full_block n (ce_data e)" and "\<And>j. j < p \<Longrightarrow> full_block n (ce_data (s ! j))"
  shows "filled n (s[p := e])"
proof -
  obtain k where k: "\<forall>e \<in> set (take k s). full_block n (ce_data e)" "\<forall>e \<in> set (drop k s). rawData (ce_data e) = None \<and> \<not> valid_entry e"
    using assms(1) by (auto simp: filled_def)
  let ?k = "max k (Suc p)"
  have "full_block n (ce_data (s[p := e] ! j))" if "j < ?k" "j < length s" for j
  proof -
    have "j < k \<Longrightarrow> full_block n (ce_data (s ! j))"
      using k(1) that(2) by (metis in_set_conv_nth length_take min_less_iff_conj nth_take)
    then show ?thesis
      using that assms(3,4) by (cases "j = p"; cases "j < k") (auto simp: less_Suc_eq max_def split: if_splits)
  qed
  then have "\<forall>x \<in> set (take ?k (s[p := e])). full_block n (ce_data x)"
    by (auto simp: in_set_conv_nth)
  moreover have "\<forall>x \<in> set (drop ?k (s[p := e])). rawData (ce_data x) = None \<and> \<not> valid_entry x"
    using k(2) set_drop_subset_set_drop [of k ?k s] by (auto simp: drop_update_cancel)
  ultimately show ?thesis
    unfolding filled_def by blast
qed

subsection \<open>The operations on a set in order\<close>

lemma set_okD:
  assumes "set_ok n s"
  shows "filled n s" "distinct (valid_tags s)" "e \<in> set s \<Longrightarrow> \<not> valid_entry e \<Longrightarrow> ce_flags e = 0"
  using assms by (auto simp: set_ok_def)

text \<open>The position of a line.\<close>

lemma set_holder:
  assumes "set_ok n s" and "\<exists>e \<in> set s. holds addr e"
  obtains i where "i < length s" "holds addr (s ! i)" "\<forall>j < length s. j \<noteq> i \<longrightarrow> \<not> holds addr (s ! j)"
    "set_map s (physicalAddress addr) = Some (line_of (s ! i))" "\<forall>j \<le> i. full_block n (ce_data (s ! j))"
proof -
  obtain i where i: "i < length s" "holds addr (s ! i)"
    using assms(2) by (auto simp: in_set_conv_nth)
  then have v: "valid_entry (s ! i)" "tag_of (s ! i) = physicalAddress addr"
    by (simp_all add: holds_iff)
  show thesis
  proof (rule that [OF i])
    show "\<forall>j < length s. j \<noteq> i \<longrightarrow> \<not> holds addr (s ! j)"
      using valid_tags_nth [OF set_okD(2) [OF assms(1)] _ i(1)] v by (auto simp: holds_iff)
    show "set_map s (physicalAddress addr) = Some (line_of (s ! i))"
      using set_map_entry [OF set_okD(2) [OF assms(1)] nth_mem [OF i(1)] v(1)] v(2) by simp
    show "\<forall>j \<le> i. full_block n (ce_data (s ! j))"
      using filledD(2) [OF set_okD(1) [OF assms(1)] i(1) _ v(1)] by simp
  qed
qed

lemma present_iff_dom: "(\<exists>e \<in> set s. holds addr e) \<longleftrightarrow> set_map s (physicalAddress addr) \<noteq> None"
proof -
  have "(\<exists>e \<in> set s. holds addr e) \<longleftrightarrow> physicalAddress addr \<in> dom (set_map s)"
    unfolding dom_set_map holds_iff image_iff by (metis (mono_tags, lifting) mem_Collect_eq)
  then show ?thesis by (simp only: domIff)
qed

lemma read_loop_append: "read_loop addr (xs @ ys) st = Option.bind (read_loop addr xs st) (read_loop addr ys)"
proof (induction xs arbitrary: st)
  case (Cons i xs)
  then show ?case by (cases st) simp
qed simp

lemma read_loop_skip: "\<forall>j \<in> set is. \<not> holds addr (s ! j) \<Longrightarrow> read_loop addr is (rv, data, s) = Some (rv, data, s)"
  by (induction "is") auto

lemma write_loop_append: "write_loop addr data (xs @ ys) st = Option.bind (write_loop addr data xs st) (write_loop addr data ys)"
proof (induction xs arbitrary: st)
  case (Cons i xs)
  then show ?case by (cases st) simp
qed simp

lemma write_loop_skip: "\<forall>j \<in> set is. \<not> holds addr (s ! j) \<Longrightarrow> write_loop addr data is (rv, s) = Some (rv, s)"
  by (induction "is") auto

lemma upt_split: "i < n \<Longrightarrow> [0..<n] = [0..<i] @ i # [Suc i..<n]"
  by (metis less_imp_le_nat upt_conv_Cons upt_add_eq_append zero_le add_0 le_add_diff_inverse)

lemma filled_to_front:
  assumes "filled n s" and "i < length s" and "valid_entry (s ! i)"
  shows "filled n (to_front i s)"
proof -
  obtain k where k: "\<forall>e \<in> set (take k s). full_block n (ce_data e)" "\<forall>e \<in> set (drop k s). rawData (ce_data e) = None \<and> \<not> valid_entry e"
    using assms(1) by (auto simp: filled_def)
  have "i < k"
  proof (rule ccontr)
    assume "\<not> i < k"
    then have "s ! i \<in> set (drop k s)"
      using assms(2) by (auto simp: in_set_conv_nth intro!: exI [of _ "i - k"])
    with k(2) assms(3) show False by blast
  qed
  then have "take k (to_front i s) = s ! i # take i s @ take (k - Suc i) (drop (Suc i) s)" "drop k (to_front i s) = drop k s"
    using assms(2) by (simp_all add: to_front_def take_Cons' drop_Cons' min_absorb2)
  moreover have "take k s = take i s @ s ! i # take (k - Suc i) (drop (Suc i) s)"
    using \<open>i < k\<close> assms(2) by (subst id_take_nth_drop [OF assms(2)]) (simp add: take_Cons' min_absorb2)
  ultimately show ?thesis
    using k unfolding filled_def by (intro exI [of _ k]) auto
qed

lemma set_ok_to_front:
  assumes "set_ok n s" and "i < length s" and "valid_entry (s ! i)"
  shows "set_ok n (to_front i s)" and "set_map (to_front i s) = set_map s"
proof -
  have p: "distinct (valid_tags (to_front i s)) \<and> set_map (to_front i s) = set_map s"
    using assms by (intro set_map_perm) (simp_all add: set_okD)
  then show "set_map (to_front i s) = set_map s" by simp
  have "set (to_front i s) = set s"
    using assms(2) by (metis mset_eq_setD mset_to_front)
  then show "set_ok n (to_front i s)"
    using p assms filled_to_front by (simp add: set_ok_def)
qed

lemma read_loop_set:
  assumes "set_ok n s" and "\<exists>e \<in> set s. holds addr e" and "fit_block n data"
  obtains i where "i < length s" "holds addr (s ! i)" "read_loop addr [0..<length s] (False, data, s) = Some (True, ce_data (s ! i), to_front i s)"
proof -
  obtain i where i: "i < length s" "holds addr (s ! i)" "\<forall>j < length s. j \<noteq> i \<longrightarrow> \<not> holds addr (s ! j)"
    and full: "\<And>j. j \<le> i \<Longrightarrow> full_block n (ce_data (s ! j))"
    using set_holder [OF assms(1,2)] by metis
  have "to_front i s ! j = s ! j" if "i < j" "j < length s" for j
    using that by (auto simp: to_front_def nth_Cons nth_append split: nat.splits)
  then have after: "read_loop addr [Suc i..<length s] (True, ce_data (s ! i), to_front i s) = Some (True, ce_data (s ! i), to_front i s)"
    using i(3) by (intro read_loop_skip) auto
  have before: "read_loop addr [0..<i] (False, data, s) = Some (False, data, s)"
    using i(1,3) by (intro read_loop_skip) auto
  show thesis
    using i(2) before after block_assign_full [OF full [of i, simplified] assms(3)] move_front_list [OF i(1) full]
    by (intro that [OF i(1,2)]) (simp add: upt_split [OF i(1)] read_loop_append)
qed

lemma install_loop_at:
  assumes "p < length s" and "\<And>j. j < p \<Longrightarrow> valid_entry (s ! j)" and "\<not> valid_entry (s ! p)"
    and "full_block n data" and "fit_block n (ce_data (s ! p))"
  shows "install_loop addr data s =
    Some (True, s[p := (s ! p)\<lparr>ce_address := addr, ce_data := data, ce_flags := set_flag (ce_flags (s ! p)) CACHE_ENTRY_VALID\<rparr>])"
  using assms
proof (induction s arbitrary: p)
  case (Cons e es)
  show ?case
  proof (cases p)
    case 0
    with Cons.prems show ?thesis by (simp add: block_assign_full)
  next
    case (Suc q)
    have "install_loop addr data es =
        Some (True, es[q := (es ! q)\<lparr>ce_address := addr, ce_data := data, ce_flags := set_flag (ce_flags (es ! q)) CACHE_ENTRY_VALID\<rparr>])"
      using Cons.prems Suc by (intro Cons.IH) force+
    moreover have "valid_entry e"
      using Cons.prems(2) [of 0] Suc by simp
    ultimately show ?thesis using Suc by simp
  qed
qed simp

lemma evict_loop_at:
  assumes "p < length s" and "\<And>j. j < p \<Longrightarrow> \<not> holds addr (s ! j)" and "holds addr (s ! p)"
    and "full_block n (ce_data (s ! p))" and "fit_block n data"
  shows "evict_loop addr data s = Some (dirty_entry (s ! p), ce_data (s ! p), s[p := (s ! p)\<lparr>ce_flags := CACHE_ENTRY_NONE\<rparr>])"
  using assms
proof (induction s arbitrary: p)
  case (Cons e es)
  show ?case
  proof (cases p)
    case 0
    with Cons.prems show ?thesis by (simp add: block_assign_full)
  next
    case (Suc q)
    have "evict_loop addr data es = Some (dirty_entry (es ! q), ce_data (es ! q), es[q := (es ! q)\<lparr>ce_flags := CACHE_ENTRY_NONE\<rparr>])"
      using Cons.prems Suc by (intro Cons.IH) force+
    moreover have "\<not> holds addr e"
      using Cons.prems(2) [of 0] Suc by simp
    ultimately show ?thesis using Suc by simp
  qed
qed simp

lemma update_loop_none: "\<forall>e \<in> set s. \<not> holds addr e \<Longrightarrow> update_loop addr data s = Some (False, s)"
  by (induction s) auto

lemma update_loop_at:
  assumes "p < length s" and "\<And>j. j < length s \<Longrightarrow> j \<noteq> p \<Longrightarrow> \<not> holds addr (s ! j)" and "holds addr (s ! p)"
    and "full_block n data" and "fit_block n (ce_data (s ! p))"
  shows "update_loop addr data s = Some (True, s[p := (s ! p)\<lparr>ce_data := data\<rparr>])"
  using assms
proof (induction s arbitrary: p)
  case (Cons e es)
  show ?case
  proof (cases p)
    case 0
    have "\<forall>e \<in> set es. \<not> holds addr e"
      using Cons.prems(2) 0 by (force simp: in_set_conv_nth)
    with Cons.prems 0 show ?thesis by (simp add: block_assign_full update_loop_none)
  next
    case (Suc q)
    have "update_loop addr data es = Some (True, es[q := (es ! q)\<lparr>ce_data := data\<rparr>])"
      using Cons.prems Suc by (intro Cons.IH) force+
    moreover have "\<not> holds addr e"
      using Cons.prems(2) [of 0] Suc by simp
    ultimately show ?thesis using Suc by simp
  qed
qed simp

subsection \<open>A cache in order\<close>

definition placed :: "(NVMAddress \<Rightarrow> uint64) \<Rightarrow> nat \<Rightarrow> nat \<Rightarrow> CacheEntry list \<Rightarrow> bool" where
  "placed dec r k s \<longleftrightarrow> (\<forall>e \<in> set s. valid_entry e \<longrightarrow> unat (row (ce_address e)) = r \<and> unat (dec (ce_address e)) = k)"

definition cache_ok :: "nat \<Rightarrow> CacheBank \<Rightarrow> bool" where
  "cache_ok n cb \<longleftrightarrow> (\<forall>r < length (cacheEntry cb). \<forall>k < length (cacheEntry cb ! r).
     length (cacheEntry cb ! r ! k) = unat (numAssoc cb) \<and> set_ok n (cacheEntry cb ! r ! k) \<and> placed (decodeFunc cb) r k (cacheEntry cb ! r ! k))"

text \<open>The contents of a cache by row, set and physical address.\<close>

type_synonym line_key = "nat \<times> nat \<times> uint64"

definition key_of :: "(NVMAddress \<Rightarrow> uint64) \<Rightarrow> NVMAddress \<Rightarrow> line_key" where
  "key_of dec a = (unat (row a), unat (dec a), physicalAddress a)"

definition contents :: "CacheBank \<Rightarrow> line_key \<rightharpoonup> bool \<times> NVMDataBlock" where
  "contents cb = (\<lambda>(r, k, t). if r < length (cacheEntry cb) \<and> k < length (cacheEntry cb ! r) then set_map (cacheEntry cb ! r ! k) t else None)"

lemma cache_ok_set:
  assumes "cache_ok n cb" and "FindSet a cb = Some s"
  shows "set_ok n s" and "length s = unat (numAssoc cb)" and "placed (decodeFunc cb) (unat (row a)) (unat (decodeFunc cb a)) s"
    and "contents cb (unat (row a), unat (decodeFunc cb a), t) = set_map s t"
  using assms by (auto simp: FindSet_def SetID_def cache_ok_def contents_def split: if_splits)

lemma contents_key: "FindSet a cb = Some s \<Longrightarrow> contents cb (key_of (decodeFunc cb) a) = set_map s (physicalAddress a)"
  by (auto simp: FindSet_def SetID_def contents_def key_of_def split: if_splits)

lemma Present_contents: "FindSet a cb = Some s \<Longrightarrow> Present a cb = Some (contents cb (key_of (decodeFunc cb) a) \<noteq> None)"
  using present_iff_dom [of s a] contents_key [of a cb s] by (simp add: Present_def)

lemma store_set_sel [simp]:
  "numAssoc (store_set a s cb) = numAssoc cb" "decodeFunc (store_set a s cb) = decodeFunc cb" "numSets (store_set a s cb) = numSets cb"
  "numRows (store_set a s cb) = numRows cb" "cb_state (store_set a s cb) = cb_state cb" "stateTimer (store_set a s cb) = stateTimer cb"
  "length (cacheEntry (store_set a s cb)) = length (cacheEntry cb)"
  "length (cacheEntry (store_set a s cb) ! r) = length (cacheEntry cb ! r)"
  by (simp_all add: store_set_def) (cases "r < length (cacheEntry cb)"; cases "r = unat (row a)"; simp add: nth_list_update list_update_beyond not_less)

lemma store_set_nth:
  "r < length (cacheEntry cb) \<Longrightarrow> k < length (cacheEntry cb ! r) \<Longrightarrow>
   cacheEntry (store_set a s cb) ! r ! k = (if r = unat (row a) \<and> k = unat (decodeFunc cb a) then s else cacheEntry cb ! r ! k)"
  by (cases "r = unat (row a)"; cases "k = unat (decodeFunc cb a)") (simp_all add: store_set_def SetID_def)

lemma FindSet_store_set: "FindSet a cb = Some s \<Longrightarrow> FindSet a (store_set a s' cb) = Some s'"
  by (auto simp: FindSet_def SetID_def store_set_nth split: if_splits)

lemma FindSet_other: "FindSet b (store_set a s' cb) = None \<longleftrightarrow> FindSet b cb = None"
  by (simp add: FindSet_def SetID_def)

lemma cache_ok_store:
  assumes "cache_ok n cb" and "FindSet a cb = Some s"
    and "set_ok n s'" and "length s' = length s" and "placed (decodeFunc cb) (unat (row a)) (unat (decodeFunc cb a)) s'"
  shows "cache_ok n (store_set a s' cb)"
  using assms cache_ok_set(2) [OF assms(1,2)] by (auto simp: cache_ok_def store_set_nth)

lemma contents_store:
  assumes "FindSet a cb = Some s" and "set_map s' = (set_map s)(physicalAddress a := v)"
  shows "contents (store_set a s' cb) = (contents cb)(key_of (decodeFunc cb) a := v)"
proof
  fix x :: line_key
  obtain r k t where x: "x = (r, k, t)" by (cases x)
  have s: "s = cacheEntry cb ! unat (row a) ! unat (decodeFunc cb a)" "unat (row a) < length (cacheEntry cb)"
    "unat (decodeFunc cb a) < length (cacheEntry cb ! unat (row a))"
    using assms(1) by (auto simp: FindSet_def SetID_def split: if_splits)
  show "contents (store_set a s' cb) x = ((contents cb)(key_of (decodeFunc cb) a := v)) x"
    using s assms(2) by (auto simp: contents_def key_of_def x store_set_nth)
qed

lemma contents_store_same:
  assumes "FindSet a cb = Some s" and "set_map s' = set_map s"
  shows "contents (store_set a s' cb) = contents cb"
proof -
  have "set_map s' = (set_map s)(physicalAddress a := set_map s (physicalAddress a))"
    using assms(2) by simp
  from contents_store [OF assms(1) this] show ?thesis
    using contents_key [OF assms(1)] by (metis fun_upd_triv)
qed

lemma cache_ok_new: "cache_ok n (CacheBank_new rows sets assoc lsz)" and contents_new: "contents (CacheBank_new rows sets assoc lsz) = Map.empty"
proof -
  have inv: "\<not> valid_entry CacheEntry_new"
    by (simp add: valid_entry_def CacheEntry_new_def CACHE_ENTRY_NONE_def)
  have "filled n (replicate m CacheEntry_new)" for m
    unfolding filled_def using inv by (intro exI [of _ 0]) (auto simp: CacheEntry_new_def NVMDataBlock_new_def)
  then have "set_ok n (replicate m CacheEntry_new)" for m
    using inv by (auto simp: set_ok_def CacheEntry_new_def CACHE_ENTRY_NONE_def)
  then show "cache_ok n (CacheBank_new rows sets assoc lsz)"
    using inv by (auto simp: cache_ok_def CacheBank_new_def placed_def)
  show "contents (CacheBank_new rows sets assoc lsz) = Map.empty"
    using inv by (auto simp: contents_def CacheBank_new_def set_map_def fun_eq_iff)
qed

lemma set_full_count:
  assumes "set_ok n s"
  shows "card (dom (set_map s)) = length (filter valid_entry s)" and "(\<forall>e \<in> set s. valid_entry e) \<longleftrightarrow> \<not> card (dom (set_map s)) < length s"
proof -
  have "dom (set_map s) = set (valid_tags s)"
    by (auto simp: dom_set_map)
  then show c: "card (dom (set_map s)) = length (filter valid_entry s)"
    using set_okD(2) [OF assms] by (simp only: distinct_card length_map)
  show "(\<forall>e \<in> set s. valid_entry e) \<longleftrightarrow> \<not> card (dom (set_map s)) < length s"
    unfolding c by (metis filter_id_conv_all length_filter_less less_irrefl)
qed

lemma contents_FindSet: "contents cb (key_of (decodeFunc cb) a) = Some x \<Longrightarrow> \<exists>s. FindSet a cb = Some s"
  by (auto simp: contents_def key_of_def FindSet_def SetID_def split: if_splits)

text \<open>What an operation leaves in place.\<close>

definition same_frame :: "CacheBank \<Rightarrow> CacheBank \<Rightarrow> bool" where
  "same_frame cb cb' \<longleftrightarrow> decodeFunc cb' = decodeFunc cb \<and> numAssoc cb' = numAssoc cb \<and> cb_state cb' = cb_state cb
     \<and> stateTimer cb' = stateTimer cb \<and> (\<forall>a. FindSet a cb' = None \<longleftrightarrow> FindSet a cb = None)"

lemma same_frame_store: "same_frame cb (store_set a s cb)"
  by (simp add: same_frame_def FindSet_other)

text \<open>A read moves the line to the front of its set and changes nothing else.\<close>

lemma Read_front:
  assumes "cache_ok n cb" and "FindSet a cb = Some s" and "contents cb (key_of (decodeFunc cb) a) = Some (dirty, d)" and "fit_block n out"
  shows "\<exists>i < length s. holds a (s ! i) \<and> CacheBank_Read a out cb = Some (True, d, store_set a (to_front i s) cb)
    \<and> cache_ok n (store_set a (to_front i s) cb) \<and> contents (store_set a (to_front i s) cb) = contents cb"
proof -
  note s = assms(2)
  note c = cache_ok_set [OF assms(1) s]
  have m: "set_map s (physicalAddress a) = Some (dirty, d)"
    using contents_key [OF s] assms(3) by simp
  then have h: "\<exists>e \<in> set s. holds a e"
    by (simp add: present_iff_dom)
  obtain i where i: "i < length s" "holds a (s ! i)" "read_loop a [0..<length s] (False, out, s) = Some (True, ce_data (s ! i), to_front i s)"
    using read_loop_set [OF c(1) h assms(4)] by blast
  then have v: "valid_entry (s ! i)" "tag_of (s ! i) = physicalAddress a"
    by (simp_all add: holds_iff)
  have d: "ce_data (s ! i) = d"
    using set_map_entry [OF set_okD(2) [OF c(1)] nth_mem [OF i(1)] v(1)] v(2) m by (simp add: line_of_def)
  have "set (to_front i s) = set s"
    using i(1) by (metis mset_eq_setD mset_to_front)
  then have "cache_ok n (store_set a (to_front i s) cb)"
    using c(3) i(1) by (intro cache_ok_store [OF assms(1) s set_ok_to_front(1) [OF c(1) i(1) v(1)]]) (simp_all add: placed_def)
  moreover have "contents (store_set a (to_front i s) cb) = contents cb"
    by (rule contents_store_same [OF s set_ok_to_front(2) [OF c(1) i(1) v(1)]])
  ultimately show ?thesis
    using i d s assms(3) by (intro exI [of _ i]) (simp add: CacheBank_Read_def Present_contents [OF s] assert_that_def)
qed

lemma Read_ok:
  assumes "cache_ok n cb" and "contents cb (key_of (decodeFunc cb) a) = Some (dirty, d)" and "fit_block n out"
  shows "\<exists>cb'. CacheBank_Read a out cb = Some (True, d, cb') \<and> cache_ok n cb' \<and> contents cb' = contents cb \<and> same_frame cb cb'"
  using contents_FindSet [OF assms(2)] Read_front [OF assms(1) _ assms(2,3)] same_frame_store by blast

text \<open>An operation that replaces one entry.\<close>

lemma replace_entry_ok:
  assumes "cache_ok n cb" and "FindSet a cb = Some s" and "p < length s" and "\<forall>j < length s. j \<noteq> p \<longrightarrow> \<not> holds a (s ! j)"
    and "valid_entry (s ! p) \<Longrightarrow> holds a (s ! p)" and "\<forall>j < p. full_block n (ce_data (s ! j))" and "full_block n (ce_data e)"
    and "valid_entry e \<Longrightarrow> holds a e \<and> unat (row (ce_address e)) = unat (row a) \<and> unat (decodeFunc cb (ce_address e)) = unat (decodeFunc cb a)"
    and "\<not> valid_entry e \<Longrightarrow> ce_flags e = 0 \<and> valid_entry (s ! p)"
  shows "cache_ok n (store_set a (s[p := e]) cb)"
    and "contents (store_set a (s[p := e]) cb) = (contents cb)(key_of (decodeFunc cb) a := if valid_entry e then Some (line_of e) else None)"
proof -
  note c = cache_ok_set [OF assms(1,2)]
  note ok = set_okD [OF c(1)]
  have others: "\<forall>j < length s. j \<noteq> p \<longrightarrow> valid_entry (s ! j) \<longrightarrow> tag_of (s ! j) \<noteq> physicalAddress a"
    using assms(4) by (auto simp: holds_iff)
  have dist: "distinct (valid_tags (s[p := e]))"
    using others assms(8) by (intro valid_tags_update [OF ok(2) assms(3)]) (auto simp: holds_iff)
  have "set_ok n (s[p := e])"
    using filled_update [OF ok(1) assms(3,7)] assms(6,9) dist ok(3) set_update_subset_insert [of s p e] by (auto simp: set_ok_def)
  moreover have "placed (decodeFunc cb) (unat (row a)) (unat (decodeFunc cb a)) (s[p := e])"
    using c(3) assms(8) set_update_subset_insert [of s p e] by (auto simp: placed_def)
  ultimately show "cache_ok n (store_set a (s[p := e]) cb)"
    by (intro cache_ok_store [OF assms(1,2)]) simp_all
  have "set_map (s[p := e]) = (set_map s)(physicalAddress a := if valid_entry e then Some (line_of e) else None)"
    using others assms(5,8,9) by (intro set_map_update [OF ok(2) dist assms(3)]) (auto simp: holds_iff)
  then show "contents (store_set a (s[p := e]) cb) = (contents cb)(key_of (decodeFunc cb) a := if valid_entry e then Some (line_of e) else None)"
    by (rule contents_store [OF assms(2)])
qed

lemma flag_values [simp]:
  "valid_entry (e\<lparr>ce_data := d\<rparr>) = valid_entry e" "dirty_entry (e\<lparr>ce_data := d\<rparr>) = dirty_entry e"
  "\<not> valid_entry (e\<lparr>ce_flags := CACHE_ENTRY_NONE\<rparr>)" "\<not> valid_entry (e\<lparr>ce_flags := 0\<rparr>)"
  "valid_entry (e\<lparr>ce_address := a, ce_data := d, ce_flags := CACHE_ENTRY_VALID\<rparr>)"
  "\<not> dirty_entry (e\<lparr>ce_address := a, ce_data := d, ce_flags := CACHE_ENTRY_VALID\<rparr>)"
  by (simp_all add: valid_entry_def dirty_entry_def CACHE_ENTRY_NONE_def CACHE_ENTRY_VALID_def CACHE_ENTRY_DIRTY_def)

lemma Install_ok:
  assumes "cache_ok n cb" and "FindSet a cb = Some s" and "contents cb (key_of (decodeFunc cb) a) = None" and "full_block n d"
    and "\<exists>e \<in> set s. \<not> valid_entry e"
  shows "\<exists>cb'. Install a d cb = Some (True, cb') \<and> cache_ok n cb' \<and> same_frame cb cb'
    \<and> contents cb' = (contents cb)(key_of (decodeFunc cb) a \<mapsto> (False, d))"
proof -
  note c = cache_ok_set [OF assms(1,2)]
  have none: "\<not> holds a (s ! j)" if "j < length s" for j
    using present_iff_dom [of s a] contents_key [OF assms(2)] assms(3) nth_mem [OF that] by auto
  let ?P = "\<lambda>p. p < length s \<and> \<not> valid_entry (s ! p)"
  define p where "p = (LEAST p. ?P p)"
  have "\<exists>p. ?P p"
    using assms(5) by (auto simp: in_set_conv_nth)
  then have least: "?P p"
    unfolding p_def by (rule LeastI_ex)
  then have p: "p < length s" "\<not> valid_entry (s ! p)" "\<And>j. j < p \<Longrightarrow> valid_entry (s ! j)"
    using not_less_Least [of _ ?P] by (auto simp: p_def [symmetric])
  have full: "\<forall>j < p. full_block n (ce_data (s ! j))"
    using filledD(2) [OF set_okD(1) [OF c(1)]] p by (meson less_trans order_refl)
  have fit: "fit_block n (ce_data (s ! p))"
    using filledD(1) [OF set_okD(1) [OF c(1)] p(1)] .
  have fl: "set_flag (ce_flags (s ! p)) CACHE_ENTRY_VALID = CACHE_ENTRY_VALID"
    using set_okD(3) [OF c(1) nth_mem [OF p(1)] p(2)] by simp
  let ?e = "(s ! p)\<lparr>ce_address := a, ce_data := d, ce_flags := CACHE_ENTRY_VALID\<rparr>"
  have "install_loop a d s = Some (True, s[p := ?e])"
    using install_loop_at [OF p(1,3,2) assms(4) fit, of a] fl by simp
  moreover have "line_of ?e = (False, d)"
    by (simp add: line_of_def)
  ultimately show ?thesis
    using replace_entry_ok [OF assms(1,2) p(1), of ?e] none full p(2) assms(2,4) same_frame_store
    by (simp add: Install_def holds_iff tag_of_def)
qed

lemma Install_full:
  assumes "FindSet a cb = Some s" and "\<forall>e \<in> set s. valid_entry e"
  shows "Install a d cb = Some (False, store_set a s cb)"
proof -
  have "install_loop a d s = Some (False, s)"
    using assms(2) by (induction s) auto
  with assms(1) show ?thesis by (simp add: Install_def)
qed

lemma store_set_triv: "FindSet a cb = Some s \<Longrightarrow> store_set a s cb = cb"
  by (auto simp: FindSet_def store_set_def split: if_splits)

lemma Update_ok:
  assumes "cache_ok n cb" and "contents cb (key_of (decodeFunc cb) a) = Some (dirty, d)" and "full_block n d'"
  shows "\<exists>cb'. UpdateData a d' cb = Some (True, cb') \<and> cache_ok n cb' \<and> same_frame cb cb'
    \<and> contents cb' = (contents cb)(key_of (decodeFunc cb) a \<mapsto> (dirty, d'))"
proof -
  obtain s where s: "FindSet a cb = Some s"
    using contents_FindSet [OF assms(2)] by blast
  note c = cache_ok_set [OF assms(1) s]
  have m: "set_map s (physicalAddress a) = Some (dirty, d)"
    using contents_key [OF s] assms(2) by simp
  then obtain p where p: "p < length s" "holds a (s ! p)" "\<forall>j < length s. j \<noteq> p \<longrightarrow> \<not> holds a (s ! j)"
    "line_of (s ! p) = (dirty, d)" "\<forall>j \<le> p. full_block n (ce_data (s ! j))"
    using set_holder [OF c(1), of a] by (metis option.inject option.distinct(1) present_iff_dom)
  let ?e = "(s ! p)\<lparr>ce_data := d'\<rparr>"
  have e: "valid_entry ?e" "holds a ?e" "line_of ?e = (dirty, d')"
    using p(2,4) by (simp_all add: holds_iff line_of_def tag_of_def)
  have "unat (row (ce_address ?e)) = unat (row a)" "unat (decodeFunc cb (ce_address ?e)) = unat (decodeFunc cb a)"
    using c(3) p(1,2) nth_mem [OF p(1)] by (auto simp: placed_def holds_iff)
  moreover have "update_loop a d' s = Some (True, s[p := ?e])"
    using p assms(3) by (intro update_loop_at [of p s a n]) simp_all
  ultimately show ?thesis
    using replace_entry_ok [OF assms(1) s p(1), of ?e] p e s assms(2,3) same_frame_store
    by (simp add: UpdateData_def Present_contents [OF s] assert_that_def)
qed

lemma Evict_ok:
  assumes "cache_ok n cb" and "contents cb (key_of (decodeFunc cb) a) = Some (dirty, d)" and "fit_block n out"
  shows "\<exists>cb'. Evict a out cb = Some (dirty, d, cb') \<and> cache_ok n cb' \<and> same_frame cb cb'
    \<and> contents cb' = (contents cb)(key_of (decodeFunc cb) a := None)"
proof -
  obtain s where s: "FindSet a cb = Some s"
    using contents_FindSet [OF assms(2)] by blast
  note c = cache_ok_set [OF assms(1) s]
  have m: "set_map s (physicalAddress a) = Some (dirty, d)"
    using contents_key [OF s] assms(2) by simp
  then obtain p where p: "p < length s" "holds a (s ! p)" "\<forall>j < length s. j \<noteq> p \<longrightarrow> \<not> holds a (s ! j)"
    "line_of (s ! p) = (dirty, d)" "\<forall>j \<le> p. full_block n (ce_data (s ! j))"
    using set_holder [OF c(1), of a] by (metis option.inject option.distinct(1) present_iff_dom)
  let ?e = "(s ! p)\<lparr>ce_flags := CACHE_ENTRY_NONE\<rparr>"
  have "evict_loop a out s = Some (dirty, d, s[p := ?e])"
    using evict_loop_at [OF p(1) _ p(2) _ assms(3)] p by (simp add: line_of_def)
  moreover have "valid_entry (s ! p)" "ce_flags ?e = 0"
    using p(2) by (simp_all add: holds_iff CACHE_ENTRY_NONE_def)
  ultimately show ?thesis
    using replace_entry_ok [OF assms(1) s p(1), of ?e] p s assms(2) same_frame_store
    by (simp add: Evict_def Present_contents [OF s] assert_that_def)
qed

end
