(* ===== verification/Cache_Store.thy ===== *)
theory Cache_Store
  imports Cache_Bank
begin

text \<open>
  What the cache of theory \<open>Cache_Bank\<close> promises: without \<^verbatim>\<open>Write\<close> it refines a bounded store of
  lines, reads keep the lines in order of use, a write that misses loses no line; and where
  \<^verbatim>\<open>Write\<close> breaks the set.
\<close>

subsection \<open>Refinement of a store\<close>

text \<open>Operations one after the other, with their results.\<close>

fun run_ops :: "('o \<Rightarrow> 'c \<Rightarrow> ('r \<times> 'c) option) \<Rightarrow> 'o list \<Rightarrow> 'c \<Rightarrow> ('r list \<times> 'c) option" where
  "run_ops act [] c = Some ([], c)"
| "run_ops act (x # xs) c = do { (r, c1) \<leftarrow> act x c; (rs, c2) \<leftarrow> run_ops act xs c1; Some (r # rs, c2) }"

text \<open>A detailed state implements an abstract one: whatever the specification answers, the code
  answers too. \<open>ok\<close> is the invariant, \<open>abs\<close> the abstraction.\<close>

locale stepwise_refinement =
  fixes ok :: "'c \<Rightarrow> bool" and abs :: "'c \<Rightarrow> 'm" and act :: "'o \<Rightarrow> 'c \<Rightarrow> ('r \<times> 'c) option" and spec :: "'o \<Rightarrow> 'm \<Rightarrow> ('r \<times> 'm) option"
  assumes simulates: "ok c \<Longrightarrow> spec x (abs c) = Some (r, m) \<Longrightarrow> \<exists>c'. act x c = Some (r, c') \<and> ok c' \<and> abs c' = m"
begin

lemma runs:
  "ok c \<Longrightarrow> run_ops spec xs (abs c) = Some (rs, m) \<Longrightarrow> \<exists>c'. run_ops act xs c = Some (rs, c') \<and> ok c' \<and> abs c' = m"
proof (induction xs arbitrary: c rs)
  case (Cons x xs)
  from Cons.prems(2) obtain r m1 rs' where step: "spec x (abs c) = Some (r, m1)" and rest: "run_ops spec xs m1 = Some (rs', m)" and "rs = r # rs'"
    by (auto elim!: bind_SomeE)
  from simulates [OF Cons.prems(1) step] obtain c1 where c1: "act x c = Some (r, c1)" "ok c1" "abs c1 = m1"
    by blast
  from Cons.IH [OF c1(2)] rest c1(3) obtain c2 where "run_ops act xs c1 = Some (rs', c2)" "ok c2" "abs c2 = m"
    by blast
  with c1(1) \<open>rs = r # rs'\<close> show ?case by simp
qed simp

end

datatype cache_op = Op_install NVMAddress NVMDataBlock | Op_read NVMAddress | Op_update NVMAddress NVMDataBlock | Op_evict NVMAddress

definition cache_act :: "cache_op \<Rightarrow> CacheBank \<Rightarrow> ((bool \<times> NVMDataBlock option) \<times> CacheBank) option" where
  "cache_act x cb = (case x of
       Op_install a d \<Rightarrow> do { (rv, cb') \<leftarrow> Install a d cb; Some ((rv, None), cb') }
     | Op_read a \<Rightarrow> do { (rv, d, cb') \<leftarrow> CacheBank_Read a NVMDataBlock_new cb; Some ((rv, Some d), cb') }
     | Op_update a d \<Rightarrow> do { (rv, cb') \<leftarrow> UpdateData a d cb; Some ((rv, None), cb') }
     | Op_evict a \<Rightarrow> do { (rv, d, cb') \<leftarrow> Evict a NVMDataBlock_new cb; Some ((rv, Some d), cb') })"

text \<open>The specification: a partial map from lines to their dirty bit and data. A line is installed
  clean if its set has room; an install into a full set is refused.\<close>

definition set_lines :: "nat \<Rightarrow> nat \<Rightarrow> (line_key \<rightharpoonup> 'v) \<Rightarrow> nat" where
  "set_lines r k m = card (dom (\<lambda>t. m (r, k, t)))"

definition store_spec ::
  "nat \<Rightarrow> uint64 \<Rightarrow> (NVMAddress \<Rightarrow> uint64) \<Rightarrow> (NVMAddress \<Rightarrow> bool) \<Rightarrow> cache_op \<Rightarrow> (line_key \<rightharpoonup> bool \<times> NVMDataBlock)
     \<Rightarrow> ((bool \<times> NVMDataBlock option) \<times> (line_key \<rightharpoonup> bool \<times> NVMDataBlock)) option" where
  "store_spec n assoc dec inr x m = (case x of
       Op_install a d \<Rightarrow>
         if inr a \<and> full_block n d \<and> m (key_of dec a) = None
         then if set_lines (unat (row a)) (unat (dec a)) m < unat assoc then Some ((True, None), m(key_of dec a \<mapsto> (False, d)))
              else Some ((False, None), m)
         else None
     | Op_read a \<Rightarrow> do { (dirty, d) \<leftarrow> m (key_of dec a); Some ((True, Some d), m) }
     | Op_update a d \<Rightarrow> if full_block n d then do { (dirty, _) \<leftarrow> m (key_of dec a); Some ((True, None), m(key_of dec a \<mapsto> (dirty, d))) } else None
     | Op_evict a \<Rightarrow> do { (dirty, d) \<leftarrow> m (key_of dec a); Some ((dirty, Some d), m(key_of dec a := None)) })"

definition store_ok :: "nat \<Rightarrow> uint64 \<Rightarrow> (NVMAddress \<Rightarrow> uint64) \<Rightarrow> (NVMAddress \<Rightarrow> bool) \<Rightarrow> CacheBank \<Rightarrow> bool" where
  "store_ok n assoc dec inr cb \<longleftrightarrow> cache_ok n cb \<and> decodeFunc cb = dec \<and> numAssoc cb = assoc \<and> (\<forall>a. FindSet a cb \<noteq> None \<longleftrightarrow> inr a)"

lemma store_ok_frame: "store_ok n assoc dec inr cb \<Longrightarrow> cache_ok n cb' \<Longrightarrow> same_frame cb cb' \<Longrightarrow> store_ok n assoc dec inr cb'"
  unfolding store_ok_def same_frame_def by metis

lemma install_refines:
  assumes "store_ok n assoc dec inr cb" and "inr a" and "full_block n d" and "contents cb (key_of dec a) = None"
  shows "\<exists>cb'. Install a d cb = Some (set_lines (unat (row a)) (unat (dec a)) (contents cb) < unat assoc, cb') \<and> store_ok n assoc dec inr cb'
    \<and> contents cb' = (if set_lines (unat (row a)) (unat (dec a)) (contents cb) < unat assoc then (contents cb)(key_of dec a \<mapsto> (False, d)) else contents cb)"
proof -
  have ok: "cache_ok n cb" "decodeFunc cb = dec" "numAssoc cb = assoc"
    using assms(1) by (simp_all add: store_ok_def)
  obtain s where s: "FindSet a cb = Some s"
    using assms(1,2) unfolding store_ok_def by blast
  note c = cache_ok_set [OF ok(1) s]
  have "(\<lambda>t. contents cb (unat (row a), unat (dec a), t)) = set_map s"
    using c(4) ok(2) by auto
  then have room: "set_lines (unat (row a)) (unat (dec a)) (contents cb) < unat assoc \<longleftrightarrow> (\<exists>e \<in> set s. \<not> valid_entry e)"
    using set_full_count(2) [OF c(1)] c(2) ok(3) by (auto simp: set_lines_def)
  show ?thesis
  proof (cases "\<exists>e \<in> set s. \<not> valid_entry e")
    case True
    then show ?thesis
      using Install_ok [OF ok(1) s _ assms(3) True] assms(4) ok(2) room store_ok_frame [OF assms(1)] by fastforce
  next
    case False
    then have "Install a d cb = Some (False, cb)"
      using Install_full [OF s, of d] store_set_triv [OF s] by auto
    with False room assms(1) show ?thesis by auto
  qed
qed

interpretation store: stepwise_refinement "store_ok n assoc dec inr" contents cache_act "store_spec n assoc dec inr"
proof
  fix cb x r m
  assume ok: "store_ok n assoc dec inr cb" and sp: "store_spec n assoc dec inr x (contents cb) = Some (r, m)"
  then have c: "cache_ok n cb" "decodeFunc cb = dec"
    by (simp_all add: store_ok_def)
  note keep = store_ok_frame [OF ok]
  show "\<exists>cb'. cache_act x cb = Some (r, cb') \<and> store_ok n assoc dec inr cb' \<and> contents cb' = m"
  proof (cases x)
    case (Op_install a d)
    with sp install_refines [OF ok, of a d] show ?thesis
      by (fastforce simp: store_spec_def cache_act_def split: if_splits)
  next
    case (Op_read a)
    with sp obtain dirty d where "contents cb (key_of dec a) = Some (dirty, d)" "r = (True, Some d)" "m = contents cb"
      by (auto simp: store_spec_def elim!: bind_SomeE)
    with Op_read Read_ok [OF c(1), of a dirty d NVMDataBlock_new] c(2) keep show ?thesis
      by (fastforce simp: cache_act_def)
  next
    case (Op_update a d')
    with sp obtain dirty d where "contents cb (key_of dec a) = Some (dirty, d)" "full_block n d'" "r = (True, None)"
        "m = (contents cb)(key_of dec a \<mapsto> (dirty, d'))"
      by (auto simp: store_spec_def elim!: bind_SomeE split: if_splits)
    with Op_update Update_ok [OF c(1), of a dirty d d'] c(2) keep show ?thesis
      by (fastforce simp: cache_act_def)
  next
    case (Op_evict a)
    with sp obtain dirty d where "contents cb (key_of dec a) = Some (dirty, d)" "r = (dirty, Some d)" "m = (contents cb)(key_of dec a := None)"
      by (auto simp: store_spec_def elim!: bind_SomeE)
    with Op_evict Evict_ok [OF c(1), of a dirty d NVMDataBlock_new] c(2) keep show ?thesis
      by (fastforce simp: cache_act_def)
  qed
qed

definition in_cache :: "uint64 \<Rightarrow> uint64 \<Rightarrow> NVMAddress \<Rightarrow> bool" where
  "in_cache rows sets a \<longleftrightarrow> row a < rows \<and> DefaultDecoder sets a < sets"

lemma store_ok_new: "store_ok n assoc (DefaultDecoder sets) (in_cache rows sets) (CacheBank_new rows sets assoc lsz)"
  using cache_ok_new by (auto simp: store_ok_def FindSet_def SetID_def CacheBank_new_def in_cache_def word_less_nat_alt)

text \<open>C29: A new cache implements the bounded store: for every sequence of installs, reads, updates and
  evictions that the specification allows, the code gives the same answers (the data and dirty bit
  of every line read or evicted, and whether an install found room) and ends with the same contents.\<close>

theorem cache_refines_store:
  assumes "run_ops (store_spec n assoc (DefaultDecoder sets) (in_cache rows sets)) xs Map.empty = Some (rs, m)"
  shows "\<exists>cb. run_ops cache_act xs (CacheBank_new rows sets assoc lsz) = Some (rs, cb) \<and> contents cb = m \<and> cache_ok n cb"
  using store.runs [OF store_ok_new] assms contents_new by (fastforce simp: store_ok_def)

subsection \<open>Order of use\<close>

fun read_lines :: "NVMAddress list \<Rightarrow> CacheBank \<Rightarrow> CacheBank option" where
  "read_lines [] cb = Some cb"
| "read_lines (a # as) cb = do { (_, _, cb') \<leftarrow> CacheBank_Read a NVMDataBlock_new cb; read_lines as cb' }"

definition same_set :: "CacheBank \<Rightarrow> NVMAddress \<Rightarrow> NVMAddress \<Rightarrow> bool" where
  "same_set cb a b \<longleftrightarrow> row a = row b \<and> decodeFunc cb a = decodeFunc cb b"

lemma same_set_FindSet: "same_set cb a b \<Longrightarrow> FindSet a cb = FindSet b cb"
  by (simp add: same_set_def FindSet_def SetID_def)

lemma same_set_store: "same_set cb a b \<Longrightarrow> store_set a s cb = store_set b s cb"
  by (simp add: same_set_def store_set_def SetID_def)

text \<open>Behind a line there are only lines that have not been read since.\<close>

lemma to_front_behind:
  assumes "s = ys @ e # zs" and "i < length s" and "i \<noteq> length ys"
  obtains ys' zs' where "to_front i s = ys' @ e # zs'" and "set zs' \<subseteq> set zs"
    and "i < length ys \<Longrightarrow> zs' = zs" and "length ys < i \<Longrightarrow> mset zs = mset zs' + {#s ! i#}"
proof (cases "i < length ys")
  case True
  then show thesis
    using assms(1) by (intro that [of "ys ! i # take i ys @ drop (Suc i) ys" zs]) (simp_all add: to_front_def nth_append)
next
  case False
  define k where "k = i - Suc (length ys)"
  have k: "i = length ys + Suc k" "k < length zs"
    using False assms by (simp_all add: k_def)
  then have "mset zs = mset (take k zs @ zs ! k # drop (Suc k) zs)"
    by (subst id_take_nth_drop [symmetric]) simp_all
  then show thesis
    using assms(1) k by (intro that [of "zs ! k # ys" "take k zs @ drop (Suc k) zs"])
      (auto simp: to_front_def nth_append dest: in_set_takeD in_set_dropD)
qed

lemma reads_push_back:
  assumes "cache_ok n cb" and "FindSet x cb = Some (ys @ e # zs)" and "holds x e"
    and "\<forall>a \<in> set as. same_set cb a x \<and> physicalAddress a \<noteq> physicalAddress x \<and> contents cb (key_of (decodeFunc cb) a) \<noteq> None"
    and "\<forall>z \<in> set zs. valid_entry z \<and> tag_of z \<in> physicalAddress ` set as"
  shows "\<exists>cb' ys'. read_lines as cb = Some cb' \<and> cache_ok n cb' \<and> FindSet x cb' = Some (ys' @ [e]) \<and> mset (ys' @ [e]) = mset (ys @ e # zs)"
  using assms
proof (induction as arbitrary: cb ys zs)
  case (Cons a as)
  let ?s = "ys @ e # zs"
  have a: "same_set cb a x" "physicalAddress a \<noteq> physicalAddress x"
    using Cons.prems(4) by simp_all
  obtain dirty d where d: "contents cb (key_of (decodeFunc cb) a) = Some (dirty, d)"
    using Cons.prems(4) by fastforce
  have fa: "FindSet a cb = Some ?s"
    using Cons.prems(2) same_set_FindSet [OF a(1)] by simp
  obtain i where i: "i < length ?s" "holds a (?s ! i)" "CacheBank_Read a NVMDataBlock_new cb = Some (True, d, store_set a (to_front i ?s) cb)"
    "cache_ok n (store_set a (to_front i ?s) cb)" "contents (store_set a (to_front i ?s) cb) = contents cb"
    using Read_front [OF Cons.prems(1) fa d, of NVMDataBlock_new] by auto
  let ?cb = "store_set a (to_front i ?s) cb"
  have ne: "i \<noteq> length ys"
    using i(2) Cons.prems(3) a(2) by (auto simp: holds_iff)
  obtain ys' zs' where f: "to_front i ?s = ys' @ e # zs'" "set zs' \<subseteq> set zs" "i < length ys \<Longrightarrow> zs' = zs" "length ys < i \<Longrightarrow> mset zs = mset zs' + {#?s ! i#}"
    using to_front_behind [OF refl i(1) ne] by blast
  have dist: "distinct (valid_tags ?s)"
    using set_okD(2) [OF cache_ok_set(1) [OF Cons.prems(1,2)]] .
  have "tag_of z \<noteq> physicalAddress a" if z: "z \<in> set zs'" for z
  proof
    assume t: "tag_of z = physicalAddress a"
    have vz: "valid_entry z" "tag_of (?s ! i) = tag_of z" "valid_entry (?s ! i)"
      using z f(2) Cons.prems(5) i(2) t by (auto simp: holds_iff)
    have "mset (valid_tags (to_front i ?s)) = mset (valid_tags ?s)"
      using mset_to_front [OF i(1)] by (metis mset_filter mset_map)
    then have "distinct (valid_tags (to_front i ?s))"
      using dist mset_eq_imp_distinct_iff by blast
    moreover have "to_front i ?s = ?s ! i # take i ?s @ drop (Suc i) ?s"
      by (simp only: to_front_def)
    ultimately have "tag_of (?s ! i) \<notin> set (valid_tags (tl (to_front i ?s)))"
      using vz(3) by simp
    moreover have "z \<in> set (tl (to_front i ?s))"
      using z f(1) by (cases ys') (auto simp: tl_append split: list.splits)
    ultimately show False
      using vz by (auto simp: f(1))
  qed
  then have rest: "\<forall>z \<in> set zs'. valid_entry z \<and> tag_of z \<in> physicalAddress ` set as"
    using f(2) Cons.prems(5) by fastforce
  have fx: "FindSet x ?cb = Some (ys' @ e # zs')"
    using FindSet_store_set [OF Cons.prems(2)] same_set_store [OF a(1)] f(1) by simp
  have others: "\<forall>b \<in> set as. same_set ?cb b x \<and> physicalAddress b \<noteq> physicalAddress x \<and> contents ?cb (key_of (decodeFunc ?cb) b) \<noteq> None"
    using Cons.prems(4) i(5) by (simp add: same_set_def)
  from Cons.IH [OF i(4) fx Cons.prems(3) others rest] obtain cb' ys'' where IH: "read_lines as ?cb = Some cb'" "cache_ok n cb'"
      "FindSet x cb' = Some (ys'' @ [e])" "mset (ys'' @ [e]) = mset (ys' @ e # zs')"
    by blast
  have "mset (ys' @ e # zs') = mset ?s"
    using mset_to_front [OF i(1)] f(1) by simp
  with IH i(3) show ?case
    by (intro exI [of _ cb'] exI [of _ ys'']) simp
qed auto

text \<open>C30: The victim is the least recently used line: when a set is full and every other line of it
  has been read after the last read of \<open>x\<close>, the line chosen for eviction is \<open>x\<close>.\<close>

theorem victim_is_lru:
  assumes "cache_ok n cb" and "FindSet x cb = Some s" and "\<forall>e \<in> set s. valid_entry e" and "\<exists>e \<in> set s. holds x e"
    and "\<forall>a \<in> set as. same_set cb a x \<and> physicalAddress a \<noteq> physicalAddress x \<and> contents cb (key_of (decodeFunc cb) a) \<noteq> None"
    and "\<forall>e \<in> set s. holds x e \<or> tag_of e \<in> physicalAddress ` set as"
  shows "\<exists>cb' dirty victim. read_lines as cb = Some cb' \<and> ChooseVictim x cb' = Some (dirty, victim) \<and> physicalAddress victim = physicalAddress x"
proof -
  obtain ys e zs where s: "s = ys @ e # zs" "holds x e"
    using assms(4) split_list by fast
  have dist: "distinct (valid_tags s)"
    using set_okD(2) [OF cache_ok_set(1) [OF assms(1,2)]] .
  have "\<forall>z \<in> set zs. valid_entry z \<and> tag_of z \<in> physicalAddress ` set as"
  proof
    fix z assume z: "z \<in> set zs"
    then have "\<not> holds x z"
      using dist s by (fastforce simp: holds_iff image_iff)
    with z assms(3,6) s(1) show "valid_entry z \<and> tag_of z \<in> physicalAddress ` set as"
      by auto
  qed
  with reads_push_back [OF assms(1) assms(2) [unfolded s(1)] s(2) assms(5)] obtain cb' ys' where
    r: "read_lines as cb = Some cb'" "FindSet x cb' = Some (ys' @ [e])" "mset (ys' @ [e]) = mset s"
    unfolding s(1) by blast
  have "set (ys' @ [e]) = set s"
    using r(3) by (rule mset_eq_setD)
  then have full: "\<forall>y \<in> set (ys' @ [e]). valid_entry y"
    using assms(3) by simp
  have "ChooseVictim x cb' = Some (dirty_entry e, ce_address e)"
    using r(2) full by (simp add: ChooseVictim_def SetFull_def assert_that_def)
  moreover have "physicalAddress (ce_address e) = physicalAddress x"
    using s(2) by (simp add: holds_def)
  ultimately show ?thesis
    using r(1) by blast
qed


subsection \<open>Writes\<close>

text \<open>The positions after a write of the line at \<open>i\<close>: the shift leaves position 1 alone, so what was at
  position 0 is overwritten.\<close>

lemma Write_positions:
  assumes "cache_ok n cb" and "FindSet a cb = Some s" and "i < length s" and "holds a (s ! i)" and "full_block n d"
  shows "\<exists>s'. CacheBank_Write a d cb = Some (True, store_set a s' cb) \<and> length s' = length s
    \<and> (\<forall>k < length s. s' ! k = (if k = 0 \<or> k = i \<and> i \<le> 1 then (s ! i)\<lparr>ce_data := d, ce_flags := set_flag (ce_flags (s ! i)) CACHE_ENTRY_DIRTY\<rparr>
         else if 1 < k \<and> k \<le> i then s ! (k - 1) else s ! k))"
proof -
  note c = cache_ok_set [OF assms(1,2)]
  have h: "\<exists>e \<in> set s. holds a e"
    using assms(3,4) nth_mem by blast
  obtain j where j: "j < length s" "holds a (s ! j)" "\<forall>k < length s. k \<noteq> j \<longrightarrow> \<not> holds a (s ! k)" "\<forall>k \<le> j. full_block n (ce_data (s ! k))"
    using set_holder [OF c(1) h] by metis
  then have i: "j = i" "\<forall>k < length s. k \<noteq> i \<longrightarrow> \<not> holds a (s ! k)" "\<forall>k \<le> i. full_block n (ce_data (s ! k))"
    using assms(3,4) by blast+
  let ?e = "(s ! i)\<lparr>ce_data := d, ce_flags := set_flag (ce_flags (s ! i)) CACHE_ENTRY_DIRTY\<rparr>"
  have full: "full_block n (ce_data (s[i := ?e] ! k))" if "k \<le> i" for k
    using that i(3) assms(3,5) by (cases "k = i") simp_all
  obtain s' where s': "move_front 1 i (s[i := ?e]) = Some s'" "length s' = length s"
    "\<And>k. k < length s \<Longrightarrow> s' ! k = (if k = 0 then s[i := ?e] ! i else if 1 < k \<and> k \<le> i then s[i := ?e] ! (k - 1) else s[i := ?e] ! k)"
    using move_front_nth [of i "s[i := ?e]" n 1] full assms(3) by (metis length_list_update)
  have pos: "s' ! k = (if k = 0 \<or> k = i \<and> i \<le> 1 then ?e else if 1 < k \<and> k \<le> i then s ! (k - 1) else s ! k)" if "k < length s" for k
    using s'(3) [OF that] assms(3) by (auto simp: nth_list_update)
  have later: "write_loop a d [Suc i..<length s] (True, s') = Some (True, s')"
    using pos i(2) by (intro write_loop_skip) auto
  have before: "write_loop a d [0..<i] (False, s) = Some (False, s)"
    using i(2) assms(3) by (intro write_loop_skip) auto
  have "write_loop a d [0..<length s] (False, s) = Some (True, s')"
    using before later s'(1) assms(4) block_assign_full [OF assms(5), of "ce_data (s ! i)"] i(3)
    by (simp add: upt_split [OF assms(3)] write_loop_append)
  moreover have "Present a cb = Some True"
    using assms(2) h by (simp add: Present_def)
  ultimately show ?thesis
    using assms(2) s'(2) pos by (intro exI [of _ s']) (simp add: CacheBank_Write_def assert_that_def)
qed

text \<open>A write to a line that is not the most recently used one removes the most recently used line
  from the cache, dirty or not, without evicting it.\<close>

lemma write_loses_line:
  assumes "cache_ok n cb" and "FindSet a cb = Some s" and "0 < i" "i < length s" and "holds a (s ! i)" and "full_block n d"
    and "valid_entry (s ! 0)"
  shows "\<exists>cb'. CacheBank_Write a d cb = Some (True, cb') \<and> Present (ce_address (s ! 0)) cb = Some True
    \<and> Present (ce_address (s ! 0)) cb' = Some False"
proof -
  note c = cache_ok_set [OF assms(1,2)]
  obtain s' where s': "CacheBank_Write a d cb = Some (True, store_set a s' cb)" "length s' = length s"
    "\<forall>k < length s. s' ! k = (if k = 0 \<or> k = i \<and> i \<le> 1 then (s ! i)\<lparr>ce_data := d, ce_flags := set_flag (ce_flags (s ! i)) CACHE_ENTRY_DIRTY\<rparr>
         else if 1 < k \<and> k \<le> i then s ! (k - 1) else s ! k)"
    using Write_positions [OF assms(1,2,4,5,6)] by blast
  let ?b = "ce_address (s ! 0)"
  have "0 < length s"
    using assms(4) by linarith
  then have "unat (row ?b) = unat (row a)" "unat (decodeFunc cb ?b) = unat (decodeFunc cb a)"
    using c(3) assms(7) nth_mem by (auto simp: placed_def)
  then have same: "same_set cb ?b a"
    by (simp add: same_set_def word_unat_eq_iff)
  have "\<not> holds ?b (s' ! k)" if "k < length s" for k
  proof -
    have "valid_entry (s ! m) \<Longrightarrow> tag_of (s ! m) = tag_of (s ! 0) \<Longrightarrow> m < length s \<Longrightarrow> m = 0" for m
      using valid_tags_nth [OF set_okD(2) [OF c(1)], of m 0] \<open>0 < length s\<close> assms(7) by blast
    note uniq = this
    have "tag_of (s ! i) \<noteq> tag_of (s ! 0)"
      using uniq [of i] assms(3,4,5) by (auto simp: holds_iff)
    moreover have "k - 1 < length s"
      using that by simp
    ultimately show ?thesis
      using uniq [of k] uniq [of "k - 1"] that s'(3) assms(3) by (auto simp: holds_def tag_of_def)
  qed
  then have "\<not> (\<exists>e \<in> set s'. holds ?b e)"
    using s'(2) by (auto simp: in_set_conv_nth)
  moreover have "FindSet ?b (store_set a s' cb) = Some s'"
    using same_set_FindSet [of "store_set a s' cb" ?b a] same FindSet_store_set [OF assms(2)] by (simp add: same_set_def)
  moreover have "holds ?b (s ! 0)"
    using assms(7) by (simp add: holds_def)
  moreover have "FindSet ?b cb = Some s"
    using same_set_FindSet [OF same] assms(2) by simp
  ultimately show ?thesis
    using s'(1) \<open>0 < length s\<close> nth_mem by (auto simp: Present_def)
qed

text \<open>A cache write that misses: the victim of a full set is sent back before the new line is
  installed.\<close>

lemma victim_in_set:
  assumes "cache_ok n cb" and "FindSet a cb = Some s" and "s \<noteq> []" and "\<forall>e \<in> set s. valid_entry e"
  shows "ChooseVictim a cb = Some (dirty_entry (last s), ce_address (last s))"
    and "same_set cb (ce_address (last s)) a"
    and "contents cb (key_of (decodeFunc cb) (ce_address (last s))) = Some (line_of (last s))"
    and "full_block n (ce_data (last s))"
proof -
  note c = cache_ok_set [OF assms(1,2)]
  let ?e = "last s"
  have e: "?e \<in> set s" "valid_entry ?e" "?e = s ! (length s - 1)" "length s - 1 < length s"
    using assms(3,4) by (simp_all add: last_conv_nth)
  show "ChooseVictim a cb = Some (dirty_entry ?e, ce_address ?e)"
    using assms by (simp add: ChooseVictim_def SetFull_def assert_that_def)
  show same: "same_set cb (ce_address ?e) a"
    using c(3) e(1,2) by (simp add: placed_def same_set_def word_unat_eq_iff)
  show "contents cb (key_of (decodeFunc cb) (ce_address ?e)) = Some (line_of ?e)"
    using contents_key [of "ce_address ?e" cb s] same_set_FindSet [OF same] assms(2) set_map_entry [OF set_okD(2) [OF c(1)] e(1,2)]
    by (simp add: tag_of_def)
  show "full_block n (ce_data ?e)"
    using filledD(2) [OF set_okD(1) [OF c(1)] e(4), of "length s - 1"] e by simp
qed

definition handed_back :: "(nat \<rightharpoonup> CacheRequest) \<Rightarrow> World \<Rightarrow> ncycle_t \<Rightarrow> nat \<Rightarrow> CacheRequest \<Rightarrow> bool" where
  "handed_back infos w t i ev \<longleftrightarrow> infos i = Some ev \<and> (\<exists>r req. heap w r = Some req \<and> reqInfo req = Some i
     \<and> (\<exists>x \<in> set (events_at (evq w) t). ev_type x = EventResponse \<and> ev_request x = Some r))"

lemma respond_ok:
  assumes "world_ok w" and "find_hook (ca_hooks env) (ca_self env) = Some hook"
  shows "\<exists>w'. respond env r (w, infos, cb) = Some (w', infos, cb) \<and> world_ok w' \<and> heap w' = heap w \<and> now w' = now w \<and> next_ref w' = Suc (next_ref w)
    \<and> (\<forall>t. set (events_at (evq w) t) \<subseteq> set (events_at (evq w') t))
    \<and> (\<exists>x \<in> set (events_at (evq w') (stateTimer cb)). ev_type x = EventResponse \<and> ev_request x = Some r)"
proof -
  let ?t = "stateTimer cb"
  obtain w' where w': "insert_response (ca_hooks env) (ca_self env) r ?t w = Some w'"
    using insert_response_Some [OF assms(2)] by blast
  obtain h where ev: "events_at (evq w') = (events_at (evq w))(?t := insert_by_priority (response_event (next_ref w) h r ?t) 0 (events_at (evq w) ?t))"
    using insert_response_events [OF w' assms(1)] by metis
  then have "\<forall>t. set (events_at (evq w) t) \<subseteq> set (events_at (evq w') t)"
      "response_event (next_ref w) h r ?t \<in> set (events_at (evq w') ?t)"
    by auto
  then show ?thesis
    using w' insert_response_ok [OF assms(1) w'] insert_response_fields [OF w']
    by (intro exI [of _ w']) (auto simp: respond_def intro!: bexI [of _ "response_event (next_ref w) h r ?t"])
qed

lemma busy_cache [simp]:
  "decodeFunc (cb\<lparr>cb_state := st, stateTimer := t\<rparr>) = decodeFunc cb" "stateTimer (cb\<lparr>cb_state := st, stateTimer := t\<rparr>) = t"
  "contents (cb\<lparr>cb_state := st, stateTimer := t\<rparr>) = contents cb" "cache_ok n (cb\<lparr>cb_state := st, stateTimer := t\<rparr>) = cache_ok n cb"
  "FindSet a (cb\<lparr>cb_state := st, stateTimer := t\<rparr>) = FindSet a cb"
  by (auto simp: contents_def cache_ok_def FindSet_def SetID_def fun_eq_iff)

lemma evict_makes_room:
  assumes "cache_ok n cb" and "FindSet a cb = Some s" and "s \<noteq> []" and "\<forall>e \<in> set s. valid_entry e" and "same_set cb v a"
    and "cache_ok n cb'" and "same_frame cb cb'" and "contents cb (key_of (decodeFunc cb) v) \<noteq> None"
    and "contents cb' = (contents cb)(key_of (decodeFunc cb) v := None)"
  shows "\<exists>s'. FindSet a cb' = Some s' \<and> (\<exists>e \<in> set s'. \<not> valid_entry e)"
proof -
  obtain s' where s': "FindSet a cb' = Some s'"
    using assms(2,7) by (metis same_frame_def option.exhaust option.distinct(1))
  have dec: "decodeFunc cb' = decodeFunc cb" "numAssoc cb' = numAssoc cb"
    using assms(7) by (simp_all add: same_frame_def)
  note c = cache_ok_set [OF assms(1,2)] and c' = cache_ok_set [OF assms(6) s']
  have key: "key_of (decodeFunc cb) v = (unat (row a), unat (decodeFunc cb a), physicalAddress v)"
    using assms(5) by (simp add: key_of_def same_set_def)
  have "set_map s' t = ((set_map s)(physicalAddress v := None)) t" for t
    using c(4) [of t] c'(4) [of t, symmetric] assms(9) dec(1) key by simp
  then have "dom (set_map s') = dom (set_map s) - {physicalAddress v}"
    by (auto simp: dom_def)
  moreover have "physicalAddress v \<in> dom (set_map s)"
    using assms(8) key c(4) by (auto simp: domIff)
  moreover have "finite (dom (set_map s))"
    by (simp add: dom_set_map)
  ultimately have "card (dom (set_map s')) < card (dom (set_map s))"
    by (simp only: card_Diff1_less)
  also have "card (dom (set_map s)) \<le> length s"
    using set_full_count(1) [OF c(1)] by simp
  finally have "card (dom (set_map s')) < length s'"
    using c(2) c'(2) dec(2) by simp
  then show ?thesis
    using s' set_full_count(2) [OF c'(1)] by blast
qed

lemma make_room_ok:
  assumes "world_ok w" and "find_hook (ca_hooks env) (ca_self env) = Some hook" and "heap w r = Some nreq"
    and "cache_ok n cb" and "FindSet (cr_address req) cb = Some s" and "s \<noteq> []" and "\<forall>e \<in> set s. valid_entry e"
  shows "\<exists>w' cb' ev e. make_room env r req (w, infos, cb) = Some (w', infos(e \<mapsto> ev), cb') \<and> world_ok w' \<and> now w' = now w
    \<and> heap w' r = Some nreq \<and> e = next_ref w \<and> cache_ok n cb' \<and> same_frame cb cb' \<and> optype ev = CACHE_EVICT
    \<and> contents cb (key_of (decodeFunc cb) (cr_address ev)) = Some (dirty_entry (last s), cr_data ev)
    \<and> contents cb' = (contents cb)(key_of (decodeFunc cb) (cr_address ev) := None)
    \<and> handed_back (infos(e \<mapsto> ev)) w' (stateTimer cb) e ev \<and> (\<exists>s'. FindSet (cr_address req) cb' = Some s' \<and> (\<exists>e \<in> set s'. \<not> valid_entry e))"
proof -
  note v = victim_in_set [OF assms(4-7)]
  let ?a = "ce_address (last s)" and ?e = "next_ref w"
  let ?w0 = "w\<lparr>next_ref := Suc ?e\<rparr>"
  let ?f = "\<lambda>q. q\<lparr>owner := owner nreq, reqInfo := Some ?e, tag := tag nreq\<rparr>"
  obtain cb' where cb': "Evict ?a NVMDataBlock_new cb = Some (dirty_entry (last s), ce_data (last s), cb')" "cache_ok n cb'" "same_frame cb cb'"
      "contents cb' = (contents cb)(key_of (decodeFunc cb) ?a := None)"
    using Evict_ok [OF assms(4) v(3) [unfolded line_of_def], of NVMDataBlock_new] by auto
  have w0: "world_ok ?w0"
    using assms(1) queue_good_mono [of ?e "evq w" "Suc ?e"] by (auto simp: world_ok_def less_Suc_eq)
  obtain w1 where w1: "copy_request r ?f ?w0 = Some (Suc ?e, w1)" "heap w1 = (heap w)(Suc ?e \<mapsto> ?f (nreq\<lparr>flags := 0, burstCount := 1, writeProgress := 0, cancellations := 0\<rparr>))"
      "now w1 = now w" "evq w1 = evq w"
    using copy_request_fresh [OF w0, of r nreq ?f] assms(3) by simp
  have ok1: "world_ok w1"
    using copy_request_ok [OF w0 w1(1)] by (simp add: request_ok_def)
  let ?ev = "\<lparr>optype = CACHE_EVICT, cr_address = ?a, cr_endAddr = NVMAddress_new, cr_data = ce_data (last s), cr_hit = False,
                  cr_owner = None, originalRequest = None\<rparr>"
  obtain w2 where w2: "respond env (Suc ?e) (w1, infos(?e \<mapsto> ?ev), cb') = Some (w2, infos(?e \<mapsto> ?ev), cb')" "world_ok w2" "heap w2 = heap w1" "now w2 = now w1"
      "\<exists>x \<in> set (events_at (evq w2) (stateTimer cb')). ev_type x = EventResponse \<and> ev_request x = Some (Suc ?e)"
    using respond_ok [OF ok1 assms(2), of "Suc ?e" "infos(?e \<mapsto> ?ev)" cb'] by blast
  have "r < next_ref w"
    using world_ok_heap [OF assms(1,3)] by simp
  then have "heap w2 r = Some nreq"
    using w1(2) w2(3) assms(3) by simp
  moreover have "handed_back (infos(?e \<mapsto> ?ev)) w2 (stateTimer cb) ?e ?ev"
    using w2(3,5) w1(2) cb'(3) unfolding handed_back_def
    by (intro conjI exI [of _ "Suc ?e"]) (simp_all add: same_frame_def)
  moreover have "make_room env r req (w, infos, cb) = Some (w2, infos(?e \<mapsto> ?ev), cb')"
    using assms(3) v(1) cb'(1) w1(1) w2(1) by (simp add: make_room_def Let_def)
  moreover have "\<exists>s'. FindSet (cr_address req) cb' = Some s' \<and> (\<exists>e \<in> set s'. \<not> valid_entry e)"
    using v(3) by (intro evict_makes_room [OF assms(4-7) v(2) cb'(2,3) _ cb'(4)]) simp
  ultimately show ?thesis
    using w2(2,4) w1(3) cb' v(3)
    by (intro exI [of _ w2] exI [of _ cb'] exI [of _ ?ev] exI [of _ ?e]) (simp add: line_of_def)
qed

text \<open>Every line is still there, or was handed back.\<close>

definition lines_kept ::
  "(NVMAddress \<Rightarrow> uint64) \<Rightarrow> (line_key \<rightharpoonup> bool \<times> NVMDataBlock) \<Rightarrow> (line_key \<rightharpoonup> bool \<times> NVMDataBlock) \<Rightarrow> (nat \<rightharpoonup> CacheRequest) \<Rightarrow> World \<Rightarrow> ncycle_t \<Rightarrow> bool" where
  "lines_kept dec m m' infos w t \<longleftrightarrow> (\<forall>k line. m k = Some line \<longrightarrow> m' k = Some line
     \<or> (\<exists>e ev. handed_back infos w t e ev \<and> optype ev = CACHE_EVICT \<and> key_of dec (cr_address ev) = k \<and> cr_data ev = snd line))"

lemma handed_back_mono:
  assumes "handed_back (infos(i := None)) w t e ev" and "heap w' = heap w" and "\<forall>t. set (events_at (evq w) t) \<subseteq> set (events_at (evq w') t)"
  shows "handed_back (infos(i := x)) w' t e ev"
  using assms by (auto simp: handed_back_def split: if_splits) blast

lemma prepare_room:
  assumes "world_ok w" and "find_hook (ca_hooks env) (ca_self env) = Some hook" and "heap w r = Some nreq" "i < next_ref w"
    and "cache_ok n cb" "FindSet (cr_address req) cb = Some s" "s \<noteq> []" and "contents cb (key_of (decodeFunc cb) (cr_address req)) = None"
  shows "\<exists>w2 infos2 cb2 s2. (if \<forall>e \<in> set s. valid_entry e then make_room env r req (w, infos, cb) else Some (w, infos, cb)) = Some (w2, infos2, cb2)
      \<and> world_ok w2 \<and> cache_ok n cb2 \<and> same_frame cb cb2 \<and> FindSet (cr_address req) cb2 = Some s2 \<and> (\<exists>e \<in> set s2. \<not> valid_entry e)
      \<and> contents cb2 (key_of (decodeFunc cb) (cr_address req)) = None
      \<and> lines_kept (decodeFunc cb) (contents cb) (contents cb2) (infos2(i := None)) w2 (stateTimer cb)"
proof (cases "\<forall>e \<in> set s. valid_entry e")
  case False
  then have m: "(if \<forall>e \<in> set s. valid_entry e then make_room env r req (w, infos, cb) else Some (w, infos, cb)) = Some (w, infos, cb)"
    by (simp only: if_False)
  from False show ?thesis
    unfolding m using assms(1,5,6,8)
    by (intro exI [of _ w] exI [of _ infos] exI [of _ cb] exI [of _ s]) (auto simp: same_frame_def lines_kept_def)
next
  case True
  obtain w2 cb2 ev e s2 where r: "make_room env r req (w, infos, cb) = Some (w2, infos(e \<mapsto> ev), cb2)" "world_ok w2" "e = next_ref w"
      "cache_ok n cb2" "same_frame cb cb2" "optype ev = CACHE_EVICT" "contents cb (key_of (decodeFunc cb) (cr_address ev)) = Some (dirty_entry (last s), cr_data ev)"
      "contents cb2 = (contents cb)(key_of (decodeFunc cb) (cr_address ev) := None)" "handed_back (infos(e \<mapsto> ev)) w2 (stateTimer cb) e ev"
      "FindSet (cr_address req) cb2 = Some s2" "\<exists>e \<in> set s2. \<not> valid_entry e"
    using make_room_ok [OF assms(1-3,5-7) True, of infos] by blast
  have "handed_back ((infos(e \<mapsto> ev))(i := None)) w2 (stateTimer cb) e ev"
    using r(3,9) assms(4) by (simp add: handed_back_def)
  then have "lines_kept (decodeFunc cb) (contents cb) (contents cb2) ((infos(e \<mapsto> ev))(i := None)) w2 (stateTimer cb)"
    using r(6-8) unfolding lines_kept_def by (metis fun_upd_other option.inject snd_conv)
  moreover have "contents cb2 (key_of (decodeFunc cb) (cr_address req)) = None"
    using r(8) assms(8) by simp
  ultimately show ?thesis
    using r(1,2,4,5,10,11) True by (metis (no_types, lifting))
qed

text \<open>C31: A write to a line that is not in the cache loses nothing: the command is accepted, the
  line is in the cache with the data of the request afterwards, and every line that was there is
  still there with its data and dirty bit, or is handed back to the requester in an eviction request whose
  response is scheduled for the end of the write.\<close>

theorem write_miss_keeps_lines:
  assumes "world_ok w" and "find_hook (ca_hooks env) (ca_self env) = Some hook"
    and "heap w r = Some nreq" "reqInfo nreq = Some i" "infos i = Some req" "optype req = CACHE_WRITE" "i < next_ref w"
    and "cache_ok n cb" "cb_state cb = CACHE_IDLE" "FindSet (cr_address req) cb = Some s" "s \<noteq> []"
    and "contents cb (key_of (decodeFunc cb) (cr_address req)) = None" "full_block n (cr_data req)"
  shows "\<exists>w' infos' cb'. CacheBank_IssueCommand env r (w, infos, cb) = Some (True, w', infos', cb') \<and> cache_ok n cb'
    \<and> contents cb' (key_of (decodeFunc cb) (cr_address req)) = Some (False, cr_data req)
    \<and> lines_kept (decodeFunc cb) (contents cb) (contents cb') infos' w' (now w + cb_writeTime cb)"
proof -
  let ?a = "cr_address req" and ?t = "now w + cb_writeTime cb"
  let ?cb1 = "cb\<lparr>cb_state := CACHE_BUSY, stateTimer := ?t\<rparr>"
  obtain w2 infos2 cb2 s2 where r: "(if \<forall>e \<in> set s. valid_entry e then make_room env r req (w, infos, ?cb1) else Some (w, infos, ?cb1)) = Some (w2, infos2, cb2)"
      "world_ok w2" "cache_ok n cb2" "same_frame ?cb1 cb2" "FindSet ?a cb2 = Some s2" "\<exists>e \<in> set s2. \<not> valid_entry e"
      "contents cb2 (key_of (decodeFunc cb) ?a) = None" "lines_kept (decodeFunc cb) (contents cb) (contents cb2) (infos2(i := None)) w2 ?t"
    using prepare_room [where cb = ?cb1, OF assms(1,2,3,7), of n req s infos, unfolded busy_cache, OF assms(8,10-12)]
    by blast
  have dec: "decodeFunc cb2 = decodeFunc cb"
    using r(4) by (simp add: same_frame_def)
  obtain cb3 where cb3: "Install ?a (cr_data req) cb2 = Some (True, cb3)" "cache_ok n cb3" "same_frame cb2 cb3"
      "contents cb3 = (contents cb2)(key_of (decodeFunc cb) ?a \<mapsto> (False, cr_data req))"
    using Install_ok [OF r(3,5) _ assms(13) r(6)] r(7) dec by auto
  have absent: "Present ?a cb2 = Some False"
    using Present_contents [OF r(5)] r(7) dec by simp
  let ?infos = "infos2(i \<mapsto> req\<lparr>cr_hit := False\<rparr>)"
  obtain w3 where w3: "respond env r (w2, ?infos, cb3) = Some (w3, ?infos, cb3)" "heap w3 = heap w2" "\<forall>t. set (events_at (evq w2) t) \<subseteq> set (events_at (evq w3) t)"
    using respond_ok [OF r(2) assms(2), of r ?infos cb3] by blast
  have "lines_kept (decodeFunc cb) (contents cb) (contents cb3) ?infos w3 ?t"
    using r(7,8) cb3(4) assms(12) handed_back_mono [OF _ w3(2,3)] unfolding lines_kept_def by (metis fun_upd_other option.distinct(1))
  moreover have "CacheBank_IssueCommand env r (w, infos, cb) = Some (True, w3, ?infos, cb3)"
    using assms(3-6,9,10) r(1) cb3(1) absent w3(1)
    by (simp add: CacheBank_IssueCommand_def CacheBank_IsIssuable_def issue_write_def SetFull_def Let_def)
  ultimately show ?thesis
    using cb3(2,4) by (intro exI [of _ w3] exI [of _ ?infos] exI [of _ cb3]) simp
qed

subsection \<open>Examples\<close>

definition at_addr :: "uint64 \<Rightarrow> NVMAddress" where
  "at_addr x = SetPhysicalAddress x NVMAddress_new"

definition one_byte :: "uint8 \<Rightarrow> NVMDataBlock" where
  "one_byte b = \<lparr>rawData = Some [b], isValid = True, block_size = 1\<rparr>"

lemma at_addr_sel [simp]: "physicalAddress (at_addr x) = x" "row (at_addr x) = 0" "col (at_addr x) = 0"
  by (simp_all add: at_addr_def SetPhysicalAddress_def NVMAddress_new_def)

lemma one_byte_full [simp]: "full_block (Suc 0) (one_byte b)"
  by (simp add: full_block_def one_byte_def)

theorem cache_refines_store_witness:
  "\<exists>cb. run_ops cache_act [Op_install (at_addr 64) (one_byte 5), Op_read (at_addr 64), Op_update (at_addr 64) (one_byte 7), Op_evict (at_addr 64)]
     (CacheBank_new 1 1 2 1) = Some ([(True, None), (True, Some (one_byte 5)), (True, None), (False, Some (one_byte 7))], cb) \<and> contents cb = Map.empty"
proof -
  have "run_ops (store_spec 1 2 (DefaultDecoder 1) (in_cache 1 1))
      [Op_install (at_addr 64) (one_byte 5), Op_read (at_addr 64), Op_update (at_addr 64) (one_byte 7), Op_evict (at_addr 64)] Map.empty
    = Some ([(True, None), (True, Some (one_byte 5)), (True, None), (False, Some (one_byte 7))], Map.empty)"
    by (simp add: store_spec_def in_cache_def DefaultDecoder_def set_lines_def)
  from cache_refines_store [OF this] show ?thesis by blast
qed

text \<open>One set of two ways, both in use.\<close>

definition demo_line :: "uint64 \<Rightarrow> uint8 \<Rightarrow> CacheEntry" where
  "demo_line x b = \<lparr>ce_flags = CACHE_ENTRY_VALID, ce_address = at_addr x, ce_data = one_byte b\<rparr>"

definition demo_cache :: CacheBank where
  "demo_cache = (CacheBank_new 1 1 2 1)\<lparr>cacheEntry := [[[demo_line 64 5, demo_line 128 6]]]\<rparr>"

lemma demo_line_sel [simp]: "valid_entry (demo_line x b)" "tag_of (demo_line x b) = x" "ce_data (demo_line x b) = one_byte b" "row (ce_address (demo_line x b)) = 0"
    "holds a (demo_line x b) = (physicalAddress a = x)" "ce_address (demo_line x b) = at_addr x" "line_of (demo_line x b) = (False, one_byte b)"
  by (auto simp: demo_line_def valid_entry_def CACHE_ENTRY_VALID_def CACHE_ENTRY_DIRTY_def tag_of_def holds_def line_of_def dirty_entry_def)

lemma demo_cache_sel [simp]:
  "cacheEntry demo_cache = [[[demo_line 64 5, demo_line 128 6]]]" "decodeFunc demo_cache = DefaultDecoder 1" "numAssoc demo_cache = 2"
  "cb_state demo_cache = CACHE_IDLE" "cb_writeTime demo_cache = 1"
  by (simp_all add: demo_cache_def CacheBank_new_def)

lemma demo_cache_ok: "cache_ok 1 demo_cache"
proof -
  have "filled 1 [demo_line 64 5, demo_line 128 6]"
    unfolding filled_def by (intro exI [of _ 2]) simp
  then have "set_ok 1 [demo_line 64 5, demo_line 128 6]"
    by (simp add: set_ok_def)
  then show ?thesis
    by (simp add: cache_ok_def placed_def DefaultDecoder_def)
qed

lemma demo_cache_set: "FindSet (at_addr x) demo_cache = Some [demo_line 64 5, demo_line 128 6]"
    "contents demo_cache (key_of (DefaultDecoder 1) (at_addr x)) = set_map [demo_line 64 5, demo_line 128 6] x"
  by (simp_all add: FindSet_def SetID_def DefaultDecoder_def contents_def key_of_def)

theorem victim_is_lru_witness:
  "\<exists>cb' dirty victim. read_lines [at_addr 128] demo_cache = Some cb' \<and> ChooseVictim (at_addr 64) cb' = Some (dirty, victim) \<and> physicalAddress victim = 64"
  using victim_is_lru [OF demo_cache_ok demo_cache_set(1), of 64 "[at_addr 128]"]
  by (simp add: demo_cache_set same_set_def set_map_def DefaultDecoder_def)

definition demo_write :: CacheRequest where
  "demo_write = \<lparr>optype = CACHE_WRITE, cr_address = at_addr 192, cr_endAddr = NVMAddress_new, cr_data = one_byte 9, cr_hit = False,
     cr_owner = None, originalRequest = None\<rparr>"

definition demo_world :: World where
  "demo_world = World_new\<lparr>heap := [0 \<mapsto> NVMainRequest_new\<lparr>reqInfo := Some 1\<rparr>], next_ref := 2\<rparr>"

lemma cache_world_ok: "world_ok demo_world"
proof -
  have "request_ok (NVMainRequest_new\<lparr>reqInfo := Some 1\<rparr>)"
    by (simp add: request_ok_def NVMainRequest_new_def)
  moreover have "queue_good 2 EventQueue_new"
    by (simp add: queue_good_def ids_below_def) (simp add: EventQueue_new_def)
  ultimately show ?thesis
    by (auto simp: world_ok_def demo_world_def World_new_def split: if_splits)
qed

theorem write_miss_keeps_lines_witness:
  "\<exists>w' infos' cb'. CacheBank_IssueCommand \<lparr>ca_self = 7, ca_hooks = [(5, 7)]\<rparr> 0 (demo_world, [1 \<mapsto> demo_write], demo_cache) = Some (True, w', infos', cb')
    \<and> lines_kept (DefaultDecoder 1) (contents demo_cache) (contents cb') infos' w' 1"
proof -
  have h: "heap demo_world 0 = Some (NVMainRequest_new\<lparr>reqInfo := Some 1\<rparr>)" "next_ref demo_world = 2" "now demo_world = 0"
    by (simp_all add: demo_world_def World_new_def EventQueue_new_def)
  have hook: "find_hook (ca_hooks \<lparr>ca_self = 7, ca_hooks = [(5, 7)]\<rparr>) (ca_self \<lparr>ca_self = 7, ca_hooks = [(5, 7)]\<rparr>) = Some 5"
    by simp
  have "optype demo_write = CACHE_WRITE" "cr_address demo_write = at_addr 192" "cr_data demo_write = one_byte 9"
    by (simp_all add: demo_write_def)
  with write_miss_keeps_lines [OF cache_world_ok hook h(1), of 1 "[1 \<mapsto> demo_write]" demo_write 1 demo_cache "[demo_line 64 5, demo_line 128 6]"]
  show ?thesis
    using demo_cache_ok demo_cache_set h(2,3) by (auto simp: set_map_def)
qed

end
