(* ===== verification/Trace_Files.thy ===== *)
theory Trace_Files
  imports NVM_Types
begin

text \<open>
  Trace files: the trace line (\<^verbatim>\<open>traceReader/TraceLine.cpp\<close>), the writer
  (\<^verbatim>\<open>traceWriter/NVMainTrace/NVMainTraceWriter.cpp\<close>, \<^verbatim>\<open>traceWriter/GenericTraceWriter.cpp\<close>) and the
  reader (\<^verbatim>\<open>traceReader/NVMainTrace/NVMainTraceReader.cpp\<close>), with what they use of the C++ library: decimal and hexadecimal
  output, \<^verbatim>\<open>getline\<close>, \<^verbatim>\<open>atoi\<close> (as \<^verbatim>\<open>strtol\<close> cut to 32 bits), extraction of hexadecimal
  numbers, and \<^verbatim>\<open>htonl\<close> on a little-endian machine. The file system is a partial map from names to
  contents. Messages on the console are left out.
\<close>

subsection \<open>Trace lines\<close>

record TraceLine =
  tl_address :: NVMAddress
  tl_operation :: OpType
  tl_cycle :: ncycle_t
  tl_data :: NVMDataBlock
  tl_oldData :: NVMDataBlock
  tl_threadId :: uint64

definition TraceLine_new :: TraceLine where
  "TraceLine_new = \<lparr>tl_address = SetPhysicalAddress 0xDEADC0DE0BADC0DE NVMAddress_new, tl_operation = NOP, tl_cycle = 0,
     tl_data = NVMDataBlock_new, tl_oldData = NVMDataBlock_new, tl_threadId = 0\<rparr>"

definition SetLine ::
  "NVMAddress \<Rightarrow> OpType \<Rightarrow> ncycle_t \<Rightarrow> NVMDataBlock \<Rightarrow> NVMDataBlock \<Rightarrow> uint64 \<Rightarrow> TraceLine \<Rightarrow> TraceLine option" where
  "SetLine addr op cy data old tid line = do {
     d \<leftarrow> DataBlock_assign data (tl_data line);
     od \<leftarrow> DataBlock_assign old (tl_oldData line);
     Some (line\<lparr>tl_address := addr, tl_operation := op, tl_cycle := cy, tl_data := d, tl_oldData := od, tl_threadId := tid\<rparr>)
   }"

subsection \<open>Numbers as text\<close>

definition digit :: "nat \<Rightarrow> char" where
  "digit n = ''0123456789abcdef'' ! n"

text \<open>The digits of a number in the base \<open>b\<close>, the most significant first.\<close>

function print_nat :: "nat \<Rightarrow> nat \<Rightarrow> string" where
  "print_nat b n = (if b < 2 \<or> n < b then [digit n] else print_nat b (n div b) @ [digit (n mod b)])"
  by pat_completeness auto
termination
  by (relation "measure snd") auto

declare print_nat.simps [simp del]

definition print_dec :: "uint64 \<Rightarrow> string" where
  "print_dec w = print_nat 10 (unat w)"

definition print_signed :: "uint64 \<Rightarrow> string" where
  "print_signed w = (if sint w < 0 then CHR ''-'' # print_nat 10 (nat (- sint w)) else print_nat 10 (nat (sint w)))"

definition print_hex :: "uint64 \<Rightarrow> string" where
  "print_hex w = print_nat 16 (unat w)"

text \<open>\<^verbatim>\<open>setw(2) << setfill('0')\<close> of a byte.\<close>

definition print_byte :: "uint8 \<Rightarrow> string" where
  "print_byte v = (let s = print_nat 16 (unat v) in replicate (2 - length s) CHR ''0'' @ s)"

text \<open>\<^verbatim>\<open>NVMDataBlock::Print\<close>; a size beyond the buffer reads outside of it.\<close>

definition Print :: "NVMDataBlock \<Rightarrow> string option" where
  "Print d =
     (if block_size d = 0 then Some []
      else (case rawData d of None \<Rightarrow> None
            | Some bs \<Rightarrow> if unat (block_size d) \<le> length bs then Some (concat (map print_byte (take (unat (block_size d)) bs))) else None))"

fun hex_value :: "char \<Rightarrow> nat option" where
  "hex_value c = (let n = of_char c :: nat in
     if 48 \<le> n \<and> n \<le> 57 then Some (n - 48)
     else if 97 \<le> n \<and> n \<le> 102 then Some (n - 87)
     else if 65 \<le> n \<and> n \<le> 70 then Some (n - 55)
     else None)"

fun read_digits :: "nat \<Rightarrow> nat \<Rightarrow> string \<Rightarrow> nat" where
  "read_digits b acc [] = acc"
| "read_digits b acc (c # cs) = (case hex_value c of None \<Rightarrow> acc | Some v \<Rightarrow> if v < b then read_digits b (acc * b + v) cs else acc)"

definition is_space :: "char \<Rightarrow> bool" where
  "is_space c \<longleftrightarrow> (let n = of_char c :: nat in n = 32 \<or> 9 \<le> n \<and> n \<le> 13)"

text \<open>White space and a sign before the digits of a number.\<close>

definition read_sign :: "string \<Rightarrow> bool \<times> string" where
  "read_sign s = (case dropWhile is_space s of [] \<Rightarrow> (False, [])
     | c # cs \<Rightarrow> if c = CHR ''-'' then (True, cs) else if c = CHR ''+'' then (False, cs) else (False, c # cs))"

text \<open>\<^verbatim>\<open>atoi\<close>: white space, a sign, decimal digits; the value of \<^verbatim>\<open>strtol\<close>, which stays in its range,
  is cut to an \<^verbatim>\<open>int\<close>.\<close>

definition atoi :: "string \<Rightarrow> uint32" where
  "atoi s = (case read_sign s of (neg, cs) \<Rightarrow>
     if neg then of_int (max (- (2 ^ 63)) (- int (read_digits 10 0 cs)))
     else of_int (min (2 ^ 63 - 1) (int (read_digits 10 0 cs))))"

text \<open>Extraction of an unsigned number in base 16: white space, a sign, the prefix \<^verbatim>\<open>0x\<close>, digits.
  A value that does not fit gives the largest number of the type.\<close>

definition strip_0x :: "string \<Rightarrow> string" where
  "strip_0x s = (case s of c # d # cs \<Rightarrow> if c = CHR ''0'' \<and> (d = CHR ''x'' \<or> d = CHR ''X'') then cs else s | _ \<Rightarrow> s)"

definition fit_word :: "nat \<Rightarrow> 'a :: len word" where
  "fit_word n = (if n < 2 ^ LENGTH('a) then of_nat n else - 1)"

definition read_hex :: "string \<Rightarrow> 'a :: len word" where
  "read_hex s = (case read_sign s of (neg, cs) \<Rightarrow>
     let w = fit_word (read_digits 16 0 (strip_0x cs)) in if neg then - w else w)"

subsection \<open>Writing\<close>

text \<open>\<open>wr_text\<close> is what the open file contains, \<open>wr_console\<close> what was echoed; \<open>wr_good\<close> is the state
  of the output stream.\<close>

record NVMainTraceWriter =
  wr_traceFile :: string
  wr_open :: bool
  wr_good :: bool
  wr_text :: string
  wr_console :: string
  echo_on :: bool
  perChannel :: bool
  perRank :: bool

definition NVMainTraceWriter_new :: NVMainTraceWriter where
  "NVMainTraceWriter_new = \<lparr>wr_traceFile = [], wr_open = False, wr_good = True, wr_text = [], wr_console = [], echo_on = False,
     perChannel = False, perRank = False\<rparr>"

definition newline :: char where "newline = char_of (10 :: nat)"

text \<open>\<open>can_open\<close>: whether the file can be created. A stream that is open already refuses a second file and
  fails.\<close>

definition Writer_SetTraceFile :: "bool \<Rightarrow> string \<Rightarrow> NVMainTraceWriter \<Rightarrow> NVMainTraceWriter" where
  "Writer_SetTraceFile can_open file wr =
     (if can_open \<and> \<not> wr_open wr then wr\<lparr>wr_traceFile := file, wr_open := True, wr_good := True, wr_text := ''NVMV1'' @ [newline]\<rparr>
      else wr\<lparr>wr_traceFile := file, wr_good := False\<rparr>)"

definition SetEcho :: "bool \<Rightarrow> NVMainTraceWriter \<Rightarrow> NVMainTraceWriter" where
  "SetEcho b wr = wr\<lparr>echo_on := b\<rparr>"

definition SetPerChannelTraces :: "bool \<Rightarrow> NVMainTraceWriter \<Rightarrow> NVMainTraceWriter" where
  "SetPerChannelTraces b wr = wr\<lparr>perChannel := b\<rparr>"

definition SetPerRankTraces :: "bool \<Rightarrow> NVMainTraceWriter \<Rightarrow> NVMainTraceWriter" where
  "SetPerRankTraces b wr = wr\<lparr>perRank := b\<rparr>"

definition WriteTraceLine :: "TraceLine \<Rightarrow> string option" where
  "WriteTraceLine line =
     (if tl_operation line \<noteq> READ \<and> tl_operation line \<noteq> WRITE then Some []
      else do {
        d \<leftarrow> Print (tl_data line);
        od \<leftarrow> Print (tl_oldData line);
        Some (print_dec (tl_cycle line) @ '' '' @ (if tl_operation line = READ then ''R '' else ''W '')
          @ ''0x'' @ print_hex (physicalAddress (tl_address line)) @ '' '' @ d @ '' '' @ od @ '' ''
          @ print_signed (tl_threadId line) @ [newline])
      })"

definition SetNextAccess :: "TraceLine \<Rightarrow> NVMainTraceWriter \<Rightarrow> (bool \<times> NVMainTraceWriter) option" where
  "SetNextAccess line wr = do {
     (rv, wr1) \<leftarrow> (if wr_open wr then do { t \<leftarrow> WriteTraceLine line; Some (wr_good wr, if wr_good wr then wr\<lparr>wr_text := wr_text wr @ t\<rparr> else wr) }
                    else Some (False, wr));
     if echo_on wr1 then do { t \<leftarrow> WriteTraceLine line; Some (True, wr1\<lparr>wr_console := wr_console wr1 @ t\<rparr>) }
     else Some (rv, wr1)
   }"

text \<open>\<^verbatim>\<open>nextAccesses->at(lineIdx)\<close> throws for an index out of range.\<close>

fun set_accesses :: "TraceLine list \<Rightarrow> nat list \<Rightarrow> int \<times> NVMainTraceWriter \<Rightarrow> (int \<times> NVMainTraceWriter) option" where
  "set_accesses tls [] st = Some st"
| "set_accesses tls (i # is) (numWritten, wr) =
     (if i < length tls then do {
        (rv, wr') \<leftarrow> SetNextAccess (tls ! i) wr;
        set_accesses tls is (if rv then numWritten + 1 else numWritten, wr')
      } else None)"

definition SetNextNAccesses :: "uint32 \<Rightarrow> TraceLine list \<Rightarrow> NVMainTraceWriter \<Rightarrow> (int \<times> NVMainTraceWriter) option" where
  "SetNextNAccesses N tls wr = set_accesses tls [0..<unat N] (0, wr)"

subsection \<open>Reading lines and fields\<close>

record istream =
  is_input :: string
  is_eof :: bool
  is_fail :: bool

text \<open>\<^verbatim>\<open>getline( stream, str, delim )\<close>: a stream that is not good leaves the string as it was; the
  delimiter is taken from the stream; the end of the input sets \<open>is_eof\<close>, and \<open>is_fail\<close> if nothing was
  read.\<close>

definition stream_getline :: "char \<Rightarrow> string \<Rightarrow> istream \<Rightarrow> string \<times> istream" where
  "stream_getline delim str st =
     (if is_eof st \<or> is_fail st then (str, st\<lparr>is_fail := True\<rparr>)
      else (let piece = takeWhile (\<lambda>c. c \<noteq> delim) (is_input st); rest = dropWhile (\<lambda>c. c \<noteq> delim) (is_input st)
            in case rest of
                 [] \<Rightarrow> (piece, st\<lparr>is_input := [], is_eof := True, is_fail := (piece = [])\<rparr>)
               | _ # rest' \<Rightarrow> (piece, st\<lparr>is_input := rest'\<rparr>)))"

text \<open>The loop \<^verbatim>\<open>while( getline( lineStream, field, ' ' ) ) if( field != "" ) ...\<close> visits the non-empty
  pieces between blanks.\<close>

function fields_of :: "string \<Rightarrow> string list" where
  "fields_of line =
     (let (field, st) = stream_getline CHR '' '' [] \<lparr>is_input = line, is_eof = False, is_fail = False\<rparr>
      in if is_fail st then []
         else (if field = [] then [] else [field]) @ (if is_eof st then [] else fields_of (is_input st)))"
  by pat_completeness auto
termination
proof (relation "measure length")
  fix line x field and st :: istream
  assume x: "x = stream_getline CHR '' '' [] \<lparr>is_input = line, is_eof = False, is_fail = False\<rparr>" and "(field, st) = x" and "\<not> is_fail st" "\<not> is_eof st"
  then obtain c rest where "dropWhile (\<lambda>c. c \<noteq> CHR '' '') line = c # rest" "is_input st = rest"
    by (auto simp: stream_getline_def Let_def split: list.splits)
  then show "(is_input st, line) \<in> measure length"
    using length_dropWhile_le [of "\<lambda>c. c \<noteq> CHR '' ''" line] by simp
qed simp

declare fields_of.simps [simp del]

text \<open>A 64-byte data field: 128 characters, eight for each 32-bit word, which is stored in network
  byte order.\<close>

definition htonl :: "uint32 \<Rightarrow> uint32" where
  "htonl x = push_bit 24 (x AND 0xFF) OR push_bit 8 (x AND 0xFF00) OR drop_bit 8 (x AND 0xFF0000) OR drop_bit 24 x"

definition store_word :: "uint32 \<Rightarrow> uint8 list" where
  "store_word x = [ucast x, ucast (drop_bit 8 x), ucast (drop_bit 16 x), ucast (drop_bit 24 x)]"

definition read_data :: "string \<Rightarrow> NVMDataBlock \<Rightarrow> NVMDataBlock option" where
  "read_data field d =
     (if length field = 128 then do {
        d1 \<leftarrow> SetSize (\<lambda>_. 0) 64 d;
        Some (d1\<lparr>rawData := Some (concat (map (\<lambda>byte. store_word (htonl (read_hex (take 8 (drop (8 * byte) field))))) [0..<16]))\<rparr>)
      } else None)"

definition zero_data :: "NVMDataBlock \<Rightarrow> NVMDataBlock option" where
  "zero_data d = SetSize (\<lambda>_. 0) 64 d"

record ParsedLine =
  pl_cycle :: uint32
  pl_operation :: OpType
  pl_address :: uint64
  pl_data :: NVMDataBlock
  pl_oldData :: NVMDataBlock
  pl_threadId :: uint32

text \<open>The branch for the field with number \<open>fieldId\<close>; an unknown operation leaves the old one.\<close>

definition read_field :: "uint32 \<Rightarrow> uint8 \<Rightarrow> string \<Rightarrow> ParsedLine \<Rightarrow> ParsedLine option" where
  "read_field version fieldId field pl =
     (if fieldId = 0 then Some (pl\<lparr>pl_cycle := atoi field\<rparr>)
      else if fieldId = 1 then Some (if field = ''R'' then pl\<lparr>pl_operation := READ\<rparr> else if field = ''W'' then pl\<lparr>pl_operation := WRITE\<rparr> else pl)
      else if fieldId = 2 then Some (pl\<lparr>pl_address := read_hex field\<rparr>)
      else if fieldId = 3 then do { d \<leftarrow> read_data field (pl_data pl); Some (pl\<lparr>pl_data := d\<rparr>) }
      else if fieldId = 4 then
        if version = 0 then do { d \<leftarrow> zero_data (pl_oldData pl); Some (pl\<lparr>pl_threadId := atoi field, pl_oldData := d\<rparr>) }
        else do { d \<leftarrow> read_data field (pl_oldData pl); Some (pl\<lparr>pl_oldData := d\<rparr>) }
      else if fieldId = 5 then if version \<noteq> 0 then Some (pl\<lparr>pl_threadId := atoi field\<rparr>) else None
      else Some pl)"

fun read_fields :: "uint32 \<Rightarrow> uint8 \<Rightarrow> string list \<Rightarrow> ParsedLine \<Rightarrow> ParsedLine option" where
  "read_fields version fieldId [] pl = Some pl"
| "read_fields version fieldId (f # fs) pl = do { pl' \<leftarrow> read_field version fieldId f pl; read_fields version (fieldId + 1) fs pl' }"

subsection \<open>The reader\<close>

record NVMainTraceReader =
  rd_traceFile :: string
  rd_open :: bool
  rd_trace :: istream
  traceVersion :: uint32
  readVersion :: bool

definition NVMainTraceReader_new :: NVMainTraceReader where
  "NVMainTraceReader_new = \<lparr>rd_traceFile = [], rd_open = False, rd_trace = \<lparr>is_input = [], is_eof = False, is_fail = False\<rparr>,
     traceVersion = 0, readVersion = False\<rparr>"

definition Reader_SetTraceFile :: "string \<Rightarrow> NVMainTraceReader \<Rightarrow> NVMainTraceReader" where
  "Reader_SetTraceFile file rd = rd\<lparr>rd_traceFile := file\<rparr>"

definition open_trace :: "(string \<rightharpoonup> string) \<Rightarrow> NVMainTraceReader \<Rightarrow> NVMainTraceReader option" where
  "open_trace files rd =
     (if rd_open rd then Some rd
      else (case files (rd_traceFile rd) of None \<Rightarrow> None
            | Some text \<Rightarrow> Some (rd\<lparr>rd_open := True, rd_trace := \<lparr>is_input = text, is_eof = False, is_fail = False\<rparr>\<rparr>)))"

text \<open>The first line is taken as the version line in any case.\<close>

definition read_version :: "string \<Rightarrow> NVMainTraceReader \<Rightarrow> string \<times> NVMainTraceReader" where
  "read_version fullLine rd =
     (if readVersion rd then (fullLine, rd)
      else (let rd1 = (if take 4 fullLine = ''NVMV'' then rd\<lparr>traceVersion := atoi (drop 4 fullLine)\<rparr> else rd);
                (fullLine', st) = stream_getline newline fullLine (rd_trace rd1)
            in (fullLine', rd1\<lparr>readVersion := True, rd_trace := st\<rparr>)))"

text \<open>\<open>garbage\<close> is the value of the local variable \<^verbatim>\<open>address\<close> before a field sets it.\<close>

definition GetNextAccess ::
  "(string \<rightharpoonup> string) \<Rightarrow> uint64 \<Rightarrow> NVMainTraceReader \<times> TraceLine \<Rightarrow> (bool \<times> NVMainTraceReader \<times> TraceLine) option" where
  "GetNextAccess files garbage st = (case st of (rd, out) \<Rightarrow>
     if rd_traceFile rd = [] then Some (False, rd, out)
     else (case open_trace files rd of
         None \<Rightarrow> Some (False, rd, out)
       | Some rd1 \<Rightarrow>
           (let (firstLine, s1) = stream_getline newline [] (rd_trace rd1); rd2 = rd1\<lparr>rd_trace := s1\<rparr>
            in if is_eof s1 then do {
                 out' \<leftarrow> SetLine (SetPhysicalAddress 0xDEADC0DEDEADBEEF NVMAddress_new) NOP 0 NVMDataBlock_new NVMDataBlock_new 0 out;
                 Some (False, rd2, out')
               }
               else (let (fullLine, rd3) = read_version firstLine rd2
                     in do {
                       pl \<leftarrow> read_fields (traceVersion rd3) 0 (fields_of fullLine)
                         \<lparr>pl_cycle = 0, pl_operation = READ, pl_address = garbage, pl_data = NVMDataBlock_new,
                          pl_oldData = NVMDataBlock_new, pl_threadId = 0\<rparr>;
                       out' \<leftarrow> SetLine (SetPhysicalAddress (pl_address pl) NVMAddress_new) (pl_operation pl) (ucast (pl_cycle pl))
                         (pl_data pl) (pl_oldData pl) (ucast (pl_threadId pl)) out;
                       Some (True, rd3, out')
                     }))))"

fun next_accesses ::
  "(string \<rightharpoonup> string) \<Rightarrow> uint64 \<Rightarrow> nat \<Rightarrow> NVMainTraceReader \<times> TraceLine list \<Rightarrow> (int \<times> NVMainTraceReader \<times> TraceLine list) option" where
  "next_accesses files garbage 0 (rd, out) = Some (0, rd, out)"
| "next_accesses files garbage (Suc n) (rd, out) = do {
     (ok, rd1, line) \<leftarrow> GetNextAccess files garbage (rd, TraceLine_new);
     (k, rd2, out') \<leftarrow> next_accesses files garbage n (rd1, if ok then out @ [line] else out);
     Some (if ok then k + 1 else k, rd2, out')
   }"

definition GetNextNAccesses ::
  "(string \<rightharpoonup> string) \<Rightarrow> uint64 \<Rightarrow> uint32 \<Rightarrow> NVMainTraceReader \<times> TraceLine list \<Rightarrow> (int \<times> NVMainTraceReader \<times> TraceLine list) option" where
  "GetNextNAccesses files garbage N st = next_accesses files garbage (unat N) st"

subsection \<open>Numbers read back\<close>

lemma below_16: "n < (16 :: nat) \<longleftrightarrow> n \<in> {0, 1, 2, 3, 4, 5, 6, 7, 8, 9, 10, 11, 12, 13, 14, 15}"
  by (simp, presburger)

lemma hex_value_digit: "n < 16 \<Longrightarrow> hex_value (digit n) = Some n"
  unfolding below_16 by (elim insertE) (simp_all add: digit_def Let_def)

declare hex_value.simps [simp del]

lemma print_nat_not_Nil [simp]: "print_nat b n \<noteq> []"
  by (subst print_nat.simps) simp

definition hex_char :: "char \<Rightarrow> bool" where
  "hex_char c \<longleftrightarrow> (\<exists>n<16. c = digit n)"

lemma hex_char_digit: "n < 16 \<Longrightarrow> hex_char (digit n)"
  by (auto simp: hex_char_def)

lemma hex_charE:
  assumes "hex_char c"
  shows "\<not> is_space c" "c \<noteq> CHR '' ''" "c \<noteq> newline" "c \<noteq> CHR ''-''" "c \<noteq> CHR ''+''" "c \<noteq> CHR ''x''" "c \<noteq> CHR ''X''"
proof -
  obtain n where n: "n < 16" "c = digit n" using assms by (auto simp: hex_char_def)
  from n(1) have "\<not> is_space c \<and> c \<noteq> CHR '' '' \<and> c \<noteq> newline \<and> c \<noteq> CHR ''-'' \<and> c \<noteq> CHR ''+'' \<and> c \<noteq> CHR ''x'' \<and> c \<noteq> CHR ''X''"
    unfolding n(2) below_16 by (elim insertE) (simp_all add: digit_def is_space_def newline_def char_of_def)
  then show "\<not> is_space c" "c \<noteq> CHR '' ''" "c \<noteq> newline" "c \<noteq> CHR ''-''" "c \<noteq> CHR ''+''" "c \<noteq> CHR ''x''" "c \<noteq> CHR ''X''"
    by simp_all
qed

lemma mod_16: "2 \<le> b \<Longrightarrow> b \<le> 16 \<Longrightarrow> n mod b < (16 :: nat)" "2 \<le> b \<Longrightarrow> n mod b < (b :: nat)"
  by (meson mod_less_divisor order_less_le_trans pos2)+

lemma print_nat_chars: "2 \<le> b \<Longrightarrow> b \<le> 16 \<Longrightarrow> \<forall>c\<in>set (print_nat b n). hex_char c"
proof (induction b n rule: print_nat.induct)
  case (1 b n)
  then show ?case
    by (cases "n < b") (simp_all add: print_nat.simps [of b n] hex_char_digit mod_16)
qed

lemma read_digits_print_nat:
  "2 \<le> b \<Longrightarrow> b \<le> 16 \<Longrightarrow> read_digits b acc (print_nat b n @ cs) = read_digits b (acc * b ^ length (print_nat b n) + n) cs"
proof (induction b n arbitrary: cs rule: print_nat.induct)
  case (1 b n)
  show ?case
  proof (cases "n < b")
    case True
    then show ?thesis using 1 by (simp add: print_nat.simps [of b n] hex_value_digit)
  next
    case False
    let ?k = "length (print_nat b (n div b))"
    have e: "(acc * b ^ ?k + n div b) * b + n mod b = acc * (b * b ^ ?k) + n"
      by (simp only: distrib_right add.assoc div_mult_mod_eq) (simp only: ac_simps)
    have "read_digits b acc (print_nat b (n div b) @ digit (n mod b) # cs) = read_digits b (acc * b ^ ?k + n div b) (digit (n mod b) # cs)"
      using 1 False by simp
    also have "\<dots> = read_digits b (acc * (b * b ^ ?k) + n) cs"
      using 1 by (simp add: hex_value_digit mod_16 e)
    finally show ?thesis
      using False 1 by (simp add: print_nat.simps [of b n])
  qed
qed

lemmas read_print_nat = read_digits_print_nat [where cs = "[]", simplified]

lemma plain_digits:
  assumes "s \<noteq> []" "\<forall>c\<in>set s. hex_char c"
  shows "read_sign s = (False, s)" "strip_0x s = s"
proof -
  obtain c cs where s: "s = c # cs" "hex_char c" using assms by (cases s) auto
  show "read_sign s = (False, s)"
    using hex_charE [OF s(2)] by (simp add: read_sign_def s(1))
  show "strip_0x s = s"
    using assms hex_charE by (auto simp: strip_0x_def s(1) split: list.splits)
qed

lemma read_sign_print_nat: "2 \<le> b \<Longrightarrow> b \<le> 16 \<Longrightarrow> read_sign (print_nat b n) = (False, print_nat b n)"
  by (intro plain_digits print_nat_not_Nil print_nat_chars)

lemma atoi_print_nat: "n < 2 ^ 32 \<Longrightarrow> atoi (print_nat 10 n) = of_nat n"
  by (simp add: atoi_def read_sign_print_nat read_print_nat min_def)

lemma read_hex_print: "read_hex (CHR ''0'' # CHR ''x'' # print_nat 16 (unat w)) = (w :: 'a :: len word)"
  by (simp add: read_hex_def read_sign_def is_space_def strip_0x_def read_print_nat fit_word_def)

subsection \<open>Data fields\<close>

lemma print_byte_chars: "\<forall>c\<in>set (print_byte v). hex_char c"
  using print_nat_chars [of 16 "unat v"] hex_char_digit [of 0] by (auto simp: print_byte_def Let_def digit_def)

lemma print_nat_length: "n < b ^ Suc k \<Longrightarrow> 2 \<le> b \<Longrightarrow> length (print_nat b n) \<le> Suc k"
proof (induction k arbitrary: n)
  case 0
  then show ?case by (simp add: print_nat.simps [of b n])
next
  case (Suc k)
  have "n div b < b ^ Suc k"
    using Suc.prems by (simp add: div_less_iff_less_mult mult.commute)
  then show ?case
    using Suc by (simp add: print_nat.simps [of b n])
qed

lemma length_print_byte: "length (print_byte v) = 2"
proof -
  have "unat v < 16 ^ Suc 1" using unsigned_less [of v, where 'a = nat] by simp
  from print_nat_length [OF this] show ?thesis by (simp add: print_byte_def Let_def)
qed

lemma read_digits_zeros: "read_digits 16 0 (replicate n CHR ''0'' @ cs) = read_digits 16 0 cs"
  using hex_value_digit [of 0] by (induction n) (simp_all add: digit_def)

lemma read_digits_acc:
  assumes "\<forall>c\<in>set s. hex_char c"
  shows "read_digits 16 acc (s @ cs) = read_digits 16 (acc * 16 ^ length s + read_digits 16 0 s) cs"
  using assms
proof (induction s arbitrary: acc cs rule: rev_induct)
  case (snoc c s)
  then obtain v where "hex_value c = Some v" "v < 16"
    by (auto simp: hex_char_def hex_value_digit)
  then show ?case
    using snoc by (simp add: algebra_simps)
qed simp

lemma read_byte: "read_digits 16 0 (print_byte v) = unat v"
  by (simp add: print_byte_def Let_def read_digits_zeros read_print_nat)

lemma read_digits_byte: "read_digits 16 acc (print_byte v @ cs) = read_digits 16 (acc * 256 + unat v) cs"
  by (simp add: read_digits_acc [OF print_byte_chars] length_print_byte read_byte)

lemma byte_masks:
  "(0xFF :: uint32) = mask 8" "(0xFF00 :: uint32) = push_bit 8 (mask 8)" "(0xFF0000 :: uint32) = push_bit 16 (mask 8)"
  by (simp_all add: mask_eq_exp_minus_1 push_bit_eq_mult)

lemma bit_htonl:
  "bit (htonl x) n \<longleftrightarrow> (n < 8 \<and> bit x (n + 24)) \<or> (8 \<le> n \<and> n < 16 \<and> bit x (n + 8)) \<or> (16 \<le> n \<and> n < 24 \<and> bit x (n - 8))
    \<or> (24 \<le> n \<and> n < 32 \<and> bit x (n - 24))"
proof -
  have "bit x (24 + n) \<Longrightarrow> n < 8" using bit_imp_le_length [of x "24 + n"] by simp
  then show ?thesis
    unfolding htonl_def byte_masks bit_or_iff bit_and_iff bit_push_bit_iff bit_drop_bit_eq comp_def bit_mask_iff possible_bit_word
    by (auto simp: add.commute)
qed

lemma store_word_htonl: "store_word (htonl x) = [ucast (drop_bit 24 x), ucast (drop_bit 16 x), ucast (drop_bit 8 x), ucast x]"
  unfolding store_word_def list.inject
  by (intro conjI refl; rule bit_word_eqI) (simp_all add: bit_ucast_iff bit_drop_bit_eq bit_htonl add.commute)

lemma next_byte: "b < 256 \<Longrightarrow> (m * 256 + b) div 256 = m" "b < 256 \<Longrightarrow> (m * 256 + b) mod 256 = (b :: nat)"
  by simp_all

lemma byte_less: "unat (b :: uint8) < 256"
  using unsigned_less [where 'a = nat, of b] by simp

lemma ucast_byte: "n < 2 ^ 32 \<Longrightarrow> ucast (drop_bit k (of_nat n :: uint32)) = (of_nat (n div 2 ^ k mod 256) :: uint8)"
  unfolding word_eq_iff_unsigned [where 'a = nat] unsigned_ucast_eq unat_drop_bit_eq
  by (simp add: unat_of_nat take_bit_eq_mod drop_bit_eq_div)

lemma four_bytes:
  fixes b0 b1 b2 b3 :: uint8
  defines "n \<equiv> ((unat b0 * 256 + unat b1) * 256 + unat b2) * 256 + unat b3"
  shows "n < 2 ^ 32" "n div 2 ^ 24 mod 256 = unat b0" "n div 2 ^ 16 mod 256 = unat b1" "n div 2 ^ 8 mod 256 = unat b2" "n mod 256 = unat b3"
proof -
  have d: "n div 2 ^ 8 = (unat b0 * 256 + unat b1) * 256 + unat b2"
    unfolding n_def using next_byte(1) [OF byte_less [of b3]] by (simp only: power_numeral pow.simps sqr.simps mult_num_simps)
  have "n div 2 ^ 16 = n div 2 ^ 8 div 256"
    by (simp add: div_mult2_eq [symmetric])
  also have "\<dots> = unat b0 * 256 + unat b1"
    unfolding d by (rule next_byte(1) [OF byte_less])
  finally have e: "n div 2 ^ 16 = unat b0 * 256 + unat b1" .
  have "n div 2 ^ 24 = n div 2 ^ 16 div 256"
    by (simp add: div_mult2_eq [symmetric])
  also have "\<dots> = unat b0"
    unfolding e by (rule next_byte(1) [OF byte_less])
  finally have f: "n div 2 ^ 24 = unat b0" .
  show "n div 2 ^ 24 mod 256 = unat b0"
    unfolding f by (simp add: byte_less)
  show "n div 2 ^ 16 mod 256 = unat b1"
    unfolding e by (rule next_byte(2) [OF byte_less])
  show "n div 2 ^ 8 mod 256 = unat b2"
    unfolding d by (rule next_byte(2) [OF byte_less])
  show "n mod 256 = unat b3"
    unfolding n_def by (rule next_byte(2) [OF byte_less])
  show "n < 2 ^ 32"
    using byte_less [of b0] byte_less [of b1] byte_less [of b2] byte_less [of b3] unfolding n_def by simp
qed

lemma read_four_bytes:
  "store_word (htonl (read_hex (print_byte b0 @ print_byte b1 @ print_byte b2 @ print_byte b3))) = [b0, b1, b2, b3]"
proof -
  let ?s = "print_byte b0 @ print_byte b1 @ print_byte b2 @ print_byte b3"
  let ?n = "((unat b0 * 256 + unat b1) * 256 + unat b2) * 256 + unat b3"
  have "read_digits 16 0 ?s = ?n"
    using read_digits_byte [of _ b3 "[]"] by (simp add: read_digits_byte)
  moreover have s: "?s \<noteq> []" "\<forall>c\<in>set ?s. hex_char c"
    using print_byte_chars length_print_byte [of b0] by auto
  ultimately have w: "read_hex ?s = (of_nat ?n :: uint32)"
    using four_bytes(1) [of b0 b1 b2 b3] unfolding read_hex_def plain_digits(1) [OF s] split plain_digits(2) [OF s] by (simp add: fit_word_def)
  have z: "ucast (of_nat ?n :: uint32) = (of_nat (?n mod 256) :: uint8)"
    using ucast_byte [OF four_bytes(1) [of b0 b1 b2 b3], of 0] by simp
  show ?thesis
    unfolding w store_word_htonl z ucast_byte [OF four_bytes(1) [of b0 b1 b2 b3]] four_bytes by simp
qed

lemma read_bytes:
  "length bs = 4 * n \<Longrightarrow>
    concat (map (\<lambda>byte. store_word (htonl (read_hex (take 8 (drop (8 * byte) (concat (map print_byte bs))))))) [0..<n]) = bs"
proof (induction n arbitrary: bs)
  case (Suc n)
  then have "length bs = Suc (Suc (Suc (Suc (4 * n))))"
    by simp
  then obtain b0 b1 b2 b3 cs where bs: "bs = b0 # b1 # b2 # b3 # cs" "length cs = 4 * n"
    by (auto simp only: length_Suc_conv)
  let ?t = "concat (map print_byte cs)" and ?h = "print_byte b0 @ print_byte b1 @ print_byte b2 @ print_byte b3"
  have t: "concat (map print_byte bs) = ?h @ ?t" "length ?h = 8"
    by (simp_all add: bs length_print_byte)
  have u: "[0..<Suc n] = 0 # map Suc [0..<n]"
    by (simp add: upt_conv_Cons map_Suc_upt del: upt_Suc)
  have d: "drop (8 * Suc i) (?h @ ?t) = drop (8 * i) ?t" for i
    by (simp add: length_print_byte)
  have h: "take 8 (drop (8 * 0) (?h @ ?t)) = ?h"
    by (simp add: length_print_byte)
  show ?case
    unfolding t u by (simp only: list.map map_map o_def d h concat.simps read_four_bytes Suc.IH [OF bs(2)]) (simp add: bs)
qed simp

definition full_block :: "NVMDataBlock \<Rightarrow> bool" where
  "full_block d \<longleftrightarrow> isValid d \<and> block_size d = 64 \<and> (\<exists>bs. rawData d = Some bs \<and> length bs = 64)"

lemma full_blockE:
  assumes "full_block d"
  obtains bs where "length bs = 64" "d = \<lparr>rawData = Some bs, isValid = True, block_size = 64\<rparr>"
  using assms by (cases d) (auto simp: full_block_def)

lemma Print_full:
  "length bs = 64 \<Longrightarrow> Print \<lparr>rawData = Some bs, isValid = True, block_size = 64\<rparr> = Some (concat (map print_byte bs))"
  by (simp add: Print_def)

lemma length_print_bytes: "length (concat (map print_byte bs)) = 2 * length bs"
  by (induction bs) (simp_all add: length_print_byte)

lemma read_data_print:
  assumes "length bs = 64"
  shows "read_data (concat (map print_byte bs)) NVMDataBlock_new = Some \<lparr>rawData = Some bs, isValid = True, block_size = 64\<rparr>"
  using read_bytes [of bs 16] assms
  by (simp add: read_data_def length_print_bytes SetSize_def NVMDataBlock_new_def del: upt.simps)

subsection \<open>Fields and lines\<close>

definition plain_field :: "string \<Rightarrow> bool" where
  "plain_field f \<longleftrightarrow> f \<noteq> [] \<and> CHR '' '' \<notin> set f \<and> newline \<notin> set f"

lemma takeWhile_plain: "c \<notin> set f \<Longrightarrow> takeWhile (\<lambda>x. x \<noteq> c) (f @ c # r) = f" "c \<notin> set f \<Longrightarrow> dropWhile (\<lambda>x. x \<noteq> c) (f @ c # r) = c # r"
  "c \<notin> set f \<Longrightarrow> takeWhile (\<lambda>x. x \<noteq> c) f = f" "c \<notin> set f \<Longrightarrow> dropWhile (\<lambda>x. x \<noteq> c) f = []"
  by (induction f) auto

lemma fields_of_Cons: "plain_field f \<Longrightarrow> fields_of (f @ CHR '' '' # r) = f # fields_of r"
  by (subst fields_of.simps) (auto simp: plain_field_def stream_getline_def takeWhile_plain)

lemma fields_of_last: "plain_field f \<Longrightarrow> fields_of f = [f]"
  by (subst fields_of.simps) (auto simp: plain_field_def stream_getline_def takeWhile_plain)

lemma plain_hex: "s \<noteq> [] \<Longrightarrow> \<forall>c\<in>set s. hex_char c \<Longrightarrow> plain_field s"
  using hex_charE(2, 3) by (auto simp: plain_field_def)

lemma plain_print_nat: "2 \<le> b \<Longrightarrow> b \<le> 16 \<Longrightarrow> plain_field (print_nat b n)"
  by (intro plain_hex print_nat_not_Nil print_nat_chars)

lemma plain_print_bytes: "bs \<noteq> [] \<Longrightarrow> plain_field (concat (map print_byte bs))"
proof (rule plain_hex)
  assume "bs \<noteq> []"
  then have "length (concat (map print_byte bs)) \<noteq> 0" unfolding length_print_bytes by simp
  then show "concat (map print_byte bs) \<noteq> []" by force
  show "\<forall>c\<in>set (concat (map print_byte bs)). hex_char c" using print_byte_chars by auto
qed

text \<open>What the writer and the reader agree on: reads and writes of 64-byte blocks, cycle and thread below \<open>2\<^sup>3\<^sup>2\<close>.\<close>

definition traceable :: "TraceLine \<Rightarrow> bool" where
  "traceable l \<longleftrightarrow> (tl_operation l = READ \<or> tl_operation l = WRITE) \<and> full_block (tl_data l) \<and> full_block (tl_oldData l)
     \<and> tl_cycle l < 2 ^ 32 \<and> tl_threadId l < 2 ^ 32"

definition line_text :: "TraceLine \<Rightarrow> string" where
  "line_text l = print_nat 10 (unat (tl_cycle l)) @ '' '' @ (if tl_operation l = READ then ''R'' else ''W'') @ '' ''
     @ (''0x'' @ print_nat 16 (unat (physicalAddress (tl_address l)))) @ '' '' @ concat (map print_byte (the (rawData (tl_data l)))) @ '' ''
     @ concat (map print_byte (the (rawData (tl_oldData l)))) @ '' '' @ print_nat 10 (unat (tl_threadId l))"

text \<open>What a trace keeps of an access: everything but the translated address.\<close>

definition traced :: "TraceLine \<Rightarrow> TraceLine" where
  "traced l = l\<lparr>tl_address := SetPhysicalAddress (physicalAddress (tl_address l)) NVMAddress_new\<rparr>"

lemma unat_small: "w < 2 ^ 32 \<Longrightarrow> unat (w :: uint64) < 2 ^ 32"
  by (simp add: word_less_nat_alt)

lemma sint_small:
  assumes "w < 2 ^ 32"
  shows "sint (w :: uint64) = int (unat w)"
proof -
  have "uint w < 2 ^ 32" using assms by (simp add: word_less_def)
  then have "signed_take_bit (LENGTH(64) - 1) (uint w) = uint w"
    by (intro signed_take_bit_int_eq_self) (simp_all add: order.trans [of _ 0])
  then show ?thesis by (simp add: sint_uint)
qed

lemma WriteTraceLine_traceable:
  assumes "traceable l"
  shows "WriteTraceLine l = Some (line_text l @ [newline])"
proof -
  obtain ds os where d: "length ds = 64" "tl_data l = \<lparr>rawData = Some ds, isValid = True, block_size = 64\<rparr>"
    and "length os = 64" "tl_oldData l = \<lparr>rawData = Some os, isValid = True, block_size = 64\<rparr>"
    using assms full_blockE unfolding traceable_def by metis
  then show ?thesis
    using assms
    by (auto simp: WriteTraceLine_def Print_full line_text_def traceable_def print_dec_def print_hex_def print_signed_def sint_small)
qed

lemma fields_of_line_text:
  assumes "traceable l"
  shows "fields_of (line_text l) = [print_nat 10 (unat (tl_cycle l)), if tl_operation l = READ then ''R'' else ''W'',
    ''0x'' @ print_nat 16 (unat (physicalAddress (tl_address l))), concat (map print_byte (the (rawData (tl_data l)))),
    concat (map print_byte (the (rawData (tl_oldData l)))), print_nat 10 (unat (tl_threadId l))]"
proof -
  have "the (rawData (tl_data l)) \<noteq> []" "the (rawData (tl_oldData l)) \<noteq> []"
    using assms by (auto simp: traceable_def full_block_def)
  note data = plain_print_bytes [OF this(1)] plain_print_bytes [OF this(2)]
  have addr: "plain_field (''0x'' @ print_nat 16 n)" for n
    using plain_print_nat [of 16 n] by (auto simp: plain_field_def newline_def char_of_def)
  have opc: "plain_field (if tl_operation l = READ then ''R'' else ''W'')"
    by (simp add: plain_field_def newline_def char_of_def)
  have dec: "plain_field (print_nat 10 n)" for n
    by (rule plain_print_nat) simp_all
  note [simp del] = append_assoc append_Cons
  show ?thesis
    unfolding line_text_def append.simps(2) [of _ "[]"] append.simps(1)
    by (simp only: fields_of_Cons [OF dec] fields_of_Cons [OF opc] fields_of_Cons [OF addr] fields_of_Cons [OF data(1)] fields_of_Cons [OF data(2)]
        fields_of_last [OF dec])
qed

subsection \<open>Reading a written trace\<close>

lemma ucast_ucast_small: "w < 2 ^ 32 \<Longrightarrow> ucast (ucast w :: uint32) = (w :: uint64)"
  using unat_small [of w] by (simp add: word_eq_iff_unsigned [where 'a = nat] unsigned_ucast_eq unsigned_take_bit_eq take_bit_nat_eq_self)

lemma full_block_parts:
  assumes "full_block d"
  shows "read_data (concat (map print_byte (the (rawData d)))) NVMDataBlock_new = Some d"
proof -
  obtain bs where "length bs = 64" "d = \<lparr>rawData = Some bs, isValid = True, block_size = 64\<rparr>"
    using assms full_blockE by metis
  then show ?thesis using read_data_print [of bs] by simp
qed

lemma full_block_ok: "full_block d \<Longrightarrow> block_ok d"
  by (auto simp: full_block_def block_ok_def)

lemma read_line_text:
  assumes l: "traceable l" and v: "version \<noteq> 0"
  shows "read_fields version 0 (fields_of (line_text l)) \<lparr>pl_cycle = 0, pl_operation = READ, pl_address = garbage, pl_data = NVMDataBlock_new,
      pl_oldData = NVMDataBlock_new, pl_threadId = 0\<rparr>
    = Some \<lparr>pl_cycle = of_nat (unat (tl_cycle l)), pl_operation = tl_operation l, pl_address = physicalAddress (tl_address l),
      pl_data = tl_data l, pl_oldData = tl_oldData l, pl_threadId = of_nat (unat (tl_threadId l))\<rparr>"
proof -
  have b: "full_block (tl_data l)" "full_block (tl_oldData l)" and o: "tl_operation l = READ \<or> tl_operation l = WRITE"
    and n: "unat (tl_cycle l) < 2 ^ 32" "unat (tl_threadId l) < 2 ^ 32"
    using l unat_small by (auto simp: traceable_def)
  show ?thesis
    using o v by (auto simp: fields_of_line_text [OF l] read_field_def atoi_print_nat [OF n(1)] atoi_print_nat [OF n(2)]
        read_hex_print full_block_parts [OF b(1)] full_block_parts [OF b(2)])
qed

lemma SetLine_traced:
  assumes "traceable l"
  shows "SetLine (SetPhysicalAddress (physicalAddress (tl_address l)) NVMAddress_new) (tl_operation l) (tl_cycle l) (tl_data l)
    (tl_oldData l) (tl_threadId l) TraceLine_new = Some (traced l)"
  using assms
  by (simp add: SetLine_def TraceLine_new_def traceable_def DataBlock_assign_fresh full_block_ok traced_def)

lemma newline_line_text: "traceable l \<Longrightarrow> newline \<notin> set (line_text l)"
proof -
  assume l: "traceable l"
  have "plain_field (concat (map print_byte (the (rawData (tl_data l)))))" "plain_field (concat (map print_byte (the (rawData (tl_oldData l)))))"
    using l by (auto intro!: plain_print_bytes simp: traceable_def full_block_def)
  moreover have "plain_field (print_nat 10 n)" "plain_field (print_nat 16 n)" for n
    by (simp_all add: plain_print_nat)
  ultimately show ?thesis
    unfolding line_text_def plain_field_def by (auto simp: newline_def char_of_def)
qed

text \<open>The reader in the middle of a trace whose rest is the text of the lines \<open>ls\<close>.\<close>

definition lines_text :: "TraceLine list \<Rightarrow> string" where
  "lines_text ls = concat (map (\<lambda>l. line_text l @ [newline]) ls)"

definition reading :: "string \<Rightarrow> TraceLine list \<Rightarrow> NVMainTraceReader" where
  "reading file ls = \<lparr>rd_traceFile = file, rd_open = True, rd_trace = \<lparr>is_input = lines_text ls, is_eof = False, is_fail = False\<rparr>,
     traceVersion = 1, readVersion = True\<rparr>"

lemma getline_line:
  assumes "traceable l"
  shows "stream_getline newline s \<lparr>is_input = lines_text (l # ls), is_eof = False, is_fail = False\<rparr>
    = (line_text l, \<lparr>is_input = lines_text ls, is_eof = False, is_fail = False\<rparr>)"
  using newline_line_text [OF assms] by (simp add: stream_getline_def lines_text_def takeWhile_plain)

lemma finish_line:
  assumes "traceable l"
  shows "(do {
      pl \<leftarrow> read_fields (traceVersion (reading file ls)) 0 (fields_of (line_text l))
        \<lparr>pl_cycle = 0, pl_operation = READ, pl_address = garbage, pl_data = NVMDataBlock_new,
         pl_oldData = NVMDataBlock_new, pl_threadId = 0\<rparr>;
      out' \<leftarrow> SetLine (SetPhysicalAddress (pl_address pl) NVMAddress_new) (pl_operation pl) (ucast (pl_cycle pl))
        (pl_data pl) (pl_oldData pl) (ucast (pl_threadId pl)) TraceLine_new;
      Some (True, reading file ls, out')
    }) = Some (True, reading file ls, traced l)"
  using assms SetLine_traced [OF assms] ucast_ucast_small [of "tl_cycle l"] ucast_ucast_small [of "tl_threadId l"]
  by (simp add: read_line_text [OF assms] reading_def traceable_def)

lemma GetNextAccess_reading:
  assumes "traceable l" "file \<noteq> []"
  shows "GetNextAccess files garbage (reading file (l # ls), TraceLine_new) = Some (True, reading file ls, traced l)"
  using assms(2) finish_line [OF assms(1)] getline_line [OF assms(1)]
  by (simp add: GetNextAccess_def reading_def open_trace_def read_version_def)

definition trace_start :: "string \<Rightarrow> NVMainTraceReader" where
  "trace_start file = Reader_SetTraceFile file NVMainTraceReader_new"

lemma atoi_1: "atoi ''1'' = 1"
  by (simp add: atoi_def read_sign_def is_space_def hex_value.simps)

lemma GetNextAccess_start:
  assumes l: "traceable l" and f: "file \<noteq> []" "files file = Some (''NVMV1'' @ [newline] @ lines_text (l # ls))"
  shows "GetNextAccess files garbage (trace_start file, TraceLine_new) = Some (True, reading file ls, traced l)"
proof -
  have "newline \<notin> set ''NVMV1''" by (simp add: newline_def char_of_def)
  then have v: "stream_getline newline [] \<lparr>is_input = ''NVMV1'' @ [newline] @ lines_text (l # ls), is_eof = False, is_fail = False\<rparr>
      = (''NVMV1'', \<lparr>is_input = lines_text (l # ls), is_eof = False, is_fail = False\<rparr>)"
    by (auto simp: stream_getline_def)
  show ?thesis
    using f finish_line [OF l] getline_line [OF l] v
    by (simp add: GetNextAccess_def reading_def trace_start_def Reader_SetTraceFile_def NVMainTraceReader_new_def open_trace_def read_version_def atoi_1)
qed

text \<open>After the last line the reader stays at the end of the file.\<close>

definition exhausted :: "NVMainTraceReader \<Rightarrow> bool" where
  "exhausted rd \<longleftrightarrow> rd_traceFile rd \<noteq> [] \<and> rd_open rd \<and> is_input (rd_trace rd) = [] \<and> (is_fail (rd_trace rd) \<longrightarrow> is_eof (rd_trace rd))"

lemma exhausted_reading: "file \<noteq> [] \<Longrightarrow> exhausted (reading file [])"
  by (simp add: exhausted_def reading_def lines_text_def)

lemma GetNextAccess_exhausted:
  assumes "exhausted rd"
  shows "\<exists>rd' l. GetNextAccess files garbage (rd, TraceLine_new) = Some (False, rd', l) \<and> exhausted rd'"
  using assms
  by (auto simp: GetNextAccess_def exhausted_def open_trace_def stream_getline_def SetLine_def TraceLine_new_def DataBlock_assign_fresh Let_def)

lemma next_accesses_exhausted:
  "exhausted rd \<Longrightarrow> \<exists>rd'. next_accesses files garbage n (rd, out) = Some (0, rd', out) \<and> exhausted rd'"
proof (induction n arbitrary: rd)
  case (Suc n)
  then show ?case using GetNextAccess_exhausted [of rd files garbage] by fastforce
qed simp

lemma next_accesses_reading:
  assumes "list_all traceable ls" "file \<noteq> []" "length ls \<le> n"
  shows "\<exists>rd'. next_accesses files garbage n (reading file ls, out) = Some (int (length ls), rd', out @ map traced ls) \<and> exhausted rd'"
  using assms
proof (induction ls arbitrary: n out)
  case Nil
  then show ?case using next_accesses_exhausted [OF exhausted_reading] by simp
next
  case (Cons l ls)
  then obtain m where "n = Suc m" by (cases n) auto
  then show ?case
    using Cons.IH [of m "out @ [traced l]"] Cons.prems GetNextAccess_reading [of l "file" files garbage ls] by auto
qed

lemma next_accesses_start:
  assumes "list_all traceable (l # ls)" "file \<noteq> []" "files file = Some (''NVMV1'' @ [newline] @ lines_text (l # ls))" "Suc (length ls) \<le> n"
  shows "\<exists>rd'. next_accesses files garbage n (trace_start file, []) = Some (int (Suc (length ls)), rd', map traced (l # ls)) \<and> exhausted rd'"
proof -
  obtain m where "n = Suc m" using assms(4) by (cases n) auto
  then show ?thesis
    using next_accesses_reading [of ls "file" m files garbage "[traced l]"] GetNextAccess_start [of l "file" files ls garbage] assms by auto
qed

subsection \<open>The writer\<close>

lemma set_accesses_writes:
  assumes "list_all traceable tls" "wr_open wr" "wr_good wr" "i \<le> length tls"
  shows "\<exists>wr'. set_accesses tls [i..<length tls] (k, wr) = Some (k + int (length tls - i), wr')
    \<and> wr_text wr' = wr_text wr @ lines_text (drop i tls)"
  using assms
proof (induction "length tls - i" arbitrary: i k wr)
  case 0
  then show ?case by (simp add: lines_text_def)
next
  case (Suc m)
  let ?l = "tls ! i"
  have i: "i < length tls" "[i..<length tls] = i # [Suc i..<length tls]" using Suc.hyps(2) by (simp_all add: upt_conv_Cons)
  have l: "traceable ?l" using Suc.prems(1) i(1) by (simp add: list_all_length)
  let ?t = "line_text ?l @ [newline]"
  obtain wr1 where w: "SetNextAccess ?l wr = Some (True, wr1)" "wr_open wr1" "wr_good wr1" "wr_text wr1 = wr_text wr @ ?t"
    using Suc.prems(2, 3) WriteTraceLine_traceable [OF l] by (cases "echo_on wr") (auto simp: SetNextAccess_def)
  have "m = length tls - Suc i" "Suc i \<le> length tls" using Suc.hyps(2) by simp_all
  from Suc.hyps(1) [OF this(1) Suc.prems(1) w(2, 3) this(2), of "k + 1"] show ?case
    using i l w by (auto simp: lines_text_def Cons_nth_drop_Suc [symmetric])
qed

text \<open>C32: A trace written by \<^verbatim>\<open>NVMainTraceWriter\<close> is read back by \<^verbatim>\<open>NVMainTraceReader\<close> access by
  access. Let the writer open a file, and let \<^verbatim>\<open>SetNextNAccesses\<close> write a non-empty list of reads and writes whose
  data and old data are full 64-byte blocks and whose cycle and thread fit in 32 bits. It reports all of them
  written, and a reader of that file asked for at least as many accesses returns exactly that number of accesses,
  in their order, each with the physical address, operation, cycle, data, old data and thread it was written
  with, whatever was in the reader's uninitialised local variable. A request for more accesses gives no more.\<close>

theorem trace_round_trip:
  assumes "list_all traceable tls" "tls \<noteq> []" "length tls \<le> unat N" "length tls < 2 ^ 32" "file \<noteq> []"
  shows "\<exists>wr. SetNextNAccesses (of_nat (length tls)) tls (Writer_SetTraceFile True file NVMainTraceWriter_new) = Some (int (length tls), wr)
    \<and> (\<exists>rd. GetNextNAccesses (Map.empty(file \<mapsto> wr_text wr)) garbage N (Reader_SetTraceFile file NVMainTraceReader_new, [])
          = Some (int (length tls), rd, map traced tls))"
proof -
  let ?wr = "Writer_SetTraceFile True file NVMainTraceWriter_new"
  have "wr_open ?wr" "wr_good ?wr" "wr_text ?wr = ''NVMV1'' @ [newline]"
    by (simp_all add: Writer_SetTraceFile_def NVMainTraceWriter_new_def)
  with set_accesses_writes [OF assms(1), of ?wr 0 0] obtain wr
    where w: "set_accesses tls [0..<length tls] (0, ?wr) = Some (int (length tls), wr)" "wr_text wr = ''NVMV1'' @ [newline] @ lines_text tls"
    by auto
  have u: "unat (of_nat (length tls) :: uint32) = length tls"
    using assms(4) by (simp add: unat_of_nat take_bit_nat_eq_self)
  have "SetNextNAccesses (of_nat (length tls)) tls ?wr = Some (int (length tls), wr)"
    unfolding SetNextNAccesses_def u by (rule w(1))
  moreover obtain l ls where tls: "tls = l # ls" using assms(2) by (cases tls) auto
  moreover obtain rd where "next_accesses (Map.empty(file \<mapsto> wr_text wr)) garbage (unat N) (trace_start file, []) = Some (int (length tls), rd, map traced tls)"
    using next_accesses_start [of l ls "file" "Map.empty(file \<mapsto> wr_text wr)" "unat N" garbage] assms w(2) unfolding tls by auto
  ultimately show ?thesis
    unfolding GetNextNAccesses_def trace_start_def by blast
qed


definition sample_block :: "uint8 \<Rightarrow> NVMDataBlock" where
  "sample_block b = \<lparr>rawData = Some (b # replicate 63 0xA5), isValid = True, block_size = 64\<rparr>"

definition sample_trace :: "TraceLine list" where
  "sample_trace =
    [TraceLine_new\<lparr>tl_operation := WRITE, tl_cycle := 120, tl_data := sample_block 7, tl_oldData := sample_block 0, tl_threadId := 3\<rparr>,
     TraceLine_new\<lparr>tl_operation := READ, tl_cycle := 130, tl_data := sample_block 7, tl_oldData := sample_block 7\<rparr>]"

theorem trace_round_trip_witness:
  "list_all traceable sample_trace \<and> (\<exists>wr. SetNextNAccesses 2 sample_trace (Writer_SetTraceFile True ''t.nvt'' NVMainTraceWriter_new) = Some (2, wr)
    \<and> (\<exists>rd. GetNextNAccesses (Map.empty(''t.nvt'' \<mapsto> wr_text wr)) 0 5 (Reader_SetTraceFile ''t.nvt'' NVMainTraceReader_new, [])
          = Some (2, rd, map traced sample_trace)))"
proof -
  have t: "list_all traceable sample_trace" "length sample_trace = 2" "sample_trace \<noteq> []"
    by (simp_all add: sample_trace_def sample_block_def traceable_def full_block_def TraceLine_new_def)
  show ?thesis
    using trace_round_trip [OF t(1, 3), of 5 "''t.nvt''" 0] t by simp
qed

text \<open>An empty trace, which holds only the version line, yields one access all the same: after the version line
  \<^verbatim>\<open>GetNextAccess\<close> reads a second line without testing for the end of the file, finds no fields, and reports a
  read at whatever its local variable \<^verbatim>\<open>address\<close> held.\<close>

lemma empty_trace_yields_access:
  "\<exists>rd l. GetNextAccess (Map.empty(''t'' \<mapsto> ''NVMV1'' @ [newline])) garbage (trace_start ''t'', TraceLine_new) = Some (True, rd, l)
    \<and> physicalAddress (tl_address l) = garbage \<and> tl_operation l = READ"
  by (simp add: GetNextAccess_def trace_start_def Reader_SetTraceFile_def NVMainTraceReader_new_def open_trace_def read_version_def
      stream_getline_def newline_def char_of_def fields_of.simps SetLine_def TraceLine_new_def DataBlock_assign_fresh
      SetPhysicalAddress_def)

text \<open>A trace without a version line loses its first access: the first line is skipped whatever it holds.\<close>

lemma unversioned_trace_skips_first_line:
  assumes "newline \<notin> set first" "take 4 first \<noteq> ''NVMV''" "newline \<notin> set second"
  shows "GetNextAccess (Map.empty(''t'' \<mapsto> first @ [newline] @ second @ [newline])) garbage (trace_start ''t'', TraceLine_new)
    = GetNextAccess (Map.empty(''t'' \<mapsto> first @ [newline] @ second @ [newline])) garbage
        (reading ''t'' []\<lparr>traceVersion := 0, rd_trace := \<lparr>is_input = second @ [newline], is_eof = False, is_fail = False\<rparr>\<rparr>, TraceLine_new)"
  using assms
  by (simp add: GetNextAccess_def trace_start_def Reader_SetTraceFile_def NVMainTraceReader_new_def open_trace_def read_version_def
      stream_getline_def takeWhile_plain reading_def)

end
