(* ===== verification/Page_Migration.thy ===== *)
theory Page_Migration
  imports Memory_World Address_Translation Params "HOL-Library.Signed_Division"
begin

text \<open>
  Migration of pages between channels: the address decoder \<^verbatim>\<open>Decoders/Migrator/Migrator.cpp\<close>, which
  redirects the channel of a migrated page, and the hook \<^verbatim>\<open>Utils/CoinMigrator/CoinMigrator.cpp\<close>, which
  decides by a biased coin to swap a page of slow memory with the next page of the fast channel.

  \<^verbatim>\<open>std::map\<close> members are ordered association lists (\<open>Ordered_Map\<close>); \<^verbatim>\<open>operator[]\<close> on a missing key inserts the
  zero of the type, which \<open>touch\<close> does.
\<close>

subsection \<open>The migrating decoder\<close>

datatype MigratorState = MIGRATION_UNKNOWN | MIGRATION_READING | MIGRATION_BUFFERED | MIGRATION_WRITING | MIGRATION_DONE

record Migrator =
  mg_translator :: AddressTranslator
  migrationMap :: "(uint64 \<times> uint64) list"
  migrationState :: "(uint64 \<times> MigratorState) list"
  numChannels :: uint64
  numBanks :: uint64
  numRanks :: uint64
  numSubarrays :: uint64
  migrating :: bool
  inputPage :: uint64
  outputPage :: uint64
  migratedAccesses :: uint64

definition Migrator_new :: Migrator where
  "Migrator_new = \<lparr>mg_translator = AddressTranslator_new, migrationMap = [], migrationState = [], numChannels = 0, numBanks = 0,
     numRanks = 0, numSubarrays = 0, migrating = False, inputPage = 0, outputPage = 0, migratedAccesses = 0\<rparr>"

text \<open>\<open>cfg\<close> is \<^verbatim>\<open>Config::GetValue\<close>. The quotient is C++ integer division.\<close>

definition Migrator_SetConfig :: "(string \<Rightarrow> int) \<Rightarrow> Migrator \<Rightarrow> Migrator option" where
  "Migrator_SetConfig cfg mg =
     (if cfg ''MATHeight'' = 0 then None
      else Some (mg\<lparr>numChannels := of_int (cfg ''CHANNELS''), numBanks := of_int (cfg ''BANKS''), numRanks := of_int (cfg ''RANKS''),
             numSubarrays := of_int (cfg ''ROWS'' sdiv cfg ''MATHeight'')\<rparr>))"

definition GetAddressKey :: "Migrator \<Rightarrow> NVMAddress \<Rightarrow> uint64" where
  "GetAddressKey mg a =
     row a * numBanks mg * numRanks mg * numSubarrays mg * numChannels mg
     + bank a * numRanks mg * numSubarrays mg * numChannels mg
     + rank a * numSubarrays mg * numChannels mg
     + subarray a * numChannels mg
     + channel a"

definition StartMigration :: "NVMAddress \<Rightarrow> NVMAddress \<Rightarrow> Migrator \<Rightarrow> Migrator option" where
  "StartMigration promotee demotee mg =
     (let demoChannel = channel promotee; promoChannel = channel demotee;
          promokey = GetAddressKey mg promotee; demokey = GetAddressKey mg demotee
      in if migrating mg then None
         else Some (mg\<lparr>migrationMap := om_insert demokey demoChannel (om_insert promokey promoChannel (migrationMap mg)),
                migrationState := om_insert demokey MIGRATION_READING (om_insert promokey MIGRATION_READING (migrationState mg)),
                migrating := True, inputPage := promokey, outputPage := demokey\<rparr>))"

definition touch :: "uint64 \<Rightarrow> (uint64 \<times> MigratorState) list \<Rightarrow> (uint64 \<times> MigratorState) list" where
  "touch k m = (case map_of m k of None \<Rightarrow> om_insert k MIGRATION_UNKNOWN m | Some _ \<Rightarrow> m)"

text \<open>Whether both pages of the migration are done; the second lookup happens only if the first page is.\<close>

definition both_done :: "Migrator \<Rightarrow> bool \<times> (uint64 \<times> MigratorState) list" where
  "both_done mg =
     (let m1 = touch (inputPage mg) (migrationState mg)
      in if map_of m1 (inputPage mg) = Some MIGRATION_DONE
         then let m2 = touch (outputPage mg) m1 in (map_of m2 (outputPage mg) = Some MIGRATION_DONE, m2)
         else (False, m1))"

definition SetMigrationState :: "NVMAddress \<Rightarrow> MigratorState \<Rightarrow> Migrator \<Rightarrow> Migrator option" where
  "SetMigrationState addr newState mg =
     (let key = GetAddressKey mg addr
      in case map_of (migrationState mg) key of
           None \<Rightarrow> None
         | Some old \<Rightarrow>
             if old = newState then None
             else (let mg1 = mg\<lparr>migrationState := om_insert key newState (migrationState mg)\<rparr>; (fin, m) = both_done mg1
                   in Some (mg1\<lparr>migrationState := m, migrating := (if fin then False else migrating mg1)\<rparr>)))"

definition IsMigrated :: "NVMAddress \<Rightarrow> Migrator \<Rightarrow> bool" where
  "IsMigrated addr mg =
     (let key = GetAddressKey mg addr
      in map_of (migrationMap mg) key \<noteq> None \<and> map_of (migrationState mg) key = Some MIGRATION_DONE)"

definition IsBuffered :: "NVMAddress \<Rightarrow> Migrator \<Rightarrow> bool" where
  "IsBuffered addr mg =
     (let key = GetAddressKey mg addr
      in map_of (migrationMap mg) key \<noteq> None
         \<and> (map_of (migrationState mg) key = Some MIGRATION_BUFFERED \<or> map_of (migrationState mg) key = Some MIGRATION_WRITING))"

text \<open>The page of an address: its translated fields without the column.\<close>

definition key_address :: "uint64 \<Rightarrow> (MemoryPartition \<Rightarrow> uint64) \<Rightarrow> NVMAddress" where
  "key_address addr f = SetPhysicalAddress addr
     (SetTranslatedAddress (f MEM_ROW) (f MEM_COL) (f MEM_BANK) (f MEM_RANK) (f MEM_CHANNEL) (f MEM_SUBARRAY) NVMAddress_new)"

definition Migrator_Translate ::
  "Migrator \<Rightarrow> uint64 \<Rightarrow> (MemoryPartition \<Rightarrow> uint64) \<Rightarrow> (Migrator \<times> (MemoryPartition \<Rightarrow> uint64)) option" where
  "Migrator_Translate mg addr outs = do {
     (t, f) \<leftarrow> Translate (mg_translator mg) addr outs;
     let mg1 = mg\<lparr>mg_translator := t\<rparr>;
     let key = GetAddressKey mg1 (key_address addr f);
     Some (case map_of (migrationMap mg1) key of
         None \<Rightarrow> (mg1, f)
       | Some ch \<Rightarrow>
           (let mg2 = mg1\<lparr>migrationState := touch key (migrationState mg1)\<rparr>
            in if map_of (migrationState mg2) key = Some MIGRATION_DONE
               then (mg2\<lparr>migratedAccesses := migratedAccesses mg2 + 1\<rparr>, f(MEM_CHANNEL := ch))
               else (mg2, f)))
   }"

subsection \<open>Checkpoints\<close>

text \<open>A file is a list of bytes; the machine is little-endian.\<close>

definition word_bytes :: "uint64 \<Rightarrow> uint8 list" where
  "word_bytes w = map (\<lambda>i. ucast (drop_bit (8 * i) w)) [0..<8]"

definition bytes_word :: "uint8 list \<Rightarrow> uint64" where
  "bytes_word bs = foldr (\<lambda>b w. push_bit 8 w OR ucast b) bs 0"

definition bytes_of_string :: "string \<Rightarrow> uint8 list" where
  "bytes_of_string s = map of_char s"

definition checkpoint_info :: string where
  "checkpoint_info = ''{'' @ [char_of (10 :: nat), char_of (9 :: nat)] @ [CHR 0x22] @ ''Version'' @ [CHR 0x22] @ '': 1'' @ [char_of (10 :: nat)] @ ''}''"

type_synonym byte_files = "string \<rightharpoonup> uint8 list"

definition Migrator_CreateCheckpoint :: "(string \<Rightarrow> bool) \<Rightarrow> string \<Rightarrow> string \<Rightarrow> Migrator \<Rightarrow> byte_files \<Rightarrow> byte_files" where
  "Migrator_CreateCheckpoint can_open dir statName mg files =
     (let cpt_file = dir @ ''/'' @ statName
      in if \<not> can_open cpt_file then files
         else (let files1 = files(cpt_file \<mapsto> concat (map (\<lambda>(k, ch). word_bytes k @ word_bytes ch) (migrationMap mg)));
                   cpt_info = cpt_file @ ''.json''
               in if \<not> can_open cpt_info then files1 else files1(cpt_info \<mapsto> bytes_of_string checkpoint_info)))"

text \<open>\<^verbatim>\<open>std::map::insert\<close> keeps a binding that is there already.\<close>

fun restore_loop :: "nat \<Rightarrow> uint8 list \<Rightarrow> (uint64 \<times> uint64) list \<Rightarrow> (uint64 \<times> uint64) list" where
  "restore_loop 0 bs m = m"
| "restore_loop (Suc n) bs m =
     (let addr = bytes_word (take 8 bs); ch = bytes_word (take 8 (drop 8 bs))
      in restore_loop n (drop 16 bs) (if map_of m addr = None then om_insert addr ch m else m))"

definition Migrator_RestoreCheckpoint :: "string \<Rightarrow> string \<Rightarrow> byte_files \<Rightarrow> Migrator \<Rightarrow> Migrator" where
  "Migrator_RestoreCheckpoint dir statName files mg =
     (case files (dir @ ''/'' @ statName) of None \<Rightarrow> mg
      | Some bs \<Rightarrow> mg\<lparr>migrationMap := restore_loop (length bs div 16) bs (migrationMap mg)\<rparr>)"

subsection \<open>The coin-toss migrator\<close>

datatype HookType = NVMHOOK_NONE | NVMHOOK_PREISSUE | NVMHOOK_POSTISSUE | NVMHOOK_COUNT | NVMHOOK_BOTHISSUE

record CoinMigrator =
  promoBuffered :: bool
  demoBuffered :: bool
  cm_demotee :: NVMAddress
  cm_promotee :: NVMAddress
  promoRequest :: "nat option"
  demoRequest :: "nat option"
  probability :: rat
  numCols :: ncounter_t
  queriedMemory :: bool
  bufferReadLatency :: ncycle_t
  promotionChannelParams :: "Params option"
  totalPromotionPages :: ncounter_t
  currentPromotionPage :: ncounter_t
  promotionChannel :: ncounter_t
  migrationCount :: ncounter_t
  queueWaits :: ncounter_t
  bufferedReads :: ncounter_t

definition CoinMigrator_new :: CoinMigrator where
  "CoinMigrator_new = \<lparr>promoBuffered = False, demoBuffered = False, cm_demotee = NVMAddress_new, cm_promotee = NVMAddress_new,
     promoRequest = None, demoRequest = None, probability = 0, numCols = 0, queriedMemory = False, bufferReadLatency = 0,
     promotionChannelParams = None, totalPromotionPages = 0, currentPromotionPage = 0, promotionChannel = 0, migrationCount = 0,
     queueWaits = 0, bufferedReads = 0\<rparr>"

text \<open>The arguments are the configured values, if any.\<close>

definition CoinMigrator_Init :: "rat option \<Rightarrow> uint64 option \<Rightarrow> uint64 option \<Rightarrow> int \<Rightarrow> CoinMigrator \<Rightarrow> CoinMigrator" where
  "CoinMigrator_Init prob ch latency cols cm =
     cm\<lparr>probability := (case prob of None \<Rightarrow> 2 / 100 | Some p \<Rightarrow> p), promotionChannel := (case ch of None \<Rightarrow> 0 | Some c \<Rightarrow> c),
        bufferReadLatency := (case latency of None \<Rightarrow> 4 | Some l \<Rightarrow> l), numCols := of_int cols\<rparr>"

text \<open>What the hook sees of the module it is attached to: whether that is the top module and at which point
  the hook runs, the identity of the module, the children of its parent (for the recipient of an event), the
  readiness of the child an address goes to, the commands of the child and of the module, the parameters of
  the fast channel, the two tags and the sequence of coin tosses.\<close>

record MigrationHost =
  h_isNVMain :: bool
  h_hook :: HookType
  h_self :: nat
  h_hooks :: "(nat \<times> nat) list"
  h_issuable :: "NVMAddress \<Rightarrow> OpType \<Rightarrow> World \<Rightarrow> bool"
  h_child_issue :: "nat \<Rightarrow> World \<Rightarrow> (bool \<times> World) option"
  h_issue :: "nat \<Rightarrow> World \<Rightarrow> (bool \<times> World) option"
  h_params :: Params
  h_read_tag :: int
  h_write_tag :: int
  h_toss :: "nat \<Rightarrow> rat"

type_synonym migration_state = "World \<times> Migrator \<times> CoinMigrator"

text \<open>Both pages are buffered: the two requests swap their addresses and become writes. A write the child does
  not take stays buffered.\<close>

definition write_back :: "MigrationHost \<Rightarrow> migration_state \<Rightarrow> migration_state option" where
  "write_back h st = (case st of (w, mg, cm) \<Rightarrow> do {
     pr \<leftarrow> promoRequest cm;
     dr \<leftarrow> demoRequest cm;
     preq \<leftarrow> heap w pr;
     dreq \<leftarrow> heap w dr;
     let promoAddr = address dreq;
     let demoAddr = address preq;
     w1 \<leftarrow> update_request pr (\<lambda>q. q\<lparr>address := promoAddr, req_type := WRITE, tag := h_write_tag h\<rparr>) w;
     w2 \<leftarrow> update_request dr (\<lambda>q. q\<lparr>address := demoAddr, req_type := WRITE, tag := h_write_tag h\<rparr>) w1;
     (demoIssued, w3) \<leftarrow> h_child_issue h dr w2;
     (promoIssued, w4) \<leftarrow> h_child_issue h pr w3;
     mg1 \<leftarrow> (if demoIssued then SetMigrationState demoAddr MIGRATION_WRITING mg else Some mg);
     mg2 \<leftarrow> (if promoIssued then SetMigrationState promoAddr MIGRATION_WRITING mg1 else Some mg1);
     Some (w4, mg2, cm\<lparr>promoBuffered := \<not> promoIssued, demoBuffered := \<not> demoIssued\<rparr>)
   })"

text \<open>A migration read has completed: its page is buffered, and the request is copied because the module
  deletes it.\<close>

definition read_complete :: "MigrationHost \<Rightarrow> nat \<Rightarrow> NVMainRequest \<Rightarrow> migration_state \<Rightarrow> migration_state option" where
  "read_complete h r req st = (case st of (w, mg, cm) \<Rightarrow> do {
     mg1 \<leftarrow> SetMigrationState (address req) MIGRATION_BUFFERED mg;
     let bufferComplete = (promoRequest cm = Some r \<and> IsBuffered (cm_demotee cm) mg1 \<or> demoRequest cm = Some r \<and> IsBuffered (cm_promotee cm) mg1);
     (w1, cm1) \<leftarrow> (if promoRequest cm = Some r then do { (c, w1) \<leftarrow> copy_request r id w; Some (w1, cm\<lparr>promoRequest := Some c\<rparr>) }
                    else if demoRequest cm = Some r then do { (c, w1) \<leftarrow> copy_request r id w; Some (w1, cm\<lparr>demoRequest := Some c\<rparr>) }
                    else None);
     if bufferComplete then write_back h (w1, mg1, cm1) else Some (w1, mg1, cm1)
   })"

text \<open>Some other request has completed: the writes still buffered are tried again.\<close>

definition retry_writes :: "MigrationHost \<Rightarrow> migration_state \<Rightarrow> migration_state option" where
  "retry_writes h st = (case st of (w, mg, cm) \<Rightarrow> do {
     (w1, cm1) \<leftarrow> (if promoBuffered cm then do {
                      pr \<leftarrow> promoRequest cm;
                      (promoIssued, w1) \<leftarrow> h_child_issue h pr w;
                      Some (w1, cm\<lparr>promoBuffered := \<not> promoIssued\<rparr>)
                    } else Some (w, cm));
     (w2, cm2) \<leftarrow> (if demoBuffered cm1 then do {
                      dr \<leftarrow> demoRequest cm1;
                      (demoIssued, w2) \<leftarrow> h_child_issue h dr w1;
                      Some (w2, cm1\<lparr>demoBuffered := \<not> demoIssued\<rparr>)
                    } else Some (w1, cm1));
     Some (w2, mg, cm2)
   })"

definition CoinMigrator_RequestComplete :: "MigrationHost \<Rightarrow> nat \<Rightarrow> migration_state \<Rightarrow> (bool \<times> migration_state) option" where
  "CoinMigrator_RequestComplete h r st = (case st of (w, mg, cm) \<Rightarrow>
     if h_isNVMain h \<and> h_hook h = NVMHOOK_PREISSUE then do {
       req \<leftarrow> heap w r;
       st' \<leftarrow> (if owner req = Some (h_self h) \<and> tag req = h_read_tag h then read_complete h r req st
              else if owner req = Some (h_self h) \<and> tag req = h_write_tag h then do {
                mg1 \<leftarrow> SetMigrationState (address req) MIGRATION_DONE mg;
                Some (w, mg1, cm\<lparr>migrationCount := migrationCount cm + 1\<rparr>)
              }
              else if promoBuffered cm \<or> demoBuffered cm then retry_writes h st
              else Some st);
       Some (True, st')
     } else Some (True, st))"

text \<open>The parameters of the fast channel are asked for once.\<close>

definition query_memory :: "Params \<Rightarrow> CoinMigrator \<Rightarrow> CoinMigrator" where
  "query_memory p cm =
     (if queriedMemory cm then cm
      else cm\<lparr>promotionChannelParams := Some p, totalPromotionPages := RANKS p * BANKS p * ROWS p, currentPromotionPage := 0, queriedMemory := True\<rparr>)"

text \<open>\<^verbatim>\<open>NVM::mlog2\<close> takes an \<^verbatim>\<open>int\<close>.\<close>

definition int_of_count :: "ncounter_t \<Rightarrow> int" where
  "int_of_count n = sint (ucast n :: uint32)"

definition shift_field :: "ncounter_t \<Rightarrow> ncounter_t \<Rightarrow> ncounter_t" where
  "shift_field page n = drop_bit (nat (mlog2 (int_of_count n))) page"

text \<open>Rank, bank, subarray and row of the page with the given number; \<open>None\<close> is a division by zero.\<close>

definition victim_fields :: "Params \<Rightarrow> ncounter_t \<Rightarrow> (uint64 \<times> uint64 \<times> uint64 \<times> uint64) option" where
  "victim_fields p page =
     (if RANKS p = 0 \<or> BANKS p = 0 \<or> MATHeight p = 0 \<or> ROWS p div MATHeight p = 0 then None
      else (let victimRank = page mod RANKS p; page1 = shift_field page (RANKS p);
                victimBank = page1 mod BANKS p; page2 = shift_field page1 (BANKS p);
                subarrayCount = ROWS p div MATHeight p;
                victimSubarray = page2 mod subarrayCount; victimRow = shift_field page2 subarrayCount
            in Some (victimRank, victimBank, victimSubarray, victimRow)))"

definition fields_of_address :: "uint64 \<Rightarrow> uint64 \<Rightarrow> uint64 \<Rightarrow> uint64 \<Rightarrow> uint64 \<Rightarrow> uint64 \<Rightarrow> MemoryPartition \<Rightarrow> uint64" where
  "fields_of_address rw cl bk rk ch sa p =
     (case p of MEM_ROW \<Rightarrow> rw | MEM_COL \<Rightarrow> cl | MEM_BANK \<Rightarrow> bk | MEM_RANK \<Rightarrow> rk | MEM_CHANNEL \<Rightarrow> ch | MEM_SUBARRAY \<Rightarrow> sa | MEM_UNKNOWN \<Rightarrow> 0)"

definition CoinMigrator_ChooseVictim :: "MigrationHost \<Rightarrow> Migrator \<times> CoinMigrator \<Rightarrow> (Migrator \<times> CoinMigrator) option" where
  "CoinMigrator_ChooseVictim h st = (case st of (mg, cm0) \<Rightarrow> do {
     let cm = query_memory (h_params h) cm0;
     p \<leftarrow> promotionChannelParams cm;
     (rk, bk, sa, rw) \<leftarrow> victim_fields p (currentPromotionPage cm);
     (t, victimAddress) \<leftarrow> ReverseTranslate (mg_translator mg) (fields_of_address rw 0 bk rk (promotionChannel cm) sa);
     let victim = SetPhysicalAddress victimAddress (SetTranslatedAddress rw 0 bk rk (promotionChannel cm) sa (cm_demotee cm));
     if totalPromotionPages cm = 0 then None
     else Some (mg\<lparr>mg_translator := t\<rparr>,
            cm\<lparr>cm_demotee := victim, currentPromotionPage := (currentPromotionPage cm + 1) mod totalPromotionPages cm\<rparr>)
   })"

definition new_read :: "MigrationHost \<Rightarrow> NVMAddress \<Rightarrow> ncounter_t \<Rightarrow> World \<Rightarrow> nat \<times> World" where
  "new_read h a cols w =
     (next_ref w, w\<lparr>heap := (heap w)(next_ref w \<mapsto> NVMainRequest_new\<lparr>address := a, req_type := READ, tag := h_read_tag h, burstCount := cols,
        owner := Some (h_self h)\<rparr>), next_ref := Suc (next_ref w)\<rparr>)"

text \<open>The coin fell for a migration of the page of the request.\<close>

definition migrate :: "MigrationHost \<Rightarrow> bool \<Rightarrow> NVMainRequest \<Rightarrow> migration_state \<Rightarrow> migration_state option" where
  "migrate h atomic req st = (case st of (w, mg, cm) \<Rightarrow> do {
     let a = address req;
     (t, promoteeAddress) \<leftarrow> ReverseTranslate (mg_translator mg) (fields_of_address (row a) 0 (bank a) (rank a) (channel a) (subarray a));
     let promotee = SetTranslatedAddress (row a) 0 (bank a) (rank a) (channel a) (subarray a) (SetPhysicalAddress promoteeAddress (cm_promotee cm));
     (mg1, cm1) \<leftarrow> CoinMigrator_ChooseVictim h (mg\<lparr>mg_translator := t\<rparr>, cm\<lparr>cm_promotee := promotee\<rparr>);
     let demotee = cm_demotee cm1;
     if IsMigrated demotee mg1 \<or> IsMigrated promotee mg1 then None
     else if atomic then do {
       mg2 \<leftarrow> StartMigration a demotee mg1;
       mg3 \<leftarrow> SetMigrationState promotee MIGRATION_DONE mg2;
       mg4 \<leftarrow> SetMigrationState demotee MIGRATION_DONE mg3;
       Some (w, mg4, cm1)
     }
     else if h_issuable h promotee READ w \<and> h_issuable h demotee READ w then do {
       mg2 \<leftarrow> StartMigration a demotee mg1;
       let (pr, w1) = new_read h promotee (numCols cm1) w;
       let (dr, w2) = new_read h demotee (numCols cm1) w1;
       (_, w3) \<leftarrow> h_issue h pr w2;
       (_, w4) \<leftarrow> h_issue h dr w3;
       Some (w4, mg2, cm1\<lparr>promoRequest := Some pr, demoRequest := Some dr\<rparr>)
     }
     else Some (w, mg1, cm1\<lparr>queueWaits := queueWaits cm1 + 1\<rparr>)
   })"

definition TryMigration :: "MigrationHost \<Rightarrow> nat \<Rightarrow> bool \<Rightarrow> migration_state \<Rightarrow> (bool \<times> migration_state) option" where
  "TryMigration h r atomic st = (case st of (w, mg, cm) \<Rightarrow>
     if h_isNVMain h then do {
       req \<leftarrow> heap w r;
       if h_hook h = NVMHOOK_PREISSUE \<and> IsBuffered (address req) mg then do {
         w1 \<leftarrow> insert_response (h_hooks h) (h_self h) r (now w + bufferReadLatency cm) w;
         Some (False, w1, mg, cm\<lparr>bufferedReads := bufferedReads cm + 1\<rparr>)
       }
       else if h_hook h \<noteq> NVMHOOK_POSTISSUE then Some (True, st)
       else if \<not> migrating mg \<and> \<not> IsMigrated (address req) mg \<and> channel (address req) \<noteq> promotionChannel cm then
         if demoBuffered cm \<or> promoBuffered cm then None
         else (let w1 = w\<lparr>rng := Suc (rng w)\<rparr>
               in if h_toss h (rng w) \<le> probability cm then do { st' \<leftarrow> migrate h atomic req (w1, mg, cm); Some (True, st') }
                  else Some (True, w1, mg, cm))
       else Some (True, st)
     } else Some (True, st))"

definition CoinMigrator_IssueAtomic :: "MigrationHost \<Rightarrow> nat \<Rightarrow> migration_state \<Rightarrow> (bool \<times> migration_state) option" where
  "CoinMigrator_IssueAtomic h r st = TryMigration h r True st"

definition CoinMigrator_IssueCommand :: "MigrationHost \<Rightarrow> nat \<Rightarrow> migration_state \<Rightarrow> (bool \<times> migration_state) option" where
  "CoinMigrator_IssueCommand h r st = TryMigration h r False st"

subsection \<open>Pages and their keys\<close>

type_synonym place = "uint64 \<times> uint64 \<times> uint64 \<times> uint64"

definition place_of :: "NVMAddress \<Rightarrow> place" where
  "place_of a = (row a, bank a, rank a, subarray a)"

fun place_number :: "Migrator \<Rightarrow> place \<Rightarrow> uint64" where
  "place_number mg (rw, bk, rk, sa) = ((rw * numBanks mg + bk) * numRanks mg + rk) * numSubarrays mg + sa"

definition page_key :: "Migrator \<Rightarrow> place \<Rightarrow> uint64 \<Rightarrow> uint64" where
  "page_key mg pl ch = place_number mg pl * numChannels mg + ch"

text \<open>A page of a memory with \<open>rows\<close> rows per subarray.\<close>

fun page_in :: "nat \<Rightarrow> Migrator \<Rightarrow> place \<Rightarrow> uint64 \<Rightarrow> bool" where
  "page_in rows mg (rw, bk, rk, sa) ch \<longleftrightarrow>
     unat rw < rows \<and> bk < numBanks mg \<and> rk < numRanks mg \<and> sa < numSubarrays mg \<and> ch < numChannels mg"

definition pages_fit :: "nat \<Rightarrow> Migrator \<Rightarrow> bool" where
  "pages_fit rows mg \<longleftrightarrow> rows * unat (numBanks mg) * unat (numRanks mg) * unat (numSubarrays mg) * unat (numChannels mg) < 2 ^ 64"

lemma GetAddressKey_page: "GetAddressKey mg a = page_key mg (place_of a) (channel a)"
  by (simp add: GetAddressKey_def page_key_def place_of_def algebra_simps)

lemma product_below: "m * n < k \<Longrightarrow> 0 < n \<Longrightarrow> m < (k :: nat)"
  by (metis less_le_trans mult.commute mult_le_mono2 nat_mult_1 Suc_leI One_nat_def not_le)

lemma unat_place:
  assumes "pages_fit rows mg" "page_in rows mg (rw, bk, rk, sa) ch"
  shows "unat (place_number mg (rw, bk, rk, sa)) = ((unat rw * unat (numBanks mg) + unat bk) * unat (numRanks mg) + unat rk) * unat (numSubarrays mg) + unat sa"
    and "unat (place_number mg (rw, bk, rk, sa)) < rows * unat (numBanks mg) * unat (numRanks mg) * unat (numSubarrays mg)"
proof -
  have r: "unat rw < rows" "unat bk < unat (numBanks mg)" "unat rk < unat (numRanks mg)" "unat sa < unat (numSubarrays mg)" "0 < unat (numChannels mg)"
    using assms(2) by (auto simp: word_less_nat_alt)
  have f3: "rows * unat (numBanks mg) * unat (numRanks mg) * unat (numSubarrays mg) < 2 ^ 64"
    using assms(1) r(5) product_below unfolding pages_fit_def by blast
  have f2: "rows * unat (numBanks mg) * unat (numRanks mg) < 2 ^ 64"
    using product_below [OF f3] r(4) by linarith
  have f1: "rows * unat (numBanks mg) < 2 ^ 64"
    using product_below [OF f2] r(3) by linarith
  note a = unat_mixed_radix [OF r(1,2) f1]
  note b = unat_mixed_radix [OF _ r(3) f2, of "rw * numBanks mg + bk", unfolded a(1), OF a(2)]
  note c = unat_mixed_radix [OF _ r(4) f3, of "(rw * numBanks mg + bk) * numRanks mg + rk", unfolded b(1), OF b(2)]
  show "unat (place_number mg (rw, bk, rk, sa)) = ((unat rw * unat (numBanks mg) + unat bk) * unat (numRanks mg) + unat rk) * unat (numSubarrays mg) + unat sa"
    using c(1) by simp
  show "unat (place_number mg (rw, bk, rk, sa)) < rows * unat (numBanks mg) * unat (numRanks mg) * unat (numSubarrays mg)"
    using c by simp
qed

lemma place_number_inj:
  assumes "pages_fit rows mg" "page_in rows mg pl ch" "page_in rows mg pl' ch'"
  shows "place_number mg pl = place_number mg pl' \<longleftrightarrow> pl = pl'"
proof -
  obtain rw bk rk sa rw' bk' rk' sa' where pl: "pl = (rw, bk, rk, sa)" "pl' = (rw', bk', rk', sa')"
    by (cases pl, cases pl')
  have "unat bk < unat (numBanks mg)" "unat bk' < unat (numBanks mg)" "unat rk < unat (numRanks mg)" "unat rk' < unat (numRanks mg)"
    "unat sa < unat (numSubarrays mg)" "unat sa' < unat (numSubarrays mg)"
    using assms(2,3) by (auto simp: pl word_less_nat_alt)
  then show ?thesis
    using unat_place(1) [OF assms(1)] assms(2,3) unfolding pl word_unat_eq_iff by (auto simp: mixed_radix_iff word_unat_eq_iff simp del: place_number.simps)
qed

lemma page_key_inj:
  assumes "pages_fit rows mg" "page_in rows mg pl ch" "page_in rows mg pl' ch'"
  shows "page_key mg pl ch = page_key mg pl' ch' \<longleftrightarrow> pl = pl' \<and> ch = ch'"
proof -
  have key: "unat (page_key mg pl ch) = unat (place_number mg pl) * unat (numChannels mg) + unat ch" "unat ch < unat (numChannels mg)"
    if "page_in rows mg pl ch" for pl ch
  proof -
    obtain rw bk rk sa where pl: "pl = (rw, bk, rk, sa)" by (cases pl)
    show ch: "unat ch < unat (numChannels mg)" using that by (auto simp: pl word_less_nat_alt)
    show "unat (page_key mg pl ch) = unat (place_number mg pl) * unat (numChannels mg) + unat ch"
      using unat_place(2) [OF assms(1)] that assms(1) unfolding page_key_def pl pages_fit_def
      by (intro unat_mixed_radix(1) [OF _ ch]) auto
  qed
  have "page_key mg pl ch = page_key mg pl' ch' \<longleftrightarrow> place_number mg pl = place_number mg pl' \<and> ch = ch'"
    unfolding word_unat_eq_iff key(1) [OF assms(2)] key(1) [OF assms(3)] using key(2) assms(2,3) by (simp add: mixed_radix_iff)
  then show ?thesis
    using place_number_inj [OF assms] by simp
qed

subsection \<open>The history of a decoder\<close>

text \<open>What the decoder promises is said over the history of the calls it accepted, newest first, and over pages
  rather than keys: the channel and the stage of a page are those of the newest call that names it, and a
  migration is in progress until both of its pages are done.\<close>

type_synonym page = "place \<times> uint64"

datatype migration_call = Started NVMAddress NVMAddress | Stage NVMAddress MigratorState

definition page_of :: "NVMAddress \<Rightarrow> page" where
  "page_of a = (place_of a, channel a)"

fun target_in :: "migration_call list \<Rightarrow> page \<Rightarrow> uint64 option" where
  "target_in [] pg = None"
| "target_in (Started p d # h) pg = (if pg = page_of d then Some (channel p) else if pg = page_of p then Some (channel d) else target_in h pg)"
| "target_in (Stage a s # h) pg = target_in h pg"

fun pages_named :: "migration_call list \<Rightarrow> page set" where
  "pages_named [] = {}"
| "pages_named (Started p d # h) = {page_of p, page_of d} \<union> pages_named h"
| "pages_named (Stage a s # h) = pages_named h"

fun stage_in :: "migration_call list \<Rightarrow> page \<Rightarrow> MigratorState option" where
  "stage_in [] pg = None"
| "stage_in (Started p d # h) pg = (if pg = page_of p \<or> pg = page_of d then Some MIGRATION_READING else stage_in h pg)"
| "stage_in (Stage a s # h) pg = (if pg = page_of a then Some s else stage_in h pg)"

fun newest_start :: "migration_call list \<Rightarrow> (page \<times> page) option" where
  "newest_start [] = None"
| "newest_start (Started p d # h) = Some (page_of p, page_of d)"
| "newest_start (Stage a s # h) = newest_start h"

definition pair_done :: "migration_call list \<Rightarrow> bool" where
  "pair_done h = (case newest_start h of None \<Rightarrow> False | Some (p, d) \<Rightarrow> stage_in h p = Some MIGRATION_DONE \<and> stage_in h d = Some MIGRATION_DONE)"

fun in_progress :: "migration_call list \<Rightarrow> bool" where
  "in_progress [] = False"
| "in_progress (Started p d # h) = True"
| "in_progress (Stage a s # h) = (in_progress h \<and> \<not> pair_done (Stage a s # h))"

text \<open>The runs of a decoder: it starts with no migration; every call names pages of the memory; no other condition
  is put on the caller, and translations may come at any time.\<close>

inductive decoder_run :: "nat \<Rightarrow> migration_call list \<Rightarrow> Migrator \<Rightarrow> bool" for rows where
  fresh: "pages_fit rows mg \<Longrightarrow> migrationMap mg = [] \<Longrightarrow> migrationState mg = [] \<Longrightarrow> \<not> migrating mg \<Longrightarrow> decoder_run rows [] mg"
| start: "decoder_run rows h mg \<Longrightarrow> page_in rows mg (place_of p) (channel p) \<Longrightarrow> page_in rows mg (place_of d) (channel d)
    \<Longrightarrow> StartMigration p d mg = Some mg' \<Longrightarrow> decoder_run rows (Started p d # h) mg'"
| advance: "decoder_run rows h mg \<Longrightarrow> page_in rows mg (place_of a) (channel a) \<Longrightarrow> SetMigrationState a s mg = Some mg'
    \<Longrightarrow> decoder_run rows (Stage a s # h) mg'"
| translated: "decoder_run rows h mg \<Longrightarrow> Migrator_Translate mg addr outs = Some (mg', f) \<Longrightarrow> decoder_run rows h mg'"

definition key_of :: "Migrator \<Rightarrow> page \<Rightarrow> uint64" where
  "key_of mg pg = page_key mg (fst pg) (snd pg)"

definition in_memory :: "nat \<Rightarrow> Migrator \<Rightarrow> page \<Rightarrow> bool" where
  "in_memory rows mg pg = page_in rows mg (fst pg) (snd pg)"

lemma in_memory_page_of [simp]: "in_memory rows mg (page_of a) = page_in rows mg (place_of a) (channel a)"
  by (simp add: in_memory_def page_of_def)

lemma GetAddressKey_key: "GetAddressKey mg a = key_of mg (page_of a)"
  by (simp add: GetAddressKey_page key_of_def page_of_def)

lemma key_of_inj: "pages_fit rows mg \<Longrightarrow> in_memory rows mg pg \<Longrightarrow> in_memory rows mg pg' \<Longrightarrow> key_of mg pg = key_of mg pg' \<longleftrightarrow> pg = pg'"
  by (simp add: key_of_def in_memory_def page_key_inj prod_eq_iff)

definition history_ok :: "nat \<Rightarrow> migration_call list \<Rightarrow> Migrator \<Rightarrow> bool" where
  "history_ok rows h mg \<longleftrightarrow> pages_fit rows mg \<and> om_ok (migrationMap mg) \<and> om_ok (migrationState mg)
     \<and> dom (map_of (migrationMap mg)) = dom (map_of (migrationState mg))
     \<and> (\<forall>pg. in_memory rows mg pg \<longrightarrow> map_of (migrationMap mg) (key_of mg pg) = target_in h pg \<and> map_of (migrationState mg) (key_of mg pg) = stage_in h pg)
     \<and> (case newest_start h of None \<Rightarrow> migrationState mg = []
        | Some (p, d) \<Rightarrow> in_memory rows mg p \<and> in_memory rows mg d \<and> inputPage mg = key_of mg p \<and> outputPage mg = key_of mg d
            \<and> stage_in h p \<noteq> None \<and> stage_in h d \<noteq> None)
     \<and> migrating mg = in_progress h"

lemma history_okD:
  assumes "history_ok rows h mg"
  shows "pages_fit rows mg" "om_ok (migrationMap mg)" "om_ok (migrationState mg)"
    "dom (map_of (migrationMap mg)) = dom (map_of (migrationState mg))" "migrating mg = in_progress h"
    "in_memory rows mg pg \<Longrightarrow> map_of (migrationMap mg) (key_of mg pg) = target_in h pg"
    "in_memory rows mg pg \<Longrightarrow> map_of (migrationState mg) (key_of mg pg) = stage_in h pg"
    "newest_start h = Some (p, d) \<Longrightarrow> in_memory rows mg p \<and> in_memory rows mg d \<and> inputPage mg = key_of mg p \<and> outputPage mg = key_of mg d
            \<and> stage_in h p \<noteq> None \<and> stage_in h d \<noteq> None"
    "newest_start h = None \<Longrightarrow> migrationState mg = []"
  using assms unfolding history_ok_def by (simp_all only: option.case prod.case) blast+

lemma page_in_config:
  assumes "numBanks mg' = numBanks mg" "numRanks mg' = numRanks mg" "numSubarrays mg' = numSubarrays mg" "numChannels mg' = numChannels mg"
  shows "in_memory rows mg' = in_memory rows mg" "key_of mg' = key_of mg" "pages_fit rows mg' = pages_fit rows mg"
proof -
  have "page_in rows mg' pl ch = page_in rows mg pl ch" "place_number mg' pl = place_number mg pl" for pl ch
    by (cases pl; simp add: assms)+
  then show "in_memory rows mg' = in_memory rows mg" "key_of mg' = key_of mg" "pages_fit rows mg' = pages_fit rows mg"
    by (auto simp: fun_eq_iff in_memory_def key_of_def page_key_def pages_fit_def assms)
qed

lemma start_history:
  assumes ok: "history_ok rows h mg" and p: "page_in rows mg (place_of p) (channel p)" and d: "page_in rows mg (place_of d) (channel d)"
    and st: "StartMigration p d mg = Some mg'"
  shows "history_ok rows (Started p d # h) mg'"
proof -
  let ?k = "key_of mg (page_of p)" and ?l = "key_of mg (page_of d)"
  note H = history_okD [OF ok]
  have mg': "mg' = mg\<lparr>migrationMap := om_insert ?l (channel p) (om_insert ?k (channel d) (migrationMap mg)),
      migrationState := om_insert ?l MIGRATION_READING (om_insert ?k MIGRATION_READING (migrationState mg)),
      migrating := True, inputPage := ?k, outputPage := ?l\<rparr>"
    using st by (auto simp: StartMigration_def GetAddressKey_key Let_def split: if_splits)
  have c: "in_memory rows mg' = in_memory rows mg" "key_of mg' = key_of mg" "pages_fit rows mg' = pages_fit rows mg"
    by (rule page_in_config; simp add: mg')+
  have M: "map_of (migrationMap mg') = (map_of (migrationMap mg))(?k \<mapsto> channel d, ?l \<mapsto> channel p)"
    and S: "map_of (migrationState mg') = (map_of (migrationState mg))(?k \<mapsto> MIGRATION_READING, ?l \<mapsto> MIGRATION_READING)"
    using H(2,3) by (simp_all add: mg' map_of_om_insert om_ok_insert)
  have "key_of mg pg = ?k \<longleftrightarrow> pg = page_of p" "key_of mg pg = ?l \<longleftrightarrow> pg = page_of d" if "in_memory rows mg pg" for pg
    using key_of_inj [OF H(1) that] p d by simp_all
  then have pages: "map_of (migrationMap mg') (key_of mg pg) = target_in (Started p d # h) pg"
    "map_of (migrationState mg') (key_of mg pg) = stage_in (Started p d # h) pg" if "in_memory rows mg pg" for pg
    using that H(6,7) by (simp_all add: M S)
  have om: "om_ok (migrationMap mg')" "om_ok (migrationState mg')"
    using H(2,3) by (simp_all add: mg' om_ok_insert)
  show ?thesis
    unfolding history_ok_def c using H(1,4) om pages p d by (auto simp: M S) (simp_all add: mg')
qed

lemma touch_present: "map_of m k \<noteq> None \<Longrightarrow> touch k m = m"
  by (auto simp: touch_def)

lemma both_done_present:
  assumes "map_of (migrationState mg) (inputPage mg) \<noteq> None" "map_of (migrationState mg) (outputPage mg) \<noteq> None"
  shows "both_done mg = (map_of (migrationState mg) (inputPage mg) = Some MIGRATION_DONE
      \<and> map_of (migrationState mg) (outputPage mg) = Some MIGRATION_DONE, migrationState mg)"
  using assms by (simp add: both_done_def Let_def touch_present)

lemma advance_history:
  assumes ok: "history_ok rows h mg" and a: "page_in rows mg (place_of a) (channel a)" and st: "SetMigrationState a s mg = Some mg'"
  shows "history_ok rows (Stage a s # h) mg'"
proof -
  let ?k = "key_of mg (page_of a)" and ?h = "Stage a s # h"
  let ?m1 = "mg\<lparr>migrationState := om_insert ?k s (migrationState mg)\<rparr>"
  note H = history_okD [OF ok]
  have k: "?k \<in> dom (map_of (migrationState mg))"
    using st by (auto simp: SetMigrationState_def GetAddressKey_key Let_def split: option.splits)
  then obtain p d where n: "newest_start h = Some (p, d)"
    using H(9) by (cases "newest_start h") auto
  note P = H(8) [OF n]
  have S1: "map_of (migrationState ?m1) = (map_of (migrationState mg))(?k \<mapsto> s)"
    using H(3) by (simp add: map_of_om_insert)
  have eq: "key_of mg pg = ?k \<longleftrightarrow> pg = page_of a" if "in_memory rows mg pg" for pg
    using key_of_inj [OF H(1) that] a by simp
  have pages: "map_of (migrationState ?m1) (key_of mg pg) = stage_in ?h pg" if "in_memory rows mg pg" for pg
    unfolding S1 using eq [OF that] H(7) [OF that] by simp
  have "both_done ?m1 = (pair_done ?h, migrationState ?m1)"
    using P pages [of p] pages [of d] n by (subst both_done_present) (auto simp: pair_done_def split: if_splits)
  then have mg': "mg' = ?m1\<lparr>migrating := (if pair_done ?h then False else migrating mg)\<rparr>"
    using st by (auto simp: SetMigrationState_def GetAddressKey_key Let_def split: option.splits if_splits)
  have c: "in_memory rows mg' = in_memory rows mg" "key_of mg' = key_of mg" "pages_fit rows mg' = pages_fit rows mg"
    by (rule page_in_config; simp add: mg')+
  have f: "migrationState mg' = migrationState ?m1" "migrationMap mg' = migrationMap mg" "migrating mg' = in_progress ?h"
    "inputPage mg' = inputPage mg" "outputPage mg' = outputPage mg"
    using H(5) by (simp_all add: mg')
  have "om_ok (migrationState ?m1)" "dom (map_of (migrationState ?m1)) = dom (map_of (migrationState mg))"
    using H(3) k by (simp_all only: S1) (auto simp: om_ok_insert)
  then show ?thesis
    unfolding history_ok_def c f using H(1,2,4,6) pages P n by simp
qed

lemma translate_history:
  assumes ok: "history_ok rows h mg" and tr: "Migrator_Translate mg addr outs = Some (mg', f)"
  shows "history_ok rows h mg'"
    and "migrationMap mg' = migrationMap mg" "migrationState mg' = migrationState mg"
proof -
  note H = history_okD [OF ok]
  obtain t g where g: "Translate (mg_translator mg) addr outs = Some (t, g)"
    using tr by (auto simp: Migrator_Translate_def elim!: bind_SomeE)
  have "touch k (migrationState mg) = migrationState mg" if "map_of (migrationMap mg) k = Some v" for k v
    using that H(4) by (intro touch_present) auto
  then have m: "migrationMap mg' = migrationMap mg" "migrationState mg' = migrationState mg" "migrating mg' = migrating mg"
    "inputPage mg' = inputPage mg" "outputPage mg' = outputPage mg"
    and n: "numBanks mg' = numBanks mg" "numRanks mg' = numRanks mg" "numSubarrays mg' = numSubarrays mg" "numChannels mg' = numChannels mg"
    using tr g by (auto simp: Migrator_Translate_def Let_def split: option.splits if_splits)
  show "migrationMap mg' = migrationMap mg" "migrationState mg' = migrationState mg" by (fact m)+
  show "history_ok rows h mg'"
    using ok unfolding history_ok_def page_in_config [OF n] m .
qed

lemma decoder_run_ok: "decoder_run rows h mg \<Longrightarrow> history_ok rows h mg"
proof (induction rule: decoder_run.induct)
  case (fresh mg)
  then show ?case by (simp add: history_ok_def om_ok_def)
next
  case (start h mg p d mg')
  then show ?case by (blast intro: start_history)
next
  case (advance h mg a s mg')
  then show ?case by (blast intro: advance_history)
next
  case (translated h mg addr outs mg' f)
  then show ?case by (blast intro: translate_history(1))
qed

lemma key_address_page: "place_of (key_address addr f) = (f MEM_ROW, f MEM_BANK, f MEM_RANK, f MEM_SUBARRAY)" "channel (key_address addr f) = f MEM_CHANNEL"
  by (simp_all add: key_address_def place_of_def SetPhysicalAddress_def SetTranslatedAddress_def)

text \<open>Where the history sends a page.\<close>

definition sent_to :: "migration_call list \<Rightarrow> page \<Rightarrow> uint64" where
  "sent_to h pg = (case target_in h pg of None \<Rightarrow> snd pg | Some ch \<Rightarrow> if stage_in h pg = Some MIGRATION_DONE then ch else snd pg)"

lemma target_in_named: "pg \<notin> pages_named h \<Longrightarrow> target_in h pg = None"
  by (induction h pg rule: target_in.induct) auto

lemma Migrator_Translate_sent:
  assumes ok: "history_ok rows h mg" and t: "Translate (mg_translator mg) addr outs = Some (t, f)"
    and i: "page_in rows mg (place_of (key_address addr f)) (f MEM_CHANNEL)"
  shows "\<exists>mg'. Migrator_Translate mg addr outs = Some (mg', f(MEM_CHANNEL := sent_to h (page_of (key_address addr f))))"
proof -
  let ?pg = "page_of (key_address addr f)"
  note H = history_okD [OF ok]
  have m: "in_memory rows mg ?pg" using i by (simp add: key_address_page)
  have k: "GetAddressKey (mg\<lparr>mg_translator := t\<rparr>) (key_address addr f) = key_of mg ?pg"
    unfolding GetAddressKey_key by (subst page_in_config(2) [where mg = mg]) simp_all
  have c: "f(MEM_CHANNEL := snd ?pg) = f" by (simp add: page_of_def key_address_page)
  show ?thesis
  proof (cases "target_in h ?pg")
    case None
    then show ?thesis using t H(6) [OF m] c by (simp add: Migrator_Translate_def Let_def k sent_to_def)
  next
    case (Some ch)
    then have "map_of (migrationMap mg) (key_of mg ?pg) = Some ch" using H(6) [OF m] by simp
    moreover from this have "touch (key_of mg ?pg) (migrationState mg) = migrationState mg"
      using H(4) by (intro touch_present) auto
    ultimately show ?thesis
      using t Some H(7) [OF m] c by (auto simp: Migrator_Translate_def Let_def k sent_to_def)
  qed
qed

text \<open>C33: The migrating decoder does what the history of its calls says. Take a decoder that started without
  migrations and then served any sequence of \<^verbatim>\<open>StartMigration\<close>, \<^verbatim>\<open>SetMigrationState\<close> and \<^verbatim>\<open>Translate\<close> calls on pages of
  the memory, in whatever order its callers chose, where the number of pages fits 64 bits. An address whose page
  is in the memory is translated as by the plain decoder in every field but the channel; the channel is the one
  the newest migration of that very page gave it if the newest stage of the page is DONE, and the plain one
  otherwise, in particular for every page no migration named. The page counts as migrated exactly when it is DONE
  and as buffered exactly when it is BUFFERED or WRITING. A new migration is accepted exactly when none is in
  progress, and a stage exactly when the page has one and it differs.\<close>

theorem migration_history_decides:
  assumes run: "decoder_run rows h mg" and t: "Translate (mg_translator mg) addr outs = Some (t, f)"
    and i: "page_in rows mg (place_of (key_address addr f)) (f MEM_CHANNEL)" and a: "page_of a = page_of (key_address addr f)"
  shows "(\<exists>mg'. Migrator_Translate mg addr outs = Some (mg', f(MEM_CHANNEL := sent_to h (page_of a))))
    \<and> (page_of a \<notin> pages_named h \<longrightarrow> sent_to h (page_of a) = f MEM_CHANNEL)
    \<and> (IsMigrated a mg \<longleftrightarrow> target_in h (page_of a) \<noteq> None \<and> stage_in h (page_of a) = Some MIGRATION_DONE)
    \<and> (IsBuffered a mg \<longleftrightarrow> target_in h (page_of a) \<noteq> None \<and> stage_in h (page_of a) \<in> {Some MIGRATION_BUFFERED, Some MIGRATION_WRITING})
    \<and> (StartMigration a d mg = None \<longleftrightarrow> in_progress h)
    \<and> (SetMigrationState a s mg = None \<longleftrightarrow> stage_in h (page_of a) \<in> {None, Some s})"
proof -
  have ok: "history_ok rows h mg" using run by (rule decoder_run_ok)
  note H = history_okD [OF ok]
  have m: "in_memory rows mg (page_of a)" using i a by (simp add: in_memory_def page_of_def key_address_page)
  note k = H(6,7) [OF m]
  have c1: "\<exists>mg'. Migrator_Translate mg addr outs = Some (mg', f(MEM_CHANNEL := sent_to h (page_of a)))"
    unfolding a by (rule Migrator_Translate_sent [OF ok t i])
  have ch: "snd (page_of a) = f MEM_CHANNEL" using a by (simp add: page_of_def key_address_page)
  have c2: "page_of a \<notin> pages_named h \<longrightarrow> sent_to h (page_of a) = f MEM_CHANNEL"
    using ch target_in_named [of "page_of a" h] by (simp add: sent_to_def)
  have c3: "IsMigrated a mg \<longleftrightarrow> target_in h (page_of a) \<noteq> None \<and> stage_in h (page_of a) = Some MIGRATION_DONE"
    "IsBuffered a mg \<longleftrightarrow> target_in h (page_of a) \<noteq> None \<and> stage_in h (page_of a) \<in> {Some MIGRATION_BUFFERED, Some MIGRATION_WRITING}"
    by (auto simp: IsMigrated_def IsBuffered_def Let_def GetAddressKey_key k)
  have c4: "StartMigration a d mg = None \<longleftrightarrow> in_progress h"
    by (simp add: StartMigration_def Let_def H(5))
  have c5: "SetMigrationState a s mg = None \<longleftrightarrow> stage_in h (page_of a) \<in> {None, Some s}"
    by (auto simp: SetMigrationState_def Let_def GetAddressKey_key k split: option.splits prod.splits)
  show ?thesis using c1 c2 c3 c4 c5 by (intro conjI)
qed

definition swap_migrator :: Migrator where
  "swap_migrator = Migrator_new\<lparr>mg_translator := default_translator, numChannels := 2, numBanks := 8, numRanks := 2, numSubarrays := 64\<rparr>"

definition at_channel :: "uint64 \<Rightarrow> NVMAddress" where
  "at_channel ch = SetTranslatedAddress 0 0 0 0 ch 0 NVMAddress_new"

text \<open>The two pages of a swap in the states \<open>s\<close> (channel 0) and \<open>s'\<close> (channel 1).\<close>

definition swap_stage :: "MigratorState \<Rightarrow> MigratorState \<Rightarrow> bool \<Rightarrow> Migrator" where
  "swap_stage s s' b = swap_migrator\<lparr>migrationMap := [(0, 1), (1, 0)], migrationState := [(0, s), (1, s')], migrating := b, inputPage := 1, outputPage := 0\<rparr>"

definition swapped :: Migrator where
  "swapped = swap_stage MIGRATION_DONE MIGRATION_DONE False"

lemmas swap_defs = StartMigration_def SetMigrationState_def both_done_def touch_def swap_migrator_def Migrator_new_def
  GetAddressKey_def at_channel_def SetTranslatedAddress_def NVMAddress_new_def swap_stage_def swapped_def

lemma swap_stages:
  "StartMigration (at_channel 1) (at_channel 0) swap_migrator = Some (swap_stage MIGRATION_READING MIGRATION_READING True)"
  "SetMigrationState (at_channel 1) MIGRATION_DONE (swap_stage MIGRATION_READING MIGRATION_READING True) = Some (swap_stage MIGRATION_READING MIGRATION_DONE True)"
  by (simp_all add: swap_defs)

text \<open>The calls of the atomic path of \<^verbatim>\<open>CoinMigrator\<close>: the promotee is done while the demotee is still being read.\<close>

abbreviation atomic_history :: "migration_call list" where
  "atomic_history \<equiv> [Stage (at_channel 1) MIGRATION_DONE, Started (at_channel 1) (at_channel 0)]"

abbreviation half_swapped :: Migrator where
  "half_swapped \<equiv> swap_stage MIGRATION_READING MIGRATION_DONE True"

lemma atomic_run: "decoder_run 1024 atomic_history half_swapped"
proof -
  have "decoder_run 1024 [] swap_migrator"
    by (rule decoder_run.fresh) (simp_all add: pages_fit_def swap_migrator_def Migrator_new_def)
  then have "decoder_run 1024 [Started (at_channel 1) (at_channel 0)] (swap_stage MIGRATION_READING MIGRATION_READING True)"
    by (rule decoder_run.start [OF _ _ _ swap_stages(1)]) (simp_all add: place_of_def swap_defs)
  then show ?thesis
    by (rule decoder_run.advance [OF _ _ swap_stages(2)]) (simp add: place_of_def swap_defs)
qed

lemma swap_translate:
  "map_option (\<lambda>(t, f). map f [MEM_ROW, MEM_COL, MEM_BANK, MEM_RANK, MEM_CHANNEL, MEM_SUBARRAY]) (Translate default_translator (2 ^ 34) (\<lambda>_. 0))
    = Some [0, 0, 0, 0, 1, 0]"
  by code_simp

theorem migration_history_decides_witness:
  "\<exists>mg' f. Migrator_Translate half_swapped (2 ^ 34) (\<lambda>_. 0) = Some (mg', f) \<and> f MEM_CHANNEL = 0
     \<and> IsMigrated (at_channel 1) half_swapped \<and> \<not> IsBuffered (at_channel 1) half_swapped
     \<and> StartMigration (at_channel 1) (at_channel 0) half_swapped = None \<and> SetMigrationState (at_channel 1) MIGRATION_DONE half_swapped = None"
proof -
  obtain t f where f: "Translate default_translator (2 ^ 34) (\<lambda>_. 0) = Some (t, f)"
    "f MEM_ROW = 0" "f MEM_BANK = 0" "f MEM_RANK = 0" "f MEM_CHANNEL = 1" "f MEM_SUBARRAY = 0"
    using swap_translate by auto
  have t: "Translate (mg_translator half_swapped) (2 ^ 34) (\<lambda>_. 0) = Some (t, f)"
    using f by (simp add: swap_stage_def swap_migrator_def)
  have i: "page_in 1024 half_swapped (place_of (key_address (2 ^ 34) f)) (f MEM_CHANNEL)"
    using f by (simp add: key_address_page swap_stage_def swap_migrator_def)
  have pg: "page_of (at_channel 1) = ((0, 0, 0, 0), 1)" "page_of (at_channel 0) = ((0, 0, 0, 0), 0)"
    by (simp_all add: page_of_def place_of_def at_channel_def SetTranslatedAddress_def NVMAddress_new_def)
  have a: "page_of (at_channel 1) = page_of (key_address (2 ^ 34) f)"
    using f by (simp add: pg) (simp add: page_of_def key_address_page)
  note D = migration_history_decides [OF atomic_run t i a, of "at_channel 0" MIGRATION_DONE]
  have s: "sent_to atomic_history (page_of (at_channel 1)) = 0" "target_in atomic_history (page_of (at_channel 1)) = Some 0"
    "stage_in atomic_history (page_of (at_channel 1)) = Some MIGRATION_DONE" "in_progress atomic_history"
    by (simp_all add: sent_to_def pair_done_def pg, simp_all add: at_channel_def SetTranslatedAddress_def NVMAddress_new_def)
  obtain mg' where "Migrator_Translate half_swapped (2 ^ 34) (\<lambda>_. 0) = Some (mg', f(MEM_CHANNEL := 0))"
    using D s(1) by auto
  then show ?thesis
    using D s f(5) by auto
qed

subsection \<open>The rotation of victims\<close>

text \<open>The digits of a page number in the mixed radix of ranks, banks and subarrays.\<close>

definition page_digits :: "nat \<Rightarrow> nat \<Rightarrow> nat \<Rightarrow> nat \<Rightarrow> nat \<times> nat \<times> nat \<times> nat" where
  "page_digits rk bk sa n = (n mod rk, n div rk mod bk, n div rk div bk mod sa, n div rk div bk div sa)"

lemma page_digits_bij:
  assumes "0 < rk" "0 < bk" "0 < sa"
  shows "bij_betw (page_digits rk bk sa) {..<rk * bk * (sa * m)} ({..<rk} \<times> {..<bk} \<times> {..<sa} \<times> {..<m})"
proof (rule bij_betw_byWitness [where f' = "\<lambda>(r, b, s, w). ((w * sa + s) * bk + b) * rk + r"])
  show "\<forall>n\<in>{..<rk * bk * (sa * m)}. (\<lambda>(r, b, s, w). ((w * sa + s) * bk + b) * rk + r) (page_digits rk bk sa n) = n"
    by (simp add: page_digits_def)
  show "\<forall>t\<in>{..<rk} \<times> {..<bk} \<times> {..<sa} \<times> {..<m}. page_digits rk bk sa ((\<lambda>(r, b, s, w). ((w * sa + s) * bk + b) * rk + r) t) = t"
    using assms by (auto simp: page_digits_def)
  show "page_digits rk bk sa ` {..<rk * bk * (sa * m)} \<subseteq> {..<rk} \<times> {..<bk} \<times> {..<sa} \<times> {..<m}"
    using assms by (auto simp: page_digits_def div_less_iff_less_mult ac_simps)
  show "(\<lambda>(r, b, s, w). ((w * sa + s) * bk + b) * rk + r) ` ({..<rk} \<times> {..<bk} \<times> {..<sa} \<times> {..<m}) \<subseteq> {..<rk * bk * (sa * m)}"
  proof (clarsimp)
    fix r b s w assume "r < rk" "b < bk" "s < sa" "w < m"
    then have "((w * sa + s) * bk + b) * rk + r < m * sa * bk * rk"
      by (intro mixed_radix_less)
    then show "((w * sa + s) * bk + b) * rk + r < rk * bk * (sa * m)"
      by (simp add: ac_simps)
  qed
qed

definition power_count :: "ncounter_t \<Rightarrow> bool" where
  "power_count n \<longleftrightarrow> (\<exists>k < 31. n = 2 ^ k)"

lemma unat_power_2: "k < 64 \<Longrightarrow> unat (2 ^ k :: uint64) = 2 ^ k"
proof -
  assume "k < 64"
  then have "(2 :: nat) ^ k < 2 ^ 64" by (rule power_strict_increasing) simp
  then show ?thesis
    using unsigned_of_nat [of "2 ^ k", where 'a = nat and 'b = 64] \<open>k < 64\<close> by (simp add: take_bit_nat_eq_self)
qed

lemma int_of_count_small:
  assumes "unat n < 2 ^ 31"
  shows "int_of_count n = int (unat n)"
proof -
  have "unat n < 2147483648" using assms by simp
  then have "uint n < 2147483648" unfolding uint_nat by linarith
  then have u: "uint n < 2 ^ 31" by simp
  then have "uint (ucast n :: uint32) = uint n"
    by (simp add: unsigned_ucast_eq unsigned_take_bit_eq take_bit_int_eq_self)
  moreover have "signed_take_bit 31 (uint n) = uint n"
    using u by (intro signed_take_bit_int_eq_self) (simp_all add: order.trans [of _ 0])
  ultimately show ?thesis by (simp add: int_of_count_def sint_uint)
qed

lemma mlog2_power: "k < 31 \<Longrightarrow> mlog2 (int_of_count (2 ^ k)) = int k"
proof -
  assume k: "k < 31"
  have "(2 :: nat) ^ k < 2 ^ 31" using k by (rule power_strict_increasing) simp
  then have "int_of_count (2 ^ k) = 2 ^ k"
    using k by (subst int_of_count_small) (simp_all add: unat_power_2)
  moreover have "mlog2 (2 ^ k) = int k"
  proof -
    have "(2 :: int) ^ nat (mlog2 (2 ^ k)) \<le> 2 ^ k" "(2 :: int) ^ k < 2 ^ (nat (mlog2 (2 ^ k)) + 1)"
      using mlog2_correct [of "2 ^ k"] by auto
    then have "nat (mlog2 (2 ^ k)) \<le> k" and "k < nat (mlog2 (2 ^ k)) + 1"
      by (auto intro: power_le_imp_le_exp [of "2 :: int"]) (metis Suc_eq_plus1 one_less_numeral_iff power_Suc power_less_imp_less_exp semiring_norm(76))
    then show ?thesis using mlog2_nonneg [of "2 ^ k"] by linarith
  qed
  ultimately show ?thesis by simp
qed

lemma unat_shift_field:
  assumes "power_count n"
  shows "unat (shift_field page n) = unat page div unat n" "0 < unat n"
proof -
  obtain k where k: "k < 31" "n = 2 ^ k" using assms by (auto simp: power_count_def)
  then show "0 < unat n" by (simp add: unat_power_2)
  show "unat (shift_field page n) = unat page div unat n"
    using k by (simp add: shift_field_def mlog2_power unat_drop_bit_div unat_power_2)
qed

lemma victim_fields_digits:
  assumes "power_count (RANKS p)" "power_count (BANKS p)" "power_count (ROWS p div MATHeight p)" "MATHeight p \<noteq> 0"
  shows "\<exists>rk bk sa rw. victim_fields p page = Some (rk, bk, sa, rw)
    \<and> (unat rk, unat bk, unat sa, unat rw) = page_digits (unat (RANKS p)) (unat (BANKS p)) (unat (ROWS p div MATHeight p)) (unat page)"
proof -
  note f = unat_shift_field [OF assms(1)] unat_shift_field [OF assms(2)] unat_shift_field [OF assms(3)]
  have "RANKS p \<noteq> 0" "BANKS p \<noteq> 0" "ROWS p div MATHeight p \<noteq> 0"
    using f by auto
  then show ?thesis
    using f assms(4) by (simp add: victim_fields_def Let_def page_digits_def unat_mod_distrib)
qed

text \<open>\<open>n\<close> calls of \<^verbatim>\<open>ChooseVictim\<close>.\<close>

fun choose_victims :: "MigrationHost \<Rightarrow> nat \<Rightarrow> Migrator \<times> CoinMigrator \<Rightarrow> (Migrator \<times> CoinMigrator) option" where
  "choose_victims h 0 st = Some st"
| "choose_victims h (Suc n) st = do { st' \<leftarrow> choose_victims h n st; CoinMigrator_ChooseVictim h st' }"

definition victim_page :: "NVMAddress \<Rightarrow> nat \<times> nat \<times> nat \<times> nat" where
  "victim_page a = (unat (rank a), unat (bank a), unat (subarray a), unat (row a))"

definition fast_memory :: "Params \<Rightarrow> (nat \<times> nat \<times> nat \<times> nat) set" where
  "fast_memory p = {..<unat (RANKS p)} \<times> {..<unat (BANKS p)} \<times> {..<unat (ROWS p div MATHeight p)} \<times> {..<unat (MATHeight p)}"

definition fast_pages :: "Params \<Rightarrow> nat" where
  "fast_pages p = unat (RANKS p) * unat (BANKS p) * unat (ROWS p)"

definition fast_params_ok :: "Params \<Rightarrow> bool" where
  "fast_params_ok p \<longleftrightarrow> power_count (RANKS p) \<and> power_count (BANKS p) \<and> power_count (ROWS p div MATHeight p) \<and> MATHeight p \<noteq> 0
     \<and> ROWS p mod MATHeight p = 0 \<and> unat (RANKS p) * unat (BANKS p) * unat (ROWS p) < 2 ^ 64"

lemma ReverseTranslate_total:
  assumes "translator_ok t"
  shows "\<exists>t' a. ReverseTranslate t f = Some (t', a) \<and> translator_ok t'"
proof -
  obtain m b l where m: "translationMethod t = Some m" "orders_ok m" "offset_bits t = Some (b, l)"
    using translator_okE [OF assms] by metis
  then show ?thesis
    using assms by (auto simp: ReverseTranslate_def translator_ok_def Let_def simp del: reverse_loop.simps)
qed

lemma rows_split: "fast_params_ok p \<Longrightarrow> unat (ROWS p) = unat (ROWS p div MATHeight p) * unat (MATHeight p)"
  by (simp add: fast_params_ok_def unat_div_distrib word_unat_eq_iff unat_mod_distrib dvd_mult_div_cancel mod_eq_0_iff_dvd)

lemma total_pages:
  assumes "fast_params_ok p"
  shows "unat (RANKS p * BANKS p * ROWS p) = unat (RANKS p) * unat (BANKS p) * (unat (ROWS p div MATHeight p) * unat (MATHeight p))"
    "0 < unat (RANKS p * BANKS p * ROWS p)"
proof -
  have f: "0 < unat (RANKS p)" "0 < unat (BANKS p)" "0 < unat (ROWS p div MATHeight p)" "0 < unat (MATHeight p)"
    using assms unat_shift_field(2) by (auto simp: fast_params_ok_def unat_gt_0)
  note r = rows_split [OF assms]
  have b: "unat (RANKS p) * unat (BANKS p) * unat (ROWS p) < 2 ^ 64" "0 < unat (ROWS p)"
    using assms r f by (auto simp: fast_params_ok_def)
  have "unat (RANKS p * BANKS p) = unat (RANKS p) * unat (BANKS p)"
    using product_below [OF b] by (intro unat_mult_no_overflow) simp
  then show e: "unat (RANKS p * BANKS p * ROWS p) = unat (RANKS p) * unat (BANKS p) * (unat (ROWS p div MATHeight p) * unat (MATHeight p))"
    using b unfolding r [symmetric] by (subst unat_mult_no_overflow) simp_all
  show "0 < unat (RANKS p * BANKS p * ROWS p)"
    unfolding e using f by simp
qed

lemma choose_victim_step:
  assumes p: "fast_params_ok p" and t: "translator_ok (mg_translator mg)" and q: "query_memory (h_params h) cm = cm1"
    and c: "promotionChannelParams cm1 = Some p" "totalPromotionPages cm1 = RANKS p * BANKS p * ROWS p"
      "unat (currentPromotionPage cm1) < unat (RANKS p * BANKS p * ROWS p)"
  shows "\<exists>mg' cm'. CoinMigrator_ChooseVictim h (mg, cm) = Some (mg', cm') \<and> translator_ok (mg_translator mg')
    \<and> victim_page (cm_demotee cm') = page_digits (unat (RANKS p)) (unat (BANKS p)) (unat (ROWS p div MATHeight p)) (unat (currentPromotionPage cm1))
    \<and> channel (cm_demotee cm') = promotionChannel cm1 \<and> promotionChannel cm' = promotionChannel cm1 \<and> queriedMemory cm' = queriedMemory cm1
    \<and> promotionChannelParams cm' = Some p \<and> totalPromotionPages cm' = RANKS p * BANKS p * ROWS p
    \<and> unat (currentPromotionPage cm') = Suc (unat (currentPromotionPage cm1)) mod unat (RANKS p * BANKS p * ROWS p)"
proof -
  have "unat (currentPromotionPage cm1 + 1) = Suc (unat (currentPromotionPage cm1))"
    using c(3) unat_uint64_lt [of "RANKS p * BANKS p * ROWS p"] by (subst unat_add_no_overflow) simp_all
  then have next_page: "unat ((currentPromotionPage cm1 + 1) mod (RANKS p * BANKS p * ROWS p)) = Suc (unat (currentPromotionPage cm1)) mod unat (RANKS p * BANKS p * ROWS p)"
    by (simp add: unat_mod_distrib)
  obtain rk bk sa rw where v: "victim_fields p (currentPromotionPage cm1) = Some (rk, bk, sa, rw)"
    "(unat rk, unat bk, unat sa, unat rw) = page_digits (unat (RANKS p)) (unat (BANKS p)) (unat (ROWS p div MATHeight p)) (unat (currentPromotionPage cm1))"
    using victim_fields_digits p unfolding fast_params_ok_def by metis
  obtain t' a where r: "ReverseTranslate (mg_translator mg) (fields_of_address rw 0 bk rk (promotionChannel cm1) sa) = Some (t', a)" "translator_ok t'"
    using ReverseTranslate_total [OF t] by blast
  have "RANKS p * BANKS p * ROWS p \<noteq> 0"
    using total_pages [OF p] p by auto
  then show ?thesis
    using v r c next_page by (simp add: CoinMigrator_ChooseVictim_def q victim_page_def SetPhysicalAddress_def SetTranslatedAddress_def)
qed

lemma choose_victims_run:
  assumes p: "fast_params_ok (h_params h)" and t: "translator_ok (mg_translator mg)" and q: "\<not> queriedMemory cm"
  shows "\<exists>mg' cm'. choose_victims h (Suc n) (mg, cm) = Some (mg', cm') \<and> translator_ok (mg_translator mg') \<and> queriedMemory cm'
    \<and> victim_page (cm_demotee cm') = page_digits (unat (RANKS (h_params h))) (unat (BANKS (h_params h)))
        (unat (ROWS (h_params h) div MATHeight (h_params h))) (n mod unat (RANKS (h_params h) * BANKS (h_params h) * ROWS (h_params h)))
    \<and> channel (cm_demotee cm') = promotionChannel cm \<and> promotionChannel cm' = promotionChannel cm
    \<and> promotionChannelParams cm' = Some (h_params h) \<and> totalPromotionPages cm' = RANKS (h_params h) * BANKS (h_params h) * ROWS (h_params h)
    \<and> unat (currentPromotionPage cm') = Suc n mod unat (RANKS (h_params h) * BANKS (h_params h) * ROWS (h_params h))"
proof (induction n)
  case 0
  have "query_memory (h_params h) cm = cm\<lparr>promotionChannelParams := Some (h_params h),
      totalPromotionPages := RANKS (h_params h) * BANKS (h_params h) * ROWS (h_params h), currentPromotionPage := 0, queriedMemory := True\<rparr>"
    using q by (simp add: query_memory_def)
  from choose_victim_step [OF p t this] total_pages(2) [OF p] show ?case
    by (simp only: choose_victims.simps Option.bind.bind_lunit) auto
next
  case (Suc n)
  let ?T = "RANKS (h_params h) * BANKS (h_params h) * ROWS (h_params h)"
  obtain mg1 cm1 where i: "choose_victims h (Suc n) (mg, cm) = Some (mg1, cm1)" "translator_ok (mg_translator mg1)" "queriedMemory cm1"
    "promotionChannel cm1 = promotionChannel cm" "promotionChannelParams cm1 = Some (h_params h)" "totalPromotionPages cm1 = ?T"
    "unat (currentPromotionPage cm1) = Suc n mod unat ?T"
    using Suc by blast
  have q1: "query_memory (h_params h) cm1 = cm1"
    using i(3) by (simp add: query_memory_def)
  have "unat (currentPromotionPage cm1) < unat ?T"
    using i(7) total_pages(2) [OF p] by simp
  from choose_victim_step [OF p i(2) q1 i(5,6) this] i(3,4,7) show ?case
    by (simp only: choose_victims.simps(2) [of h "Suc n"] i(1) Option.bind.bind_lunit mod_Suc_eq) metis
qed

text \<open>C34: The victims rotate through the whole fast channel. When ranks, banks and subarrays of the fast channel
  are powers of two, the first \<^verbatim>\<open>RANKS * BANKS * ROWS\<close> calls of \<^verbatim>\<open>ChooseVictim\<close> name every page of the channel
  (rank, bank, subarray, row in the subarray) exactly once, every call returns a page of the fast channel, and
  the sequence then starts again.\<close>

theorem victims_enumerate_fast_memory:
  assumes "fast_params_ok (h_params h)" "translator_ok (mg_translator mg)" "\<not> queriedMemory cm"
  shows "\<exists>victim. bij_betw victim {..<fast_pages (h_params h)} (fast_memory (h_params h))
    \<and> (\<forall>n. \<exists>mg' cm'. choose_victims h (Suc n) (mg, cm) = Some (mg', cm')
          \<and> victim_page (cm_demotee cm') = victim (n mod fast_pages (h_params h)) \<and> channel (cm_demotee cm') = promotionChannel cm)"
proof -
  let ?p = "h_params h"
  let ?d = "page_digits (unat (RANKS ?p)) (unat (BANKS ?p)) (unat (ROWS ?p div MATHeight ?p))"
  have rows: "unat (ROWS ?p) = unat (ROWS ?p div MATHeight ?p) * unat (MATHeight ?p)"
    using assms(1) by (rule rows_split)
  have total: "fast_pages ?p = unat (RANKS ?p * BANKS ?p * ROWS ?p)"
    unfolding fast_pages_def total_pages(1) [OF assms(1)] by (simp only: rows)
  have "bij_betw ?d {..<fast_pages ?p} (fast_memory ?p)"
    unfolding fast_memory_def fast_pages_def using assms(1) unat_shift_field(2)
    by (subst rows, intro page_digits_bij) (auto simp: fast_params_ok_def)
  then show ?thesis
    using choose_victims_run [OF assms] unfolding total by blast
qed

definition demo_host :: MigrationHost where
  "demo_host = \<lparr>h_isNVMain = True, h_hook = NVMHOOK_POSTISSUE, h_self = 0, h_hooks = [], h_issuable = (\<lambda>_ _ _. True),
     h_child_issue = (\<lambda>r w. Some (True, w)), h_issue = (\<lambda>r w. Some (True, w)),
     h_params = Params_new\<lparr>RANKS := 2, BANKS := 8, ROWS := 65536, MATHeight := 1024\<rparr>, h_read_tag = 1, h_write_tag = 2, h_toss = (\<lambda>_. 0)\<rparr>"

lemma demo_params_ok: "fast_params_ok (h_params demo_host)"
  by (simp add: fast_params_ok_def demo_host_def power_count_def)
    (intro conjI exI [of _ 1] exI [of _ 3] exI [of _ 6]; simp)

theorem victims_enumerate_fast_memory_witness:
  "\<exists>victim. bij_betw victim {..<fast_pages (h_params demo_host)} (fast_memory (h_params demo_host))
    \<and> (\<forall>n. \<exists>mg' cm'. choose_victims demo_host (Suc n) (swap_migrator, CoinMigrator_new) = Some (mg', cm')
          \<and> victim_page (cm_demotee cm') = victim (n mod fast_pages (h_params demo_host)) \<and> channel (cm_demotee cm') = 0)"
  using victims_enumerate_fast_memory [OF demo_params_ok, of swap_migrator CoinMigrator_new] translator_ok_default
  by (simp add: swap_migrator_def CoinMigrator_new_def)

subsection \<open>Checkpoints of the decoder\<close>

lemma bytes_word_append: "bytes_word (b # bs) = push_bit 8 (bytes_word bs) OR ucast b"
  by (simp add: bytes_word_def)

lemma bytes_of_word:
  "k \<le> n \<Longrightarrow> n \<le> 8 \<Longrightarrow> bytes_word (map (\<lambda>i. ucast (drop_bit (8 * i) w)) [k..<n]) = take_bit (8 * (n - k)) (drop_bit (8 * k) w)"
proof (induction "n - k" arbitrary: k)
  case 0
  then show ?case by (simp add: bytes_word_def)
next
  case (Suc m)
  then have k: "m = n - Suc k" "Suc k \<le> n" "[k..<n] = k # [Suc k..<n]" by (simp_all add: upt_conv_Cons)
  have "push_bit 8 (take_bit (8 * (n - Suc k)) (drop_bit (8 * Suc k) w)) OR ucast (ucast (drop_bit (8 * k) w) :: uint8)
    = take_bit (8 * (n - k)) (drop_bit (8 * k) w)"
    using k(2) Suc.prems(2)
    by (intro bit_word_eqI) (auto simp: bit_or_iff bit_push_bit_iff bit_take_bit_iff bit_drop_bit_eq bit_ucast_iff algebra_simps)
  then show ?case
    using Suc.hyps(1) [OF k(1,2) Suc.prems(2)] unfolding k(3) by (simp add: bytes_word_append)
qed

lemma bytes_word_bytes: "bytes_word (word_bytes w) = w" "length (word_bytes w) = 8"
  using bytes_of_word [of 0 8 w] by (simp_all add: word_bytes_def take_bit_word_eq_self del: upt.simps)

abbreviation checkpoint_bytes :: "(uint64 \<times> uint64) list \<Rightarrow> uint8 list" where
  "checkpoint_bytes m \<equiv> concat (map (\<lambda>(k, ch). word_bytes k @ word_bytes ch) m)"

lemma length_checkpoint: "length (checkpoint_bytes m) = 16 * length m"
  by (induction m) (auto simp: bytes_word_bytes)

lemma om_insert_last: "om_ok (m @ [(k, v)]) \<Longrightarrow> om_insert k v m = m @ [(k, v)]"
proof (induction m)
  case (Cons b m)
  obtain k' v' where "b = (k', v')" by (cases b)
  with Cons show ?case by (auto simp: om_ok_def)
qed simp

lemma restore_checkpoint:
  "om_ok (m0 @ m) \<Longrightarrow> restore_loop (length m) (checkpoint_bytes m) m0 = m0 @ m"
proof (induction m arbitrary: m0)
  case (Cons b m)
  obtain k v where b: "b = (k, v)" by (cases b)
  have ok: "om_ok ((m0 @ [(k, v)]) @ m)" using Cons.prems by (simp add: b)
  then have "om_ok (m0 @ [(k, v)])" by (simp add: om_ok_def sorted_wrt_append)
  moreover have "map_of m0 k = None"
    using Cons.prems by (fastforce simp: om_ok_def b sorted_wrt_append map_of_eq_None_iff)
  ultimately show ?case
    using Cons.IH [OF ok] by (simp add: b bytes_word_bytes om_insert_last)
qed simp

text \<open>C35: A checkpoint of the migrating decoder restores its migrations. Whatever migrations the decoder holds,
  writing the checkpoint (the file can be created) and reading it into a decoder without migrations gives a
  decoder with the same map from pages to channels, and changes nothing else of it.\<close>

theorem migrator_checkpoint_roundtrip:
  assumes "om_ok (migrationMap mg)" "migrationMap mg0 = []" "can_open (dir @ ''/'' @ statName)"
  shows "Migrator_RestoreCheckpoint dir statName (Migrator_CreateCheckpoint can_open dir statName mg files) mg0
    = mg0\<lparr>migrationMap := migrationMap mg\<rparr>"
proof -
  have "Migrator_CreateCheckpoint can_open dir statName mg files (dir @ ''/'' @ statName) = Some (checkpoint_bytes (migrationMap mg))"
    using assms(3) by (simp add: Migrator_CreateCheckpoint_def Let_def)
  then show ?thesis
    using restore_checkpoint [of "[]" "migrationMap mg"] assms(1,2) by (simp add: Migrator_RestoreCheckpoint_def length_checkpoint)
qed

theorem migrator_checkpoint_roundtrip_witness:
  "Migrator_RestoreCheckpoint ''d'' ''m'' (Migrator_CreateCheckpoint (\<lambda>_. True) ''d'' ''m'' swapped Map.empty) swap_migrator
    = swap_migrator\<lparr>migrationMap := [(0, 1), (1, 0)]\<rparr>"
  using migrator_checkpoint_roundtrip [of swapped swap_migrator "\<lambda>_. True" "''d''" "''m''" Map.empty]
  by (simp add: swapped_def swap_stage_def om_ok_def swap_migrator_def Migrator_new_def)

text \<open>The states of the migrations are not part of the checkpoint, and a page without a state is not redirected:
  the restored decoder translates a migrated page to its old channel.\<close>

lemma restored_migrations_ignored:
  "\<exists>mg1 f mg2 g. Migrator_Translate swapped (2 ^ 34) (\<lambda>_. 0) = Some (mg1, f) \<and> f MEM_CHANNEL = 0
    \<and> Migrator_Translate (swap_migrator\<lparr>migrationMap := migrationMap swapped\<rparr>) (2 ^ 34) (\<lambda>_. 0) = Some (mg2, g) \<and> g MEM_CHANNEL = 1"
proof -
  obtain t1 f0 where f0: "Translate default_translator (2 ^ 34) (\<lambda>_. 0) = Some (t1, f0)"
    "f0 MEM_ROW = 0" "f0 MEM_BANK = 0" "f0 MEM_RANK = 0" "f0 MEM_CHANNEL = 1" "f0 MEM_SUBARRAY = 0"
    using swap_translate(1) by auto
  have key: "GetAddressKey mg (key_address x f0) = 1" for mg x
    using f0 by (simp add: GetAddressKey_page key_address_page page_key_def)
  show ?thesis
    using f0 by (simp add: Migrator_Translate_def swapped_def swap_stage_def swap_migrator_def Migrator_new_def key touch_def)
qed

text \<open>The hook swaps pages of different rows, but the decoder changes only the channel: after the migration of
  row 1 of channel 1 against row 0 of channel 0, the migrated page shares its location with row 1 of channel 0.\<close>

definition row_one :: "uint64 \<Rightarrow> NVMAddress" where
  "row_one ch = SetTranslatedAddress 1 0 0 0 ch 0 NVMAddress_new"

definition one_migration :: "(bool \<times> migration_state) option" where
  "one_migration = TryMigration demo_host 0 True
     (World_new\<lparr>heap := Map.empty(0 \<mapsto> NVMainRequest_new\<lparr>address := row_one 1, req_type := READ\<rparr>)\<rparr>, swap_migrator, CoinMigrator_new\<lparr>probability := 1\<rparr>)"

definition location_of :: "Migrator \<Rightarrow> uint64 \<Rightarrow> uint64 list option" where
  "location_of mg a = map_option (\<lambda>(_, f). map f [MEM_ROW, MEM_COL, MEM_BANK, MEM_RANK, MEM_CHANNEL, MEM_SUBARRAY]) (Migrator_Translate mg a (\<lambda>_. 0))"

lemma migration_collides:
  "map_option (\<lambda>(_, _, mg, _). (location_of mg (2 ^ 34 + 2 ^ 23), location_of mg (2 ^ 23))) one_migration
    = Some (Some [1, 0, 0, 0, 0, 0], Some [1, 0, 0, 0, 0, 0])"
  by code_simp

end
