(* ===== verification/Cache_Decoder.thy ===== *)
theory Cache_Decoder
  imports Address_Translation
begin

text \<open>
  The address decoder of the DRAM caches (\<^verbatim>\<open>Decoders/DRCDecoder/DRCDecoder.cpp\<close>): the column is always the lowest
  field above the cache line and the ignored bits, the row the highest; channel, rank and bank follow the order of
  the translation method; subarrays are not used.
\<close>

record DRCDecoder =
  drc_method :: "TranslationMethod option"
  ignoreBits :: uint64
  drc_cachelineSize :: uint64

definition DRCDecoder_new :: DRCDecoder where
  "DRCDecoder_new = \<lparr>drc_method = None, ignoreBits = 0, drc_cachelineSize = 64\<rparr>"

definition SetIgnoreBits :: "uint64 \<Rightarrow> DRCDecoder \<Rightarrow> DRCDecoder" where
  "SetIgnoreBits n d = d\<lparr>ignoreBits := n\<rparr>"

definition SetCachelineSize :: "uint64 \<Rightarrow> DRCDecoder \<Rightarrow> DRCDecoder" where
  "SetCachelineSize n d = d\<lparr>drc_cachelineSize := n\<rparr>"

text \<open>\<^verbatim>\<open>*field = workingAddr % (1 << bits); workingAddr = workingAddr >> bits\<close>. The constant 1 is an \<^verbatim>\<open>int\<close>, so 31
  bits and more overflow (\<open>None\<close>).\<close>

definition drc_field ::
  "TranslationMethod \<Rightarrow> MemoryPartition \<Rightarrow> uint64 \<times> (MemoryPartition \<Rightarrow> uint64) \<Rightarrow> (uint64 \<times> (MemoryPartition \<Rightarrow> uint64)) option" where
  "drc_field m p st = (case st of (workingAddr, outs) \<Rightarrow>
     let bits = unat (bitWidths m p)
     in if bits < 31 then Some (drop_bit bits workingAddr, outs(p := workingAddr mod push_bit bits 1)) else None)"

fun drc_fields ::
  "TranslationMethod \<Rightarrow> MemoryPartition list \<Rightarrow> uint64 \<times> (MemoryPartition \<Rightarrow> uint64) \<Rightarrow> (uint64 \<times> (MemoryPartition \<Rightarrow> uint64)) option" where
  "drc_fields m [] st = Some st"
| "drc_fields m (p # ps) st = do { st' \<leftarrow> drc_field m p st; drc_fields m ps st' }"

text \<open>The tests that find out whether channel, rank or bank comes first.\<close>

definition drc_order :: "TranslationMethod \<Rightarrow> MemoryPartition list" where
  "drc_order m =
     (let channelOrder = order m MEM_CHANNEL; rankOrder = order m MEM_RANK; bankOrder = order m MEM_BANK
      in if channelOrder < rankOrder \<and> channelOrder < bankOrder then
           if rankOrder < bankOrder then [MEM_CHANNEL, MEM_RANK, MEM_BANK] else [MEM_CHANNEL, MEM_BANK, MEM_RANK]
         else if rankOrder < channelOrder \<and> rankOrder < bankOrder then
           if channelOrder < bankOrder then [MEM_RANK, MEM_CHANNEL, MEM_BANK] else [MEM_RANK, MEM_BANK, MEM_CHANNEL]
         else if channelOrder < rankOrder then [MEM_BANK, MEM_CHANNEL, MEM_RANK] else [MEM_BANK, MEM_RANK, MEM_CHANNEL])"

definition line_bits :: "DRCDecoder \<Rightarrow> nat" where
  "line_bits d = nat (mlog2 (sint (ucast (drc_cachelineSize d) :: uint32)))"

definition DRCDecoder_Translate ::
  "DRCDecoder \<Rightarrow> uint64 \<Rightarrow> (MemoryPartition \<Rightarrow> uint64) \<Rightarrow> (MemoryPartition \<Rightarrow> uint64) option" where
  "DRCDecoder_Translate d addr outs = do {
     m \<leftarrow> drc_method d;
     let workingAddr = drop_bit (line_bits d) addr;
     workingAddr \<leftarrow> (if ignoreBits d = 0 then Some workingAddr else if ignoreBits d < 64 then Some (drop_bit (unat (ignoreBits d)) workingAddr) else None);
     (workingAddr, outs) \<leftarrow> drc_field m MEM_COL (workingAddr, outs);
     (workingAddr, outs) \<leftarrow> drc_fields m (drc_order m) (workingAddr, outs(MEM_SUBARRAY := 0));
     (workingAddr, outs) \<leftarrow> drc_field m MEM_ROW (workingAddr, outs);
     Some outs
   }"

text \<open>One turn of the loop of \<^verbatim>\<open>ReverseTranslate\<close>.\<close>

definition drc_reverse_step :: "TranslationMethod \<Rightarrow> (MemoryPartition \<Rightarrow> uint64) \<Rightarrow> uint64 \<times> uint64 \<Rightarrow> int \<Rightarrow> uint64 \<times> uint64" where
  "drc_reverse_step m f st i = (case st of (unitAddr, phyAddr) \<Rightarrow>
     let p = FindOrder m i
     in if p = MEM_BANK \<or> p = MEM_RANK \<or> p = MEM_CHANNEL then (unitAddr * count m p, phyAddr + f p * unitAddr) else (unitAddr, phyAddr))"

definition DRCDecoder_ReverseTranslate :: "DRCDecoder \<Rightarrow> (MemoryPartition \<Rightarrow> uint64) \<Rightarrow> uint64 option" where
  "DRCDecoder_ReverseTranslate d f = do {
     m \<leftarrow> drc_method d;
     unitAddr \<leftarrow> (if ignoreBits d < 31 then Some (drc_cachelineSize d * push_bit (unat (ignoreBits d)) 1) else None);
     let (unitAddr, phyAddr) = foldl (drc_reverse_step m f) (unitAddr, 0) [0, 1, 2, 3, 4, 5];
     Some (phyAddr + f MEM_ROW * unitAddr)
   }"

subsection \<open>The decoder against the layout\<close>

lemma drc_fields_append: "drc_fields m (ps @ qs) st = do { st' \<leftarrow> drc_fields m ps st; drc_fields m qs st' }"
proof (induction ps arbitrary: st)
  case (Cons p ps)
  then have "drc_fields m (ps @ qs) = (\<lambda>y. drc_fields m ps y \<bind> drc_fields m qs)" by (rule ext)
  then show ?case by (simp add: Option.bind_assoc)
qed simp

lemma drc_fields_decode:
  assumes "\<forall>p \<in> set ps. p \<noteq> MEM_UNKNOWN \<and> widths m p < 31"
  shows "\<exists>y f. drc_fields m ps (x, outs) = Some (y, f) \<and> (\<lambda>p. unat (f p)) = decode (widths m) ps (unat x) (\<lambda>p. unat (outs p))"
  using assms
proof (induction ps arbitrary: x outs)
  case (Cons p ps)
  let ?x = "drop_bit (widths m p) x" and ?o = "outs(p := x mod push_bit (widths m p) 1)"
  have "drc_field m p (x, outs) = Some (?x, ?o)"
    using Cons.prems by (simp add: drc_field_def widths_def Let_def)
  moreover obtain y f where "drc_fields m ps (?x, ?o) = Some (y, f)"
    "(\<lambda>p. unat (f p)) = decode (widths m) ps (unat ?x) (\<lambda>p. unat (?o p))"
    using Cons by fastforce
  moreover have "(\<lambda>q. unat (?o q)) = (\<lambda>q. unat (outs q))(p := unat x mod 2 ^ widths m p)"
    by (auto simp: unat_mod_push_bit simp del: push_bit_of_1)
  ultimately show ?case by (simp add: unat_drop_bit_div)
qed simp

definition drc_layout :: "TranslationMethod \<Rightarrow> MemoryPartition list" where
  "drc_layout m = [MEM_COL] @ filter (\<lambda>p. p \<in> {MEM_CHANNEL, MEM_RANK, MEM_BANK}) (layout m) @ [MEM_ROW]"

lemma layout_orders:
  assumes "orders_ok m"
  shows "map (order m) (layout m) = [0, 1, 2, 3, 4, 5]"
  using FindOrder_known [OF assms] by (simp add: layout_def FindOrder_known_order)

lemma order_unique:
  fixes f :: "'a \<Rightarrow> int"
  assumes "sorted_wrt (<) (map f xs)" "sorted_wrt (<) (map f ys)" "set xs = set ys" "inj_on f (set xs)"
  shows "xs = ys"
proof -
  have "map f xs = map f ys"
    using strict_sorted_equal [OF assms(2,1)] assms(3) by simp
  then show ?thesis
    using assms(3,4) by (intro map_inj_on [of f]) auto
qed

lemma drc_order_layout:
  assumes "orders_ok m"
  shows "drc_order m = filter (\<lambda>p. p \<in> {MEM_CHANNEL, MEM_RANK, MEM_BANK}) (layout m)"
proof (rule order_unique [where f = "order m"])
  have d: "order m MEM_BANK \<noteq> order m MEM_RANK" "order m MEM_BANK \<noteq> order m MEM_CHANNEL" "order m MEM_RANK \<noteq> order m MEM_CHANNEL"
    using assms by (simp_all add: orders_ok_def partitions_def)
  then show "sorted_wrt (<) (map (order m) (drc_order m))"
    unfolding drc_order_def Let_def by (simp split: if_splits)
  have "sorted_wrt (<) (map (order m) (layout m))"
    unfolding layout_orders [OF assms] by simp
  then show "sorted_wrt (<) (map (order m) (filter (\<lambda>p. p \<in> {MEM_CHANNEL, MEM_RANK, MEM_BANK}) (layout m)))"
    by (simp add: sorted_wrt_map sorted_wrt_filter)
  show "set (drc_order m) = set (filter (\<lambda>p. p \<in> {MEM_CHANNEL, MEM_RANK, MEM_BANK}) (layout m))"
    by (auto simp: drc_order_def Let_def set_layout [OF assms])
  show "inj_on (order m) (set (drc_order m))"
    using d by (auto simp: drc_order_def Let_def inj_on_def)
qed

lemma decode_start: "p \<in> set ps \<Longrightarrow> decode w ps n g p = decode w ps n h p"
proof (induction ps arbitrary: n g h)
  case (Cons q ps)
  then show ?case by (cases "p \<in> set ps") (auto simp: decode_other)
qed simp

text \<open>C36: The decoder of the DRAM caches reads an address as a mixed-radix number: above the cache line and the
  ignored bits the digits are the column, then channel, rank and bank in the order the translation method gives
  them, then the row; the subarray is 0. So the nested comparisons of \<^verbatim>\<open>DRCDecoder::Translate\<close> sort the three
  fields, and the decoder returns for every address.\<close>

theorem drc_translate_decodes:
  assumes "drc_method d = Some m" "orders_ok m" "\<forall>p. widths m p < 31" "ignoreBits d < 64"
  shows "\<exists>f. DRCDecoder_Translate d addr outs = Some f \<and> f MEM_SUBARRAY = 0
    \<and> (\<forall>p \<in> set (drc_layout m). unat (f p) = decode (widths m) (drc_layout m) (unat addr div 2 ^ line_bits d div 2 ^ unat (ignoreBits d)) (\<lambda>p. unat (outs p)) p)"
proof -
  let ?x = "drop_bit (unat (ignoreBits d)) (drop_bit (line_bits d) addr)"
  let ?ps = "[MEM_COL] @ drc_order m @ [MEM_ROW]"
  have ps: "?ps = drc_layout m"
    by (simp add: drc_layout_def drc_order_layout [OF assms(2)])
  have known: "\<forall>p \<in> set ?ps. p \<noteq> MEM_UNKNOWN"
    by (simp add: drc_order_def Let_def)
  have w: "(if ignoreBits d = 0 then Some (drop_bit (line_bits d) addr) else if ignoreBits d < 64 then Some ?x else None) = Some ?x"
    using assms(4) by simp
  obtain x1 o1 where c: "drc_field m MEM_COL (?x, outs) = Some (x1, o1)"
    "drc_fields m [MEM_COL] (?x, outs(MEM_SUBARRAY := 0)) = Some (x1, o1(MEM_SUBARRAY := 0))"
    using assms(3) by (auto simp: drc_field_def Let_def widths_def fun_upd_twist)
  obtain y f where f: "drc_fields m ?ps (?x, outs(MEM_SUBARRAY := 0)) = Some (y, f)"
    "(\<lambda>p. unat (f p)) = decode (widths m) ?ps (unat ?x) (\<lambda>p. unat ((outs(MEM_SUBARRAY := 0)) p))"
    using drc_fields_decode [of ?ps m ?x "outs(MEM_SUBARRAY := 0)"] assms(3) known by blast
  have "DRCDecoder_Translate d addr outs = Some f"
    using f(1) c(2) unfolding drc_fields_append DRCDecoder_Translate_def assms(1) Let_def Option.bind.bind_lunit w c(1)
    by (auto simp: bind_eq_Some_conv)
  moreover have "f MEM_SUBARRAY = 0"
  proof -
    have "MEM_SUBARRAY \<notin> set ?ps"
      by (simp add: drc_order_def Let_def)
    then have "unat (f MEM_SUBARRAY) = 0"
      using fun_cong [OF f(2), of MEM_SUBARRAY] by (simp add: decode_other del: append.simps)
    then show ?thesis by (simp add: unat_eq_0)
  qed
  moreover have "unat (f p) = decode (widths m) (drc_layout m) (unat addr div 2 ^ line_bits d div 2 ^ unat (ignoreBits d)) (\<lambda>p. unat (outs p)) p"
    if "p \<in> set (drc_layout m)" for p
    using fun_cong [OF f(2), of p] decode_start [OF that] unfolding ps unat_drop_bit_div by metis
  ultimately show ?thesis by blast
qed

definition drc_sample :: DRCDecoder where
  "drc_sample = DRCDecoder_new\<lparr>drc_method := Some (TranslationMethod_new zero_method)\<rparr>"

theorem drc_translate_decodes_witness:
  "\<exists>f. DRCDecoder_Translate drc_sample 0x1234567 (\<lambda>_. 0) = Some f \<and> f MEM_SUBARRAY = 0
    \<and> (\<forall>p \<in> set (drc_layout (TranslationMethod_new zero_method)).
         unat (f p) = decode (widths (TranslationMethod_new zero_method)) (drc_layout (TranslationMethod_new zero_method)) (0x1234567 div 64) (\<lambda>_. 0) p)"
proof -
  have "widths (TranslationMethod_new zero_method) p < 31" for p
    by (cases p) (simp_all add: widths_default, simp add: widths_def TranslationMethod_new_def zero_method_def SetOrder_def SetBitWidths_def)
  moreover have "line_bits drc_sample = 6"
    by (simp add: line_bits_def drc_sample_def DRCDecoder_new_def mlog2_def mlog2_loop.simps)
  ultimately show ?thesis
    using drc_translate_decodes [of drc_sample "TranslationMethod_new zero_method" "0x1234567" "\<lambda>_. 0"] orders_ok_default
    by (simp add: drc_sample_def DRCDecoder_new_def)
qed

text \<open>\<^verbatim>\<open>ReverseTranslate\<close> leaves out the column, which \<^verbatim>\<open>Translate\<close> takes first: bank 1 comes back as bank 0.\<close>

lemma drc_reverse_skips_column:
  "map_option (\<lambda>f. f MEM_BANK) (do {
     a \<leftarrow> DRCDecoder_ReverseTranslate (drc_sample\<lparr>drc_method := Some (SetCount 1024 256 8 2 2 1 (TranslationMethod_new zero_method))\<rparr>)
            (\<lambda>p. if p = MEM_BANK then 1 else 0);
     DRCDecoder_Translate drc_sample a (\<lambda>_. 0) }) = Some 0"
  by code_simp

end
