(* ===== verification/Spec2Isabelle.thy ===== *)
theory Spec2Isabelle
  imports Command_Effects Controller_Config Pin_Power Cache_Store Trace_Files Page_Migration Cache_Decoder
begin

text \<open>
  \<^bold>\<open>Verification of NVMain, the memory simulator of this repository.\<close>

  NVMain (\<^verbatim>\<open>src/Simulator/Extras/NVmain\<close>) simulates main memory built from DRAM or non-volatile
  cells, cycle by cycle, behind gem5 or a trace. A processor request is translated to channel,
  rank, bank, subarray, row and column; a memory controller turns it into device commands
  (activate, read, write, precharge, refresh, power-down, power-up); the commands go down a tree
  of modules (interconnect, rank, bank, subarray), each of which first answers
  \<^verbatim>\<open>IsIssuable\<close> and then executes \<^verbatim>\<open>IssueCommand\<close>, keeping its own timing bounds; completions
  come back as events of a global event queue. A subarray also models the cells: endurance,
  data encoding and multi-level writes. All paths below are relative to that directory.

  \<^bold>\<open>Conventions.\<close> \<^verbatim>\<open>uint64_t\<close> values (\<^verbatim>\<open>ncycle_t\<close>, \<^verbatim>\<open>ncounter_t\<close>) are 64-bit words and wrap;
  \<^verbatim>\<open>double\<close> is a rational number (no rounding). A C++ object is a record, its members are fields
  (with a prefix where two classes share a name: \<open>bk_\<close> bank, \<open>rk_\<close> rank), a method is a function
  from the state to the state with the result. A failed assertion, a null pointer and an index
  out of range are \<open>None\<close>. Requests live in a heap (\<open>World\<close>, theory \<open>Memory_World\<close>) with the
  event queue and the random source, because the code shares pointers to them. Children are part
  of the state of their parent. What the configuration or another module supplies (decoder,
  random numbers, hooks of the parent) is an argument.

  \<^bold>\<open>Theories and what they show.\<close>

  \<^item> \<open>Prelude\<close>: machine types, word and list lemmas, and two predicates on computations in the
    option monad: \<open>returns m P\<close> (a result satisfies \<open>P\<close>) and \<open>succeeds m P\<close> (there is a result
    and it satisfies \<open>P\<close>), with their rules.
  \<^item> \<open>NVM_Types\<close>: \<^verbatim>\<open>include/NVMAddress\<close>, \<^verbatim>\<open>NVMDataBlock\<close>, \<^verbatim>\<open>NVMainRequest\<close>.
  \<^item> \<open>Address_Translation\<close>: \<^verbatim>\<open>src/AddressTranslator.cpp\<close>, \<^verbatim>\<open>src/TranslationMethod.cpp\<close>,
    \<^verbatim>\<open>mlog2\<close>. Translation and its reverse are inverse on the address space; a mapping scheme
    string always yields a permutation of the six partitions.
  \<^item> \<open>Ordered_Map\<close>, \<open>Event_Queue\<close>: \<^verbatim>\<open>src/EventQueue.cpp\<close>. The locale \<open>ordered_map\<close> is the part of
    \<^verbatim>\<open>std::map\<close> the queue uses, interpreted on sorted association lists. Insertion files an
    event stably by priority, removal undoes insertion, and the event loop terminates at its
    target cycle with everything due delivered for every handler that schedules into the future.
  \<^item> \<open>Params\<close>: the configuration object with its defaults.
  \<^item> \<open>Endurance\<close>: \<^verbatim>\<open>src/EnduranceModel.cpp\<close> and the row, word, byte and bit models: which cells
    a write wears, isolation of other cells, and the number of writes a cell survives.
  \<^item> \<open>Flip_N_Write\<close>: \<^verbatim>\<open>DataEncoders/FlipNWrite\<close>: decoding restores the data, and the number of
    bits written is at most half of each partition.
  \<^item> \<open>Cell_Counting\<close>: the bit-parallel counting of cells in \<^verbatim>\<open>src/SubArray.cpp\<close> equals a
    reference count.
  \<^item> \<open>Memory_World\<close>: heap of requests, event queue and data store, with the frame lemmas of the
    operations modules perform on them (\<open>world_ok\<close>, \<open>world_step\<close>).
  \<^item> \<open>Sub_Array\<close>, \<open>Sub_Array_Rules\<close>, \<open>Sub_Array_Timing\<close>, \<open>Sub_Array_Progress\<close>,
    \<open>Sub_Array_Events\<close>: \<^verbatim>\<open>src/SubArray.cpp\<close> with every command, write pausing and cancelling.
    Timing safety of every run; \<^verbatim>\<open>IssueCommand\<close> accepts exactly what the specification \<open>can_issue\<close>
    allows, an accepted command has the effect \<open>sub_did\<close> and files its completion at the right
    cycle, and a refused one leaves the control state alone; completions are delivered (locales
    \<open>completer\<close>, \<open>sub_system\<close>).
  \<^item> \<open>Command_Module\<close>: the locale \<open>command_module\<close>, the contract of \<^verbatim>\<open>IsIssuable\<close> and
    \<^verbatim>\<open>IssueCommand\<close> between parent and child, interpreted on the subarray, the bank and the rank, and the locale
    \<open>asked_module\<close> it implies, interpreted on the bus.
  \<^item> \<open>DDR3_Bank\<close>, \<open>DDR3_Bank_Contract\<close>, \<open>DDR3_Bank_Power\<close>: \<^verbatim>\<open>Banks/DDR3Bank/DDR3Bank.cpp\<close>. The
    bank keeps the contract (specification \<open>bank_can\<close>) and refines the power-state machine of a
    memory device (inductive relation \<open>power_step\<close>).
  \<^item> \<open>Standard_Rank\<close>, \<open>Standard_Rank_Contract\<close>, \<open>Standard_Rank_Window\<close>:
    \<^verbatim>\<open>Ranks/StandardRank/StandardRank.cpp\<close>. The rank keeps the contract (specification
    \<open>rank_can\<close>), its banks stay in power lockstep so that no assertion fails, and every run obeys
    the rolling activation window.
  \<^item> \<open>Interconnect\<close>, \<open>Interconnect_Safety\<close>: \<^verbatim>\<open>Interconnect/OffChipBus\<close> and \<^verbatim>\<open>OnChipBus\<close>. The bus
    keeps the weaker contract \<open>asked_module\<close> (a command is issued only after it was asked for,
    otherwise the code asserts), and column commands to different ranks keep their distance.
  \<^item> \<open>Command_Effects\<close>: what an accepted command does on a bank, a rank and the bus (specifications
    \<open>bank_did\<close>, \<open>rank_did\<close>, \<open>bus_did\<close>, down to \<open>sub_did\<close> of the subarrays concerned), and that
    \<^verbatim>\<open>IssueCommand\<close> of each level does it; a refused command changes only statistics.
  \<^item> \<open>Pin_Power\<close>: \<^verbatim>\<open>OffChipBus::CalculateIOPower\<close> equals the power dissipated in the resistor
    network of a pin under Kirchhoff's laws.
  \<^item> \<open>Memory_Controller\<close>, \<open>Memory_Scheduling\<close>: \<^verbatim>\<open>src/MemoryController.cpp\<close>, the base class of the
    controllers: queues, the view of the open rows, refresh, the searches for a transaction, the
    translation of a transaction into commands, low power, callbacks and configuration. The
    memory below is reached through the record \<open>Channel\<close> of its operations.
  \<^item> \<open>Schedulers\<close>, \<open>Write_Drain\<close>: \<^verbatim>\<open>MemControl/FCFS\<close>, \<^verbatim>\<open>FRFCFS\<close> and \<^verbatim>\<open>FRFCFS-WQF\<close>, as extensions of
    the record of the base class.
  \<^item> \<open>Controller_Queues\<close>: every address of the channel has a command queue, and which addresses
    share one.
  \<^item> \<open>Controller_Wake\<close>, \<open>Controller_Bus\<close>: the locale \<open>memory_channel\<close>, what a controller needs of the
    memory below it, interpreted on the bus; the mutual recursion of \<^verbatim>\<open>NextIssuable\<close>,
    \<^verbatim>\<open>HandleRefresh\<close> and \<^verbatim>\<open>ScheduleCommandWake\<close> ends.
  \<^item> \<open>Scheduler_Choice\<close>: what the schedulers choose, against the specification \<open>most_urgent\<close> (the
    earliest request of the highest \<open>urgency\<close>, given by the open row, the starvation counter and
    the refresh state), on a channel without row cache (locale \<open>uncached_channel\<close>, interpreted on
    the bus) and without write pausing; when the write drain may begin and end.
  \<^item> \<open>Controller_Config\<close>: configuring a controller establishes the invariants the scheduling
    theorems start from.
  \<^item> \<open>Cache_Bank\<close>, \<open>Cache_Store\<close>: \<^verbatim>\<open>Utils/Caches/CacheBank.cpp\<close>, the set-associative cache. Sequences of
    operations refine a store of lines by address (locale \<open>stepwise_refinement\<close>), the victim is the
    least recently read line, and a write that misses loses no other line; a write that hits may.
  \<^item> \<open>Trace_Files\<close>: \<^verbatim>\<open>traceReader/NVMainTrace\<close>, \<^verbatim>\<open>traceWriter/NVMainTrace\<close>: a written trace is read back
    unchanged.
  \<^item> \<open>Page_Migration\<close>: \<^verbatim>\<open>Decoders/Migrator\<close> and \<^verbatim>\<open>Utils/CoinMigrator\<close>. After any
    sequence of calls (inductive relation \<open>decoder_run\<close>) the decoder does what the history of the
    calls says (\<open>sent_to\<close>, \<open>stage_in\<close>, \<open>in_progress\<close>); the
    victims rotate through the fast channel; checkpoints restore the map of migrations.
  \<^item> \<open>Cache_Decoder\<close>: \<^verbatim>\<open>Decoders/DRCDecoder\<close> decodes a mixed-radix number.

  \<^bold>\<open>Bounds and termination.\<close> Loops of the code are structural recursion over lists; the event
  loop, which runs user handlers, and the computation of a controller's next wake-up, which is
  mutually recursive with refresh, are \<open>partial_function (option)\<close> and are proved to return. No
  fuel is used. Theorems that compare cycle numbers across additions state the absence of
  wrap-around as a hypothesis where it matters.

  \<^bold>\<open>Not modelled.\<close> Reading configuration files and printing statistics (\<^verbatim>\<open>src/Config.cpp\<close>,
  \<^verbatim>\<open>src/Stats.cpp\<close>), the other trace formats, the visualizer and the command-line driver are input and output.
  The hook lists of \<^verbatim>\<open>src/NVMObject.cpp\<close> are empty in the model: a call goes to the module
  itself. Random fault models are parameters. gem5 is a third-party program that calls the
  simulator. The DRAM caches and the remaining variants of controller and bank are listed in
  the manifest as not modelled.
\<close>

end
